(* ===== verification/Prelude.thy ===== *)
theory Prelude
  imports Main "HOL-Library.Word"
begin

text \<open>
  The shared vocabulary of the development.  A Rust computation that may stop early is a value
  of \<open>'a res\<close>: \<open>Inl e\<close> when the code panics (or, for \<open>UndefinedBehaviour\<close>, when an
  \<open>unsafe\<close> block is entered outside its contract), \<open>Inr x\<close> when it returns \<open>x\<close>.
  \<open>rbind\<close> sequences such computations, \<open>mapR\<close> and \<open>foldR\<close> are the two loop shapes the code
  uses most, and the lemmas below let the simplifier take a successful run apart.
\<close>

section \<open>Results\<close>

datatype error =
    Overflow \<comment> \<open>an arithmetic or shift overflow found by the compiler's checks\<close>
  | DivideByZero
  | IndexOutOfBounds
  | UnwrapFailed \<comment> \<open>unwrap or expect on None or Err\<close>
  | AssertFailed
  | ExplicitPanic
  | Todo \<comment> \<open>the todo! macro\<close>
  | Unreachable \<comment> \<open>the unreachable! macro\<close>
  | UndefinedBehaviour \<comment> \<open>an unchecked access out of range\<close>
  | StackOverflow \<comment> \<open>unbounded recursion of the program\<close>
  | OutOfFuel \<comment> \<open>the model's step bound is used up; no counterpart in the code\<close>

type_synonym 'a res = "error + 'a"

definition rbind :: "'a res \<Rightarrow> ('a \<Rightarrow> 'b res) \<Rightarrow> 'b res" where
  "rbind m f = (case m of Inl e \<Rightarrow> Inl e | Inr x \<Rightarrow> f x)"

definition unwrap :: "'a option \<Rightarrow> 'a res" where
  "unwrap v = (case v of None \<Rightarrow> Inl UnwrapFailed | Some x \<Rightarrow> Inr x)"

definition rassert :: "bool \<Rightarrow> unit res" where
  "rassert b = (if b then Inr () else Inl AssertFailed)"

fun mapR :: "('a \<Rightarrow> 'b res) \<Rightarrow> 'a list \<Rightarrow> 'b list res" where
  "mapR f [] = Inr []"
| "mapR f (x # xs) = rbind (f x) (\<lambda>y. rbind (mapR f xs) (\<lambda>ys. Inr (y # ys)))"

fun foldR :: "('a \<Rightarrow> 's \<Rightarrow> 's res) \<Rightarrow> 'a list \<Rightarrow> 's \<Rightarrow> 's res" where
  "foldR f [] s = Inr s"
| "foldR f (x # xs) s = rbind (f x s) (foldR f xs)"

named_theorems res_simps \<open>taking a successful run apart\<close>

lemma rbind_Inl [simp]: "rbind (Inl e) f = Inl e"
  by (simp add: rbind_def)

lemma rbind_Inr [simp]: "rbind (Inr x) f = f x"
  by (simp add: rbind_def)

lemma rbind_return [simp]: "rbind m Inr = m"
  by (cases m) simp_all

lemma rbind_InrE: "rbind m f = Inr y \<Longrightarrow> (\<And>x. m = Inr x \<Longrightarrow> f x = Inr y \<Longrightarrow> P) \<Longrightarrow> P"
  by (cases m) auto

lemma rbind_assoc: "rbind (rbind m f) g = rbind m (\<lambda>x. rbind (f x) g)"
  by (cases m) simp_all

lemma rbind_eq_Inr [res_simps]: "rbind m f = Inr y \<longleftrightarrow> (\<exists>x. m = Inr x \<and> f x = Inr y)"
  by (cases m) simp_all

lemma rbind_eq_Inl: "rbind m f = Inl e \<longleftrightarrow> m = Inl e \<or> (\<exists>x. m = Inr x \<and> f x = Inl e)"
  by (cases m) simp_all

lemma rbind_cong [fundef_cong]:
  "m = m' \<Longrightarrow> (\<And>x. m' = Inr x \<Longrightarrow> f x = g x) \<Longrightarrow> rbind m f = rbind m' g"
  by (cases m') auto

lemma unwrap_Some [simp]: "unwrap (Some x) = Inr x"
  by (simp add: unwrap_def)

lemma unwrap_None [simp]: "unwrap None = Inl UnwrapFailed"
  by (simp add: unwrap_def)

lemma unwrap_eq_Inr [res_simps]: "unwrap v = Inr x \<longleftrightarrow> v = Some x"
  by (cases v) auto

lemma rassert_True [simp]: "rassert True = Inr ()"
  by (simp add: rassert_def)

lemma rassert_eq_Inr [res_simps]: "rassert b = Inr u \<longleftrightarrow> b"
  by (simp add: rassert_def)

lemma mapR_cong [fundef_cong]:
  "xs = ys \<Longrightarrow> (\<And>x. x \<in> set ys \<Longrightarrow> f x = g x) \<Longrightarrow> mapR f xs = mapR g ys"
  by (induction xs arbitrary: ys) auto

lemma mapR_length: "mapR f xs = Inr ys \<Longrightarrow> length ys = length xs"
  by (induction xs arbitrary: ys) (auto simp: res_simps)

lemma mapR_eq_Inr: "mapR f xs = Inr ys \<longleftrightarrow> list_all2 (\<lambda>x y. f x = Inr y) xs ys"
proof (induction xs arbitrary: ys)
  case (Cons x xs)
  then show ?case
    by (cases ys) (auto simp: res_simps)
qed auto

lemma mapR_Inr_all: "(\<And>x. x \<in> set xs \<Longrightarrow> f x = Inr (g x)) \<Longrightarrow> mapR f xs = Inr (map g xs)"
  by (induction xs) auto

lemma mapR_append:
  "mapR f (xs @ ys) = rbind (mapR f xs) (\<lambda>us. rbind (mapR f ys) (\<lambda>vs. Inr (us @ vs)))"
proof (induction xs)
  case (Cons x xs)
  then show ?case
    by (cases "f x"; cases "mapR f xs"; cases "mapR f ys") simp_all
qed simp

lemma foldR_append: "foldR f (xs @ ys) s = rbind (foldR f xs s) (foldR f ys)"
proof (induction xs arbitrary: s)
  case (Cons x xs)
  then show ?case
    by (cases "f x s") simp_all
qed simp

lemma foldR_invariant:
  assumes "\<And>x s s'. x \<in> set xs \<Longrightarrow> P s \<Longrightarrow> f x s = Inr s' \<Longrightarrow> P s'"
    and "P s" and "foldR f xs s = Inr s'"
  shows "P s'"
  using assms
proof (induction xs arbitrary: s)
  case (Cons x xs)
  from Cons.prems(3) obtain t where t: "f x s = Inr t" "foldR f xs t = Inr s'"
    by (auto simp: res_simps)
  have "P t"
    using Cons.prems(1) [OF _ Cons.prems(2) t(1)] by simp
  moreover have "\<And>y s s'. y \<in> set xs \<Longrightarrow> P s \<Longrightarrow> f y s = Inr s' \<Longrightarrow> P s'"
    using Cons.prems(1) by (meson list.set_intros(2))
  ultimately show ?case
    using Cons.IH t(2) by blast
qed simp

section \<open>Lists and maps\<close>

lemma list_update_append_left [simp]:
  "i < length xs \<Longrightarrow> (xs @ ys)[i := v] = xs[i := v] @ ys"
  by (simp add: list_update_append)

lemma nth_append_left [simp]: "i < length xs \<Longrightarrow> (xs @ ys) ! i = xs ! i"
  by (simp add: nth_append)

lemma take_drop_slice_length [simp]:
  "i + n \<le> length xs \<Longrightarrow> length (take n (drop i xs)) = n"
  by simp

end
