(* ===== verification/Rust_Arith.thy ===== *)
theory Rust_Arith
  imports Prelude "HOL-Library.Signed_Division"
begin

text \<open>
  The part of Rust's integer arithmetic the sources use.  \<open>u64\<close> and \<open>i64\<close> are both
  \<open>64 word\<close>: an \<open>as\<close> cast between them is the identity, \<open>unat\<close> reads the unsigned and
  \<open>sint\<close> the signed value.  Smaller counts (\<open>u32\<close> widths, \<open>usize\<close> indices) are \<open>nat\<close> with
  the conversions' range checks written out.  The build profile decides what an overflow does
  (\<open>borealis/Cargo.toml\<close> and \<open>brig/Cargo.toml\<close>: the dev profile keeps the compiler's checks,
  the release profile turns them off), so it is a field of the environment \<open>rust_env\<close>, next to
  the IEEE operations on \<open>f64\<close> bit patterns, which stay parameters.
\<close>

unbundle bit_operations_syntax

type_synonym u8 = "8 word"
type_synonym u16 = "16 word"
type_synonym u32 = "32 word"
type_synonym u64 = "64 word"
type_synonym i64 = "64 word"
type_synonym f64 = "64 word"

datatype ordering = Less | Equal | Greater

record rust_env =
  overflow_checks :: bool
  f64_add :: "f64 \<Rightarrow> f64 \<Rightarrow> f64"
  f64_sub :: "f64 \<Rightarrow> f64 \<Rightarrow> f64"
  f64_mul :: "f64 \<Rightarrow> f64 \<Rightarrow> f64"
  f64_div :: "f64 \<Rightarrow> f64 \<Rightarrow> f64"
  f64_powi :: "f64 \<Rightarrow> int \<Rightarrow> f64"
  f64_of_i32 :: "int \<Rightarrow> f64"
  f64_partial_cmp :: "f64 \<Rightarrow> f64 \<Rightarrow> ordering option"

text \<open>
  An environment for closed examples: the dev profile, with simple functions on bit patterns in
  place of the IEEE operations, which no example below depends on.
\<close>

definition sample_env :: rust_env where
  "sample_env = \<lparr>overflow_checks = True,
     f64_add = (\<lambda>a b. a), f64_sub = (\<lambda>a b. a), f64_mul = (\<lambda>a b. a), f64_div = (\<lambda>a b. a),
     f64_powi = (\<lambda>a n. a), f64_of_i32 = word_of_int,
     f64_partial_cmp = (\<lambda>a b. if a = b then Some Equal else None)\<rparr>"

definition f64_eq :: "rust_env \<Rightarrow> f64 \<Rightarrow> f64 \<Rightarrow> bool" where
  "f64_eq E a b \<longleftrightarrow> f64_partial_cmp E a b = Some Equal"

text \<open>The result of an operator whose exact result is representable iff \<open>fits\<close>.\<close>

definition checked :: "rust_env \<Rightarrow> bool \<Rightarrow> 'a \<Rightarrow> 'a res" where
  "checked E fits v = (if fits \<or> \<not> overflow_checks E then Inr v else Inl Overflow)"

definition cmp :: "'a::linorder \<Rightarrow> 'a \<Rightarrow> ordering" where
  "cmp a b = (if a < b then Less else if a = b then Equal else Greater)"

section \<open>Unsigned 64-bit operators\<close>

definition u64_add :: "rust_env \<Rightarrow> u64 \<Rightarrow> u64 \<Rightarrow> u64 res" where
  "u64_add E a b = checked E (unat a + unat b < 2 ^ 64) (a + b)"

definition u64_sub :: "rust_env \<Rightarrow> u64 \<Rightarrow> u64 \<Rightarrow> u64 res" where
  "u64_sub E a b = checked E (b \<le> a) (a - b)"

definition u64_mul :: "rust_env \<Rightarrow> u64 \<Rightarrow> u64 \<Rightarrow> u64 res" where
  "u64_mul E a b = checked E (unat a * unat b < 2 ^ 64) (a * b)"

definition u64_div :: "u64 \<Rightarrow> u64 \<Rightarrow> u64 res" where
  "u64_div a b = (if b = 0 then Inl DivideByZero else Inr (a div b))"

text \<open>A shift by 64 or more panics under the checks and is taken modulo 64 without them.\<close>

definition u64_shl :: "rust_env \<Rightarrow> u64 \<Rightarrow> nat \<Rightarrow> u64 res" where
  "u64_shl E a n = checked E (n < 64) (push_bit (n mod 64) a)"

definition u64_shr :: "rust_env \<Rightarrow> u64 \<Rightarrow> nat \<Rightarrow> u64 res" where
  "u64_shr E a n = checked E (n < 64) (drop_bit (n mod 64) a)"

definition overflowing_shl :: "u64 \<Rightarrow> nat \<Rightarrow> u64 \<times> bool" where
  "overflowing_shl a n = (push_bit (n mod 64) a, 64 \<le> n)"

definition overflowing_shr :: "u64 \<Rightarrow> nat \<Rightarrow> u64 \<times> bool" where
  "overflowing_shr a n = (drop_bit (n mod 64) a, 64 \<le> n)"

section \<open>Signed 64-bit operators\<close>

definition fits_i64 :: "int \<Rightarrow> bool" where
  "fits_i64 k \<longleftrightarrow> - (2 ^ 63) \<le> k \<and> k < 2 ^ 63"

definition i64_add :: "rust_env \<Rightarrow> i64 \<Rightarrow> i64 \<Rightarrow> i64 res" where
  "i64_add E a b = checked E (fits_i64 (sint a + sint b)) (a + b)"

definition i64_sub :: "rust_env \<Rightarrow> i64 \<Rightarrow> i64 \<Rightarrow> i64 res" where
  "i64_sub E a b = checked E (fits_i64 (sint a - sint b)) (a - b)"

definition i64_mul :: "rust_env \<Rightarrow> i64 \<Rightarrow> i64 \<Rightarrow> i64 res" where
  "i64_mul E a b = checked E (fits_i64 (sint a * sint b)) (a * b)"

definition i64_neg :: "rust_env \<Rightarrow> i64 \<Rightarrow> i64 res" where
  "i64_neg E a = checked E (fits_i64 (- sint a)) (- a)"

text \<open>Signed division truncates; its one overflow (\<open>MIN / -1\<close>) panics in every profile.\<close>

definition i64_div :: "i64 \<Rightarrow> i64 \<Rightarrow> i64 res" where
  "i64_div a b =
     (if b = 0 then Inl DivideByZero
      else if \<not> fits_i64 (sint a sdiv sint b) then Inl Overflow
      else Inr (word_of_int (sint a sdiv sint b)))"

definition i64_shl :: "rust_env \<Rightarrow> i64 \<Rightarrow> nat \<Rightarrow> i64 res" where
  "i64_shl E a n = checked E (n < 64) (push_bit (n mod 64) a)"

definition i64_shr :: "rust_env \<Rightarrow> i64 \<Rightarrow> nat \<Rightarrow> i64 res" where
  "i64_shr E a n = checked E (n < 64) (signed_drop_bit (n mod 64) a)"

definition is_negative :: "i64 \<Rightarrow> bool" where
  "is_negative a \<longleftrightarrow> sint a < 0"

definition i64_cmp :: "i64 \<Rightarrow> i64 \<Rightarrow> ordering" where
  "i64_cmp a b = cmp (sint a) (sint b)"

section \<open>Conversions with a range check\<close>

definition u64_try_from_i64 :: "i64 \<Rightarrow> u64 res" where
  "u64_try_from_i64 a = (if sint a < 0 then Inl UnwrapFailed else Inr a)"

definition i64_try_from_u64 :: "u64 \<Rightarrow> i64 res" where
  "i64_try_from_u64 a = (if unat a < 2 ^ 63 then Inr a else Inl UnwrapFailed)"

definition u32_try_from_u64 :: "u64 \<Rightarrow> nat res" where
  "u32_try_from_u64 a = (if unat a < 2 ^ 32 then Inr (unat a) else Inl UnwrapFailed)"

definition u32_try_from_i64 :: "i64 \<Rightarrow> nat res" where
  "u32_try_from_i64 a =
     (if 0 \<le> sint a \<and> sint a < 2 ^ 32 then Inr (nat (sint a)) else Inl UnwrapFailed)"

definition i32_try_from_i64 :: "i64 \<Rightarrow> int res" where
  "i32_try_from_i64 a =
     (if - (2 ^ 31) \<le> sint a \<and> sint a < 2 ^ 31 then Inr (sint a) else Inl UnwrapFailed)"

section \<open>Unsigned 32-bit operators on counts\<close>

definition u32_add :: "rust_env \<Rightarrow> nat \<Rightarrow> nat \<Rightarrow> nat res" where
  "u32_add E a b = checked E (a + b < 2 ^ 32) ((a + b) mod 2 ^ 32)"

definition u32_mul :: "rust_env \<Rightarrow> nat \<Rightarrow> nat \<Rightarrow> nat res" where
  "u32_mul E a b = checked E (a * b < 2 ^ 32) ((a * b) mod 2 ^ 32)"

definition u32_sub :: "rust_env \<Rightarrow> nat \<Rightarrow> nat \<Rightarrow> nat res" where
  "u32_sub E a b = checked E (b \<le> a) (if b \<le> a then a - b else 2 ^ 32 + a - b)"

definition usize_mul :: "rust_env \<Rightarrow> nat \<Rightarrow> nat \<Rightarrow> nat res" where
  "usize_mul E a b = checked E (a * b < 2 ^ 64) ((a * b) mod 2 ^ 64)"

definition usize_add :: "rust_env \<Rightarrow> nat \<Rightarrow> nat \<Rightarrow> nat res" where
  "usize_add E a b = checked E (a + b < 2 ^ 64) ((a + b) mod 2 ^ 64)"

definition u32_try_from_usize :: "nat \<Rightarrow> nat res" where
  "u32_try_from_usize n = (if n < 2 ^ 32 then Inr n else Inl UnwrapFailed)"

section \<open>Lemmas\<close>

named_theorems arith_defs \<open>the definitions of the operators\<close>

lemmas [arith_defs] =
  u64_add_def u64_sub_def u64_mul_def u64_div_def u64_shl_def u64_shr_def
  i64_add_def i64_sub_def i64_mul_def i64_neg_def i64_div_def i64_shl_def i64_shr_def
  u64_try_from_i64_def i64_try_from_u64_def u32_try_from_u64_def u32_try_from_i64_def
  i32_try_from_i64_def u32_add_def u32_mul_def u32_sub_def usize_mul_def usize_add_def
  u32_try_from_usize_def

lemma sample_env_checks [simp]: "overflow_checks sample_env"
  by (simp add: sample_env_def)

lemma checked_True [simp]: "checked E True v = Inr v"
  by (simp add: checked_def)

lemma checked_eq_Inr [res_simps]:
  "checked E b v = Inr w \<longleftrightarrow> (b \<or> \<not> overflow_checks E) \<and> w = v"
  by (auto simp: checked_def)

lemma checked_dev: "overflow_checks E \<Longrightarrow> checked E b v = (if b then Inr v else Inl Overflow)"
  by (simp add: checked_def)

lemma checked_mono: "checked (E\<lparr>overflow_checks := True\<rparr>) b v = Inr w \<Longrightarrow> checked E b v = Inr w"
  by (simp add: checked_def split: if_splits)

lemma cmp_Less [simp]: "cmp a b = Less \<longleftrightarrow> a < b"
  and cmp_Equal [simp]: "cmp a b = Equal \<longleftrightarrow> a = b"
  and cmp_Greater [simp]: "cmp a b = Greater \<longleftrightarrow> b < a"
  by (auto simp: cmp_def)

lemma fits_i64_sint [simp]: "fits_i64 (sint (a :: i64))"
  using sint_greater_eq [of a] sint_lt [of a] by (simp add: fits_i64_def)

lemma sint_of_fitting: "fits_i64 k \<Longrightarrow> sint (word_of_int k :: i64) = k"
  by (simp add: fits_i64_def signed_take_bit_int_eq_self sint_sbintrunc')

lemma unat_u64_less: "unat (a :: u64) < 2 ^ 64"
  using unsigned_less [of a, where ?'a = nat] by simp

lemma sint64_eq: "sint (a :: i64) = (if unat a < 2^63 then int (unat a) else int (unat a) - 2^64)"
proof -
  have lt: "unat a < 2 ^ 64" using unsigned_less [of a, where ?'a = nat] by simp
  have "sint a = take_bit 64 (uint a) - 2 ^ 64 * of_bool (bit (uint a) 63)"
    by (simp add: sint_uint signed_take_bit_eq_take_bit_minus)
  also have "take_bit 64 (uint a) = uint a"
    using uint_lt2p [of a] by (simp add: take_bit_int_eq_self_iff)
  also have "bit (uint a) 63 \<longleftrightarrow> bit (unat a) 63"
    by (simp add: bit_unsigned_iff)
  also have "... \<longleftrightarrow> odd (unat a div 2 ^ 63)"
    by (simp only: bit_iff_odd)
  also have "... \<longleftrightarrow> \<not> unat a < 2 ^ 63"
  proof -
    have "unat a div 2 ^ 63 < 2" using lt by (simp add: less_mult_imp_div_less)
    then have "odd (unat a div 2 ^ 63) \<longleftrightarrow> unat a div 2 ^ 63 \<noteq> 0"
      by (metis One_nat_def dvd_0_right even_Suc less_2_cases odd_one)
    then show ?thesis by (simp add: div_eq_0_iff)
  qed
  finally show ?thesis by simp
qed

lemma sint_nonneg_iff: "0 \<le> sint (a :: i64) \<longleftrightarrow> unat a < 2 ^ 63"
proof -
  have "unat a < 2 ^ 64" using unsigned_less [of a, where ?'a = nat] by simp
  then have "int (unat a) < 2 ^ 64" by (metis of_nat_less_iff of_nat_numeral of_nat_power)
  then show ?thesis by (simp only: sint64_eq split: if_split) linarith
qed

lemma nonneg_i64_unat: "0 \<le> sint (a :: i64) \<Longrightarrow> sint a = int (unat a)"
  unfolding sint_nonneg_iff by (simp only: sint64_eq if_True)

end
