(* ===== verification/Bits.thy ===== *)
theory Bits
  imports Rust_Arith
begin

text \<open>
  The bit helpers of \<open>common/src/bits.rs\<close> and the width helpers of
  \<open>common/src/width_helpers.rs\<close>, which the constants, the optimiser and the interpreter share.
  \<open>bit_insert_bit\<close> and \<open>bit_extract_bit\<close> describe the results bit by bit; the insert/extract
  laws that the bit simplification pass relies on follow from them.
\<close>

unbundle bit_operations_syntax

section \<open>Masks, insertion and extraction\<close>

definition mask_u64 :: "nat \<Rightarrow> u64" where
  "mask_u64 width =
     (case overflowing_shl 1 width of (res, overflowed) \<Rightarrow>
        if overflowed then - 1 else res - 1)"

definition bit_insert :: "u64 \<Rightarrow> u64 \<Rightarrow> u64 \<Rightarrow> u64 \<Rightarrow> u64 res" where
  "bit_insert target source start len =
     (if 64 \<le> unat start
      then if source = 0 then Inr 0 else Inl ExplicitPanic
      else rbind (u32_try_from_u64 len) (\<lambda>n.
        let cleared_target = target AND NOT (push_bit (unat start) (mask_u64 n));
            shifted_source = push_bit (unat start) (source AND mask_u64 n)
        in Inr (cleared_target OR shifted_source)))"

definition bit_extract :: "rust_env \<Rightarrow> u64 \<Rightarrow> u64 \<Rightarrow> u64 \<Rightarrow> u64 res" where
  "bit_extract E value start len =
     rbind (u64_shr E value (unat start)) (\<lambda>shifted.
     rbind (u32_try_from_u64 len) (\<lambda>n. Inr (shifted AND mask_u64 n)))"

section \<open>Smallest widths\<close>

text \<open>\<open>next_power_of_two\<close> and \<open>ilog2\<close> of the standard library, on naturals.\<close>

function next_power_from :: "nat \<Rightarrow> nat \<Rightarrow> nat" where
  "next_power_from p n = (if 0 < p \<and> p < n then next_power_from (2 * p) n else p)"
  by pat_completeness auto
termination
  by (relation "measure (\<lambda>(p, n). n - p)") auto

fun ilog2 :: "nat \<Rightarrow> nat" where
  "ilog2 n = (if n < 2 then 0 else Suc (ilog2 (n div 2)))"

declare next_power_from.simps [simp del] ilog2.simps [simp del]

definition unsigned_smallest_width_of_value :: "rust_env \<Rightarrow> u64 \<Rightarrow> nat res" where
  "unsigned_smallest_width_of_value E value =
     rbind (u64_add E value 1) (\<lambda>v.
     let p = next_power_from 1 (unat v) in
     if p < 2 ^ 64 then Inr (ilog2 p)
     else if overflow_checks E then Inl Overflow
     else Inl ExplicitPanic)"

definition i64_abs :: "rust_env \<Rightarrow> i64 \<Rightarrow> i64 res" where
  "i64_abs E v = (if is_negative v then i64_neg E v else Inr v)"

definition signed_smallest_width_of_value :: "rust_env \<Rightarrow> i64 \<Rightarrow> nat res" where
  "signed_smallest_width_of_value E value =
     rbind (if is_negative value then rbind (i64_abs E value) (\<lambda>a. i64_sub E a 1)
            else i64_abs E value) (\<lambda>v.
     rbind (u64_try_from_i64 v) (\<lambda>u.
     rbind (unsigned_smallest_width_of_value E u) (\<lambda>w. u32_add E w 1)))"

section \<open>Lemmas\<close>

lemma mask_u64_eq: "mask_u64 n = mask (min n 64)"
proof (cases "64 \<le> n")
  case True
  then show ?thesis
    by (simp add: mask_u64_def overflowing_shl_def min_def mask_eq_exp_minus_1)
next
  case False
  then show ?thesis
    by (simp add: mask_u64_def overflowing_shl_def min_def mask_eq_exp_minus_1 push_bit_eq_mult)
qed

lemma bit_mask_u64 [simp]: "bit (mask_u64 n) i \<longleftrightarrow> i < 64 \<and> i < n"
  by (auto simp: mask_u64_eq bit_mask_iff possible_bit_def)

lemma mask_u64_0 [simp]: "mask_u64 0 = 0"
  by (simp add: mask_u64_eq)

lemma and_mask_u64_idem [simp]: "x AND mask_u64 n AND mask_u64 n = x AND mask_u64 n"
  by (simp add: and.assoc)

lemma and_mask_u64_full: "64 \<le> n \<Longrightarrow> x AND mask_u64 n = x"
  by (rule bit_word_eqI) (auto simp: bit_and_iff)

lemma and_mask_u64_bound: "n < 64 \<Longrightarrow> unat (x AND mask_u64 n) < 2 ^ n"
  by (simp add: mask_u64_eq min_def take_bit_eq_mask [symmetric] unsigned_take_bit_eq)

lemma and_mask_u64_id_iff: "x AND mask_u64 n = x \<longleftrightarrow> 64 \<le> n \<or> unat x < 2 ^ n"
proof (cases "64 \<le> n")
  case False
  then have "x AND mask_u64 n = x \<longleftrightarrow> take_bit n x = x"
    by (simp add: mask_u64_eq min_def take_bit_eq_mask)
  also have "... \<longleftrightarrow> unat (take_bit n x) = unat x"
    by (simp only: word_unat_eq_iff)
  also have "... \<longleftrightarrow> unat x < 2 ^ n"
    by (simp add: unsigned_take_bit_eq take_bit_nat_eq_self_iff)
  finally show ?thesis
    using False by simp
qed (simp add: and_mask_u64_full)

text \<open>The bits of an insertion: \<open>length\<close> bits of the source from \<open>start\<close>, the target elsewhere.\<close>

lemma bit_insert_bit:
  assumes "bit_insert t s st len = Inr r" and "unat st < 64" and "i < 64"
  shows "bit r i = (if unat st \<le> i \<and> i < unat st + unat len then bit s (i - unat st) else bit t i)"
  using assms
  by (auto simp: bit_insert_def Let_def res_simps u32_try_from_u64_def bit_simps split: if_splits)

lemma bit_extract_bit:
  assumes "bit_extract E v st len = Inr r" and "unat st < 64"
  shows "bit r i = (i < unat len \<and> bit v (unat st + i))"
proof -
  have "bit r i = (bit v (unat st + i) \<and> i < 64 \<and> i < unat len)"
    using assms
    by (auto simp: bit_extract_def arith_defs res_simps bit_simps split: if_splits)
  moreover have "bit v (unat st + i) \<Longrightarrow> i < 64"
    using bit_imp_le_length [of v "unat st + i"] by simp
  ultimately show ?thesis by blast
qed

lemma bit_insert_Inr:
  "unat st < 64 \<Longrightarrow> unat len < 2 ^ 32 \<Longrightarrow> \<exists>r. bit_insert t s st len = Inr r"
  by (simp add: bit_insert_def u32_try_from_u64_def Let_def)

lemma bit_extract_Inr:
  "unat st < 64 \<Longrightarrow> unat len < 2 ^ 32 \<Longrightarrow> \<exists>r. bit_extract E v st len = Inr r"
  by (simp add: bit_extract_def arith_defs)

lemma bit_extract_insert_same:
  assumes "unat st + unat len \<le> 64" and "0 < unat len"
  shows "rbind (bit_insert t s st len) (\<lambda>r. bit_extract E r st len) = Inr (s AND mask_u64 (unat len))"
proof -
  have st: "unat st < 64" and len: "unat len < 2 ^ 32" using assms by simp_all
  obtain r where r: "bit_insert t s st len = Inr r" using bit_insert_Inr [OF st len] by blast
  obtain x where x: "bit_extract E r st len = Inr x" using bit_extract_Inr [OF st len] by blast
  have "x = s AND mask_u64 (unat len)"
    using assms by (intro bit_word_eqI)
      (auto simp: bit_extract_bit [OF x st] bit_insert_bit [OF r st] bit_and_iff)
  with r x show ?thesis by simp
qed

lemma bit_extract_insert_other:
  assumes "unat st + unat len \<le> 64" and "unat st' + unat len' \<le> 64"
    and "unat st' + unat len' \<le> unat st \<or> unat st + unat len \<le> unat st'"
    and "unat st < 64" and "unat st' < 64"
  shows "rbind (bit_insert t s st len) (\<lambda>r. bit_extract E r st' len') = bit_extract E t st' len'"
proof -
  have len: "unat len < 2 ^ 32" "unat len' < 2 ^ 32" using assms by simp_all
  obtain r where r: "bit_insert t s st len = Inr r" using bit_insert_Inr assms len by blast
  obtain x where x: "bit_extract E r st' len' = Inr x" using bit_extract_Inr assms len by blast
  obtain y where y: "bit_extract E t st' len' = Inr y" using bit_extract_Inr assms len by blast
  have "x = y"
  proof (rule bit_word_eqI)
    fix i
    show "bit x i = bit y i"
      using assms by (auto simp: bit_extract_bit [OF x] bit_extract_bit [OF y] bit_insert_bit [OF r])
  qed
  with r x y show ?thesis by simp
qed

lemma next_power_from_spec:
  assumes "0 < p"
  shows "\<exists>k. next_power_from p n = p * 2 ^ k \<and> n \<le> p * 2 ^ k \<and> (k \<noteq> 0 \<longrightarrow> p * 2 ^ (k - 1) < n)"
  using assms
proof (induction p n rule: next_power_from.induct)
  case (1 p n)
  show ?case
  proof (cases "p < n")
    case True
    with "1" obtain k where k: "next_power_from (2 * p) n = 2 * p * 2 ^ k" "n \<le> 2 * p * 2 ^ k"
      "k \<noteq> 0 \<longrightarrow> 2 * p * 2 ^ (k - 1) < n" by auto
    then have "next_power_from p n = p * 2 ^ Suc k" using True "1.prems"
      by (simp add: next_power_from.simps [of p n])
    moreover have "p * 2 ^ k < n"
      using k(3) True by (cases k) auto
    ultimately show ?thesis using k(2) by (intro exI [of _ "Suc k"]) auto
  next
    case False
    then show ?thesis
      by (intro exI [of _ 0]) (simp add: next_power_from.simps [of p n])
  qed
qed

lemma next_power_of_two_spec:
  obtains k where "next_power_from 1 n = 2 ^ k" and "n \<le> 2 ^ k"
    and "k \<noteq> 0 \<Longrightarrow> 2 ^ (k - 1) < n"
  using next_power_from_spec [of 1 n] by (simp only: mult_1 zero_less_one) blast

lemma ilog2_power [simp]: "ilog2 (2 ^ k) = k"
proof (induction k)
  case 0
  then show ?case by (simp add: ilog2.simps)
next
  case (Suc k)
  then show ?case by (subst ilog2.simps) simp
qed

lemma unsigned_smallest_width_ok:
  assumes "unat v < 2 ^ 63"
  shows "\<exists>w. unsigned_smallest_width_of_value E v = Inr w \<and> w \<le> 63 \<and> unat v < 2 ^ w
           \<and> (\<forall>w' < w. 2 ^ w' \<le> unat v)"
proof -
  have v1: "unat (v + 1) = unat v + 1"
    using assms by (simp add: unat_word_ariths)
  have add: "u64_add E v 1 = Inr (v + 1)"
    using assms by (simp add: u64_add_def)
  obtain k where k: "next_power_from 1 (unat v + 1) = 2 ^ k" "unat v + 1 \<le> 2 ^ k"
    "k \<noteq> 0 \<Longrightarrow> 2 ^ (k - 1) < unat v + 1"
    by (rule next_power_of_two_spec [of "unat v + 1"]) blast
  have k63: "k \<le> 63"
  proof (rule ccontr)
    assume "\<not> k \<le> 63"
    then have "(2::nat) ^ 63 \<le> 2 ^ (k - 1)" by (intro power_increasing) auto
    moreover have "2 ^ (k - 1) < unat v + 1" using k(3) \<open>\<not> k \<le> 63\<close> by linarith
    ultimately show False using assms by linarith
  qed
  have lt: "(2::nat) ^ k < 2 ^ 64" using k63 by (intro power_strict_increasing) auto
  have "unsigned_smallest_width_of_value E v = Inr k"
    using lt by (simp only: unsigned_smallest_width_of_value_def add rbind_Inr v1 k(1) Let_def if_True ilog2_power)
  moreover have "2 ^ w' \<le> unat v" if "w' < k" for w'
  proof -
    have "(2::nat) ^ w' \<le> 2 ^ (k - 1)" using that by (intro power_increasing) auto
    then show ?thesis using k(3) that by linarith
  qed
  moreover have "unat v < 2 ^ k" using k(2) by linarith
  ultimately show ?thesis using k63 by blast
qed

lemma unsigned_smallest_width_big:
  assumes "2 ^ 63 \<le> unat v" and "overflow_checks E"
  shows "unsigned_smallest_width_of_value E v = Inl Overflow"
proof (cases "unat v + 1 < 2 ^ 64")
  case True
  then have v1: "unat (v + 1) = unat v + 1" by (simp add: unat_word_ariths)
  obtain k where k: "next_power_from 1 (unat v + 1) = 2 ^ k" "unat v + 1 \<le> 2 ^ k"
    by (rule next_power_of_two_spec [of "unat v + 1"]) blast
  have "k > 63"
  proof (rule ccontr)
    assume "\<not> 63 < k"
    then have "(2::nat) ^ k \<le> 2 ^ 63" by (intro power_increasing) auto
    then show False using k(2) assms(1) by linarith
  qed
  then have "(2::nat) ^ 64 \<le> 2 ^ k" by (intro power_increasing) auto
  then have "\<not> (2::nat) ^ k < 2 ^ 64" by linarith
  moreover have "u64_add E v 1 = Inr (v + 1)" using True by (simp add: u64_add_def)
  ultimately show ?thesis using assms(2)
    by (simp only: unsigned_smallest_width_of_value_def rbind_Inr v1 k(1) Let_def if_False if_True)
next
  case False
  then show ?thesis using assms(2)
    by (simp add: unsigned_smallest_width_of_value_def u64_add_def checked_def)
qed

lemma sint_neg_i64: "sint v \<noteq> - (2 ^ 63) \<Longrightarrow> sint (- v :: i64) = - sint v"
proof -
  assume v: "sint v \<noteq> - (2 ^ 63)"
  then have "fits_i64 (- sint v)"
    using fits_i64_sint [of v] by (simp add: fits_i64_def)
  from sint_of_fitting [OF this] show ?thesis
    by (simp add: wi_hom_neg [symmetric])
qed

lemma sint_sub_i64: "fits_i64 (sint a - sint b) \<Longrightarrow> sint (a - b :: i64) = sint a - sint b"
  using sint_of_fitting [of "sint a - sint b"] by (simp add: wi_hom_sub [symmetric])

text \<open>The non-negative number whose unsigned width decides the signed width.\<close>

definition magnitude :: "i64 \<Rightarrow> nat" where
  "magnitude v = nat (if sint v < 0 then - sint v - 1 else sint v)"

lemma magnitude_computed:
  assumes "sint v \<noteq> - (2 ^ 63)"
  obtains u where "unat u = magnitude v" and
    "rbind (if is_negative v then rbind (i64_abs E v) (\<lambda>a. i64_sub E a 1) else i64_abs E v)
       u64_try_from_i64 = Inr u"
proof (cases "sint v < 0")
  case True
  have v: "- (2 ^ 63) < sint v" using assms fits_i64_sint [of v] by (simp add: fits_i64_def)
  have neg: "i64_neg E v = Inr (- v)"
    using True v by (simp add: i64_neg_def fits_i64_def)
  have fit: "fits_i64 (sint (- v) - sint (1 :: i64))"
    using True v sint_neg_i64 [OF assms] by (simp add: fits_i64_def)
  have sub: "i64_sub E (- v) 1 = Inr (- v - 1)"
    using fit by (simp add: i64_sub_def)
  have s: "sint (- v - 1) = - sint v - 1"
    using sint_sub_i64 [OF fit] sint_neg_i64 [OF assms] by simp
  have "unat (- v - 1) = magnitude v"
    using nonneg_i64_unat [of "- v - 1"] s True by (simp add: magnitude_def)
  moreover have "u64_try_from_i64 (- v - 1) = Inr (- v - 1)"
    using s True by (simp add: u64_try_from_i64_def)
  ultimately show ?thesis
    using that True neg sub by (simp add: is_negative_def i64_abs_def)
next
  case False
  then show ?thesis
    using that [of v] nonneg_i64_unat [of v]
    by (simp add: is_negative_def i64_abs_def u64_try_from_i64_def magnitude_def)
qed

lemma magnitude_less_iff:
  "magnitude v < 2 ^ k \<longleftrightarrow> - (2 ^ k) \<le> sint v \<and> sint v < 2 ^ k"
proof -
  have "magnitude v < 2 ^ k \<longleftrightarrow> int (magnitude v) < 2 ^ k"
    by (metis of_nat_less_iff of_nat_numeral of_nat_power)
  also have "int (magnitude v) = (if sint v < 0 then - sint v - 1 else sint v)"
    by (simp add: magnitude_def)
  finally show ?thesis
    using zero_less_power [of "2 :: int" k] by (auto split: if_splits)
qed

text \<open>
  For every \<open>i64\<close> but the least one, \<open>signed_smallest_width_of_value\<close> returns the smallest
  width at which the value is representable in two's complement: the value lies in
  \<open>[-2^(w-1), 2^(w-1))\<close> for the width \<open>w\<close> it returns and for no smaller one.
\<close>

theorem signed_smallest_width_minimal:
  assumes "sint v \<noteq> - (2 ^ 63)"
  shows "\<exists>w. signed_smallest_width_of_value E v = Inr (Suc w) \<and> w \<le> 63
           \<and> - (2 ^ w) \<le> sint v \<and> sint v < 2 ^ w
           \<and> (\<forall>w' < w. \<not> (- (2 ^ w') \<le> sint v \<and> sint v < 2 ^ w'))"
proof -
  obtain u where u: "unat u = magnitude v" and step:
    "rbind (if is_negative v then rbind (i64_abs E v) (\<lambda>a. i64_sub E a 1) else i64_abs E v)
       u64_try_from_i64 = Inr u"
    by (rule magnitude_computed [OF assms])
  have "unat u < 2 ^ 63"
    unfolding u magnitude_less_iff using fits_i64_sint [of v] unfolding fits_i64_def .
  from unsigned_smallest_width_ok [OF this, of E] obtain k where
    k: "unsigned_smallest_width_of_value E u = Inr k" "k \<le> 63" "unat u < 2 ^ k"
      "\<forall>w' < k. 2 ^ w' \<le> unat u" by blast
  have "signed_smallest_width_of_value E v =
      rbind (Inr u) (\<lambda>u. rbind (unsigned_smallest_width_of_value E u) (\<lambda>w. u32_add E w 1))"
    unfolding signed_smallest_width_of_value_def step [symmetric] rbind_assoc ..
  also have "... = Inr (Suc k)"
    using k(1,2) by (simp add: u32_add_def)
  finally have "signed_smallest_width_of_value E v = Inr (Suc k)" .
  moreover have "- (2 ^ k) \<le> sint v \<and> sint v < 2 ^ k"
    using k(3) unfolding u magnitude_less_iff .
  moreover have "\<forall>w' < k. \<not> (- (2 ^ w') \<le> sint v \<and> sint v < 2 ^ w')"
    using k(4) unfolding u magnitude_less_iff [symmetric] not_less .
  ultimately show ?thesis
    using k(2) by (intro exI [of _ k] conjI) simp_all
qed

text \<open>A witness: the width of \<open>-2\<close> is 2, as the unit test \<open>_neg2\<close> of the source expects.\<close>

theorem signed_smallest_width_minimal_witness:
  "sint (- 2 :: i64) \<noteq> - (2 ^ 63) \<and>
   (\<exists>w. signed_smallest_width_of_value sample_env (- 2) = Inr (Suc w) \<and> w \<le> 63
      \<and> - (2 ^ w) \<le> sint (- 2 :: i64) \<and> sint (- 2 :: i64) < 2 ^ w
      \<and> (\<forall>w' < w. \<not> (- (2 ^ w') \<le> sint (- 2 :: i64) \<and> sint (- 2 :: i64) < 2 ^ w')))"
proof -
  have "sint (- 2 :: i64) \<noteq> - (2 ^ 63)" by simp
  then show ?thesis using signed_smallest_width_minimal by blast
qed

text \<open>
  Writing a field with \<open>bit_insert\<close> and reading it back with \<open>bit_extract\<close> gives the field's
  bits of the source, and reading any field that does not overlap gives what the target held;
  both for fields inside the 64 bits, and neither operation panics there.
\<close>

theorem bit_insert_extract_laws:
  assumes "unat st + unat len \<le> 64" and "0 < unat len"
    and "unat st' + unat len' \<le> 64" and "0 < unat len'"
  shows "rbind (bit_insert t s st len) (\<lambda>r. bit_extract E r st len)
           = Inr (s AND mask_u64 (unat len))
       \<and> (unat st' + unat len' \<le> unat st \<or> unat st + unat len \<le> unat st' \<longrightarrow>
            rbind (bit_insert t s st len) (\<lambda>r. bit_extract E r st' len')
              = bit_extract E t st' len')"
  using assms bit_extract_insert_same [OF assms(1,2)]
    bit_extract_insert_other [OF assms(1,3)] by simp

theorem bit_insert_extract_laws_witness:
  "rbind (bit_insert 0xff00 0xab 4 8) (\<lambda>r. bit_extract sample_env r 4 8) = Inr (0xab AND mask_u64 8)
   \<and> rbind (bit_insert 0xff00 0xab 4 8) (\<lambda>r. bit_extract sample_env r 12 4) = bit_extract sample_env 0xff00 12 4"
  using bit_insert_extract_laws [of 4 8 12 4 "0xff00" "0xab" sample_env] by simp

end
