(* ===== verification/Rudder_Types.thy ===== *)
theory Rudder_Types
  imports Bits
begin

text \<open>
  The types of the Rudder intermediate representation, \<open>common/src/rudder/types.rs\<close>.  Widths are
  \<open>u32\<close> in the code and \<open>nat\<close> here, with the overflow of each product and sum written out.
  The lemmas give the layout facts the register file and the vector passes rely on: sizes in
  bytes cover the bits, and element offsets of a vector stay inside it.
\<close>

datatype primitive_type =
    UnsignedIntegerT nat
  | SignedIntegerT nat
  | FloatingPointT nat

fun primitive_width :: "primitive_type \<Rightarrow> nat" where
  "primitive_width (FloatingPointT w) = w"
| "primitive_width (SignedIntegerT w) = w"
| "primitive_width (UnsignedIntegerT w) = w"

datatype rtype =
    Primitive primitive_type
  | Vector (element_count: nat) (element_type: rtype)
  | TupleT "rtype list"
  | BitsT
  | IntT
  | StringT
  | RealT

definition div_ceil :: "nat \<Rightarrow> nat \<Rightarrow> nat" where
  "div_ceil a b = a div b + (if a mod b = 0 then 0 else 1)"

fun width_bits :: "rust_env \<Rightarrow> rtype \<Rightarrow> nat res"
  and width_bytes :: "rust_env \<Rightarrow> rtype \<Rightarrow> nat res"
  and width_bits_alinged :: "rust_env \<Rightarrow> rtype \<Rightarrow> nat res"
  and sum_widths :: "rust_env \<Rightarrow> rtype list \<Rightarrow> nat \<Rightarrow> nat res" where
  "width_bits E (Primitive p) = Inr (primitive_width p)"
| "width_bits E (Vector n t) =
     rbind (width_bits_alinged E t) (\<lambda>w. rbind (usize_mul E w n) u32_try_from_usize)"
| "width_bits E BitsT = Inr 64"
| "width_bits E IntT = Inr 64"
| "width_bits E StringT = Inr 32"
| "width_bits E (TupleT ts) = sum_widths E ts 0"
| "width_bits E RealT = Inl Todo"
| "width_bytes E t = rbind (width_bits E t) (\<lambda>w. Inr (div_ceil w 8))"
| "width_bits_alinged E t = rbind (width_bytes E t) (\<lambda>b. u32_mul E b 8)"
| "sum_widths E [] acc = Inr acc"
| "sum_widths E (t # ts) acc =
     rbind (width_bits_alinged E t) (\<lambda>w. rbind (u32_add E acc w) (\<lambda>acc. sum_widths E ts acc))"

declare width_bytes.simps [simp del] width_bits_alinged.simps [simp del]

definition byte_offset :: "rust_env \<Rightarrow> rtype \<Rightarrow> nat \<Rightarrow> nat option res" where
  "byte_offset E t element_field =
     (case t of
        Vector n et \<Rightarrow>
          rbind (width_bytes E et) (\<lambda>w. rbind (usize_mul E element_field w) (\<lambda>off. Inr (Some off)))
      | _ \<Rightarrow> Inr None)"

abbreviation u1 :: rtype where "u1 \<equiv> Primitive (UnsignedIntegerT 1)"
abbreviation u16_t :: rtype where "u16_t \<equiv> Primitive (UnsignedIntegerT 16)"
abbreviation u64_t :: rtype where "u64_t \<equiv> Primitive (UnsignedIntegerT 64)"
abbreviation s64_t :: rtype where "s64_t \<equiv> Primitive (SignedIntegerT 64)"

definition vectorize :: "rtype \<Rightarrow> nat \<Rightarrow> rtype" where
  "vectorize t n = Vector n t"

definition is_bits :: "rtype \<Rightarrow> bool" where
  "is_bits t \<longleftrightarrow> t = BitsT"

definition is_u1 :: "rtype \<Rightarrow> bool" where
  "is_u1 t \<longleftrightarrow> t = Primitive (UnsignedIntegerT 1)"

definition is_unknown_length_vector :: "rtype \<Rightarrow> bool" where
  "is_unknown_length_vector t \<longleftrightarrow> (case t of Vector n _ \<Rightarrow> n = 0 | _ \<Rightarrow> False)"

section \<open>Layout\<close>

lemma div_ceil_le: "a \<le> div_ceil a 8 * 8"
  unfolding div_ceil_def by (cases "a mod 8 = 0") presburger+

lemma div_ceil_mult [simp]: "div_ceil (n * 8) 8 = n"
  by (simp add: div_ceil_def)

lemma div_ceil_less: "div_ceil a 8 * 8 < a + 8"
  unfolding div_ceil_def by (cases "a mod 8 = 0") presburger+

lemma width_bytes_covers:
  assumes "width_bytes E t = Inr b"
  shows "\<exists>w. width_bits E t = Inr w \<and> w \<le> 8 * b \<and> 8 * b < w + 8"
  using assms div_ceil_le div_ceil_less by (auto simp: width_bytes.simps res_simps mult.commute)

text \<open>
  C40: in a checked build, whenever the width of a vector type is computed at all, the offset
  \<open>byte_offset\<close> gives for any element below the element count is that many whole elements, and
  the element that starts there ends within the vector's \<open>width_bytes\<close>.
\<close>

theorem vector_elements_in_bounds:
  assumes "overflow_checks E" and "width_bytes E (Vector n t) = Inr size_v"
    and "width_bytes E t = Inr b" and "i < n"
  shows "byte_offset E (Vector n t) i = Inr (Some (i * b)) \<and> i * b + b \<le> size_v \<and> size_v = n * b"
proof -
  from assms(1,2,3) have bits: "n * b < 2 ^ 32" and size_v: "size_v = div_ceil (b * 8 * n) 8"
    by (auto simp: width_bytes.simps width_bits_alinged.simps res_simps arith_defs split: if_splits)
  have "b * 8 * n = (n * b) * 8" by simp
  then have t: "size_v = n * b" using size_v by (simp only: div_ceil_mult)
  have "Suc i * b \<le> n * b" using assms(4) by (intro mult_le_mono1) simp
  then have le: "i * b + b \<le> n * b" by simp
  have "i * b < 2 ^ 64" using le bits by simp
  then have "byte_offset E (Vector n t) i = Inr (Some (i * b))"
    using assms(1,3) by (simp add: byte_offset_def usize_mul_def checked_def)
  with t le show ?thesis by simp
qed

theorem vector_elements_in_bounds_witness:
  "overflow_checks sample_env
   \<and> width_bytes sample_env (Vector 4 (Primitive (UnsignedIntegerT 12))) = Inr 8
   \<and> byte_offset sample_env (Vector 4 (Primitive (UnsignedIntegerT 12))) 3 = Inr (Some (3 * 2))
   \<and> 3 * 2 + 2 \<le> (8 :: nat)"
proof -
  have v: "width_bytes sample_env (Vector 4 (Primitive (UnsignedIntegerT 12))) = Inr 8"
    and e: "width_bytes sample_env (Primitive (UnsignedIntegerT 12)) = Inr 2"
    by (simp_all add: width_bytes.simps width_bits_alinged.simps arith_defs div_ceil_def)
  show ?thesis
    using vector_elements_in_bounds [OF sample_env_checks v e, of 3] v by simp
qed

end
