(* ===== verification/Rudder_Constant.thy ===== *)
theory Rudder_Constant
  imports Rudder_Types
begin

text \<open>
  The constants of the representation and their arithmetic,
  \<open>common/src/rudder/constant/mod.rs\<close> and \<open>operations.rs\<close>.  A constant is well formed when its
  value is the one its width stores: \<open>constant_wf\<close> is the invariant that the constructors
  \<open>new_unsigned\<close> and \<open>new_signed\<close> establish, and \<open>const_int\<close> reads the integer it denotes.
\<close>

unbundle bit_operations_syntax

datatype rconst =
    UnsignedInteger u64 nat
  | SignedInteger i64 nat
  | FloatingPoint f64 nat
  | StringC string
  | TupleC "rconst list"
  | VectorC "rconst list"

section \<open>Constructors and observers\<close>

definition new_float :: "f64 \<Rightarrow> nat \<Rightarrow> rconst res" where
  "new_float value width = (if width = 64 then Inr (FloatingPoint value width) else Inl Todo)"

definition new_signed :: "rust_env \<Rightarrow> i64 \<Rightarrow> nat \<Rightarrow> rconst res" where
  "new_signed E value width =
     (let masked = value AND mask_u64 width in
      rbind (u32_sub E 64 width) (\<lambda>shift_amount.
      rbind (i64_shl E masked shift_amount) (\<lambda>l.
      rbind (i64_shr E l shift_amount) (\<lambda>sign_extended.
      Inr (SignedInteger sign_extended width)))))"

definition new_unsigned :: "u64 \<Rightarrow> nat \<Rightarrow> rconst" where
  "new_unsigned value width = UnsignedInteger (value AND mask_u64 width) width"

fun const_typ :: "rconst \<Rightarrow> rtype res"
  and const_typs :: "rconst list \<Rightarrow> rtype list res" where
  "const_typ (UnsignedInteger _ width) = Inr (Primitive (UnsignedIntegerT width))"
| "const_typ (SignedInteger _ width) = Inr (Primitive (SignedIntegerT width))"
| "const_typ (FloatingPoint _ width) = Inr (Primitive (FloatingPointT width))"
| "const_typ (StringC _) = Inr StringT"
| "const_typ (VectorC []) = Inl IndexOutOfBounds"
| "const_typ (VectorC (v # vs)) =
     rbind (const_typ v) (\<lambda>t. Inr (Vector (length (v # vs)) t))"
| "const_typ (TupleC vs) = rbind (const_typs vs) (\<lambda>ts. Inr (TupleT ts))"
| "const_typs [] = Inr []"
| "const_typs (v # vs) = rbind (const_typ v) (\<lambda>t. rbind (const_typs vs) (\<lambda>ts. Inr (t # ts)))"

fun is_zero :: "rust_env \<Rightarrow> rconst \<Rightarrow> bool option" where
  "is_zero E (UnsignedInteger value _) = Some (value = 0)"
| "is_zero E (SignedInteger value _) = Some (value = 0)"
| "is_zero E (FloatingPoint value _) = Some (f64_eq E value 0)"
| "is_zero E _ = None"

fun bit_length :: "nat \<Rightarrow> nat" where
  "bit_length n = (if n = 0 then 0 else Suc (bit_length (n div 2)))"

declare bit_length.simps [simp del]

text \<open>\<open>BITS - leading_zeros\<close> is the length of the binary representation.\<close>

fun smallest_width :: "rconst \<Rightarrow> nat res" where
  "smallest_width (UnsignedInteger value _) = Inr (bit_length (unat value))"
| "smallest_width (SignedInteger value _) = Inr (bit_length (unat value))"
| "smallest_width _ = Inl ExplicitPanic"

section \<open>Operators\<close>

fun const_powi :: "rust_env \<Rightarrow> rconst \<Rightarrow> rconst \<Rightarrow> rconst res" where
  "const_powi E (FloatingPoint value width) (SignedInteger i _) =
     rbind (i32_try_from_i64 i) (\<lambda>k. new_float (f64_powi E value k) width)"
| "const_powi E _ (SignedInteger i _) = Inl Todo"
| "const_powi E _ _ = Inl ExplicitPanic"

fun const_add :: "rust_env \<Rightarrow> rconst \<Rightarrow> rconst \<Rightarrow> rconst res" where
  "const_add E (UnsignedInteger l l_width) (UnsignedInteger r _) =
     rbind (u64_add E l r) (\<lambda>v. Inr (new_unsigned v l_width))"
| "const_add E (SignedInteger l l_width) (UnsignedInteger r _) =
     rbind (i64_try_from_u64 r) (\<lambda>r. rbind (i64_add E l r) (\<lambda>v. new_signed E v l_width))"
| "const_add E (UnsignedInteger l l_width) (SignedInteger r _) =
     rbind (i64_try_from_u64 l) (\<lambda>l. rbind (i64_add E l r) (\<lambda>v. new_signed E v l_width))"
| "const_add E (SignedInteger l l_width) (SignedInteger r _) =
     rbind (i64_add E l r) (\<lambda>v. new_signed E v l_width)"
| "const_add E (FloatingPoint l l_width) (FloatingPoint r _) = new_float (f64_add E l r) l_width"
| "const_add E _ _ = Inl ExplicitPanic"

fun const_sub :: "rust_env \<Rightarrow> rconst \<Rightarrow> rconst \<Rightarrow> rconst res" where
  "const_sub E (UnsignedInteger l l_width) (UnsignedInteger r _) =
     rbind (u64_sub E l r) (\<lambda>v. Inr (new_unsigned v l_width))"
| "const_sub E (SignedInteger l l_width) (SignedInteger r _) =
     rbind (i64_sub E l r) (\<lambda>v. new_signed E v l_width)"
| "const_sub E (FloatingPoint l l_width) (FloatingPoint r _) = new_float (f64_sub E l r) l_width"
| "const_sub E (UnsignedInteger l l_width) (SignedInteger r r_width) =
     rbind (rassert (l_width = r_width)) (\<lambda>_.
     rbind (i64_try_from_u64 l) (\<lambda>l. rbind (i64_sub E l r) (\<lambda>v. Inr (SignedInteger v l_width))))"
| "const_sub E _ _ = Inl ExplicitPanic"

fun const_mul :: "rust_env \<Rightarrow> rconst \<Rightarrow> rconst \<Rightarrow> rconst res" where
  "const_mul E (UnsignedInteger l l_width) (UnsignedInteger r _) =
     rbind (u64_mul E l r) (\<lambda>v. Inr (new_unsigned v l_width))"
| "const_mul E (SignedInteger l l_width) (SignedInteger r _) =
     rbind (i64_mul E l r) (\<lambda>v. new_signed E v l_width)"
| "const_mul E (SignedInteger l l_width) (UnsignedInteger r _) =
     rbind (i64_try_from_u64 r) (\<lambda>r. rbind (i64_mul E l r) (\<lambda>v. new_signed E v l_width))"
| "const_mul E (FloatingPoint l l_width) (FloatingPoint r _) = new_float (f64_mul E l r) l_width"
| "const_mul E _ _ = Inl ExplicitPanic"

fun const_div :: "rust_env \<Rightarrow> rconst \<Rightarrow> rconst \<Rightarrow> rconst res" where
  "const_div E (UnsignedInteger l l_width) (UnsignedInteger r _) =
     rbind (u64_div l r) (\<lambda>v. Inr (new_unsigned v l_width))"
| "const_div E (SignedInteger l l_width) (SignedInteger r _) =
     rbind (i64_div l r) (\<lambda>v. new_signed E v l_width)"
| "const_div E (FloatingPoint l l_width) (FloatingPoint r _) = new_float (f64_div E l r) l_width"
| "const_div E _ _ = Inl ExplicitPanic"

fun const_not :: "rconst \<Rightarrow> rconst res" where
  "const_not (UnsignedInteger value width) = Inr (new_unsigned (NOT value) width)"
| "const_not (SignedInteger _ _) = Inl Todo"
| "const_not _ = Inl ExplicitPanic"

fun const_xor :: "rconst \<Rightarrow> rconst \<Rightarrow> rconst res" where
  "const_xor (UnsignedInteger l l_width) (UnsignedInteger r _) =
     Inr (new_unsigned (l XOR r) l_width)"
| "const_xor _ _ = Inl ExplicitPanic"

fun const_partial_cmp :: "rust_env \<Rightarrow> rconst \<Rightarrow> rconst \<Rightarrow> ordering option" where
  "const_partial_cmp E (UnsignedInteger l _) (UnsignedInteger r _) = Some (cmp l r)"
| "const_partial_cmp E (SignedInteger l _) (SignedInteger r _) = Some (i64_cmp l r)"
| "const_partial_cmp E (FloatingPoint l _) (FloatingPoint r _) = f64_partial_cmp E l r"
| "const_partial_cmp E _ _ = None"

text \<open>The derived equality compares constructors, values and widths; floats by IEEE equality.\<close>

fun const_eq :: "rust_env \<Rightarrow> rconst \<Rightarrow> rconst \<Rightarrow> bool"
  and consts_eq :: "rust_env \<Rightarrow> rconst list \<Rightarrow> rconst list \<Rightarrow> bool" where
  "const_eq E (UnsignedInteger a w) (UnsignedInteger b w') = (a = b \<and> w = w')"
| "const_eq E (SignedInteger a w) (SignedInteger b w') = (a = b \<and> w = w')"
| "const_eq E (FloatingPoint a w) (FloatingPoint b w') = (f64_eq E a b \<and> w = w')"
| "const_eq E (StringC s) (StringC t) = (s = t)"
| "const_eq E (TupleC xs) (TupleC ys) = consts_eq E xs ys"
| "const_eq E (VectorC xs) (VectorC ys) = consts_eq E xs ys"
| "const_eq E _ _ = False"
| "consts_eq E [] [] = True"
| "consts_eq E (x # xs) (y # ys) = (const_eq E x y \<and> consts_eq E xs ys)"
| "consts_eq E _ _ = False"


section \<open>The width invariant\<close>

definition sign_extend_from :: "nat \<Rightarrow> i64 \<Rightarrow> i64" where
  "sign_extend_from w v = signed_drop_bit (64 - w) (push_bit (64 - w) v)"

lemma sint_sign_extend_from:
  assumes "1 \<le> w" "w \<le> 64"
  shows "sint (sign_extend_from w v) = signed_take_bit (w - 1) (sint v)"
proof -
  obtain k where k: "w = Suc k" "k \<le> 63" using assms by (cases w) auto
  show ?thesis
  proof (cases "k = 63")
    case True
    have "signed_take_bit 63 (sint v) = sint v"
      by (simp add: sint_uint)
    with True k show ?thesis by (simp add: sign_extend_from_def)
  next
    case False
    with k have k63: "k < 63" by simp
    show ?thesis
    proof (rule bit_eqI)
      fix n
      consider "n < k" | "n = k" | "k < n" by linarith
      then show "bit (sint (sign_extend_from w v)) n \<longleftrightarrow> bit (signed_take_bit (w - 1) (sint v)) n"
        using k k63 by cases (auto simp: sign_extend_from_def bit_simps min_def)
    qed
  qed
qed

lemma sign_extend_from_mask:
  assumes "1 \<le> w" "w \<le> 64"
  shows "sign_extend_from w (v AND mask_u64 w) = sign_extend_from w v"
proof -
  have "push_bit (64 - w) (v AND mask_u64 w) = push_bit (64 - w) v"
    using assms by (intro bit_word_eqI) (auto simp: bit_simps)
  then show ?thesis by (simp add: sign_extend_from_def)
qed

lemma new_signed_eq:
  assumes "1 \<le> w" "w \<le> 64"
  shows "new_signed E v w = Inr (SignedInteger (sign_extend_from w v) w)"
  using assms sign_extend_from_mask [OF assms, of v]
  by (simp add: new_signed_def Let_def arith_defs sign_extend_from_def)

lemma new_signed_dev_Inr:
  assumes "overflow_checks E" "new_signed E v w = Inr c"
  shows "1 \<le> w \<and> w \<le> 64"
  using assms by (auto simp: new_signed_def Let_def arith_defs res_simps)

definition signed_range :: "nat \<Rightarrow> int \<Rightarrow> bool" where
  "signed_range w k \<longleftrightarrow> - (2 ^ (w - 1)) \<le> k \<and> k < 2 ^ (w - 1)"

lemma signed_range_take: "signed_range w (signed_take_bit (w - 1) k)"
  by (simp add: signed_range_def signed_take_bit_int_greater_eq_minus_exp signed_take_bit_int_less_exp)

lemma signed_take_range_id: "signed_range w k \<Longrightarrow> signed_take_bit (w - 1) k = k"
  by (simp add: signed_range_def signed_take_bit_int_eq_self)

fun constant_wf :: "rconst \<Rightarrow> bool" where
  "constant_wf (UnsignedInteger v w) = (v AND mask_u64 w = v)"
| "constant_wf (SignedInteger v w) = (1 \<le> w \<and> w \<le> 64 \<and> signed_range w (sint v))"
| "constant_wf (FloatingPoint v w) = (w = 64)"
| "constant_wf (StringC s) = True"
| "constant_wf (TupleC cs) = list_all constant_wf cs"
| "constant_wf (VectorC cs) = list_all constant_wf cs"

lemma new_unsigned_wf [simp]: "constant_wf (new_unsigned v w)"
  by (simp add: new_unsigned_def)

lemma new_signed_wf: "overflow_checks E \<Longrightarrow> new_signed E v w = Inr c \<Longrightarrow> constant_wf c"
  using new_signed_dev_Inr [of E v w c]
  by (auto simp: new_signed_eq sint_sign_extend_from signed_range_take [simplified])

lemma new_float_wf: "new_float v w = Inr c \<Longrightarrow> constant_wf c"
  by (auto simp: new_float_def split: if_splits)

lemmas new_wf = new_unsigned_wf new_signed_wf new_float_wf

fun mixed_sub :: "rconst \<Rightarrow> rconst \<Rightarrow> bool" where
  "mixed_sub (UnsignedInteger _ _) (SignedInteger _ _) = True"
| "mixed_sub _ _ = False"

lemma const_add_wf: "overflow_checks E \<Longrightarrow> const_add E a b = Inr c \<Longrightarrow> constant_wf c"
  by (cases "(E, a, b)" rule: const_add.cases) (auto simp: res_simps intro: new_wf)
lemma const_sub_wf: "overflow_checks E \<Longrightarrow> \<not> mixed_sub a b \<Longrightarrow> const_sub E a b = Inr c \<Longrightarrow> constant_wf c"
  by (cases "(E, a, b)" rule: const_sub.cases) (auto simp: res_simps intro: new_wf)
lemma const_mul_wf: "overflow_checks E \<Longrightarrow> const_mul E a b = Inr c \<Longrightarrow> constant_wf c"
  by (cases "(E, a, b)" rule: const_mul.cases) (auto simp: res_simps intro: new_wf)
lemma const_div_wf: "overflow_checks E \<Longrightarrow> const_div E a b = Inr c \<Longrightarrow> constant_wf c"
  by (cases "(E, a, b)" rule: const_div.cases) (auto simp: res_simps intro: new_wf)
lemma const_not_wf: "const_not a = Inr c \<Longrightarrow> constant_wf c"
  by (cases a rule: const_not.cases) (auto intro: new_wf)
lemma const_xor_wf: "const_xor a b = Inr c \<Longrightarrow> constant_wf c"
  by (cases "(a, b)" rule: const_xor.cases) (auto intro: new_wf)
lemma const_powi_wf: "const_powi E a b = Inr c \<Longrightarrow> constant_wf c"
  by (cases "(E, a, b)" rule: const_powi.cases) (auto simp: res_simps intro: new_wf)


lemmas const_ops_wf = const_add_wf const_sub_wf const_mul_wf const_div_wf const_not_wf const_xor_wf
  const_powi_wf

text \<open>The integer a constant denotes, and the integer its width stores for an exact result.\<close>

fun const_int :: "rconst \<Rightarrow> int" where
  "const_int (UnsignedInteger v _) = uint v"
| "const_int (SignedInteger v _) = sint v"
| "const_int _ = 0"

fun wrap_int :: "rconst \<Rightarrow> int \<Rightarrow> int" where
  "wrap_int (UnsignedInteger _ w) k = k mod 2 ^ min w 64"
| "wrap_int (SignedInteger _ w) k = signed_take_bit (w - 1) k"
| "wrap_int _ k = 0"

fun same_int_class :: "rconst \<Rightarrow> rconst \<Rightarrow> bool" where
  "same_int_class (UnsignedInteger _ _) (UnsignedInteger _ _) = True"
| "same_int_class (SignedInteger _ _) (SignedInteger _ _) = True"
| "same_int_class _ _ = False"

lemma uint_and_mask_u64: "uint (v AND mask_u64 w) = uint v mod 2 ^ min w 64"
proof -
  have eq: "v AND mask_u64 w = take_bit (min w 64) v"
    by (simp add: mask_u64_eq take_bit_eq_mask)
  show ?thesis
    unfolding eq unsigned_take_bit_eq by (rule take_bit_eq_mod)
qed

lemma sdiv_nonneg: "0 \<le> (a :: int) \<Longrightarrow> 0 \<le> b \<Longrightarrow> a sdiv b = a div b"
  by (cases "a = 0"; cases "b = 0") (simp_all add: signed_divide_int_def)

lemma u64_exact:
  assumes "overflow_checks E"
  shows "u64_add E a b = Inr v \<Longrightarrow> uint v = uint a + uint b"
    and "u64_sub E a b = Inr v \<Longrightarrow> uint v = uint a - uint b"
    and "u64_mul E a b = Inr v \<Longrightarrow> uint v = uint a * uint b"
    and "u64_div a b = Inr v \<Longrightarrow> uint v = uint a sdiv uint b"
proof -
  assume "u64_add E a b = Inr v"
  then have "unat v = unat a + unat b"
    using assms by (auto simp: arith_defs res_simps unat_word_ariths)
  then show "uint v = uint a + uint b" by (metis of_nat_add uint_nat)
next
  assume "u64_sub E a b = Inr v"
  then have "unat v = unat a - unat b" "unat b \<le> unat a"
    using assms by (auto simp: arith_defs res_simps unat_sub word_le_nat_alt)
  then show "uint v = uint a - uint b" by (metis of_nat_diff uint_nat)
next
  assume "u64_mul E a b = Inr v"
  then have "unat v = unat a * unat b"
    using assms by (auto simp: arith_defs res_simps unat_word_ariths)
  then show "uint v = uint a * uint b" by (metis of_nat_mult uint_nat)
next
  assume "u64_div a b = Inr v"
  then show "uint v = uint a sdiv uint b"
    by (auto simp: arith_defs uint_div_distrib sdiv_nonneg split: if_splits)
qed

lemma i64_exact:
  assumes "overflow_checks E"
  shows "i64_add E a b = Inr v \<Longrightarrow> sint v = sint a + sint b"
    and "i64_sub E a b = Inr v \<Longrightarrow> sint v = sint a - sint b"
    and "i64_mul E a b = Inr v \<Longrightarrow> sint v = sint a * sint b"
    and "i64_div a b = Inr v \<Longrightarrow> sint v = sint a sdiv sint b"
proof -
  show "i64_add E a b = Inr v \<Longrightarrow> sint v = sint a + sint b"
    using assms sint_of_fitting [of "sint a + sint b"]
    by (auto simp: arith_defs res_simps wi_hom_add [symmetric])
  show "i64_sub E a b = Inr v \<Longrightarrow> sint v = sint a - sint b"
    using assms sint_of_fitting [of "sint a - sint b"]
    by (auto simp: arith_defs res_simps wi_hom_sub [symmetric])
  show "i64_mul E a b = Inr v \<Longrightarrow> sint v = sint a * sint b"
    using assms sint_of_fitting [of "sint a * sint b"]
    by (auto simp: arith_defs res_simps wi_hom_mult [symmetric])
  show "i64_div a b = Inr v \<Longrightarrow> sint v = sint a sdiv sint b"
    using sint_of_fitting by (auto simp: arith_defs split: if_splits)
qed

lemma new_unsigned_int: "const_int (new_unsigned v w) = uint v mod 2 ^ min w 64"
  by (simp only: new_unsigned_def const_int.simps uint_and_mask_u64)

lemma new_signed_int:
  assumes "overflow_checks E" "new_signed E v w = Inr c"
  shows "const_int c = signed_take_bit (w - Suc 0) (sint v)"
  using new_signed_dev_Inr [OF assms] assms(2)
  by (auto simp: new_signed_eq sint_sign_extend_from [simplified])

lemma const_op_int:
  assumes "overflow_checks E" "same_int_class a b"
  shows "const_add E a b = Inr c \<Longrightarrow> const_int c = wrap_int a (const_int a + const_int b)"
    and "const_sub E a b = Inr c \<Longrightarrow> const_int c = wrap_int a (const_int a - const_int b)"
    and "const_mul E a b = Inr c \<Longrightarrow> const_int c = wrap_int a (const_int a * const_int b)"
    and "const_div E a b = Inr c \<Longrightarrow> const_int c = wrap_int a (const_int a sdiv const_int b)"
proof -
  note exact = u64_exact [OF assms(1)] i64_exact [OF assms(1)] new_signed_int [OF assms(1)]
  show "const_add E a b = Inr c \<Longrightarrow> const_int c = wrap_int a (const_int a + const_int b)"
    using assms by (cases "(a, b)" rule: same_int_class.cases)
      (auto simp: res_simps new_unsigned_int dest!: exact)
  show "const_sub E a b = Inr c \<Longrightarrow> const_int c = wrap_int a (const_int a - const_int b)"
    using assms by (cases "(a, b)" rule: same_int_class.cases)
      (auto simp: res_simps new_unsigned_int dest!: exact)
  show "const_mul E a b = Inr c \<Longrightarrow> const_int c = wrap_int a (const_int a * const_int b)"
    using assms by (cases "(a, b)" rule: same_int_class.cases)
      (auto simp: res_simps new_unsigned_int dest!: exact)
  show "const_div E a b = Inr c \<Longrightarrow> const_int c = wrap_int a (const_int a sdiv const_int b)"
    using assms by (cases "(a, b)" rule: same_int_class.cases)
      (auto simp: res_simps new_unsigned_int dest!: exact)
qed

text \<open>
  C39: in a checked build every arithmetic operator on constants that returns at all returns a
  constant whose value is normalised to its width: masked for unsigned, sign-extended from its
  top bit for signed, 64 bits for floats.  The one arm left out is the subtraction of a signed
  from an unsigned constant.
\<close>

theorem constant_ops_preserve_wf:
  assumes "overflow_checks E"
    and "const_add E a b = Inr c \<or> const_mul E a b = Inr c \<or> const_div E a b = Inr c
         \<or> const_sub E a b = Inr c \<and> \<not> mixed_sub a b \<or> const_powi E a b = Inr c
         \<or> const_xor a b = Inr c \<or> const_not a = Inr c"
  shows "constant_wf c"
  using assms by (elim disjE conjE) (rule const_ops_wf; assumption)+

theorem constant_ops_preserve_wf_witness:
  "const_add sample_env (UnsignedInteger 255 8) (UnsignedInteger 1 8) = Inr (UnsignedInteger 0 8)
   \<and> constant_wf (UnsignedInteger 0 8)"
proof -
  have a: "const_add sample_env (UnsignedInteger 255 8) (UnsignedInteger 1 8)
             = Inr (UnsignedInteger 0 8)"
    by (simp add: new_unsigned_def arith_defs mask_u64_def overflowing_shl_def)
  then show ?thesis
    using constant_ops_preserve_wf [OF sample_env_checks] by blast
qed

text \<open>
  In a checked build, on two constants of the same integer class, the four arithmetic
  operators return the exact mathematical result wrapped into the left operand's width
  (division truncating towards zero): the code's 64-bit intermediate never changes the answer.
\<close>

theorem constant_arith_exact:
  assumes "overflow_checks E" and "same_int_class a b"
    and "op = const_add E \<and> exact = (\<lambda>x y. x + y) \<or> op = const_sub E \<and> exact = (\<lambda>x y. x - y)
         \<or> op = const_mul E \<and> exact = (\<lambda>x y. x * y)
         \<or> op = const_div E \<and> exact = (\<lambda>x y. x sdiv y)"
    and "op a b = Inr c"
  shows "const_int c = wrap_int a (exact (const_int a) (const_int b))"
  using assms const_op_int [OF assms(1,2)] by auto

theorem constant_arith_exact_witness:
  "const_mul sample_env (SignedInteger 100 8) (SignedInteger 3 8) = Inr (SignedInteger 44 8)
   \<and> const_int (SignedInteger 44 8) = wrap_int (SignedInteger 100 8) (100 * 3)"
proof -
  have m: "const_mul sample_env (SignedInteger 100 8) (SignedInteger 3 8)
             = Inr (SignedInteger 44 8)"
    by (simp add: new_signed_def Let_def arith_defs mask_u64_def fits_i64_def) code_simp
  have "const_int (SignedInteger 44 8)
          = wrap_int (SignedInteger 100 8)
              (const_int (SignedInteger 100 8) * const_int (SignedInteger 3 8))"
    by (rule constant_arith_exact [OF sample_env_checks, where op = "const_mul sample_env"
          and exact = "\<lambda>x y. x * y" and b = "SignedInteger 3 8"])
      (use m in simp_all)
  with m show ?thesis by simp
qed

text \<open>
  Subtracting a signed from an unsigned constant of the same width does not normalise its
  result: \<open>255 - (-1)\<close> at width 8 returns the signed constant 256 of width 8.
\<close>

theorem mixed_sub_not_normalised:
  "const_sub sample_env (UnsignedInteger 255 8) (SignedInteger (-1) 8)
     = Inr (SignedInteger 256 8)
   \<and> \<not> constant_wf (SignedInteger 256 8)"
  by (simp add: arith_defs rassert_def fits_i64_def signed_range_def)

end
