(* ===== verification/Arena.thy ===== *)
theory Arena
  imports Prelude
begin

text \<open>
  The index arenas of \<open>common/src/arena.rs\<close>: an arena is the vector of its values, a reference is
  an index into it.  \<open>Ref::get\<close> and \<open>get_mut\<close> are unchecked accesses, so a reference that is
  out of range is undefined behaviour here, not a panic.  The locale \<open>arena_contract\<close> is the
  contract the blocks and functions of the representation rely on: an insertion returns a fresh
  reference, and neither an insertion nor an update disturbs any other reference.
\<close>

section \<open>The data structure\<close>

type_synonym ref_id = nat
type_synonym 'a arena = "'a list"

definition arena_new :: "'a arena" where
  "arena_new = []"

definition arena_insert :: "'a arena \<Rightarrow> 'a \<Rightarrow> 'a arena \<times> ref_id" where
  "arena_insert a t = (let vec = a @ [t] in (vec, length vec - 1))"

definition arena_get :: "'a arena \<Rightarrow> ref_id \<Rightarrow> 'a res" where
  "arena_get a r = (if r < length a then Inr (a ! r) else Inl UndefinedBehaviour)"

text \<open>\<open>*r.get_mut(arena) = t\<close>\<close>

definition arena_set :: "'a arena \<Rightarrow> ref_id \<Rightarrow> 'a \<Rightarrow> 'a arena res" where
  "arena_set a r t = (if r < length a then Inr (a[r := t]) else Inl UndefinedBehaviour)"

text \<open>\<open>f(r.get_mut(arena))\<close> for a method that may panic.\<close>

definition arena_modify :: "'a arena \<Rightarrow> ref_id \<Rightarrow> ('a \<Rightarrow> 'a res) \<Rightarrow> 'a arena res" where
  "arena_modify a r f = rbind (arena_get a r) (\<lambda>t. rbind (f t) (arena_set a r))"

section \<open>The contract\<close>

locale arena_contract =
  fixes insert :: "'c \<Rightarrow> 'a \<Rightarrow> 'c \<times> ref_id"
    and get :: "'c \<Rightarrow> ref_id \<Rightarrow> 'a res"
    and put :: "'c \<Rightarrow> ref_id \<Rightarrow> 'a \<Rightarrow> 'c res"
  assumes get_insert_new: "insert c x = (c', r) \<Longrightarrow> get c' r = Inr x"
    and insert_fresh: "insert c x = (c', r) \<Longrightarrow> get c r = Inl UndefinedBehaviour"
    and get_insert_old: "insert c x = (c', r) \<Longrightarrow> s \<noteq> r \<Longrightarrow> get c' s = get c s"
    and get_put: "put c r x = Inr c' \<Longrightarrow> get c' s = (if s = r then Inr x else get c s)"
    and put_live: "get c r = Inr y \<Longrightarrow> \<exists>c'. put c r x = Inr c'"
    and put_dead: "get c r = Inl e \<Longrightarrow> put c r x = Inl UndefinedBehaviour"
begin

text \<open>A reference stays valid, and keeps its value, for as long as nothing is put over it.\<close>

lemma get_after_insert: "get c s = Inr y \<Longrightarrow> insert c x = (c', r) \<Longrightarrow> get c' s = Inr y"
  using get_insert_old [of c x c' r s] insert_fresh [of c x c' r] by (cases "s = r") auto

lemma insert_then_put:
  "insert c x = (c', r) \<Longrightarrow> \<exists>c''. put c' r y = Inr c'' \<and> get c'' r = Inr y"
  using put_live [OF get_insert_new, of c x c' r y] get_put by fastforce

lemma puts_commute_get:
  "put c r x = Inr c' \<Longrightarrow> put c' s y = Inr c'' \<Longrightarrow> r \<noteq> s \<Longrightarrow> get c'' r = Inr x"
  using get_put by fastforce

end

interpretation arena_vec: arena_contract arena_insert arena_get arena_set
  by unfold_locales
    (auto simp: arena_insert_def arena_get_def arena_set_def Let_def nth_append split: if_splits)

section \<open>Facts the clients use\<close>

lemma arena_get_Inr [res_simps]: "arena_get a r = Inr x \<longleftrightarrow> r < length a \<and> x = a ! r"
  by (auto simp: arena_get_def)

lemma arena_set_Inr [res_simps]: "arena_set a r x = Inr a' \<longleftrightarrow> r < length a \<and> a' = a[r := x]"
  by (auto simp: arena_set_def)

lemma arena_modify_Inr [res_simps]:
  "arena_modify a r f = Inr a' \<longleftrightarrow> r < length a \<and> (\<exists>t. f (a ! r) = Inr t \<and> a' = a[r := t])"
  by (auto simp: arena_modify_def res_simps)

end
