(* ===== verification/Rudder_Statement.thy ===== *)
theory Rudder_Statement
  imports Rudder_Constant Arena
begin

text \<open>
  The statements of the representation, \<open>common/src/rudder/statement.rs\<close>.  A statement refers
  to its operands, and to the blocks it jumps to, by arena reference.  \<open>statement_typ\<close> is the
  method \<open>typ\<close>, which follows operand references; \<open>replace_use\<close> and \<open>import_kind\<close> rewrite the
  references of one statement.
\<close>

datatype unary_operation_kind =
  NotK | NegateK | ComplementK | Power2K | AbsoluteK | CeilK | FloorK | SquareRootK

datatype binary_operation_kind =
    AddK | SubK | MultiplyK | DivideK | ModuloK | AndK | OrK | XorK | PowIK
  | CompareEqualK | CompareNotEqualK | CompareLessThanK | CompareLessThanOrEqualK
  | CompareGreaterThanK | CompareGreaterThanOrEqualK

datatype ternary_operation_kind = AddWithCarryK

datatype cast_operation_kind =
  ZeroExtendK | SignExtendK | TruncateK | ReinterpretK | ConvertK | BroadcastK

datatype shift_operation_kind =
  LogicalShiftLeftK | LogicalShiftRightK | ArithmeticShiftRightK | RotateRightK | RotateLeftK

record symbol =
  sym_name :: string
  sym_typ :: rtype

type_synonym block_id = ref_id
type_synonym stmt_id = ref_id

datatype statement =
    Constant rconst
  | ReadVariable symbol
  | WriteVariable symbol stmt_id
  | ReadRegister rtype stmt_id
  | WriteRegister stmt_id stmt_id \<comment> \<open>offset, value\<close>
  | ReadMemory stmt_id stmt_id \<comment> \<open>address, size\<close>
  | WriteMemory stmt_id stmt_id \<comment> \<open>address, value\<close>
  | AtomicOperation stmt_id stmt_id stmt_id stmt_id
      \<comment> \<open>address, compare operand, operand, operation kind\<close>
  | ReadPc
  | WritePc stmt_id
  | GetFlags stmt_id
  | UnaryOperation unary_operation_kind stmt_id
  | BinaryOperation binary_operation_kind stmt_id stmt_id
  | TernaryOperation ternary_operation_kind stmt_id stmt_id stmt_id
  | ShiftOperation shift_operation_kind stmt_id stmt_id \<comment> \<open>value, amount\<close>
  | Call string "stmt_id list" "rtype option"
  | Cast cast_operation_kind rtype stmt_id
  | BitsCast cast_operation_kind rtype stmt_id stmt_id \<comment> \<open>value, width\<close>
  | Jump block_id
  | Branch stmt_id block_id block_id \<comment> \<open>condition, true target, false target\<close>
  | PhiNode "(block_id \<times> stmt_id) list"
  | Return "stmt_id option"
  | Select stmt_id stmt_id stmt_id \<comment> \<open>condition, true value, false value\<close>
  | BitExtract stmt_id stmt_id stmt_id \<comment> \<open>value, start, width\<close>
  | BitInsert stmt_id stmt_id stmt_id stmt_id \<comment> \<open>target, source, start, width\<close>
  | BitReplicate stmt_id stmt_id \<comment> \<open>pattern, count\<close>
  | ReadElement stmt_id stmt_id \<comment> \<open>vector, index\<close>
  | AssignElement stmt_id stmt_id stmt_id \<comment> \<open>vector, value, index\<close>
  | Panic stmt_id
  | Assert stmt_id
  | CreateBits stmt_id stmt_id \<comment> \<open>value, width\<close>
  | SizeOf stmt_id
  | MatchesUnion stmt_id string
  | UnwrapUnion stmt_id string
  | CreateReal stmt_id stmt_id \<comment> \<open>numerator, denominator\<close>
  | CreateTuple "stmt_id list"
  | TupleAccess nat stmt_id \<comment> \<open>index, source\<close>

section \<open>The type of a statement\<close>

definition is_comparison :: "binary_operation_kind \<Rightarrow> bool" where
  "is_comparison k \<longleftrightarrow>
     k \<in> {CompareEqualK, CompareNotEqualK, CompareGreaterThanOrEqualK, CompareGreaterThanK,
           CompareLessThanOrEqualK, CompareLessThanK}"

text \<open>
  The two recursive shapes of \<open>typ\<close>: a statement whose type is that of an operand, and one whose
  type is computed from an operand's.  \<open>rec\<close> is the recursive call.
\<close>

definition typ_of_extract :: "rconst \<Rightarrow> rtype option res" where
  "typ_of_extract len =
     (case len of
        UnsignedInteger l _ \<Rightarrow>
          rbind (u32_try_from_u64 l) (\<lambda>w. Inr (Some (Primitive (UnsignedIntegerT w))))
      | SignedInteger l _ \<Rightarrow>
          rbind (u32_try_from_i64 l) (\<lambda>w. Inr (Some (Primitive (UnsignedIntegerT w))))
      | _ \<Rightarrow> Inl ExplicitPanic)"

definition typ_of_element :: "rtype option \<Rightarrow> rtype option res" where
  "typ_of_element t = (case t of Some (Vector _ et) \<Rightarrow> Inr (Some et) | _ \<Rightarrow> Inl ExplicitPanic)"

definition typ_of_tuple_field :: "nat \<Rightarrow> rtype option \<Rightarrow> rtype option res" where
  "typ_of_tuple_field i t =
     (case t of
        Some (TupleT ts) \<Rightarrow> if i < length ts then Inr (Some (ts ! i)) else Inl IndexOutOfBounds
      | _ \<Rightarrow> Inl ExplicitPanic)"

text \<open>\<open>if let Statement::Constant(c) = s\<close>\<close>

fun as_constant :: "statement \<Rightarrow> rconst option" where
  "as_constant (Constant c) = Some c"
| "as_constant _ = None"

definition typ_step :: "(stmt_id \<Rightarrow> rtype option res) \<Rightarrow> statement arena \<Rightarrow> statement \<Rightarrow> rtype option res" where
  "typ_step rec a s =
     (case s of
        Constant c \<Rightarrow> rbind (const_typ c) (\<lambda>t. Inr (Some t))
      | ReadVariable symbol \<Rightarrow> Inr (Some (sym_typ symbol))
      | WriteVariable _ _ \<Rightarrow> Inr None
      | ReadRegister t _ \<Rightarrow> Inr (Some t)
      | WriteRegister _ _ \<Rightarrow> Inr None
      | ReadMemory _ _ \<Rightarrow> Inr (Some BitsT)
      | AtomicOperation _ _ _ _ \<Rightarrow> Inr (Some BitsT)
      | WriteMemory _ _ \<Rightarrow> Inr None
      | BinaryOperation kind lhs _ \<Rightarrow> if is_comparison kind then Inr (Some u1) else rec lhs
      | TernaryOperation _ x _ _ \<Rightarrow> rec x
      | UnaryOperation kind value \<Rightarrow>
          if kind = CeilK \<or> kind = FloorK then Inr (Some s64_t) else rec value
      | ShiftOperation _ value _ \<Rightarrow> rec value
      | Call _ _ return_type \<Rightarrow> Inr return_type
      | Cast _ t _ \<Rightarrow> Inr (Some t)
      | BitsCast _ t _ _ \<Rightarrow> Inr (Some t)
      | Jump _ \<Rightarrow> Inr None
      | Branch _ _ _ \<Rightarrow> Inr None
      | PhiNode members \<Rightarrow> (case members of [] \<Rightarrow> Inr None | (_, stmt) # _ \<Rightarrow> rec stmt)
      | Return _ \<Rightarrow> Inr None
      | Select _ true_value _ \<Rightarrow> rec true_value
      | Panic _ \<Rightarrow> Inr None
      | ReadPc \<Rightarrow> Inr (Some u64_t)
      | WritePc _ \<Rightarrow> Inr None
      | BitExtract value _ width \<Rightarrow>
          rbind (arena_get a width) (\<lambda>w. case as_constant w of Some len \<Rightarrow> typ_of_extract len | None \<Rightarrow> rec value)
      | BitInsert target _ _ _ \<Rightarrow> rec target
      | BitReplicate _ _ \<Rightarrow> Inr (Some BitsT)
      | ReadElement vector _ \<Rightarrow> rbind (rec vector) typ_of_element
      | AssignElement vector _ _ \<Rightarrow> rec vector
      | SizeOf _ \<Rightarrow> Inr (Some u16_t)
      | Assert _ \<Rightarrow> Inr None
      | CreateBits _ _ \<Rightarrow> Inr (Some BitsT)
      | MatchesUnion _ _ \<Rightarrow> Inr (Some u1)
      | UnwrapUnion _ _ \<Rightarrow> Inl Todo
      | TupleAccess index source \<Rightarrow> rbind (rec source) (typ_of_tuple_field index)
      | GetFlags _ \<Rightarrow> Inr (Some (Primitive (UnsignedIntegerT 4)))
      | CreateTuple values \<Rightarrow>
          rbind (mapR (\<lambda>v. rbind (rec v) unwrap) values) (\<lambda>ts. Inr (Some (TupleT ts)))
      | CreateReal _ _ \<Rightarrow> Inr (Some RealT))"

fun statement_typ_fuel :: "nat \<Rightarrow> statement arena \<Rightarrow> statement \<Rightarrow> rtype option res" where
  "statement_typ_fuel 0 a s = Inl StackOverflow"
| "statement_typ_fuel (Suc n) a s =
     typ_step (\<lambda>r. rbind (arena_get a r) (statement_typ_fuel n a)) a s"

text \<open>
  A chain of operands longer than the arena repeats a reference, so the code's recursion would
  not end: \<open>length a + 1\<close> levels are enough for every run of \<open>typ\<close> that returns.
\<close>

definition statement_typ :: "statement arena \<Rightarrow> statement \<Rightarrow> rtype option res" where
  "statement_typ a s = statement_typ_fuel (length a + 1) a s"

section \<open>Rewriting references\<close>

definition subst :: "stmt_id \<Rightarrow> stmt_id \<Rightarrow> stmt_id \<Rightarrow> stmt_id" where
  "subst use_of with_ref r = (if r = use_of then with_ref else r)"

fun replace_use :: "statement \<Rightarrow> stmt_id \<Rightarrow> stmt_id \<Rightarrow> statement res" where
  "replace_use (Return value) u w = Inr (Return (map_option (subst u w) value))"
| "replace_use (Branch condition t f) u w = Inr (Branch (subst u w condition) t f)"
| "replace_use (WriteVariable symbol value) u w = Inr (WriteVariable symbol (subst u w value))"
| "replace_use (BinaryOperation kind lhs rhs) u w =
     (if lhs = u then Inr (BinaryOperation kind w rhs)
      else if rhs = u then Inr (BinaryOperation kind lhs w)
      else Inl ExplicitPanic)"
| "replace_use (TernaryOperation kind a b c) u w =
     Inr (TernaryOperation kind (subst u w a) (subst u w b) (subst u w c))"
| "replace_use (UnaryOperation kind value) u w = Inr (UnaryOperation kind (subst u w value))"
| "replace_use (Cast kind t value) u w = Inr (Cast kind t (subst u w value))"
| "replace_use (BitsCast kind t value len) u w =
     Inr (BitsCast kind t (subst u w value) (subst u w len))"
| "replace_use (Call target args return_type) u w =
     Inr (Call target (map (subst u w) args) return_type)"
| "replace_use (BitExtract value start len) u w =
     Inr (BitExtract (subst u w value) (subst u w start) (subst u w len))"
| "replace_use (BitReplicate pattern count) u w =
     Inr (BitReplicate (subst u w pattern) (subst u w count))"
| "replace_use (Assert condition) u w = Inr (Assert (subst u w condition))"
| "replace_use (ShiftOperation kind value amount) u w =
     Inr (ShiftOperation kind (subst u w value) (subst u w amount))"
| "replace_use (WriteRegister offset value) u w =
     Inr (WriteRegister (subst u w offset) (subst u w value))"
| "replace_use (WriteMemory offset value) u w =
     Inr (WriteMemory (subst u w offset) (subst u w value))"
| "replace_use (ReadMemory offset sz) u w = Inr (ReadMemory (subst u w offset) (subst u w sz))"
| "replace_use (AtomicOperation address compare_operand operand operation_kind) u w =
     Inr (AtomicOperation (subst u w address) (subst u w compare_operand) (subst u w operand)
            (subst u w operation_kind))"
| "replace_use (ReadElement vector index) u w =
     Inr (ReadElement (subst u w vector) (subst u w index))"
| "replace_use (BitInsert original_value insert_value start len) u w =
     Inr (BitInsert (subst u w original_value) (subst u w insert_value) (subst u w start)
            (subst u w len))"
| "replace_use (SizeOf value) u w = Inr (SizeOf (subst u w value))"
| "replace_use (Select condition true_value false_value) u w =
     Inr (Select (subst u w condition) (subst u w true_value) (subst u w false_value))"
| "replace_use (AssignElement vector value index) u w =
     Inr (AssignElement (subst u w vector) (subst u w value) (subst u w index))"
| "replace_use (WritePc value) u w = Inr (WritePc (subst u w value))"
| "replace_use (Panic value) u w = Inr (Panic (subst u w value))"
| "replace_use (CreateBits value len) u w = Inr (CreateBits (subst u w value) (subst u w len))"
| "replace_use (MatchesUnion value variant) u w = Inr (MatchesUnion (subst u w value) variant)"
| "replace_use (UnwrapUnion value variant) u w = Inr (UnwrapUnion (subst u w value) variant)"
| "replace_use (Constant _) u w = Inl Todo"
| "replace_use (ReadVariable _) u w = Inl Todo"
| "replace_use (ReadRegister _ _) u w = Inl Todo"
| "replace_use ReadPc u w = Inl Todo"
| "replace_use (Jump _) u w = Inl Todo"
| "replace_use (PhiNode _) u w = Inl Todo"
| "replace_use (TupleAccess index source) u w = Inr (TupleAccess index (subst u w source))"
| "replace_use (CreateTuple values) u w = Inr (CreateTuple (map (subst u w) values))"
| "replace_use (GetFlags operation) u w = Inr (GetFlags (subst u w operation))"
| "replace_use (CreateReal numerator denominator) u w =
     Inr (CreateReal (subst u w numerator) (subst u w denominator))"

text \<open>
  The match of \<open>import_statement\<close>: a copy of the statement with every operand looked up in
  \<open>mapping\<close>; block references are kept.
\<close>

fun import_kind :: "(stmt_id \<Rightarrow> stmt_id option) \<Rightarrow> statement \<Rightarrow> statement res" where
  "import_kind m (BinaryOperation kind lhs rhs) =
     rbind (unwrap (m lhs)) (\<lambda>a. rbind (unwrap (m rhs)) (\<lambda>b. Inr (BinaryOperation kind a b)))"
| "import_kind m (TernaryOperation kind x y z) =
     rbind (unwrap (m x)) (\<lambda>a. rbind (unwrap (m y)) (\<lambda>b. rbind (unwrap (m z)) (\<lambda>c.
     Inr (TernaryOperation kind a b c))))"
| "import_kind m (Constant c) = Inr (Constant c)"
| "import_kind m (ReadVariable symbol) = Inr (ReadVariable symbol)"
| "import_kind m (WriteVariable symbol value) = rbind (unwrap (m value)) (\<lambda>a. Inr (WriteVariable symbol a))"
| "import_kind m (ReadRegister t offset) = rbind (unwrap (m offset)) (\<lambda>a. Inr (ReadRegister t a))"
| "import_kind m (WriteRegister offset value) =
     rbind (unwrap (m offset)) (\<lambda>a. rbind (unwrap (m value)) (\<lambda>b. Inr (WriteRegister a b)))"
| "import_kind m (ReadMemory offset sz) =
     rbind (unwrap (m offset)) (\<lambda>a. rbind (unwrap (m sz)) (\<lambda>b. Inr (ReadMemory a b)))"
| "import_kind m (AtomicOperation address compare_operand operand operation_kind) =
     rbind (unwrap (m address)) (\<lambda>a. rbind (unwrap (m compare_operand)) (\<lambda>b. rbind (unwrap (m operand)) (\<lambda>c.
     rbind (unwrap (m operation_kind)) (\<lambda>d. Inr (AtomicOperation a b c d)))))"
| "import_kind m (WriteMemory offset value) =
     rbind (unwrap (m offset)) (\<lambda>a. rbind (unwrap (m value)) (\<lambda>b. Inr (WriteMemory a b)))"
| "import_kind m ReadPc = Inr ReadPc"
| "import_kind m (WritePc value) = rbind (unwrap (m value)) (\<lambda>a. Inr (WritePc a))"
| "import_kind m (UnaryOperation kind value) = rbind (unwrap (m value)) (\<lambda>a. Inr (UnaryOperation kind a))"
| "import_kind m (ShiftOperation kind value amount) =
     rbind (unwrap (m value)) (\<lambda>a. rbind (unwrap (m amount)) (\<lambda>b. Inr (ShiftOperation kind a b)))"
| "import_kind m (Call target args return_type) =
     rbind (mapR (\<lambda>stmt. unwrap (m stmt)) args) (\<lambda>args. Inr (Call target args return_type))"
| "import_kind m (Cast kind t value) =
     (case m value of None \<Rightarrow> Inl ExplicitPanic | Some v \<Rightarrow> Inr (Cast kind t v))"
| "import_kind m (BitsCast kind t value len) =
     rbind (unwrap (m value)) (\<lambda>a. rbind (unwrap (m len)) (\<lambda>b. Inr (BitsCast kind t a b)))"
| "import_kind m (Jump target) = Inr (Jump target)"
| "import_kind m (Branch condition true_target false_target) = rbind (unwrap (m condition)) (\<lambda>a. Inr (Branch a true_target false_target))"
| "import_kind m (PhiNode _) = Inl Todo"
| "import_kind m (Return None) = Inr (Return None)"
| "import_kind m (Return (Some value)) = rbind (unwrap (m value)) (\<lambda>v. Inr (Return (Some v)))"
| "import_kind m (Select condition true_value false_value) =
     rbind (unwrap (m condition)) (\<lambda>a. rbind (unwrap (m true_value)) (\<lambda>b. rbind (unwrap (m false_value)) (\<lambda>c.
     Inr (Select a b c))))"
| "import_kind m (BitExtract value start len) =
     rbind (unwrap (m value)) (\<lambda>a. rbind (unwrap (m start)) (\<lambda>b. rbind (unwrap (m len)) (\<lambda>c.
     Inr (BitExtract a b c))))"
| "import_kind m (BitInsert target source start len) =
     rbind (unwrap (m target)) (\<lambda>a. rbind (unwrap (m source)) (\<lambda>b. rbind (unwrap (m start)) (\<lambda>c.
     rbind (unwrap (m len)) (\<lambda>d. Inr (BitInsert a b c d)))))"
| "import_kind m (BitReplicate pattern count) =
     rbind (unwrap (m pattern)) (\<lambda>a. rbind (unwrap (m count)) (\<lambda>b. Inr (BitReplicate a b)))"
| "import_kind m (ReadElement vector index) =
     rbind (unwrap (m vector)) (\<lambda>a. rbind (unwrap (m index)) (\<lambda>b. Inr (ReadElement a b)))"
| "import_kind m (AssignElement vector value index) =
     rbind (unwrap (m vector)) (\<lambda>a. rbind (unwrap (m value)) (\<lambda>b. rbind (unwrap (m index)) (\<lambda>c.
     Inr (AssignElement a b c))))"
| "import_kind m (Panic stmt) = rbind (unwrap (m stmt)) (\<lambda>a. Inr (Panic a))"
| "import_kind m (Assert condition) = rbind (unwrap (m condition)) (\<lambda>a. Inr (Assert a))"
| "import_kind m (CreateBits value len) =
     rbind (unwrap (m value)) (\<lambda>a. rbind (unwrap (m len)) (\<lambda>b. Inr (CreateBits a b)))"
| "import_kind m (CreateReal numerator denominator) =
     rbind (unwrap (m numerator)) (\<lambda>a. rbind (unwrap (m denominator)) (\<lambda>b. Inr (CreateReal a b)))"
| "import_kind m (SizeOf value) = rbind (unwrap (m value)) (\<lambda>a. Inr (SizeOf a))"
| "import_kind m (MatchesUnion value variant) = rbind (unwrap (m value)) (\<lambda>a. Inr (MatchesUnion a variant))"
| "import_kind m (UnwrapUnion value variant) = rbind (unwrap (m value)) (\<lambda>a. Inr (UnwrapUnion a variant))"
| "import_kind m (TupleAccess index source) = rbind (unwrap (m source)) (\<lambda>a. Inr (TupleAccess index a))"
| "import_kind m (GetFlags operation) = rbind (unwrap (m operation)) (\<lambda>a. Inr (GetFlags a))"
| "import_kind m (CreateTuple values) =
     rbind (mapR (\<lambda>v. unwrap (m v)) values) (\<lambda>values. Inr (CreateTuple values))"

section \<open>Operands\<close>

text \<open>Every statement reference a statement holds, in the order of its fields.\<close>

fun operands :: "statement \<Rightarrow> stmt_id list" where
  "operands (WriteVariable _ v) = [v]"
| "operands (ReadRegister _ off) = [off]"
| "operands (WriteRegister off v) = [off, v]"
| "operands (ReadMemory a sz) = [a, sz]"
| "operands (WriteMemory a v) = [a, v]"
| "operands (AtomicOperation a b c d) = [a, b, c, d]"
| "operands (WritePc v) = [v]"
| "operands (GetFlags x) = [x]"
| "operands (UnaryOperation _ v) = [v]"
| "operands (BinaryOperation _ l r) = [l, r]"
| "operands (TernaryOperation _ a b c) = [a, b, c]"
| "operands (ShiftOperation _ v n) = [v, n]"
| "operands (Call _ args _) = args"
| "operands (Cast _ _ v) = [v]"
| "operands (BitsCast _ _ v w) = [v, w]"
| "operands (Branch c _ _) = [c]"
| "operands (PhiNode ms) = map snd ms"
| "operands (Return v) = (case v of None \<Rightarrow> [] | Some x \<Rightarrow> [x])"
| "operands (Select c t f) = [c, t, f]"
| "operands (BitExtract v s w) = [v, s, w]"
| "operands (BitInsert t v s w) = [t, v, s, w]"
| "operands (BitReplicate p n) = [p, n]"
| "operands (ReadElement v i) = [v, i]"
| "operands (AssignElement v x i) = [v, x, i]"
| "operands (Panic x) = [x]"
| "operands (Assert c) = [c]"
| "operands (CreateBits v w) = [v, w]"
| "operands (SizeOf v) = [v]"
| "operands (MatchesUnion v _) = [v]"
| "operands (UnwrapUnion v _) = [v]"
| "operands (CreateReal n d) = [n, d]"
| "operands (CreateTuple vs) = vs"
| "operands (TupleAccess _ v) = [v]"
| "operands _ = []"

section \<open>Facts\<close>

lemma mapR_mono:
  "mapR f xs = Inr ys \<Longrightarrow> (\<And>x y. f x = Inr y \<Longrightarrow> g x = Inr y) \<Longrightarrow> mapR g xs = Inr ys"
  by (auto simp: mapR_eq_Inr elim: list_all2_mono)

lemma rbind_mono:
  "rbind m f = Inr y \<Longrightarrow> (\<And>x. m = Inr x \<Longrightarrow> m' = Inr x) \<Longrightarrow> (\<And>x. f x = Inr y \<Longrightarrow> g x = Inr y)
   \<Longrightarrow> rbind m' g = Inr y"
  by (cases m) auto

lemma typ_step_mono:
  assumes "\<And>r u. rec r = Inr u \<Longrightarrow> rec' r = Inr u" and "typ_step rec a s = Inr t"
  shows "typ_step rec' a s = Inr t"
proof (cases s)
  case (BitExtract v b w)
  with assms show ?thesis
    by (auto simp: typ_step_def rbind_eq_Inr split: option.splits)
next
  case (CreateTuple vs)
  then obtain ts where ts: "mapR (\<lambda>v. rbind (rec v) unwrap) vs = Inr ts" "t = Some (TupleT ts)"
    using assms(2) by (auto simp: typ_step_def rbind_eq_Inr)
  have "mapR (\<lambda>v. rbind (rec' v) unwrap) vs = Inr ts"
    using ts(1) by (rule mapR_mono) (auto elim: rbind_mono intro: assms(1))
  with CreateTuple ts(2) show ?thesis by (simp add: typ_step_def)
next
  case (PhiNode ms)
  with assms show ?thesis by (auto simp: typ_step_def split: list.splits)
qed (use assms in \<open>auto simp: typ_step_def rbind_eq_Inr split: if_splits\<close>)

lemma typ_fuel_mono:
  "statement_typ_fuel n a s = Inr t \<Longrightarrow> n \<le> n' \<Longrightarrow> statement_typ_fuel n' a s = Inr t"
proof (induction n arbitrary: s t n')
  case (Suc n)
  obtain k where k: "n' = Suc k" "n \<le> k" using Suc.prems(2) by (cases n') auto
  have "rbind (arena_get a r) (statement_typ_fuel k a) = Inr u"
    if "rbind (arena_get a r) (statement_typ_fuel n a) = Inr u" for r u
    using that Suc.IH [OF _ k(2)] by (auto simp: rbind_eq_Inr)
  then show ?case
    using Suc.prems(1) unfolding k(1) statement_typ_fuel.simps by (rule typ_step_mono)
qed simp

declare statement_typ_fuel.simps [simp del]

definition typed_at :: "statement arena \<Rightarrow> nat \<Rightarrow> stmt_id set" where
  "typed_at a n = {r. r < length a \<and> (\<exists>t. statement_typ_fuel n a (a ! r) = Inr t)}"

lemma typed_at_mono: "typed_at a n \<subseteq> typed_at a (Suc n)"
  unfolding typed_at_def using typ_fuel_mono [of n a _ _ "Suc n"] by fastforce

lemma typ_fuel_stable:
  assumes "typed_at a n = typed_at a (Suc n)" and "statement_typ_fuel (Suc (Suc n)) a s = Inr t"
  shows "statement_typ_fuel (Suc n) a s = Inr t"
proof -
  have "rbind (arena_get a r) (statement_typ_fuel n a) = Inr u"
    if "rbind (arena_get a r) (statement_typ_fuel (Suc n) a) = Inr u" for r u
  proof -
    from that have r: "r < length a" "statement_typ_fuel (Suc n) a (a ! r) = Inr u"
      by (auto simp only: rbind_eq_Inr arena_get_Inr)
    then have "r \<in> typed_at a n" using assms(1) by (auto simp: typed_at_def)
    then obtain u' where u': "statement_typ_fuel n a (a ! r) = Inr u'" by (auto simp: typed_at_def)
    then have "u' = u" using typ_fuel_mono [OF u', of "Suc n"] r(2) by simp
    with u' r(1) show ?thesis by (simp only: rbind_eq_Inr arena_get_Inr) blast
  qed
  then show ?thesis
    using assms(2) unfolding statement_typ_fuel.simps(2) [of "Suc n"] statement_typ_fuel.simps(2) [of n]
    by (rule typ_step_mono)
qed

lemma typed_at_stable: "typed_at a n = typed_at a (Suc n) \<Longrightarrow> typed_at a (Suc n) = typed_at a (Suc (Suc n))"
  using typ_fuel_stable typed_at_mono [of a "Suc n"] unfolding typed_at_def by blast

lemma typed_at_length: "length a \<le> n \<Longrightarrow> typed_at a n = typed_at a (length a)"
proof -
  have "finite (range (typed_at a))"
    by (rule finite_subset [of _ "Pow {..<length a}"]) (auto simp: typed_at_def)
  moreover have "mono (typed_at a)"
    using typed_at_mono by (simp add: mono_iff_le_Suc)
  moreover have "\<forall>n. typed_at a n = typed_at a (Suc n) \<longrightarrow> typed_at a (Suc n) = typed_at a (Suc (Suc n))"
    using typed_at_stable by blast
  ultimately have prefix: "\<exists>N. (\<forall>n\<le>N. \<forall>m\<le>N. m < n \<longrightarrow> typed_at a m \<subset> typed_at a n)
      \<and> (\<forall>n\<ge>N. typed_at a N = typed_at a n)"
    by (rule finite_mono_remains_stable_implies_strict_prefix)
  have "typed_at a (card {..<length a}) = (\<Union>n. typed_at a n)"
    by (rule finite_mono_strict_prefix_implies_finite_fixpoint [OF _ _ prefix]) (auto simp: typed_at_def)
  moreover have "typed_at a (length a) \<subseteq> typed_at a n" if "length a \<le> n"
    using \<open>mono (typed_at a)\<close> that by (rule monoD)
  ultimately show "length a \<le> n \<Longrightarrow> typed_at a n = typed_at a (length a)" by auto
qed

lemma typ_fuel_enough:
  assumes "statement_typ_fuel n a s = Inr t"
  shows "statement_typ a s = Inr t"
proof (cases "n \<le> length a + 1")
  case True
  with assms show ?thesis unfolding statement_typ_def by (rule typ_fuel_mono)
next
  case False
  then obtain k where k: "n = length a + 1 + k" by (metis le_iff_add nat_le_linear)
  have "statement_typ_fuel (length a + 1 + k) a s = Inr t \<Longrightarrow> statement_typ_fuel (length a + 1) a s = Inr t" for k
  proof (induction k)
    case (Suc k)
    have "typed_at a (length a + k) = typed_at a (Suc (length a + k))"
      using typed_at_length [of a "length a + k"] typed_at_length [of a "Suc (length a + k)"]
      by (metis le_add1 le_SucI)
    then have "statement_typ_fuel (length a + 1 + k) a s = Inr t"
      using typ_fuel_stable [of a "length a + k" s t] Suc.prems by simp
    then show ?case by (rule Suc.IH)
  qed simp
  with assms k show ?thesis by (simp only: statement_typ_def)
qed
lemma import_kind_operands:
  "import_kind m s = Inr s' \<Longrightarrow> list_all2 (\<lambda>r r'. m r = Some r') (operands s) (operands s')"
  by (cases "(m, s)" rule: import_kind.cases)
    (auto simp: rbind_eq_Inr unwrap_eq_Inr mapR_eq_Inr split: option.splits)

lemma replace_use_operands:
  "replace_use s u w = Inr s' \<Longrightarrow> \<forall>k. s \<noteq> BinaryOperation k u u
   \<Longrightarrow> operands s' = map (subst u w) (operands s)"
  by (cases s) (auto simp: subst_def split: if_splits option.splits)

text \<open>
  The recursion of \<open>typ\<close> through operand references returns a type iff it does so within a
  depth of one more than the number of statements in the arena: a deeper call chain has met a
  cyclic reference and never returns.
\<close>

theorem typ_depth_bound:
  "statement_typ a s = Inr t \<longleftrightarrow> (\<exists>n. statement_typ_fuel n a s = Inr t)"
  using typ_fuel_enough by (auto simp only: statement_typ_def)

text \<open>
  When \<open>replace_use\<close> returns, every operand that was \<open>use_of\<close> is now \<open>with\<close> and all others
  are as before, with one exception: a binary operation that uses the statement on both sides
  keeps its right operand.
\<close>

theorem replace_use_spec:
  assumes "replace_use s use_of with_ref = Inr s'"
  shows "operands s' = map (subst use_of with_ref) (operands s)
         \<or> (\<exists>k. s = BinaryOperation k use_of use_of \<and> s' = BinaryOperation k with_ref use_of)"
proof (cases "\<exists>k. s = BinaryOperation k use_of use_of")
  case True
  with assms show ?thesis by auto
next
  case False
  then show ?thesis using replace_use_operands [OF assms] by blast
qed

theorem replace_use_spec_witness:
  "replace_use (Select 1 2 1) 1 7 = Inr (Select 7 2 7)
   \<and> operands (Select 7 2 7) = map (subst 1 7) (operands (Select 1 2 1))"
  using replace_use_spec [of "Select 1 2 1" 1 7 "Select 7 2 7"] by (simp add: subst_def)

end
