(* ===== verification/Rudder_Block.thy ===== *)
theory Rudder_Block
  imports Rudder_Statement "HOL-Library.AList"
begin

text \<open>
  Blocks, functions and models: \<open>common/src/rudder/block.rs\<close>, \<open>function.rs\<close>, \<open>mod.rs\<close> and the
  building functions at the end of \<open>statement.rs\<close>.  A block owns the arena of its statements and
  lists the live ones in order; a function owns the arena of its blocks.  Hash maps are
  association lists, so every statement below holds for whatever order a hash map is iterated in.
\<close>

section \<open>Blocks\<close>

record block =
  statement_arena :: "statement arena"
  statements :: "stmt_id list"

definition block_new :: block where
  "block_new = \<lparr>statement_arena = arena_new, statements = []\<rparr>"

definition terminator_statement :: "block \<Rightarrow> stmt_id option" where
  "terminator_statement b = (if statements b = [] then None else Some (last (statements b)))"

definition set_statements :: "block \<Rightarrow> stmt_id list \<Rightarrow> block" where
  "set_statements b ss = b\<lparr>statements := ss\<rparr>"

definition extend_statements :: "block \<Rightarrow> stmt_id list \<Rightarrow> block" where
  "extend_statements b ss = b\<lparr>statements := statements b @ ss\<rparr>"

fun position :: "'a list \<Rightarrow> 'a \<Rightarrow> nat option" where
  "position [] x = None"
| "position (y # ys) x = (if y = x then Some 0 else map_option Suc (position ys x))"

definition index_of_statement :: "block \<Rightarrow> stmt_id \<Rightarrow> nat res" where
  "index_of_statement b r = unwrap (position (statements b) r)"

definition insert_statement_before :: "block \<Rightarrow> stmt_id \<Rightarrow> stmt_id \<Rightarrow> block res" where
  "insert_statement_before b r new =
     rbind (index_of_statement b r) (\<lambda>index.
     Inr (b\<lparr>statements := take index (statements b) @ new # drop index (statements b)\<rparr>))"

definition append_statement :: "block \<Rightarrow> stmt_id \<Rightarrow> block" where
  "append_statement b new = b\<lparr>statements := statements b @ [new]\<rparr>"

definition kill_statement :: "block \<Rightarrow> stmt_id \<Rightarrow> block res" where
  "kill_statement b r =
     rbind (index_of_statement b r) (\<lambda>index.
     Inr (b\<lparr>statements := take index (statements b) @ drop (Suc index) (statements b)\<rparr>))"

fun jump_targets :: "statement \<Rightarrow> block_id list" where
  "jump_targets (Jump target) = [target]"
| "jump_targets (Branch _ true_target false_target) = [true_target, false_target]"
| "jump_targets _ = []"

text \<open>\<open>statements().iter().map(|s| s.get(arena))\<close>\<close>

definition live_statements :: "block \<Rightarrow> statement list res" where
  "live_statements b = mapR (arena_get (statement_arena b)) (statements b)"

definition targets :: "block \<Rightarrow> block_id list res" where
  "targets b = rbind (live_statements b) (\<lambda>ss. Inr (concat (map jump_targets ss)))"

definition block_len :: "block \<Rightarrow> nat" where
  "block_len b = length (statements b)"

text \<open>
  \<open>BlockIterator\<close> run to its end.  The vector \<open>remaining\<close> is a stack whose top is its last
  element; here the top is the head of the list.
\<close>

function block_iter_from :: "block arena \<Rightarrow> block_id list \<Rightarrow> block_id list \<Rightarrow> block_id list res" where
  "block_iter_from a visited [] = Inr []"
| "block_iter_from a visited (current # remaining) =
     (if current \<in> set visited then block_iter_from a visited remaining
      else rbind (arena_get a current) (\<lambda>b. rbind (targets b) (\<lambda>ts.
           rbind (block_iter_from a (current # visited) (rev ts @ remaining)) (\<lambda>rest.
           Inr (current # rest)))))"
  by pat_completeness auto
termination
proof (relation "measures [\<lambda>(a, visited, remaining). card ({..<length a} - set visited),
                           \<lambda>(a, visited, remaining). length remaining]")
  fix a :: "block arena" and visited remaining ts current b
  assume "current \<notin> set visited" and "arena_get a current = Inr b"
  then have "{..<length a} - set (current # visited) \<subset> {..<length a} - set visited"
    by (auto simp: arena_get_Inr)
  then show "((a, current # visited, rev ts @ remaining), a, visited, current # remaining)
        \<in> measures [\<lambda>(a, visited, remaining). card ({..<length a} - set visited),
                     \<lambda>(a, visited, remaining). length remaining]"
    by (auto intro: psubset_card_mono)
qed auto

definition block_iter :: "block arena \<Rightarrow> block_id \<Rightarrow> block_id list res" where
  "block_iter a start_block = block_iter_from a [] [start_block]"

section \<open>Building statements\<close>

datatype location = End | Before stmt_id

definition build_at ::
  "block_id \<Rightarrow> block arena \<Rightarrow> statement \<Rightarrow> location \<Rightarrow> (block arena \<times> stmt_id) res" where
  "build_at b arena statement location =
     rbind (arena_get arena b) (\<lambda>blk.
     let (sa, r) = arena_insert (statement_arena blk) statement;
         blk = blk\<lparr>statement_arena := sa\<rparr> in
     rbind (case location of
              Before before \<Rightarrow> insert_statement_before blk before r
            | End \<Rightarrow> Inr (append_statement blk r)) (\<lambda>blk.
     rbind (arena_set arena b blk) (\<lambda>arena. Inr (arena, r))))"

definition build :: "block_id \<Rightarrow> block arena \<Rightarrow> statement \<Rightarrow> (block arena \<times> stmt_id) res" where
  "build b arena statement = build_at b arena statement End"

definition import_statement ::
  "block_id \<Rightarrow> block_id \<Rightarrow> block arena \<Rightarrow> stmt_id \<Rightarrow> (stmt_id \<Rightarrow> stmt_id option)
   \<Rightarrow> (block arena \<times> stmt_id) res" where
  "import_statement source_block target_block block_arena target_statement mapping =
     rbind (arena_get block_arena target_block) (\<lambda>tb.
     rbind (arena_get (statement_arena tb) target_statement) (\<lambda>s.
     rbind (import_kind mapping s) (\<lambda>mapped_kind. build source_block block_arena mapped_kind)))"

text \<open>The kind of cast between two primitive types.\<close>

definition primitive_cast_kind :: "primitive_type \<Rightarrow> primitive_type \<Rightarrow> cast_operation_kind" where
  "primitive_cast_kind source dest =
     (case cmp (primitive_width source) (primitive_width dest) of
        Greater \<Rightarrow> TruncateK
      | Less \<Rightarrow>
          (case source of
             UnsignedIntegerT _ \<Rightarrow> ZeroExtendK
           | SignedIntegerT _ \<Rightarrow> SignExtendK
           | FloatingPointT _ \<Rightarrow> SignExtendK)
      | Equal \<Rightarrow> ReinterpretK)"

definition real_literal :: "string \<Rightarrow> (i64 \<times> i64) res" where
  "real_literal s =
     (if s = ''0.0'' then Inr (0, 1) else if s = ''0.5'' then Inr (1, 2)
      else if s = ''1.0'' then Inr (1, 1) else if s = ''2.0'' then Inr (2, 1)
      else if s = ''3.0'' then Inr (3, 1) else Inl Todo)"

definition cast_string_to_real ::
  "rust_env \<Rightarrow> block_id \<Rightarrow> block arena \<Rightarrow> statement \<Rightarrow> location \<Rightarrow> (block arena \<times> stmt_id) res" where
  "cast_string_to_real E b arena src location =
     (case as_constant src of
        Some (StringC s) \<Rightarrow>
          rbind (real_literal s) (\<lambda>(num, den).
          rbind (new_signed E num 64) (\<lambda>num. rbind (build_at b arena (Constant num) location) (\<lambda>(arena, num).
          rbind (new_signed E den 64) (\<lambda>den. rbind (build_at b arena (Constant den) location) (\<lambda>(arena, den).
          build_at b arena (CreateReal num den) location)))))
      | _ \<Rightarrow> Inl ExplicitPanic)"

definition cast_at ::
  "rust_env \<Rightarrow> block_id \<Rightarrow> block arena \<Rightarrow> stmt_id \<Rightarrow> rtype \<Rightarrow> location \<Rightarrow> (block arena \<times> stmt_id) res"
  where
  "cast_at E b arena source destination_type location =
     rbind (arena_get arena b) (\<lambda>blk.
     rbind (arena_get (statement_arena blk) source) (\<lambda>src.
     rbind (statement_typ (statement_arena blk) src) (\<lambda>t. rbind (unwrap t) (\<lambda>source_type.
     let cast_to = (\<lambda>kind t. build_at b arena (Cast kind t source) location) in
     if source_type = destination_type then Inr (arena, source)
     else case (source_type, destination_type) of
       (Primitive sp, Primitive dp) \<Rightarrow> cast_to (primitive_cast_kind sp dp) destination_type
     | (Vector src_count src_type, Vector dst_count dst_type) \<Rightarrow>
         if src_type \<noteq> dst_type then Inl Todo
         else if src_count = 0 \<and> dst_count = 0 then Inl ExplicitPanic
         else if dst_count = 0 \<or> src_count = 0 then cast_to ConvertK destination_type
         else Inl ExplicitPanic
     | (Primitive (UnsignedIntegerT _), BitsT) \<Rightarrow> Inr (arena, source)
     | (Primitive (UnsignedIntegerT _), IntT) \<Rightarrow> cast_to ZeroExtendK u64_t
     | (Primitive (SignedIntegerT _), IntT) \<Rightarrow> cast_to SignExtendK s64_t
     | (IntT, Primitive (SignedIntegerT sz)) \<Rightarrow>
         if sz = 64 then cast_to ReinterpretK s64_t
         else cast_to TruncateK (Primitive (SignedIntegerT sz))
     | (IntT, Primitive (UnsignedIntegerT sz)) \<Rightarrow>
         if sz = 64 then cast_to ReinterpretK u64_t
         else cast_to TruncateK (Primitive (UnsignedIntegerT sz))
     | (Primitive (SignedIntegerT _), BitsT) \<Rightarrow> Inl ExplicitPanic
     | (BitsT, Primitive _) \<Rightarrow> cast_to ReinterpretK destination_type
     | (StringT, RealT) \<Rightarrow> cast_string_to_real E b arena src location
     | _ \<Rightarrow> Inl ExplicitPanic))))"

definition cast :: "rust_env \<Rightarrow> block_id \<Rightarrow> block arena \<Rightarrow> stmt_id \<Rightarrow> rtype \<Rightarrow> (block arena \<times> stmt_id) res" where
  "cast E b arena source destination_type = cast_at E b arena source destination_type End"

section \<open>Functions\<close>

record rfunction =
  return_type :: "rtype option"
  parameters :: "symbol list"
  fn_name :: string
  local_variables :: "(string \<times> symbol) list"
  block_arena :: "block arena"
  entry_block :: block_id

definition function_new :: "string \<Rightarrow> rtype option \<Rightarrow> symbol list \<Rightarrow> rfunction" where
  "function_new name rt params =
     (let (ba, entry) = arena_insert arena_new block_new in
      \<lparr>return_type = rt, parameters = params, fn_name = name, local_variables = [],
       block_arena = ba, entry_block = entry\<rparr>)"

definition add_local_variable :: "rfunction \<Rightarrow> symbol \<Rightarrow> rfunction" where
  "add_local_variable f symbol =
     f\<lparr>local_variables := AList.update (sym_name symbol) symbol (local_variables f)\<rparr>"

definition get_local_variable :: "rfunction \<Rightarrow> string \<Rightarrow> symbol option" where
  "get_local_variable f name = map_of (local_variables f) name"

definition local_variable_symbols :: "rfunction \<Rightarrow> symbol list" where
  "local_variable_symbols f = map snd (local_variables f)"

definition remove_local_variable :: "rfunction \<Rightarrow> symbol \<Rightarrow> rfunction" where
  "remove_local_variable f symbol =
     f\<lparr>local_variables := AList.delete (sym_name symbol) (local_variables f)\<rparr>"

definition get_parameter :: "rfunction \<Rightarrow> string \<Rightarrow> symbol option" where
  "get_parameter f name = find (\<lambda>sym. sym_name sym = name) (parameters f)"

definition remove_parameter :: "rfunction \<Rightarrow> symbol \<Rightarrow> rfunction res" where
  "remove_parameter f symbol =
     rbind (unwrap (position (map sym_name (parameters f)) (sym_name symbol))) (\<lambda>idx.
     Inr (f\<lparr>parameters := take idx (parameters f) @ drop (Suc idx) (parameters f)\<rparr>))"

definition new_block :: "rfunction \<Rightarrow> rfunction \<times> block_id" where
  "new_block f = (let (ba, r) = arena_insert (block_arena f) block_new in (f\<lparr>block_arena := ba\<rparr>, r))"

definition set_entry_block :: "rfunction \<Rightarrow> block_id \<Rightarrow> rfunction" where
  "set_entry_block f b = f\<lparr>entry_block := b\<rparr>"

definition function_blocks :: "rfunction \<Rightarrow> block_id list res" where
  "function_blocks f = block_iter (block_arena f) (entry_block f)"

section \<open>Models\<close>

datatype register_cache_type = CacheNone | CacheRead | CacheReadWrite | CacheConstant

record register_descriptor =
  reg_typ :: rtype
  reg_off :: u64
  reg_cache :: register_cache_type

record model =
  fns :: "(string \<times> rfunction) list"
  registers :: "(string \<times> register_descriptor) list"
  registers_by_offset :: "(u64 \<times> string) list" \<comment> \<open>a BTreeMap: ascending keys\<close>

fun btree_insert :: "'k::linorder \<Rightarrow> 'v \<Rightarrow> ('k \<times> 'v) list \<Rightarrow> ('k \<times> 'v) list" where
  "btree_insert k v [] = [(k, v)]"
| "btree_insert k v ((k', v') # m) =
     (if k < k' then (k, v) # (k', v') # m
      else if k = k' then (k, v) # m
      else (k', v') # btree_insert k v m)"

definition model_new ::
  "(string \<times> rfunction) list \<Rightarrow> (string \<times> register_descriptor) list \<Rightarrow> model" where
  "model_new functs regs =
     \<lparr>fns = functs, registers = regs,
      registers_by_offset = fold (\<lambda>(name, d). btree_insert (reg_off d) name) regs []\<rparr>"

definition add_function :: "model \<Rightarrow> string \<Rightarrow> rfunction \<Rightarrow> model" where
  "add_function m name func = m\<lparr>fns := AList.update name func (fns m)\<rparr>"

definition register_end :: "rust_env \<Rightarrow> register_descriptor \<Rightarrow> u64 res" where
  "register_end E d = rbind (width_bytes E (reg_typ d)) (\<lambda>w. u64_add E (reg_off d) (of_nat w))"

definition register_file_size :: "rust_env \<Rightarrow> model \<Rightarrow> u64 res" where
  "register_file_size E m =
     rbind (mapR (\<lambda>(_, d). register_end E d) (registers m)) (\<lambda>ends.
     if ends = [] then Inl UnwrapFailed else Inr (Max (set ends)))"

definition reg_offset :: "model \<Rightarrow> string \<Rightarrow> u64 res" where
  "reg_offset m name =
     (case map_of (registers m) name of None \<Rightarrow> Inl ExplicitPanic | Some d \<Rightarrow> Inr (reg_off d))"

definition get_register_by_offset :: "model \<Rightarrow> u64 \<Rightarrow> string option" where
  "get_register_by_offset m offset =
     (case rev (takeWhile (\<lambda>(k, _). k \<le> offset) (registers_by_offset m)) of
        [] \<Rightarrow> None
      | (_, name) # _ \<Rightarrow> Some name)"

section \<open>The block iterator\<close>

definition block_edge :: "block arena \<Rightarrow> block_id \<Rightarrow> block_id \<Rightarrow> bool" where
  "block_edge a b c \<longleftrightarrow> (\<exists>blk ts. arena_get a b = Inr blk \<and> targets blk = Inr ts \<and> c \<in> set ts)"

lemma block_iter_from_sound:
  "block_iter_from a visited stack = Inr bs \<Longrightarrow>
     distinct bs \<and> set bs \<inter> set visited = {} \<and> set stack \<subseteq> set bs \<union> set visited
     \<and> (\<forall>b\<in>set bs. \<forall>c. block_edge a b c \<longrightarrow> c \<in> set bs \<union> set visited)
     \<and> (\<forall>b\<in>set bs. \<exists>s\<in>set stack. (block_edge a)\<^sup>*\<^sup>* s b)"
proof (induction a visited stack arbitrary: bs rule: block_iter_from.induct)
  case (2 a visited current remaining)
  show ?case
  proof (cases "current \<in> set visited")
    case True
    then show ?thesis using 2 by auto
  next
    case False
    then obtain blk ts rest where run: "arena_get a current = Inr blk" "targets blk = Inr ts"
        "block_iter_from a (current # visited) (rev ts @ remaining) = Inr rest" "bs = current # rest"
      using 2(3) by (auto simp: rbind_eq_Inr)
    note IH = 2(2) [OF False run(1,2,3)]
    have edge: "block_edge a current c \<longleftrightarrow> c \<in> set ts" for c
      using run(1,2) by (simp add: block_edge_def)
    have "\<exists>s\<in>set (current # remaining). (block_edge a)\<^sup>*\<^sup>* s b" if "b \<in> set rest" for b
    proof -
      from IH that obtain s where "s \<in> set (rev ts @ remaining)" "(block_edge a)\<^sup>*\<^sup>* s b" by blast
      then show ?thesis
        using edge converse_rtranclp_into_rtranclp [of "block_edge a" current s b] by auto
    qed
    with IH run(4) False edge show ?thesis by auto
  qed
qed auto

lemma block_iter_from_total:
  assumes "\<And>b c. b \<in> set stack \<Longrightarrow> (block_edge a)\<^sup>*\<^sup>* b c
            \<Longrightarrow> c < length a \<and> (\<exists>ts. targets (a ! c) = Inr ts)"
  shows "\<exists>bs. block_iter_from a visited stack = Inr bs"
  using assms
proof (induction a visited stack rule: block_iter_from.induct)
  case (2 a visited current remaining)
  obtain ts where ts: "arena_get a current = Inr (a ! current)" "targets (a ! current) = Inr ts"
    using 2(3) [of current current] by (auto simp: arena_get_Inr)
  have step: "block_edge a current c" if "c \<in> set ts" for c
    using ts that by (auto simp: block_edge_def)
  show ?case
  proof (cases "current \<in> set visited")
    case False
    have "\<exists>bs. block_iter_from a (current # visited) (rev ts @ remaining) = Inr bs"
      using 2(2) [OF False ts] 2(3) step
      by (metis (no_types, lifting) UnE converse_rtranclp_into_rtranclp list.set_intros set_append set_rev)
    with False ts show ?thesis by auto
  qed (use 2 in auto)
qed simp


text \<open>
  C14: iterating the blocks of a function terminates and yields every block reachable from the
  start block through jumps and branches, each exactly once, and nothing else.
\<close>

theorem block_iter_visits_reachable:
  assumes "\<And>c. (block_edge a)\<^sup>*\<^sup>* start_block c
             \<Longrightarrow> c < length a \<and> (\<exists>ts. targets (a ! c) = Inr ts)"
  shows "\<exists>bs. block_iter a start_block = Inr bs \<and> distinct bs
           \<and> set bs = {c. (block_edge a)\<^sup>*\<^sup>* start_block c}"
proof -
  have "\<exists>bs. block_iter_from a [] [start_block] = Inr bs"
  proof (rule block_iter_from_total)
    show "c < length a \<and> (\<exists>ts. targets (a ! c) = Inr ts)"
      if "b \<in> set [start_block]" "(block_edge a)\<^sup>*\<^sup>* b c" for b c
      using assms [of c] that by simp
  qed
  then obtain bs where bs: "block_iter_from a [] [start_block] = Inr bs" ..
  note sound = block_iter_from_sound [OF bs]
  have "c \<in> set bs" if "(block_edge a)\<^sup>*\<^sup>* start_block c" for c
    using that by (induction rule: rtranclp_induct) (use sound in auto)
  moreover have "(block_edge a)\<^sup>*\<^sup>* start_block c" if "c \<in> set bs" for c
    using sound that by simp
  ultimately have "set bs = {c. (block_edge a)\<^sup>*\<^sup>* start_block c}" by blast
  with bs sound show ?thesis by (simp add: block_iter_def)
qed

definition sample_blocks :: "block arena" where
  "sample_blocks =
     [\<lparr>statement_arena = [Constant (UnsignedInteger 1 1), Branch 0 1 2], statements = [0, 1]\<rparr>,
      \<lparr>statement_arena = [Jump 2], statements = [0]\<rparr>,
      \<lparr>statement_arena = [Jump 1], statements = [0]\<rparr>]"

lemma sample_blocks_targets:
  "c < length sample_blocks \<Longrightarrow> \<exists>ts. targets (sample_blocks ! c) = Inr ts \<and> set ts \<subseteq> {..<length sample_blocks}"
  by (auto simp: sample_blocks_def targets_def live_statements_def arena_get_def less_Suc_eq)

theorem block_iter_visits_reachable_witness:
  "\<exists>bs. block_iter sample_blocks 0 = Inr bs \<and> distinct bs
      \<and> set bs = {c. (block_edge sample_blocks)\<^sup>*\<^sup>* 0 c}"
proof (rule block_iter_visits_reachable)
  fix c
  assume "(block_edge sample_blocks)\<^sup>*\<^sup>* 0 c"
  then have "c < length sample_blocks"
  proof (induction rule: rtranclp_induct)
    case (step b c)
    then show ?case
      using sample_blocks_targets [of b] by (auto simp: block_edge_def arena_get_Inr)
  qed (simp add: sample_blocks_def)
  then show "c < length sample_blocks \<and> (\<exists>ts. targets (sample_blocks ! c) = Inr ts)"
    using sample_blocks_targets by blast
qed

section \<open>Building and casting\<close>

lemma position_Some: "position xs x = Some i \<Longrightarrow> i < length xs \<and> xs ! i = x"
  by (induction xs arbitrary: i) (auto split: if_splits)

lemma position_first: "position xs x = Some i \<Longrightarrow> x \<notin> set (take i xs)"
  by (induction xs arbitrary: i) (auto split: if_splits)

lemma position_None: "position xs x = None \<longleftrightarrow> x \<notin> set xs"
  by (induction xs) auto

text \<open>The list of live statements after placing \<open>r\<close> at a location.\<close>

definition place_at :: "location \<Rightarrow> stmt_id \<Rightarrow> stmt_id list \<Rightarrow> stmt_id list \<Rightarrow> bool" where
  "place_at loc r old new \<longleftrightarrow>
     (case loc of
        End \<Rightarrow> new = old @ [r]
      | Before before \<Rightarrow> \<exists>pre post. old = pre @ before # post \<and> before \<notin> set pre
                           \<and> new = pre @ r # before # post)"

lemma insert_before_placed:
  "insert_statement_before b before r = Inr b' \<Longrightarrow>
     statement_arena b' = statement_arena b \<and> place_at (Before before) r (statements b) (statements b')"
proof -
  assume "insert_statement_before b before r = Inr b'"
  then obtain i where i: "position (statements b) before = Some i"
      "b' = b\<lparr>statements := take i (statements b) @ r # drop i (statements b)\<rparr>"
    by (auto simp: insert_statement_before_def index_of_statement_def rbind_eq_Inr unwrap_eq_Inr)
  then have "drop i (statements b) = before # drop (Suc i) (statements b)"
    using position_Some [OF i(1)] by (metis Cons_nth_drop_Suc)
  with i position_first [OF i(1)] show ?thesis
    by (auto simp: place_at_def) (metis append_take_drop_id)
qed

lemma build_at_spec:
  assumes "build_at b arena s loc = Inr (arena', r)"
  shows "\<exists>blk blk'. arena_get arena b = Inr blk \<and> arena' = arena[b := blk']
           \<and> statement_arena blk' = statement_arena blk @ [s] \<and> r = length (statement_arena blk)
           \<and> place_at loc r (statements blk) (statements blk')"
  using assms insert_before_placed
  by (fastforce simp: build_at_def rbind_eq_Inr Let_def arena_insert_def arena_set_Inr arena_get_Inr
      append_statement_def place_at_def split: location.splits)

text \<open>The type the result of a cast has.\<close>

fun cast_result_type :: "rtype \<Rightarrow> rtype \<Rightarrow> rtype" where
  "cast_result_type (Primitive (UnsignedIntegerT w)) BitsT = Primitive (UnsignedIntegerT w)"
| "cast_result_type (Primitive (UnsignedIntegerT w)) IntT = u64_t"
| "cast_result_type (Primitive (SignedIntegerT w)) IntT = s64_t"
| "cast_result_type _ dst = dst"

definition typ_in :: "block arena \<Rightarrow> block_id \<Rightarrow> stmt_id \<Rightarrow> rtype option res" where
  "typ_in arena b r =
     rbind (arena_get arena b) (\<lambda>blk. rbind (arena_get (statement_arena blk) r)
       (statement_typ (statement_arena blk)))"

lemma typ_in_built:
  assumes "build_at b arena s loc = Inr (arena', r)" and "\<And>a. statement_typ a s = Inr (Some t)"
  shows "typ_in arena' b r = Inr (Some t)"
  using build_at_spec [OF assms(1)] assms(2)
  by (auto simp: typ_in_def arena_get_def split: if_splits)

lemma typ_built_cast: "statement_typ a (Cast k t v) = Inr (Some t)"
  and typ_built_real: "statement_typ a (CreateReal n d) = Inr (Some RealT)"
  by (simp_all add: statement_typ_def statement_typ_fuel.simps typ_step_def)

text \<open>
  C17: whenever a cast is built, the statement it returns has, in the updated block, the
  destination type; only a cast of an unsigned value to \<open>bits\<close> (which returns its source) and the
  casts to \<open>int\<close> (which produce 64-bit primitives) have the type \<open>cast_result_type\<close> names instead.
\<close>

theorem cast_at_result_type:
  assumes "cast_at E b arena source dst loc = Inr (arena', r)"
    and "typ_in arena b source = Inr (Some src)"
  shows "typ_in arena' b r = Inr (Some (cast_result_type src dst))"
proof -
  note built = typ_in_built [OF _ typ_built_cast] typ_in_built [OF _ typ_built_real]
  obtain blk s where s: "arena_get arena b = Inr blk" "arena_get (statement_arena blk) source = Inr s"
      "statement_typ (statement_arena blk) s = Inr (Some src)"
    using assms(2) by (auto simp: typ_in_def rbind_eq_Inr)
  show ?thesis
    using assms unfolding cast_at_def s rbind_Inr unwrap_Some Let_def
    by (cases "(src, dst)" rule: cast_result_type.cases)
      (auto simp: cast_string_to_real_def rbind_eq_Inr
        split: if_splits rtype.splits primitive_type.splits option.splits rconst.splits prod.splits
        intro: built)
qed

definition sample_cast_block :: block where
  "sample_cast_block = \<lparr>statement_arena = [Constant (UnsignedInteger 5 8)], statements = [0]\<rparr>"

theorem cast_at_result_type_witness:
  "\<exists>arena' r. cast_at sample_env 0 [sample_cast_block] 0 u16_t End = Inr (arena', r)
     \<and> typ_in arena' 0 r = Inr (Some u16_t)"
proof -
  have t: "typ_in [sample_cast_block] 0 0 = Inr (Some (Primitive (UnsignedIntegerT 8)))"
    and c: "cast_at sample_env 0 [sample_cast_block] 0 u16_t End =
      Inr ([\<lparr>statement_arena = [Constant (UnsignedInteger 5 8), Cast ZeroExtendK u16_t 0],
             statements = [0, 1]\<rparr>], 1)"
    by code_simp+
  show ?thesis using cast_at_result_type [OF c t] c by simp
qed

section \<open>Registers by offset\<close>

lemma btree_insert_keys: "set (map fst (btree_insert k v m)) = insert k (set (map fst m))"
  by (induction k v m rule: btree_insert.induct) auto

lemma btree_insert_sorted:
  "sorted_wrt (<) (map fst m) \<Longrightarrow> sorted_wrt (<) (map fst (btree_insert k v m))"
proof (induction k v m rule: btree_insert.induct)
  case (2 k v k' v' m)
  then show ?case using btree_insert_keys [of k v m] by auto
qed simp

lemma model_new_sorted: "sorted_wrt (<) (map fst (registers_by_offset (model_new fs regs)))"
proof -
  have "sorted_wrt (<) (map fst m)
     \<Longrightarrow> sorted_wrt (<) (map fst (fold (\<lambda>(name, d). btree_insert (reg_off d) name) regs m))" for m
    by (induction regs arbitrary: m) (auto simp: btree_insert_sorted)
  from this [of "[]"] show ?thesis by (simp add: model_new_def)
qed

lemma takeWhile_sorted_filter:
  "sorted_wrt (<) (map fst m)
   \<Longrightarrow> takeWhile (\<lambda>(k, _). k \<le> (x :: 'k::linorder)) m = filter (\<lambda>(k, _). k \<le> x) m"
proof (induction m)
  case (Cons p m)
  obtain k v where p: "p = (k, v)" by (cases p)
  have "\<not> k \<le> x \<Longrightarrow> q \<in> set m \<Longrightarrow> \<not> fst q \<le> x" for q
    using Cons.prems p by fastforce
  then have "\<not> k \<le> x \<Longrightarrow> filter (\<lambda>(k, _). k \<le> x) m = []"
    by (auto simp: filter_empty_conv)
  with Cons p show ?case by simp
qed simp

lemma get_register_by_offset_greatest:
  assumes "sorted_wrt (<) (map fst (registers_by_offset m))"
    and "get_register_by_offset m x = Some name"
  shows "\<exists>k. (k, name) \<in> set (registers_by_offset m) \<and> k \<le> x
           \<and> (\<forall>k' \<in> set (map fst (registers_by_offset m)). k' \<le> x \<longrightarrow> k' \<le> k)"
proof -
  let ?f = "filter (\<lambda>(k, _). k \<le> x) (registers_by_offset m)"
  obtain k ks where f: "rev ?f = (k, name) # ks"
    using assms by (auto simp: get_register_by_offset_def takeWhile_sorted_filter split: list.splits)
  then have eq: "?f = rev ks @ [(k, name)]" by (metis rev.simps(2) rev_rev_ident)
  have "sorted_wrt (<) (map fst ?f)"
    using assms(1) by (simp add: sorted_wrt_map sorted_wrt_filter)
  then have "\<forall>k' \<in> set (map fst ?f). k' \<le> k" by (auto simp: eq sorted_wrt_append)
  moreover have "(k, name) \<in> set ?f" by (simp add: eq)
  ultimately show ?thesis by fastforce
qed

end
