(* ===== verification/Register_File.thy ===== *)
theory Register_File
  imports Rudder_Block Bytes
begin

text \<open>
  The guest register file, \<open>brig/dbt/src/register_file.rs\<close>: a byte vector with the names, offsets
  and sizes of the registers.  A \<open>RegisterValue\<close> of the code is here the list of its
  little-endian bytes (\<open>V::SIZE\<close> is the list's length).  \<open>validate_range\<close> is the check that a
  value written at an offset does not run into the next register.  The locale \<open>byte_store\<close> is
  what the interpreter relies on: reads see the last write and nothing else moves.
\<close>

section \<open>Booleans\<close>

definition bool_bytes :: "bool \<Rightarrow> u8 list" where
  "bool_bytes b = [if b then 1 else 0]"

fun bool_from_bytes :: "u8 list \<Rightarrow> bool res" where
  "bool_from_bytes [] = Inl IndexOutOfBounds"
| "bool_from_bytes (b # _) = (if b = 0 then Inr False else if b = 1 then Inr True else Inl Unreachable)"

section \<open>The register file\<close>

record register_file =
  inner :: "u8 list"
  rf_registers :: "(string \<times> nat \<times> nat) list" \<comment> \<open>name, offset, size\<close>
  register_offsets :: "nat list"
  global_register_offset :: nat

text \<open>
  The standard library's binary search of a slice: halve while more than one element is left,
  then compare the last candidate.  \<open>Inr\<close> is the code's \<open>Ok\<close>, \<open>Inl\<close> its \<open>Err\<close>.
\<close>

function bs_narrow :: "nat list \<Rightarrow> nat \<Rightarrow> nat \<Rightarrow> nat \<Rightarrow> nat" where
  "bs_narrow xs x base sz =
     (if sz \<le> 1 then base
      else let half = sz div 2; mid = base + half in
           bs_narrow xs x (if x < xs ! mid then base else mid) (sz - half))"
  by pat_completeness auto
termination
  by (relation "measure (\<lambda>(xs, x, base, sz). sz)") auto

declare bs_narrow.simps [simp del]

definition binary_search :: "nat list \<Rightarrow> nat \<Rightarrow> nat + nat" where
  "binary_search xs x =
     (if xs = [] then Inl 0
      else let base = bs_narrow xs x 0 (length xs) in
           if xs ! base = x then Inr base
           else Inl (if xs ! base < x then base + 1 else base))"

definition validate_range :: "rust_env \<Rightarrow> register_file \<Rightarrow> nat \<Rightarrow> nat \<Rightarrow> unit res" where
  "validate_range E rf offset size_v =
     (let start_index = (case binary_search (register_offsets rf) offset of Inr i \<Rightarrow> i | Inl i \<Rightarrow> i) in
      if start_index + 1 < length (register_offsets rf) then
        rbind (usize_add E offset size_v) (\<lambda>stop.
        if stop > register_offsets rf ! (start_index + 1) then Inl ExplicitPanic else Inr ())
      else Inr ())"

definition write_raw :: "rust_env \<Rightarrow> register_file \<Rightarrow> nat \<Rightarrow> u8 list \<Rightarrow> register_file res" where
  "write_raw E rf offset bytes =
     rbind (validate_range E rf offset (length bytes)) (\<lambda>_.
     rbind (usize_add E offset (length bytes)) (\<lambda>stop.
     if offset \<le> stop \<and> stop \<le> length (inner rf)
     then Inr (rf\<lparr>inner := take offset (inner rf) @ bytes @ drop stop (inner rf)\<rparr>)
     else Inl IndexOutOfBounds))"

definition read_raw :: "rust_env \<Rightarrow> register_file \<Rightarrow> nat \<Rightarrow> nat \<Rightarrow> u8 list res" where
  "read_raw E rf offset size_v =
     rbind (validate_range E rf offset size_v) (\<lambda>_.
     rbind (usize_add E offset size_v) (\<lambda>stop.
     if offset \<le> stop \<and> stop \<le> length (inner rf)
     then Inr (take size_v (drop offset (inner rf)))
     else Inl IndexOutOfBounds))"

text \<open>Named accesses; a wrong size is logged, not refused.\<close>

definition rf_write :: "rust_env \<Rightarrow> register_file \<Rightarrow> string \<Rightarrow> u8 list \<Rightarrow> register_file res" where
  "rf_write E rf name bytes =
     (case map_of (rf_registers rf) name of
        None \<Rightarrow> Inl ExplicitPanic
      | Some (offset, _) \<Rightarrow> write_raw E rf offset bytes)"

definition rf_read :: "rust_env \<Rightarrow> register_file \<Rightarrow> string \<Rightarrow> nat \<Rightarrow> u8 list res" where
  "rf_read E rf name size_v =
     rbind (unwrap (map_of (rf_registers rf) name)) (\<lambda>(offset, _). read_raw E rf offset size_v)"

definition GLOBAL_REGISTER_SIZE :: nat where
  "GLOBAL_REGISTER_SIZE = 2 * 1024 * 1024"

definition next_multiple_of :: "rust_env \<Rightarrow> nat \<Rightarrow> nat \<Rightarrow> nat res" where
  "next_multiple_of E a b = (if a mod b = 0 then Inr a else usize_add E a (b - a mod b))"

text \<open>The construction of the file, before any register is initialised by the interpreter.\<close>

definition register_file_new :: "rust_env \<Rightarrow> model \<Rightarrow> register_file res" where
  "register_file_new E m =
     rbind (register_file_size E m) (\<lambda>sz.
     rbind (next_multiple_of E (unat sz) 8) (\<lambda>global.
     rbind (usize_add E global GLOBAL_REGISTER_SIZE) (\<lambda>total_size.
     rbind (mapR (\<lambda>(name, d). rbind (width_bytes E (reg_typ d)) (\<lambda>w. Inr (name, unat (reg_off d), w)))
              (registers m)) (\<lambda>regs.
     Inr \<lparr>inner = replicate total_size 0, rf_registers = regs,
          register_offsets = sort (map (\<lambda>(_, d). unat (reg_off d)) (registers m)),
          global_register_offset = global\<rparr>))))"

definition disabled_features :: "string list" where
  "disabled_features =
     [''FEAT_LSE2_IMPLEMENTED'', ''FEAT_TME_IMPLEMENTED'', ''FEAT_BTI_IMPLEMENTED'',
      ''FEAT_PAuth_IMPLEMENTED'', ''FEAT_PAuth2_IMPLEMENTED'', ''FEAT_AES_IMPLEMENTED'',
      ''FEAT_SVE_IMPLEMENTED'', ''FEAT_HAFDBS_IMPLEMENTED'', ''FEAT_HAFT_IMPLEMENTED'']"

definition configure_features :: "rust_env \<Rightarrow> register_file \<Rightarrow> register_file res" where
  "configure_features E rf = foldR (\<lambda>name rf. rf_write E rf name (le_bytes 1 0)) disabled_features rf"

section \<open>Binary search\<close>

lemma bs_narrow_spec:
  assumes "sorted xs" and "1 \<le> sz" and "base + sz \<le> length xs"
    and "base = 0 \<or> xs ! base \<le> x" and "\<forall>i. base + sz \<le> i \<and> i < length xs \<longrightarrow> x < xs ! i"
  shows "let r = bs_narrow xs x base sz in
           r < length xs \<and> (r = 0 \<or> xs ! r \<le> x) \<and> (\<forall>i. r < i \<and> i < length xs \<longrightarrow> x < xs ! i)"
  using assms
proof (induction xs x base sz rule: bs_narrow.induct)
  case (1 xs x base sz)
  show ?case
  proof (cases "sz \<le> 1")
    case True
    with 1(3-6) show ?thesis by (auto simp: bs_narrow.simps [of xs x base sz] bs_narrow.simps [of xs x base "Suc 0"] Let_def le_Suc_eq)
  next
    case False
    let ?half = "sz div 2" let ?mid = "base + ?half" let ?base = "if x < xs ! ?mid then base else ?mid"
    have mid: "?mid < length xs" "?half \<ge> 1" "?half < sz" using False 1(4) by auto
    have above: "x < xs ! i" if "x < xs ! ?mid" "?mid \<le> i" "i < length xs" for i
      using that sorted_nth_mono [OF 1(2) that(2,3)] by simp
    have upper: "\<forall>i. ?base + (sz - ?half) \<le> i \<and> i < length xs \<longrightarrow> x < xs ! i"
      using above 1(6) mid(3) by (auto simp: not_less)
    have "?base = 0 \<or> xs ! ?base \<le> x" using 1(5) by auto
    moreover have "?base + (sz - ?half) \<le> length xs" using 1(4) mid(3) by auto
    ultimately have "let r = bs_narrow xs x ?base (sz - ?half) in
        r < length xs \<and> (r = 0 \<or> xs ! r \<le> x) \<and> (\<forall>i. r < i \<and> i < length xs \<longrightarrow> x < xs ! i)"
      by (intro 1(1) [OF False refl refl 1(2)] upper) (use mid(3) in simp_all)
    then show ?thesis
      unfolding bs_narrow.simps [of xs x base sz] using False by (simp only: Let_def if_False) blast
  qed
qed

lemma binary_search_found: "sorted xs \<Longrightarrow> binary_search xs x = Inr i \<Longrightarrow> i < length xs \<and> xs ! i = x"
  using bs_narrow_spec [of xs "length xs" 0 x]
  by (auto simp: binary_search_def Let_def Suc_le_eq split: if_splits)

lemma binary_search_missing:
  assumes "sorted xs" and "binary_search xs x = Inl i"
  shows "i \<le> length xs \<and> (\<forall>j<i. xs ! j < x) \<and> (\<forall>j. i \<le> j \<and> j < length xs \<longrightarrow> x < xs ! j)"
proof (cases "xs = []")
  case True
  with assms show ?thesis by (simp add: binary_search_def)
next
  case False
  let ?r = "bs_narrow xs x 0 (length xs)"
  have r: "?r < length xs" "?r = 0 \<or> xs ! ?r \<le> x" "\<forall>i. ?r < i \<and> i < length xs \<longrightarrow> x < xs ! i"
    using bs_narrow_spec [of xs "length xs" 0 x] assms(1) False by (auto simp: Let_def Suc_le_eq)
  have ne: "xs ! ?r \<noteq> x" and i: "i = (if xs ! ?r < x then ?r + 1 else ?r)"
    using assms(2) False by (auto simp: binary_search_def Let_def split: if_splits)
  show ?thesis
  proof (cases "xs ! ?r < x")
    case True
    then have "xs ! j < x" if "j < ?r + 1" for j
      using sorted_nth_mono [OF assms(1), of j ?r] that r(1) by simp
    with True r i show ?thesis by auto
  next
    case False
    with ne r(2) i have "?r = 0" "i = 0" "x < xs ! 0" by auto
    with r(3) show ?thesis by (metis gr0I not_less_zero zero_le)
  qed
qed

lemma binary_search_member:
  assumes "sorted xs" and "x \<in> set xs"
  shows "\<exists>i. binary_search xs x = Inr i"
proof (cases "binary_search xs x")
  case (Inl i)
  obtain j where j: "j < length xs" "xs ! j = x" using assms(2) by (auto simp: in_set_conv_nth)
  then show ?thesis
    using binary_search_missing [OF assms(1) Inl] by (metis less_irrefl not_less)
qed simp

section \<open>Reads and writes\<close>

locale byte_store =
  fixes load :: "'s \<Rightarrow> nat \<Rightarrow> nat \<Rightarrow> u8 list res"
    and store :: "'s \<Rightarrow> nat \<Rightarrow> u8 list \<Rightarrow> 's res"
  assumes load_stored: "off < 2 ^ 64 \<Longrightarrow> length bs < 2 ^ 64 \<Longrightarrow> store s off bs = Inr s'
      \<Longrightarrow> load s' off (length bs) = Inr bs"
    and load_other: "off < 2 ^ 64 \<Longrightarrow> length bs < 2 ^ 64 \<Longrightarrow> off' < 2 ^ 64 \<Longrightarrow> n < 2 ^ 64
      \<Longrightarrow> store s off bs = Inr s' \<Longrightarrow> off' + n \<le> off \<or> off + length bs \<le> off'
      \<Longrightarrow> load s' off' n = load s off' n"
begin

definition load_int :: "'s \<Rightarrow> nat \<Rightarrow> nat \<Rightarrow> nat res" where
  "load_int s off n = rbind (load s off n) (\<lambda>bs. Inr (from_le bs))"

lemma load_int_stored:
  assumes "off < 2 ^ 64" "n < 2 ^ 64" "store s off (le_bytes n x) = Inr s'" "x < 256 ^ n"
  shows "load_int s' off n = Inr x"
  using load_stored [OF assms(1) _ assms(3)] assms(2,4) by (simp add: load_int_def from_le_bytes)

lemma load_int_two_stores:
  assumes "off < 2 ^ 64" "n < 2 ^ 64" "store s off (le_bytes n x) = Inr s'" "x < 256 ^ n"
    and "off' < 2 ^ 64" "length bs < 2 ^ 64" "store s' off' bs = Inr s''"
    and "off + n \<le> off' \<or> off' + length bs \<le> off"
  shows "load_int s'' off n = Inr x"
  using load_other [OF assms(5,6,1,2,7)] assms(8) load_int_stored [OF assms(1-4)]
  by (simp add: load_int_def)

end

lemma usize_add_in_range:
  assumes "usize_add E a b = Inr s" "a < 2 ^ 64" "b < 2 ^ 64" "a \<le> s"
  shows "s = a + b"
proof (cases "a + b < 2 ^ 64")
  case False
  then have "(a + b) mod 2 ^ 64 = a + b - 2 ^ 64"
    using assms(2,3) by (simp add: mod_if)
  with assms False show ?thesis by (auto simp: usize_add_def checked_eq_Inr)
qed (use assms in \<open>simp add: usize_add_def checked_eq_Inr\<close>)

lemma validate_range_inner [simp]: "validate_range E (rf\<lparr>inner := bs\<rparr>) off n = validate_range E rf off n"
  by (simp add: validate_range_def cong: if_cong)

lemma write_raw_Inr:
  assumes "write_raw E rf off bs = Inr rf'" "off < 2 ^ 64" "length bs < 2 ^ 64"
  shows "validate_range E rf off (length bs) = Inr () \<and> off + length bs \<le> length (inner rf)
     \<and> usize_add E off (length bs) = Inr (off + length bs)
     \<and> rf' = rf\<lparr>inner := take off (inner rf) @ bs @ drop (off + length bs) (inner rf)\<rparr>"
  using assms usize_add_in_range [OF _ assms(2,3)]
  by (auto simp: write_raw_def rbind_eq_Inr split: if_splits)

lemma slice_of_patched_same:
  "off + length bs \<le> length xs
   \<Longrightarrow> take (length bs) (drop off (take off xs @ bs @ drop (off + length bs) xs)) = bs"
  by simp

lemma slice_of_patched_other:
  assumes "off + length bs \<le> length xs" and "off' + n \<le> off \<or> off + length bs \<le> off'"
  shows "take n (drop off' (take off xs @ bs @ drop (off + length bs) xs)) = take n (drop off' xs)"
proof (cases "off' + n \<le> off")
  case True
  then show ?thesis using assms(1) by (simp add: min_def take_drop)
next
  case False
  with assms(2) have le: "off + length bs \<le> off'" by simp
  have "drop off' (take off xs @ bs @ drop (off + length bs) xs)
          = drop (off' - (off + length bs)) (drop (off + length bs) xs)"
    using le assms(1) by simp
  with le show ?thesis by simp
qed

interpretation rf_bytes: byte_store "read_raw E" "write_raw E" for E :: rust_env
proof
  fix off :: nat and bs and s s' :: register_file
  assume b: "off < 2 ^ 64" "length bs < 2 ^ 64" and w: "write_raw E s off bs = Inr s'"
  note W = write_raw_Inr [OF w b]
  show "read_raw E s' off (length bs) = Inr bs"
    using W by (auto simp: read_raw_def)
  fix off' n :: nat
  assume b': "off' < 2 ^ 64" "n < 2 ^ 64" and d: "off' + n \<le> off \<or> off + length bs \<le> off'"
  have len: "length (inner s') = length (inner s)" using W by auto
  show "read_raw E s' off' n = read_raw E s off' n"
    using W d usize_add_in_range [OF _ b'] slice_of_patched_other [of off bs "inner s" off' n]
    by (cases "usize_add E off' n") (auto simp: read_raw_def)
qed


text \<open>
  C16: a value written to the register file is what a read of the same width at the same offset
  returns, and a read of any range that does not overlap the write is unaffected by it.
\<close>

theorem register_write_read:
  assumes "off < 2 ^ 64" and "n < 2 ^ 64" and "x < 256 ^ n"
    and "write_raw E rf off (le_bytes n x) = Inr rf'"
  shows "rf_bytes.load_int E rf' off n = Inr x
         \<and> (\<forall>off' k. off' < 2 ^ 64 \<and> k < 2 ^ 64 \<and> (off' + k \<le> off \<or> off + n \<le> off')
              \<longrightarrow> read_raw E rf' off' k = read_raw E rf off' k)"
  using rf_bytes.load_int_stored [OF assms(1,2,4,3)] rf_bytes.load_other [OF assms(1) _ _ _ assms(4)]
    assms(2) by simp

definition sample_rf :: register_file where
  "sample_rf = \<lparr>inner = replicate 24 0, rf_registers = [(''R0'', 0, 8), (''R1'', 8, 8), (''R2'', 16, 8)],
                register_offsets = [0, 8, 16], global_register_offset = 24\<rparr>"

theorem register_write_read_witness:
  "\<exists>rf'. write_raw sample_env sample_rf 8 (le_bytes 8 0x1234) = Inr rf'
     \<and> rf_bytes.load_int sample_env rf' 8 8 = Inr 0x1234"
proof -
  obtain rf' where w: "write_raw sample_env sample_rf 8 (le_bytes 8 0x1234) = Inr rf'"
    by (simp add: write_raw_def validate_range_def sample_rf_def binary_search_def bs_narrow.simps
        Let_def usize_add_def)
  show ?thesis
    using register_write_read [OF _ _ _ w] w by simp
qed

lemma validate_range_at_start:
  assumes "sorted (register_offsets rf)" and "distinct (register_offsets rf)"
    and "overflow_checks E" and "off \<in> set (register_offsets rf)"
    and "validate_range E rf off n = Inr ()"
    and "next \<in> set (register_offsets rf)" and "off < next"
  shows "off + n \<le> next"
proof -
  let ?o = "register_offsets rf"
  obtain i where i: "binary_search ?o off = Inr i" using binary_search_member [OF assms(1,4)] ..
  then have at: "i < length ?o" "?o ! i = off" using binary_search_found [OF assms(1)] by auto
  obtain j where j: "j < length ?o" "?o ! j = next" using assms(6) by (auto simp: in_set_conv_nth)
  have "i < j" using j at assms(7) sorted_nth_mono [OF assms(1), of j i] by (metis leI not_less)
  then have "?o ! (i + 1) \<le> next" "i + 1 < length ?o"
    using j sorted_nth_mono [OF assms(1), of "i + 1" j] by auto
  with assms(3,5) i show ?thesis
    by (auto simp: validate_range_def usize_add_def checked_eq_Inr rbind_eq_Inr split: if_splits)
qed

text \<open>
  In a checked build, an access that starts at a register and passes \<open>validate_range\<close> ends
  at or before the start of every later register.
\<close>

theorem validate_range_protects_neighbours:
  assumes "overflow_checks E" and "sorted (register_offsets rf)" and "distinct (register_offsets rf)"
    and "off \<in> set (register_offsets rf)" and "validate_range E rf off n = Inr ()"
  shows "\<forall>next. next \<in> set (register_offsets rf) \<and> off < next \<longrightarrow> off + n \<le> next"
  using validate_range_at_start [OF assms(2,3,1,4,5)] by blast

theorem validate_range_protects_neighbours_witness:
  "validate_range sample_env sample_rf 8 8 = Inr () \<and> (8 :: nat) + 8 \<le> 16"
proof -
  have v: "validate_range sample_env sample_rf 8 8 = Inr ()"
    by (simp add: validate_range_def sample_rf_def binary_search_def bs_narrow.simps Let_def usize_add_def)
  have "\<forall>next. next \<in> set (register_offsets sample_rf) \<and> 8 < next \<longrightarrow> 8 + 8 \<le> next"
    by (rule validate_range_protects_neighbours [OF sample_env_checks _ _ _ v])
      (simp_all add: sample_rf_def)
  then have "8 + 8 \<le> (16 :: nat)" by (simp add: sample_rf_def)
  with v show ?thesis ..
qed

text \<open>
  An access that starts inside a register is checked against the register after the next one:
  with registers at 0, 8 and 16, eight bytes written at offset 4 pass the check and change the
  register at 8.
\<close>

theorem validate_range_misses_overlap:
  "validate_range sample_env sample_rf 4 8 = Inr ()
   \<and> (\<exists>rf'. write_raw sample_env sample_rf 4 (le_bytes 8 (2 ^ 64 - 1)) = Inr rf'
        \<and> rf_bytes.load_int sample_env sample_rf 8 8 = Inr 0
        \<and> rf_bytes.load_int sample_env rf' 8 8 = Inr 0xFFFFFFFF)"
  by (simp add: validate_range_def write_raw_def read_raw_def sample_rf_def binary_search_def
      bs_narrow.simps Let_def usize_add_def rf_bytes.load_int_def le_bytes_numeral from_le_append)

end
