(* ===== verification/Interpreter.thy ===== *)
theory Interpreter
  imports Register_File
begin

text \<open>
  The reference interpreter of the representation, \<open>brig/dbt/src/interpret.rs\<close>: it gives every
  Rudder function its meaning and is what the register file is initialised with.  Each group of
  arms of \<open>interpret_block\<close> is a definition of its own; \<open>exec_statement\<close> puts them together and
  \<open>exec_block\<close>, \<open>run_blocks\<close> and \<open>interpret\<close> are the loops around it.  The register file is
  shared and mutated in place, so it is threaded through calls.  \<open>interpret\<close> may run forever:
  its first argument bounds the depth of blocks and calls, and a run that needs more is
  \<open>OutOfFuel\<close>.
\<close>

unbundle bit_operations_syntax

section \<open>Values\<close>

datatype rvalue =
    UnsignedIntegerV u64 nat
  | SignedIntegerV i64 nat
  | FloatingPointV f64
  | StringV string
  | VectorV "rvalue list"
  | TupleV "rvalue list"

fun from_constant :: "rconst \<Rightarrow> rvalue" where
  "from_constant (UnsignedInteger value width) = UnsignedIntegerV value width"
| "from_constant (SignedInteger value width) = SignedIntegerV value width"
| "from_constant (FloatingPoint value _) = FloatingPointV value"
| "from_constant (StringC s) = StringV s"
| "from_constant (TupleC vec) = TupleV (map from_constant vec)"
| "from_constant (VectorC vec) = VectorV (map from_constant vec)"

text \<open>The derived equality: constructors, values and widths; floats by IEEE equality.\<close>

fun value_eq :: "rust_env \<Rightarrow> rvalue \<Rightarrow> rvalue \<Rightarrow> bool"
  and values_eq :: "rust_env \<Rightarrow> rvalue list \<Rightarrow> rvalue list \<Rightarrow> bool" where
  "value_eq E (UnsignedIntegerV a w) (UnsignedIntegerV b w') = (a = b \<and> w = w')"
| "value_eq E (SignedIntegerV a w) (SignedIntegerV b w') = (a = b \<and> w = w')"
| "value_eq E (FloatingPointV a) (FloatingPointV b) = f64_eq E a b"
| "value_eq E (StringV s) (StringV t) = (s = t)"
| "value_eq E (VectorV xs) (VectorV ys) = values_eq E xs ys"
| "value_eq E (TupleV xs) (TupleV ys) = values_eq E xs ys"
| "value_eq E _ _ = False"
| "values_eq E [] [] = True"
| "values_eq E (x # xs) (y # ys) = (value_eq E x y \<and> values_eq E xs ys)"
| "values_eq E _ _ = False"

fun value_partial_cmp :: "rvalue \<Rightarrow> rvalue \<Rightarrow> ordering res" where
  "value_partial_cmp (UnsignedIntegerV l _) (UnsignedIntegerV r _) = Inr (cmp l r)"
| "value_partial_cmp (SignedIntegerV l _) (SignedIntegerV r _) = Inr (i64_cmp l r)"
| "value_partial_cmp (SignedIntegerV l _) (UnsignedIntegerV r _) =
     rbind (i64_try_from_u64 r) (\<lambda>r. Inr (i64_cmp l r))"
| "value_partial_cmp _ _ = Inl Todo"

fun value_sub :: "rust_env \<Rightarrow> rvalue \<Rightarrow> rvalue \<Rightarrow> rvalue res" where
  "value_sub E (SignedIntegerV l lw) (SignedIntegerV r rw) =
     rbind (i64_sub E l r) (\<lambda>v. Inr (SignedIntegerV v (max lw rw)))"
| "value_sub E (UnsignedIntegerV l lw) (UnsignedIntegerV r rw) =
     rbind (u64_sub E l r) (\<lambda>v. Inr (UnsignedIntegerV v (max lw rw)))"
| "value_sub E (SignedIntegerV l lw) (UnsignedIntegerV r rw) =
     rbind (i64_try_from_u64 r) (\<lambda>r. rbind (i64_sub E l r) (\<lambda>v. Inr (SignedIntegerV v (max lw rw))))"
| "value_sub E _ _ = Inl Todo"

fun value_add :: "rust_env \<Rightarrow> rvalue \<Rightarrow> rvalue \<Rightarrow> rvalue res" where
  "value_add E (SignedIntegerV l lw) (SignedIntegerV r rw) =
     rbind (i64_add E l r) (\<lambda>v. Inr (SignedIntegerV v (max lw rw)))"
| "value_add E (UnsignedIntegerV l lw) (SignedIntegerV r rw) =
     rbind (i64_try_from_u64 l) (\<lambda>l. rbind (i64_add E l r) (\<lambda>v. Inr (SignedIntegerV v (max lw rw))))"
| "value_add E (SignedIntegerV l lw) (UnsignedIntegerV r rw) =
     rbind (i64_try_from_u64 r) (\<lambda>r. rbind (i64_add E l r) (\<lambda>v. Inr (SignedIntegerV v (max lw rw))))"
| "value_add E _ _ = Inl Todo"

fun value_mul :: "rust_env \<Rightarrow> rvalue \<Rightarrow> rvalue \<Rightarrow> rvalue res" where
  "value_mul E (SignedIntegerV l lw) (SignedIntegerV r rw) =
     rbind (i64_mul E l r) (\<lambda>v. Inr (SignedIntegerV v (max lw rw)))"
| "value_mul E (SignedIntegerV l lw) (UnsignedIntegerV r rw) =
     rbind (i64_try_from_u64 r) (\<lambda>r. rbind (i64_mul E l r) (\<lambda>v. Inr (SignedIntegerV v (max lw rw))))"
| "value_mul E (UnsignedIntegerV l lw) (UnsignedIntegerV r rw) =
     rbind (u64_mul E l r) (\<lambda>v. Inr (UnsignedIntegerV v (max lw rw)))"
| "value_mul E _ _ = Inl Todo"

fun value_bitor :: "rvalue \<Rightarrow> rvalue \<Rightarrow> rvalue res" where
  "value_bitor (UnsignedIntegerV l lw) (UnsignedIntegerV r rw) =
     Inr (UnsignedIntegerV (l OR r) (max lw rw))"
| "value_bitor _ _ = Inl Todo"

fun value_bitand :: "rvalue \<Rightarrow> rvalue \<Rightarrow> rvalue res" where
  "value_bitand (UnsignedIntegerV l lw) (UnsignedIntegerV r rw) =
     Inr (UnsignedIntegerV (l AND r) (max lw rw))"
| "value_bitand _ _ = Inl Todo"

fun value_div :: "rvalue \<Rightarrow> rvalue \<Rightarrow> rvalue res" where
  "value_div (SignedIntegerV l lw) (SignedIntegerV r rw) =
     rbind (i64_div l r) (\<lambda>v. Inr (SignedIntegerV v (max lw rw)))"
| "value_div _ _ = Inl Todo"

definition sign_extend :: "rust_env \<Rightarrow> i64 \<Rightarrow> nat \<Rightarrow> nat \<Rightarrow> i64 res" where
  "sign_extend E value source_width dest_width =
     rbind (u32_sub E 64 source_width) (\<lambda>shift_amount.
     rbind (i64_shl E value shift_amount) (\<lambda>l.
     rbind (i64_shr E l shift_amount) (\<lambda>signed_extended.
     Inr (signed_extended AND mask_u64 dest_width))))"

section \<open>The interpreter's state\<close>

record interpreter =
  locals :: "string \<rightharpoonup> rvalue"
  statement_values :: "stmt_id \<rightharpoonup> rvalue"
  regs :: register_file
  flags :: nat

datatype block_result = NextBlock block_id | ReturnValue "rvalue option"

definition resolve :: "interpreter \<Rightarrow> stmt_id \<Rightarrow> rvalue res" where
  "resolve st r = (case statement_values st r of None \<Rightarrow> Inl ExplicitPanic | Some v \<Rightarrow> Inr v)"

fun as_u64 :: "rvalue \<Rightarrow> u64 res" where
  "as_u64 (UnsignedIntegerV u _) = Inr u"
| "as_u64 (SignedIntegerV i _) = (if sint i < 0 then Inl ExplicitPanic else Inr i)"
| "as_u64 _ = Inl ExplicitPanic"

definition resolve_u64 :: "interpreter \<Rightarrow> stmt_id \<Rightarrow> u64 res" where
  "resolve_u64 st r = rbind (resolve st r) as_u64"

section \<open>Registers\<close>

definition write_sized :: "rust_env \<Rightarrow> register_file \<Rightarrow> u64 \<Rightarrow> nat \<Rightarrow> nat \<Rightarrow> register_file res" where
  "write_sized E rf value width offset =
     (if 1 \<le> width \<and> width \<le> 8 then
        if unat value < 2 ^ 8 then write_raw E rf offset (le_bytes 1 (unat value)) else Inl UnwrapFailed
      else if 9 \<le> width \<and> width \<le> 16 then
        if unat value < 2 ^ 16 then write_raw E rf offset (le_bytes 2 (unat value)) else Inl UnwrapFailed
      else if 17 \<le> width \<and> width \<le> 32 then
        if unat value < 2 ^ 32 then write_raw E rf offset (le_bytes 4 (unat value)) else Inl UnwrapFailed
      else if 33 \<le> width \<and> width \<le> 64 then write_raw E rf offset (le_bytes 8 (unat value))
      else if 65 \<le> width \<and> width \<le> 128 then
        rbind (write_raw E rf offset (le_bytes 8 (unat value))) (\<lambda>rf.
        rbind (usize_add E offset 8) (\<lambda>off. write_raw E rf off (le_bytes 8 0)))
      else Inr rf)"

fun value_width :: "rvalue \<Rightarrow> nat res" where
  "value_width (UnsignedIntegerV _ width) = Inr width"
| "value_width (SignedIntegerV _ width) = Inr width"
| "value_width _ = Inl Todo"

fun write_register :: "rust_env \<Rightarrow> register_file \<Rightarrow> rvalue \<Rightarrow> nat \<Rightarrow> register_file res"
  and write_elements :: "rust_env \<Rightarrow> register_file \<Rightarrow> rvalue list \<Rightarrow> nat \<Rightarrow> nat \<Rightarrow> nat \<Rightarrow> register_file res"
  where
  "write_register E rf (UnsignedIntegerV value width) offset = write_sized E rf value width offset"
| "write_register E rf (SignedIntegerV value width) offset =
     write_sized E rf (value AND mask_u64 width) width offset"
| "write_register E rf (VectorV values) offset =
     (case values of
        [] \<Rightarrow> Inl Todo
      | first # _ \<Rightarrow> rbind (value_width first) (\<lambda>width. write_elements E rf values offset width 0))"
| "write_register E rf (FloatingPointV _) offset = Inl Todo"
| "write_register E rf (StringV _) offset = Inl Todo"
| "write_register E rf (TupleV _) offset = Inl Todo"
| "write_elements E rf [] offset width i = Inr rf"
| "write_elements E rf (v # vs) offset width i =
     rbind (usize_mul E i width) (\<lambda>d. rbind (usize_add E offset d) (\<lambda>off.
     rbind (write_register E rf v off) (\<lambda>rf. write_elements E rf vs offset width (Suc i))))"

definition read_sized :: "rust_env \<Rightarrow> register_file \<Rightarrow> nat \<Rightarrow> nat \<Rightarrow> u64 res" where
  "read_sized E rf width offset =
     (let load = (\<lambda>n. rbind (read_raw E rf offset n) (\<lambda>bs. Inr (from_le bs))) in
      if 1 \<le> width \<and> width \<le> 8 then rbind (load 1) (\<lambda>x. Inr (word_of_nat x))
      else if 9 \<le> width \<and> width \<le> 16 then rbind (load 2) (\<lambda>x. Inr (word_of_nat x))
      else if 17 \<le> width \<and> width \<le> 32 then rbind (load 4) (\<lambda>x. Inr (word_of_nat x))
      else if 33 \<le> width \<and> width \<le> 64 then rbind (load 8) (\<lambda>x. Inr (word_of_nat x))
      else if 65 \<le> width \<and> width \<le> 128 then
        rbind (load 16) (\<lambda>x. if x < 2 ^ 64 then Inr (word_of_nat x) else Inl UnwrapFailed)
      else Inr 0)"

fun read_register :: "rust_env \<Rightarrow> register_file \<Rightarrow> rtype \<Rightarrow> nat \<Rightarrow> rvalue res" where
  "read_register E rf (Primitive ptyp) offset =
     rbind (read_sized E rf (primitive_width ptyp) offset) (\<lambda>value.
     case ptyp of
       UnsignedIntegerT width \<Rightarrow> Inr (UnsignedIntegerV (value AND mask_u64 width) width)
     | SignedIntegerT width \<Rightarrow> Inr (SignedIntegerV (value AND mask_u64 width) width)
     | FloatingPointT _ \<Rightarrow> Inl Todo)"
| "read_register E rf (Vector n et) offset =
     rbind (width_bytes E et) (\<lambda>element_width.
     rbind (mapR (\<lambda>i. rbind (usize_mul E i element_width) (\<lambda>d. rbind (usize_add E offset d) (\<lambda>off.
                      read_register E rf et off))) [0..<n])
       (\<lambda>vs. Inr (VectorV vs)))"
| "read_register E rf IntT offset =
     rbind (read_raw E rf offset 8) (\<lambda>bs. Inr (SignedIntegerV (word_of_nat (from_le bs)) 64))"
| "read_register E rf (TupleT _) offset = Inl Todo"
| "read_register E rf BitsT offset = Inl Todo"
| "read_register E rf StringT offset = Inl Todo"
| "read_register E rf RealT offset = Inl Todo"

section \<open>Operations on values\<close>

fun eval_unary :: "rust_env \<Rightarrow> unary_operation_kind \<Rightarrow> rvalue \<Rightarrow> rvalue res" where
  "eval_unary E NotK (UnsignedIntegerV value _) = Inr (UnsignedIntegerV (of_bool (value = 0)) 1)"
| "eval_unary E NotK _ = Inl ExplicitPanic"
| "eval_unary E ComplementK (UnsignedIntegerV value width) = Inr (UnsignedIntegerV (NOT value) width)"
| "eval_unary E ComplementK _ = Inl Todo"
| "eval_unary E NegateK (SignedIntegerV value width) =
     rbind (i64_neg E value) (\<lambda>v. Inr (SignedIntegerV v width))"
| "eval_unary E NegateK _ = Inl Todo"
| "eval_unary E _ _ = Inl Todo"

definition truth :: "bool \<Rightarrow> rvalue" where
  "truth b = UnsignedIntegerV (of_bool b) 1"

definition eval_binary :: "rust_env \<Rightarrow> binary_operation_kind \<Rightarrow> rvalue \<Rightarrow> rvalue \<Rightarrow> rvalue res" where
  "eval_binary E kind left right =
     (let compare = (\<lambda>p. rbind (value_partial_cmp left right) (\<lambda>c. Inr (truth (p c)))) in
      case kind of
        CompareEqualK \<Rightarrow> Inr (truth (value_eq E left right))
      | CompareNotEqualK \<Rightarrow> Inr (truth (\<not> value_eq E left right))
      | CompareLessThanK \<Rightarrow> compare (\<lambda>c. c = Less)
      | CompareLessThanOrEqualK \<Rightarrow> compare (\<lambda>c. c = Less \<or> c = Equal)
      | CompareGreaterThanK \<Rightarrow> compare (\<lambda>c. c = Greater)
      | CompareGreaterThanOrEqualK \<Rightarrow> compare (\<lambda>c. c = Greater \<or> c = Equal)
      | SubK \<Rightarrow> value_sub E left right
      | AddK \<Rightarrow> value_add E left right
      | MultiplyK \<Rightarrow> value_mul E left right
      | OrK \<Rightarrow> value_bitor left right
      | AndK \<Rightarrow> value_bitand left right
      | DivideK \<Rightarrow> value_div left right
      | _ \<Rightarrow> Inl Todo)"

text \<open>The 64-bit sum with carry and its NZCV flags.\<close>

definition add_with_carry :: "u64 \<Rightarrow> u64 \<Rightarrow> u64 \<Rightarrow> u64 \<times> nat" where
  "add_with_carry a b c =
     (let unsigned_sum = uint a + uint b + uint c;
          signed_sum = sint a + sint b + sint c;
          u_result = word_of_int unsigned_sum :: u64;
          i_result = word_of_int unsigned_sum :: i64;
          n = of_bool (bit u_result 63) :: nat;
          z = of_bool (u_result = 0) :: nat;
          c' = of_bool (uint u_result \<noteq> unsigned_sum) :: nat;
          v = of_bool (sint i_result \<noteq> signed_sum) :: nat
      in (u_result, 8 * n + 4 * z + 2 * c' + v))"

text \<open>\<open>let Value::UnsignedInteger { width, value } = v else { panic!() }; assert_eq!(width, w)\<close>\<close>

fun expect_unsigned :: "nat \<Rightarrow> rvalue \<Rightarrow> u64 res" where
  "expect_unsigned w (UnsignedIntegerV value width) = rbind (rassert (width = w)) (\<lambda>_. Inr value)"
| "expect_unsigned w _ = Inl ExplicitPanic"

fun eval_shift :: "rust_env \<Rightarrow> shift_operation_kind \<Rightarrow> rvalue \<Rightarrow> u64 \<Rightarrow> rvalue res" where
  "eval_shift E LogicalShiftLeftK (UnsignedIntegerV value width) amount =
     rbind (u32_try_from_u64 amount) (\<lambda>n.
     Inr (UnsignedIntegerV (fst (overflowing_shl value n) AND mask_u64 width) width))"
| "eval_shift E LogicalShiftRightK (UnsignedIntegerV value width) amount =
     rbind (u32_try_from_u64 amount) (\<lambda>n.
     Inr (UnsignedIntegerV (fst (overflowing_shr value n) AND mask_u64 width) width))"
| "eval_shift E LogicalShiftLeftK (SignedIntegerV value width) amount =
     rbind (i64_shl E value (unat amount)) (\<lambda>v. Inr (SignedIntegerV v width))"
| "eval_shift E _ _ _ = Inl Todo"

text \<open>The arms of the cast are disjoint: they are grouped by value, destination type and kind.\<close>

definition cast_unsigned :: "cast_operation_kind \<Rightarrow> rtype \<Rightarrow> u64 \<Rightarrow> nat \<Rightarrow> rvalue res" where
  "cast_unsigned kind dest_typ value width =
     (case dest_typ of
        Primitive (UnsignedIntegerT w) \<Rightarrow>
          (case kind of
             TruncateK \<Rightarrow> Inr (UnsignedIntegerV (value AND mask_u64 w) w)
           | ZeroExtendK \<Rightarrow> Inr (UnsignedIntegerV value w)
           | ReinterpretK \<Rightarrow> if w = width then Inr (UnsignedIntegerV value width) else Inl Todo
           | _ \<Rightarrow> Inl Todo)
      | Primitive (SignedIntegerT w) \<Rightarrow>
          (case kind of
             ReinterpretK \<Rightarrow>
               rbind (i64_try_from_u64 (value AND mask_u64 w)) (\<lambda>v. Inr (SignedIntegerV v w))
           | ZeroExtendK \<Rightarrow> rbind (i64_try_from_u64 value) (\<lambda>v. Inr (SignedIntegerV v w))
           | _ \<Rightarrow> Inl Todo)
      | BitsT \<Rightarrow>
          (case kind of
             ZeroExtendK \<Rightarrow> Inr (UnsignedIntegerV value width)
           | ConvertK \<Rightarrow> Inr (UnsignedIntegerV value width)
           | _ \<Rightarrow> Inl Todo)
      | _ \<Rightarrow> Inl Todo)"

definition cast_signed :: "rust_env \<Rightarrow> cast_operation_kind \<Rightarrow> rtype \<Rightarrow> rtype \<Rightarrow> i64 \<Rightarrow> rvalue res" where
  "cast_signed E kind source_typ dest_typ value =
     (case dest_typ of
        Primitive (SignedIntegerT w) \<Rightarrow>
          (case kind of
             SignExtendK \<Rightarrow>
               rbind (width_bits E source_typ) (\<lambda>sw. rbind (sign_extend E value sw w) (\<lambda>v.
               Inr (SignedIntegerV v w)))
           | TruncateK \<Rightarrow> Inr (SignedIntegerV (value AND mask_u64 w) w)
           | ReinterpretK \<Rightarrow>
               rbind (i64_try_from_u64 (value AND mask_u64 w)) (\<lambda>v. Inr (SignedIntegerV v w))
           | _ \<Rightarrow> Inl Todo)
      | Primitive (UnsignedIntegerT w) \<Rightarrow>
          (case kind of
             ZeroExtendK \<Rightarrow> rbind (u64_try_from_i64 value) (\<lambda>v. Inr (UnsignedIntegerV v w))
           | TruncateK \<Rightarrow>
               rbind (u64_try_from_i64 value) (\<lambda>v. Inr (UnsignedIntegerV (v AND mask_u64 w) w))
           | ReinterpretK \<Rightarrow> Inr (UnsignedIntegerV (value AND mask_u64 w) w)
           | _ \<Rightarrow> Inl Todo)
      | _ \<Rightarrow> Inl Todo)"

fun eval_cast :: "rust_env \<Rightarrow> cast_operation_kind \<Rightarrow> rtype \<Rightarrow> rtype \<Rightarrow> rvalue \<Rightarrow> rvalue res" where
  "eval_cast E kind source_typ dest_typ (UnsignedIntegerV value width) =
     cast_unsigned kind dest_typ value width"
| "eval_cast E kind source_typ dest_typ (SignedIntegerV value _) =
     cast_signed E kind source_typ dest_typ value"
| "eval_cast E kind source_typ dest_typ _ = Inl Todo"

fun eval_bits_cast :: "cast_operation_kind \<Rightarrow> rtype \<Rightarrow> rvalue \<Rightarrow> nat \<Rightarrow> rvalue res" where
  "eval_bits_cast ZeroExtendK BitsT (UnsignedIntegerV value width) target_width =
     (if target_width > width
      then Inr (UnsignedIntegerV (value AND mask_u64 target_width) target_width)
      else Inl ExplicitPanic)"
| "eval_bits_cast SignExtendK BitsT (UnsignedIntegerV value width) target_width =
     (if target_width > width
      then Inr (UnsignedIntegerV (value AND mask_u64 target_width) target_width)
      else Inl ExplicitPanic)"
| "eval_bits_cast _ _ _ _ = Inl Todo"

fun eval_bit_extract :: "rust_env \<Rightarrow> rvalue \<Rightarrow> u64 \<Rightarrow> u64 \<Rightarrow> rvalue res" where
  "eval_bit_extract E (UnsignedIntegerV value _) start width =
     rbind (bit_extract E value start width) (\<lambda>v. rbind (u32_try_from_u64 width) (\<lambda>w.
     Inr (UnsignedIntegerV v w)))"
| "eval_bit_extract E (SignedIntegerV value _) start width =
     rbind (bit_extract E value start width) (\<lambda>v. rbind (u32_try_from_u64 width) (\<lambda>w.
     Inr (SignedIntegerV v w)))"
| "eval_bit_extract E _ start width = Inl Todo"

section \<open>Statements\<close>

text \<open>
  What a statement needs from outside its block: the build profile, the offset of \<open>_PC\<close> in the
  model, and the interpretation of a call.
\<close>

record exec_ctx =
  ctx_env :: rust_env
  ctx_pc :: "u64 res"
  ctx_call :: "string \<Rightarrow> rvalue list \<Rightarrow> register_file \<Rightarrow> (rvalue option \<times> register_file) res"

datatype outcome = Produced "rvalue option" | Finished block_result

text \<open>The arms that only compute a value; the last ones are \<open>todo!()\<close> in the code.\<close>

definition eval_read :: "rust_env \<Rightarrow> interpreter \<Rightarrow> statement \<Rightarrow> rvalue res" where
  "eval_read E st s =
     (case s of
        Constant c \<Rightarrow> Inr (from_constant c)
      | ReadVariable symbol \<Rightarrow>
          (case locals st (sym_name symbol) of None \<Rightarrow> Inl ExplicitPanic | Some v \<Rightarrow> Inr v)
      | ReadRegister t offset \<Rightarrow>
          rbind (resolve_u64 st offset) (\<lambda>off. read_register E (regs st) t (unat off))
      | GetFlags _ \<Rightarrow> Inr (UnsignedIntegerV (word_of_nat (flags st)) 4)
      | _ \<Rightarrow> Inl Todo)"

definition eval_arith :: "rust_env \<Rightarrow> statement arena \<Rightarrow> interpreter \<Rightarrow> statement \<Rightarrow> rvalue res" where
  "eval_arith E sa st s =
     (case s of
        UnaryOperation kind value \<Rightarrow> rbind (resolve st value) (eval_unary E kind)
      | BinaryOperation kind lhs rhs \<Rightarrow>
          rbind (resolve st lhs) (\<lambda>l. rbind (resolve st rhs) (eval_binary E kind l))
      | ShiftOperation kind value amount \<Rightarrow>
          rbind (resolve_u64 st amount) (\<lambda>n. rbind (resolve st value) (\<lambda>v. eval_shift E kind v n))
      | Cast kind dest_typ value \<Rightarrow>
          rbind (arena_get sa value) (\<lambda>src. rbind (statement_typ sa src) (\<lambda>t. rbind (unwrap t) (\<lambda>source_typ.
          rbind (resolve st value) (eval_cast E kind source_typ dest_typ))))
      | BitsCast kind t value width \<Rightarrow>
          rbind (resolve st value) (\<lambda>v. rbind (resolve_u64 st width) (\<lambda>w.
          rbind (u32_try_from_u64 w) (eval_bits_cast kind t v)))
      | Select condition true_value false_value \<Rightarrow>
          rbind (resolve_u64 st condition) (\<lambda>c.
          resolve st (if c \<noteq> 0 then true_value else false_value))
      | _ \<Rightarrow> Inl Todo)"

definition eval_bits :: "rust_env \<Rightarrow> interpreter \<Rightarrow> statement \<Rightarrow> rvalue res" where
  "eval_bits E st s =
     (case s of
        BitExtract value start width \<Rightarrow>
          rbind (resolve st value) (\<lambda>v. rbind (resolve_u64 st start) (\<lambda>i. rbind (resolve_u64 st width) (\<lambda>w.
          eval_bit_extract E v i w)))
      | BitInsert target source start width \<Rightarrow>
          rbind (resolve st target) (\<lambda>t. case t of
            UnsignedIntegerV target target_width \<Rightarrow>
              rbind (resolve_u64 st source) (\<lambda>x. rbind (resolve_u64 st start) (\<lambda>i.
              rbind (resolve_u64 st width) (\<lambda>w. rbind (bit_insert target x i w) (\<lambda>v.
              Inr (UnsignedIntegerV v target_width)))))
          | _ \<Rightarrow> Inl ExplicitPanic)
      | AssignElement vector value index \<Rightarrow>
          rbind (resolve st vector) (\<lambda>vec. rbind (resolve st value) (\<lambda>v. rbind (resolve_u64 st index) (\<lambda>i.
          case vec of
            VectorV vs \<Rightarrow> if unat i < length vs then Inr (VectorV (vs[unat i := v])) else Inl IndexOutOfBounds
          | _ \<Rightarrow> Inl ExplicitPanic)))
      | CreateBits value width \<Rightarrow>
          rbind (resolve_u64 st value) (\<lambda>v. rbind (resolve_u64 st width) (\<lambda>w.
          rbind (u32_try_from_u64 w) (\<lambda>w. Inr (UnsignedIntegerV v w))))
      | SizeOf value \<Rightarrow>
          rbind (resolve st value) (\<lambda>v. case v of
            UnsignedIntegerV _ width \<Rightarrow> Inr (UnsignedIntegerV (word_of_nat width) 16)
          | _ \<Rightarrow> Inl Todo)
      | CreateTuple vec \<Rightarrow> rbind (mapR (resolve st) vec) (\<lambda>vs. Inr (TupleV vs))
      | TupleAccess index source \<Rightarrow>
          rbind (resolve st source) (\<lambda>v. case v of
            TupleV vs \<Rightarrow> if index < length vs then Inr (vs ! index) else Inl IndexOutOfBounds
          | _ \<Rightarrow> Inl ExplicitPanic)
      | _ \<Rightarrow> Inl Todo)"

definition is_bits_statement :: "statement \<Rightarrow> bool" where
  "is_bits_statement s =
     (case s of BitExtract _ _ _ \<Rightarrow> True | BitInsert _ _ _ _ \<Rightarrow> True | AssignElement _ _ _ \<Rightarrow> True
      | CreateBits _ _ \<Rightarrow> True | SizeOf _ \<Rightarrow> True | CreateTuple _ \<Rightarrow> True | TupleAccess _ _ \<Rightarrow> True
      | _ \<Rightarrow> False)"

definition is_read_statement :: "statement \<Rightarrow> bool" where
  "is_read_statement s =
     (case s of Constant _ \<Rightarrow> True | ReadVariable _ \<Rightarrow> True | ReadRegister _ _ \<Rightarrow> True | GetFlags _ \<Rightarrow> True
      | _ \<Rightarrow> False)"

definition eval_value :: "rust_env \<Rightarrow> statement arena \<Rightarrow> interpreter \<Rightarrow> statement \<Rightarrow> rvalue res" where
  "eval_value E sa st s =
     (if is_read_statement s then eval_read E st s
      else if is_bits_statement s then eval_bits E st s
      else eval_arith E sa st s)"

text \<open>The whole match: the arms that change state or end the block, then the values.\<close>

definition exec_statement ::
  "exec_ctx \<Rightarrow> statement arena \<Rightarrow> interpreter \<Rightarrow> statement \<Rightarrow> (interpreter \<times> outcome) res" where
  "exec_statement C sa st s =
     (let E = ctx_env C in
      case s of
        TernaryOperation AddWithCarryK a b c \<Rightarrow>
          rbind (resolve st a) (\<lambda>va. rbind (expect_unsigned 64 va) (\<lambda>a.
          rbind (resolve st b) (\<lambda>vb. rbind (expect_unsigned 64 vb) (\<lambda>b.
          rbind (resolve st c) (\<lambda>vc. rbind (expect_unsigned 1 vc) (\<lambda>c.
          let (r, f) = add_with_carry a b c in
          Inr (st\<lparr>flags := f\<rparr>, Produced (Some (UnsignedIntegerV r 64)))))))))
      | Call target args _ \<Rightarrow>
          rbind (mapR (resolve st) args) (\<lambda>vs. rbind (ctx_call C target vs (regs st)) (\<lambda>(v, rf).
          Inr (st\<lparr>regs := rf\<rparr>, Produced v)))
      | WriteVariable symbol value \<Rightarrow>
          rbind (resolve st value) (\<lambda>v.
          Inr (st\<lparr>locals := (locals st)(sym_name symbol \<mapsto> v)\<rparr>, Produced None))
      | WriteRegister offset value \<Rightarrow>
          rbind (resolve_u64 st offset) (\<lambda>off. rbind (resolve st value) (\<lambda>v.
          rbind (write_register E (regs st) v (unat off)) (\<lambda>rf. Inr (st\<lparr>regs := rf\<rparr>, Produced None))))
      | WritePc value \<Rightarrow>
          rbind (ctx_pc C) (\<lambda>off. rbind (resolve_u64 st value) (\<lambda>v.
          rbind (write_raw E (regs st) (unat off) (le_bytes 8 (unat v))) (\<lambda>rf.
          Inr (st\<lparr>regs := rf\<rparr>, Produced None))))
      | Jump target \<Rightarrow> Inr (st, Finished (NextBlock target))
      | Branch condition true_target false_target \<Rightarrow>
          rbind (resolve_u64 st condition) (\<lambda>c.
          Inr (st, Finished (NextBlock (if c \<noteq> 0 then true_target else false_target))))
      | Return value \<Rightarrow>
          (case value of
             None \<Rightarrow> Inr (st, Finished (ReturnValue None))
           | Some r \<Rightarrow> rbind (resolve st r) (\<lambda>v. Inr (st, Finished (ReturnValue (Some v)))))
      | Panic r \<Rightarrow> rbind (resolve st r) (\<lambda>_. Inl ExplicitPanic)
      | Assert condition \<Rightarrow>
          rbind (resolve_u64 st condition) (\<lambda>c.
          if c = 0 then Inl ExplicitPanic else Inr (st, Produced None))
      | _ \<Rightarrow> rbind (eval_value E sa st s) (\<lambda>v. Inr (st, Produced (Some v))))"

section \<open>Blocks and functions\<close>

definition bind_value :: "interpreter \<Rightarrow> stmt_id \<Rightarrow> rvalue option \<Rightarrow> interpreter" where
  "bind_value st r v =
     (case v of None \<Rightarrow> st | Some v \<Rightarrow> st\<lparr>statement_values := (statement_values st)(r \<mapsto> v)\<rparr>)"

fun exec_statements ::
  "exec_ctx \<Rightarrow> statement arena \<Rightarrow> stmt_id list \<Rightarrow> interpreter \<Rightarrow> (interpreter \<times> block_result) res" where
  "exec_statements C sa [] st = Inl Unreachable"
| "exec_statements C sa (r # rs) st =
     rbind (arena_get sa r) (\<lambda>s. rbind (exec_statement C sa st s) (\<lambda>(st, out).
     case out of
       Finished result \<Rightarrow> Inr (st, result)
     | Produced v \<Rightarrow> exec_statements C sa rs (bind_value st r v)))"

definition exec_block :: "exec_ctx \<Rightarrow> block \<Rightarrow> interpreter \<Rightarrow> (interpreter \<times> block_result) res" where
  "exec_block C b st =
     exec_statements C (statement_arena b) (statements b) (st\<lparr>statement_values := Map.empty\<rparr>)"

definition interpreter_new :: "register_file \<Rightarrow> (string \<rightharpoonup> rvalue) \<Rightarrow> interpreter" where
  "interpreter_new rf ls = \<lparr>locals = ls, statement_values = Map.empty, regs = rf, flags = 0\<rparr>"

text \<open>\<open>locals.extend(parameters.zip(arguments))\<close>: a later parameter of the same name wins.\<close>

definition bind_arguments :: "symbol list \<Rightarrow> rvalue list \<Rightarrow> string \<rightharpoonup> rvalue" where
  "bind_arguments params args = Map.empty(map sym_name params [\<mapsto>] args)"

fun interpret_fn ::
  "nat \<Rightarrow> rust_env \<Rightarrow> model \<Rightarrow> string \<Rightarrow> rvalue list \<Rightarrow> register_file \<Rightarrow> (rvalue option \<times> register_file) res"
  and run_blocks ::
  "nat \<Rightarrow> rust_env \<Rightarrow> model \<Rightarrow> string \<Rightarrow> block_id \<Rightarrow> interpreter \<Rightarrow> (rvalue option \<times> register_file) res" where
  "interpret_fn 0 E m function_name arguments rf = Inl OutOfFuel"
| "interpret_fn (Suc n) E m function_name arguments rf =
     rbind (unwrap (map_of (fns m) function_name)) (\<lambda>function.
     run_blocks n E m function_name (entry_block function)
       (interpreter_new rf (bind_arguments (parameters function) arguments)))"
| "run_blocks 0 E m function_name block_ref st = Inl OutOfFuel"
| "run_blocks (Suc n) E m function_name block_ref st =
     rbind (unwrap (map_of (fns m) function_name)) (\<lambda>function.
     rbind (arena_get (block_arena function) block_ref) (\<lambda>b.
     rbind (exec_block \<lparr>ctx_env = E, ctx_pc = reg_offset m ''_PC'',
                        ctx_call = (\<lambda>target args rf. interpret_fn n E m target args rf)\<rparr> b st) (\<lambda>(st, result).
     case result of
       NextBlock next \<Rightarrow> run_blocks n E m function_name next st
     | ReturnValue value \<Rightarrow> Inr (value, regs st))))"

text \<open>\<open>RegisterFile::init\<close>: the two initialisation functions of the model, and the fixed values.\<close>

definition register_file_init :: "nat \<Rightarrow> rust_env \<Rightarrow> model \<Rightarrow> register_file res" where
  "register_file_init fuel E m =
     rbind (register_file_new E m) (\<lambda>rf.
     rbind (interpret_fn fuel E m ''borealis_register_init'' [] rf) (\<lambda>(_, rf).
     rbind (configure_features E rf) (\<lambda>rf.
     rbind (interpret_fn fuel E m ''__InitSystem'' [] rf) (\<lambda>(_, rf).
     rf_write E rf ''ID_AA64MMFR1_EL1_bits'' (le_bytes 8 0x1111112110312120)))))"

end
