(* ===== verification/Refinement.thy ===== *)
theory Refinement
  imports Interpreter
begin

text \<open>
  What it means for one model to refine another, and how to prove it.  \<open>res_le S\<close> orders results:
  the left one stopped with an error of \<open>S\<close>, or both are the same.  With \<open>S = {OutOfFuel}\<close> it
  says that more fuel never changes an answer; with \<open>S = UNIV\<close> it says that a run which returns
  is reproduced exactly, which is what the optimiser has to guarantee.
\<close>

declare interpret_fn.simps [simp del] run_blocks.simps [simp del]

section \<open>Ordering results\<close>

definition res_le :: "error set \<Rightarrow> 'a res \<Rightarrow> 'a res \<Rightarrow> bool" where
  "res_le S x y \<longleftrightarrow> (\<exists>e\<in>S. x = Inl e) \<or> y = x"

lemma res_le_refl [simp, intro]: "res_le S x x"
  by (simp add: res_le_def)

lemma res_le_trans [trans]: "res_le S x y \<Longrightarrow> res_le S y z \<Longrightarrow> res_le S x z"
  by (auto simp: res_le_def)

lemma res_le_rbind:
  "res_le S m m' \<Longrightarrow> (\<And>x. m = Inr x \<Longrightarrow> res_le S (f x) (g x)) \<Longrightarrow> res_le S (rbind m f) (rbind m' g)"
  by (cases m) (auto simp: res_le_def)

lemma res_le_Inr: "res_le S x y \<Longrightarrow> x = Inr r \<Longrightarrow> y = Inr r"
  by (auto simp: res_le_def)

lemma res_le_UNIV: "res_le UNIV x y \<longleftrightarrow> (\<forall>r. x = Inr r \<longrightarrow> y = Inr r)"
  by (cases x) (auto simp: res_le_def)

lemma res_le_bad: "e \<in> S \<Longrightarrow> res_le S (Inl e) y"
  by (auto simp: res_le_def)

section \<open>The interpreter is monotone in its calls\<close>

definition ctx_le :: "error set \<Rightarrow> exec_ctx \<Rightarrow> exec_ctx \<Rightarrow> bool" where
  "ctx_le S C C' \<longleftrightarrow> ctx_env C' = ctx_env C \<and> ctx_pc C' = ctx_pc C
     \<and> (\<forall>t vs rf. res_le S (ctx_call C t vs rf) (ctx_call C' t vs rf))"

lemma exec_statement_mono:
  assumes "ctx_le S C C'"
  shows "res_le S (exec_statement C sa st s) (exec_statement C' sa st s)"
proof (cases "\<exists>t args rt. s = Call t args rt")
  case True
  then show ?thesis
    using assms by (auto simp: exec_statement_def Let_def ctx_le_def intro!: res_le_rbind)
next
  case False
  then have "exec_statement C' sa st s = exec_statement C sa st s"
    using assms by (cases s) (auto simp: exec_statement_def Let_def ctx_le_def)
  then show ?thesis by simp
qed

lemma exec_statements_mono:
  "ctx_le S C C' \<Longrightarrow> res_le S (exec_statements C sa rs st) (exec_statements C' sa rs st)"
proof (induction rs arbitrary: st)
  case (Cons r rs)
  show ?case
    using Cons by (auto intro!: res_le_rbind exec_statement_mono split: outcome.splits)
qed simp

lemma exec_block_mono: "ctx_le S C C' \<Longrightarrow> res_le S (exec_block C b st) (exec_block C' b st)"
  unfolding exec_block_def by (rule exec_statements_mono)

text \<open>One iteration of the loop, with the rest of the loop as a parameter.\<close>

definition step_block ::
  "exec_ctx \<Rightarrow> rfunction \<Rightarrow> (block_id \<Rightarrow> interpreter \<Rightarrow> (rvalue option \<times> register_file) res)
   \<Rightarrow> block_id \<Rightarrow> interpreter \<Rightarrow> (rvalue option \<times> register_file) res" where
  "step_block C f k b st =
     rbind (arena_get (block_arena f) b) (\<lambda>blk. rbind (exec_block C blk st) (\<lambda>(st, result).
     case result of NextBlock next \<Rightarrow> k next st | ReturnValue value \<Rightarrow> Inr (value, regs st)))"

definition ctx_of :: "nat \<Rightarrow> rust_env \<Rightarrow> model \<Rightarrow> exec_ctx" where
  "ctx_of n E m = \<lparr>ctx_env = E, ctx_pc = reg_offset m ''_PC'', ctx_call = interpret_fn n E m\<rparr>"

lemma run_blocks_0: "run_blocks 0 E m fname b st = Inl OutOfFuel"
  and interpret_fn_0: "interpret_fn 0 E m fname args rf = Inl OutOfFuel"
  by (simp_all add: interpret_fn.simps run_blocks.simps)

lemma run_blocks_Suc:
  "run_blocks (Suc n) E m fname b st =
     rbind (unwrap (map_of (fns m) fname)) (\<lambda>f. step_block (ctx_of n E m) f (run_blocks n E m fname) b st)"
  by (simp add: run_blocks.simps(2) [of n] step_block_def ctx_of_def)

lemma interpret_fn_Suc:
  "interpret_fn (Suc n) E m fname args rf =
     rbind (unwrap (map_of (fns m) fname)) (\<lambda>f.
       run_blocks n E m fname (entry_block f) (interpreter_new rf (bind_arguments (parameters f) args)))"
  by (simp add: interpret_fn.simps(2) [of n])

lemma step_block_mono:
  "ctx_le S C C' \<Longrightarrow> (\<And>b st. res_le S (k b st) (k' b st))
   \<Longrightarrow> res_le S (step_block C f k b st) (step_block C' f k' b st)"
  unfolding step_block_def
  by (auto intro!: res_le_rbind exec_block_mono split: block_result.splits)

lemma fuel_mono_Suc:
  "(\<forall>fname args rf. res_le {OutOfFuel} (interpret_fn n E m fname args rf)
                                        (interpret_fn (Suc n) E m fname args rf))
   \<and> (\<forall>fname b st. res_le {OutOfFuel} (run_blocks n E m fname b st) (run_blocks (Suc n) E m fname b st))"
proof (induction n)
  case 0
  show ?case by (simp add: res_le_bad run_blocks_0 interpret_fn_0)
next
  case (Suc n)
  then have ctx: "ctx_le {OutOfFuel} (ctx_of n E m) (ctx_of (Suc n) E m)"
    by (simp add: ctx_le_def ctx_of_def)
  have "res_le {OutOfFuel} (interpret_fn (Suc n) E m fname args rf)
          (interpret_fn (Suc (Suc n)) E m fname args rf)" for fname args rf
    unfolding interpret_fn_Suc [of n] interpret_fn_Suc [of "Suc n"]
    using Suc by (auto intro: res_le_rbind)
  moreover have "res_le {OutOfFuel} (run_blocks (Suc n) E m fname b st)
                   (run_blocks (Suc (Suc n)) E m fname b st)" for fname b st
    unfolding run_blocks_Suc [of "Suc n"] unfolding run_blocks_Suc [of n E m fname b]
    using Suc by (intro res_le_rbind step_block_mono [OF ctx]) auto
  ultimately show ?case by blast
qed

lemma fuel_mono:
  assumes "n \<le> n'"
  shows "res_le {OutOfFuel} (interpret_fn n E m fname args rf) (interpret_fn n' E m fname args rf)"
    and "res_le {OutOfFuel} (run_blocks n E m fname b st) (run_blocks n' E m fname b st)"
  using assms fuel_mono_Suc by (induction n' rule: dec_induct) (auto intro: res_le_trans)


section \<open>Refinement of models\<close>

definition model_refines :: "rust_env \<Rightarrow> model \<Rightarrow> model \<Rightarrow> bool" where
  "model_refines E m m' \<longleftrightarrow>
     (\<forall>n fname args rf r. interpret_fn n E m fname args rf = Inr r
        \<longrightarrow> interpret_fn n E m' fname args rf = Inr r)"

definition update_function :: "model \<Rightarrow> string \<Rightarrow> rfunction \<Rightarrow> model" where
  "update_function m name f = m\<lparr>fns := AList.update name f (fns m)\<rparr>"

lemma model_refines_refl [simp, intro]: "model_refines E m m"
  by (simp add: model_refines_def)

lemma model_refines_trans [trans]: "model_refines E m m' \<Longrightarrow> model_refines E m' m'' \<Longrightarrow> model_refines E m m''"
  by (simp add: model_refines_def)

lemma map_of_update_function [simp]:
  "map_of (fns (update_function m name f)) g = (if g = name then Some f else map_of (fns m) g)"
  by (simp add: update_function_def update_conv')

lemma reg_offset_update_function [simp]: "reg_offset (update_function m name f) = reg_offset m"
  by (simp add: update_function_def reg_offset_def fun_eq_iff)

lemma update_function_twice [simp]:
  "update_function (update_function m name f) name g = update_function m name g"
  by (simp add: update_function_def)

text \<open>A block that holds nothing but a jump.\<close>

definition single_jump :: "rfunction \<Rightarrow> block_id \<Rightarrow> block_id \<Rightarrow> bool" where
  "single_jump f t t' \<longleftrightarrow>
     (\<exists>blk r. arena_get (block_arena f) t = Inr blk \<and> statements blk = [r]
        \<and> arena_get (statement_arena blk) r = Inr (Jump t'))"

fun same_destination :: "rfunction \<Rightarrow> block_result \<Rightarrow> block_result \<Rightarrow> bool" where
  "same_destination f (NextBlock t) (NextBlock t') = (t' = t \<or> single_jump f t t')"
| "same_destination f (ReturnValue v) (ReturnValue v') = (v' = v)"
| "same_destination f _ _ = False"

lemma same_destination_refl [simp]: "same_destination f r r"
  by (cases r) auto

definition clear_values :: "interpreter \<Rightarrow> interpreter" where
  "clear_values st = st\<lparr>statement_values := Map.empty\<rparr>"

lemma exec_single_jump:
  "single_jump f t t' \<Longrightarrow> step_block C f k t st = k t' (clear_values st)"
  by (auto simp: single_jump_def step_block_def exec_block_def exec_statement_def Let_def clear_values_def)

text \<open>
  A function body \<open>f'\<close> that follows \<open>f\<close> block by block, up to a relation on interpreter states and
  up to skipping blocks that only jump.  \<open>good_ctx\<close> is what is known of the calls, \<open>live\<close> covers the
  blocks a run of \<open>f\<close> can be in.
\<close>

locale block_simulation =
  fixes good_ctx :: "exec_ctx \<Rightarrow> bool"
    and live :: "block_id \<Rightarrow> bool"
    and f f' :: rfunction
    and srel :: "interpreter \<Rightarrow> interpreter \<Rightarrow> bool"
  assumes parameters_eq: "parameters f' = parameters f"
    and entry_eq: "entry_block f' = entry_block f"
    and live_entry: "live (entry_block f)"
    and live_next: "live b \<Longrightarrow> arena_get (block_arena f) b = Inr blk
      \<Longrightarrow> exec_block C blk st = Inr (st1, NextBlock t) \<Longrightarrow> live t"
    and srel_new: "srel (interpreter_new rf ls) (interpreter_new rf ls)"
    and srel_clear: "srel st st' \<Longrightarrow> srel (clear_values st) st'"
    and block_step: "good_ctx C \<Longrightarrow> live b \<Longrightarrow> srel st st' \<Longrightarrow> regs st' = regs st
      \<Longrightarrow> arena_get (block_arena f) b = Inr blk \<Longrightarrow> exec_block C blk st = Inr (st1, res)
      \<Longrightarrow> \<exists>blk' st1' res'. arena_get (block_arena f') b = Inr blk' \<and> exec_block C blk' st' = Inr (st1', res')
           \<and> srel st1 st1' \<and> regs st1' = regs st1 \<and> same_destination f res res'"
begin

definition sim :: "interpreter \<Rightarrow> interpreter \<Rightarrow> bool" where
  "sim st st' \<longleftrightarrow> srel st st' \<and> regs st' = regs st"

lemma sim_clear: "sim st st' \<Longrightarrow> sim (clear_values st) st'"
  using srel_clear by (simp add: sim_def clear_values_def)

lemma sim_step:
  assumes "good_ctx C" and "sim st st'" and "step_block C f k b st = Inr r" and "live b"
  obtains st1 st1' t t' where "k t st1 = Inr r" "live t" "sim st1 st1'" "t' = t \<or> single_jump f t t'"
      "\<And>k'. step_block C f' k' b st' = k' t' st1'"
    | "\<And>k'. step_block C f' k' b st' = Inr r"
proof -
  from assms(3) obtain blk st1 res where run: "arena_get (block_arena f) b = Inr blk"
      "exec_block C blk st = Inr (st1, res)"
      "(case res of NextBlock t \<Rightarrow> k t st1 | ReturnValue v \<Rightarrow> Inr (v, regs st1)) = Inr r"
    by (auto simp: step_block_def rbind_eq_Inr)
  obtain blk' st1' res' where run': "arena_get (block_arena f') b = Inr blk'"
      "exec_block C blk' st' = Inr (st1', res')" "sim st1 st1'" "same_destination f res res'"
    using block_step [OF assms(1,4) _ _ run(1,2), of st'] assms(2) by (auto simp: sim_def)
  have step': "step_block C f' k' b st' = (case res' of NextBlock t \<Rightarrow> k' t st1' | ReturnValue v \<Rightarrow> Inr (v, regs st1'))" for k'
    using run' by (simp add: step_block_def)
  show thesis
  proof (cases "(f, res, res')" rule: same_destination.cases)
    case (1 _ t t')
    with live_next [OF assms(4) run(1), of C st st1 t] run(2) have "live t" by simp
    with 1 run(3) run' step' that(1) show thesis by auto
  next
    case (2 _ v v')
    with run(3) run' step' that(2) show thesis by (auto simp: sim_def)
  qed (use run'(4) in auto)
qed

definition keeps :: "nat \<Rightarrow> rust_env \<Rightarrow> model \<Rightarrow> string \<Rightarrow> bool" where
  "keeps n E m name \<longleftrightarrow>
     (\<forall>g args rf r. interpret_fn n E m g args rf = Inr r
        \<longrightarrow> interpret_fn n E (update_function m name f') g args rf = Inr r)
     \<and> (\<forall>g b st r. g \<noteq> name \<longrightarrow> run_blocks n E m g b st = Inr r
        \<longrightarrow> run_blocks n E (update_function m name f') g b st = Inr r)
     \<and> (\<forall>b st st' r. live b \<longrightarrow> sim st st' \<longrightarrow> run_blocks n E m name b st = Inr r
        \<longrightarrow> run_blocks n E (update_function m name f') name b st' = Inr r)"

lemma keeps_interpret: "keeps n E m name \<Longrightarrow> interpret_fn n E m g args rf = Inr r
    \<Longrightarrow> interpret_fn n E (update_function m name f') g args rf = Inr r"
  and keeps_run_other: "keeps n E m name \<Longrightarrow> g \<noteq> name \<Longrightarrow> run_blocks n E m g b st = Inr r
    \<Longrightarrow> run_blocks n E (update_function m name f') g b st = Inr r"
  and keeps_run_this: "keeps n E m name \<Longrightarrow> live b \<Longrightarrow> sim st st' \<Longrightarrow> run_blocks n E m name b st = Inr r
    \<Longrightarrow> run_blocks n E (update_function m name f') name b st' = Inr r"
  unfolding keeps_def by blast+

lemma keeps_ctx: "keeps k E m name \<Longrightarrow> ctx_le UNIV (ctx_of k E m) (ctx_of k E (update_function m name f'))"
  by (simp add: keeps_def ctx_le_def ctx_of_def res_le_UNIV)

lemma keeps_other:
  assumes k: "keeps k E m name" and g: "g \<noteq> name" and run: "run_blocks (Suc k) E m g b st = Inr r"
  shows "run_blocks (Suc k) E (update_function m name f') g b st = Inr r"
proof -
  let ?m' = "update_function m name f'"
  from run obtain fg where fg: "map_of (fns m) g = Some fg"
      "step_block (ctx_of k E m) fg (run_blocks k E m g) b st = Inr r"
    by (auto simp: run_blocks_Suc rbind_eq_Inr unwrap_eq_Inr)
  have "res_le UNIV (step_block (ctx_of k E m) fg (run_blocks k E m g) b st)
          (step_block (ctx_of k E ?m') fg (run_blocks k E ?m' g) b st)"
    using k g by (intro step_block_mono [OF keeps_ctx]) (auto simp: res_le_UNIV intro: keeps_run_other)
  with fg g show ?thesis by (auto simp: run_blocks_Suc dest: res_le_Inr)
qed

lemma keeps_skip:
  assumes m: "map_of (fns m) name = Some f" and "\<forall>j\<le>k. keeps j E m name"
    and run: "run_blocks k E m name t st = Inr r" and s: "sim st st'" and jump: "single_jump f t t'"
    and live: "live t"
  shows "run_blocks k E (update_function m name f') name t' st' = Inr r"
proof -
  obtain j where j: "k = Suc j" using run by (cases k) (auto simp: run_blocks_0)
  have "live t'" using live_next [OF live] jump
    by (auto simp: single_jump_def exec_block_def exec_statement_def Let_def)
  moreover have "run_blocks j E m name t' (clear_values st) = Inr r"
    using run m unfolding j run_blocks_Suc by (simp add: exec_single_jump [OF jump])
  ultimately have "run_blocks j E (update_function m name f') name t' st' = Inr r"
    using keeps_run_this [OF _ _ sim_clear [OF s]] assms(2) j by simp
  then show ?thesis
    using res_le_Inr [OF fuel_mono(2) [of j k]] j by simp
qed

lemma keeps_this:
  assumes m: "map_of (fns m) name = Some f" and good: "good_ctx (ctx_of k E m)"
    and ks: "\<forall>j\<le>k. keeps j E m name" and s: "sim st st'"
    and run: "run_blocks (Suc k) E m name b st = Inr r" and live: "live b"
  shows "run_blocks (Suc k) E (update_function m name f') name b st' = Inr r"
proof -
  let ?m' = "update_function m name f'"
  have step: "step_block (ctx_of k E m) f (run_blocks k E m name) b st = Inr r"
    using run m by (simp add: run_blocks_Suc)
  have "step_block (ctx_of k E m) f' (run_blocks k E ?m' name) b st' = Inr r"
  proof (rule sim_step [OF good s step live])
    fix st1 st1' t t'
    assume k: "run_blocks k E m name t st1 = Inr r" and live: "live t" and s: "sim st1 st1'"
      and t: "t' = t \<or> single_jump f t t'"
      and next': "\<And>k'. step_block (ctx_of k E m) f' k' b st' = k' t' st1'"
    have "run_blocks k E ?m' name t' st1' = Inr r"
      using t keeps_skip [OF m ks k s _ live] keeps_run_this [OF _ live s k] ks by auto
    then show ?thesis by (simp add: next')
  qed
  moreover have "res_le UNIV (step_block (ctx_of k E m) f' (run_blocks k E ?m' name) b st')
      (step_block (ctx_of k E ?m') f' (run_blocks k E ?m' name) b st')"
    using ks by (intro step_block_mono [OF keeps_ctx]) auto
  ultimately show ?thesis by (auto simp: run_blocks_Suc dest: res_le_Inr)
qed

lemma keeps_all:
  assumes "map_of (fns m) name = Some f" and "\<And>n. good_ctx (ctx_of n E m)"
  shows "keeps n E m name"
proof (induction n rule: less_induct)
  case (less n)
  show ?case
  proof (cases n)
    case 0
    then show ?thesis by (simp add: keeps_def run_blocks_0 interpret_fn_0)
  next
    case (Suc k)
    then have ks: "\<forall>j\<le>k. keeps j E m name" using less by simp
    have start: "sim (interpreter_new rf ls) (interpreter_new rf ls)" for rf ls
      by (simp add: sim_def srel_new)
    have "interpret_fn (Suc k) E (update_function m name f') g args rf = Inr r"
      if run: "interpret_fn (Suc k) E m g args rf = Inr r" for g args rf r
    proof -
      note now = ks [rule_format, OF order_refl]
      obtain fg where "map_of (fns m) g = Some fg" "run_blocks k E m g (entry_block fg)
          (interpreter_new rf (bind_arguments (parameters fg) args)) = Inr r"
        using run by (auto simp: interpret_fn_Suc rbind_eq_Inr unwrap_eq_Inr)
      then show ?thesis
        using keeps_run_other [OF now, of g] keeps_run_this [OF now live_entry start] assms(1)
        by (cases "g = name") (simp_all add: interpret_fn_Suc entry_eq parameters_eq)
    qed
    then show ?thesis
      using keeps_other [OF ks [rule_format, OF order_refl]] keeps_this [OF assms(1,2) ks] Suc
      unfolding keeps_def by blast
  qed
qed

theorem simulates:
  assumes "map_of (fns m) name = Some f" and "\<And>n. good_ctx (ctx_of n E m)"
  shows "model_refines E m (update_function m name f')"
  unfolding model_refines_def using keeps_interpret [OF keeps_all [OF assms]] by blast

end

end
