(* ===== verification/Analysis.thy ===== *)
theory Analysis
  imports Rudder_Block
begin

text \<open>
  The analyses the optimiser consults, \<open>borealis/borealis/src/rudder/analysis\<close>: symbol and
  statement uses (\<open>dfa.rs\<close>), function purity (\<open>pure.rs\<close>), loops (\<open>loopy.rs\<close>) and the control
  flow and call graphs (\<open>cfg.rs\<close>).  Hash maps whose values are vectors or sets are association
  lists to lists; a hash set is a list without repetitions.
\<close>

text \<open>\<open>entry(k).and_modify(|u| u.push(v)).or_insert(vec![v])\<close>, and the same for a set.\<close>

definition push_entry :: "'k \<Rightarrow> 'v \<Rightarrow> ('k \<times> 'v list) list \<Rightarrow> ('k \<times> 'v list) list" where
  "push_entry k v m = AList.update k (case map_of m k of None \<Rightarrow> [v] | Some u \<Rightarrow> u @ [v]) m"

definition insert_entry :: "'k \<Rightarrow> 'v \<Rightarrow> ('k \<times> 'v list) list \<Rightarrow> ('k \<times> 'v list) list" where
  "insert_entry k v m = AList.update k (case map_of m k of None \<Rightarrow> [v] | Some u \<Rightarrow> List.insert v u) m"

section \<open>Symbol uses\<close>

record symbol_use_analysis =
  symbol_uses :: "(string \<times> (stmt_id \<times> block_id) list) list"
  symbol_reads :: "(string \<times> (stmt_id \<times> block_id) list) list"
  symbol_writes :: "(string \<times> (stmt_id \<times> block_id) list) list"
  symbol_blocks :: "(string \<times> block_id list) list"

fun accessed_symbol :: "statement \<Rightarrow> symbol option" where
  "accessed_symbol (ReadVariable symbol) = Some symbol"
| "accessed_symbol (WriteVariable symbol _) = Some symbol"
| "accessed_symbol _ = None"

fun is_read_variable :: "statement \<Rightarrow> bool" where
  "is_read_variable (ReadVariable _) = True"
| "is_read_variable _ = False"

fun is_write_variable :: "statement \<Rightarrow> bool" where
  "is_write_variable (WriteVariable _ _) = True"
| "is_write_variable _ = False"

definition insert_use ::
  "symbol \<Rightarrow> stmt_id \<Rightarrow> block_id \<Rightarrow> statement \<Rightarrow> symbol_use_analysis \<Rightarrow> symbol_use_analysis" where
  "insert_use symbol stmt b s a =
     (let name = sym_name symbol;
          a = a\<lparr>symbol_uses := push_entry name (stmt, b) (symbol_uses a)\<rparr>;
          a = (if is_read_variable s
               then a\<lparr>symbol_reads := push_entry name (stmt, b) (symbol_reads a)\<rparr> else a);
          a = (if is_write_variable s
               then a\<lparr>symbol_writes := push_entry name (stmt, b) (symbol_writes a)\<rparr> else a)
      in a\<lparr>symbol_blocks := insert_entry name b (symbol_blocks a)\<rparr>)"

definition symbol_analyse_block ::
  "rfunction \<Rightarrow> block_id \<Rightarrow> symbol_use_analysis \<Rightarrow> symbol_use_analysis res" where
  "symbol_analyse_block f b a =
     rbind (arena_get (block_arena f) b) (\<lambda>blk.
     foldR (\<lambda>stmt a. rbind (arena_get (statement_arena blk) stmt) (\<lambda>s.
              Inr (case accessed_symbol s of None \<Rightarrow> a | Some symbol \<Rightarrow> insert_use symbol stmt b s a)))
       (statements blk) a)"

definition symbol_use_analysis_new :: "rfunction \<Rightarrow> symbol_use_analysis res" where
  "symbol_use_analysis_new f =
     rbind (function_blocks f) (\<lambda>bs.
     foldR (symbol_analyse_block f) bs
       \<lparr>symbol_uses = [], symbol_reads = [], symbol_writes = [], symbol_blocks = []\<rparr>)"

definition is_symbol_dead :: "symbol_use_analysis \<Rightarrow> symbol \<Rightarrow> bool" where
  "is_symbol_dead a symbol \<longleftrightarrow> map_of (symbol_blocks a) (sym_name symbol) = None"

definition symbol_has_reads :: "symbol_use_analysis \<Rightarrow> symbol \<Rightarrow> bool" where
  "symbol_has_reads a symbol \<longleftrightarrow> map_of (symbol_reads a) (sym_name symbol) \<noteq> None"

definition symbol_has_writes :: "symbol_use_analysis \<Rightarrow> symbol \<Rightarrow> bool" where
  "symbol_has_writes a symbol \<longleftrightarrow> map_of (symbol_writes a) (sym_name symbol) \<noteq> None"

definition get_symbol_writes :: "symbol_use_analysis \<Rightarrow> symbol \<Rightarrow> (stmt_id \<times> block_id) list res" where
  "get_symbol_writes a symbol = unwrap (map_of (symbol_writes a) (sym_name symbol))"

definition get_symbol_reads :: "symbol_use_analysis \<Rightarrow> symbol \<Rightarrow> (stmt_id \<times> block_id) list res" where
  "get_symbol_reads a symbol = unwrap (map_of (symbol_reads a) (sym_name symbol))"

definition is_symbol_local :: "symbol_use_analysis \<Rightarrow> symbol \<Rightarrow> bool res" where
  "is_symbol_local a symbol =
     rbind (unwrap (map_of (symbol_blocks a) (sym_name symbol))) (\<lambda>bs. Inr (length bs = 1))"

section \<open>Statement uses\<close>

text \<open>The operands \<open>analyse\<close> records for a statement; the members of a phi node are left out.\<close>

fun analysed_operands :: "statement \<Rightarrow> stmt_id list" where
  "analysed_operands (WriteVariable _ value) = [value]"
| "analysed_operands (WriteRegister offset value) = [offset, value]"
| "analysed_operands (ReadRegister _ offset) = [offset]"
| "analysed_operands (ReadMemory offset sz) = [offset, sz]"
| "analysed_operands (WriteMemory offset value) = [offset, value]"
| "analysed_operands (WritePc value) = [value]"
| "analysed_operands (BinaryOperation _ lhs rhs) = [lhs, rhs]"
| "analysed_operands (UnaryOperation _ value) = [value]"
| "analysed_operands (ShiftOperation _ value amount) = [value, amount]"
| "analysed_operands (Call _ args _) = args"
| "analysed_operands (Cast _ _ value) = [value]"
| "analysed_operands (BitsCast _ _ value len) = [value, len]"
| "analysed_operands (Branch condition _ _) = [condition]"
| "analysed_operands (Return value) = (case value of None \<Rightarrow> [] | Some v \<Rightarrow> [v])"
| "analysed_operands (Select condition true_value false_value) = [condition, true_value, false_value]"
| "analysed_operands (BitExtract value start len) = [value, start, len]"
| "analysed_operands (BitInsert target source start len) = [target, source, start, len]"
| "analysed_operands (BitReplicate pattern count) = [pattern, count]"
| "analysed_operands (ReadElement vector index) = [vector, index]"
| "analysed_operands (AssignElement vector value index) = [vector, value, index]"
| "analysed_operands (Assert condition) = [condition]"
| "analysed_operands (Panic value) = [value]"
| "analysed_operands (CreateBits value len) = [value, len]"
| "analysed_operands (SizeOf value) = [value]"
| "analysed_operands (MatchesUnion value _) = [value]"
| "analysed_operands (UnwrapUnion value _) = [value]"
| "analysed_operands (GetFlags operation) = [operation]"
| "analysed_operands (ReadVariable _) = []"
| "analysed_operands ReadPc = []"
| "analysed_operands (Jump _) = []"
| "analysed_operands (PhiNode _) = []"
| "analysed_operands (Constant _) = []"
| "analysed_operands (TupleAccess _ source) = [source]"
| "analysed_operands (CreateTuple values) = values"
| "analysed_operands (CreateReal numerator denominator) = [numerator, denominator]"
| "analysed_operands (TernaryOperation _ a b c) = [a, b, c]"
| "analysed_operands (AtomicOperation address compare_operand operand operation_kind) =
     [address, compare_operand, operand, operation_kind]"

type_synonym stmt_use_map = "(stmt_id \<times> stmt_id list) list"

definition add_use :: "stmt_id \<Rightarrow> stmt_id \<Rightarrow> stmt_use_map \<Rightarrow> stmt_use_map" where
  "add_use stmt user m = insert_entry stmt user m"

definition statement_use_analysis :: "block \<Rightarrow> stmt_use_map res" where
  "statement_use_analysis b =
     foldR (\<lambda>stmt m. rbind (arena_get (statement_arena b) stmt) (\<lambda>s.
              Inr (fold (\<lambda>r. add_use r stmt) (analysed_operands s) m)))
       (statements b) []"

fun has_side_effects :: "(string \<Rightarrow> bool res) \<Rightarrow> statement \<Rightarrow> bool res" where
  "has_side_effects is_pure (Call target _ _) = rbind (is_pure target) (\<lambda>p. Inr (\<not> p))"
| "has_side_effects is_pure (WriteVariable _ _) = Inr True"
| "has_side_effects is_pure (WriteRegister _ _) = Inr True"
| "has_side_effects is_pure (WriteMemory _ _) = Inr True"
| "has_side_effects is_pure (WritePc _) = Inr True"
| "has_side_effects is_pure (ReadMemory _ _) = Inr True"
| "has_side_effects is_pure (Jump _) = Inr True"
| "has_side_effects is_pure (Branch _ _ _) = Inr True"
| "has_side_effects is_pure (Return _) = Inr True"
| "has_side_effects is_pure (Panic _) = Inr True"
| "has_side_effects is_pure (Assert _) = Inr True"
| "has_side_effects is_pure _ = Inr False"

definition has_uses :: "stmt_use_map \<Rightarrow> stmt_id \<Rightarrow> bool" where
  "has_uses m stmt \<longleftrightarrow> map_of m stmt \<noteq> None"

definition get_uses :: "stmt_use_map \<Rightarrow> stmt_id \<Rightarrow> stmt_id list option" where
  "get_uses m stmt = map_of m stmt"

definition is_dead :: "(string \<Rightarrow> bool res) \<Rightarrow> block \<Rightarrow> stmt_use_map \<Rightarrow> stmt_id \<Rightarrow> bool res" where
  "is_dead is_pure b m stmt =
     rbind (arena_get (statement_arena b) stmt) (\<lambda>s.
     rbind (has_side_effects is_pure s) (\<lambda>effects. Inr (\<not> effects \<and> \<not> has_uses m stmt)))"

definition is_used_in_write_var :: "block \<Rightarrow> stmt_use_map \<Rightarrow> stmt_id \<Rightarrow> bool res" where
  "is_used_in_write_var b m stmt =
     (case map_of m stmt of
        None \<Rightarrow> Inr False
      | Some uses \<Rightarrow> rbind (mapR (arena_get (statement_arena b)) uses) (\<lambda>ss. Inr (\<exists>s\<in>set ss. is_write_variable s)))"

section \<open>Purity\<close>

definition TREAT_PANICS_AS_PURE_DANGEROUS_UNSAFE :: bool where
  "TREAT_PANICS_AS_PURE_DANGEROUS_UNSAFE = True"

definition INTRINSICS :: "string list" where
  "INTRINSICS = [''sail_tlbi'', ''AArch64_IC__1'']"

type_synonym purity = "(string \<times> bool) list"

text \<open>
  The closure passed to \<open>all\<close>: it stops at the first impure statement.  The recursion goes
  through functions that are not on the stack \<open>seen\<close>, so it is at most as deep as the model has
  functions.
\<close>

fun all_pure :: "(string \<Rightarrow> purity \<Rightarrow> (bool \<times> purity) res) \<Rightarrow> string list \<Rightarrow> statement list \<Rightarrow> purity \<Rightarrow> (bool \<times> purity) res"
  where
  "all_pure rec seen [] p = Inr (True, p)"
| "all_pure rec seen (s # ss) p =
     rbind (case s of
              Call target _ _ \<Rightarrow> if target \<in> set seen then Inr (False, p) else rec target p
            | WriteMemory _ _ \<Rightarrow> Inr (False, p)
            | WritePc _ \<Rightarrow> Inr (False, p)
            | WriteRegister _ _ \<Rightarrow> Inr (False, p)
            | ReadMemory _ _ \<Rightarrow> Inr (False, p)
            | Panic _ \<Rightarrow> Inr (TREAT_PANICS_AS_PURE_DANGEROUS_UNSAFE, p)
            | Assert _ \<Rightarrow> Inr (TREAT_PANICS_AS_PURE_DANGEROUS_UNSAFE, p)
            | _ \<Rightarrow> Inr (True, p))
       (\<lambda>(ok, p). if ok then all_pure rec seen ss p else Inr (False, p))"

text \<open>The statements of a function in the order of the block iterator.\<close>

definition function_statements :: "rfunction \<Rightarrow> statement list res" where
  "function_statements f =
     rbind (function_blocks f) (\<lambda>bs.
     rbind (mapR (\<lambda>b. rbind (arena_get (block_arena f) b) live_statements) bs) (\<lambda>sss. Inr (concat sss)))"

fun determine_purity :: "nat \<Rightarrow> model \<Rightarrow> string list \<Rightarrow> string \<Rightarrow> purity \<Rightarrow> (bool \<times> purity) res" where
  "determine_purity 0 m seen name p = Inl StackOverflow"
| "determine_purity (Suc n) m seen name p =
     (case map_of p name of
        Some is_pure \<Rightarrow> Inr (is_pure, p)
      | None \<Rightarrow>
          rbind (unwrap (map_of (fns m) name)) (\<lambda>function.
          rbind (function_statements function) (\<lambda>ss.
          rbind (all_pure (determine_purity n m (name # seen)) (name # seen) ss p) (\<lambda>(is_pure, p).
          Inr (is_pure, AList.update name is_pure p)))))"

definition purity_analysis :: "model \<Rightarrow> purity res" where
  "purity_analysis m =
     foldR (\<lambda>name p. rbind (determine_purity (length (fns m) + 1) m [] name p) (\<lambda>(_, p). Inr p))
       (map fst (fns m)) (map (\<lambda>s. (s, False)) INTRINSICS)"

definition is_pure :: "purity \<Rightarrow> string \<Rightarrow> bool res" where
  "is_pure p function = unwrap (map_of p function)"

section \<open>Loops\<close>

function loop_search :: "block arena \<Rightarrow> block_id list \<Rightarrow> block_id list \<Rightarrow> bool res" where
  "loop_search a seen [] = Inr False"
| "loop_search a seen (current # work) =
     (if current \<in> set seen then Inr True
      else rbind (arena_get a current) (\<lambda>b. rbind (targets b) (\<lambda>ts.
           loop_search a (current # seen) (work @ ts))))"
  by pat_completeness auto
termination
proof (relation "measure (\<lambda>(a, seen, work). card ({..<length a} - set seen))")
  fix a :: "block arena" and seen work ts current b
  assume "current \<notin> set seen" and "arena_get a current = Inr b"
  then have "{..<length a} - set (current # seen) \<subset> {..<length a} - set seen"
    by (auto simp: arena_get_Inr)
  then show "((a, current # seen, work @ ts), a, seen, current # work)
        \<in> measure (\<lambda>(a, seen, work). card ({..<length a} - set seen))"
    by (auto intro: psubset_card_mono)
qed auto

definition contains_loop :: "rfunction \<Rightarrow> bool res" where
  "contains_loop f = loop_search (block_arena f) [] [entry_block f]"

section \<open>Control flow graph\<close>

record control_flow_graph =
  block_preds :: "(block_id \<times> block_id list) list"
  block_succs :: "(block_id \<times> block_id list) list"

definition insert_successor :: "block_id \<Rightarrow> block_id \<Rightarrow> control_flow_graph \<Rightarrow> control_flow_graph" where
  "insert_successor rb sb g = g\<lparr>block_succs := push_entry rb sb (block_succs g)\<rparr>"

definition insert_predecessor :: "block_id \<Rightarrow> block_id \<Rightarrow> control_flow_graph \<Rightarrow> control_flow_graph" where
  "insert_predecessor rb pb g = g\<lparr>block_preds := push_entry rb pb (block_preds g)\<rparr>"

text \<open>One block: the new graph and the blocks put on the work list.\<close>

definition cfg_visit ::
  "block arena \<Rightarrow> block_id \<Rightarrow> control_flow_graph \<Rightarrow> (control_flow_graph \<times> block_id list) res" where
  "cfg_visit a current g =
     rbind (arena_get a current) (\<lambda>b. rbind (unwrap (terminator_statement b)) (\<lambda>t.
     rbind (arena_get (statement_arena b) t) (\<lambda>s.
     case s of
       Jump target \<Rightarrow>
         Inr (insert_predecessor target current (insert_successor current target g), [target])
     | Branch _ true_target false_target \<Rightarrow>
         Inr (insert_predecessor false_target current (insert_predecessor true_target current
                (insert_successor current false_target (insert_successor current true_target g))),
              [true_target, false_target])
     | Return _ \<Rightarrow> Inr (g\<lparr>block_succs := AList.update current [] (block_succs g)\<rparr>, [])
     | Panic _ \<Rightarrow> Inr (g\<lparr>block_succs := AList.update current [] (block_succs g)\<rparr>, [])
     | _ \<Rightarrow> Inl ExplicitPanic)))"

function cfg_search ::
  "block arena \<Rightarrow> block_id list \<Rightarrow> block_id list \<Rightarrow> control_flow_graph \<Rightarrow> control_flow_graph res" where
  "cfg_search a seen [] g = Inr g"
| "cfg_search a seen (current # work) g =
     (if current \<in> set seen then cfg_search a seen work g
      else rbind (cfg_visit a current g) (\<lambda>(g, next). cfg_search a (current # seen) (work @ next) g))"
  by pat_completeness auto
termination
proof (relation "measures [\<lambda>(a, seen, work, g). card ({..<length a} - set seen),
                           \<lambda>(a, seen, work, g). length work]")
  fix a :: "block arena" and seen work current g x g' "next"
  assume "current \<notin> set seen" and "cfg_visit a current g = Inr x"
  then have "{..<length a} - set (current # seen) \<subset> {..<length a} - set seen"
    by (auto simp: cfg_visit_def arena_get_Inr rbind_eq_Inr)
  then show "((a, current # seen, work @ next, g'), a, seen, current # work, g)
        \<in> measures [\<lambda>(a, seen, work, g). card ({..<length a} - set seen),
                     \<lambda>(a, seen, work, g). length work]"
    by (auto intro: psubset_card_mono)
qed auto

definition control_flow_graph_new :: "rfunction \<Rightarrow> control_flow_graph res" where
  "control_flow_graph_new f =
     cfg_search (block_arena f) [] [entry_block f]
       \<lparr>block_preds = [(entry_block f, [])], block_succs = []\<rparr>"

definition predecessors_for :: "control_flow_graph \<Rightarrow> block_id \<Rightarrow> block_id list option" where
  "predecessors_for g b = map_of (block_preds g) b"

definition successors_for :: "control_flow_graph \<Rightarrow> block_id \<Rightarrow> block_id list option" where
  "successors_for g b = map_of (block_succs g) b"

section \<open>Call graph\<close>

record call_graph =
  fn_callers :: "(string \<times> string list) list"
  fn_callees :: "(string \<times> string list) list"

fun call_target :: "statement \<Rightarrow> string option" where
  "call_target (Call target _ _) = Some target"
| "call_target _ = None"

text \<open>\<open>entry(k).and_modify(|s| s.insert(v))\<close>: nothing happens when the key is missing.\<close>

definition modify_entry :: "'k \<Rightarrow> 'v \<Rightarrow> ('k \<times> 'v list) list \<Rightarrow> ('k \<times> 'v list) list" where
  "modify_entry k v m = (case map_of m k of None \<Rightarrow> m | Some u \<Rightarrow> AList.update k (List.insert v u) m)"

definition call_graph_function :: "rfunction \<Rightarrow> call_graph \<Rightarrow> call_graph res" where
  "call_graph_function f g =
     rbind (function_statements f) (\<lambda>ss.
     Inr (fold (\<lambda>t g. g\<lparr>fn_callees := modify_entry (fn_name f) t (fn_callees g),
                        fn_callers := modify_entry t (fn_name f) (fn_callers g)\<rparr>)
            (List.map_filter call_target ss) g))"

definition call_graph_new :: "model \<Rightarrow> call_graph res" where
  "call_graph_new m =
     rbind (foldR (\<lambda>(fname, f) g. rbind (rassert (fname = fn_name f)) (\<lambda>_.
              Inr (g\<lparr>fn_callees := AList.update (fn_name f) [] (fn_callees g),
                     fn_callers := AList.update (fn_name f) [] (fn_callers g)\<rparr>)))
              (fns m) \<lparr>fn_callers = [], fn_callees = []\<rparr>) (\<lambda>g.
     foldR (\<lambda>(_, f). call_graph_function f) (fns m) g)"

definition get_callers_for :: "call_graph \<Rightarrow> string \<Rightarrow> string list" where
  "get_callers_for g f = (case map_of (fn_callers g) f of None \<Rightarrow> [] | Some s \<Rightarrow> s)"

definition get_callees_for :: "call_graph \<Rightarrow> string \<Rightarrow> string list" where
  "get_callees_for g f = (case map_of (fn_callees g) f of None \<Rightarrow> [] | Some s \<Rightarrow> s)"

section \<open>Collecting entries\<close>

definition collect :: "'k \<Rightarrow> ('k \<times> 'v) list \<Rightarrow> 'v list" where
  "collect k xs = map snd (filter (\<lambda>(k', _). k' = k) xs)"

lemma collect_Nil: "collect k xs = [] \<longleftrightarrow> (\<forall>v. (k, v) \<notin> set xs)"
  by (auto simp: collect_def filter_empty_conv)

lemma map_of_push_entry:
  "map_of (push_entry k v m) n =
     (if n = k then Some (case map_of m k of None \<Rightarrow> [v] | Some u \<Rightarrow> u @ [v]) else map_of m n)"
  by (simp add: push_entry_def update_conv' split: option.splits)

lemma map_of_insert_entry:
  "map_of (insert_entry k v m) n =
     (if n = k then Some (case map_of m k of None \<Rightarrow> [v] | Some u \<Rightarrow> List.insert v u) else map_of m n)"
  by (simp add: insert_entry_def update_conv' split: option.splits)

lemma map_of_fold_push:
  "map_of (fold (\<lambda>(k, v). push_entry k v) xs m) n =
     (case map_of m n of
        None \<Rightarrow> if collect n xs = [] then None else Some (collect n xs)
      | Some u \<Rightarrow> Some (u @ collect n xs))"
proof (induction xs arbitrary: m)
  case (Cons x xs)
  then show ?case
    by (cases x) (auto simp: map_of_push_entry collect_def split: option.splits)
qed (simp add: collect_def split: option.splits)

section \<open>Symbol uses\<close>

type_synonym access = "symbol \<times> stmt_id \<times> block_id \<times> statement"

definition block_accesses :: "block_id \<Rightarrow> block \<Rightarrow> access list res" where
  "block_accesses b blk =
     rbind (live_statements blk) (\<lambda>ss.
     Inr (List.map_filter (\<lambda>(r, s). map_option (\<lambda>sy. (sy, r, b, s)) (accessed_symbol s))
            (zip (statements blk) ss)))"

definition symbol_accesses :: "rfunction \<Rightarrow> access list res" where
  "symbol_accesses f =
     rbind (function_blocks f) (\<lambda>bs.
     rbind (mapR (\<lambda>b. rbind (arena_get (block_arena f) b) (block_accesses b)) bs) (\<lambda>as. Inr (concat as)))"

definition record_access :: "access \<Rightarrow> symbol_use_analysis \<Rightarrow> symbol_use_analysis" where
  "record_access x a = (case x of (sy, r, b, s) \<Rightarrow> insert_use sy r b s a)"

lemma foldR_pure_mapR:
  "foldR (\<lambda>x s. rbind (f x) (\<lambda>y. Inr (g x y s))) xs s =
     rbind (mapR f xs) (\<lambda>ys. Inr (fold (\<lambda>(x, y). g x y) (zip xs ys) s))"
proof (induction xs arbitrary: s)
  case (Cons x xs)
  then show ?case by (cases "f x"; cases "mapR f xs") auto
qed simp

lemma foldR_mapR_concat:
  assumes "\<And>x s. x \<in> set xs \<Longrightarrow> F x s = rbind (h x) (\<lambda>ys. Inr (fold g ys s))"
  shows "foldR F xs s = rbind (mapR h xs) (\<lambda>yss. Inr (fold g (concat yss) s))"
  using assms
proof (induction xs arbitrary: s)
  case (Cons x xs)
  then show ?case by (cases "h x"; cases "mapR h xs") auto
qed simp

lemma fold_map_filter: "fold g (List.map_filter f xs) s = fold (\<lambda>x s. case f x of None \<Rightarrow> s | Some y \<Rightarrow> g y s) xs s"
  by (induction xs arbitrary: s) (auto simp: List.map_filter_simps split: option.splits)

lemma symbol_analyse_block_accesses:
  "symbol_analyse_block f b a =
     rbind (rbind (arena_get (block_arena f) b) (block_accesses b)) (\<lambda>xs. Inr (fold record_access xs a))"
proof (cases "arena_get (block_arena f) b")
  case (Inr blk)
  have g: "(\<lambda>(x, y) s. case accessed_symbol y of None \<Rightarrow> s | Some symbol \<Rightarrow> insert_use symbol x b y s)
      = (\<lambda>p s. case (case p of (r, s) \<Rightarrow> map_option (\<lambda>sy. (sy, r, b, s)) (accessed_symbol s)) of
                 None \<Rightarrow> s | Some x \<Rightarrow> record_access x s)"
    by (auto simp: fun_eq_iff record_access_def split: option.splits)
  show ?thesis
    using Inr unfolding symbol_analyse_block_def block_accesses_def live_statements_def
    by (simp add: foldR_pure_mapR rbind_assoc fold_map_filter g)
qed (simp add: symbol_analyse_block_def)

definition empty_analysis :: symbol_use_analysis where
  "empty_analysis = \<lparr>symbol_uses = [], symbol_reads = [], symbol_writes = [], symbol_blocks = []\<rparr>"

lemma symbol_use_analysis_accesses:
  "symbol_use_analysis_new f = rbind (symbol_accesses f) (\<lambda>xs. Inr (fold record_access xs empty_analysis))"
  unfolding symbol_use_analysis_new_def symbol_accesses_def empty_analysis_def [symmetric]
  by (simp add: rbind_assoc foldR_mapR_concat [OF symbol_analyse_block_accesses])

definition reads_in :: "access list \<Rightarrow> (string \<times> stmt_id \<times> block_id) list" where
  "reads_in xs = map (\<lambda>(sy, r, b, s). (sym_name sy, r, b)) (filter (\<lambda>(_, _, _, s). is_read_variable s) xs)"

definition writes_in :: "access list \<Rightarrow> (string \<times> stmt_id \<times> block_id) list" where
  "writes_in xs = map (\<lambda>(sy, r, b, s). (sym_name sy, r, b)) (filter (\<lambda>(_, _, _, s). is_write_variable s) xs)"

lemma fold_record_access:
  "symbol_reads (fold record_access xs a) = fold (\<lambda>(k, v). push_entry k v) (reads_in xs) (symbol_reads a)"
  "symbol_writes (fold record_access xs a) = fold (\<lambda>(k, v). push_entry k v) (writes_in xs) (symbol_writes a)"
  by (induction xs arbitrary: a)
    (auto simp: record_access_def insert_use_def Let_def reads_in_def writes_in_def)

lemma symbol_reads_spec:
  assumes "symbol_use_analysis_new f = Inr a" and "symbol_accesses f = Inr xs"
  shows "symbol_has_reads a sy \<longleftrightarrow> (\<exists>r b. (sym_name sy, r, b) \<in> set (reads_in xs))"
    and "symbol_has_writes a sy \<longleftrightarrow> (\<exists>r b. (sym_name sy, r, b) \<in> set (writes_in xs))"
    and "get_symbol_writes a sy = Inr ws \<Longrightarrow> ws = collect (sym_name sy) (writes_in xs)"
  using assms
  by (auto simp: symbol_use_analysis_accesses symbol_has_reads_def symbol_has_writes_def get_symbol_writes_def
      fold_record_access empty_analysis_def map_of_fold_push collect_Nil unwrap_eq_Inr
      split: if_splits) blast+

section \<open>Statement uses\<close>

lemma analysed_operands_eq: "(\<And>ms. s \<noteq> PhiNode ms) \<Longrightarrow> analysed_operands s = operands s"
  by (cases s) auto

lemma has_uses_fold:
  "has_uses (fold (\<lambda>r. add_use r stmt) rs m) r \<longleftrightarrow> has_uses m r \<or> r \<in> set rs"
  by (induction rs arbitrary: m) (auto simp: has_uses_def add_use_def map_of_insert_entry)

lemma statement_use_analysis_spec:
  assumes "statement_use_analysis b = Inr m"
  shows "has_uses m r \<longleftrightarrow> (\<exists>u\<in>set (statements b). r \<in> set (analysed_operands (statement_arena b ! u)))"
proof -
  have "\<exists>ss. mapR (arena_get (statement_arena b)) (statements b) = Inr ss
      \<and> m = fold (\<lambda>(x, s). fold (\<lambda>r. add_use r x) (analysed_operands s)) (zip (statements b) ss) []"
    using assms unfolding statement_use_analysis_def foldR_pure_mapR by (auto simp: rbind_eq_Inr)
  then obtain ss where ss: "mapR (arena_get (statement_arena b)) (statements b) = Inr ss"
      "m = fold (\<lambda>(x, s). fold (\<lambda>r. add_use r x) (analysed_operands s)) (zip (statements b) ss) []" by blast
  have fold: "has_uses (fold (\<lambda>(x, s). fold (\<lambda>r. add_use r x) (analysed_operands s)) ps m) r
      \<longleftrightarrow> has_uses m r \<or> (\<exists>(x, s)\<in>set ps. r \<in> set (analysed_operands s))" for ps m
    by (induction ps arbitrary: m) (auto simp: has_uses_fold)
  have "ss = map (\<lambda>u. statement_arena b ! u) (statements b)"
    using ss(1) by (auto simp: mapR_eq_Inr list_all2_conv_all_nth arena_get_Inr intro: nth_equalityI)
  then show ?thesis
    by (auto simp: ss(2) fold has_uses_def [of "[]"] zip_map2 zip_same_conv_map)
qed

section \<open>Loops\<close>

text \<open>
  When the search ends without meeting a block twice, every block was reached over exactly one
  edge, so no block can reach itself.
\<close>

lemma loop_search_distinct:
  "loop_search a seen work = Inr False \<Longrightarrow> distinct work \<and> set work \<inter> set seen = {}
    \<and> (\<exists>bs. distinct bs \<and> set work \<subseteq> set bs \<and> set bs \<inter> set seen = {}
        \<and> (\<forall>b\<in>set bs. \<forall>c. block_edge a b c \<longrightarrow> c \<in> set bs \<and> c \<notin> set work)
        \<and> (\<exists>depth :: block_id \<Rightarrow> nat. \<forall>b\<in>set bs. \<forall>c. block_edge a b c \<longrightarrow> depth b < depth c))"
proof (induction a seen work rule: loop_search.induct)
  case (1 a seen)
  show ?case by (intro conjI exI [of _ "[]"]) auto
next
  case (2 a seen current work)
  have new: "current \<notin> set seen" using 2(2) by (auto split: if_splits)
  with 2(2) obtain b ts where run: "arena_get a current = Inr b" "targets b = Inr ts"
      "loop_search a (current # seen) (work @ ts) = Inr False"
    by (auto simp: rbind_eq_Inr)
  have edge: "block_edge a current c \<longleftrightarrow> c \<in> set ts" for c
    using run(1,2) by (simp add: block_edge_def)
  from 2(1) [OF new run] obtain bs and depth :: "block_id \<Rightarrow> nat" where IH:
      "distinct (work @ ts)" "set (work @ ts) \<inter> set (current # seen) = {}" "distinct bs"
      "set (work @ ts) \<subseteq> set bs" "set bs \<inter> set (current # seen) = {}"
      "\<forall>b\<in>set bs. \<forall>c. block_edge a b c \<longrightarrow> c \<in> set bs \<and> c \<notin> set (work @ ts)"
      "\<forall>b\<in>set bs. \<forall>c. block_edge a b c \<longrightarrow> depth b < depth c" by blast
  have succ: "c \<in> set bs \<and> c \<notin> set work \<and> c \<noteq> current" if "b \<in> set (current # bs)" "block_edge a b c" for b c
  proof (cases "b = current")
    case True
    then have "c \<in> set ts" using that(2) edge by simp
    then show ?thesis using IH(1,2,4) by auto
  next
    case False
    then have "c \<in> set bs" "c \<notin> set (work @ ts)" using that IH(6) by auto
    then show ?thesis using IH(5) by auto
  qed
  let ?depth = "\<lambda>b. if b = current then 0 else Suc (depth b)"
  have "\<forall>b\<in>set (current # bs). \<forall>c. block_edge a b c \<longrightarrow> ?depth b < ?depth c"
  proof (intro ballI allI impI)
    fix b c
    assume b: "b \<in> set (current # bs)" and e: "block_edge a b c"
    show "?depth b < ?depth c"
      using succ [OF b e] b e IH(7) by (cases "b = current") auto
  qed
  moreover have "\<forall>b\<in>set (current # bs). \<forall>c. block_edge a b c \<longrightarrow> c \<in> set (current # bs) \<and> c \<notin> set (current # work)"
  proof (intro ballI allI impI)
    show "c \<in> set (current # bs) \<and> c \<notin> set (current # work)"
      if "b \<in> set (current # bs)" "block_edge a b c" for b c
      using succ [OF that] by simp
  qed
  moreover have "distinct (current # bs)" "set (current # work) \<subseteq> set (current # bs)"
    "set (current # bs) \<inter> set seen = {}" "distinct (current # work)" "set (current # work) \<inter> set seen = {}"
    using IH(1-5) new by auto
  ultimately show ?case
    by (intro conjI exI [of _ "current # bs"] exI [of _ ?depth]) assumption+
qed

lemma depth_acyclic:
  assumes "\<forall>b\<in>S. \<forall>c. R b c \<longrightarrow> c \<in> S \<and> (depth :: 'b \<Rightarrow> nat) b < depth c" and "b \<in> S"
  shows "\<not> R\<^sup>+\<^sup>+ b b"
proof -
  have "R\<^sup>+\<^sup>+ b c \<Longrightarrow> c \<in> S \<and> depth b < depth c" for c
    by (induction rule: tranclp_induct) (use assms in fastforce)+
  then show ?thesis by blast
qed

text \<open>
  C18: a function for which the loop analysis reports no loop has none: no block reachable from
  the entry block can reach itself.
\<close>

theorem loop_analysis_sound:
  assumes "contains_loop f = Inr False" and "(block_edge (block_arena f))\<^sup>*\<^sup>* (entry_block f) b"
  shows "\<not> (block_edge (block_arena f))\<^sup>+\<^sup>+ b b"
proof -
  let ?R = "block_edge (block_arena f)"
  obtain bs and depth :: "block_id \<Rightarrow> nat" where bs: "entry_block f \<in> set bs"
      "\<forall>b\<in>set bs. \<forall>c. ?R b c \<longrightarrow> c \<in> set bs \<and> depth b < depth c"
    using loop_search_distinct [OF assms(1) [unfolded contains_loop_def]] by auto
  from assms(2) have "b \<in> set bs"
    by (induction rule: rtranclp_induct) (use bs in auto)
  then show ?thesis using depth_acyclic [OF bs(2)] by blast
qed

definition sample_line :: rfunction where
  "sample_line =
     \<lparr>return_type = None, parameters = [], fn_name = ''line'', local_variables = [],
      block_arena = [\<lparr>statement_arena = [Jump 1], statements = [0]\<rparr>,
                     \<lparr>statement_arena = [Return None], statements = [0]\<rparr>],
      entry_block = 0\<rparr>"

theorem loop_analysis_sound_witness:
  "contains_loop sample_line = Inr False \<and> \<not> (block_edge (block_arena sample_line))\<^sup>+\<^sup>+ 0 0"
proof -
  have "contains_loop sample_line = Inr False"
    by (simp add: contains_loop_def sample_line_def targets_def live_statements_def arena_get_def)
  then show ?thesis
    using loop_analysis_sound [of sample_line 0] by (simp add: sample_line_def)
qed

definition sample_diamond :: rfunction where
  "sample_diamond =
     \<lparr>return_type = None, parameters = [], fn_name = ''diamond'', local_variables = [],
      block_arena = [\<lparr>statement_arena = [Constant (UnsignedInteger 1 1), Branch 0 1 2], statements = [0, 1]\<rparr>,
                     \<lparr>statement_arena = [Jump 3], statements = [0]\<rparr>,
                     \<lparr>statement_arena = [Jump 3], statements = [0]\<rparr>,
                     \<lparr>statement_arena = [Return None], statements = [0]\<rparr>],
      entry_block = 0\<rparr>"

lemma sample_diamond_edges: "block_edge (block_arena sample_diamond) b c \<Longrightarrow> b < c"
  by (auto simp: block_edge_def sample_diamond_def arena_get_Inr targets_def live_statements_def
      arena_get_def less_Suc_eq split: if_splits)

text \<open>
  The analysis is not exact: a diamond (a branch whose two sides meet again) is reported as
  a loop although no block reaches itself.
\<close>

theorem loop_analysis_reports_diamond:
  "contains_loop sample_diamond = Inr True
   \<and> (\<forall>b. \<not> (block_edge (block_arena sample_diamond))\<^sup>+\<^sup>+ b b)"
proof
  show "contains_loop sample_diamond = Inr True"
    by (simp add: contains_loop_def sample_diamond_def targets_def live_statements_def arena_get_def)
  show "\<forall>b. \<not> (block_edge (block_arena sample_diamond))\<^sup>+\<^sup>+ b b"
    using depth_acyclic [of UNIV "block_edge (block_arena sample_diamond)" id] sample_diamond_edges by simp
qed

section \<open>Control flow graph\<close>

definition entries_at :: "('k \<times> 'v list) list \<Rightarrow> 'k \<Rightarrow> 'v list" where
  "entries_at m k = (case map_of m k of None \<Rightarrow> [] | Some u \<Rightarrow> u)"

lemma entries_at_push: "entries_at (push_entry k v m) n = (if n = k then entries_at m k @ [v] else entries_at m n)"
  by (simp add: entries_at_def map_of_push_entry split: option.splits)

definition cfg_inverse :: "control_flow_graph \<Rightarrow> bool" where
  "cfg_inverse g \<longleftrightarrow>
     (\<forall>b c. count_list (entries_at (block_succs g) b) c = count_list (entries_at (block_preds g) c) b)"

lemma cfg_visit_keeps:
  assumes "cfg_visit a current g = Inr (g', next)" and "cfg_inverse g" and "\<forall>b u. map_of (block_succs g) b = Some u \<longrightarrow> b \<in> set seen"
    and "current \<notin> set seen"
  shows "cfg_inverse g' \<and> (\<forall>b u. map_of (block_succs g') b = Some u \<longrightarrow> b \<in> set (current # seen))
    \<and> (\<forall>b. entries_at (block_succs g') b = (if b = current then next else entries_at (block_succs g) b))"
proof -
  have none: "map_of (block_succs g) current = None" using assms(3,4) by (metis not_None_eq)
  then have e: "entries_at (block_succs g) current = []" by (simp add: entries_at_def)
  have inv: "count_list (entries_at (block_preds g) c) current = 0" for c
    using assms(2) e by (metis cfg_inverse_def count_list.simps(1))
  have s: "(\<exists>t. g' = insert_predecessor t current (insert_successor current t g) \<and> next = [t])
     \<or> (\<exists>t f. next = [t, f] \<and>
          g' = insert_predecessor f current (insert_predecessor t current
                (insert_successor current f (insert_successor current t g))))
     \<or> g' = g\<lparr>block_succs := AList.update current [] (block_succs g)\<rparr> \<and> next = []"
  proof -
    obtain b t s where "arena_get a current = Inr b" "terminator_statement b = Some t"
        "arena_get (statement_arena b) t = Inr s"
      using assms(1) by (auto simp: cfg_visit_def rbind_eq_Inr unwrap_eq_Inr)
    with assms(1) show ?thesis by (cases s) (auto simp: cfg_visit_def)
  qed
  have upd: "entries_at (AList.update current [] (block_succs g)) b = entries_at (block_succs g) b" for b
    using none by (simp add: entries_at_def update_conv')
  show ?thesis
    using s assms(2,3) e inv upd
    by (auto simp: cfg_inverse_def insert_predecessor_def insert_successor_def entries_at_push
        map_of_push_entry update_conv' split: if_splits option.splits)
qed

definition terminator_targets :: "block arena \<Rightarrow> block_id \<Rightarrow> block_id list res" where
  "terminator_targets a b = rbind (cfg_visit a b \<lparr>block_preds = [], block_succs = []\<rparr>) (\<lambda>(_, ts). Inr ts)"

lemma cfg_visit_targets: "cfg_visit a b g = Inr (g', next) \<Longrightarrow> terminator_targets a b = Inr next"
proof -
  assume run: "cfg_visit a b g = Inr (g', next)"
  obtain blk t s where "arena_get a b = Inr blk" "terminator_statement blk = Some t"
      "arena_get (statement_arena blk) t = Inr s"
    using run by (auto simp: cfg_visit_def rbind_eq_Inr unwrap_eq_Inr)
  with run show ?thesis by (cases s) (auto simp: cfg_visit_def terminator_targets_def)
qed

lemma cfg_search_keeps:
  assumes "cfg_search a seen work g = Inr g'" and "cfg_inverse g"
    and "\<forall>b u. map_of (block_succs g) b = Some u \<longrightarrow> b \<in> set seen"
    and "\<forall>b\<in>set seen. terminator_targets a b = Inr (entries_at (block_succs g) b)"
    and "\<forall>b\<in>set seen. set (entries_at (block_succs g) b) \<subseteq> set seen \<union> set work"
  shows "cfg_inverse g' \<and> (\<exists>S. set seen \<union> set work \<subseteq> S
    \<and> (\<forall>b\<in>S. terminator_targets a b = Inr (entries_at (block_succs g') b)
             \<and> set (entries_at (block_succs g') b) \<subseteq> S))"
  using assms
proof (induction a seen work g rule: cfg_search.induct)
  case (1 a seen g)
  then show ?case by (intro conjI exI [of _ "set seen"]) auto
next
  case (2 a seen current work g)
  show ?case
  proof (cases "current \<in> set seen")
    case True
    then have "set seen \<union> set (current # work) = set seen \<union> set work" by auto
    with 2(1) [OF True] 2(3-) True show ?thesis by simp
  next
    case False
    from 2(3) False obtain h ns where v: "cfg_visit a current g = Inr (h, ns)"
        "cfg_search a (current # seen) (work @ ns) h = Inr g'"
      by (auto simp: rbind_eq_Inr)
    note keep = cfg_visit_keeps [OF v(1) 2(4,5) False]
    have at: "entries_at (block_succs h) b = (if b = current then ns else entries_at (block_succs g) b)" for b
      using keep by blast
    have "\<forall>b\<in>set (current # seen). terminator_targets a b = Inr (entries_at (block_succs h) b)"
      using 2(6) False cfg_visit_targets [OF v(1)] by (auto simp: at)
    moreover have "\<forall>b\<in>set (current # seen). set (entries_at (block_succs h) b) \<subseteq> set (current # seen) \<union> set (work @ ns)"
    proof
      fix b
      assume "b \<in> set (current # seen)"
      then show "set (entries_at (block_succs h) b) \<subseteq> set (current # seen) \<union> set (work @ ns)"
        using 2(7) by (cases "b = current") (auto simp: at dest!: bspec [of _ _ b])
    qed
    moreover have "cfg_inverse h" "\<forall>b u. map_of (block_succs h) b = Some u \<longrightarrow> b \<in> set (current # seen)"
      using keep by blast+
    ultimately obtain S where "cfg_inverse g'" "set (current # seen) \<union> set (work @ ns) \<subseteq> S"
        "\<forall>b\<in>S. terminator_targets a b = Inr (entries_at (block_succs g') b)
             \<and> set (entries_at (block_succs g') b) \<subseteq> S"
      using 2(2) [OF False v(1) refl v(2)] by blast
    then show ?thesis by (intro conjI exI [of _ S]) auto
  qed
qed


text \<open>Blocks whose control flow is all in the last statement, as every block the code builds.\<close>

definition jumps_last :: "block \<Rightarrow> bool" where
  "jumps_last blk \<longleftrightarrow>
     (\<forall>ss. live_statements blk = Inr ss \<longrightarrow> concat (map jump_targets (butlast ss)) = [])"

lemma jumps_last_targets:
  assumes "jumps_last blk" and "arena_get a b = Inr blk" and "targets blk = Inr ts"
    and "terminator_targets a b = Inr ts'"
  shows "ts = ts'"
proof -
  obtain ss where ss: "live_statements blk = Inr ss" "ts = concat (map jump_targets ss)"
    using assms(3) by (auto simp: targets_def rbind_eq_Inr)
  obtain t s where t: "terminator_statement blk = Some t" "arena_get (statement_arena blk) t = Inr s"
    using assms(2,4) by (auto simp: terminator_targets_def cfg_visit_def rbind_eq_Inr unwrap_eq_Inr)
  have all: "list_all2 (\<lambda>r s. arena_get (statement_arena blk) r = Inr s) (statements blk) ss"
    using ss(1) by (simp add: live_statements_def mapR_eq_Inr)
  have ne: "statements blk \<noteq> []" and tl: "t = last (statements blk)"
    using t(1) by (auto simp: terminator_statement_def split: if_splits)
  then have "ss \<noteq> []" using list_all2_lengthD [OF all] by auto
  moreover have "last ss = s"
    using list_all2_nthD [OF all, of "length ss - 1"] list_all2_lengthD [OF all] t(2) tl ne calculation
    by (simp add: last_conv_nth)
  ultimately have "ss \<noteq> []" "last ss = s" by auto
  then have "ts = concat (map jump_targets (butlast ss @ [s]))"
    using ss(2) by (metis append_butlast_last_id)
  then have "ts = concat (map jump_targets (butlast ss)) @ jump_targets s"
    by (simp only: map_append concat_append) simp
  then have "ts = jump_targets s" using assms(1) ss(1) by (simp add: jumps_last_def)
  with t assms(2,4) show ?thesis
    by (cases s) (auto simp: terminator_targets_def cfg_visit_def)
qed

text \<open>
  C15: the control flow graph is exact on the blocks it reaches: a block's successors are the
  targets of its terminator, and a block occurs among the predecessors of another as often as
  the other occurs among its successors.
\<close>

theorem control_flow_graph_exact:
  assumes "control_flow_graph_new f = Inr g" and "(block_edge (block_arena f))\<^sup>*\<^sup>* (entry_block f) b"
    and "list_all jumps_last (block_arena f)"
  shows "terminator_targets (block_arena f) b = Inr (entries_at (block_succs g) b)
    \<and> (\<forall>c. count_list (entries_at (block_preds g) c) b = count_list (entries_at (block_succs g) b) c)"
proof -
  let ?R = "block_edge (block_arena f)"
  have "cfg_inverse \<lparr>block_preds = [(entry_block f, [])], block_succs = []\<rparr>"
    by (simp add: cfg_inverse_def entries_at_def)
  from cfg_search_keeps [OF assms(1) [unfolded control_flow_graph_new_def] this] obtain S where S:
      "cfg_inverse g" "entry_block f \<in> S"
      "\<forall>b\<in>S. terminator_targets (block_arena f) b = Inr (entries_at (block_succs g) b)
             \<and> set (entries_at (block_succs g) b) \<subseteq> S" by auto
  from assms(2) have "b \<in> S"
  proof (induction rule: rtranclp_induct)
    case (step b c)
    then obtain blk ts where e: "arena_get (block_arena f) b = Inr blk" "targets blk = Inr ts" "c \<in> set ts"
      by (auto simp: block_edge_def)
    have "jumps_last blk" using assms(3) e(1) by (auto simp: list_all_length arena_get_Inr)
    then have "c \<in> set (entries_at (block_succs g) b)"
      using jumps_last_targets [OF _ e(1,2)] e(3) S(3) step.IH by blast
    with S(3) step.IH show ?case by blast
  qed (rule S(2))
  with S show ?thesis by (simp add: cfg_inverse_def)
qed


theorem control_flow_graph_exact_witness:
  "\<exists>g. control_flow_graph_new sample_diamond = Inr g
     \<and> terminator_targets (block_arena sample_diamond) 0 = Inr (entries_at (block_succs g) 0)"
proof -
  have j: "list_all jumps_last (block_arena sample_diamond)"
    by (simp add: sample_diamond_def jumps_last_def live_statements_def arena_get_def)
  obtain g where g: "control_flow_graph_new sample_diamond = Inr g"
    by (simp add: control_flow_graph_new_def sample_diamond_def cfg_visit_def arena_get_def
        terminator_statement_def)
  have "(block_edge (block_arena sample_diamond))\<^sup>*\<^sup>* (entry_block sample_diamond) 0"
    by (simp add: sample_diamond_def)
  from control_flow_graph_exact [OF g this j] g show ?thesis by blast
qed

end
