(* ===== verification/Purity.thy ===== *)
theory Purity
  imports Refinement Analysis
begin


text \<open>
  What the purity analysis guarantees about the interpreter.  A set of functions is certified
  when every statement of each of them is harmless and calls stay inside the set; the analysis
  produces such a set, and running a certified function leaves the register file as it was.
\<close>

fun pure_statement :: "string set \<Rightarrow> statement \<Rightarrow> bool" where
  "pure_statement P (Call target _ _) = (target \<in> P)"
| "pure_statement P (WriteMemory _ _) = False"
| "pure_statement P (WritePc _) = False"
| "pure_statement P (WriteRegister _ _) = False"
| "pure_statement P (ReadMemory _ _) = False"
| "pure_statement P _ = True"

definition pure_certificate :: "model \<Rightarrow> string set \<Rightarrow> bool" where
  "pure_certificate m P \<longleftrightarrow>
     (\<forall>g\<in>P. \<forall>f. map_of (fns m) g = Some f
        \<longrightarrow> (\<exists>ss. function_statements f = Inr ss \<and> (\<forall>s\<in>set ss. pure_statement P s)))"

section \<open>Running a certified function\<close>

definition calls_keep_regs :: "string set \<Rightarrow> exec_ctx \<Rightarrow> bool" where
  "calls_keep_regs P C \<longleftrightarrow>
     (\<forall>t vs rf v rf'. t \<in> P \<longrightarrow> ctx_call C t vs rf = Inr (v, rf') \<longrightarrow> rf' = rf)"

lemma exec_statement_value:
  assumes "exec_statement C sa st s = Inr (st', out)"
  shows "(\<exists>v. out = Produced v) \<or> (\<exists>t. out = Finished (NextBlock t) \<and> t \<in> set (jump_targets s))
    \<or> (\<exists>v. out = Finished (ReturnValue v))"
  using assms by (cases s) (auto simp: exec_statement_def Let_def rbind_eq_Inr split_beta split: if_splits option.splits ternary_operation_kind.splits)

lemma exec_statement_pure:
  assumes "exec_statement C sa st s = Inr (st', out)" and "pure_statement P s" and "calls_keep_regs P C"
  shows "regs st' = regs st"
  using assms by (cases s)
    (auto simp: exec_statement_def Let_def rbind_eq_Inr calls_keep_regs_def split_beta prod_eq_iff
      split: if_splits option.splits ternary_operation_kind.splits)

lemma regs_bind_value [simp]: "regs (bind_value st r v) = regs st"
  and locals_bind_value [simp]: "locals (bind_value st r v) = locals st"
  and flags_bind_value [simp]: "flags (bind_value st r v) = flags st"
  by (simp_all add: bind_value_def split: option.splits)

lemma exec_statements_pure:
  assumes "exec_statements C sa rs st = Inr (st', res)" and "calls_keep_regs P C"
    and "\<forall>r\<in>set rs. r < length sa \<longrightarrow> pure_statement P (sa ! r)"
  shows "regs st' = regs st \<and> (\<forall>t. res = NextBlock t \<longrightarrow> (\<exists>r\<in>set rs. r < length sa \<and> t \<in> set (jump_targets (sa ! r))))"
  using assms
proof (induction rs arbitrary: st)
  case (Cons r rs)
  obtain s st1 out where s: "arena_get sa r = Inr s" "exec_statement C sa st s = Inr (st1, out)"
      "(case out of Finished result \<Rightarrow> Inr (st1, result) | Produced v \<Rightarrow> exec_statements C sa rs (bind_value st1 r v))
        = Inr (st', res)"
    using Cons.prems(1) by (auto simp: rbind_eq_Inr)
  have r: "r < length sa" "s = sa ! r" using s(1) by (simp_all add: arena_get_Inr)
  have regs1: "regs st1 = regs st"
    using exec_statement_pure [OF s(2) _ Cons.prems(2)] Cons.prems(3) r by simp
  show ?case
  proof (cases out)
    case (Produced v)
    then show ?thesis
      using Cons.IH [OF _ Cons.prems(2)] s(3) Cons.prems(3) regs1 by (auto simp del: exec_statements.simps)
  next
    case (Finished result)
    then show ?thesis
      using exec_statement_value [OF s(2)] s(3) r regs1 by auto
  qed
qed simp

lemma block_iter_closed:
  assumes "block_iter a e = Inr bs"
  shows "e \<in> set bs" and "b \<in> set bs \<Longrightarrow> block_edge a b c \<Longrightarrow> c \<in> set bs"
  using block_iter_from_sound [OF assms [unfolded block_iter_def]] by auto

lemma function_statements_block:
  assumes "function_statements f = Inr ss" and "function_blocks f = Inr bs" and "b \<in> set bs"
    and "arena_get (block_arena f) b = Inr blk"
  shows "\<exists>xs. live_statements blk = Inr xs \<and> set xs \<subseteq> set ss"
proof -
  obtain sss where sss: "mapR (\<lambda>b. rbind (arena_get (block_arena f) b) live_statements) bs = Inr sss" "ss = concat sss"
    using assms(1,2) by (auto simp: function_statements_def rbind_eq_Inr)
  then obtain i where i: "i < length bs" "bs ! i = b" using assms(3) by (auto simp: in_set_conv_nth)
  then have "live_statements blk = Inr (sss ! i)" "i < length sss"
    using sss(1) assms(4) by (auto simp: mapR_eq_Inr list_all2_conv_all_nth rbind_eq_Inr)
  then show ?thesis using sss(2) by (auto intro!: exI [of _ "sss ! i"] bexI [of _ "sss ! i"])
qed

lemma live_statements_nth:
  "live_statements blk = Inr xs \<Longrightarrow> r \<in> set (statements blk)
   \<Longrightarrow> r < length (statement_arena blk) \<and> statement_arena blk ! r \<in> set xs"
  by (force simp: live_statements_def mapR_eq_Inr list_all2_conv_all_nth in_set_conv_nth arena_get_Inr)

lemma live_statements_targets:
  "live_statements blk = Inr xs \<Longrightarrow> r \<in> set (statements blk) \<Longrightarrow> t \<in> set (jump_targets (statement_arena blk ! r))
   \<Longrightarrow> \<exists>ts. targets blk = Inr ts \<and> t \<in> set ts"
  using live_statements_nth by (fastforce simp: targets_def)

lemma step_block_pure:
  assumes f: "function_statements f = Inr ss" "function_blocks f = Inr bs" "\<forall>s\<in>set ss. pure_statement P s"
    and b: "b \<in> set bs" and C: "calls_keep_regs P C"
    and k: "\<And>b st v rf. b \<in> set bs \<Longrightarrow> k b st = Inr (v, rf) \<Longrightarrow> rf = regs st"
    and step: "step_block C f k b st = Inr (v, rf)"
  shows "rf = regs st"
proof -
  obtain blk st1 res where run: "arena_get (block_arena f) b = Inr blk" "exec_block C blk st = Inr (st1, res)"
      "(case res of NextBlock t \<Rightarrow> k t st1 | ReturnValue v \<Rightarrow> Inr (v, regs st1)) = Inr (v, rf)"
    using step by (auto simp: step_block_def rbind_eq_Inr)
  obtain xs where xs: "live_statements blk = Inr xs" "set xs \<subseteq> set ss"
    using function_statements_block [OF f(1,2) b run(1)] by blast
  have pure: "\<forall>r\<in>set (statements blk). r < length (statement_arena blk) \<longrightarrow> pure_statement P (statement_arena blk ! r)"
    using live_statements_nth [OF xs(1)] xs(2) f(3) by blast
  note ex = exec_statements_pure [OF run(2) [unfolded exec_block_def] C pure]
  show ?thesis
  proof (cases res)
    case (NextBlock t)
    then obtain ts where "targets blk = Inr ts" "t \<in> set ts"
      using ex live_statements_targets [OF xs(1)] by auto
    then have "block_edge (block_arena f) b t" using run(1) by (auto simp: block_edge_def)
    then have "t \<in> set bs" using block_iter_closed(2) [OF f(2) [unfolded function_blocks_def] b] by blast
    then show ?thesis using k [of t st1] run(3) NextBlock ex by simp
  qed (use run(3) ex in auto)
qed

lemma certified_keeps_regs:
  assumes "pure_certificate m P" and "g \<in> P"
  shows "interpret_fn n E m g args rf = Inr (v, rf') \<Longrightarrow> rf' = rf"
    and "map_of (fns m) g = Some f \<Longrightarrow> function_blocks f = Inr bs \<Longrightarrow> b \<in> set bs
         \<Longrightarrow> run_blocks n E m g b st = Inr (v, rf') \<Longrightarrow> rf' = regs st"
  using assms(2)
proof (induction n arbitrary: g args rf f bs b st v rf')
  case 0
  {
    case 1
    then show ?case by (simp add: interpret_fn_0)
  next
    case 2
    then show ?case by (simp add: run_blocks_0)
  }
next
  case (Suc n)
  {
    case 1
    then obtain f where f: "map_of (fns m) g = Some f" "run_blocks n E m g (entry_block f)
        (interpreter_new rf (bind_arguments (parameters f) args)) = Inr (v, rf')"
      by (auto simp: interpret_fn_Suc rbind_eq_Inr unwrap_eq_Inr)
    then obtain bs where bs: "function_blocks f = Inr bs"
      using assms(1) 1(2) by (force simp: pure_certificate_def function_statements_def rbind_eq_Inr)
    then show ?case
      using Suc(2) [OF f(1) bs block_iter_closed(1) [OF bs [unfolded function_blocks_def]] f(2) 1(2)]
      by (simp add: interpreter_new_def)
  next
    case 2
    then obtain ss where ss: "function_statements f = Inr ss" "\<forall>s\<in>set ss. pure_statement P s"
      using assms(1) unfolding pure_certificate_def by blast
    have C: "calls_keep_regs P (ctx_of n E m)"
      using Suc(1) by (auto simp: calls_keep_regs_def ctx_of_def)
    have "step_block (ctx_of n E m) f (run_blocks n E m g) b st = Inr (v, rf')"
      using 2(1,4) by (simp add: run_blocks_Suc)
    then show ?case
      using step_block_pure [OF ss(1) 2(2) ss(2) 2(3) C, of "run_blocks n E m g"] Suc(2) [OF 2(1,2) _ _ 2(5)]
      by blast
  }
qed

section \<open>The analysis produces a certificate\<close>

definition pure_set :: "purity \<Rightarrow> string set" where
  "pure_set p = {g. map_of p g = Some True}"

definition purity_extends :: "model \<Rightarrow> string list \<Rightarrow> purity \<Rightarrow> purity \<Rightarrow> bool" where
  "purity_extends m seen p p' \<longleftrightarrow>
     pure_certificate m (pure_set p') \<and> map_of p \<subseteq>\<^sub>m map_of p' \<and> (\<forall>x\<in>set seen. map_of p' x = map_of p x)"

lemma pure_statement_mono: "pure_statement P s \<Longrightarrow> P \<subseteq> Q \<Longrightarrow> pure_statement Q s"
  by (cases s) auto

lemma purity_extends_pure_set: "purity_extends m seen p p' \<Longrightarrow> pure_set p \<subseteq> pure_set p'"
  by (auto simp: purity_extends_def pure_set_def map_le_def dom_def)

lemma purity_extends_refl: "pure_certificate m (pure_set p) \<Longrightarrow> purity_extends m seen p p"
  by (simp add: purity_extends_def)

lemma purity_extends_trans:
  "purity_extends m seen p p' \<Longrightarrow> purity_extends m seen p' p'' \<Longrightarrow> purity_extends m seen p p''"
  unfolding purity_extends_def using map_le_trans by auto

lemma all_pure_extends:
  assumes "all_pure rec seen ss p = Inr (ok, p')" and "pure_certificate m (pure_set p)"
    and "\<And>t p ok p'. rec t p = Inr (ok, p') \<Longrightarrow> t \<notin> set seen \<Longrightarrow> pure_certificate m (pure_set p)
           \<Longrightarrow> purity_extends m seen p p' \<and> map_of p' t = Some ok"
  shows "purity_extends m seen p p' \<and> (ok \<longrightarrow> (\<forall>s\<in>set ss. pure_statement (pure_set p') s))"
  using assms(1,2)
proof (induction ss arbitrary: p)
  case Nil
  then show ?case by (simp add: purity_extends_refl)
next
  case (Cons s ss)
  let ?first = "case s of
              Call target _ _ \<Rightarrow> if target \<in> set seen then Inr (False, p) else rec target p
            | WriteMemory _ _ \<Rightarrow> Inr (False, p) | WritePc _ \<Rightarrow> Inr (False, p)
            | WriteRegister _ _ \<Rightarrow> Inr (False, p) | ReadMemory _ _ \<Rightarrow> Inr (False, p)
            | Panic _ \<Rightarrow> Inr (TREAT_PANICS_AS_PURE_DANGEROUS_UNSAFE, p)
            | Assert _ \<Rightarrow> Inr (TREAT_PANICS_AS_PURE_DANGEROUS_UNSAFE, p) | _ \<Rightarrow> Inr (True, p)"
  obtain ok1 p1 where first: "?first = Inr (ok1, p1)"
      and rest: "(if ok1 then all_pure rec seen ss p1 else Inr (False, p1)) = Inr (ok, p')"
    using Cons.prems(1) by (auto simp: rbind_eq_Inr)
  have ext: "purity_extends m seen p p1 \<and> (ok1 \<longrightarrow> pure_statement (pure_set p1) s)"
    using first Cons.prems(2) assms(3)
    by (cases s) (auto simp: purity_extends_refl pure_set_def split: if_splits)
  show ?case
  proof (cases ok1)
    case True
    then have "purity_extends m seen p1 p' \<and> (ok \<longrightarrow> (\<forall>s\<in>set ss. pure_statement (pure_set p') s))"
      using Cons.IH [of p1] rest ext by (auto simp: purity_extends_def)
    then show ?thesis
      using ext True purity_extends_trans pure_statement_mono purity_extends_pure_set
      by (metis set_ConsD)
  qed (use rest ext in auto)
qed

lemma determine_purity_extends:
  "determine_purity n m seen name p = Inr (ok, p') \<Longrightarrow> name \<notin> set seen \<Longrightarrow> pure_certificate m (pure_set p)
   \<Longrightarrow> purity_extends m seen p p' \<and> map_of p' name = Some ok"
proof (induction n arbitrary: seen name p ok p')
  case (Suc n)
  show ?case
  proof (cases "map_of p name")
    case None
    then obtain f ss p1 where run: "map_of (fns m) name = Some f" "function_statements f = Inr ss"
        "all_pure (determine_purity n m (name # seen)) (name # seen) ss p = Inr (ok, p1)"
        "p' = AList.update name ok p1"
      using Suc.prems(1) by (auto simp: rbind_eq_Inr unwrap_eq_Inr)
    have ext: "purity_extends m (name # seen) p p1" "ok \<Longrightarrow> \<forall>s\<in>set ss. pure_statement (pure_set p1) s"
      using all_pure_extends [OF run(3) Suc.prems(3)] Suc.IH by blast+
    have fresh: "map_of p1 name = None" using ext(1) None by (simp add: purity_extends_def)
    have set': "pure_set p' = (if ok then insert name (pure_set p1) else pure_set p1)"
      using fresh by (auto simp: pure_set_def run(4) update_conv')
    have "pure_certificate m (pure_set p')"
      using ext run(1,2) unfolding set' purity_extends_def pure_certificate_def
      by (auto intro: pure_statement_mono) (meson pure_statement_mono subset_insertI)
    moreover have "map_of p \<subseteq>\<^sub>m map_of p'"
      using ext(1) None fresh by (auto simp: purity_extends_def run(4) update_conv' map_le_def dom_def)
    moreover have "\<forall>x\<in>set seen. map_of p' x = map_of p x"
      using ext(1) Suc.prems(2) by (auto simp: purity_extends_def run(4) update_conv')
    ultimately show ?thesis by (simp add: purity_extends_def run(4) update_conv')
  next
    case (Some b)
    with Suc.prems show ?thesis by (simp add: purity_extends_refl)
  qed
qed simp

lemma purity_analysis_certificate:
  assumes "purity_analysis m = Inr p"
  shows "pure_certificate m (pure_set p)"
proof (rule foldR_invariant [OF _ _ assms [unfolded purity_analysis_def]])
  show "pure_certificate m (pure_set (map (\<lambda>s. (s, False)) INTRINSICS))"
    by (simp add: pure_certificate_def pure_set_def INTRINSICS_def)
qed (auto simp: rbind_eq_Inr purity_extends_def simp del: determine_purity.simps
    dest!: determine_purity_extends)

text \<open>
  C11: a function the purity analysis calls pure leaves the register file unchanged on every run
  of the interpreter that returns, whatever its arguments.
\<close>

theorem purity_analysis_sound:
  assumes "purity_analysis m = Inr p" and "is_pure p g = Inr True"
    and "interpret_fn n E m g args rf = Inr (v, rf')"
  shows "rf' = rf"
  using certified_keeps_regs(1) [OF purity_analysis_certificate [OF assms(1)] _ assms(3)] assms(2)
  by (simp add: pure_set_def is_pure_def unwrap_eq_Inr)

definition sample_model :: model where
  "sample_model = model_new [(''line'', sample_line)] []"

lemma sample_line_statements: "function_statements sample_line = Inr [Jump 1, Return None]"
  by (simp add: function_statements_def function_blocks_def block_iter_def sample_line_def arena_get_def
      targets_def live_statements_def)

theorem purity_analysis_sound_witness:
  "\<exists>p. purity_analysis sample_model = Inr p \<and> is_pure p ''line'' = Inr True
     \<and> interpret_fn 3 sample_env sample_model ''line'' [] sample_rf = Inr (None, sample_rf)
     \<and> sample_rf = sample_rf"
proof -
  obtain p where p: "purity_analysis sample_model = Inr p" "is_pure p ''line'' = Inr True"
    by (simp add: purity_analysis_def sample_model_def model_new_def INTRINSICS_def sample_line_statements
        is_pure_def)
  have run: "interpret_fn 3 sample_env sample_model ''line'' [] sample_rf = Inr (None, sample_rf)"
    by (simp add: numeral_3_eq_3 interpret_fn_Suc run_blocks_Suc sample_model_def model_new_def
        sample_line_def step_block_def arena_get_def exec_block_def exec_statement_def Let_def
        interpreter_new_def)
  show ?thesis using purity_analysis_sound [OF p run] p run by blast
qed

section \<open>The analysis returns\<close>

definition calls_known :: "model \<Rightarrow> bool" where
  "calls_known m \<longleftrightarrow>
     (\<forall>(g, f) \<in> set (fns m). \<exists>ss. function_statements f = Inr ss
        \<and> (\<forall>s\<in>set ss. \<forall>t. call_target s = Some t \<longrightarrow> t \<in> fst ` set (fns m) \<union> set INTRINSICS))"

lemma all_pure_total:
  assumes "\<And>t p. t \<notin> set seen \<Longrightarrow> Q p \<Longrightarrow> t \<in> T \<Longrightarrow> \<exists>ok p'. rec t p = Inr (ok, p') \<and> Q p'"
    and "\<forall>s\<in>set ss. \<forall>t. call_target s = Some t \<longrightarrow> t \<in> T" and "Q p"
  shows "\<exists>ok p'. all_pure rec seen ss p = Inr (ok, p') \<and> Q p'"
  using assms(2,3)
proof (induction ss arbitrary: p)
  case (Cons s ss)
  show ?case
  proof (cases "\<exists>t args rt. s = Call t args rt")
    case True
    then obtain t args rt where s: "s = Call t args rt" by blast
    then show ?thesis
    proof (cases "t \<in> set seen")
      case False
      obtain ok p1 where rec1: "rec t p = Inr (ok, p1)" "Q p1"
        using assms(1) [OF False Cons.prems(2)] Cons.prems(1) s by auto
      then show ?thesis using Cons.IH [of p1] Cons.prems(1) s False by (cases ok) auto
    qed (use Cons.prems s in auto)
  next
    case False
    then show ?thesis using Cons by (cases s) (auto simp: TREAT_PANICS_AS_PURE_DANGEROUS_UNSAFE_def)
  qed
qed (auto intro: exI [of _ True])

lemma determine_purity_total:
  assumes "calls_known m" and "card (fst ` set (fns m) - set seen) < n" and "name \<notin> set seen"
    and "name \<in> fst ` set (fns m) \<union> set INTRINSICS" and "set INTRINSICS \<subseteq> dom (map_of p)"
  shows "\<exists>ok p'. determine_purity n m seen name p = Inr (ok, p') \<and> set INTRINSICS \<subseteq> dom (map_of p')"
  using assms(2-)
proof (induction n arbitrary: seen name p)
  case (Suc n)
  show ?case
  proof (cases "map_of p name")
    case None
    then have name: "name \<in> fst ` set (fns m)" using Suc.prems(3,4) by blast
    then obtain f where f: "map_of (fns m) name = Some f"
      by (metis map_of_eq_None_iff not_None_eq)
    then obtain ss where ss: "function_statements f = Inr ss"
        "\<forall>s\<in>set ss. \<forall>t. call_target s = Some t \<longrightarrow> t \<in> fst ` set (fns m) \<union> set INTRINSICS"
      using assms(1) map_of_SomeD [OF f] by (fastforce simp: calls_known_def)
    have "fst ` set (fns m) - set (name # seen) \<subset> fst ` set (fns m) - set seen"
      using name Suc.prems(2) by auto
    then have less: "card (fst ` set (fns m) - set (name # seen)) < n"
      using Suc.prems(1) psubset_card_mono by (metis finite_Diff finite_imageI finite_set less_Suc_eq_le order_less_le_trans)
    have "\<exists>ok p1. all_pure (determine_purity n m (name # seen)) (name # seen) ss p = Inr (ok, p1)
        \<and> set INTRINSICS \<subseteq> dom (map_of p1)"
    proof (rule all_pure_total [where T = "fst ` set (fns m) \<union> set INTRINSICS"
          and Q = "\<lambda>p. set INTRINSICS \<subseteq> dom (map_of p)"])
      show "\<exists>ok p'. determine_purity n m (name # seen) t p = Inr (ok, p') \<and> set INTRINSICS \<subseteq> dom (map_of p')"
        if "t \<notin> set (name # seen)" "set INTRINSICS \<subseteq> dom (map_of p)"
          "t \<in> fst ` set (fns m) \<union> set INTRINSICS" for t p
        using Suc.IH [OF less that(1,3,2)] .
    qed (use ss(2) Suc.prems(4) in auto)
    then obtain ok p1 where "all_pure (determine_purity n m (name # seen)) (name # seen) ss p = Inr (ok, p1)"
        "set INTRINSICS \<subseteq> dom (map_of p1)" by blast
    then show ?thesis using None f ss(1) by (auto simp: update_conv')
  qed (use Suc.prems in auto)
qed simp

text \<open>
  C13: when every block reference and every call target of the model resolves, the purity
  analysis returns: its recursion through the call graph, cyclic or not, is never deeper than
  the number of functions plus one.
\<close>

theorem purity_analysis_terminates:
  assumes "calls_known m"
  shows "\<exists>p. purity_analysis m = Inr p"
proof -
  let ?Q = "\<lambda>p :: purity. set INTRINSICS \<subseteq> dom (map_of p)"
  let ?step = "\<lambda>name p. rbind (determine_purity (length (fns m) + 1) m [] name p) (\<lambda>(_, p). Inr p)"
  have card: "card (fst ` set (fns m) - set []) < length (fns m) + 1"
    using card_length [of "map fst (fns m)"] by (simp add: image_set [symmetric])
  have "set names \<subseteq> fst ` set (fns m) \<Longrightarrow> ?Q p \<Longrightarrow> \<exists>p'. foldR ?step names p = Inr p'" for names p
  proof (induction names arbitrary: p)
    case (Cons name names)
    then obtain ok p1 where "determine_purity (length (fns m) + 1) m [] name p = Inr (ok, p1)" "?Q p1"
      using determine_purity_total [OF assms card, of name p] by auto
    with Cons show ?case by simp
  qed simp
  moreover have "?Q (map (\<lambda>s. (s, False)) INTRINSICS)" by (auto simp: INTRINSICS_def)
  ultimately show ?thesis unfolding purity_analysis_def by simp
qed

theorem purity_analysis_terminates_witness:
  "calls_known sample_model \<and> (\<exists>p. purity_analysis sample_model = Inr p)"
proof -
  have "calls_known sample_model"
    by (simp add: calls_known_def sample_model_def model_new_def sample_line_statements)
  then show ?thesis using purity_analysis_terminates by blast
qed
end
