(* ===== verification/Statement_Semantics.thy ===== *)
theory Statement_Semantics
  imports Purity
begin

text \<open>
  How one statement behaves when its operands are found elsewhere.  \<open>rename_refs\<close> rewrites every
  operand; \<open>exec_rename\<close> says that a renamed statement, run in a state that has the old values
  under the new references, does exactly what the original did.  With the identity renaming it
  says that a statement depends on nothing but its operands.
\<close>

section \<open>Renaming\<close>

fun rename_refs :: "(stmt_id \<Rightarrow> stmt_id) \<Rightarrow> statement \<Rightarrow> statement" where
  "rename_refs p (WriteVariable sy v) = WriteVariable sy (p v)"
| "rename_refs p (ReadRegister t off) = ReadRegister t (p off)"
| "rename_refs p (WriteRegister off v) = WriteRegister (p off) (p v)"
| "rename_refs p (ReadMemory a sz) = ReadMemory (p a) (p sz)"
| "rename_refs p (WriteMemory a v) = WriteMemory (p a) (p v)"
| "rename_refs p (AtomicOperation a b c d) = AtomicOperation (p a) (p b) (p c) (p d)"
| "rename_refs p (WritePc v) = WritePc (p v)"
| "rename_refs p (GetFlags x) = GetFlags (p x)"
| "rename_refs p (UnaryOperation k v) = UnaryOperation k (p v)"
| "rename_refs p (BinaryOperation k l r) = BinaryOperation k (p l) (p r)"
| "rename_refs p (TernaryOperation k a b c) = TernaryOperation k (p a) (p b) (p c)"
| "rename_refs p (ShiftOperation k v n) = ShiftOperation k (p v) (p n)"
| "rename_refs p (Call t args rt) = Call t (map p args) rt"
| "rename_refs p (Cast k t v) = Cast k t (p v)"
| "rename_refs p (BitsCast k t v w) = BitsCast k t (p v) (p w)"
| "rename_refs p (Branch c t f) = Branch (p c) t f"
| "rename_refs p (PhiNode ms) = PhiNode (map (map_prod id p) ms)"
| "rename_refs p (Return v) = Return (map_option p v)"
| "rename_refs p (Select c t f) = Select (p c) (p t) (p f)"
| "rename_refs p (BitExtract v s w) = BitExtract (p v) (p s) (p w)"
| "rename_refs p (BitInsert t v s w) = BitInsert (p t) (p v) (p s) (p w)"
| "rename_refs p (BitReplicate v n) = BitReplicate (p v) (p n)"
| "rename_refs p (ReadElement v i) = ReadElement (p v) (p i)"
| "rename_refs p (AssignElement v x i) = AssignElement (p v) (p x) (p i)"
| "rename_refs p (Panic x) = Panic (p x)"
| "rename_refs p (Assert c) = Assert (p c)"
| "rename_refs p (CreateBits v w) = CreateBits (p v) (p w)"
| "rename_refs p (SizeOf v) = SizeOf (p v)"
| "rename_refs p (MatchesUnion v x) = MatchesUnion (p v) x"
| "rename_refs p (UnwrapUnion v x) = UnwrapUnion (p v) x"
| "rename_refs p (CreateReal n d) = CreateReal (p n) (p d)"
| "rename_refs p (CreateTuple vs) = CreateTuple (map p vs)"
| "rename_refs p (TupleAccess i v) = TupleAccess i (p v)"
| "rename_refs p s = s"

lemma rename_refs_id [simp]: "rename_refs (\<lambda>r. r) s = s"
proof (cases s)
  case (PhiNode ms)
  have "map_prod id (\<lambda>r. r) = (\<lambda>x :: block_id \<times> stmt_id. x)" by (auto simp: fun_eq_iff)
  with PhiNode show ?thesis by simp
qed (simp_all add: option.map_ident)

lemma operands_rename [simp]: "operands (rename_refs p s) = map p (operands s)"
  by (cases s) (auto split: option.splits)

lemma mapR_unwrap_the: "mapR (\<lambda>r. unwrap (m r)) xs = Inr ys \<Longrightarrow> ys = map (\<lambda>r. the (m r)) xs"
  by (induction xs arbitrary: ys) (auto simp: rbind_eq_Inr unwrap_eq_Inr)

lemma import_kind_rename: "import_kind m s = Inr s' \<Longrightarrow> s' = rename_refs (\<lambda>r. the (m r)) s"
  by (cases "(m, s)" rule: import_kind.cases)
    (auto simp: rbind_eq_Inr unwrap_eq_Inr dest!: mapR_unwrap_the split: option.splits)

section \<open>Types under a change of arena\<close>

definition typ_at :: "statement arena \<Rightarrow> stmt_id \<Rightarrow> rtype option res" where
  "typ_at sa r = rbind (arena_get sa r) (statement_typ sa)"

section \<open>Executing a renamed statement\<close>

definition same_store :: "interpreter \<Rightarrow> interpreter \<Rightarrow> bool" where
  "same_store st st' \<longleftrightarrow> locals st' = locals st \<and> regs st' = regs st \<and> flags st' = flags st"

definition values_agree :: "(stmt_id \<Rightarrow> stmt_id) \<Rightarrow> stmt_id set \<Rightarrow> interpreter \<Rightarrow> interpreter \<Rightarrow> bool" where
  "values_agree p R st st' \<longleftrightarrow> (\<forall>r\<in>R. statement_values st' (p r) = statement_values st r)"

lemma resolve_renamed:
  "values_agree p R st st' \<Longrightarrow> r \<in> R \<Longrightarrow> resolve st' (p r) = resolve st r"
  "values_agree p R st st' \<Longrightarrow> r \<in> R \<Longrightarrow> resolve_u64 st' (p r) = resolve_u64 st r"
  by (simp_all add: values_agree_def resolve_def resolve_u64_def)

lemma mapR_map: "mapR f (map g xs) = mapR (\<lambda>x. f (g x)) xs"
  by (induction xs) auto

lemma resolve_list_renamed:
  "values_agree p R st st' \<Longrightarrow> set rs \<subseteq> R \<Longrightarrow> mapR (resolve st') (map p rs) = mapR (resolve st) rs"
  unfolding mapR_map by (rule mapR_cong) (auto simp: resolve_renamed)

lemma eval_value_rename:
  assumes "same_store st st'" and "values_agree p (set (operands s)) st st'"
    and "\<And>r t. r \<in> set (operands s) \<Longrightarrow> typ_at sa r = Inr t \<Longrightarrow> typ_at sa' (p r) = Inr t"
    and "eval_value E sa st s = Inr v"
  shows "eval_value E sa' st' (rename_refs p s) = Inr v"
proof (cases "\<exists>k t x. s = Cast k t x")
  case True
  then obtain k t x where s: "s = Cast k t x" by blast
  have sem: "eval_value E sa st (Cast k t x) =
      rbind (typ_at sa x) (\<lambda>t'. rbind (unwrap t') (\<lambda>source_typ. rbind (resolve st x) (eval_cast E k source_typ t)))"
    for sa st x
    by (simp add: eval_value_def is_read_statement_def is_bits_statement_def eval_arith_def typ_at_def rbind_assoc)
  show ?thesis
    using assms(2-4) unfolding s rename_refs.simps sem
    by (auto simp: rbind_eq_Inr resolve_renamed)
next
  case False
  note r = resolve_renamed [OF assms(2)] resolve_list_renamed [OF assms(2)]
  have "eval_value E sa' st' (rename_refs p s) = eval_value E sa st s"
    using assms(1) False r unfolding same_store_def
    by (cases s) (simp_all add: eval_value_def is_read_statement_def is_bits_statement_def eval_read_def
        eval_arith_def eval_bits_def if_distrib [where f = "resolve st"] if_distrib [where f = "resolve st'"]
        cong: if_cong)
  with assms(4) show ?thesis by simp
qed

text \<open>The statements that do more than compute a value.\<close>

fun is_effect :: "statement \<Rightarrow> bool" where
  "is_effect (TernaryOperation _ _ _ _) = True"
| "is_effect (Call _ _ _) = True"
| "is_effect (WriteVariable _ _) = True"
| "is_effect (WriteRegister _ _) = True"
| "is_effect (WritePc _) = True"
| "is_effect (Jump _) = True"
| "is_effect (Branch _ _ _) = True"
| "is_effect (Return _) = True"
| "is_effect (Panic _) = True"
| "is_effect (Assert _) = True"
| "is_effect _ = False"

lemma exec_value:
  "\<not> is_effect s \<Longrightarrow>
     exec_statement C sa st s = rbind (eval_value (ctx_env C) sa st s) (\<lambda>v. Inr (st, Produced (Some v)))"
  by (cases s) (auto simp: exec_statement_def Let_def)

lemma is_effect_rename [simp]: "is_effect (rename_refs p s) = is_effect s"
  by (cases s) auto

lemma exec_effect_rename:
  assumes "is_effect s" and same: "same_store st st'" and vals: "values_agree p (set (operands s)) st st'"
    and run: "exec_statement C sa st s = Inr (st1, out)"
  shows "exec_statement C sa' st' (rename_refs p s) = Inr (st1\<lparr>statement_values := statement_values st'\<rparr>, out)"
proof -
  note r = resolve_renamed [OF vals] resolve_list_renamed [OF vals]
  have upd: "st' = st\<lparr>statement_values := statement_values st'\<rparr>"
    using same by (cases st; cases st') (simp add: same_store_def)
  obtain sv where sv: "st' = st\<lparr>statement_values := sv\<rparr>" "statement_values st' = sv" using upd by metis
  show ?thesis
    using assms(1) run r unfolding sv(2)
    by (cases s rule: is_effect.cases) (auto simp: exec_statement_def Let_def rbind_eq_Inr split_beta sv(1)
        split: option.splits if_splits ternary_operation_kind.splits)
qed

lemma exec_rename:
  assumes "same_store st st'" and "values_agree p (set (operands s)) st st'"
    and "\<And>r t. r \<in> set (operands s) \<Longrightarrow> typ_at sa r = Inr t \<Longrightarrow> typ_at sa' (p r) = Inr t"
    and "exec_statement C sa st s = Inr (st1, out)"
  shows "exec_statement C sa' st' (rename_refs p s) = Inr (st1\<lparr>statement_values := statement_values st'\<rparr>, out)"
proof (cases "is_effect s")
  case True
  then show ?thesis using exec_effect_rename [OF True assms(1,2,4)] by simp
next
  case False
  then obtain v where v: "eval_value (ctx_env C) sa st s = Inr v" "st1 = st" "out = Produced (Some v)"
    using assms(4) by (auto simp: exec_value rbind_eq_Inr)
  have "st' = st\<lparr>statement_values := statement_values st'\<rparr>"
    using assms(1) by (cases st; cases st') (simp add: same_store_def)
  with eval_value_rename [OF assms(1,2,3) v(1)] False v show ?thesis by (simp add: exec_value)
qed

lemma exec_keeps_values: "exec_statement C sa st s = Inr (st1, out) \<Longrightarrow> statement_values st1 = statement_values st"
proof -
  assume run: "exec_statement C sa st s = Inr (st1, out)"
  have "exec_statement C sa st (rename_refs (\<lambda>r. r) s) = Inr (st1\<lparr>statement_values := statement_values st\<rparr>, out)"
    by (rule exec_rename [OF _ _ _ run]) (auto simp: same_store_def values_agree_def)
  with run show ?thesis by (cases st1) simp
qed

section \<open>Arenas that differ in control statements\<close>

fun is_void :: "statement \<Rightarrow> bool" where
  "is_void (Jump _) = True"
| "is_void (Branch _ _ _) = True"
| "is_void (Return _) = True"
| "is_void (Panic _) = True"
| "is_void (Assert _) = True"
| "is_void _ = False"

lemma void_typ: "is_void s \<Longrightarrow> typ_step rec a s = Inr None" "is_void s \<Longrightarrow> as_constant s = None"
  by (cases s; simp add: typ_step_def)+

definition void_change :: "statement arena \<Rightarrow> statement arena \<Rightarrow> bool" where
  "void_change a a' \<longleftrightarrow> length a' = length a
     \<and> (\<forall>r<length a. a' ! r = a ! r \<or> is_void (a ! r) \<and> is_void (a' ! r))"

lemma void_change_constant:
  "void_change a a' \<Longrightarrow> rbind (arena_get a' r) (\<lambda>s. f (as_constant s)) = rbind (arena_get a r) (\<lambda>s. f (as_constant s))"
  by (auto simp: void_change_def arena_get_def void_typ(2))

lemma typ_step_arena: "void_change a a' \<Longrightarrow> typ_step rec a' s = typ_step rec a s"
  using void_change_constant [of a a' _ "\<lambda>c. case c of Some len \<Rightarrow> typ_of_extract len | None \<Rightarrow> rec _"]
  by (cases s) (simp_all add: typ_step_def)

lemma typ_fuel_void_change:
  assumes "void_change a a'"
  shows "statement_typ_fuel n a' s = statement_typ_fuel n a s"
proof (induction n arbitrary: s)
  case (Suc n)
  have "rbind (arena_get a' r) (statement_typ_fuel n a') = rbind (arena_get a r) (statement_typ_fuel n a)" for r
  proof (cases "r < length a")
    case True
    have void: "statement_typ_fuel n a x = statement_typ_fuel n a y" if "is_void x" "is_void y" for x y
      using that by (cases n) (simp_all add: statement_typ_fuel.simps void_typ(1))
    from True assms show ?thesis
      using void [of "a' ! r" "a ! r"] by (auto simp: void_change_def arena_get_def Suc)
  qed (use assms in \<open>simp add: void_change_def arena_get_def\<close>)
  then show ?case by (simp add: statement_typ_fuel.simps typ_step_arena [OF assms])
qed (simp add: statement_typ_fuel.simps)

lemma typ_at_void_change: "void_change a a' \<Longrightarrow> typ_at a' r = typ_at a r"
proof -
  assume v: "void_change a a'"
  have len: "length a' = length a" using v by (simp add: void_change_def)
  have eq: "statement_typ a' = statement_typ a"
    by (simp add: fun_eq_iff statement_typ_def typ_fuel_void_change [OF v] len)
  have void: "statement_typ a x = Inr None" if "is_void x" for x
    using that by (simp add: statement_typ_def statement_typ_fuel.simps void_typ(1))
  show ?thesis
    using v void unfolding typ_at_def eq by (auto simp: void_change_def arena_get_def)
qed

lemma exec_statement_arena:
  assumes "\<And>r. typ_at sa' r = typ_at sa r" and "exec_statement C sa st s = Inr (st1, out)"
  shows "exec_statement C sa' st s = Inr (st1, out)"
proof -
  have "exec_statement C sa' st (rename_refs (\<lambda>r. r) s) = Inr (st1\<lparr>statement_values := statement_values st\<rparr>, out)"
    by (rule exec_rename [OF _ _ _ assms(2)]) (auto simp: same_store_def values_agree_def assms(1))
  moreover have "st1\<lparr>statement_values := statement_values st\<rparr> = st1"
    using exec_keeps_values [OF assms(2)] by (cases st1) simp
  ultimately show ?thesis by simp
qed
end
