(* ===== verification/Opt_Control.thy ===== *)
theory Opt_Control
  imports Statement_Semantics
begin

text \<open>
  The pass manager of \<open>borealis/borealis/src/rudder/opt/mod.rs\<close> and the two passes that only touch
  control flow: \<open>jump_threading.rs\<close> and \<open>panic_asserter.rs\<close>.  A function pass returns the new
  function and whether it changed anything.  The locale \<open>sound_pass\<close> is the contract of a pass:
  replacing the function in any model that satisfies the invariant refines the model.  It carries
  over to repeating the pass, to running it over all blocks, and to a sequence of passes.
\<close>

type_synonym function_pass = "rfunction \<Rightarrow> (rfunction \<times> bool) res"

section \<open>The pass manager\<close>

text \<open>\<open>while pass.1(ctx, function) { changed = true; }\<close>\<close>

fun repeat_pass :: "nat \<Rightarrow> function_pass \<Rightarrow> rfunction \<Rightarrow> (rfunction \<times> bool) res" where
  "repeat_pass 0 pass f = Inl OutOfFuel"
| "repeat_pass (Suc n) pass f =
     rbind (pass f) (\<lambda>(f, again).
     if again then rbind (repeat_pass n pass f) (\<lambda>(f, _). Inr (f, True)) else Inr (f, False))"

text \<open>\<open>for pass in &passes\<close>\<close>

definition run_passes_once :: "nat \<Rightarrow> function_pass list \<Rightarrow> rfunction \<Rightarrow> (rfunction \<times> bool) res" where
  "run_passes_once n passes f =
     foldR (\<lambda>pass (f, changed). rbind (repeat_pass n pass f) (\<lambda>(f, c). Inr (f, changed \<or> c)))
       passes (f, False)"

text \<open>\<open>while changed { changed = false; for pass in &passes { ... } }\<close>\<close>

fun optimise_function :: "nat \<Rightarrow> function_pass list \<Rightarrow> rfunction \<Rightarrow> rfunction res" where
  "optimise_function 0 passes f = Inl OutOfFuel"
| "optimise_function (Suc n) passes f =
     rbind (run_passes_once n passes f) (\<lambda>(f, changed).
     if changed then optimise_function n passes f else Inr f)"

text \<open>
  \<open>run_function_passes\<close>: every function of the model, each on its own, so the order in which the
  parallel iterator visits them does not matter.
\<close>

definition run_function_passes :: "nat \<Rightarrow> function_pass list \<Rightarrow> model \<Rightarrow> model res" where
  "run_function_passes n passes m =
     rbind (mapR (\<lambda>(name, f). rbind (optimise_function n passes f) (\<lambda>f. Inr (name, f))) (fns m)) (\<lambda>fs.
     Inr (m\<lparr>fns := fs\<rparr>))"

text \<open>\<open>for block in f.block_iter().collect() { changed |= run_on_block(f, block); }\<close>\<close>

definition on_every_block :: "(block_id \<Rightarrow> function_pass) \<Rightarrow> function_pass" where
  "on_every_block run_on_block f =
     rbind (function_blocks f) (\<lambda>bs.
     foldR (\<lambda>b (f, changed). rbind (run_on_block b f) (\<lambda>(f, c). Inr (f, changed \<or> c))) bs (f, False))"

section \<open>Jump threading\<close>

definition target_for_threadable :: "rfunction \<Rightarrow> block_id \<Rightarrow> block_id option res" where
  "target_for_threadable f block_ref =
     rbind (arena_get (block_arena f) block_ref) (\<lambda>b.
     if block_len b = 1 then
       rbind (unwrap (terminator_statement b)) (\<lambda>t. rbind (arena_get (statement_arena b) t) (\<lambda>s.
       Inr (case s of Jump target \<Rightarrow> Some target | _ \<Rightarrow> None)))
     else Inr None)"

text \<open>\<open>r.get_mut(block_ref.get_mut(f.arena_mut()).arena_mut()).replace(s)\<close>\<close>

definition replace_statement :: "rfunction \<Rightarrow> block_id \<Rightarrow> stmt_id \<Rightarrow> statement \<Rightarrow> rfunction res" where
  "replace_statement f b r s =
     rbind (arena_modify (block_arena f) b (\<lambda>blk.
       rbind (arena_set (statement_arena blk) r s) (\<lambda>sa. Inr (blk\<lparr>statement_arena := sa\<rparr>)))) (\<lambda>ba.
     Inr (f\<lparr>block_arena := ba\<rparr>))"

definition thread_block :: "block_id \<Rightarrow> function_pass" where
  "thread_block block_ref f =
     rbind (arena_get (block_arena f) block_ref) (\<lambda>b. rbind (unwrap (terminator_statement b)) (\<lambda>t.
     rbind (arena_get (statement_arena b) t) (\<lambda>s.
     case s of
       Jump target \<Rightarrow>
         rbind (target_for_threadable f target) (\<lambda>thread_to.
         case thread_to of
           Some thread_to \<Rightarrow> rbind (replace_statement f block_ref t (Jump thread_to)) (\<lambda>f. Inr (f, True))
         | None \<Rightarrow> Inr (f, False))
     | Branch condition true_target false_target \<Rightarrow>
         rbind (target_for_threadable f true_target) (\<lambda>true_to.
         rbind (target_for_threadable f false_target) (\<lambda>false_to.
         if true_to \<noteq> None \<or> false_to \<noteq> None then
           rbind (replace_statement f block_ref t
                    (Branch condition (case true_to of Some x \<Rightarrow> x | None \<Rightarrow> true_target)
                       (case false_to of Some x \<Rightarrow> x | None \<Rightarrow> false_target))) (\<lambda>f. Inr (f, True))
         else Inr (f, False)))
     | _ \<Rightarrow> Inr (f, False))))"

definition jump_threading :: function_pass where
  "jump_threading = on_every_block thread_block"

section \<open>Panic assertion\<close>

text \<open>The pass looks at the terminator of each block and changes nothing yet.\<close>

definition panic_assert_block :: "block_id \<Rightarrow> function_pass" where
  "panic_assert_block b f =
     rbind (arena_get (block_arena f) b) (\<lambda>blk.
     case terminator_statement blk of
       Some t \<Rightarrow> rbind (arena_get (statement_arena blk) t) (\<lambda>_. Inr (f, False))
     | None \<Rightarrow> Inr (f, False))"

definition panic_asserter :: function_pass where
  "panic_asserter = on_every_block panic_assert_block"

section \<open>The contract of a pass\<close>

definition pass_sound :: "rust_env \<Rightarrow> (model \<Rightarrow> bool) \<Rightarrow> function_pass \<Rightarrow> bool" where
  "pass_sound E okay pass \<longleftrightarrow>
     (\<forall>m name f f' c. okay m \<longrightarrow> map_of (fns m) name = Some f \<longrightarrow> pass f = Inr (f', c)
        \<longrightarrow> model_refines E m (update_function m name f') \<and> okay (update_function m name f'))"

lemma pass_soundD:
  "pass_sound E okay pass \<Longrightarrow> okay m \<Longrightarrow> map_of (fns m) name = Some f \<Longrightarrow> pass f = Inr (f', c)
   \<Longrightarrow> model_refines E m (update_function m name f') \<and> okay (update_function m name f')"
  by (auto simp: pass_sound_def)

text \<open>Two sound passes in a row.\<close>

lemma refines_then:
  assumes "model_refines E m (update_function m name f') \<and> okay (update_function m name f')"
    and "\<And>m. okay m \<Longrightarrow> map_of (fns m) name = Some f'
           \<Longrightarrow> model_refines E m (update_function m name f'') \<and> okay (update_function m name f'')"
  shows "model_refines E m (update_function m name f'') \<and> okay (update_function m name f'')"
  using assms(1) assms(2) [of "update_function m name f'"] model_refines_trans by fastforce

lemma update_function_same: "map_of (fns m) name = Some f \<Longrightarrow> update_function m name f = m"
proof -
  have "map_of xs name = Some f \<Longrightarrow> AList.update name f xs = xs" for xs
    by (induction xs) auto
  then show "map_of (fns m) name = Some f \<Longrightarrow> update_function m name f = m"
    by (simp add: update_function_def)
qed

locale sound_pass =
  fixes E :: rust_env and okay :: "model \<Rightarrow> bool" and pass :: function_pass
  assumes sound: "okay m \<Longrightarrow> map_of (fns m) name = Some f \<Longrightarrow> pass f = Inr (f', c)
      \<Longrightarrow> model_refines E m (update_function m name f') \<and> okay (update_function m name f')"
begin

lemma is_sound: "pass_sound E okay pass"
  using sound by (auto simp: pass_sound_def)

lemma repeat_sound: "pass_sound E okay (repeat_pass n pass)"
  unfolding pass_sound_def
proof (intro allI impI)
  fix m name f f' c
  assume "okay m" "map_of (fns m) name = Some f" "repeat_pass n pass f = Inr (f', c)"
  then show "model_refines E m (update_function m name f') \<and> okay (update_function m name f')"
  proof (induction n arbitrary: m f c)
    case (Suc n)
    obtain f1 again where first: "pass f = Inr (f1, again)"
        "(if again then rbind (repeat_pass n pass f1) (\<lambda>(f, _). Inr (f, True)) else Inr (f1, False)) = Inr (f', c)"
      using Suc.prems(3) by (auto simp: rbind_eq_Inr)
    note one = sound [OF Suc.prems(1,2) first(1)]
    show ?case
    proof (cases again)
      case True
      then obtain c' where rest: "repeat_pass n pass f1 = Inr (f', c')"
        using first(2) by (auto simp: rbind_eq_Inr)
      show ?thesis by (rule refines_then [OF one Suc.IH [OF _ _ rest]])
    qed (use first one in auto)
  qed simp
qed

end

lemma fold_passes_sound:
  assumes "\<forall>x\<in>set xs. pass_sound E okay (step x)"
    and "foldR (\<lambda>x (f, changed). rbind (step x f) (\<lambda>(f, c). Inr (f, changed \<or> c))) xs (f, ch) = Inr (f', c)"
    and "okay m" and "map_of (fns m) name = Some f"
  shows "model_refines E m (update_function m name f') \<and> okay (update_function m name f')"
  using assms
proof (induction xs arbitrary: f ch m)
  case Nil
  then show ?case by (simp add: update_function_same)
next
  case (Cons x xs)
  then obtain f1 c1 where run: "step x f = Inr (f1, c1)"
      "foldR (\<lambda>x (f, changed). rbind (step x f) (\<lambda>(f, c). Inr (f, changed \<or> c))) xs (f1, ch \<or> c1) = Inr (f', c)"
    by (auto simp: rbind_eq_Inr)
  have x: "pass_sound E okay (step x)" and xs: "\<forall>x\<in>set xs. pass_sound E okay (step x)"
    using Cons.prems(1) by auto
  show ?case
    by (rule refines_then [OF pass_soundD [OF x Cons.prems(3,4) run(1)] Cons.IH [OF xs run(2)]])
qed

lemma on_every_block_sound:
  "(\<And>b. pass_sound E okay (run_on_block b)) \<Longrightarrow> pass_sound E okay (on_every_block run_on_block)"
  unfolding pass_sound_def [of _ _ "on_every_block run_on_block"] on_every_block_def
  by (auto simp: rbind_eq_Inr dest: fold_passes_sound [rotated])

lemma repeat_pass_sound: "pass_sound E okay pass \<Longrightarrow> pass_sound E okay (repeat_pass n pass)"
  by (rule sound_pass.repeat_sound) (unfold_locales, rule pass_soundD)

lemma run_passes_once_sound:
  "\<forall>pass\<in>set passes. pass_sound E okay pass \<Longrightarrow> pass_sound E okay (run_passes_once n passes)"
  unfolding pass_sound_def [of _ _ "run_passes_once n passes"] run_passes_once_def
  by (intro allI impI, rule fold_passes_sound) (auto intro: repeat_pass_sound)

lemma optimise_function_sound:
  assumes "\<forall>pass\<in>set passes. pass_sound E okay pass"
    and "optimise_function n passes f = Inr f'" and "okay m" and "map_of (fns m) name = Some f"
  shows "model_refines E m (update_function m name f') \<and> okay (update_function m name f')"
  using assms(2-)
proof (induction n arbitrary: f m)
  case (Suc n)
  obtain f1 changed where run: "run_passes_once n passes f = Inr (f1, changed)"
      "(if changed then optimise_function n passes f1 else Inr f1) = Inr f'"
    using Suc.prems(1) by (auto simp: rbind_eq_Inr)
  note one = pass_soundD [OF run_passes_once_sound [OF assms(1)] Suc.prems(2,3) run(1)]
  show ?case
  proof (cases changed)
    case True
    then have rest: "optimise_function n passes f1 = Inr f'" using run(2) by simp
    show ?thesis by (rule refines_then [OF one Suc.IH [OF rest]])
  qed (use run one in auto)
qed simp

lemma update_function_append:
  "fns m = xs @ (name, f) # ys \<Longrightarrow> name \<notin> fst ` set xs
   \<Longrightarrow> update_function m name f' = m\<lparr>fns := xs @ (name, f') # ys\<rparr>"
proof -
  have "name \<notin> fst ` set xs \<Longrightarrow> AList.update name f' (xs @ (name, f) # ys) = xs @ (name, f') # ys" for xs
    by (induction xs) auto
  then show "fns m = xs @ (name, f) # ys \<Longrightarrow> name \<notin> fst ` set xs
   \<Longrightarrow> update_function m name f' = m\<lparr>fns := xs @ (name, f') # ys\<rparr>"
    by (simp add: update_function_def)
qed

lemma run_function_passes_sound:
  assumes passes: "\<forall>pass\<in>set passes. pass_sound E okay pass" and "okay m" and "distinct (map fst (fns m))"
    and "run_function_passes n passes m = Inr m'"
  shows "model_refines E m m' \<and> okay m'"
proof -
  let ?g = "\<lambda>(name, f). rbind (optimise_function n passes f) (\<lambda>f. Inr (name, f))"
  have "model_refines E m (m\<lparr>fns := xs @ zs\<rparr>) \<and> okay (m\<lparr>fns := xs @ zs\<rparr>)"
    if "fns m = xs @ ys" "distinct (map fst (xs @ ys))" "mapR ?g ys = Inr zs" "okay m" for m xs ys zs
    using that
  proof (induction ys arbitrary: m xs zs)
    case (Cons y ys)
    obtain name f where y: "y = (name, f)" by (cases y)
    obtain f' zs' where run: "optimise_function n passes f = Inr f'" "mapR ?g ys = Inr zs'" "zs = (name, f') # zs'"
      using Cons.prems(3) y by (auto simp: rbind_eq_Inr)
    have "map_of xs name = None" using Cons.prems(2) y by (simp add: map_of_eq_None_iff)
    then have m: "map_of (fns m) name = Some f" using Cons.prems(1) y by (simp add: map_add_def)
    have upd: "update_function m name f' = m\<lparr>fns := xs @ (name, f') # ys\<rparr>"
      using Cons.prems(1,2) y by (intro update_function_append) auto
    note one = optimise_function_sound [OF passes run(1) Cons.prems(4) m, unfolded upd]
    have "model_refines E (m\<lparr>fns := xs @ (name, f') # ys\<rparr>) (m\<lparr>fns := (xs @ [(name, f')]) @ zs'\<rparr>)
        \<and> okay (m\<lparr>fns := (xs @ [(name, f')]) @ zs'\<rparr>)"
      using Cons.IH [of "m\<lparr>fns := xs @ (name, f') # ys\<rparr>" "xs @ [(name, f')]" zs'] Cons.prems(2) run(2) one y
      by simp
    then show ?case using one run(3) model_refines_trans by simp blast
  next
    case Nil
    then have eq: "m\<lparr>fns := xs @ zs\<rparr> = m" by (cases m) auto
    show ?case unfolding eq using Nil by simp
  qed
  from this [of m "[]" "fns m"] assms(2-) show ?thesis
    by (auto simp: run_function_passes_def rbind_eq_Inr)
qed

section \<open>The passes are sound\<close>

lemma threadable_single_jump: "target_for_threadable f t = Inr (Some t') \<Longrightarrow> single_jump f t t'"
proof -
  assume run: "target_for_threadable f t = Inr (Some t')"
  then obtain blk r s where blk: "arena_get (block_arena f) t = Inr blk" "block_len blk = 1"
      "terminator_statement blk = Some r" "arena_get (statement_arena blk) r = Inr s"
      "(case s of Jump target \<Rightarrow> Some target | _ \<Rightarrow> None) = Some t'"
    by (auto simp: target_for_threadable_def rbind_eq_Inr unwrap_eq_Inr split: if_splits)
  then have "statements blk = [r]"
    by (cases "statements blk") (auto simp: block_len_def terminator_statement_def split: if_splits)
  moreover have "s = Jump t'" using blk(5) by (cases s) auto
  ultimately show ?thesis using blk by (auto simp: single_jump_def)
qed

definition follows :: "rfunction \<Rightarrow> block_id \<Rightarrow> block_id \<Rightarrow> bool" where
  "follows f t t' \<longleftrightarrow> t' = t \<or> single_jump f t t'"

text \<open>A control statement and the same one with its targets threaded.\<close>

definition retargeted :: "rfunction \<Rightarrow> statement \<Rightarrow> statement \<Rightarrow> bool" where
  "retargeted f s s' \<longleftrightarrow>
     (\<exists>t t'. s = Jump t \<and> s' = Jump t' \<and> follows f t t')
     \<or> (\<exists>c t e t' e'. s = Branch c t e \<and> s' = Branch c t' e' \<and> follows f t t' \<and> follows f e e')"

lemma exec_retargeted:
  assumes "retargeted f s s'" and "exec_statement C sa st s = Inr (st1, out)"
  shows "\<exists>res res'. out = Finished res \<and> exec_statement C sa' st s' = Inr (st1, Finished res') \<and> same_destination f res res'"
  using assms(1) unfolding retargeted_def
proof (elim disjE exE conjE)
  fix c t e t' e'
  assume s: "s = Branch c t e" "s' = Branch c t' e'" and to: "follows f t t'" "follows f e e'"
  obtain x where x: "resolve_u64 st c = Inr x" "st1 = st" "out = Finished (NextBlock (if x \<noteq> 0 then t else e))"
    using assms(2) s(1) by (auto simp: exec_statement_def rbind_eq_Inr)
  then have "exec_statement C sa' st s' = Inr (st1, Finished (NextBlock (if x \<noteq> 0 then t' else e')))"
    by (simp add: exec_statement_def s(2))
  with x to show ?thesis by (auto simp: follows_def)
qed (use assms(2) in \<open>auto simp: exec_statement_def follows_def\<close>)

lemma exec_statements_retargeted:
  assumes "retargeted f (sa ! r) s'" and "r < length sa" and "exec_statements C sa rs st = Inr (st1, res)"
  shows "\<exists>res'. exec_statements C (sa[r := s']) rs st = Inr (st1, res') \<and> same_destination f res res'"
  using assms(3)
proof (induction rs arbitrary: st)
  case (Cons x rs)
  have void: "void_change sa (sa[r := s'])"
    using assms(1,2) by (auto simp: void_change_def retargeted_def nth_list_update)
  obtain s st2 out where run: "arena_get sa x = Inr s" "exec_statement C sa st s = Inr (st2, out)"
      "(case out of Finished result \<Rightarrow> Inr (st2, result) | Produced v \<Rightarrow> exec_statements C sa rs (bind_value st2 x v))
        = Inr (st1, res)"
    using Cons.prems by (auto simp: rbind_eq_Inr)
  show ?case
  proof (cases "x = r")
    case True
    then have "s = sa ! r" using run(1) by (simp add: arena_get_Inr)
    then show ?thesis
      using exec_retargeted [OF assms(1), of C sa st st2 out "sa[r := s']"] run True assms(2)
      by (auto simp: arena_get_def)
  next
    case False
    then have get: "arena_get (sa[r := s']) x = Inr s" using run(1) by (auto simp: arena_get_def split: if_splits)
    have "exec_statement C (sa[r := s']) st s = Inr (st2, out)"
      by (rule exec_statement_arena [OF typ_at_void_change [OF void] run(2)])
    then show ?thesis using run(3) get Cons.IH by (cases out) auto
  qed
qed simp

lemma replace_statement_Inr:
  "replace_statement f b r s = Inr f' \<longleftrightarrow>
     b < length (block_arena f) \<and> r < length (statement_arena (block_arena f ! b))
     \<and> f' = f\<lparr>block_arena := (block_arena f)[b := (block_arena f ! b)\<lparr>statement_arena :=
               (statement_arena (block_arena f ! b))[r := s]\<rparr>]\<rparr>"
  by (auto simp: replace_statement_def rbind_eq_Inr arena_modify_Inr arena_set_Inr)

lemma clear_same_store: "same_store st st' \<Longrightarrow> st'\<lparr>statement_values := Map.empty\<rparr> = st\<lparr>statement_values := Map.empty\<rparr>"
  by (cases st; cases st') (simp add: same_store_def)

lemma retarget_simulation:
  assumes "replace_statement f b r s' = Inr f'" and "retargeted f (statement_arena (block_arena f ! b) ! r) s'"
  shows "block_simulation (\<lambda>_. True) (\<lambda>_. True) f f' same_store"
proof -
  let ?blk = "block_arena f ! b"
  let ?blk' = "?blk\<lparr>statement_arena := (statement_arena ?blk)[r := s']\<rparr>"
  have rep: "b < length (block_arena f)" "r < length (statement_arena ?blk)"
      "f' = f\<lparr>block_arena := (block_arena f)[b := ?blk']\<rparr>"
    using assms(1) by (auto simp: replace_statement_Inr)
  show ?thesis
  proof
    fix C x blk res and st st' st1 :: interpreter
    assume "same_store st st'"
      and get: "arena_get (block_arena f) x = Inr blk" and run: "exec_block C blk st = Inr (st1, res)"
    then have same: "st'\<lparr>statement_values := Map.empty\<rparr> = st\<lparr>statement_values := Map.empty\<rparr>"
      by (intro clear_same_store)
    have "\<exists>res'. exec_block C (if x = b then ?blk' else blk) st' = Inr (st1, res') \<and> same_destination f res res'"
    proof (cases "x = b")
      case True
      with get have "blk = ?blk" by (simp add: arena_get_Inr)
      then show ?thesis
        using exec_statements_retargeted [OF assms(2) rep(2) run [unfolded exec_block_def \<open>blk = ?blk\<close>]] True
        by (simp add: exec_block_def same)
    qed (use run in \<open>simp add: exec_block_def same\<close>)
    moreover have "arena_get (block_arena f') x = Inr (if x = b then ?blk' else blk)"
      using get rep by (auto simp: arena_get_def split: if_splits)
    ultimately show "\<exists>blk' st1' res'. arena_get (block_arena f') x = Inr blk' \<and> exec_block C blk' st' = Inr (st1', res')
        \<and> same_store st1 st1' \<and> regs st1' = regs st1 \<and> same_destination f res res'"
      by (auto simp: same_store_def)
  qed (simp_all add: rep(3) same_store_def clear_values_def)
qed

lemma thread_block_cases:
  assumes "thread_block b f = Inr (f', c)"
  shows "f' = f \<or> (\<exists>r s'. replace_statement f b r s' = Inr f' \<and> retargeted f (statement_arena (block_arena f ! b) ! r) s')"
proof -
  obtain blk t s where t: "arena_get (block_arena f) b = Inr blk" "terminator_statement blk = Some t"
      "arena_get (statement_arena blk) t = Inr s"
    using assms by (auto simp: thread_block_def rbind_eq_Inr unwrap_eq_Inr)
  then have s: "s = statement_arena (block_arena f ! b) ! t" by (simp add: arena_get_Inr)
  have to: "target_for_threadable f x = Inr y \<Longrightarrow> follows f x (case y of Some z \<Rightarrow> z | None \<Rightarrow> x)" for x y
    using threadable_single_jump by (auto simp: follows_def split: option.splits)
  show ?thesis
  proof (cases s)
    case (Jump x)
    obtain y where y: "target_for_threadable f x = Inr y"
        "(case y of Some z \<Rightarrow> rbind (replace_statement f b t (Jump z)) (\<lambda>f. Inr (f, True)) | None \<Rightarrow> Inr (f, False)) = Inr (f', c)"
      using assms t Jump by (auto simp: thread_block_def rbind_eq_Inr)
    then show ?thesis
      using to [OF y(1)] Jump s by (cases y) (auto simp: rbind_eq_Inr retargeted_def)
  next
    case (Branch cond x z)
    let ?s' = "\<lambda>y w. Branch cond (case y of Some u \<Rightarrow> u | None \<Rightarrow> x) (case w of Some u \<Rightarrow> u | None \<Rightarrow> z)"
    obtain y w where y: "target_for_threadable f x = Inr y" "target_for_threadable f z = Inr w"
        "(if y \<noteq> None \<or> w \<noteq> None then rbind (replace_statement f b t (?s' y w)) (\<lambda>f. Inr (f, True)) else Inr (f, False)) = Inr (f', c)"
      using assms t Branch by (auto simp: thread_block_def rbind_eq_Inr)
    have "retargeted f (statement_arena (block_arena f ! b) ! t) (?s' y w)"
      using to [OF y(1)] to [OF y(2)] Branch s by (auto simp: retargeted_def)
    then show ?thesis using y(3) by (auto simp: rbind_eq_Inr split: if_splits)
  qed (use assms t in \<open>auto simp: thread_block_def\<close>)
qed

lemma thread_block_refines:
  assumes "map_of (fns m) name = Some f" and "thread_block b f = Inr (f', c)"
  shows "model_refines E m (update_function m name f')"
  using thread_block_cases [OF assms(2)] update_function_same [OF assms(1)]
    block_simulation.simulates [OF retarget_simulation assms(1)] by auto

lemma thread_block_sound: "pass_sound E (\<lambda>_. True) (thread_block b)"
  using thread_block_refines by (auto simp: pass_sound_def)

interpretation jump_threading_pass: sound_pass E "\<lambda>_. True" jump_threading for E :: rust_env
  using pass_soundD [OF on_every_block_sound [OF thread_block_sound]]
  by unfold_locales (simp add: jump_threading_def)

interpretation panic_asserter_pass: sound_pass E okay panic_asserter for E :: rust_env and okay
proof -
  have "pass_sound E okay (panic_assert_block b)" for b
    by (auto simp: pass_sound_def panic_assert_block_def rbind_eq_Inr update_function_same split: option.splits)
  then show "sound_pass E okay panic_asserter"
    using pass_soundD [OF on_every_block_sound, of E okay panic_assert_block]
    by unfold_locales (simp add: panic_asserter_def)
qed

text \<open>
  C1: threading jumps through blocks that only jump does not change what a function computes:
  after any number of runs of the pass on any function of a model, every call that returned
  before, of any function, returns the same value and leaves the same registers.
\<close>

theorem jump_threading_sound:
  assumes "map_of (fns m) name = Some f" and "repeat_pass n jump_threading f = Inr (f', c)"
  shows "model_refines E m (update_function m name f')"
  using pass_soundD [OF jump_threading_pass.repeat_sound _ assms] by simp

definition sample_chain :: rfunction where
  "sample_chain =
     \<lparr>return_type = None, parameters = [], fn_name = ''chain'', local_variables = [],
      block_arena = [\<lparr>statement_arena = [Constant (UnsignedInteger 7 8), Jump 1], statements = [0, 1]\<rparr>,
                     \<lparr>statement_arena = [Jump 2], statements = [0]\<rparr>,
                     \<lparr>statement_arena = [Return None], statements = [0]\<rparr>],
      entry_block = 0\<rparr>"

theorem jump_threading_sound_witness:
  "\<exists>f' c. repeat_pass 3 jump_threading sample_chain = Inr (f', c) \<and> c \<and> f' \<noteq> sample_chain
     \<and> model_refines sample_env (model_new [(''chain'', sample_chain)] [])
          (update_function (model_new [(''chain'', sample_chain)] []) ''chain'' f')"
proof -
  have m: "map_of (fns (model_new [(''chain'', sample_chain)] [])) ''chain'' = Some sample_chain"
    by (simp add: model_new_def)
  obtain f' c where run: "repeat_pass 3 jump_threading sample_chain = Inr (f', c)" "c" "f' \<noteq> sample_chain"
    by (simp add: numeral_3_eq_3 jump_threading_def on_every_block_def function_blocks_def block_iter_def
        sample_chain_def arena_get_def targets_def live_statements_def thread_block_def terminator_statement_def
        target_for_threadable_def block_len_def replace_statement_def arena_modify_def arena_set_def)
  show ?thesis using jump_threading_sound [OF m run(1)] run by blast
qed

end
