(* ===== verification/Opt_Dead.thy ===== *)
theory Opt_Dead
  imports Opt_Control
begin

text \<open>
  The passes that remove code nothing depends on: \<open>dead_stmt_elimination.rs\<close>,
  \<open>dead_write_elimination.rs\<close> and \<open>dead_symbol_elimination.rs\<close>.
\<close>

section \<open>Dead statements\<close>

fun first_dead :: "purity \<Rightarrow> block \<Rightarrow> stmt_use_map \<Rightarrow> stmt_id list \<Rightarrow> stmt_id option res" where
  "first_dead p b sua [] = Inr None"
| "first_dead p b sua (stmt # rest) =
     rbind (is_dead (is_pure p) b sua stmt) (\<lambda>dead.
     if dead then Inr (Some stmt) else first_dead p b sua rest)"

definition dead_stmt_block :: "purity \<Rightarrow> block_id \<Rightarrow> function_pass" where
  "dead_stmt_block p b f =
     rbind (arena_get (block_arena f) b) (\<lambda>blk. rbind (statement_use_analysis blk) (\<lambda>sua.
     rbind (first_dead p blk sua (statements blk)) (\<lambda>dead.
     case dead of
       None \<Rightarrow> Inr (f, False)
     | Some stmt \<Rightarrow>
         rbind (arena_modify (block_arena f) b (\<lambda>blk. kill_statement blk stmt)) (\<lambda>ba.
         Inr (f\<lparr>block_arena := ba\<rparr>, True)))))"

definition dead_stmt_elimination :: "purity \<Rightarrow> function_pass" where
  "dead_stmt_elimination p = on_every_block (dead_stmt_block p)"

section \<open>Dead writes\<close>

definition kill_in_function :: "stmt_id \<times> block_id \<Rightarrow> rfunction \<Rightarrow> rfunction res" where
  "kill_in_function w f =
     (case w of (stmt, b) \<Rightarrow>
        rbind (arena_modify (block_arena f) b (\<lambda>blk. kill_statement blk stmt)) (\<lambda>ba.
        Inr (f\<lparr>block_arena := ba\<rparr>)))"

definition dead_write_symbol :: "symbol_use_analysis \<Rightarrow> symbol \<Rightarrow> function_pass" where
  "dead_write_symbol dfa sy f =
     (if sym_name sy = ''return'' then Inr (f, False)
      else if symbol_has_reads dfa sy then Inr (f, False)
      else if \<not> symbol_has_writes dfa sy then Inr (f, False)
      else rbind (get_symbol_writes dfa sy) (\<lambda>ws.
           rbind (foldR kill_in_function ws f) (\<lambda>f. Inr (f, ws \<noteq> []))))"

definition dead_write_elimination :: function_pass where
  "dead_write_elimination f =
     rbind (symbol_use_analysis_new f) (\<lambda>dfa.
     foldR (\<lambda>sy (f, changed). rbind (dead_write_symbol dfa sy f) (\<lambda>(f, c). Inr (f, changed \<or> c)))
       (local_variable_symbols f) (f, False))"

section \<open>Dead symbols\<close>

definition dead_symbol_step :: "symbol_use_analysis \<Rightarrow> symbol \<Rightarrow> rfunction \<times> bool \<Rightarrow> rfunction \<times> bool" where
  "dead_symbol_step dfa sy fc =
     (case fc of (f, changed) \<Rightarrow> if is_symbol_dead dfa sy then (remove_local_variable f sy, True) else (f, changed))"

definition dead_symbol_elimination :: function_pass where
  "dead_symbol_elimination f =
     rbind (symbol_use_analysis_new f) (\<lambda>dfa.
     Inr (fold (dead_symbol_step dfa) (local_variable_symbols f) (f, False)))"

section \<open>Statements and flags\<close>

fun is_get_flags :: "statement \<Rightarrow> bool" where
  "is_get_flags (GetFlags _) = True"
| "is_get_flags _ = False"

fun is_ternary :: "statement \<Rightarrow> bool" where
  "is_ternary (TernaryOperation _ _ _ _) = True"
| "is_ternary _ = False"

text \<open>
  A block in which every \<open>GetFlags\<close> reads the flags of the operation it names: that operation is
  the last one before it, in the same block, that sets them.
\<close>

fun flags_placed :: "statement arena \<Rightarrow> stmt_id option \<Rightarrow> stmt_id list \<Rightarrow> bool" where
  "flags_placed sa cur [] = True"
| "flags_placed sa cur (r # rs) =
     (if is_get_flags (sa ! r) then cur = Some (hd (operands (sa ! r))) \<and> flags_placed sa cur rs
      else flags_placed sa (if is_ternary (sa ! r) then Some r else cur) rs)"


fun reads_variable :: "string set \<Rightarrow> statement \<Rightarrow> bool" where
  "reads_variable D (ReadVariable sy) = (sym_name sy \<in> D)"
| "reads_variable D _ = False"

lemma reads_variable_empty [simp]: "\<not> reads_variable {} s"
  by (cases s) auto

definition agree_outside :: "'a set \<Rightarrow> ('a \<rightharpoonup> 'b) \<Rightarrow> ('a \<rightharpoonup> 'b) \<Rightarrow> bool" where
  "agree_outside D f g \<longleftrightarrow> (\<forall>x. x \<notin> D \<longrightarrow> g x = f x)"

lemma eval_value_store:
  assumes "\<not> is_get_flags s" and "\<not> reads_variable D s" and "agree_outside D (locals st) ls"
  shows "eval_value E sa (st\<lparr>locals := ls, flags := k\<rparr>) s = eval_value E sa st s"
proof -
  have "resolve (st\<lparr>locals := ls, flags := k\<rparr>) = resolve st" "resolve_u64 (st\<lparr>locals := ls, flags := k\<rparr>) = resolve_u64 st"
    by (simp_all add: fun_eq_iff resolve_def resolve_u64_def)
  with assms show ?thesis
    by (cases s) (simp_all add: eval_value_def is_read_statement_def is_bits_statement_def
        eval_read_def eval_arith_def eval_bits_def agree_outside_def cong: if_cong)
qed

lemma exec_other_store:
  assumes "\<not> is_get_flags s" and "\<not> reads_variable D s" and "agree_outside D (locals st) ls"
    and "exec_statement C sa st s = Inr (st1, out)"
  shows "\<exists>ls1. exec_statement C sa (st\<lparr>locals := ls, flags := k\<rparr>) s
        = Inr (st1\<lparr>locals := ls1, flags := if is_ternary s then flags st1 else k\<rparr>, out)
      \<and> agree_outside D (locals st1) ls1"
proof (cases "is_effect s")
  case True
  have r: "resolve (st\<lparr>locals := ls, flags := k\<rparr>) = resolve st" "resolve_u64 (st\<lparr>locals := ls, flags := k\<rparr>) = resolve_u64 st"
    by (simp_all add: fun_eq_iff resolve_def resolve_u64_def)
  from True assms r show ?thesis
    by (cases st; cases s rule: is_effect.cases) (auto simp: exec_statement_def Let_def split_beta agree_outside_def
        elim!: rbind_InrE split: option.splits if_splits ternary_operation_kind.splits)
next
  case False
  then have "\<not> is_ternary s" by (cases s) auto
  with assms False eval_value_store [OF assms(1-3)] show ?thesis
    by (auto simp: exec_value rbind_eq_Inr intro!: exI [of _ ls])
qed

lemma get_flags_operand: "is_get_flags s \<Longrightarrow> hd (operands s) \<in> set (operands s)"
  by (cases s) auto

lemma get_flags_not_ternary: "is_get_flags s \<Longrightarrow> \<not> is_ternary s"
  by (cases s) auto

lemma exec_keeps_flags: "\<not> is_ternary s \<Longrightarrow> exec_statement C sa st s = Inr (st1, out) \<Longrightarrow> flags st1 = flags st"
  by (cases "is_effect s"; cases s rule: is_effect.cases)
    (auto simp: exec_value rbind_eq_Inr exec_statement_def Let_def split: if_splits option.splits)

text \<open>One statement that uses nothing of what the two states disagree on.\<close>

lemma exec_ignoring:
  assumes run: "exec_statement C sa st s = Inr (st1, out)" and R: "R \<inter> set (operands s) = {}"
    and D: "\<not> reads_variable D s" and sv: "agree_outside R (statement_values st) sv"
    and ls: "agree_outside D (locals st) ls" and k: "is_get_flags s \<Longrightarrow> k = flags st"
  shows "\<exists>ls1. exec_statement C sa (st\<lparr>locals := ls, statement_values := sv, flags := k\<rparr>) s
     = Inr (st1\<lparr>locals := ls1, statement_values := sv, flags := if is_ternary s then flags st1 else k\<rparr>, out)
     \<and> agree_outside D (locals st1) ls1"
proof -
  let ?sv = "st\<lparr>statement_values := sv\<rparr>"
  have "values_agree (\<lambda>x. x) (set (operands s)) st ?sv"
    using R sv by (auto simp: values_agree_def agree_outside_def)
  then have v: "exec_statement C sa ?sv s = Inr (st1\<lparr>statement_values := sv\<rparr>, out)"
    using exec_rename [OF _ _ _ run, of ?sv "\<lambda>x. x" sa] by (simp add: same_store_def)
  show ?thesis
  proof (cases "is_get_flags s")
    case True
    then have "st1 = st" "out = Produced (Some (UnsignedIntegerV (word_of_nat (flags st)) 4))"
        "exec_statement C sa (st\<lparr>locals := ls, statement_values := sv, flags := k\<rparr>) s
          = Inr (st\<lparr>locals := ls, statement_values := sv, flags := k\<rparr>, out)"
      using run k [OF True] by (cases s; auto simp: exec_statement_def Let_def rbind_eq_Inr eval_value_def
          is_read_statement_def eval_read_def)+
    with get_flags_not_ternary [OF True] ls show ?thesis by auto
  next
    case False
    have "agree_outside D (locals ?sv) ls" using ls by simp
    from exec_other_store [OF False D this v, of k] obtain ls1 where
        e: "exec_statement C sa (?sv\<lparr>locals := ls, flags := k\<rparr>) s = Inr (st1\<lparr>statement_values := sv\<rparr>\<lparr>locals := ls1,
              flags := if is_ternary s then flags st1 else k\<rparr>, out)" "agree_outside D (locals st1) ls1"
      by (auto cong: if_cong)
    have "?sv\<lparr>locals := ls, flags := k\<rparr> = st\<lparr>locals := ls, statement_values := sv, flags := k\<rparr>" by (cases st) simp
    moreover have "st1\<lparr>statement_values := sv\<rparr>\<lparr>locals := ls1, flags := j\<rparr>
        = st1\<lparr>locals := ls1, statement_values := sv, flags := j\<rparr>" for j by (cases st1) simp
    ultimately show ?thesis using e by metis
  qed
qed

lemma exec_statements_target:
  "exec_statements C sa rs st = Inr (st', NextBlock t)
   \<Longrightarrow> \<exists>r\<in>set rs. r < length sa \<and> t \<in> set (jump_targets (sa ! r))"
proof (induction rs arbitrary: st)
  case (Cons r rs)
  then obtain s st1 out where s: "arena_get sa r = Inr s" "exec_statement C sa st s = Inr (st1, out)"
      "(case out of Finished result \<Rightarrow> Inr (st1, result) | Produced v \<Rightarrow> exec_statements C sa rs (bind_value st1 r v))
        = Inr (st', NextBlock t)"
    by (auto simp: rbind_eq_Inr)
  then show ?case
    using exec_statement_value [OF s(2)] Cons.IH by (cases out) (auto simp: arena_get_Inr)
qed simp

section \<open>Dropping statements\<close>

inductive drops :: "stmt_id set \<Rightarrow> stmt_id list \<Rightarrow> stmt_id list \<Rightarrow> bool" for K where
  drops_nil: "drops K [] []"
| drops_keep: "drops K rs rs' \<Longrightarrow> drops K (x # rs) (x # rs')"
| drops_here: "x \<in> K \<Longrightarrow> drops K rs rs' \<Longrightarrow> drops K (x # rs) rs'"

lemma drops_refl: "drops K rs rs"
  by (induction rs) (auto intro: drops.intros)

lemma drops_one: "drops {r} (xs @ r # ys) (xs @ ys)"
  by (induction xs) (auto intro: drops.intros drops_refl)

lemma drops_subset: "drops K rs rs' \<Longrightarrow> set rs' \<subseteq> set rs"
  by (induction rule: drops.induct) auto

text \<open>
  A statement whose only effects are its own value, a reference in \<open>R\<close>, and variables in \<open>D\<close>.
\<close>

definition droppable :: "exec_ctx \<Rightarrow> statement arena \<Rightarrow> stmt_id set \<Rightarrow> string set \<Rightarrow> stmt_id \<Rightarrow> bool" where
  "droppable C sa R D r \<longleftrightarrow>
     (\<forall>st st2 out. exec_statement C sa st (sa ! r) = Inr (st2, out) \<longrightarrow>
        (\<exists>v. out = Produced v \<and> (v \<noteq> None \<longrightarrow> r \<in> R)) \<and> regs st2 = regs st
        \<and> agree_outside D (locals st) (locals st2) \<and> (is_ternary (sa ! r) \<longrightarrow> r \<in> R))"

lemma exec_phi_fails: "exec_statement C sa st (PhiNode ms) \<noteq> Inr x"
  by (simp add: exec_value eval_value_def is_read_statement_def is_bits_statement_def eval_arith_def)

text \<open>
  The flags of the two runs: equal when no value is dropped, otherwise equal wherever they are read.
\<close>

definition flags_agree :: "statement arena \<Rightarrow> stmt_id set \<Rightarrow> stmt_id option \<Rightarrow> stmt_id list \<Rightarrow> nat \<Rightarrow> nat \<Rightarrow> bool" where
  "flags_agree sa R cur rs k k' \<longleftrightarrow>
     R = {} \<and> k' = k \<or> flags_placed sa cur rs \<and> (\<forall>x. cur = Some x \<longrightarrow> x \<notin> R \<longrightarrow> k' = k)"

lemma flags_agree_get:
  "flags_agree sa R cur (x # rs) k k' \<Longrightarrow> is_get_flags (sa ! x) \<Longrightarrow> hd (operands (sa ! x)) \<notin> R \<Longrightarrow> k' = k"
  by (auto simp: flags_agree_def)

lemma flags_agree_step:
  assumes "flags_agree sa R cur (x # rs) k k'" and "\<not> is_ternary (sa ! x) \<Longrightarrow> k2 = k"
  shows "flags_agree sa R (if is_ternary (sa ! x) then Some x else cur) rs k2 (if is_ternary (sa ! x) then k2 else k')"
    and "(is_ternary (sa ! x) \<Longrightarrow> x \<in> R) \<Longrightarrow> flags_agree sa R (if is_ternary (sa ! x) then Some x else cur) rs k2 k'"
  using assms get_flags_not_ternary [of "sa ! x"] by (auto simp: flags_agree_def split: if_splits)

lemma exec_dropping:
  assumes "drops K rs rs'" and "exec_statements C sa rs st = Inr (st1, res)"
    and "\<forall>r\<in>K. droppable C sa R D r"
    and "\<forall>x\<in>set rs'. R \<inter> set (analysed_operands (sa ! x)) = {} \<and> \<not> reads_variable D (sa ! x)"
    and "flags_agree sa R cur rs (flags st) k" and "agree_outside R (statement_values st) sv"
    and "agree_outside D (locals st) ls"
  shows "\<exists>st1'. exec_statements C sa rs' (st\<lparr>locals := ls, statement_values := sv, flags := k\<rparr>) = Inr (st1', res)
    \<and> agree_outside D (locals st1) (locals st1') \<and> regs st1' = regs st1
    \<and> (R = {} \<longrightarrow> k = flags st \<longrightarrow> flags st1' = flags st1)"
  using assms(1,2,4-)
proof (induction arbitrary: st sv k cur ls rule: drops.induct)
  case (drops_keep rs rs' x)
  let ?st' = "st\<lparr>locals := ls, statement_values := sv, flags := k\<rparr>"
  obtain s st2 out where run: "arena_get sa x = Inr s" "exec_statement C sa st s = Inr (st2, out)"
      "(case out of Finished result \<Rightarrow> Inr (st2, result) | Produced v \<Rightarrow> exec_statements C sa rs (bind_value st2 x v))
        = Inr (st1, res)"
    using drops_keep.prems(1) by (auto simp: rbind_eq_Inr)
  have s: "s = sa ! x" using run(1) by (simp add: arena_get_Inr)
  have "s \<noteq> PhiNode ms" for ms using exec_phi_fails run(2) by metis
  then have "analysed_operands s = operands s" by (rule analysed_operands_eq)
  then have R: "R \<inter> set (operands s) = {}" and D: "\<not> reads_variable D s"
    using drops_keep.prems(2) s by simp_all
  have k: "k = flags st" if "is_get_flags s"
    using flags_agree_get [OF drops_keep.prems(3)] that get_flags_operand [OF that] R unfolding s by blast
  let ?k = "if is_ternary s then flags st2 else k"
  obtain ls1 where step: "exec_statement C sa ?st' s = Inr (st2\<lparr>locals := ls1, statement_values := sv, flags := ?k\<rparr>, out)"
      "agree_outside D (locals st2) ls1"
    using exec_ignoring [OF run(2) R D drops_keep.prems(4,5) k] by blast
  show ?case
  proof (cases out)
    case (Finished result)
    with run step exec_keeps_flags [OF _ run(2)] show ?thesis by auto
  next
    case (Produced v)
    let ?sv = "case v of None \<Rightarrow> sv | Some u \<Rightarrow> sv(x \<mapsto> u)"
    let ?cur = "if is_ternary s then Some x else cur"
    have bind: "bind_value (st2\<lparr>locals := ls1, statement_values := sv, flags := ?k\<rparr>) x v
        = (bind_value st2 x v)\<lparr>locals := ls1, statement_values := ?sv, flags := ?k\<rparr>"
      by (cases st2) (simp add: bind_value_def split: option.splits)
    have vals: "agree_outside R (statement_values (bind_value st2 x v)) ?sv"
      using drops_keep.prems(4) exec_keeps_values [OF run(2)]
      by (auto simp: bind_value_def agree_outside_def split: option.splits)
    have fl: "flags_agree sa R ?cur rs (flags (bind_value st2 x v)) ?k"
      using flags_agree_step(1) [OF drops_keep.prems(3)] exec_keeps_flags [OF _ run(2)] unfolding s by simp
    have rest: "exec_statements C sa rs (bind_value st2 x v) = Inr (st1, res)" using run(3) Produced by simp
    have ops: "\<forall>x\<in>set rs'. R \<inter> set (analysed_operands (sa ! x)) = {} \<and> \<not> reads_variable D (sa ! x)"
      using drops_keep.prems(2) by simp
    have lo: "agree_outside D (locals (bind_value st2 x v)) ls1" using step(2) by simp
    have "\<exists>st1'. exec_statements C sa rs' ((bind_value st2 x v)\<lparr>locals := ls1, statement_values := ?sv, flags := ?k\<rparr>)
          = Inr (st1', res) \<and> agree_outside D (locals st1) (locals st1') \<and> regs st1' = regs st1
          \<and> (R = {} \<longrightarrow> ?k = flags (bind_value st2 x v) \<longrightarrow> flags st1' = flags st1)"
      by (rule drops_keep.IH [OF rest ops fl vals lo])
    then show ?thesis using run(1) step Produced exec_keeps_flags [OF _ run(2)] by (auto simp: bind)
  qed
next
  case (drops_here x rs rs')
  obtain s st2 out where run: "arena_get sa x = Inr s" "exec_statement C sa st s = Inr (st2, out)"
      "(case out of Finished result \<Rightarrow> Inr (st2, result) | Produced v \<Rightarrow> exec_statements C sa rs (bind_value st2 x v))
        = Inr (st1, res)"
    using drops_here.prems(1) by (auto simp: rbind_eq_Inr)
  have s: "s = sa ! x" using run(1) by (simp add: arena_get_Inr)
  have "droppable C sa R D x" using assms(3) drops_here.hyps(1) by blast
  then obtain v where v: "out = Produced v" "v \<noteq> None \<Longrightarrow> x \<in> R" "regs st2 = regs st"
      "agree_outside D (locals st) (locals st2)" "is_ternary s \<Longrightarrow> x \<in> R"
    using run(2) unfolding droppable_def s by blast
  let ?cur = "if is_ternary s then Some x else cur"
  have rest: "exec_statements C sa rs (bind_value st2 x v) = Inr (st1, res)" using run(3) v(1) by simp
  have vals: "agree_outside R (statement_values (bind_value st2 x v)) sv"
    using drops_here.prems(4) exec_keeps_values [OF run(2)] v(2)
    by (auto simp: bind_value_def agree_outside_def split: option.splits)
  have lo: "agree_outside D (locals (bind_value st2 x v)) ls"
    using drops_here.prems(5) v(4) by (auto simp: agree_outside_def)
  have fl: "flags_agree sa R ?cur rs (flags (bind_value st2 x v)) k"
    using flags_agree_step(2) [OF drops_here.prems(3)] exec_keeps_flags [OF _ run(2)] v(5) unfolding s by simp
  have same: "(bind_value st2 x v)\<lparr>locals := ls, statement_values := sv, flags := k\<rparr>
      = st\<lparr>locals := ls, statement_values := sv, flags := k\<rparr>"
    using v(3) by (cases st; cases st2) (simp add: bind_value_def split: option.splits)
  have "\<exists>st1'. exec_statements C sa rs' ((bind_value st2 x v)\<lparr>locals := ls, statement_values := sv, flags := k\<rparr>)
        = Inr (st1', res) \<and> agree_outside D (locals st1) (locals st1') \<and> regs st1' = regs st1
        \<and> (R = {} \<longrightarrow> k = flags (bind_value st2 x v) \<longrightarrow> flags st1' = flags st1)"
    by (rule drops_here.IH [OF rest drops_here.prems(2) fl vals lo])
  moreover have "R = {} \<Longrightarrow> flags (bind_value st2 x v) = flags st"
    using exec_keeps_flags [OF _ run(2)] v(5) by auto
  ultimately show ?case unfolding same by auto
qed simp

section \<open>Dead statement elimination is sound\<close>

lemma harmless_statement:
  assumes "has_side_effects (is_pure p) s = Inr False" and "calls_keep_regs (pure_set p) C"
    and "exec_statement C sa st s = Inr (st2, out)"
  shows "(\<exists>v. out = Produced v) \<and> regs st2 = regs st \<and> locals st2 = locals st \<and> jump_targets s = []"
proof (cases "is_effect s")
  case True
  with assms show ?thesis
    by (cases s rule: is_effect.cases) (auto simp: exec_statement_def Let_def split_beta is_pure_def pure_set_def
        calls_keep_regs_def unwrap_eq_Inr elim!: rbind_InrE split: ternary_operation_kind.splits)
next
  case False
  then have "jump_targets s = []" by (cases s) auto
  with False assms(3) show ?thesis by (auto simp: exec_value rbind_eq_Inr)
qed

lemma harmless_targets: "has_side_effects ip s = Inr False \<Longrightarrow> jump_targets s = []"
  by (cases s) auto

lemma first_dead_Some:
  "first_dead p b sua rs = Inr (Some r) \<Longrightarrow> r \<in> set rs \<and> is_dead (is_pure p) b sua r = Inr True"
  by (induction rs) (auto simp: rbind_eq_Inr split: if_splits)

lemma kill_statement_Inr:
  assumes "kill_statement blk r = Inr blk'"
  shows "\<exists>xs ys. statements blk = xs @ r # ys \<and> blk' = blk\<lparr>statements := xs @ ys\<rparr>"
proof -
  obtain i where i: "position (statements blk) r = Some i"
      "blk' = blk\<lparr>statements := take i (statements blk) @ drop (Suc i) (statements blk)\<rparr>"
    using assms by (auto simp: kill_statement_def index_of_statement_def rbind_eq_Inr unwrap_eq_Inr)
  have "statements blk = take i (statements blk) @ r # drop (Suc i) (statements blk)"
    using position_Some [OF i(1)] by (metis id_take_nth_drop)
  with i(2) show ?thesis by blast
qed

text \<open>What a run of the pass on a block that changes it has done.\<close>

lemma dead_stmt_block_cases:
  assumes "dead_stmt_block p b f = Inr (f', c)"
  shows "f' = f \<or> (\<exists>blk r s xs ys. arena_get (block_arena f) b = Inr blk \<and> statements blk = xs @ r # ys
     \<and> arena_get (statement_arena blk) r = Inr s \<and> has_side_effects (is_pure p) s = Inr False
     \<and> (\<forall>x\<in>set (statements blk). r \<notin> set (analysed_operands (statement_arena blk ! x)))
     \<and> f' = f\<lparr>block_arena := (block_arena f)[b := blk\<lparr>statements := xs @ ys\<rparr>]\<rparr>)"
proof -
  obtain blk sua dead where run: "arena_get (block_arena f) b = Inr blk" "statement_use_analysis blk = Inr sua"
      "first_dead p blk sua (statements blk) = Inr dead"
      "(case dead of None \<Rightarrow> Inr (f, False) | Some stmt \<Rightarrow>
         rbind (arena_modify (block_arena f) b (\<lambda>blk. kill_statement blk stmt)) (\<lambda>ba. Inr (f\<lparr>block_arena := ba\<rparr>, True)))
       = Inr (f', c)"
    using assms by (auto simp: dead_stmt_block_def rbind_eq_Inr)
  show ?thesis
  proof (cases dead)
    case (Some r)
    obtain blk' where k: "kill_statement blk r = Inr blk'" "f' = f\<lparr>block_arena := (block_arena f)[b := blk']\<rparr>"
      using run(1,4) Some by (auto simp: rbind_eq_Inr arena_modify_Inr arena_get_Inr)
    obtain xs ys where xy: "statements blk = xs @ r # ys" "blk' = blk\<lparr>statements := xs @ ys\<rparr>"
      using kill_statement_Inr [OF k(1)] by blast
    obtain s where s: "arena_get (statement_arena blk) r = Inr s" "has_side_effects (is_pure p) s = Inr False"
        "\<not> has_uses sua r"
      using first_dead_Some run(3) Some by (fastforce simp: is_dead_def rbind_eq_Inr)
    with statement_use_analysis_spec [OF run(2)] run(1) xy k(2) show ?thesis by blast
  qed (use run(4) in auto)
qed

definition flags_ok :: "rfunction \<Rightarrow> bool" where
  "flags_ok f \<longleftrightarrow> list_all (\<lambda>blk. flags_placed (statement_arena blk) None (statements blk)) (block_arena f)"

definition same_locals :: "interpreter \<Rightarrow> interpreter \<Rightarrow> bool" where
  "same_locals st st' \<longleftrightarrow> locals st' = locals st"

lemma agree_outside_empty [simp]: "agree_outside {} f g \<longleftrightarrow> g = f"
  by (auto simp: agree_outside_def fun_eq_iff)

lemma exec_block_dropping:
  assumes "exec_block C blk st = Inr (st1, res)" and "drops K (statements blk) rs'"
    and "\<forall>r\<in>K. droppable C (statement_arena blk) R D r"
    and "\<forall>x\<in>set rs'. R \<inter> set (analysed_operands (statement_arena blk ! x)) = {} \<and> \<not> reads_variable D (statement_arena blk ! x)"
    and "flags_agree (statement_arena blk) R None (statements blk) (flags st) (flags st')"
    and "agree_outside D (locals st) (locals st')" and "regs st' = regs st"
  shows "\<exists>st1'. exec_block C (blk\<lparr>statements := rs'\<rparr>) st' = Inr (st1', res)
    \<and> agree_outside D (locals st1) (locals st1') \<and> regs st1' = regs st1
    \<and> (R = {} \<longrightarrow> flags st' = flags st \<longrightarrow> flags st1' = flags st1)"
proof -
  have eq: "st'\<lparr>statement_values := Map.empty\<rparr>
      = (st\<lparr>statement_values := Map.empty\<rparr>)\<lparr>locals := locals st', statement_values := Map.empty, flags := flags st'\<rparr>"
    using assms(7) by (cases st; cases st') simp
  show ?thesis
    using exec_dropping [OF assms(2) assms(1) [unfolded exec_block_def] assms(3,4), of None "flags st'" Map.empty "locals st'"]
      assms(5,6) by (auto simp: exec_block_def eq agree_outside_def)
qed

lemma dead_stmt_simulation:
  assumes "dead_stmt_block p b f = Inr (f', c)" and "f' \<noteq> f" and "flags_ok f"
  shows "block_simulation (calls_keep_regs (pure_set p)) (\<lambda>_. True) f f' same_locals"
proof -
  obtain blk r s xs ys where blk: "arena_get (block_arena f) b = Inr blk" "statements blk = xs @ r # ys"
     "arena_get (statement_arena blk) r = Inr s" "has_side_effects (is_pure p) s = Inr False"
     "\<forall>x\<in>set (statements blk). r \<notin> set (analysed_operands (statement_arena blk ! x))"
     "f' = f\<lparr>block_arena := (block_arena f)[b := blk\<lparr>statements := xs @ ys\<rparr>]\<rparr>"
    using dead_stmt_block_cases [OF assms(1)] assms(2) by blast
  show ?thesis
  proof
    fix C x bx res and st st' st1 :: interpreter
    assume C: "calls_keep_regs (pure_set p) C" and "same_locals st st'" "regs st' = regs st"
      and get: "arena_get (block_arena f) x = Inr bx" and run: "exec_block C bx st = Inr (st1, res)"
    then have st: "agree_outside {} (locals st) (locals st')" "regs st' = regs st" by (simp_all add: same_locals_def)
    have placed: "flags_agree (statement_arena bx) R None (statements bx) (flags st) (flags st')" for R
      using assms(3) get by (auto simp: flags_agree_def flags_ok_def list_all_length arena_get_Inr)
    let ?bx = "if x = b then blk\<lparr>statements := xs @ ys\<rparr> else bx"
    have "\<exists>st1'. exec_block C ?bx st' = Inr (st1', res) \<and> agree_outside {} (locals st1) (locals st1') \<and> regs st1' = regs st1"
    proof (cases "x = b")
      case True
      then have bx: "bx = blk" using get blk(1) by simp
      have s: "s = statement_arena blk ! r" using blk(3) by (simp add: arena_get_Inr)
      have "droppable C (statement_arena blk) {r} {} r"
        using harmless_statement [OF blk(4) C] by (auto simp: droppable_def s)
      then show ?thesis
        using exec_block_dropping [OF run _ _ _ placed st, of "{r}" "xs @ ys" "{r}"] True bx drops_one [of r xs ys] blk(2,5)
        by auto
    next
      case False
      have "bx\<lparr>statements := statements bx\<rparr> = bx" by simp
      then show ?thesis
        using exec_block_dropping [OF run drops_refl _ _ placed st, of "{}" "{}"] False by auto
    qed
    moreover have "arena_get (block_arena f') x = Inr ?bx"
      using get blk(1,6) by (auto simp: arena_get_def split: if_splits)
    ultimately show "\<exists>blk' st1' res'. arena_get (block_arena f') x = Inr blk' \<and> exec_block C blk' st' = Inr (st1', res')
        \<and> same_locals st1 st1' \<and> regs st1' = regs st1 \<and> same_destination f res res'"
      by (auto simp: same_locals_def intro: same_destination_refl)
  qed (simp_all add: blk(6) same_locals_def clear_values_def)
qed

lemma flags_placed_drop:
  assumes "drops {r} rs rs'" and "flags_placed sa cur rs" and "\<forall>x\<in>set rs. r \<notin> set (analysed_operands (sa ! x))"
    and "cur \<noteq> Some r \<Longrightarrow> cur' = cur"
  shows "flags_placed sa cur' rs'"
  using assms
proof (induction arbitrary: cur cur' rule: drops.induct)
  case (drops_keep rs rs' x)
  have "cur' = cur" if "is_get_flags (sa ! x)"
  proof -
    have "cur = Some (hd (operands (sa ! x)))" using that drops_keep.prems(1) by simp
    moreover have "hd (operands (sa ! x)) \<noteq> r"
      using get_flags_operand [OF that] analysed_operands_eq [of "sa ! x"] that drops_keep.prems(2)
      by (cases "sa ! x") auto
    ultimately show ?thesis using drops_keep.prems(3) by simp
  qed
  moreover have "flags_placed sa (if is_ternary (sa ! x) then Some x else cur') rs'"
    by (rule drops_keep.IH [of "if is_ternary (sa ! x) then Some x else cur"])
      (use drops_keep.prems get_flags_not_ternary in \<open>auto split: if_splits\<close>)
  ultimately show ?case
    using drops_keep.prems(1) get_flags_not_ternary by auto
next
  case (drops_here x rs rs')
  show ?case
    by (rule drops_here.IH [of "if is_ternary (sa ! x) then Some x else cur"])
      (use drops_here get_flags_not_ternary in \<open>auto split: if_splits\<close>)
qed simp

text \<open>Two arenas whose blocks have the same targets are walked in the same order.\<close>

definition keeps_targets :: "block arena \<Rightarrow> block arena \<Rightarrow> bool" where
  "keeps_targets a a' \<longleftrightarrow>
     (\<forall>b blk ts. arena_get a b = Inr blk \<longrightarrow> targets blk = Inr ts
        \<longrightarrow> (\<exists>blk'. arena_get a' b = Inr blk' \<and> targets blk' = Inr ts))"

lemma block_iter_from_keeps:
  "block_iter_from a seen stack = Inr bs \<Longrightarrow> keeps_targets a a' \<Longrightarrow> block_iter_from a' seen stack = Inr bs"
proof (induction a seen stack arbitrary: bs rule: block_iter_from.induct)
  case (2 a visited current remaining)
  show ?case
  proof (cases "current \<in> set visited")
    case False
    then obtain blk ts rest where run: "arena_get a current = Inr blk" "targets blk = Inr ts"
        "block_iter_from a (current # visited) (rev ts @ remaining) = Inr rest" "bs = current # rest"
      using "2.prems"(1) by (auto simp: rbind_eq_Inr)
    obtain blk' where "arena_get a' current = Inr blk'" "targets blk' = Inr ts"
      using "2.prems"(2) run(1,2) unfolding keeps_targets_def by blast
    moreover have "block_iter_from a' (current # visited) (rev ts @ remaining) = Inr rest"
      by (rule "2.IH"(2) [OF False run(1-3) "2.prems"(2)])
    ultimately show ?thesis using False run(4) by simp
  next
    case True
    then show ?thesis using "2.IH"(1) [OF True _ "2.prems"(2)] "2.prems"(1) by simp
  qed
qed simp

lemma function_blocks_keeps:
  "function_blocks f = Inr bs \<Longrightarrow> keeps_targets (block_arena f) a'
   \<Longrightarrow> function_blocks (f\<lparr>block_arena := a'\<rparr>) = Inr bs"
  by (auto simp: function_blocks_def block_iter_def simp del: block_iter_from.simps intro: block_iter_from_keeps)

text \<open>Removing statements that do not jump from the blocks of a function.\<close>

definition thinned :: "block \<Rightarrow> block \<Rightarrow> bool" where
  "thinned blk blk' \<longleftrightarrow>
     (\<forall>ss. live_statements blk = Inr ss \<longrightarrow>
        (\<exists>ss'. live_statements blk' = Inr ss' \<and> set ss' \<subseteq> set ss
           \<and> concat (map jump_targets ss') = concat (map jump_targets ss)))"

lemma thinned_refl: "thinned blk blk"
  by (simp add: thinned_def)

lemma thinned_kill:
  assumes "statements blk = xs @ r # ys" and "arena_get (statement_arena blk) r = Inr s" and "jump_targets s = []"
  shows "thinned blk (blk\<lparr>statements := xs @ ys\<rparr>)"
  using assms by (auto simp: thinned_def live_statements_def mapR_append rbind_eq_Inr)

definition thins :: "block arena \<Rightarrow> block arena \<Rightarrow> bool" where
  "thins a a' \<longleftrightarrow>
     (\<forall>b blk. arena_get a b = Inr blk \<longrightarrow> (\<exists>blk'. arena_get a' b = Inr blk' \<and> thinned blk blk'))"

lemma thins_keeps_targets: "thins a a' \<Longrightarrow> keeps_targets a a'"
  unfolding keeps_targets_def thins_def thinned_def targets_def by (fastforce simp: rbind_eq_Inr)

lemma thins_update:
  assumes "arena_get a b = Inr blk" and "thinned blk blk'"
  shows "thins a (a[b := blk'])"
  unfolding thins_def
proof (intro allI impI)
  fix x bx
  assume x: "arena_get a x = Inr bx"
  have "arena_get (a[b := blk']) x = Inr (if x = b then blk' else bx)"
    using x assms(1) by (auto simp: arena_get_def split: if_splits)
  then show "\<exists>bx'. arena_get (a[b := blk']) x = Inr bx' \<and> thinned bx bx'"
    using x assms thinned_refl by auto
qed

lemma function_statements_thins:
  assumes "function_statements f = Inr ss" and "thins (block_arena f) a'"
  shows "\<exists>ss'. function_statements (f\<lparr>block_arena := a'\<rparr>) = Inr ss' \<and> set ss' \<subseteq> set ss"
proof -
  let ?live = "\<lambda>a b. rbind (arena_get a b) live_statements"
  obtain bs sss where run: "function_blocks f = Inr bs" "mapR (?live (block_arena f)) bs = Inr sss" "ss = concat sss"
    using assms(1) by (auto simp: function_statements_def rbind_eq_Inr)
  have "\<exists>sss'. mapR (?live a') bs = Inr sss' \<and> set (concat sss') \<subseteq> set (concat sss)"
    using run(2)
  proof (induction bs arbitrary: sss)
    case (Cons b bs)
    then obtain blk xs yss where b: "arena_get (block_arena f) b = Inr blk" "live_statements blk = Inr xs"
        "mapR (?live (block_arena f)) bs = Inr yss" "sss = xs # yss"
      by (auto simp: rbind_eq_Inr)
    obtain blk' xs' where "arena_get a' b = Inr blk'" "live_statements blk' = Inr xs'" "set xs' \<subseteq> set xs"
      using assms(2) b(1,2) unfolding thins_def thinned_def by blast
    moreover obtain sss' where "mapR (?live a') bs = Inr sss'" "set (concat sss') \<subseteq> set (concat yss)"
      using Cons.IH [OF b(3)] by blast
    ultimately show ?case using b(4) by (intro exI [of _ "xs' # sss'"]) (simp, blast)
  qed simp
  with function_blocks_keeps [OF run(1) thins_keeps_targets [OF assms(2)]] run(3) show ?thesis
    by (auto simp: function_statements_def)
qed

lemma pure_certificate_thins:
  assumes "pure_certificate m P" and "map_of (fns m) name = Some f" and "thins (block_arena f) a'"
  shows "pure_certificate (update_function m name (f\<lparr>block_arena := a'\<rparr>)) P"
  unfolding pure_certificate_def
proof (intro ballI allI impI)
  fix g h
  assume g: "g \<in> P" and h: "map_of (fns (update_function m name (f\<lparr>block_arena := a'\<rparr>))) g = Some h"
  show "\<exists>ss. function_statements h = Inr ss \<and> (\<forall>s\<in>set ss. pure_statement P s)"
  proof (cases "g = name")
    case True
    then obtain ss where ss: "function_statements f = Inr ss" "\<forall>s\<in>set ss. pure_statement P s"
      using assms(1,2) g unfolding pure_certificate_def by blast
    obtain ss' where "function_statements (f\<lparr>block_arena := a'\<rparr>) = Inr ss'" "set ss' \<subseteq> set ss"
      using function_statements_thins [OF ss(1) assms(3)] by blast
    with ss(2) True h show ?thesis by auto
  qed (use assms(1) g h in \<open>auto simp: pure_certificate_def\<close>)
qed

section \<open>The pass on a model\<close>

text \<open>
  What the pass relies on: the purity map certifies the model, and flags are read where they
  were set.
\<close>

definition dead_stmt_ok :: "purity \<Rightarrow> model \<Rightarrow> bool" where
  "dead_stmt_ok p m \<longleftrightarrow> pure_certificate m (pure_set p) \<and> (\<forall>g f. map_of (fns m) g = Some f \<longrightarrow> flags_ok f)"

lemma dead_stmt_block_sound: "pass_sound E (dead_stmt_ok p) (dead_stmt_block p b)"
  unfolding pass_sound_def
proof (intro allI impI)
  fix m name f f' c
  assume ok: "dead_stmt_ok p m" and f: "map_of (fns m) name = Some f" and run: "dead_stmt_block p b f = Inr (f', c)"
  show "model_refines E m (update_function m name f') \<and> dead_stmt_ok p (update_function m name f')"
  proof (cases "f' = f")
    case False
    then obtain blk r s xs ys where blk: "arena_get (block_arena f) b = Inr blk" "statements blk = xs @ r # ys"
        "arena_get (statement_arena blk) r = Inr s" "has_side_effects (is_pure p) s = Inr False"
        "\<forall>x\<in>set (statements blk). r \<notin> set (analysed_operands (statement_arena blk ! x))"
        "f' = f\<lparr>block_arena := (block_arena f)[b := blk\<lparr>statements := xs @ ys\<rparr>]\<rparr>"
      using dead_stmt_block_cases [OF run] by blast
    have flags: "flags_ok f" using ok f by (auto simp: dead_stmt_ok_def)
    have calls: "calls_keep_regs (pure_set p) (ctx_of n E m)" for n
      using certified_keeps_regs(1) ok by (fastforce simp: calls_keep_regs_def ctx_of_def dead_stmt_ok_def)
    have "flags_placed (statement_arena blk) None (xs @ ys)"
      by (rule flags_placed_drop [of r "statements blk" _ _ None])
        (use drops_one [of r xs ys] blk(1,2,5) flags in \<open>auto simp: flags_ok_def list_all_length arena_get_Inr\<close>)
    then have flags': "flags_ok f'"
      using flags blk(1,6) by (auto simp: flags_ok_def list_all_length nth_list_update arena_get_Inr)
    have "thins (block_arena f) (block_arena f')"
      using thins_update [OF blk(1) thinned_kill [OF blk(2,3) harmless_targets [OF blk(4)]]] blk(6) by simp
    then have "pure_certificate (update_function m name f') (pure_set p)"
      using pure_certificate_thins [OF _ f] ok blk(6) by (auto simp: dead_stmt_ok_def)
    then have "dead_stmt_ok p (update_function m name f')"
      using flags' ok by (auto simp: dead_stmt_ok_def)
    then show ?thesis
      using block_simulation.simulates [OF dead_stmt_simulation [OF run False flags] f calls] by blast
  qed (use ok update_function_same [OF f] in simp)
qed

interpretation dead_stmt_pass: sound_pass E "dead_stmt_ok p" "dead_stmt_elimination p" for E :: rust_env and p
  using pass_soundD [OF on_every_block_sound [OF dead_stmt_block_sound]]
  by unfold_locales (simp add: dead_stmt_elimination_def)

text \<open>
  C2: removing the dead statements of a function, as often as the pass reports a change, does not
  change what any function of the model computes, when purity is what the analysis found for the
  model and every flags read follows the operation it names with no other flag-setting operation
  in between.
\<close>

theorem dead_stmt_elimination_sound:
  assumes "purity_analysis m = Inr p" and "\<forall>(g, h)\<in>set (fns m). flags_ok h"
    and "map_of (fns m) name = Some f" and "repeat_pass n (dead_stmt_elimination p) f = Inr (f', c)"
  shows "model_refines E m (update_function m name f')"
proof -
  have "dead_stmt_ok p m"
    using assms(2) purity_analysis_certificate [OF assms(1)] by (auto simp: dead_stmt_ok_def dest: map_of_SomeD)
  then show ?thesis using pass_soundD [OF dead_stmt_pass.repeat_sound _ assms(3,4)] by blast
qed

definition sample_dead :: rfunction where
  "sample_dead =
     \<lparr>return_type = None, parameters = [], fn_name = ''dead'', local_variables = [],
      block_arena = [\<lparr>statement_arena = [Constant (UnsignedInteger 7 8), UnaryOperation NotK 0, Return None], statements = [0, 1, 2]\<rparr>],
      entry_block = 0\<rparr>"

definition sample_dead_model :: model where
  "sample_dead_model = model_new [(''dead'', sample_dead)] []"

lemmas analysis_eval = function_blocks_def block_iter_def arena_get_def targets_def live_statements_def
  function_statements_def statement_use_analysis_def add_use_def insert_entry_def is_dead_def has_uses_def
  arena_modify_def arena_set_def kill_statement_def index_of_statement_def

theorem dead_stmt_elimination_sound_witness:
  "\<exists>p f' c. purity_analysis sample_dead_model = Inr p \<and> (\<forall>(g, h)\<in>set (fns sample_dead_model). flags_ok h)
     \<and> repeat_pass 3 (dead_stmt_elimination p) sample_dead = Inr (f', c) \<and> map statements (block_arena f') = [[2]]
     \<and> model_refines sample_env sample_dead_model (update_function sample_dead_model ''dead'' f')"
proof -
  have m: "map_of (fns sample_dead_model) ''dead'' = Some sample_dead"
    by (simp add: sample_dead_model_def model_new_def)
  have flags: "\<forall>(g, h)\<in>set (fns sample_dead_model). flags_ok h"
    by (simp add: sample_dead_model_def model_new_def flags_ok_def sample_dead_def)
  obtain p where p: "purity_analysis sample_dead_model = Inr p"
    by (simp add: purity_analysis_def sample_dead_model_def model_new_def INTRINSICS_def analysis_eval sample_dead_def)
  obtain f' c where run: "repeat_pass 3 (dead_stmt_elimination p) sample_dead = Inr (f', c)" "map statements (block_arena f') = [[2]]"
    by (simp add: numeral_3_eq_3 dead_stmt_elimination_def on_every_block_def dead_stmt_block_def analysis_eval sample_dead_def)
  show ?thesis by (intro exI conjI) (rule p flags run dead_stmt_elimination_sound [OF p flags m run(1)])+
qed

section \<open>Dead write elimination is sound\<close>

definition dead_writes :: "string set \<Rightarrow> statement arena \<Rightarrow> stmt_id set" where
  "dead_writes D sa = {r. \<exists>sy v. sa ! r = WriteVariable sy v \<and> sym_name sy \<in> D}"

lemma dead_write_droppable: "r \<in> dead_writes D sa \<Longrightarrow> droppable C sa {} D r"
  by (auto simp: dead_writes_def droppable_def exec_statement_def Let_def agree_outside_def rbind_eq_Inr)

lemma drops_trans: "drops K ys zs \<Longrightarrow> drops K xs ys \<Longrightarrow> drops K xs zs"
proof -
  have "drops K xs ys \<Longrightarrow> drops K ys zs \<Longrightarrow> drops K xs zs" for ys
  proof (induction arbitrary: zs rule: drops.induct)
    case (drops_keep rs rs' x)
    from drops_keep.prems drops_keep.IH show ?case by (cases rule: drops.cases) (auto intro: drops.intros)
  qed (auto intro: drops.intros)
  then show "drops K ys zs \<Longrightarrow> drops K xs ys \<Longrightarrow> drops K xs zs" by blast
qed

lemma drops_mono: "drops K xs ys \<Longrightarrow> K \<subseteq> L \<Longrightarrow> drops L xs ys"
  by (induction rule: drops.induct) (auto intro: drops.intros)

text \<open>The same function with some of its dead writes removed.\<close>

definition without_writes :: "string set \<Rightarrow> rfunction \<Rightarrow> rfunction \<Rightarrow> bool" where
  "without_writes D f f' \<longleftrightarrow>
     (\<exists>a'. f' = f\<lparr>block_arena := a'\<rparr> \<and> list_all2 (\<lambda>blk blk'. \<exists>rs. blk' = blk\<lparr>statements := rs\<rparr>
        \<and> drops (dead_writes D (statement_arena blk)) (statements blk) rs) (block_arena f) a')"

lemma without_writes_refl: "without_writes D f f"
proof -
  have "\<exists>rs. blk = blk\<lparr>statements := rs\<rparr> \<and> drops K (statements blk) rs" for blk :: block and K
    using drops_refl by (intro exI [of _ "statements blk"]) simp
  then show ?thesis unfolding without_writes_def
    by (intro exI [of _ "block_arena f"]) (simp add: list_all2_conv_all_nth)
qed

lemma without_writes_kill:
  assumes "without_writes D f f1" and "kill_in_function (r, b) f1 = Inr f2"
    and "r \<in> dead_writes D (statement_arena (block_arena f ! b))"
  shows "without_writes D f f2"
proof -
  obtain a1 where a1: "f1 = f\<lparr>block_arena := a1\<rparr>" "length a1 = length (block_arena f)"
      "\<And>i. i < length a1 \<Longrightarrow> \<exists>rs. a1 ! i = (block_arena f ! i)\<lparr>statements := rs\<rparr>
         \<and> drops (dead_writes D (statement_arena (block_arena f ! i))) (statements (block_arena f ! i)) rs"
    using assms(1) by (auto simp: without_writes_def list_all2_conv_all_nth)
  obtain blk2 where b: "b < length a1" "kill_statement (a1 ! b) r = Inr blk2"
      "f2 = f\<lparr>block_arena := a1[b := blk2]\<rparr>"
    using assms(2) a1(1) by (auto simp: kill_in_function_def rbind_eq_Inr arena_modify_Inr)
  obtain rs where rs: "a1 ! b = (block_arena f ! b)\<lparr>statements := rs\<rparr>"
      "drops (dead_writes D (statement_arena (block_arena f ! b))) (statements (block_arena f ! b)) rs"
    using a1(3) [OF b(1)] by blast
  obtain xs ys where k: "rs = xs @ r # ys" "blk2 = (block_arena f ! b)\<lparr>statements := xs @ ys\<rparr>"
    using kill_statement_Inr [OF b(2)] rs(1) by auto
  have "drops (dead_writes D (statement_arena (block_arena f ! b))) (statements (block_arena f ! b)) (xs @ ys)"
    using drops_trans [OF drops_mono [OF drops_one [of r xs ys]] rs(2) [unfolded k(1)]] assms(3) by simp
  then have "\<exists>rs. a1[b := blk2] ! i = (block_arena f ! i)\<lparr>statements := rs\<rparr>
      \<and> drops (dead_writes D (statement_arena (block_arena f ! i))) (statements (block_arena f ! i)) rs"
    if "i < length a1" for i
    using a1(3) [OF that] b(1) k(2) by (cases "i = b") auto
  then show ?thesis
    unfolding without_writes_def b(3) list_all2_conv_all_nth using a1(2)
    by (intro exI [of _ "a1[b := blk2]"]) auto
qed

lemma without_writes_simulation:
  assumes f: "without_writes D f f'" and bs: "function_blocks f = Inr bs"
    and reads: "\<forall>b\<in>set bs. \<forall>blk. arena_get (block_arena f) b = Inr blk \<longrightarrow>
      (\<exists>ss. live_statements blk = Inr ss \<and> (\<forall>s\<in>set ss. \<not> reads_variable D s))"
  shows "block_simulation (\<lambda>_. True) (\<lambda>b. b \<in> set bs) f f'
    (\<lambda>st st'. agree_outside D (locals st) (locals st') \<and> flags st' = flags st)"
proof
  obtain a' where a': "f' = f\<lparr>block_arena := a'\<rparr>" "length a' = length (block_arena f)"
      "\<And>i. i < length a' \<Longrightarrow> \<exists>rs. a' ! i = (block_arena f ! i)\<lparr>statements := rs\<rparr>
         \<and> drops (dead_writes D (statement_arena (block_arena f ! i))) (statements (block_arena f ! i)) rs"
    using f by (auto simp: without_writes_def list_all2_conv_all_nth)
  then show "parameters f' = parameters f" "entry_block f' = entry_block f" by simp_all
  show "entry_block f \<in> set bs"
    using block_iter_closed(1) bs by (simp add: function_blocks_def)
  show "t \<in> set bs" if b: "b \<in> set bs" "arena_get (block_arena f) b = Inr blk"
      "exec_block C blk st = Inr (st1, NextBlock t)" for b blk C st st1 t
  proof -
    obtain ss where ss: "live_statements blk = Inr ss" using reads b by blast
    obtain r where "r \<in> set (statements blk)" "t \<in> set (jump_targets (statement_arena blk ! r))"
      using exec_statements_target [OF b(3) [unfolded exec_block_def]] by blast
    then obtain ts where "targets blk = Inr ts" "t \<in> set ts"
      using live_statements_targets [OF ss] by blast
    then have "block_edge (block_arena f) b t" using b(2) by (auto simp: block_edge_def)
    then show ?thesis using block_iter_closed(2) [OF bs [unfolded function_blocks_def] b(1)] by blast
  qed
  fix C x bx res and st st' st1 :: interpreter
  assume x: "x \<in> set bs" and st: "agree_outside D (locals st) (locals st') \<and> flags st' = flags st" "regs st' = regs st"
    and get: "arena_get (block_arena f) x = Inr bx" and run: "exec_block C bx st = Inr (st1, res)"
  obtain ss where ss: "live_statements bx = Inr ss" "\<forall>s\<in>set ss. \<not> reads_variable D s"
    using reads x get by blast
  obtain rs where rs: "arena_get a' x = Inr (bx\<lparr>statements := rs\<rparr>)"
      "drops (dead_writes D (statement_arena bx)) (statements bx) rs"
    using a'(2) a'(3) [of x] get by (auto simp: arena_get_Inr)
  have "\<forall>y\<in>set rs. {} \<inter> set (analysed_operands (statement_arena bx ! y)) = {} \<and> \<not> reads_variable D (statement_arena bx ! y)"
    using drops_subset [OF rs(2)] live_statements_nth [OF ss(1)] ss(2) by blast
  from exec_block_dropping [OF run rs(2) _ this, of st'] st
  show "\<exists>blk' st1' res'. arena_get (block_arena f') x = Inr blk' \<and> exec_block C blk' st' = Inr (st1', res')
      \<and> (agree_outside D (locals st1) (locals st1') \<and> flags st1' = flags st1) \<and> regs st1' = regs st1
      \<and> same_destination f res res'"
    using rs(1) a'(1) dead_write_droppable by (fastforce simp: flags_agree_def intro: same_destination_refl)
qed (simp_all add: agree_outside_def clear_values_def)

lemma symbol_accesses_block:
  assumes "symbol_accesses f = Inr xs" and "function_blocks f = Inr bs" and "b \<in> set bs"
    and "arena_get (block_arena f) b = Inr blk"
  shows "\<exists>ys. block_accesses b blk = Inr ys \<and> set ys \<subseteq> set xs"
proof -
  obtain yss where yss: "mapR (\<lambda>b. rbind (arena_get (block_arena f) b) (block_accesses b)) bs = Inr yss" "xs = concat yss"
    using assms(1,2) by (auto simp: symbol_accesses_def rbind_eq_Inr)
  obtain i where i: "i < length bs" "bs ! i = b" using assms(3) by (auto simp: in_set_conv_nth)
  then have "block_accesses b blk = Inr (yss ! i)" "i < length yss"
    using yss(1) assms(4) by (auto simp: mapR_eq_Inr list_all2_conv_all_nth rbind_eq_Inr)
  then show ?thesis using yss(2) by (auto intro!: exI [of _ "yss ! i"] bexI [of _ "yss ! i"])
qed

lemma block_accesses_reads:
  assumes "block_accesses b blk = Inr ys" and "live_statements blk = Inr ss" and "s \<in> set ss" and "accessed_symbol s = Some sy"
  shows "\<exists>r. (sy, r, b, s) \<in> set ys"
proof -
  obtain i where i: "i < length ss" "ss ! i = s" using assms(3) by (auto simp: in_set_conv_nth)
  moreover have "length ss = length (statements blk)"
    using assms(2) by (auto simp: live_statements_def mapR_eq_Inr dest: list_all2_lengthD)
  ultimately have "(statements blk ! i, s) \<in> set (zip (statements blk) ss)" by (auto simp: in_set_zip)
  then show ?thesis
    using assms(1,2,4) by (force simp: block_accesses_def List.map_filter_def rbind_eq_Inr)
qed

lemma symbol_access_statement:
  assumes "symbol_accesses f = Inr xs" and "(sy, r, b, s) \<in> set xs"
  shows "accessed_symbol s = Some sy \<and> statement_arena (block_arena f ! b) ! r = s"
proof -
  obtain bs yss where yss: "mapR (\<lambda>b. rbind (arena_get (block_arena f) b) (block_accesses b)) bs = Inr yss" "xs = concat yss"
    using assms(1) by (auto simp: symbol_accesses_def rbind_eq_Inr)
  then obtain ys where "ys \<in> set yss" "(sy, r, b, s) \<in> set ys" using assms(2) by auto
  then obtain b' blk where b: "arena_get (block_arena f) b' = Inr blk" "block_accesses b' blk = Inr ys"
    using yss(1) by (force simp: mapR_eq_Inr list_all2_conv_all_nth in_set_conv_nth rbind_eq_Inr)
  then obtain ss where ss: "live_statements blk = Inr ss" "(r, s) \<in> set (zip (statements blk) ss)"
      "accessed_symbol s = Some sy" "b' = b"
    using \<open>(sy, r, b, s) \<in> set ys\<close> by (auto simp: block_accesses_def List.map_filter_def rbind_eq_Inr)
  then have "statement_arena blk ! r = s"
    by (auto simp: live_statements_def mapR_eq_Inr list_all2_conv_all_nth in_set_zip arena_get_Inr)
  then show ?thesis using b(1) ss by (simp add: arena_get_Inr)
qed

definition unread :: "access list \<Rightarrow> string set" where
  "unread xs = {n. \<forall>r b. (n, r, b) \<notin> set (reads_in xs)}"

lemma unread_not_read:
  assumes "symbol_accesses f = Inr xs" and "function_blocks f = Inr bs" and "b \<in> set bs"
    and "arena_get (block_arena f) b = Inr blk"
  shows "\<exists>ss. live_statements blk = Inr ss \<and> (\<forall>s\<in>set ss. \<not> reads_variable (unread xs) s)"
proof -
  obtain ys where ys: "block_accesses b blk = Inr ys" "set ys \<subseteq> set xs"
    using symbol_accesses_block [OF assms] by blast
  then obtain ss where ss: "live_statements blk = Inr ss" by (auto simp: block_accesses_def rbind_eq_Inr)
  have "\<not> reads_variable (unread xs) s" if s: "s \<in> set ss" for s
  proof (cases s)
    case (ReadVariable sy)
    then obtain r where "(sy, r, b, s) \<in> set xs" using block_accesses_reads [OF ys(1) ss s] ys(2) by auto
    then have "(sym_name sy, r, b) \<in> set (reads_in xs)" using ReadVariable by (force simp: reads_in_def)
    then show ?thesis using ReadVariable by (auto simp: unread_def)
  qed auto
  with ss show ?thesis by blast
qed

lemma dead_write_elimination_drops:
  assumes "dead_write_elimination f = Inr (f', c)" and "symbol_accesses f = Inr xs"
  shows "without_writes (unread xs) f f'"
proof -
  obtain dfa where dfa: "symbol_use_analysis_new f = Inr dfa" and
      run: "foldR (\<lambda>sy (f, changed). rbind (dead_write_symbol dfa sy f) (\<lambda>(f, c). Inr (f, changed \<or> c)))
        (local_variable_symbols f) (f, False) = Inr (f', c)"
    using assms(1) by (auto simp: dead_write_elimination_def rbind_eq_Inr)
  have step: "without_writes (unread xs) f f2"
    if sy: "dead_write_symbol dfa sy f1 = Inr (f2, c)" "without_writes (unread xs) f f1" for sy f1 f2 c
  proof (cases "f2 = f1")
    case False
    then obtain ws where ws: "get_symbol_writes dfa sy = Inr ws" "\<not> symbol_has_reads dfa sy"
        "foldR kill_in_function ws f1 = Inr f2"
      using sy(1) by (auto simp: dead_write_symbol_def rbind_eq_Inr split: if_splits)
    have dead: "sym_name sy \<in> unread xs"
      using ws(2) symbol_reads_spec(1) [OF dfa assms(2)] by (auto simp: unread_def)
    have "r \<in> dead_writes (unread xs) (statement_arena (block_arena f ! b))" if rb: "(r, b) \<in> set ws" for r b
    proof -
      have "(sym_name sy, r, b) \<in> set (writes_in xs)"
        using rb symbol_reads_spec(3) [OF dfa assms(2) ws(1)] by (auto simp: collect_def)
      then obtain sy' s where s: "(sy', r, b, s) \<in> set xs" "is_write_variable s" "sym_name sy' = sym_name sy"
        by (auto simp: writes_in_def)
      then show ?thesis
        using symbol_access_statement [OF assms(2) s(1)] dead by (cases s) (auto simp: dead_writes_def)
    qed
    with ws(3) sy(2) show ?thesis
    proof (induction ws arbitrary: f1)
      case (Cons w ws)
      obtain r b where w: "w = (r, b)" by (cases w)
      obtain f3 where "kill_in_function (r, b) f1 = Inr f3" "foldR kill_in_function ws f3 = Inr f2"
        using Cons.prems(1) w by (auto simp: rbind_eq_Inr)
      then show ?case using Cons without_writes_kill w by (metis list.set_intros)
    qed simp
  qed (use sy in simp)
  have "case (f', c) of (f1, _) \<Rightarrow> without_writes (unread xs) f f1"
    by (rule foldR_invariant [OF _ _ run]) (auto simp: rbind_eq_Inr without_writes_refl intro: step)
  then show ?thesis by simp
qed

lemma dead_write_elimination_refines:
  assumes "map_of (fns m) name = Some f" and "dead_write_elimination f = Inr (f', c)"
  shows "model_refines E m (update_function m name f')"
proof -
  obtain xs where xs: "symbol_accesses f = Inr xs"
    using assms(2) by (auto simp: dead_write_elimination_def symbol_use_analysis_accesses rbind_eq_Inr)
  then obtain bs where bs: "function_blocks f = Inr bs" by (auto simp: symbol_accesses_def rbind_eq_Inr)
  show ?thesis
    using block_simulation.simulates [OF without_writes_simulation
        [OF dead_write_elimination_drops [OF assms(2) xs] bs] assms(1)] unread_not_read [OF xs bs] by blast
qed

interpretation dead_write_pass: sound_pass E "\<lambda>_. True" dead_write_elimination for E :: rust_env
  using dead_write_elimination_refines by unfold_locales auto

section \<open>Dead symbol elimination is sound\<close>

text \<open>The interpreter never looks at the table of local variables.\<close>

lemma exec_same_body:
  assumes "parameters f' = parameters f" "entry_block f' = entry_block f" "block_arena f' = block_arena f"
  shows "block_simulation (\<lambda>_. True) (\<lambda>_. True) f f' same_store"
proof
  fix C b blk res and st st' st1 :: interpreter
  assume st: "same_store st st'" and run: "arena_get (block_arena f) b = Inr blk" "exec_block C blk st = Inr (st1, res)"
  have "exec_block C blk st' = Inr (st1, res)" using run(2) clear_same_store [OF st] by (simp add: exec_block_def)
  then show "\<exists>blk' st1' res'. arena_get (block_arena f') b = Inr blk' \<and> exec_block C blk' st' = Inr (st1', res')
        \<and> same_store st1 st1' \<and> regs st1' = regs st1 \<and> same_destination f res res'"
    using assms(3) run(1) by (auto simp: same_store_def)
qed (use assms in \<open>auto simp: same_store_def clear_values_def\<close>)

definition same_body :: "rfunction \<Rightarrow> rfunction \<Rightarrow> bool" where
  "same_body f f' \<longleftrightarrow> parameters f' = parameters f \<and> entry_block f' = entry_block f \<and> block_arena f' = block_arena f"

lemma dead_symbol_elimination_body:
  assumes "dead_symbol_elimination f = Inr (f', c)"
  shows "same_body f f'"
proof -
  have "same_body f (fst fc) \<Longrightarrow> same_body f (fst (fold (dead_symbol_step dfa) sys fc))" for dfa sys fc
    by (induction sys arbitrary: fc) (auto simp: dead_symbol_step_def same_body_def remove_local_variable_def split: prod.splits)
  from this [of "(f, False)"] show ?thesis
    using assms by (auto simp: dead_symbol_elimination_def rbind_eq_Inr same_body_def) (metis fst_conv)+
qed

lemma dead_symbol_elimination_refines:
  assumes "map_of (fns m) name = Some f" and "dead_symbol_elimination f = Inr (f', c)"
  shows "model_refines E m (update_function m name f')"
  by (rule block_simulation.simulates [OF exec_same_body assms(1)])
    (use dead_symbol_elimination_body [OF assms(2)] in \<open>auto simp: same_body_def\<close>)

interpretation dead_symbol_pass: sound_pass E "\<lambda>_. True" dead_symbol_elimination for E :: rust_env
  using dead_symbol_elimination_refines by unfold_locales auto

text \<open>
  C3: removing the writes of local variables that no reachable block reads, and then the symbols
  nothing accesses, leaves what every function computes unchanged, whatever the order of the
  writes in the analysis and however often the passes run.
\<close>

theorem dead_write_elimination_sound:
  assumes "map_of (fns m) name = Some f"
    and "optimise_function n [dead_write_elimination, dead_symbol_elimination] f = Inr f'"
  shows "model_refines E m (update_function m name f')"
  using optimise_function_sound [OF _ assms(2) _ assms(1), of E "\<lambda>_. True"]
    dead_write_pass.is_sound dead_symbol_pass.is_sound by simp

definition sample_write :: rfunction where
  "sample_write =
     (let x = \<lparr>sym_name = ''x'', sym_typ = Primitive (UnsignedIntegerT 8)\<rparr> in
      \<lparr>return_type = None, parameters = [], fn_name = ''write'', local_variables = [(''x'', x)],
       block_arena = [\<lparr>statement_arena = [Constant (UnsignedInteger 7 8), WriteVariable x 0, Return None], statements = [0, 1, 2]\<rparr>],
       entry_block = 0\<rparr>)"

theorem dead_write_elimination_sound_witness:
  "\<exists>f'. optimise_function (Suc (Suc (Suc (Suc 0)))) [dead_write_elimination, dead_symbol_elimination] sample_write = Inr f'
     \<and> map statements (block_arena f') = [[0, 2]] \<and> local_variables f' = []
     \<and> model_refines sample_env (model_new [(''write'', sample_write)] [])
          (update_function (model_new [(''write'', sample_write)] []) ''write'' f')"
proof -
  have m: "map_of (fns (model_new [(''write'', sample_write)] [])) ''write'' = Some sample_write"
    by (simp add: model_new_def)
  obtain f' where run: "optimise_function (Suc (Suc (Suc (Suc 0)))) [dead_write_elimination, dead_symbol_elimination] sample_write = Inr f'"
      "map statements (block_arena f') = [[0, 2]]" "local_variables f' = []"
    by (simp add: dead_symbol_step_def run_passes_once_def dead_write_elimination_def dead_symbol_elimination_def
        symbol_use_analysis_new_def symbol_analyse_block_def insert_use_def push_entry_def Let_def local_variable_symbols_def
        dead_write_symbol_def symbol_has_reads_def symbol_has_writes_def get_symbol_writes_def kill_in_function_def
        is_symbol_dead_def remove_local_variable_def analysis_eval sample_write_def)
  show ?thesis by (intro exI conjI) (rule run dead_write_elimination_sound [OF m run(1)])+
qed
end
