(* ===== verification/Block_Rewrite.thy ===== *)
theory Block_Rewrite
  imports Opt_Dead
begin

text \<open>
  Rewriting inside one block.  \<open>block_refines\<close> says that a block does what another did; a pass
  that replaces a block by such a one is sound (\<open>set_block_refines\<close>).  The main tool is
  \<open>redirect_block\<close>: when a statement \<open>w\<close> always has the value of a later statement \<open>u\<close>, uses of
  \<open>u\<close> may be redirected to \<open>w\<close> with \<open>replace_use\<close>, in a block whose statements are distinct and
  use only earlier ones.
\<close>

section \<open>Replacing a block\<close>

definition block_refines :: "block \<Rightarrow> block \<Rightarrow> bool" where
  "block_refines blk blk' \<longleftrightarrow> (\<forall>C st r. exec_block C blk st = Inr r \<longrightarrow> exec_block C blk' st = Inr r)"

definition set_block :: "rfunction \<Rightarrow> block_id \<Rightarrow> block \<Rightarrow> rfunction" where
  "set_block f b blk = f\<lparr>block_arena := (block_arena f)[b := blk]\<rparr>"

lemma block_refines_refl [simp, intro]: "block_refines blk blk"
  by (simp add: block_refines_def)

lemma block_refines_trans [trans]: "block_refines a b \<Longrightarrow> block_refines b c \<Longrightarrow> block_refines a c"
  by (simp add: block_refines_def)

lemma set_block_simulation:
  assumes "arena_get (block_arena f) b = Inr blk" and "block_refines blk blk'"
  shows "block_simulation (\<lambda>_. True) (\<lambda>_. True) f (set_block f b blk') same_store"
proof
  fix C x bx res and st st' st1 :: interpreter
  assume "same_store st st'" and get: "arena_get (block_arena f) x = Inr bx" and run: "exec_block C bx st = Inr (st1, res)"
  then have "exec_block C bx st' = Inr (st1, res)"
    using clear_same_store by (simp add: exec_block_def)
  moreover have "arena_get (block_arena (set_block f b blk')) x = Inr (if x = b then blk' else bx)"
    using get assms(1) by (auto simp: set_block_def arena_get_def split: if_splits)
  ultimately show "\<exists>bx' st1' res'. arena_get (block_arena (set_block f b blk')) x = Inr bx'
      \<and> exec_block C bx' st' = Inr (st1', res') \<and> same_store st1 st1' \<and> regs st1' = regs st1 \<and> same_destination f res res'"
    using assms get unfolding block_refines_def by (auto simp: same_store_def)
qed (simp_all add: set_block_def same_store_def clear_values_def)

lemma set_block_refines:
  assumes "map_of (fns m) name = Some f" and "arena_get (block_arena f) b = Inr blk" and "block_refines blk blk'"
  shows "model_refines E m (update_function m name (set_block f b blk'))"
  using block_simulation.simulates [OF set_block_simulation [OF assms(2,3)] assms(1)] by simp

section \<open>Executing a prefix\<close>

fun exec_prefix :: "exec_ctx \<Rightarrow> statement arena \<Rightarrow> stmt_id list \<Rightarrow> interpreter \<Rightarrow> interpreter res" where
  "exec_prefix C sa [] st = Inr st"
| "exec_prefix C sa (r # rs) st =
     rbind (arena_get sa r) (\<lambda>s. rbind (exec_statement C sa st s) (\<lambda>(st, out).
     case out of Finished result \<Rightarrow> Inl Unreachable | Produced v \<Rightarrow> exec_prefix C sa rs (bind_value st r v)))"

lemma exec_prefix_Cons:
  "exec_prefix C sa (r # rs) st = Inr st' \<longleftrightarrow>
     (\<exists>s st1 v. arena_get sa r = Inr s \<and> exec_statement C sa st s = Inr (st1, Produced v)
        \<and> exec_prefix C sa rs (bind_value st1 r v) = Inr st')"
proof
  assume "exec_prefix C sa (r # rs) st = Inr st'"
  then obtain s st1 out where "arena_get sa r = Inr s" "exec_statement C sa st s = Inr (st1, out)"
      "(case out of Finished result \<Rightarrow> Inl Unreachable | Produced v \<Rightarrow> exec_prefix C sa rs (bind_value st1 r v)) = Inr st'"
    by (auto elim!: rbind_InrE)
  then show "\<exists>s st1 v. arena_get sa r = Inr s \<and> exec_statement C sa st s = Inr (st1, Produced v)
      \<and> exec_prefix C sa rs (bind_value st1 r v) = Inr st'"
    by (cases out) auto
qed auto

lemma exec_prefix_append:
  "exec_prefix C sa (xs @ ys) st = rbind (exec_prefix C sa xs st) (exec_prefix C sa ys)"
proof (induction xs arbitrary: st)
  case (Cons x xs)
  then show ?case
    by (auto simp: rbind_assoc split_beta intro!: rbind_cong split: outcome.splits)
qed simp

lemma exec_prefix_snoc:
  "exec_prefix C sa (xs @ [x]) st = Inr st' \<longleftrightarrow>
     (\<exists>st1 s st2 v. exec_prefix C sa xs st = Inr st1 \<and> arena_get sa x = Inr s
        \<and> exec_statement C sa st1 s = Inr (st2, Produced v) \<and> st' = bind_value st2 x v)"
  by (auto simp: exec_prefix_append rbind_eq_Inr exec_prefix_Cons simp del: exec_prefix.simps(2))

lemma bind_value_other: "y \<noteq> x \<Longrightarrow> statement_values (bind_value st x v) y = statement_values st y"
  by (simp add: bind_value_def split: option.splits)

lemma bind_value_store [simp]:
  "locals (bind_value st x v) = locals st" "regs (bind_value st x v) = regs st" "flags (bind_value st x v) = flags st"
  by (simp_all add: bind_value_def split: option.splits)

lemma exec_prefix_values:
  "exec_prefix C sa xs st = Inr st' \<Longrightarrow> y \<notin> set xs \<Longrightarrow> statement_values st' y = statement_values st y"
  by (induction xs arbitrary: st)
    (auto simp: exec_prefix_Cons bind_value_other dest!: exec_keeps_values simp del: exec_prefix.simps(2))

text \<open>
  A block in which every statement is listed once and only uses statements listed before it.
\<close>

definition ssa :: "statement arena \<Rightarrow> stmt_id list \<Rightarrow> bool" where
  "ssa sa rs \<longleftrightarrow> distinct rs \<and> (\<forall>i<length rs. rs ! i < length sa \<and> set (operands (sa ! (rs ! i))) \<subseteq> set (take i rs))"

lemma ssa_operands:
  assumes "ssa sa (xs @ x # ys)"
  shows "set (operands (sa ! x)) \<subseteq> set xs" and "x < length sa" and "x \<notin> set xs" and "x \<notin> set ys"
proof -
  show "x \<notin> set xs" "x \<notin> set ys" using assms by (auto simp: ssa_def)
  have "\<forall>i<length (xs @ x # ys). (xs @ x # ys) ! i < length sa
      \<and> set (operands (sa ! ((xs @ x # ys) ! i))) \<subseteq> set (take i (xs @ x # ys))"
    using assms by (simp add: ssa_def)
  from this [rule_format, of "length xs"] show "set (operands (sa ! x)) \<subseteq> set xs" "x < length sa" by simp_all
qed

lemma ssa_split:
  "ssa sa rs \<longleftrightarrow> distinct rs \<and> (\<forall>xs x ys. rs = xs @ x # ys \<longrightarrow> x < length sa \<and> set (operands (sa ! x)) \<subseteq> set xs)"
proof
  assume *: "distinct rs \<and> (\<forall>xs x ys. rs = xs @ x # ys \<longrightarrow> x < length sa \<and> set (operands (sa ! x)) \<subseteq> set xs)"
  then have "rs ! i < length sa \<and> set (operands (sa ! (rs ! i))) \<subseteq> set (take i rs)" if "i < length rs" for i
    using id_take_nth_drop [OF that] by blast
  with * show "ssa sa rs" by (simp add: ssa_def)
next
  assume ssa: "ssa sa rs"
  then have "distinct rs" by (simp add: ssa_def)
  with ssa ssa_operands(1,2) [of sa]
  show "distinct rs \<and> (\<forall>xs x ys. rs = xs @ x # ys \<longrightarrow> x < length sa \<and> set (operands (sa ! x)) \<subseteq> set xs)"
    by blast
qed

lemma ssa_snoc: "ssa sa (xs @ [x]) \<longleftrightarrow> ssa sa xs \<and> x \<notin> set xs \<and> x < length sa \<and> set (operands (sa ! x)) \<subseteq> set xs"
  by (auto simp: ssa_def nth_append less_Suc_eq split: if_splits)

lemma ssa_prefix: "ssa sa (xs @ ys) \<Longrightarrow> ssa sa xs"
  by (induction ys rule: rev_induct) (auto simp: ssa_snoc simp flip: append_assoc)

section \<open>Redirecting uses\<close>

lemma replace_use_cases:
  "replace_use s u w = Inr s' \<Longrightarrow>
     s' = rename_refs (subst u w) s \<or> (\<exists>k. s = BinaryOperation k u u \<and> s' = BinaryOperation k w u)"
  by (cases s) (auto simp: subst_def split: if_splits)

lemma typ_unfold: "statement_typ sa s = Inr t \<longleftrightarrow> typ_step (typ_at sa) sa s = Inr t"
proof -
  have "typ_step (typ_at sa) sa s = statement_typ_fuel (Suc (length sa + 1)) sa s"
    unfolding statement_typ_fuel.simps typ_at_def statement_typ_def ..
  then show ?thesis
    using typ_fuel_enough [of "Suc (length sa + 1)" sa s t] typ_fuel_mono [of "length sa + 1" sa s t "Suc (length sa + 1)"]
    by (auto simp: statement_typ_def)
qed

lemma typ_at_unfold:
  "r < length sa \<Longrightarrow> typ_at sa r = Inr t \<longleftrightarrow> typ_step (typ_at sa) sa (sa ! r) = Inr t"
  unfolding typ_at_def [of sa r] by (simp add: arena_get_def typ_unfold)

definition constant_at :: "statement arena \<Rightarrow> stmt_id \<Rightarrow> rconst option res" where
  "constant_at sa r = rbind (arena_get sa r) (\<lambda>s. Inr (as_constant s))"

lemma typ_step_extract:
  "typ_step rec sa (BitExtract v s w) =
     rbind (constant_at sa w) (\<lambda>c. case c of Some len \<Rightarrow> typ_of_extract len | None \<Rightarrow> rec v)"
  by (simp add: typ_step_def constant_at_def rbind_assoc)

lemma typ_step_rename:
  assumes "\<And>r t. r \<in> set (operands s) \<Longrightarrow> rec r = Inr t \<Longrightarrow> rec' (p r) = Inr t"
    and "\<And>v i w. s = BitExtract v i w \<Longrightarrow> constant_at sa' (p w) = constant_at sa w"
    and "typ_step rec sa s = Inr t"
  shows "typ_step rec' sa' (rename_refs p s) = Inr t"
proof -
  have list: "mapR (\<lambda>v. rbind (rec' v) unwrap) (map p vs) = Inr ts"
    if "mapR (\<lambda>v. rbind (rec v) unwrap) vs = Inr ts" "\<And>r t. r \<in> set vs \<Longrightarrow> rec r = Inr t \<Longrightarrow> rec' (p r) = Inr t" for vs ts
    using that by (induction vs arbitrary: ts) (auto simp: rbind_eq_Inr unwrap_eq_Inr)
  show ?thesis
  proof (cases s)
    case (BitExtract v i w)
    then show ?thesis
      using assms by (auto simp: typ_step_extract rbind_eq_Inr split: option.splits)
  next
    case (CreateTuple vs)
    then show ?thesis using assms list [of vs] by (auto simp: typ_step_def rbind_eq_Inr)
  qed (use assms in \<open>auto simp: typ_step_def rbind_eq_Inr split: if_splits list.splits\<close>)
qed

definition redirected :: "stmt_id \<Rightarrow> stmt_id \<Rightarrow> statement \<Rightarrow> statement \<Rightarrow> bool" where
  "redirected u w s s' \<longleftrightarrow> s' = s \<or> replace_use s u w = Inr s'"

text \<open>
  The statements the passes below redirect away from.  As long as none of them is the width of a
  bit extraction, whose type depends on whether its width is constant, redirecting keeps types.
\<close>

definition replaceable :: "statement \<Rightarrow> bool" where
  "replaceable s \<longleftrightarrow> (case s of ReadVariable _ \<Rightarrow> True | TupleAccess _ _ \<Rightarrow> True | Cast _ _ _ \<Rightarrow> True | _ \<Rightarrow> False)"

definition widths_fixed :: "statement arena \<Rightarrow> stmt_id list \<Rightarrow> bool" where
  "widths_fixed sa rs \<longleftrightarrow> (\<forall>x\<in>set rs. \<forall>v i w. sa ! x = BitExtract v i w \<longrightarrow> w < length sa \<and> \<not> replaceable (sa ! w))"

lemma replace_use_keeps:
  "replace_use s u w = Inr s' \<Longrightarrow> replaceable s' = replaceable s \<and> as_constant s' = as_constant s"
  by (cases s) (auto simp: replaceable_def split: if_splits)

lemma redirected_keeps: "redirected u w s s' \<Longrightarrow> replaceable s' = replaceable s" "redirected u w s s' \<Longrightarrow> as_constant s' = as_constant s"
  using replace_use_keeps by (auto simp: redirected_def)

text \<open>Arenas of which the second redirects some uses of \<open>u\<close> to \<open>w\<close>.\<close>

definition redirection :: "stmt_id \<Rightarrow> stmt_id \<Rightarrow> statement arena \<Rightarrow> statement arena \<Rightarrow> bool" where
  "redirection u w sa sa' \<longleftrightarrow> length sa' = length sa \<and> (\<forall>x<length sa. redirected u w (sa ! x) (sa' ! x))"

lemma redirection_constant: "redirection u w sa sa' \<Longrightarrow> constant_at sa' r = constant_at sa r"
  using redirected_keeps(2) by (auto simp: redirection_def constant_at_def arena_get_def)

lemma typ_step_redirected:
  assumes "redirected u w s s'"
    and "\<And>r t. r \<in> set (operands s) \<Longrightarrow> rec r = Inr t \<Longrightarrow> rec' r = Inr t"
    and "\<And>t. u \<in> set (operands s) \<Longrightarrow> rec u = Inr t \<Longrightarrow> rec' w = Inr t"
    and "\<And>v i x. s = BitExtract v i x \<Longrightarrow> x \<noteq> u" and "\<And>x. constant_at sa' x = constant_at sa x"
    and "typ_step rec sa s = Inr t"
  shows "typ_step rec' sa' s' = Inr t"
proof -
  have "typ_step rec' sa' (rename_refs (\<lambda>r. r) s) = Inr t"
    by (rule typ_step_rename [OF _ _ assms(6)]) (use assms(2,5) in auto)
  moreover have "typ_step rec' sa' (rename_refs (subst u w) s) = Inr t"
    by (rule typ_step_rename [OF _ _ assms(6)]) (use assms(2-5) in \<open>auto simp: subst_def\<close>)
  moreover have "typ_step rec' sa' (BinaryOperation k w u) = Inr t" if "s = BinaryOperation k u u" for k
    using assms(2,3,6) that by (auto simp: typ_step_def split: if_splits)
  ultimately show ?thesis
    using assms(1) replace_use_cases by (fastforce simp: redirected_def)
qed

lemma redirection_types:
  assumes red: "redirection u w sa sa'" and "ssa sa rs" and widths: "widths_fixed sa rs" and u: "replaceable (sa ! u)"
    and ty: "\<And>t. typ_at sa u = Inr t \<Longrightarrow> typ_at sa w = Inr t"
    and first: "\<And>xs ys. rs = xs @ ys \<Longrightarrow> u \<in> set xs \<Longrightarrow> w \<in> set xs"
    and "x \<in> set rs" and "typ_at sa x = Inr t"
  shows "typ_at sa' x = Inr t"
proof -
  have "\<forall>x\<in>set xs. \<forall>t. typ_at sa x = Inr t \<longrightarrow> typ_at sa' x = Inr t" if "rs = xs @ ys" for xs ys
    using that
  proof (induction xs arbitrary: ys rule: rev_induct)
    case (snoc x xs)
    have kept: "\<And>r t. r \<in> set xs \<Longrightarrow> typ_at sa r = Inr t \<Longrightarrow> typ_at sa' r = Inr t" using snoc by simp
    have rs: "rs = xs @ x # ys" "ssa sa (xs @ x # ys)" using snoc.prems assms(2) by simp_all
    note x = ssa_operands [OF rs(2)]
    have len: "length sa' = length sa" and sx: "redirected u w (sa ! x) (sa' ! x)"
      using red x(2) by (auto simp: redirection_def)
    have "typ_at sa' x = Inr t" if t: "typ_at sa x = Inr t" for t
    proof -
      have "typ_step (typ_at sa) sa (sa ! x) = Inr t" using t typ_at_unfold [OF x(2)] by simp
      then have "typ_step (typ_at sa') sa' (sa' ! x) = Inr t"
      proof (rule typ_step_redirected [OF sx, rotated -1])
        show "typ_at sa' w = Inr t" if "u \<in> set (operands (sa ! x))" "typ_at sa u = Inr t" for t
          using that x(1) first [of xs "x # ys"] rs(1) kept ty by blast
        show "y \<noteq> u" if "sa ! x = BitExtract v i y" for v i y
          using that widths u rs(1) by (auto simp: widths_fixed_def)
      qed (use kept x(1) redirection_constant [OF red] in auto)
      then show ?thesis using typ_at_unfold [of x sa' t] len x(2) by simp
    qed
    with kept show ?case by auto
  qed simp
  from this [of rs "[]"] assms(7,8) show ?thesis by simp
qed

lemma exec_replace_use:
  assumes "redirected u w s s'" and "u \<in> set (operands s) \<Longrightarrow> statement_values st w = statement_values st u"
    and "\<And>r t. r \<in> set (operands s) \<Longrightarrow> typ_at sa r = Inr t \<Longrightarrow> typ_at sa' r = Inr t"
    and "\<And>t. u \<in> set (operands s) \<Longrightarrow> typ_at sa u = Inr t \<Longrightarrow> typ_at sa' w = Inr t"
    and run: "exec_statement C sa st s = Inr (st1, out)"
  shows "exec_statement C sa' st s' = Inr (st1, out)"
proof -
  have store: "same_store st st" by (simp add: same_store_def)
  have st1: "st1\<lparr>statement_values := statement_values st\<rparr> = st1"
    using exec_keeps_values [OF run] by (cases st1) simp
  have "exec_statement C sa' st (rename_refs (\<lambda>r. r) s) = Inr (st1, out)"
    using exec_rename [OF store _ _ run, of "\<lambda>r. r" sa'] assms(3) st1 by (simp add: values_agree_def)
  moreover have "exec_statement C sa' st (rename_refs (subst u w) s) = Inr (st1, out)"
  proof -
    have "values_agree (subst u w) (set (operands s)) st st"
      using assms(2) by (auto simp: values_agree_def subst_def)
    moreover have "typ_at sa' (subst u w r) = Inr t" if "r \<in> set (operands s)" "typ_at sa r = Inr t" for r t
      using assms(3,4) that by (auto simp: subst_def)
    ultimately show ?thesis using exec_rename [OF store _ _ run, of "subst u w" sa'] st1 by simp
  qed
  moreover have "exec_statement C sa' st (BinaryOperation k w u) = Inr (st1, out)" if "s = BinaryOperation k u u" for k
    using run assms(2) that
    by (simp add: exec_statement_def eval_value_def is_read_statement_def is_bits_statement_def eval_arith_def resolve_def)
  ultimately show ?thesis
    using assms(1) replace_use_cases by (fastforce simp: redirected_def)
qed

text \<open>
  The central step: \<open>u\<close> is preceded by \<open>w\<close>, and whenever \<open>u\<close> is reached and returns a value,
  \<open>w\<close> already has it.
\<close>

definition forced :: "statement arena \<Rightarrow> stmt_id list \<Rightarrow> stmt_id \<Rightarrow> stmt_id \<Rightarrow> bool" where
  "forced sa pre u w \<longleftrightarrow> w \<in> set pre
     \<and> (\<forall>C st0 st st1 v. statement_values st0 = Map.empty \<longrightarrow> exec_prefix C sa pre st0 = Inr st
          \<longrightarrow> exec_statement C sa st (sa ! u) = Inr (st1, Produced v) \<longrightarrow> v \<noteq> None \<and> statement_values st w = v)"

lemma prefix_of_distinct:
  assumes "distinct (pre @ u # post)" and "pre @ u # post = xs @ ys" and "u \<in> set xs"
  shows "\<exists>zs. xs = pre @ u # zs"
  using assms by (auto simp: append_eq_append_conv2 append_eq_Cons_conv Cons_eq_append_conv)

lemma forced_values:
  assumes "forced sa pre u w" and "distinct (pre @ u # zs)" and "u < length sa"
    and "statement_values st0 = Map.empty" and "exec_prefix C sa (pre @ u # zs) st0 = Inr st"
  shows "statement_values st w = statement_values st u"
proof -
  from assms(5) obtain sp where sp: "exec_prefix C sa pre st0 = Inr sp" "exec_prefix C sa (u # zs) sp = Inr st"
    unfolding exec_prefix_append by (elim rbind_InrE)
  from sp(2) obtain s st1 v where run: "arena_get sa u = Inr s" "exec_statement C sa sp s = Inr (st1, Produced v)"
      "exec_prefix C sa zs (bind_value st1 u v) = Inr st"
    unfolding exec_prefix_Cons by blast
  then have "v \<noteq> None" "statement_values sp w = v"
    using assms(1,3,4) sp(1) unfolding forced_def by (auto simp: arena_get_def)
  moreover have "w \<in> set pre" using assms(1) by (simp add: forced_def)
  moreover have "statement_values st1 = statement_values sp" by (rule exec_keeps_values [OF run(2)])
  ultimately have "statement_values (bind_value st1 u v) w = v" "statement_values (bind_value st1 u v) u = v"
    using assms(2) by (auto simp: bind_value_def)
  then show ?thesis
    using exec_prefix_values [OF run(3), of w] exec_prefix_values [OF run(3), of u] assms(2) \<open>w \<in> set pre\<close> by auto
qed

lemma exec_redirected:
  assumes red: "redirection u w sa sa'" and ssa: "ssa sa rs" and widths: "widths_fixed sa rs" and u: "replaceable (sa ! u)"
    and ty: "\<And>t. typ_at sa u = Inr t \<Longrightarrow> typ_at sa w = Inr t" and rs: "rs = pre @ u # post" and forced: "forced sa pre u w"
    and "rs = done @ todo" and "statement_values st0 = Map.empty" and "exec_prefix C sa done st0 = Inr st"
    and "exec_statements C sa todo st = Inr r"
  shows "exec_statements C sa' todo st = Inr r"
  using assms(8,10,11)
proof (induction todo arbitrary: "done" st)
  case (Cons x todo)
  have dist: "distinct (pre @ u # post)" using ssa rs by (simp add: ssa_def)
  have first: "w \<in> set xs" if xs: "rs = xs @ ys" "u \<in> set xs" for xs ys
  proof -
    obtain zs where "xs = pre @ u # zs" using prefix_of_distinct [OF dist _ xs(2)] xs(1) rs by auto
    then show ?thesis using forced by (simp add: forced_def)
  qed
  note x = ssa_operands [OF ssa [unfolded Cons.prems(1)]]
  have types: "typ_at sa' y = Inr t" if "y \<in> set rs" "typ_at sa y = Inr t" for y t
    by (rule redirection_types [OF red ssa widths u ty first that])
  have vals: "statement_values st w = statement_values st u" if u_done: "u \<in> set done"
  proof -
    obtain zs where zs: "done = pre @ u # zs"
      using prefix_of_distinct [OF dist _ u_done, of "x # todo"] rs Cons.prems(1) by auto
    have "u < length sa" using ssa_operands(2) ssa rs by blast
    moreover have "distinct (pre @ u # zs)" using Cons.prems(1) ssa zs by (auto simp: ssa_def)
    ultimately show ?thesis using forced_values [OF forced _ _ assms(9) Cons.prems(2) [unfolded zs]] by blast
  qed
  obtain st1 out where run: "exec_statement C sa st (sa ! x) = Inr (st1, out)"
      "(case out of Finished result \<Rightarrow> Inr (st1, result) | Produced v \<Rightarrow> exec_statements C sa todo (bind_value st1 x v)) = Inr r"
    using Cons.prems(3) x(2) by (auto simp: arena_get_def elim!: rbind_InrE)
  have run': "exec_statement C sa' st (sa' ! x) = Inr (st1, out)"
  proof (rule exec_replace_use [OF _ _ _ _ run(1)])
    show "redirected u w (sa ! x) (sa' ! x)" using red x(2) by (simp add: redirection_def)
    show "statement_values st w = statement_values st u" if "u \<in> set (operands (sa ! x))" using vals x(1) that by blast
    show "typ_at sa' y = Inr t" if "y \<in> set (operands (sa ! x))" "typ_at sa y = Inr t" for y t
      using types that x(1) Cons.prems(1) by auto
    show "typ_at sa' w = Inr t" if "u \<in> set (operands (sa ! x))" "typ_at sa u = Inr t" for t
      using types ty that(2) forced rs by (auto simp: forced_def)
  qed
  have get': "arena_get sa' x = Inr (sa' ! x)" using red x(2) by (simp add: redirection_def arena_get_def)
  show ?case
  proof (cases out)
    case (Produced v)
    have "exec_prefix C sa (done @ [x]) st0 = Inr (bind_value st1 x v)"
      using Cons.prems(2) run(1) Produced x(2) by (auto simp: exec_prefix_snoc arena_get_def)
    then show ?thesis
      using Cons.IH [of "done @ [x]" "bind_value st1 x v"] Cons.prems(1) run run' get' Produced by simp
  qed (use run run' get' in simp)
qed simp

theorem redirect_block:
  assumes "redirection u w (statement_arena blk) sa'" and "ssa (statement_arena blk) (statements blk)"
    and "widths_fixed (statement_arena blk) (statements blk)" and "replaceable (statement_arena blk ! u)"
    and "\<And>t. typ_at (statement_arena blk) u = Inr t \<Longrightarrow> typ_at (statement_arena blk) w = Inr t"
    and "statements blk = pre @ u # post" and "forced (statement_arena blk) pre u w"
  shows "block_refines blk (blk\<lparr>statement_arena := sa'\<rparr>)"
  unfolding block_refines_def
proof (intro allI impI)
  fix C st r
  assume "exec_block C blk st = Inr r"
  then have "exec_statements C (statement_arena blk) (statements blk) (st\<lparr>statement_values := Map.empty\<rparr>) = Inr r"
    by (simp add: exec_block_def)
  then have "exec_statements C sa' (statements blk) (st\<lparr>statement_values := Map.empty\<rparr>) = Inr r"
    by (rule exec_redirected [OF assms(1-4) assms(5) assms(6,7), of "[]" _ "st\<lparr>statement_values := Map.empty\<rparr>", rotated -1]) simp_all
  then show "exec_block C (blk\<lparr>statement_arena := sa'\<rparr>) st = Inr r" by (simp add: exec_block_def)
qed

text \<open>A redirection keeps what it relies on.\<close>

lemma redirected_operands:
  "redirected u w s s' \<Longrightarrow> x \<in> set (operands s') \<Longrightarrow> x \<in> set (operands s) \<or> u \<in> set (operands s) \<and> x = w"
  using replace_use_cases by (fastforce simp: redirected_def subst_def split: if_splits)

lemma redirection_ssa:
  assumes "redirection u w sa sa'" and "ssa sa (pre @ u # post)" and "w \<in> set pre"
  shows "ssa sa' (pre @ u # post)"
  unfolding ssa_split
proof (intro conjI allI impI)
  show dist: "distinct (pre @ u # post)" using assms(2) by (simp add: ssa_def)
  fix xs x ys
  assume split: "pre @ u # post = xs @ x # ys"
  note x = ssa_operands [OF assms(2) [unfolded split]]
  show "x < length sa'" using x(2) assms(1) by (simp add: redirection_def)
  have "w \<in> set xs" if "u \<in> set xs" using prefix_of_distinct [OF dist split that] assms(3) by auto
  moreover have "redirected u w (sa ! x) (sa' ! x)" using assms(1) x(2) by (simp add: redirection_def)
  ultimately show "set (operands (sa' ! x)) \<subseteq> set xs" using x(1) redirected_operands by blast
qed

lemma redirected_extract:
  "redirected u w s (BitExtract v i x) \<Longrightarrow> \<exists>v' i' x'. s = BitExtract v' i' x' \<and> (x = x' \<or> x' = u)"
  by (cases s) (auto simp: redirected_def subst_def split: if_splits)

lemma redirection_widths:
  assumes "redirection u w sa sa'" and "ssa sa rs" and "widths_fixed sa rs" and "replaceable (sa ! u)"
  shows "widths_fixed sa' rs"
  unfolding widths_fixed_def
proof (intro ballI allI impI)
  fix x v i y
  assume x: "x \<in> set rs" and s': "sa' ! x = BitExtract v i y"
  have "x < length sa" using x assms(2) by (auto simp: ssa_def in_set_conv_nth)
  then have "redirected u w (sa ! x) (BitExtract v i y)" using assms(1) s' by (auto simp: redirection_def)
  then obtain v' i' y' where s: "sa ! x = BitExtract v' i' y'" "y = y' \<or> y' = u" using redirected_extract by blast
  then have "y' < length sa" "\<not> replaceable (sa ! y')" using assms(3) x by (auto simp: widths_fixed_def)
  then show "y < length sa' \<and> \<not> replaceable (sa' ! y)"
    using s(2) assms(1,4) redirected_keeps(1) by (auto simp: redirection_def)
qed

end
