(* ===== verification/Opt_Uses.thy ===== *)
theory Opt_Uses
  imports Block_Rewrite
begin

text \<open>
  The passes that redirect uses: \<open>variable_elimination.rs\<close>, \<open>constant_propagation.rs\<close>,
  \<open>local_tuple_removal.rs\<close> and \<open>useless_cast_elimination.rs\<close>.
\<close>

section \<open>Variable elimination\<close>

text \<open>\<open>for u in uses { u.get_mut(..).replace_use(stmt, value) }\<close>\<close>

definition redirect_uses :: "stmt_id \<Rightarrow> stmt_id \<Rightarrow> stmt_id list \<Rightarrow> block \<Rightarrow> block res" where
  "redirect_uses u w =
     foldR (\<lambda>x blk.
       rbind (arena_get (statement_arena blk) x) (\<lambda>s. rbind (replace_use s u w) (\<lambda>s.
       rbind (arena_set (statement_arena blk) x s) (\<lambda>sa. Inr (blk\<lparr>statement_arena := sa\<rparr>)))))"

type_synonym live_writes = "string \<rightharpoonup> stmt_id"

definition var_elim_step ::
    "symbol_use_analysis \<Rightarrow> purity \<Rightarrow> stmt_use_map \<Rightarrow> stmt_id \<Rightarrow> block \<times> live_writes \<times> bool \<Rightarrow> (block \<times> live_writes \<times> bool) res" where
  "var_elim_step symbol_ua p stmt_ua stmt = (\<lambda>(blk, live, changed).
     rbind (arena_get (statement_arena blk) stmt) (\<lambda>s.
     case s of
       WriteVariable sy value \<Rightarrow>
         rbind (is_symbol_local symbol_ua sy) (\<lambda>is_local.
         Inr (blk, if is_local then live(sym_name sy \<mapsto> value) else live, changed))
     | ReadVariable sy \<Rightarrow>
         rbind (is_symbol_local symbol_ua sy) (\<lambda>is_local.
         case (if is_local then live (sym_name sy) else None) of
           None \<Rightarrow> Inr (blk, live, changed)
         | Some live_value \<Rightarrow>
             rbind (is_dead (is_pure p) blk stmt_ua stmt) (\<lambda>dead.
             case (if dead then None else get_uses stmt_ua stmt) of
               None \<Rightarrow> Inr (blk, live, changed)
             | Some us \<Rightarrow>
                 rbind (redirect_uses stmt live_value us blk) (\<lambda>blk. Inr (blk, live, changed \<or> us \<noteq> []))))
     | _ \<Rightarrow> Inr (blk, live, changed)))"

definition var_elim_block :: "symbol_use_analysis \<Rightarrow> purity \<Rightarrow> block_id \<Rightarrow> function_pass" where
  "var_elim_block symbol_ua p b f =
     rbind (arena_get (block_arena f) b) (\<lambda>blk. rbind (statement_use_analysis blk) (\<lambda>stmt_ua.
     rbind (foldR (var_elim_step symbol_ua p stmt_ua) (statements blk) (blk, Map.empty, False)) (\<lambda>(blk, _, changed).
     Inr (set_block f b blk, changed))))"

definition variable_elimination :: "purity \<Rightarrow> function_pass" where
  "variable_elimination p f =
     rbind (symbol_use_analysis_new f) (\<lambda>symbol_ua. on_every_block (var_elim_block symbol_ua p) f)"

section \<open>Constant propagation\<close>

text \<open>\<open>simplify_block_local_writes\<close>\<close>

definition local_write_step ::
    "stmt_use_map \<Rightarrow> stmt_id \<Rightarrow> block \<times> live_writes \<times> bool \<Rightarrow> (block \<times> live_writes \<times> bool) res" where
  "local_write_step sua stmt = (\<lambda>(blk, recent, changed).
     rbind (arena_get (statement_arena blk) stmt) (\<lambda>s.
     case s of
       WriteVariable sy value \<Rightarrow> Inr (blk, recent(sym_name sy \<mapsto> value), changed)
     | ReadVariable sy \<Rightarrow>
         (case recent (sym_name sy) of
            None \<Rightarrow> Inr (blk, recent, changed)
          | Some w \<Rightarrow>
              (case get_uses sua stmt of
                 None \<Rightarrow> Inr (blk, recent, changed)
               | Some us \<Rightarrow> rbind (redirect_uses stmt w us blk) (\<lambda>blk. Inr (blk, recent, True))))
     | _ \<Rightarrow> Inr (blk, recent, changed)))"

definition simplify_block_local_writes :: "block_id \<Rightarrow> function_pass" where
  "simplify_block_local_writes b f =
     rbind (arena_get (block_arena f) b) (\<lambda>blk. rbind (statement_use_analysis blk) (\<lambda>sua.
     rbind (foldR (local_write_step sua) (statements blk) (blk, Map.empty, False)) (\<lambda>(blk, _, changed).
     Inr (set_block f b blk, changed))))"

text \<open>\<open>if let Statement::Constant(value) = value_written.get(..)\<close> for the only write of a variable.\<close>

definition written_constant :: "rfunction \<Rightarrow> stmt_id \<times> block_id \<Rightarrow> rconst option res" where
  "written_constant f = (\<lambda>(stmt, b).
     rbind (arena_get (block_arena f) b) (\<lambda>blk. rbind (arena_get (statement_arena blk) stmt) (\<lambda>s.
     case s of
       WriteVariable _ value \<Rightarrow> rbind (arena_get (statement_arena blk) value) (\<lambda>v. Inr (as_constant v))
     | _ \<Rightarrow> Inl ExplicitPanic)))"

definition replace_read :: "rconst \<Rightarrow> stmt_id \<times> block_id \<Rightarrow> rfunction \<Rightarrow> rfunction res" where
  "replace_read c = (\<lambda>(read, b) f.
     rbind (arena_get (block_arena f) b) (\<lambda>blk. rbind (arena_get (statement_arena blk) read) (\<lambda>s.
     case s of
       ReadVariable _ \<Rightarrow> replace_statement f b read (Constant c)
     | _ \<Rightarrow> Inl ExplicitPanic)))"

definition propagate_symbol :: "symbol_use_analysis \<Rightarrow> symbol \<Rightarrow> function_pass" where
  "propagate_symbol sua sy f =
     (if \<not> symbol_has_writes sua sy then Inr (f, False)
      else
        rbind (get_symbol_writes sua sy) (\<lambda>writes.
        case writes of
          [w] \<Rightarrow>
            rbind (written_constant f w) (\<lambda>c.
            case c of
              None \<Rightarrow> Inr (f, False)
            | Some c \<Rightarrow>
                if symbol_has_reads sua sy then
                  rbind (get_symbol_reads sua sy) (\<lambda>reads.
                  rbind (foldR (replace_read c) reads f) (\<lambda>f. Inr (f, reads \<noteq> [])))
                else Inr (f, False))
        | _ \<Rightarrow> Inr (f, False)))"

definition constant_propagation :: function_pass where
  "constant_propagation f =
     rbind (symbol_use_analysis_new f) (\<lambda>sua.
     rbind (foldR (\<lambda>sy (f, changed). rbind (propagate_symbol sua sy f) (\<lambda>(f, c). Inr (f, changed \<or> c)))
              (local_variable_symbols f) (f, False)) (\<lambda>(f, changed).
     rbind (on_every_block simplify_block_local_writes f) (\<lambda>(f, c). Inr (f, changed \<or> c))))"

section \<open>Local tuples\<close>

definition tuple_step :: "stmt_use_map \<Rightarrow> stmt_id \<Rightarrow> block \<times> bool \<Rightarrow> (block \<times> bool) res" where
  "tuple_step sua stmt = (\<lambda>(blk, changed).
     rbind (arena_get (statement_arena blk) stmt) (\<lambda>s.
     case s of
       TupleAccess index source \<Rightarrow>
         rbind (arena_get (statement_arena blk) source) (\<lambda>src.
         case src of
           CreateTuple items \<Rightarrow>
             rbind (rassert (index < length items)) (\<lambda>_.
             case get_uses sua stmt of
               None \<Rightarrow> Inr (blk, changed)
             | Some us \<Rightarrow> rbind (redirect_uses stmt (items ! index) us blk) (\<lambda>blk. Inr (blk, True)))
         | _ \<Rightarrow> Inr (blk, changed))
     | _ \<Rightarrow> Inr (blk, changed)))"

definition tuple_block :: "block_id \<Rightarrow> function_pass" where
  "tuple_block b f =
     rbind (arena_get (block_arena f) b) (\<lambda>blk. rbind (statement_use_analysis blk) (\<lambda>sua.
     rbind (foldR (tuple_step sua) (statements blk) (blk, False)) (\<lambda>(blk, changed).
     Inr (set_block f b blk, changed))))"

definition local_tuple_removal :: function_pass where
  "local_tuple_removal = on_every_block tuple_block"

section \<open>Useless casts\<close>

text \<open>The scan stops after the first removed conversion, because the uses have to be recomputed.\<close>

definition useless_convert :: "rtype \<Rightarrow> rtype \<Rightarrow> bool" where
  "useless_convert source_type t \<longleftrightarrow>
     source_type = t
     \<or> (case (t, source_type) of
          (Vector 0 target_element, Vector n source_element) \<Rightarrow> 0 < n \<and> target_element = source_element
        | _ \<Rightarrow> False)"

definition useless_cast_step :: "stmt_use_map \<Rightarrow> stmt_id \<Rightarrow> block \<Rightarrow> (block \<times> bool) res" where
  "useless_cast_step sua stmt blk =
     rbind (arena_get (statement_arena blk) stmt) (\<lambda>s.
     case s of
       Cast ConvertK t value \<Rightarrow>
         rbind (typ_at (statement_arena blk) value) (\<lambda>ty. rbind (unwrap ty) (\<lambda>source_type.
         case (if useless_convert source_type t then get_uses sua stmt else None) of
           Some us \<Rightarrow> rbind (redirect_uses stmt value us blk) (\<lambda>blk. Inr (blk, True))
         | None \<Rightarrow> Inr (blk, False)))
     | Cast ReinterpretK t value \<Rightarrow>
         rbind (typ_at (statement_arena blk) value) (\<lambda>ty.
         if ty = Some t then
           rbind (arena_get (statement_arena blk) value) (\<lambda>v. rbind (arena_set (statement_arena blk) stmt v) (\<lambda>sa.
           Inr (blk\<lparr>statement_arena := sa\<rparr>, False)))
         else Inr (blk, False))
     | _ \<Rightarrow> Inr (blk, False))"

fun useless_cast_scan :: "stmt_use_map \<Rightarrow> stmt_id list \<Rightarrow> block \<Rightarrow> (block \<times> bool) res" where
  "useless_cast_scan sua [] blk = Inr (blk, False)"
| "useless_cast_scan sua (stmt # rest) blk =
     rbind (useless_cast_step sua stmt blk) (\<lambda>(blk, removed).
     if removed then Inr (blk, True) else useless_cast_scan sua rest blk)"

definition useless_cast_block :: "block_id \<Rightarrow> function_pass" where
  "useless_cast_block b f =
     rbind (arena_get (block_arena f) b) (\<lambda>blk. rbind (statement_use_analysis blk) (\<lambda>sua.
     rbind (useless_cast_scan sua (statements blk) blk) (\<lambda>(blk, changed). Inr (set_block f b blk, changed))))"

definition useless_cast_elimination :: function_pass where
  "useless_cast_elimination = on_every_block useless_cast_block"

lemma statement_typ_leaf [simp]:
  "statement_typ sa (Constant c) = rbind (const_typ c) (\<lambda>t. Inr (Some t))"
  "statement_typ sa (ReadVariable sy) = Inr (Some (sym_typ sy))"
  by (simp_all add: statement_typ_def statement_typ_fuel.simps typ_step_def)

lemma all_less_Suc: "(\<forall>i<Suc n. P i) \<longleftrightarrow> P n \<and> (\<forall>i<n. P i)"
  by (auto simp: less_Suc_eq)

section \<open>Redirecting the recorded uses\<close>

lemma redirect_uses_spec:
  assumes "redirect_uses u w us blk = Inr blk'" and "distinct us"
  shows "blk' = blk\<lparr>statement_arena := statement_arena blk'\<rparr>
    \<and> redirection u w (statement_arena blk) (statement_arena blk')
    \<and> (\<forall>x. x \<notin> set us \<longrightarrow> statement_arena blk' ! x = statement_arena blk ! x)"
  using assms
proof (induction us arbitrary: blk)
  case Nil
  then show ?case by (simp add: redirect_uses_def redirection_def redirected_def)
next
  case (Cons x us)
  obtain s s' where s: "x < length (statement_arena blk)" "s = statement_arena blk ! x" "replace_use s u w = Inr s'"
      "redirect_uses u w us (blk\<lparr>statement_arena := (statement_arena blk)[x := s']\<rparr>) = Inr blk'"
    using Cons.prems(1) unfolding redirect_uses_def
    by (auto simp: rbind_eq_Inr arena_get_Inr arena_set_Inr)
  let ?blk = "blk\<lparr>statement_arena := (statement_arena blk)[x := s']\<rparr>"
  have IH: "blk' = ?blk\<lparr>statement_arena := statement_arena blk'\<rparr>" "redirection u w (statement_arena ?blk) (statement_arena blk')"
      "\<forall>y. y \<notin> set us \<longrightarrow> statement_arena blk' ! y = statement_arena ?blk ! y"
    using Cons.IH [OF s(4)] Cons.prems(2) by simp_all
  have x: "statement_arena blk' ! x = s'" using IH(3) Cons.prems(2) s(1) by simp
  have "redirected u w (statement_arena blk ! y) (statement_arena blk' ! y)" if "y < length (statement_arena blk)" for y
    using IH(2) x s that by (cases "y = x") (auto simp: redirection_def redirected_def)
  then show ?case using IH x Cons.prems(2) by (auto simp: redirection_def)
qed

definition uses_sound :: "block \<Rightarrow> stmt_use_map \<Rightarrow> bool" where
  "uses_sound b m \<longleftrightarrow> (\<forall>r us. map_of m r = Some us \<longrightarrow> distinct us
     \<and> (\<forall>x\<in>set us. x \<in> set (statements b) \<and> r \<in> set (analysed_operands (statement_arena b ! x))))"

lemma uses_soundD:
  assumes "uses_sound b m" and "map_of m r = Some us"
  shows "distinct us" and "x \<in> set us \<Longrightarrow> x \<in> set (statements b) \<and> r \<in> set (analysed_operands (statement_arena b ! x))"
  using assms unfolding uses_sound_def by blast+

lemma fold_add_use_sound:
  assumes "uses_sound b m" and "x \<in> set (statements b)" and "set rs \<subseteq> set (analysed_operands (statement_arena b ! x))"
  shows "uses_sound b (fold (\<lambda>r. add_use r x) rs m)"
  using assms
proof (induction rs arbitrary: m)
  case (Cons r rs)
  have "uses_sound b (add_use r x m)"
    unfolding uses_sound_def
  proof (intro allI impI)
    fix r' us assume us: "map_of (add_use r x m) r' = Some us"
    have old: "distinct vs \<and> (\<forall>x\<in>set vs. x \<in> set (statements b) \<and> q \<in> set (analysed_operands (statement_arena b ! x)))"
      if "map_of m q = Some vs" for q vs using uses_soundD [OF Cons.prems(1) that] by blast
    have "r' \<noteq> r \<and> map_of m r' = Some us \<or> r' = r \<and> map_of m r = None \<and> us = [x]
        \<or> (\<exists>vs. r' = r \<and> map_of m r = Some vs \<and> us = List.insert x vs)"
      using us by (cases "map_of m r"; cases "r' = r") (simp_all add: add_use_def map_of_insert_entry)
    then show "distinct us \<and> (\<forall>x\<in>set us. x \<in> set (statements b) \<and> r' \<in> set (analysed_operands (statement_arena b ! x)))"
    proof (elim disjE exE conjE)
      assume "map_of m r' = Some us"
      then show ?thesis by (rule old)
    next
      fix vs assume "map_of m r = Some vs" "r' = r" "us = List.insert x vs"
      then show ?thesis using old [of r vs] Cons.prems(2,3) by auto
    qed (use Cons.prems(2,3) in auto)
  qed
  then show ?case using Cons.IH [of "add_use r x m"] Cons.prems by simp
qed simp

lemma statement_use_analysis_sound: "statement_use_analysis b = Inr m \<Longrightarrow> uses_sound b m"
  unfolding statement_use_analysis_def
  by (rule foldR_invariant [where P = "uses_sound b", rotated 2])
    (auto simp: rbind_eq_Inr arena_get_Inr uses_sound_def [of b "[]"] intro: fold_add_use_sound)

lemma analysed_subset: "set (analysed_operands s) \<subseteq> set (operands s)"
  by (cases s) auto

lemma uses_after:
  assumes "uses_sound b m" and "ssa (statement_arena b) (xs @ u # ys)" and "statements b = xs @ u # ys"
    and "get_uses m u = Some us"
  shows "distinct us" and "set us \<subseteq> set ys"
proof -
  have m: "map_of m u = Some us" using assms(4) by (simp add: get_uses_def)
  show "distinct us" by (rule uses_soundD(1) [OF assms(1) m])
  show "set us \<subseteq> set ys"
  proof
    fix x assume us: "x \<in> set us"
    have "x \<in> set (statements b) \<and> u \<in> set (analysed_operands (statement_arena b ! x))"
      by (rule uses_soundD(2) [OF assms(1) m us])
    then have x: "x \<in> set (xs @ u # ys)" "u \<in> set (operands (statement_arena b ! x))"
      using subsetD [OF analysed_subset] assms(3) by auto
    from x(1) obtain as bs where split: "xs @ u # ys = as @ x # bs" by (meson split_list)
    have "u \<in> set as" using ssa_operands(1) [OF assms(2) [unfolded split]] x(2) by blast
    moreover have "distinct (xs @ u # ys)" using assms(2) by (simp add: ssa_def)
    ultimately obtain zs where "as = xs @ u # zs" using prefix_of_distinct split by metis
    then show "x \<in> set ys" using split by auto
  qed
qed

section \<open>Reaching writes\<close>

text \<open>The operand of the last write to a variable among the given statements.\<close>

definition reaching :: "statement arena \<Rightarrow> stmt_id list \<Rightarrow> string \<Rightarrow> stmt_id option" where
  "reaching sa xs n =
     fold (\<lambda>x acc. case sa ! x of WriteVariable sy v \<Rightarrow> if sym_name sy = n then Some v else acc | _ \<Rightarrow> acc) xs None"

lemma reaching_Nil [simp]: "reaching sa [] n = None"
  by (simp add: reaching_def)

lemma reaching_snoc:
  "reaching sa (xs @ [x]) n =
     (case sa ! x of WriteVariable sy v \<Rightarrow> if sym_name sy = n then Some v else reaching sa xs n | _ \<Rightarrow> reaching sa xs n)"
  unfolding reaching_def by simp

lemma reaching_cong: "(\<And>x. x \<in> set xs \<Longrightarrow> sa' ! x = sa ! x) \<Longrightarrow> reaching sa' xs n = reaching sa xs n"
  unfolding reaching_def by (rule fold_cong) auto

lemma reaching_write:
  "reaching sa xs n = Some w \<Longrightarrow> \<exists>x\<in>set xs. \<exists>sy. sa ! x = WriteVariable sy w \<and> sym_name sy = n"
proof (induction xs rule: rev_induct)
  case (snoc x xs)
  then show ?case by (cases "sa ! x") (auto simp: reaching_snoc split: if_splits)
qed simp

lemma exec_locals:
  assumes "exec_statement C sa st s = Inr (st1, out)" and "\<And>sy v. s = WriteVariable sy v \<Longrightarrow> sym_name sy \<noteq> n"
  shows "locals st1 n = locals st n"
proof (cases "is_effect s")
  case True
  then show ?thesis
    using assms by (cases s rule: is_effect.cases)
      (auto simp: exec_statement_def Let_def split_beta elim!: rbind_InrE split: option.splits if_splits ternary_operation_kind.splits)
qed (use assms(1) in \<open>auto simp: exec_value elim!: rbind_InrE\<close>)

lemma reaching_value:
  assumes "exec_prefix C sa xs st0 = Inr st" and "ssa sa xs" and "reaching sa xs n = Some w"
  shows "w \<in> set xs \<and> statement_values st w \<noteq> None \<and> locals st n = statement_values st w"
  using assms
proof (induction xs arbitrary: st rule: rev_induct)
  case (snoc x xs)
  obtain st1 s st2 v where run: "exec_prefix C sa xs st0 = Inr st1" "arena_get sa x = Inr s"
      "exec_statement C sa st1 s = Inr (st2, Produced v)" "st = bind_value st2 x v"
    using snoc.prems(1) unfolding exec_prefix_snoc by blast
  have s: "s = sa ! x" using run(2) by (simp add: arena_get_Inr)
  have x: "ssa sa xs" "x \<notin> set xs" "set (operands (sa ! x)) \<subseteq> set xs" using snoc.prems(2) by (auto simp: ssa_snoc)
  have vals: "statement_values st y = statement_values st1 y" if "y \<in> set xs" for y
    using that x(2) exec_keeps_values [OF run(3)] run(4) bind_value_other by metis
  show ?case
  proof (cases "\<exists>sy. s = WriteVariable sy w \<and> sym_name sy = n")
    case True
    then obtain sy y where y: "s = WriteVariable sy w" "sym_name sy = n" "resolve st1 w = Inr y"
        "st2 = st1\<lparr>locals := (locals st1)(n \<mapsto> y)\<rparr>"
      using run(3) by (auto simp: exec_statement_def elim!: rbind_InrE)
    then have "statement_values st1 w = Some y" by (auto simp: resolve_def split: option.splits)
    moreover have "w \<in> set xs" using x(3) unfolding s [symmetric] y(1) by simp
    ultimately show ?thesis using vals y run(4) by simp
  next
    case False
    then have old: "reaching sa xs n = Some w" and other: "\<And>sy v. s = WriteVariable sy v \<Longrightarrow> sym_name sy \<noteq> n"
      using snoc.prems(3) s by (auto simp: reaching_snoc split: statement.splits if_splits)
    from snoc.IH [OF run(1) x(1) old] show ?thesis
      using vals exec_locals [OF run(3) other] run(4) by auto
  qed
qed simp

lemma reaching_forced:
  assumes "ssa sa (pre @ u # post)" and "sa ! u = ReadVariable sy" and "reaching sa pre (sym_name sy) = Some w"
  shows "forced sa pre u w"
  unfolding forced_def
proof (intro conjI allI impI)
  have ssa: "ssa sa pre" by (rule ssa_prefix [OF assms(1)])
  obtain x sy' where "x \<in> set pre" "sa ! x = WriteVariable sy' w" using reaching_write [OF assms(3)] by blast
  then obtain as bs where "pre = as @ x # bs" "w \<in> set (operands (sa ! x))" using split_list by fastforce
  then show "w \<in> set pre" using ssa_operands(1) ssa by fastforce
  fix C st0 st st1 v
  assume "exec_prefix C sa pre st0 = Inr st" and run: "exec_statement C sa st (sa ! u) = Inr (st1, Produced v)"
  then have w: "statement_values st w \<noteq> None" "locals st (sym_name sy) = statement_values st w"
    using reaching_value [OF _ ssa assms(3)] by auto
  have "v = locals st (sym_name sy)"
    using run assms(2) by (auto simp: exec_statement_def eval_value_def is_read_statement_def eval_read_def
        elim!: rbind_InrE split: option.splits)
  then show "v \<noteq> None" "statement_values st w = v" using w by simp_all
qed

section \<open>Tidy blocks\<close>

text \<open>
  What the passes rely on: single assignment, extraction widths that are not redirected, and
  variables read and written at one type each.
\<close>

definition variables_typed :: "(string \<Rightarrow> rtype) \<Rightarrow> statement arena \<Rightarrow> stmt_id list \<Rightarrow> bool" where
  "variables_typed T sa rs \<longleftrightarrow> (\<forall>x\<in>set rs.
     (\<forall>sy v. sa ! x = WriteVariable sy v \<longrightarrow> typ_at sa v = Inr (Some (T (sym_name sy))))
     \<and> (\<forall>sy. sa ! x = ReadVariable sy \<longrightarrow> sym_typ sy = T (sym_name sy)))"

definition tidy_block :: "(string \<Rightarrow> rtype) \<Rightarrow> block \<Rightarrow> bool" where
  "tidy_block T blk \<longleftrightarrow> ssa (statement_arena blk) (statements blk) \<and> widths_fixed (statement_arena blk) (statements blk)
     \<and> variables_typed T (statement_arena blk) (statements blk)"

text \<open>One redirection in a tidy block.\<close>

definition redirectable :: "statement arena \<Rightarrow> stmt_id list \<Rightarrow> stmt_id \<Rightarrow> stmt_id \<Rightarrow> bool" where
  "redirectable sa pre u w \<longleftrightarrow> replaceable (sa ! u) \<and> forced sa pre u w
     \<and> (\<forall>t. typ_at sa u = Inr t \<longrightarrow> typ_at sa w = Inr t)"

lemma redirected_write:
  "redirected u w s (WriteVariable sy v') \<Longrightarrow> \<exists>v. s = WriteVariable sy v \<and> (v' = v \<or> v = u \<and> v' = w)"
  "redirected u w s (ReadVariable sy) \<Longrightarrow> s = ReadVariable sy"
  by (cases s; auto simp: redirected_def subst_def split: if_splits)+

lemma redirect_tidy:
  assumes "tidy_block T blk" and "statements blk = pre @ u # post" and "redirectable (statement_arena blk) pre u w"
    and "redirection u w (statement_arena blk) sa'"
  shows "block_refines blk (blk\<lparr>statement_arena := sa'\<rparr>) \<and> tidy_block T (blk\<lparr>statement_arena := sa'\<rparr>)"
proof -
  let ?sa = "statement_arena blk" and ?rs = "statements blk"
  have tidy: "ssa ?sa ?rs" "widths_fixed ?sa ?rs" "variables_typed T ?sa ?rs" using assms(1) by (simp_all add: tidy_block_def)
  have u: "replaceable (?sa ! u)" "forced ?sa pre u w" "\<And>t. typ_at ?sa u = Inr t \<Longrightarrow> typ_at ?sa w = Inr t"
    using assms(3) by (simp_all add: redirectable_def)
  have w: "w \<in> set pre" using u(2) by (simp add: forced_def)
  have dist: "distinct (pre @ u # post)" using tidy(1) assms(2) by (simp add: ssa_def)
  have first: "w \<in> set xs" if xs: "?rs = xs @ ys" "u \<in> set xs" for xs ys
  proof -
    obtain zs where "xs = pre @ u # zs" using prefix_of_distinct [OF dist _ xs(2)] xs(1) assms(2) by auto
    then show ?thesis using w by simp
  qed
  note types = redirection_types [OF assms(4) tidy(1,2) u(1,3) first]
  have ssa': "ssa sa' ?rs" using redirection_ssa [OF assms(4)] tidy(1) w unfolding assms(2) by blast
  have "variables_typed T sa' ?rs"
    unfolding variables_typed_def
  proof (intro ballI conjI allI impI)
    fix x sy assume x: "x \<in> set ?rs"
    have red: "redirected u w (?sa ! x) (sa' ! x)"
      using x assms(4) tidy(1) by (auto simp: redirection_def ssa_def in_set_conv_nth)
    { fix v' assume "sa' ! x = WriteVariable sy v'"
      then obtain v where v: "?sa ! x = WriteVariable sy v" "v' = v \<or> v = u \<and> v' = w"
        using red redirected_write(1) by fastforce
      then have t: "typ_at ?sa v = Inr (Some (T (sym_name sy)))" using tidy(3) x by (simp add: variables_typed_def)
      obtain xs ys where split: "?rs = xs @ x # ys" using split_list x by fastforce
      have "v \<in> set ?rs" using ssa_operands(1) [OF tidy(1) [unfolded split]] v(1) split by auto
      then show "typ_at sa' v' = Inr (Some (T (sym_name sy)))"
        using v(2) types t u(3) w assms(2) by auto }
    assume "sa' ! x = ReadVariable sy"
    then have "?sa ! x = ReadVariable sy" using red redirected_write(2) by metis
    then show "sym_typ sy = T (sym_name sy)" using tidy(3) x by (simp add: variables_typed_def)
  qed
  then show ?thesis
    using redirect_block [OF assms(4) tidy(1,2) u(1,3) assms(2) u(2)] ssa' redirection_widths [OF assms(4) tidy(1,2) u(1)]
    by (simp add: tidy_block_def)
qed

text \<open>Redirecting the recorded users of a statement; everything up to the statement stays.\<close>

lemma redirect_uses_tidy:
  assumes "tidy_block T blk" and "statements blk = pre @ u # post" and "redirectable (statement_arena blk) pre u w"
    and "redirect_uses u w us blk = Inr blk'" and "distinct us" and "set us \<subseteq> set post"
  shows "block_refines blk blk' \<and> tidy_block T blk' \<and> statements blk' = statements blk
    \<and> (\<forall>x\<in>set (pre @ [u]). statement_arena blk' ! x = statement_arena blk ! x)"
proof -
  note spec = redirect_uses_spec [OF assms(4,5)]
  have eq: "blk' = blk\<lparr>statement_arena := statement_arena blk'\<rparr>" using spec by blast
  have "block_refines blk blk' \<and> tidy_block T blk'"
    using redirect_tidy [OF assms(1-3), of "statement_arena blk'"] spec eq by metis
  moreover have "statements blk' = statements blk" by (subst eq) simp
  moreover have "set (pre @ [u]) \<inter> set us = {}"
    using assms(1,2,6) by (auto simp: tidy_block_def ssa_def)
  ultimately show ?thesis using spec by blast
qed

lemma read_redirectable:
  assumes "tidy_block T blk" and "statements blk = pre @ u # post" and "statement_arena blk ! u = ReadVariable sy"
    and "reaching (statement_arena blk) pre (sym_name sy) = Some w"
  shows "redirectable (statement_arena blk) pre u w"
proof -
  let ?sa = "statement_arena blk"
  have tidy: "ssa ?sa (pre @ u # post)" "variables_typed T ?sa (pre @ u # post)"
    using assms(1,2) by (simp_all add: tidy_block_def)
  have "u < length ?sa" by (rule ssa_operands(2) [OF tidy(1)])
  then have "t = Some (sym_typ sy)" if "typ_at ?sa u = Inr t" for t
    using that assms(3) by (simp add: typ_at_unfold typ_step_def)
  moreover obtain x sy' where x: "x \<in> set (pre @ u # post)" "?sa ! x = WriteVariable sy' w" "sym_name sy' = sym_name sy"
    using reaching_write [OF assms(4)] by auto
  have "typ_at ?sa w = Inr (Some (T (sym_name sy)))"
    using bspec [OF tidy(2) [unfolded variables_typed_def] x(1)] x(2,3) by simp
  moreover have "sym_typ sy = T (sym_name sy)"
    using bspec [OF tidy(2) [unfolded variables_typed_def], of u] assms(3) by simp
  ultimately have "\<forall>t. typ_at ?sa u = Inr t \<longrightarrow> typ_at ?sa w = Inr t" by auto
  then show ?thesis using reaching_forced [OF tidy(1) assms(3,4)] by (simp add: redirectable_def replaceable_def assms(3))
qed

section \<open>Eliminating variables inside a block\<close>

text \<open>
  The shape both passes over block-local writes have; \<open>tracked\<close> says which variables they follow.
\<close>

definition write_step ::
    "(string \<Rightarrow> bool) \<Rightarrow> stmt_use_map \<Rightarrow> stmt_id \<Rightarrow> block \<times> live_writes \<Rightarrow> block \<times> live_writes \<Rightarrow> bool" where
  "write_step tracked m stmt = (\<lambda>(blk, live) (blk', live').
     (\<exists>sy v. statement_arena blk ! stmt = WriteVariable sy v \<and> blk' = blk
        \<and> live' = (if tracked (sym_name sy) then live(sym_name sy \<mapsto> v) else live))
     \<or> (\<exists>sy w us. statement_arena blk ! stmt = ReadVariable sy \<and> live (sym_name sy) = Some w \<and> get_uses m stmt = Some us
          \<and> redirect_uses stmt w us blk = Inr blk' \<and> live' = live)
     \<or> (\<forall>sy v. statement_arena blk ! stmt \<noteq> WriteVariable sy v) \<and> blk' = blk \<and> live' = live)"

definition live_ok :: "(string \<Rightarrow> bool) \<Rightarrow> statement arena \<Rightarrow> stmt_id list \<Rightarrow> live_writes \<Rightarrow> bool" where
  "live_ok tracked sa xs live \<longleftrightarrow> (\<forall>n w. live n = Some w \<longrightarrow> tracked n \<and> reaching sa xs n = Some w)"

lemma write_step_sound:
  assumes "tidy_block T blk" and "statements blk = pre @ u # post" and "live_ok tracked (statement_arena blk) pre live"
    and "write_step tracked m u (blk, live) (blk', live')" and "\<And>us. get_uses m u = Some us \<Longrightarrow> distinct us \<and> set us \<subseteq> set post"
  shows "block_refines blk blk' \<and> tidy_block T blk' \<and> statements blk' = statements blk
    \<and> live_ok tracked (statement_arena blk') (pre @ [u]) live'"
proof -
  let ?sa = "statement_arena blk"
  consider (wr) sy v where "?sa ! u = WriteVariable sy v" "blk' = blk"
      "live' = (if tracked (sym_name sy) then live(sym_name sy \<mapsto> v) else live)"
    | (rd) sy w us' where "?sa ! u = ReadVariable sy" "live (sym_name sy) = Some w" "get_uses m u = Some us'"
      "redirect_uses u w us' blk = Inr blk'" "live' = live"
    | (ot) "\<forall>sy v. ?sa ! u \<noteq> WriteVariable sy v" "blk' = blk" "live' = live"
    using assms(4) unfolding write_step_def by fastforce
  then show ?thesis
  proof cases
    case wr
    then show ?thesis using assms(1,3) by (auto simp: live_ok_def reaching_snoc)
  next
    case rd
    have "reaching ?sa pre (sym_name sy) = Some w" using assms(3) rd(2) by (simp add: live_ok_def)
    note red = read_redirectable [OF assms(1,2) rd(1) this]
    have us: "distinct us'" "set us' \<subseteq> set post" using assms(5) rd(3) by blast+
    note step = redirect_uses_tidy [OF assms(1,2) red rd(4) us]
    have "reaching (statement_arena blk') (pre @ [u]) n = reaching ?sa (pre @ [u]) n" for n
      using step by (intro reaching_cong) blast
    then have "live_ok tracked (statement_arena blk') (pre @ [u]) live'"
      using assms(3) rd(1,5) by (auto simp: live_ok_def reaching_snoc)
    with step show ?thesis by blast
  next
    case ot
    have "reaching ?sa (pre @ [u]) n = reaching ?sa pre n" for n
      using ot(1) by (auto simp: reaching_snoc split: statement.splits)
    then show ?thesis using ot assms(1,3) by (simp add: live_ok_def)
  qed
qed

definition uses_later :: "stmt_id list \<Rightarrow> stmt_use_map \<Rightarrow> bool" where
  "uses_later rs m \<longleftrightarrow> (\<forall>pre u post us. rs = pre @ u # post \<longrightarrow> get_uses m u = Some us \<longrightarrow> distinct us \<and> set us \<subseteq> set post)"

lemma tidy_uses_later: "tidy_block T blk \<Longrightarrow> statement_use_analysis blk = Inr m \<Longrightarrow> uses_later (statements blk) m"
  unfolding uses_later_def using uses_after [OF statement_use_analysis_sound] by (fastforce simp: tidy_block_def)

lemma write_loop_sound:
  assumes step: "\<And>stmt blk live ch blk' live' ch'. step stmt (blk, live, ch) = Inr (blk', live', ch')
      \<Longrightarrow> write_step tracked m stmt (blk, live) (blk', live')"
    and "foldR step todo (blk, live, ch) = Inr (blk', live', ch')" and "statements blk = done @ todo"
    and "tidy_block T blk" and "live_ok tracked (statement_arena blk) done live" and "uses_later (statements blk) m"
  shows "block_refines blk blk' \<and> tidy_block T blk'"
  using assms(2-)
proof (induction todo arbitrary: "done" blk live ch)
  case (Cons x todo)
  obtain blk1 live1 ch1 where one: "step x (blk, live, ch) = Inr (blk1, live1, ch1)" "foldR step todo (blk1, live1, ch1) = Inr (blk', live', ch')"
    using Cons.prems(1) by (auto simp: rbind_eq_Inr)
  have us: "distinct us \<and> set us \<subseteq> set todo" if "get_uses m x = Some us" for us
    using Cons.prems(2,5) that unfolding uses_later_def by blast
  have "block_refines blk blk1 \<and> tidy_block T blk1 \<and> statements blk1 = statements blk
      \<and> live_ok tracked (statement_arena blk1) (done @ [x]) live1"
    by (rule write_step_sound [OF Cons.prems(3,2,4) step [OF one(1)] us])
  moreover have "statements blk = (done @ [x]) @ todo" using Cons.prems(2) by simp
  ultimately show ?case
    using Cons.IH [OF one(2), of "done @ [x]"] Cons.prems(5) block_refines_trans by metis
qed simp

definition tidy_function :: "rfunction \<Rightarrow> bool" where
  "tidy_function f \<longleftrightarrow> (\<exists>T. \<forall>blk\<in>set (block_arena f). tidy_block T blk)"

definition tidy_model :: "model \<Rightarrow> bool" where
  "tidy_model m \<longleftrightarrow> (\<forall>name f. map_of (fns m) name = Some f \<longrightarrow> tidy_function f)"

lemma block_pass_sound:
  assumes "\<And>f f' c. run_on_block b f = Inr (f', c) \<Longrightarrow> \<exists>blk blk'. arena_get (block_arena f) b = Inr blk
      \<and> f' = set_block f b blk' \<and> (\<forall>T. tidy_block T blk \<longrightarrow> block_refines blk blk' \<and> tidy_block T blk')"
  shows "pass_sound E tidy_model (run_on_block b)"
  unfolding pass_sound_def
proof (intro allI impI)
  fix m name f f' c
  assume tidy: "tidy_model m" and m: "map_of (fns m) name = Some f" and run: "run_on_block b f = Inr (f', c)"
  obtain blk blk' where blk: "arena_get (block_arena f) b = Inr blk" "f' = set_block f b blk'"
      "\<And>T. tidy_block T blk \<Longrightarrow> block_refines blk blk' \<and> tidy_block T blk'"
    using assms [OF run] by blast
  obtain T where T: "\<forall>x\<in>set (block_arena f). tidy_block T x" using tidy m unfolding tidy_model_def tidy_function_def by blast
  moreover have "blk \<in> set (block_arena f)" using blk(1) by (auto simp: arena_get_Inr)
  ultimately have sound: "block_refines blk blk'" "tidy_block T blk'" using blk(3) by blast+
  have "tidy_function f'"
    unfolding tidy_function_def blk(2) set_block_def using T sound(2) set_update_subset_insert by fastforce
  then show "model_refines E m (update_function m name f') \<and> tidy_model (update_function m name f')"
    using set_block_refines [OF m blk(1) sound(1)] tidy blk(2) by (simp add: tidy_model_def)
qed

lemma live_ok_empty: "live_ok tracked sa [] Map.empty"
  by (simp add: live_ok_def)

definition tracked_local :: "symbol_use_analysis \<Rightarrow> string \<Rightarrow> bool" where
  "tracked_local a n \<longleftrightarrow> (case map_of (symbol_blocks a) n of None \<Rightarrow> False | Some bs \<Rightarrow> length bs = 1)"

lemma is_symbol_local_tracked: "is_symbol_local a sy = Inr b \<Longrightarrow> b = tracked_local a (sym_name sy)"
  by (auto simp: is_symbol_local_def tracked_local_def rbind_eq_Inr unwrap_eq_Inr)

lemma var_elim_step_shape:
  assumes "var_elim_step a p m stmt (blk, live, ch) = Inr (blk', live', ch')"
  shows "write_step (tracked_local a) m stmt (blk, live) (blk', live')"
proof -
  obtain s where s: "arena_get (statement_arena blk) stmt = Inr s" using assms by (auto simp: var_elim_step_def rbind_eq_Inr)
  then have "statement_arena blk ! stmt = s" by (simp add: arena_get_Inr)
  then show ?thesis
    using assms s is_symbol_local_tracked unfolding var_elim_step_def write_step_def
    by (cases s) (auto elim!: rbind_InrE split: option.splits if_splits)
qed

lemma local_write_step_shape:
  assumes "local_write_step m stmt (blk, live, ch) = Inr (blk', live', ch')"
  shows "write_step (\<lambda>_. True) m stmt (blk, live) (blk', live')"
proof -
  obtain s where s: "arena_get (statement_arena blk) stmt = Inr s" using assms by (auto simp: local_write_step_def rbind_eq_Inr)
  then have "statement_arena blk ! stmt = s" by (simp add: arena_get_Inr)
  then show ?thesis
    using assms s unfolding local_write_step_def write_step_def
    by (cases s) (auto elim!: rbind_InrE split: option.splits if_splits)
qed

lemma var_elim_block_sound: "pass_sound E tidy_model (var_elim_block a p b)"
proof (rule block_pass_sound)
  fix f f' c
  assume "var_elim_block a p b f = Inr (f', c)"
  then obtain blk m blk' live where run: "arena_get (block_arena f) b = Inr blk" "statement_use_analysis blk = Inr m"
      "foldR (var_elim_step a p m) (statements blk) (blk, Map.empty, False) = Inr (blk', live, c)" "f' = set_block f b blk'"
    by (auto simp: var_elim_block_def rbind_eq_Inr)
  have "block_refines blk blk' \<and> tidy_block T blk'" if T: "tidy_block T blk" for T
    by (rule write_loop_sound [OF var_elim_step_shape run(3) _ T live_ok_empty tidy_uses_later [OF T run(2)]]) simp_all
  with run show "\<exists>blk blk'. arena_get (block_arena f) b = Inr blk \<and> f' = set_block f b blk'
      \<and> (\<forall>T. tidy_block T blk \<longrightarrow> block_refines blk blk' \<and> tidy_block T blk')"
    by blast
qed

lemma local_writes_block_sound: "pass_sound E tidy_model (simplify_block_local_writes b)"
proof (rule block_pass_sound)
  fix f f' c
  assume "simplify_block_local_writes b f = Inr (f', c)"
  then obtain blk m blk' live where run: "arena_get (block_arena f) b = Inr blk" "statement_use_analysis blk = Inr m"
      "foldR (local_write_step m) (statements blk) (blk, Map.empty, False) = Inr (blk', live, c)" "f' = set_block f b blk'"
    by (auto simp: simplify_block_local_writes_def rbind_eq_Inr)
  have "block_refines blk blk' \<and> tidy_block T blk'" if T: "tidy_block T blk" for T
    by (rule write_loop_sound [OF local_write_step_shape run(3) _ T live_ok_empty tidy_uses_later [OF T run(2)]]) simp_all
  with run show "\<exists>blk blk'. arena_get (block_arena f) b = Inr blk \<and> f' = set_block f b blk'
      \<and> (\<forall>T. tidy_block T blk \<longrightarrow> block_refines blk blk' \<and> tidy_block T blk')"
    by blast
qed

interpretation variable_elimination_pass: sound_pass E tidy_model "variable_elimination p" for E :: rust_env and p
proof
  fix m name f f' c
  assume "tidy_model m" "map_of (fns m) name = Some f" "variable_elimination p f = Inr (f', c)"
  then show "model_refines E m (update_function m name f') \<and> tidy_model (update_function m name f')"
    using pass_soundD [OF on_every_block_sound [OF var_elim_block_sound]]
    by (auto simp: variable_elimination_def elim!: rbind_InrE)
qed

section \<open>Local tuples are sound\<close>

lemma exec_create_tuple:
  "exec_statement C sa st (CreateTuple items) = Inr (st1, Produced v) \<Longrightarrow>
     \<exists>vs. v = Some (TupleV vs) \<and> list_all2 (\<lambda>r x. statement_values st r = Some x) items vs"
  by (auto simp: exec_statement_def eval_value_def is_read_statement_def is_bits_statement_def eval_bits_def mapR_eq_Inr resolve_def
      elim!: rbind_InrE list_all2_mono split: option.splits)

lemma tuple_value:
  assumes "exec_prefix C sa xs st0 = Inr st" and "ssa sa xs" and "src \<in> set xs" and "sa ! src = CreateTuple items"
  shows "\<exists>vs. statement_values st src = Some (TupleV vs) \<and> list_all2 (\<lambda>r x. statement_values st r = Some x) items vs"
  using assms(1-3)
proof (induction xs arbitrary: st rule: rev_induct)
  case (snoc x xs)
  obtain st1 s st2 v where run: "exec_prefix C sa xs st0 = Inr st1" "arena_get sa x = Inr s"
      "exec_statement C sa st1 s = Inr (st2, Produced v)" "st = bind_value st2 x v"
    using snoc.prems(1) unfolding exec_prefix_snoc by blast
  have s: "s = sa ! x" using run(2) by (simp add: arena_get_Inr)
  have x: "ssa sa xs" "x \<notin> set xs" "set (operands (sa ! x)) \<subseteq> set xs" using snoc.prems(2) by (auto simp: ssa_snoc)
  have vals: "statement_values st y = statement_values st1 y" if "y \<in> set xs" for y
    using that x(2) exec_keeps_values [OF run(3)] run(4) bind_value_other by metis
  have move: "list_all2 (\<lambda>r x. statement_values st r = Some x) items vs"
    if items: "set items \<subseteq> set xs" and old: "list_all2 (\<lambda>r x. statement_values st1 r = Some x) items vs" for vs
  proof (rule list.rel_mono_strong [OF old])
    fix r y assume "r \<in> set items" "statement_values st1 r = Some y"
    then show "statement_values st r = Some y" using vals [of r] items by auto
  qed
  show ?case
  proof (cases "src = x")
    case True
    then obtain vs where vs: "v = Some (TupleV vs)" "list_all2 (\<lambda>r x. statement_values st1 r = Some x) items vs"
      using run(3) s assms(4) exec_create_tuple by metis
    have "set items \<subseteq> set xs" using x(3) True assms(4) by simp
    from move [OF this vs(2)] show ?thesis using True vs(1) run(4) by (simp add: bind_value_def)
  next
    case False
    then have src: "src \<in> set xs" using snoc.prems(3) by simp
    obtain as bs where "xs = as @ src # bs" using split_list [OF src] by blast
    then have "set items \<subseteq> set xs" using ssa_operands(1) [of sa as src bs] x(1) assms(4) by auto
    note items = this
    obtain vs where vs: "statement_values st1 src = Some (TupleV vs)"
        "list_all2 (\<lambda>r x. statement_values st1 r = Some x) items vs"
      using snoc.IH [OF run(1) x(1) src] by blast
    from move [OF items vs(2)] show ?thesis using vs(1) vals [OF src] by auto
  qed
qed simp

lemma tuple_redirectable:
  assumes "tidy_block T blk" and "statements blk = pre @ u # post" and "statement_arena blk ! u = TupleAccess i src"
    and "statement_arena blk ! src = CreateTuple items" and "i < length items"
  shows "redirectable (statement_arena blk) pre u (items ! i)"
  unfolding redirectable_def
proof (intro conjI allI impI)
  let ?sa = "statement_arena blk"
  have ssa: "ssa ?sa (pre @ u # post)" using assms(1,2) by (simp add: tidy_block_def)
  note u = ssa_operands [OF ssa]
  have src: "src \<in> set pre" using u(1) assms(3) by simp
  obtain as bs where split: "pre = as @ src # bs" using split_list [OF src] by blast
  have pre: "ssa ?sa pre" by (rule ssa_prefix [OF ssa])
  note source = ssa_operands [OF pre [unfolded split]]
  have items: "set items \<subseteq> set as" using source(1) assms(4) by simp
  show "replaceable (?sa ! u)" by (simp add: replaceable_def assms(3))
  show "forced ?sa pre u (items ! i)"
    unfolding forced_def
  proof (intro conjI allI impI)
    show "items ! i \<in> set pre" using items assms(5) split by (auto simp: subset_iff)
    fix C st0 st st1 v
    assume "exec_prefix C ?sa pre st0 = Inr st" and run: "exec_statement C ?sa st (?sa ! u) = Inr (st1, Produced v)"
    then obtain vs where vs: "statement_values st src = Some (TupleV vs)" "list_all2 (\<lambda>r x. statement_values st r = Some x) items vs"
      using tuple_value [OF _ pre src assms(4)] by blast
    have "v = Some (vs ! i)"
      using run vs(1) assms(3) by (auto simp: exec_statement_def eval_value_def is_read_statement_def is_bits_statement_def
          eval_bits_def resolve_def elim!: rbind_InrE split: if_splits)
    then show "v \<noteq> None" "statement_values st (items ! i) = v" using vs(2) assms(5) by (simp_all add: list_all2_conv_all_nth)
  qed
  fix t assume "typ_at ?sa u = Inr t"
  then obtain t' where t': "typ_at ?sa src = Inr t'" "typ_of_tuple_field i t' = Inr t"
    using u(2) assms(3) by (auto simp: typ_at_unfold typ_step_def rbind_eq_Inr)
  have "typ_step (typ_at ?sa) ?sa (CreateTuple items) = Inr t'"
    using t'(1) source(2) typ_at_unfold [of src ?sa t'] assms(4) by simp
  then obtain ts where "list_all2 (\<lambda>r t. rbind (typ_at ?sa r) unwrap = Inr t) items ts" "t' = Some (TupleT ts)"
    by (auto simp: typ_step_def mapR_eq_Inr rbind_eq_Inr)
  then show "typ_at ?sa (items ! i) = Inr t"
    using t'(2) assms(5) by (auto simp: typ_of_tuple_field_def list_all2_conv_all_nth rbind_eq_Inr unwrap_eq_Inr split: if_splits)
qed

lemma tuple_loop_sound:
  assumes "foldR (tuple_step m) todo (blk, ch) = Inr (blk', ch')" and "statements blk = done @ todo"
    and "tidy_block T blk" and "uses_later (statements blk) m"
  shows "block_refines blk blk' \<and> tidy_block T blk'"
  using assms
proof (induction todo arbitrary: "done" blk ch)
  case (Cons x todo)
  obtain blk1 ch1 where one: "tuple_step m x (blk, ch) = Inr (blk1, ch1)" "foldR (tuple_step m) todo (blk1, ch1) = Inr (blk', ch')"
    using Cons.prems(1) by (auto simp: rbind_eq_Inr)
  have shape: "blk1 = blk \<or> (\<exists>i src items us. statement_arena blk ! x = TupleAccess i src \<and> statement_arena blk ! src = CreateTuple items
      \<and> i < length items \<and> get_uses m x = Some us \<and> redirect_uses x (items ! i) us blk = Inr blk1)"
    using one(1) unfolding tuple_step_def
    by (auto simp: arena_get_Inr rassert_eq_Inr elim!: rbind_InrE split: statement.splits option.splits)
  have "block_refines blk blk1 \<and> tidy_block T blk1 \<and> statements blk1 = statements blk"
    using shape
  proof (elim disjE exE conjE)
    fix i src items us
    assume u: "statement_arena blk ! x = TupleAccess i src" "statement_arena blk ! src = CreateTuple items" "i < length items"
      and us: "get_uses m x = Some us" "redirect_uses x (items ! i) us blk = Inr blk1"
    have "distinct us \<and> set us \<subseteq> set todo" using Cons.prems(2,4) us(1) unfolding uses_later_def by blast
    then show ?thesis
      using redirect_uses_tidy [OF Cons.prems(3,2) tuple_redirectable [OF Cons.prems(3,2) u] us(2)] by blast
  qed (use Cons.prems(3) in simp)
  moreover have "statements blk = (done @ [x]) @ todo" using Cons.prems(2) by simp
  ultimately show ?case
    using Cons.IH [OF one(2), of "done @ [x]"] Cons.prems(4) block_refines_trans by metis
qed simp

lemma tuple_block_sound: "pass_sound E tidy_model (tuple_block b)"
proof (rule block_pass_sound)
  fix f f' c
  assume "tuple_block b f = Inr (f', c)"
  then obtain blk m blk' where run: "arena_get (block_arena f) b = Inr blk" "statement_use_analysis blk = Inr m"
      "foldR (tuple_step m) (statements blk) (blk, False) = Inr (blk', c)" "f' = set_block f b blk'"
    by (auto simp: tuple_block_def rbind_eq_Inr)
  have "block_refines blk blk' \<and> tidy_block T blk'" if T: "tidy_block T blk" for T
    by (rule tuple_loop_sound [OF run(3) _ T tidy_uses_later [OF T run(2)]]) simp
  with run show "\<exists>blk blk'. arena_get (block_arena f) b = Inr blk \<and> f' = set_block f b blk'
      \<and> (\<forall>T. tidy_block T blk \<longrightarrow> block_refines blk blk' \<and> tidy_block T blk')"
    by blast
qed

interpretation local_tuple_pass: sound_pass E tidy_model local_tuple_removal for E :: rust_env
  using pass_soundD [OF on_every_block_sound [OF tuple_block_sound]]
  by unfold_locales (simp add: local_tuple_removal_def)

text \<open>
  C4: forwarding the value written to a local variable to the reads that follow it in the block,
  and the components of a tuple to their accesses, does not change what a function computes, in
  any order of the passes and however often they run, when every function of the model is tidy: each of its
  blocks lists every statement once and after its operands, takes no width of a bit extraction from a variable
  read, a tuple access or a cast, and every variable is read and written at one type.
\<close>

theorem use_redirection_sound:
  assumes "tidy_model m" and "map_of (fns m) name = Some f"
    and "set passes \<subseteq> {variable_elimination p, local_tuple_removal}" and "optimise_function n passes f = Inr f'"
  shows "model_refines E m (update_function m name f')"
proof -
  have "\<forall>pass\<in>set passes. pass_sound E tidy_model pass"
    using assms(3) variable_elimination_pass.is_sound local_tuple_pass.is_sound by blast
  then show ?thesis using optimise_function_sound [where okay = tidy_model, OF _ assms(4,1,2)] by blast
qed

definition sample_u8 :: rtype where
  "sample_u8 = Primitive (UnsignedIntegerT 8)"

definition sample_redirect :: rfunction where
  "sample_redirect =
     (let x = \<lparr>sym_name = ''x'', sym_typ = sample_u8\<rparr> in
      \<lparr>return_type = Some sample_u8, parameters = [], fn_name = ''redirect'', local_variables = [(''x'', x)],
       block_arena = [\<lparr>statement_arena = [Constant (UnsignedInteger 7 8), WriteVariable x 0, ReadVariable x,
                                           CreateTuple [2, 0], TupleAccess 0 3, Return (Some 4)],
                       statements = [0, 1, 2, 3, 4, 5]\<rparr>],
       entry_block = 0\<rparr>)"

definition sample_redirect_model :: model where
  "sample_redirect_model = model_new [(''redirect'', sample_redirect)] []"

lemma sample_redirect_tidy: "tidy_model sample_redirect_model"
proof -
  have "\<forall>blk\<in>set (block_arena sample_redirect). tidy_block (\<lambda>_. sample_u8) blk"
    by (simp add: sample_redirect_def tidy_block_def ssa_def widths_fixed_def variables_typed_def Let_def
        all_less_Suc typ_at_def sample_u8_def arena_get_def)
  then show ?thesis by (auto simp: tidy_model_def sample_redirect_model_def model_new_def tidy_function_def)
qed

theorem use_redirection_sound_witness:
  "\<exists>f'. optimise_function 3 [variable_elimination [], local_tuple_removal] sample_redirect = Inr f'
     \<and> (\<exists>blk. block_arena f' = [blk] \<and> statement_arena blk ! 5 = Return (Some 0))
     \<and> model_refines sample_env sample_redirect_model (update_function sample_redirect_model ''redirect'' f')"
proof -
  have "case optimise_function 3 [variable_elimination [], local_tuple_removal] sample_redirect of Inl _ \<Rightarrow> False
    | Inr f' \<Rightarrow> map (\<lambda>blk. statement_arena blk ! 5) (block_arena f') = [Return (Some 0)]"
    by code_simp
  then obtain f' where run: "optimise_function 3 [variable_elimination [], local_tuple_removal] sample_redirect = Inr f'"
      "\<exists>blk. block_arena f' = [blk] \<and> statement_arena blk ! 5 = Return (Some 0)"
    by (auto split: sum.splits)
  have m: "map_of (fns sample_redirect_model) ''redirect'' = Some sample_redirect"
    by (simp add: sample_redirect_model_def model_new_def)
  show ?thesis using use_redirection_sound [OF sample_redirect_tidy m _ run(1), of "[]" sample_env] run by auto
qed

section \<open>A copied statement is evaluated at another time\<close>

definition sample_cast :: rfunction where
  "sample_cast =
     (let x = \<lparr>sym_name = ''x'', sym_typ = sample_u8\<rparr> in
      \<lparr>return_type = Some sample_u8, parameters = [], fn_name = ''cast'', local_variables = [(''x'', x)],
       block_arena = [\<lparr>statement_arena = [Constant (UnsignedInteger 1 8), Constant (UnsignedInteger 2 8), WriteVariable x 0,
                          ReadVariable x, WriteVariable x 1, Cast ReinterpretK sample_u8 3, Return (Some 5)],
                       statements = [0, 1, 2, 3, 4, 5, 6]\<rparr>],
       entry_block = 0\<rparr>)"

text \<open>The block after the pass: statement 5 is the read of statement 3.\<close>

definition sample_cast_after :: rfunction where
  "sample_cast_after =
     sample_cast\<lparr>block_arena := map (\<lambda>blk. blk\<lparr>statement_arena := (statement_arena blk)[5 := statement_arena blk ! 3]\<rparr>)
       (block_arena sample_cast)\<rparr>"

text \<open>
  The elimination of useless reinterpretations copies the statement that computes the value
  in place of the cast.  Where that statement reads a variable which is written in between, the
  function returns another value than before: 1 before the pass and 2 after it, with any
  registers.  The pass reports no change.
\<close>

theorem useless_cast_elimination_unsound:
  "useless_cast_elimination sample_cast = Inr (sample_cast_after, False)
   \<and> interpret_fn 2 sample_env (model_new [(''cast'', sample_cast)] []) ''cast'' [] rf = Inr (Some (UnsignedIntegerV 1 8), rf)
   \<and> interpret_fn 2 sample_env (model_new [(''cast'', sample_cast_after)] []) ''cast'' [] rf = Inr (Some (UnsignedIntegerV 2 8), rf)"
proof (intro conjI)
  show "useless_cast_elimination sample_cast = Inr (sample_cast_after, False)"
    by code_simp
qed (simp_all add: numeral_2_eq_2 interpret_fn_Suc run_blocks_Suc step_block_def model_new_def sample_cast_after_def
    sample_cast_def sample_u8_def Let_def exec_block_def interpreter_new_def bind_arguments_def arena_get_def exec_statement_def
    resolve_def bind_value_def eval_value_def is_read_statement_def eval_read_def is_bits_statement_def eval_arith_def cast_unsigned_def typ_at_def)

end
