(* ===== verification/Opt_Fold.thy ===== *)
theory Opt_Fold
  imports Opt_Uses
begin

text \<open>
  The two passes that rewrite single statements: \<open>constant_folding.rs\<close> and
  \<open>bit_simplification.rs\<close>.  Each is a function from a statement to the statement that replaces
  it, applied to every statement of every block in order.  The interpreter keeps 64-bit
  intermediate values where constants are reduced to their width, so folding is compared with
  it up to the bits the width stores (\<open>same_bits\<close>).
\<close>

unbundle bit_operations_syntax

section \<open>Rewriting the statements of a block\<close>

text \<open>\<open>for stmt in ..statements().collect() { changed |= run_on_stmt(stmt, arena_mut()); }\<close>\<close>

definition rewrite_block :: "(statement arena \<Rightarrow> statement \<Rightarrow> statement option res) \<Rightarrow> block_id \<Rightarrow> function_pass" where
  "rewrite_block rewrite b f =
     rbind (arena_get (block_arena f) b) (\<lambda>blk.
     rbind (foldR (\<lambda>stmt (sa, changed).
              rbind (arena_get sa stmt) (\<lambda>s. rbind (rewrite sa s) (\<lambda>new.
              case new of
                None \<Rightarrow> Inr (sa, changed)
              | Some s \<Rightarrow> rbind (arena_set sa stmt s) (\<lambda>sa. Inr (sa, True)))))
            (statements blk) (statement_arena blk, False)) (\<lambda>(sa, changed).
     Inr (set_block f b (blk\<lparr>statement_arena := sa\<rparr>), changed)))"

section \<open>Constant folding\<close>

text \<open>\<open>(lhs op rhs) as u64\<close> for an operator of \<open>PartialOrd\<close>\<close>

definition fold_ordering :: "rust_env \<Rightarrow> rconst \<Rightarrow> rconst \<Rightarrow> ordering set \<Rightarrow> rconst res" where
  "fold_ordering E lhs rhs holds =
     Inr (new_unsigned (of_bool (case const_partial_cmp E lhs rhs of None \<Rightarrow> False | Some c \<Rightarrow> c \<in> holds)) 1)"

definition fold_binary :: "rust_env \<Rightarrow> binary_operation_kind \<Rightarrow> rconst \<Rightarrow> rconst \<Rightarrow> rconst res" where
  "fold_binary E kind lhs rhs =
     (case kind of
        AddK \<Rightarrow> const_add E lhs rhs
      | SubK \<Rightarrow> const_sub E lhs rhs
      | MultiplyK \<Rightarrow> const_mul E lhs rhs
      | DivideK \<Rightarrow> const_div E lhs rhs
      | ModuloK \<Rightarrow> Inl Todo
      | AndK \<Rightarrow> Inl Todo
      | OrK \<Rightarrow> Inl Todo
      | XorK \<Rightarrow> const_xor lhs rhs
      | PowIK \<Rightarrow> const_powi E lhs rhs
      | CompareEqualK \<Rightarrow> Inr (new_unsigned (of_bool (const_eq E lhs rhs)) 1)
      | CompareNotEqualK \<Rightarrow> Inr (new_unsigned (of_bool (\<not> const_eq E lhs rhs)) 1)
      | CompareLessThanK \<Rightarrow> fold_ordering E lhs rhs {Less}
      | CompareLessThanOrEqualK \<Rightarrow> fold_ordering E lhs rhs {Less, Equal}
      | CompareGreaterThanK \<Rightarrow> fold_ordering E lhs rhs {Greater}
      | CompareGreaterThanOrEqualK \<Rightarrow> fold_ordering E lhs rhs {Greater, Equal})"

text \<open>\<open>x & c\<close> where \<open>c\<close> has all the bits of \<open>x\<close>: the statement becomes a copy of \<open>x\<close>.\<close>

definition fold_and_mask :: "rust_env \<Rightarrow> statement arena \<Rightarrow> statement \<Rightarrow> rconst \<Rightarrow> statement option res" where
  "fold_and_mask E sa lhs rhs =
     (case rhs of
        UnsignedInteger value _ \<Rightarrow>
          rbind (statement_typ sa lhs) (\<lambda>t. rbind (unwrap t) (\<lambda>t. rbind (width_bits E t) (\<lambda>w.
          Inr (if value = mask_u64 w \<or> value = -1 then Some lhs else None))))
      | _ \<Rightarrow> Inr None)"

definition constant_width :: "rconst \<Rightarrow> nat res" where
  "constant_width width =
     (case width of
        SignedInteger value _ \<Rightarrow> u32_try_from_i64 value
      | UnsignedInteger value _ \<Rightarrow> u32_try_from_u64 value
      | _ \<Rightarrow> Inl ExplicitPanic)"

definition fold_create_bits :: "rconst \<Rightarrow> rconst \<Rightarrow> rconst res" where
  "fold_create_bits value width =
     rbind (constant_width width) (\<lambda>target_width.
     case value of
       UnsignedInteger value _ \<Rightarrow> Inr (UnsignedInteger (value AND mask_u64 target_width) target_width)
     | _ \<Rightarrow> Inl ExplicitPanic)"

definition fold_size_of :: "rust_env \<Rightarrow> rtype option \<Rightarrow> statement option res" where
  "fold_size_of E t =
     (case t of
        Some BitsT \<Rightarrow> Inr None
      | Some t \<Rightarrow> rbind (width_bits E t) (\<lambda>w. Inr (Some (Constant (UnsignedInteger (word_of_nat w) 16))))
      | None \<Rightarrow> Inl ExplicitPanic)"

fun cast_integer :: "rust_env \<Rightarrow> rconst \<Rightarrow> rtype \<Rightarrow> rconst res" where
  "cast_integer E (UnsignedInteger value _) (Primitive (SignedIntegerT width)) = new_signed E value width"
| "cast_integer E (SignedInteger value _) (Primitive (SignedIntegerT width)) = new_signed E value width"
| "cast_integer E (SignedInteger value _) (Primitive (UnsignedIntegerT width)) =
     rbind (u64_try_from_i64 value) (\<lambda>v. Inr (new_unsigned v width))"
| "cast_integer E (UnsignedInteger value _) (Primitive (UnsignedIntegerT width)) = Inr (new_unsigned value width)"
| "cast_integer E (SignedInteger value _) (Primitive (FloatingPointT width)) =
     rbind (i32_try_from_i64 value) (\<lambda>v. new_float (f64_of_i32 E v) width)"
| "cast_integer E _ _ = Inl ExplicitPanic"

fun truncate_constant :: "rust_env \<Rightarrow> rconst \<Rightarrow> rtype \<Rightarrow> rconst res" where
  "truncate_constant E (UnsignedInteger value _) (Primitive (UnsignedIntegerT width)) = Inr (new_unsigned value width)"
| "truncate_constant E (SignedInteger value _) (Primitive (UnsignedIntegerT width)) =
     rbind (u64_try_from_i64 value) (\<lambda>v. Inr (new_unsigned v width))"
| "truncate_constant E (SignedInteger value _) (Primitive (SignedIntegerT width)) = new_signed E value width"
| "truncate_constant E (UnsignedInteger value _) (Primitive (SignedIntegerT width)) =
     rbind (i64_try_from_u64 value) (\<lambda>v. new_signed E v width)"
| "truncate_constant E _ _ = Inl Todo"

text \<open>The casts of a constant; \<open>None\<close> where the code leaves the statement alone.\<close>

definition fold_cast :: "rust_env \<Rightarrow> cast_operation_kind \<Rightarrow> rtype \<Rightarrow> rconst \<Rightarrow> rconst option res" where
  "fold_cast E kind t value =
     (if kind = ZeroExtendK \<or> kind = SignExtendK then
        (case t of Primitive _ \<Rightarrow> rbind (cast_integer E value t) (\<lambda>c. Inr (Some c)) | _ \<Rightarrow> Inr None)
      else if kind = TruncateK then rbind (truncate_constant E value t) (\<lambda>c. Inr (Some c))
      else if kind = ReinterpretK then rbind (cast_integer E value t) (\<lambda>c. Inr (Some c))
      else Inr None)"

definition fold_statement :: "rust_env \<Rightarrow> statement arena \<Rightarrow> statement \<Rightarrow> statement option res" where
  "fold_statement E sa s =
     (let folded = (\<lambda>c. Inr (Some (Constant c))) in
      case s of
        UnaryOperation kind value \<Rightarrow>
          rbind (constant_at sa value) (\<lambda>v.
          case v of
            Some v \<Rightarrow> if kind = NotK then rbind (const_not v) folded else Inr None
          | None \<Rightarrow> Inr None)
      | BinaryOperation kind lhs rhs \<Rightarrow>
          rbind (arena_get sa lhs) (\<lambda>l. rbind (constant_at sa rhs) (\<lambda>r.
          case (as_constant l, r) of
            (Some l, Some r) \<Rightarrow> rbind (fold_binary E kind l r) folded
          | (None, Some r) \<Rightarrow> if kind = AndK then fold_and_mask E sa l r else Inr None
          | _ \<Rightarrow> Inr None))
      | CreateBits value width \<Rightarrow>
          rbind (constant_at sa width) (\<lambda>w. rbind (constant_at sa value) (\<lambda>v.
          case (v, w) of
            (Some v, Some w) \<Rightarrow> rbind (fold_create_bits v w) folded
          | _ \<Rightarrow> Inr None))
      | SizeOf value \<Rightarrow> rbind (typ_at sa value) (fold_size_of E)
      | Cast kind t value \<Rightarrow>
          rbind (constant_at sa value) (\<lambda>v.
          case v of
            Some v \<Rightarrow> rbind (fold_cast E kind t v) (\<lambda>c. Inr (map_option Constant c))
          | None \<Rightarrow> Inr None)
      | _ \<Rightarrow> Inr None)"

definition constant_folding :: "rust_env \<Rightarrow> function_pass" where
  "constant_folding E = on_every_block (rewrite_block (fold_statement E))"

section \<open>Bit simplification\<close>

definition is_zero_constant :: "rconst option \<Rightarrow> bool" where
  "is_zero_constant c = (case c of Some (SignedInteger v _) \<Rightarrow> v = 0 | Some (UnsignedInteger v _) \<Rightarrow> v = 0 | _ \<Rightarrow> False)"

fun constant_i64 :: "rconst \<Rightarrow> i64 res" where
  "constant_i64 (UnsignedInteger value _) = i64_try_from_u64 value"
| "constant_i64 (SignedInteger value _) = Inr value"
| "constant_i64 _ = Inl ExplicitPanic"

text \<open>\<open>i64::try_from(s.typ(arena).unwrap().width_bits()).unwrap()\<close>\<close>

definition statement_width :: "rust_env \<Rightarrow> statement arena \<Rightarrow> statement \<Rightarrow> nat res" where
  "statement_width E sa s = rbind (statement_typ sa s) (\<lambda>t. rbind (unwrap t) (width_bits E))"

definition bit_extract_entire_value :: "rust_env \<Rightarrow> statement arena \<Rightarrow> stmt_id \<Rightarrow> stmt_id \<Rightarrow> stmt_id \<Rightarrow> statement option res" where
  "bit_extract_entire_value E sa value start width =
     rbind (constant_at sa start) (\<lambda>start.
     if \<not> is_zero_constant start then Inr None
     else rbind (constant_at sa width) (\<lambda>width.
     case width of
       None \<Rightarrow> Inr None
     | Some width \<Rightarrow>
         rbind (constant_i64 width) (\<lambda>width. rbind (arena_get sa value) (\<lambda>value.
         rbind (statement_width E sa value) (\<lambda>w.
         Inr (if sint width \<noteq> int w then None else Some value))))))"

text \<open>\<open>let Statement::Constant(Constant::SignedInteger { value, .. }) = r.get(arena) else { return false }\<close>\<close>

definition signed_constant_at :: "statement arena \<Rightarrow> stmt_id \<Rightarrow> i64 option res" where
  "signed_constant_at sa r =
     rbind (constant_at sa r) (\<lambda>c. Inr (case c of Some (SignedInteger value _) \<Rightarrow> Some value | _ \<Rightarrow> None))"

definition bit_extract_of_bit_insert :: "statement arena \<Rightarrow> stmt_id \<Rightarrow> stmt_id \<Rightarrow> stmt_id \<Rightarrow> statement option res" where
  "bit_extract_of_bit_insert sa value start width =
     rbind (signed_constant_at sa start) (\<lambda>es. if es = None then Inr None else
     rbind (signed_constant_at sa width) (\<lambda>ew. if ew = None then Inr None else
     rbind (arena_get sa value) (\<lambda>value.
     case value of
       BitInsert _ insert_source insert_start insert_width \<Rightarrow>
         rbind (signed_constant_at sa insert_start) (\<lambda>is. if is = None then Inr None else
         rbind (signed_constant_at sa insert_width) (\<lambda>iw. if iw = None then Inr None else
         if \<not> (is = es \<and> iw = ew) then Inr None
         else rbind (arena_get sa insert_source) (\<lambda>s. Inr (Some s))))
     | _ \<Rightarrow> Inr None)))"

definition is_integer :: "rconst \<Rightarrow> bool" where
  "is_integer c = (case c of UnsignedInteger _ _ \<Rightarrow> True | SignedInteger _ _ \<Rightarrow> True | _ \<Rightarrow> False)"

definition simplify_create_bits :: "rust_env \<Rightarrow> statement arena \<Rightarrow> stmt_id \<Rightarrow> stmt_id \<Rightarrow> statement option res" where
  "simplify_create_bits E sa source_ref width =
     rbind (constant_at sa width) (\<lambda>width.
     case width of
       None \<Rightarrow> Inr None
     | Some width \<Rightarrow>
         if \<not> is_integer width then Inr None
         else
           rbind (constant_width width) (\<lambda>width. rbind (arena_get sa source_ref) (\<lambda>source.
           rbind (statement_typ sa source) (\<lambda>t. rbind (unwrap t) (\<lambda>source_type.
           case as_constant source of
             Some (UnsignedInteger value _) \<Rightarrow> Inr (Some (Constant (UnsignedInteger (value AND mask_u64 width) width)))
           | Some _ \<Rightarrow> Inl Todo
           | None \<Rightarrow>
               rbind (width_bits E source_type) (\<lambda>sw.
               Inr (Some (case cmp sw width of
                  Less \<Rightarrow> Cast ZeroExtendK (Primitive (UnsignedIntegerT width)) source_ref
                | Equal \<Rightarrow> source
                | Greater \<Rightarrow> Cast TruncateK (Primitive (UnsignedIntegerT width)) source_ref))))))))"

definition bit_insert_entire_value :: "rust_env \<Rightarrow> statement arena \<Rightarrow> stmt_id \<Rightarrow> stmt_id \<Rightarrow> stmt_id \<Rightarrow> stmt_id \<Rightarrow> statement option res" where
  "bit_insert_entire_value E sa target source start width =
     rbind (constant_at sa start) (\<lambda>start.
     if \<not> is_zero_constant start then Inr None
     else rbind (constant_at sa width) (\<lambda>width.
     case width of
       None \<Rightarrow> Inr None
     | Some width \<Rightarrow>
         rbind (constant_i64 width) (\<lambda>width. rbind (arena_get sa source) (\<lambda>source. rbind (arena_get sa target) (\<lambda>target.
         rbind (statement_width E sa source) (\<lambda>sw.
         if sint width \<noteq> int sw then Inr None
         else rbind (statement_width E sa target) (\<lambda>tw.
         Inr (if sint width \<noteq> int tw then None else Some source))))))))"

definition simplify_statement :: "rust_env \<Rightarrow> statement arena \<Rightarrow> statement \<Rightarrow> statement option res" where
  "simplify_statement E sa s =
     (case s of
        BitExtract value start width \<Rightarrow>
          rbind (bit_extract_entire_value E sa value start width) (\<lambda>new.
          case new of Some n \<Rightarrow> Inr (Some n) | None \<Rightarrow> bit_extract_of_bit_insert sa value start width)
      | BitInsert target source start width \<Rightarrow> bit_insert_entire_value E sa target source start width
      | CreateBits value width \<Rightarrow> simplify_create_bits E sa value width
      | _ \<Rightarrow> Inr None)"

definition bit_simplification :: "rust_env \<Rightarrow> function_pass" where
  "bit_simplification E = on_every_block (rewrite_block (simplify_statement E))"

section \<open>Folding computes what the interpreter computes\<close>

text \<open>A value reduced to the bits its width stores.\<close>

fun reduce_value :: "rvalue \<Rightarrow> rvalue" where
  "reduce_value (UnsignedIntegerV v w) = UnsignedIntegerV (v AND mask_u64 w) w"
| "reduce_value (SignedIntegerV v w) = SignedIntegerV (sign_extend_from w v) w"
| "reduce_value v = v"

definition same_bits :: "rvalue \<Rightarrow> rvalue \<Rightarrow> bool" where
  "same_bits v v' \<longleftrightarrow> reduce_value v = reduce_value v'"

lemma sign_extend_from_idem:
  assumes "1 \<le> w" "w \<le> 64"
  shows "sign_extend_from w (sign_extend_from w v) = sign_extend_from w v"
proof -
  have "sint (sign_extend_from w (sign_extend_from w v)) = sint (sign_extend_from w v)"
    using assms by (simp only: sint_sign_extend_from) simp
  then show ?thesis by (simp add: signed_word_eqI)
qed

lemma sign_extend_from_self:
  assumes "1 \<le> w" "w \<le> 64" "signed_range w (sint v)"
  shows "sign_extend_from w v = v"
proof -
  have "sint (sign_extend_from w v) = sint v"
    using assms signed_take_range_id by (simp only: sint_sign_extend_from)
  then show ?thesis by (simp add: signed_word_eqI)
qed

lemma same_bits_unsigned [simp]:
  "same_bits (UnsignedIntegerV x w) (UnsignedIntegerV (x AND mask_u64 w) w)"
  "same_bits (UnsignedIntegerV x w) (UnsignedIntegerV x w)"
  by (simp_all add: same_bits_def and.assoc)

lemma same_bits_signed:
  assumes "1 \<le> w" "w \<le> 64"
  shows "same_bits (SignedIntegerV x w) (SignedIntegerV (sign_extend_from w x) w)"
    and "same_bits (SignedIntegerV (x AND mask_u64 w) w) (SignedIntegerV (sign_extend_from w x) w)"
  using assms by (simp_all add: same_bits_def sign_extend_from_idem sign_extend_from_mask)

fun int_width :: "rconst \<Rightarrow> nat option" where
  "int_width (UnsignedInteger _ w) = Some w"
| "int_width (SignedInteger _ w) = Some w"
| "int_width _ = None"

definition is_ordering :: "binary_operation_kind \<Rightarrow> bool" where
  "is_ordering k \<longleftrightarrow> is_comparison k \<and> k \<noteq> CompareEqualK \<and> k \<noteq> CompareNotEqualK"

lemma fold_binary_value:
  assumes fold: "fold_binary E k a b = Inr c" and eval: "eval_binary E k (from_constant a) (from_constant b) = Inr v"
    and w: "int_width a = Some w" "int_width b = Some w" "1 \<le> w" "w \<le> 64"
    and ord: "is_ordering k \<longrightarrow> same_int_class a b"
  shows "same_bits v (from_constant c)"
proof -
  have one: "(of_bool p :: u64) AND mask_u64 1 = of_bool p" for p by (simp add: mask_u64_eq)
  consider (uu) x y where "a = UnsignedInteger x w" "b = UnsignedInteger y w"
    | (us) x y where "a = UnsignedInteger x w" "b = SignedInteger y w"
    | (su) x y where "a = SignedInteger x w" "b = UnsignedInteger y w"
    | (ss) x y where "a = SignedInteger x w" "b = SignedInteger y w"
    using w by (cases a; cases b) auto
  then show ?thesis
  proof cases
    case uu
    then show ?thesis
      using fold eval
      by (cases k) (auto simp: fold_binary_def eval_binary_def fold_ordering_def new_unsigned_def truth_def one rbind_eq_Inr)
  next
    case us
    then show ?thesis
      using fold eval ord w(3,4)
      by (cases k) (auto simp: fold_binary_def eval_binary_def fold_ordering_def new_unsigned_def truth_def one rbind_eq_Inr
          new_signed_eq same_bits_signed is_ordering_def is_comparison_def)
  next
    case su
    then show ?thesis
      using fold eval ord w(3,4)
      by (cases k) (auto simp: fold_binary_def eval_binary_def fold_ordering_def new_unsigned_def truth_def one rbind_eq_Inr
          new_signed_eq same_bits_signed is_ordering_def is_comparison_def)
  next
    case ss
    then show ?thesis
      using fold eval w(3,4)
      by (cases k) (auto simp: fold_binary_def eval_binary_def fold_ordering_def new_unsigned_def truth_def one rbind_eq_Inr
          new_signed_eq same_bits_signed)
  qed
qed

lemma not_one_bit: "v AND mask_u64 1 = v \<Longrightarrow> NOT v AND mask_u64 1 = of_bool (v = 0)"
proof -
  assume "v AND mask_u64 1 = v"
  then have "v mod 2 = v" by (simp add: mask_u64_eq and_one_eq)
  then have "v = 0 \<or> v = 1" by (metis parity_cases)
  then show ?thesis by (auto simp: mask_u64_eq and_one_eq even_not_iff)
qed

lemma sign_extend_normalised:
  assumes "1 \<le> w" "w \<le> 64" "signed_range w (sint x)"
  shows "sign_extend E x w d = Inr (x AND mask_u64 d)"
  using assms sign_extend_from_self [OF assms] by (simp add: sign_extend_def arith_defs sign_extend_from_def)

text \<open>Casts.  The target has a width of 1 to 64 bits, and the constant is normalised to its own.\<close>

definition usable_type :: "rtype \<Rightarrow> bool" where
  "usable_type t = (case t of Primitive p \<Rightarrow> 1 \<le> primitive_width p \<and> primitive_width p \<le> 64 | _ \<Rightarrow> True)"

lemma fold_cast_value:
  assumes fold: "fold_cast E k t c = Inr (Some c')" and st: "const_typ c = Inr source_typ"
    and eval: "eval_cast E k source_typ t (from_constant c) = Inr v" and wf: "constant_wf c" and t: "usable_type t"
  shows "same_bits v (from_constant c')"
proof (cases c)
  case (UnsignedInteger x w)
  then show ?thesis
    using fold eval t
    by (auto simp: fold_cast_def cast_unsigned_def usable_type_def new_unsigned_def rbind_eq_Inr new_signed_eq
        same_bits_signed i64_try_from_u64_def
        split: rtype.splits primitive_type.splits cast_operation_kind.splits if_splits)
next
  case (SignedInteger x w)
  then show ?thesis
    using fold eval t wf st
    by (auto simp: fold_cast_def cast_signed_def usable_type_def new_unsigned_def rbind_eq_Inr new_signed_eq
        same_bits_signed i64_try_from_u64_def u64_try_from_i64_def sign_extend_normalised
        split: rtype.splits primitive_type.splits cast_operation_kind.splits if_splits)
qed (use eval in auto)

text \<open>
  What folding a statement relies on: a negated constant is one bit wide; the two constants of an
  operation have the same width, and the same sign class when they are ordered; the operand of
  \<open>size-of\<close> has the width of its type; a cast goes to a width of 1 to 64 bits.
\<close>

definition foldable :: "statement arena \<Rightarrow> interpreter \<Rightarrow> statement \<Rightarrow> bool" where
  "foldable sa st s =
     (case s of
        UnaryOperation _ r \<Rightarrow>
          (case constant_at sa r of Inr (Some c) \<Rightarrow> int_width c = Some 1 \<and> constant_wf c | _ \<Rightarrow> True)
      | BinaryOperation k l r \<Rightarrow>
          (case (constant_at sa l, constant_at sa r) of
             (Inr (Some a), Inr (Some b)) \<Rightarrow>
               (case int_width a of
                  Some w \<Rightarrow> int_width b = Some w \<and> 1 \<le> w \<and> w \<le> 64 \<and> (is_ordering k \<longrightarrow> same_int_class a b)
                | None \<Rightarrow> False)
           | _ \<Rightarrow> True)
      | SizeOf r \<Rightarrow>
          (case (typ_at sa r, statement_values st r) of
             (Inr (Some t), Some (UnsignedIntegerV _ w)) \<Rightarrow> t = BitsT \<or> t = Primitive (UnsignedIntegerT w)
           | _ \<Rightarrow> True)
      | Cast _ t r \<Rightarrow>
          usable_type t \<and> (case constant_at sa r of Inr (Some c) \<Rightarrow> constant_wf c | _ \<Rightarrow> True)
      | _ \<Rightarrow> True)"

text \<open>The values of constant statements that were executed.\<close>

definition constants_known :: "statement arena \<Rightarrow> interpreter \<Rightarrow> bool" where
  "constants_known sa st \<longleftrightarrow>
     (\<forall>r<length sa. \<forall>v c. statement_values st r = Some v \<longrightarrow> as_constant (sa ! r) = Some c \<longrightarrow> v = from_constant c)"

lemma constants_knownD:
  "constants_known sa st \<Longrightarrow> constant_at sa r = Inr (Some c) \<Longrightarrow> resolve st r = Inr v \<Longrightarrow> v = from_constant c"
  by (auto simp: constants_known_def constant_at_def rbind_eq_Inr arena_get_Inr resolve_def split: option.splits)

lemma resolve_u64_constant:
  assumes "constants_known sa st" "constant_at sa r = Inr (Some c)" "resolve_u64 st r = Inr x"
  shows "as_u64 (from_constant c) = Inr x"
  using assms constants_knownD [OF assms(1,2)] by (auto simp: resolve_u64_def rbind_eq_Inr)

lemma constant_at_typ: "constant_at sa r = Inr (Some c) \<Longrightarrow> typ_at sa r = rbind (const_typ c) (\<lambda>t. Inr (Some t))"
  by (auto simp: constant_at_def typ_at_def rbind_eq_Inr arena_get_def statement_typ_def statement_typ_fuel.simps
      typ_step_def elim!: as_constant.elims split: if_splits)

lemma fold_size_of_Some: "fold_size_of E t = Inr (Some s) \<Longrightarrow> \<exists>t'. t = Some t' \<and> t' \<noteq> BitsT"
  by (auto simp: fold_size_of_def split: option.splits)

lemma nat_sint: "0 \<le> sint (n :: i64) \<Longrightarrow> nat (sint n) = unat n"
  by (simp add: nonneg_i64_unat)

lemma fold_create_bits_value:
  assumes "fold_create_bits a b = Inr c" and "as_u64 (from_constant a) = Inr x" and "as_u64 (from_constant b) = Inr n"
    and "u32_try_from_u64 n = Inr w"
  shows "same_bits (UnsignedIntegerV x w) (from_constant c)"
proof -
  have "constant_width b = Inr w"
    using assms(1,3,4)
    by (cases b) (auto simp: fold_create_bits_def constant_width_def u32_try_from_u64_def u32_try_from_i64_def
        rbind_eq_Inr nat_sint split: if_splits)
  then show ?thesis using assms(1,2) by (cases a) (auto simp: fold_create_bits_def)
qed

lemmas eval_value_defs = eval_value_def is_read_statement_def is_bits_statement_def eval_arith_def eval_bits_def

lemma fold_statement_value:
  assumes fold: "fold_statement E sa s = Inr (Some (Constant c))" and eval: "eval_value E sa st s = Inr v"
    and known: "constants_known sa st" and ok: "foldable sa st s"
  shows "same_bits v (from_constant c)"
proof (cases s)
  case (UnaryOperation k r)
  obtain a where a: "constant_at sa r = Inr (Some a)" "k = NotK" "const_not a = Inr c"
    using fold UnaryOperation by (auto simp: fold_statement_def rbind_eq_Inr split: option.splits if_splits)
  obtain x where x: "resolve st r = Inr x" "eval_unary E NotK x = Inr v"
    using eval UnaryOperation a(2) by (auto simp: eval_value_defs rbind_eq_Inr)
  have "x = from_constant a" by (rule constants_knownD [OF known a(1) x(1)])
  moreover obtain y where "a = UnsignedInteger y 1" "y AND mask_u64 1 = y"
    using a ok UnaryOperation by (cases a) (auto simp: foldable_def)
  ultimately show ?thesis
    using x(2) a(3) not_one_bit [of y] by (simp add: new_unsigned_def del: One_nat_def) auto
next
  case (BinaryOperation k l r)
  obtain a b where ab: "constant_at sa l = Inr (Some a)" "constant_at sa r = Inr (Some b)" "fold_binary E k a b = Inr c"
    using fold BinaryOperation
    by (auto simp: fold_statement_def fold_and_mask_def constant_at_def rbind_eq_Inr split: option.splits if_splits rconst.splits)
  obtain x y where xy: "resolve st l = Inr x" "resolve st r = Inr y" "eval_binary E k x y = Inr v"
    using eval BinaryOperation by (auto simp: eval_value_defs rbind_eq_Inr)
  have "x = from_constant a" "y = from_constant b"
    using constants_knownD [OF known ab(1) xy(1)] constants_knownD [OF known ab(2) xy(2)] by simp_all
  with xy(3) ab ok BinaryOperation show ?thesis
    by (auto simp: foldable_def intro: fold_binary_value split: option.splits)
next
  case (CreateBits r n)
  obtain a b where ab: "constant_at sa r = Inr (Some a)" "constant_at sa n = Inr (Some b)" "fold_create_bits a b = Inr c"
    using fold CreateBits by (auto simp: fold_statement_def rbind_eq_Inr split: option.splits)
  obtain x y w where xy: "resolve_u64 st r = Inr x" "resolve_u64 st n = Inr y" "u32_try_from_u64 y = Inr w" "v = UnsignedIntegerV x w"
    using eval CreateBits by (auto simp: eval_value_defs rbind_eq_Inr)
  show ?thesis
    unfolding xy(4)
    by (rule fold_create_bits_value [OF ab(3) _ _ xy(3)]) (use known ab xy resolve_u64_constant in blast)+
next
  case (SizeOf r)
  obtain t where t: "typ_at sa r = Inr (Some t)" "t \<noteq> BitsT"
    using fold SizeOf by (auto simp: fold_statement_def rbind_eq_Inr dest!: fold_size_of_Some)
  obtain x w where x: "resolve st r = Inr (UnsignedIntegerV x w)" "v = UnsignedIntegerV (word_of_nat w) 16"
  proof -
    obtain y where "resolve st r = Inr y"
        "(case y of UnsignedIntegerV _ width \<Rightarrow> Inr (UnsignedIntegerV (word_of_nat width) 16) | _ \<Rightarrow> Inl Todo) = Inr v"
      using eval SizeOf by (auto simp: eval_value_defs rbind_eq_Inr)
    then show thesis using that by (cases y) auto
  qed
  then have "t = Primitive (UnsignedIntegerT w)"
    using ok SizeOf t by (auto simp: foldable_def resolve_def split: option.splits)
  then show ?thesis using fold SizeOf t(1) x(2) by (auto simp: fold_statement_def fold_size_of_def)
next
  case (Cast k t r)
  obtain a where a: "constant_at sa r = Inr (Some a)" "fold_cast E k t a = Inr (Some c)"
    using fold Cast by (auto simp: fold_statement_def rbind_eq_Inr split: option.splits)
  obtain x source_typ where x: "typ_at sa r = Inr (Some source_typ)" "resolve st r = Inr x" "eval_cast E k source_typ t x = Inr v"
    using eval Cast by (auto simp: eval_value_defs typ_at_def rbind_eq_Inr unwrap_eq_Inr)
  have "const_typ a = Inr source_typ" using constant_at_typ [OF a(1)] x(1) by (cases "const_typ a") simp_all
  moreover have "x = from_constant a" by (rule constants_knownD [OF known a(1) x(2)])
  ultimately show ?thesis
    using fold_cast_value [OF a(2), of source_typ v] x(3) ok a(1) Cast by (auto simp: foldable_def)
qed (use fold in \<open>auto simp: fold_statement_def\<close>)

text \<open>
  C37: folding a statement to a constant gives the value the interpreter computes for it.  When
  the executed constants have their values and the statement is \<open>foldable\<close>, the constant has
  the kind, the width and the stored bits of the interpreter's value: for the negation of a normalised
  constant of one bit, for every operation on two integer constants of one width of 1 to 64 bits, which have the same
  signedness if the operation orders them, for the size of a value that has the width of its type, and for every
  cast of a normalised constant to an integer type of 1 to 64 bits.
\<close>

theorem constant_folding_value:
  assumes "fold_statement E sa s = Inr (Some (Constant c))" and "eval_value E sa st s = Inr v"
    and "constants_known sa st" and "foldable sa st s"
  shows "same_bits v (from_constant c)"
  using assms by (rule fold_statement_value)

definition sample_fold_arena :: "statement arena" where
  "sample_fold_arena = [Constant (SignedInteger 100 8), Constant (SignedInteger 60 8)]"

definition sample_fold_state :: interpreter where
  "sample_fold_state = \<lparr>locals = Map.empty, statement_values = [0 \<mapsto> SignedIntegerV 100 8, 1 \<mapsto> SignedIntegerV 60 8],
     regs = \<lparr>inner = [], rf_registers = [], register_offsets = [], global_register_offset = 0\<rparr>, flags = 0\<rparr>"

theorem constant_folding_value_witness:
  "fold_statement sample_env sample_fold_arena (BinaryOperation AddK 0 1) = Inr (Some (Constant (SignedInteger (-96) 8)))
   \<and> eval_value sample_env sample_fold_arena sample_fold_state (BinaryOperation AddK 0 1) = Inr (SignedIntegerV 160 8)
   \<and> same_bits (SignedIntegerV 160 8) (from_constant (SignedInteger (-96) 8))"
proof -
  have f: "fold_statement sample_env sample_fold_arena (BinaryOperation AddK 0 1) = Inr (Some (Constant (SignedInteger (-96) 8)))"
    by code_simp
  have e: "eval_value sample_env sample_fold_arena sample_fold_state (BinaryOperation AddK 0 1) = Inr (SignedIntegerV 160 8)"
    by code_simp
  have "constants_known sample_fold_arena sample_fold_state"
    by (auto simp: constants_known_def sample_fold_arena_def sample_fold_state_def less_Suc_eq)
  moreover have "foldable sample_fold_arena sample_fold_state (BinaryOperation AddK 0 1)"
    by (simp add: foldable_def constant_at_def sample_fold_arena_def arena_get_def)
  ultimately show ?thesis using constant_folding_value [OF f e] f e by blast
qed

text \<open>
  Where folding and the interpreter differ outside these conditions: the negation of a constant
  wider than a bit is folded bit by bit, and an ordering of a signed and an unsigned constant is
  always folded to false.
\<close>

theorem folding_differs:
  "fold_statement sample_env [Constant (UnsignedInteger 1 8)] (UnaryOperation NotK 0)
     = Inr (Some (Constant (UnsignedInteger 254 8)))
   \<and> eval_unary sample_env NotK (UnsignedIntegerV 1 8) = Inr (UnsignedIntegerV 0 1)
   \<and> fold_statement sample_env [Constant (SignedInteger 1 8), Constant (UnsignedInteger 2 8)] (BinaryOperation CompareLessThanK 0 1)
     = Inr (Some (Constant (UnsignedInteger 0 1)))
   \<and> eval_binary sample_env CompareLessThanK (SignedIntegerV 1 8) (UnsignedIntegerV 2 8) = Inr (UnsignedIntegerV 1 1)"
proof (intro conjI)
  show "eval_unary sample_env NotK (UnsignedIntegerV 1 8) = Inr (UnsignedIntegerV 0 1)"
    "eval_binary sample_env CompareLessThanK (SignedIntegerV 1 8) (UnsignedIntegerV 2 8) = Inr (UnsignedIntegerV 1 1)"
    by (simp_all add: eval_binary_def truth_def i64_try_from_u64_def i64_cmp_def cmp_def)
qed code_simp+

section \<open>A copied statement runs again\<close>

definition sample_reread :: "statement \<Rightarrow> rfunction" where
  "sample_reread s =
     \<lparr>return_type = Some sample_u8, parameters = [\<lparr>sym_name = ''x'', sym_typ = sample_u8\<rparr>], fn_name = ''reread'',
      local_variables = [],
      block_arena = [\<lparr>statement_arena =
          [ReadVariable \<lparr>sym_name = ''x'', sym_typ = sample_u8\<rparr>, Constant (UnsignedInteger 0 8), Constant (UnsignedInteger 8 8),
           Constant (UnsignedInteger 255 8), WriteVariable \<lparr>sym_name = ''x'', sym_typ = sample_u8\<rparr> 1, s, Return (Some 5)],
         statements = [0, 1, 2, 3, 4, 5, 6]\<rparr>],
      entry_block = 0\<rparr>"

definition run_reread :: "statement \<Rightarrow> (rvalue option \<times> register_file) res" where
  "run_reread s = interpret_fn 3 sample_env (model_new [(''reread'', sample_reread s)] []) ''reread'' [UnsignedIntegerV 9 8]
     \<lparr>inner = [], rf_registers = [], register_offsets = [], global_register_offset = 0\<rparr>"

text \<open>
  Both passes replace a statement by a copy of its operand where they should refer to the
  operand, so the copy reads again.  A function that reads its parameter, overwrites it with 0
  and returns all eight bits of what it read returns 9 on 9; after bit simplification of the
  extraction, and after constant folding of the same value masked with 255, it returns 0.
\<close>

theorem copied_statement_unsound:
  "bit_simplification sample_env (sample_reread (BitExtract 0 1 2))
     = Inr (sample_reread (ReadVariable \<lparr>sym_name = ''x'', sym_typ = sample_u8\<rparr>), True)
   \<and> constant_folding sample_env (sample_reread (BinaryOperation AndK 0 3))
     = Inr (sample_reread (ReadVariable \<lparr>sym_name = ''x'', sym_typ = sample_u8\<rparr>), True)
   \<and> map_sum (\<lambda>e. e) fst (run_reread (BitExtract 0 1 2)) = Inr (Some (UnsignedIntegerV 9 8))
   \<and> map_sum (\<lambda>e. e) fst (run_reread (BinaryOperation AndK 0 3)) = Inr (Some (UnsignedIntegerV 9 8))
   \<and> map_sum (\<lambda>e. e) fst (run_reread (ReadVariable \<lparr>sym_name = ''x'', sym_typ = sample_u8\<rparr>)) = Inr (Some (UnsignedIntegerV 0 8))"
proof (intro conjI)
  let ?x = "\<lparr>sym_name = ''x'', sym_typ = sample_u8\<rparr>"
  show "bit_simplification sample_env (sample_reread (BitExtract 0 1 2)) = Inr (sample_reread (ReadVariable ?x), True)"
    by (simp add: bit_simplification_def on_every_block_def function_blocks_def block_iter_def sample_reread_def arena_get_def
        targets_def live_statements_def rewrite_block_def simplify_statement_def bit_extract_entire_value_def constant_at_def
        is_zero_constant_def statement_width_def i64_try_from_u64_def sample_u8_def arena_set_def set_block_def)
  show "constant_folding sample_env (sample_reread (BinaryOperation AndK 0 3)) = Inr (sample_reread (ReadVariable ?x), True)"
    by code_simp
qed (simp_all add: run_reread_def sample_reread_def numeral_3_eq_3 interpret_fn_Suc run_blocks_Suc step_block_def model_new_def
    sample_u8_def Let_def exec_block_def interpreter_new_def bind_arguments_def arena_get_def exec_statement_def
    resolve_def resolve_u64_def bind_value_def eval_value_defs eval_read_def eval_binary_def bit_extract_def arith_defs mask_u64_eq mask_eq_exp_minus_1)

end
