(* ===== verification/Opt_Inline.thy ===== *)
theory Opt_Inline
  imports Opt_Uses
begin

text \<open>
  The block inliner, \<open>borealis/borealis/src/rudder/opt/block_inliner.rs\<close>: a block that ends in a
  jump to a small block takes over copies of that block's statements.  One step of the new
  function then stands for two of the old one, which \<open>block_simulation\<close> does not cover:
  \<open>merges\<close> says when a block does what two did, and \<open>merged_block_refines\<close> that replacing it
  refines the model.  \<open>copied\<close> is the invariant of the loop that imports the statements.
\<close>

section \<open>The pass\<close>

definition INLINE_SIZE_THRESHOLD :: nat where
  "INLINE_SIZE_THRESHOLD = 5"

text \<open>\<open>terminator_statement().is_some_and(|r| matches!(r.get(..), Statement::Return { .. }))\<close>\<close>

definition ends_in_return :: "block \<Rightarrow> bool res" where
  "ends_in_return b =
     (case terminator_statement b of
        None \<Rightarrow> Inr False
      | Some r \<Rightarrow> rbind (arena_get (statement_arena b) r) (\<lambda>s. Inr (case s of Return _ \<Rightarrow> True | _ \<Rightarrow> False)))"

text \<open>The loop over the statements of the target block.\<close>

definition import_statements ::
    "block_id \<Rightarrow> block_id \<Rightarrow> stmt_id list \<Rightarrow> block arena \<times> (stmt_id \<rightharpoonup> stmt_id) \<Rightarrow> (block arena \<times> (stmt_id \<rightharpoonup> stmt_id)) res" where
  "import_statements source_block target_block =
     foldR (\<lambda>x (ba, mapping).
       rbind (import_statement source_block target_block ba x mapping) (\<lambda>(ba, y). Inr (ba, mapping(x \<mapsto> y))))"

definition run_inliner_block :: "block_id \<Rightarrow> function_pass" where
  "run_inliner_block source_block f =
     rbind (arena_get (block_arena f) source_block) (\<lambda>sb. rbind (unwrap (terminator_statement sb)) (\<lambda>terminator.
     rbind (arena_get (statement_arena sb) terminator) (\<lambda>s.
     case s of
       Jump target_block \<Rightarrow>
         rbind (arena_get (block_arena f) target_block) (\<lambda>tb.
         rbind (if block_len tb > INLINE_SIZE_THRESHOLD then Inr True else ends_in_return tb) (\<lambda>keep.
         if keep then Inr (f, False)
         else
           rbind (arena_modify (block_arena f) source_block (\<lambda>b. kill_statement b terminator)) (\<lambda>ba.
           rbind (arena_get ba target_block) (\<lambda>tb.
           rbind (import_statements source_block target_block (statements tb) (ba, Map.empty)) (\<lambda>(ba, _).
           Inr (f\<lparr>block_arena := ba\<rparr>, True))))))
     | _ \<Rightarrow> Inr (f, False))))"

definition block_inliner :: function_pass where
  "block_inliner = on_every_block run_inliner_block"

section \<open>One block for two\<close>

definition merges :: "block \<Rightarrow> block_id \<Rightarrow> block \<Rightarrow> block \<Rightarrow> bool" where
  "merges blk t tb blk' \<longleftrightarrow>
     (\<forall>C st st1 res. exec_block C blk st = Inr (st1, res) \<longrightarrow>
        exec_block C blk' st = Inr (st1, res)
        \<or> res = NextBlock t \<and> (\<forall>C2 st2 res2. ctx_le UNIV C2 C \<longrightarrow> exec_block C2 tb st1 = Inr (st2, res2)
             \<longrightarrow> (\<exists>st2'. exec_block C blk' st = Inr (st2', res2) \<and> same_store st2 st2')))"

text \<open>A block that goes back to itself whenever it ends; a function that reaches it does not return.\<close>

definition loops_on :: "block_id \<Rightarrow> block \<Rightarrow> bool" where
  "loops_on b blk \<longleftrightarrow> (\<forall>C st st1 res. exec_block C blk st = Inr (st1, res) \<longrightarrow> res = NextBlock b)"

lemma loops_on_no_return:
  assumes "map_of (fns m) name = Some f" and "arena_get (block_arena f) b = Inr blk" and "loops_on b blk"
  shows "run_blocks n E m name b st \<noteq> Inr r"
proof (induction n arbitrary: st)
  case 0
  show ?case by (simp add: run_blocks_0)
next
  case (Suc n)
  show ?case
  proof
    assume "run_blocks (Suc n) E m name b st = Inr r"
    then obtain st1 res where step: "exec_block (ctx_of n E m) blk st = Inr (st1, res)"
        "(case res of NextBlock next \<Rightarrow> run_blocks n E m name next st1 | ReturnValue v \<Rightarrow> Inr (v, regs st1)) = Inr r"
      using assms(1,2) by (auto simp: run_blocks_Suc step_block_def rbind_eq_Inr)
    have "res = NextBlock b" using assms(3) step(1) unfolding loops_on_def by blast
    then show False using step(2) Suc by simp
  qed
qed

lemma exec_block_store: "same_store st st' \<Longrightarrow> exec_block C blk st' = exec_block C blk st"
  by (simp add: exec_block_def clear_same_store)

definition keeps_runs :: "nat \<Rightarrow> rust_env \<Rightarrow> model \<Rightarrow> model \<Rightarrow> bool" where
  "keeps_runs n E m m' \<longleftrightarrow>
     (\<forall>g args rf r. interpret_fn n E m g args rf = Inr r \<longrightarrow> interpret_fn n E m' g args rf = Inr r)
     \<and> (\<forall>g b st st' r. same_store st st' \<longrightarrow> run_blocks n E m g b st = Inr r \<longrightarrow> run_blocks n E m' g b st' = Inr r)"

lemma keeps_runs_ctx:
  "keeps_runs n E m m' \<Longrightarrow> reg_offset m' = reg_offset m \<Longrightarrow> ctx_le UNIV (ctx_of n E m) (ctx_of n E m')"
  by (simp add: keeps_runs_def ctx_le_def ctx_of_def res_le_UNIV)

lemma keeps_runsD:
  "keeps_runs n E m m' \<Longrightarrow> same_store st st' \<Longrightarrow> run_blocks n E m g b st = Inr r \<Longrightarrow> run_blocks n E m' g b st' = Inr r"
  unfolding keeps_runs_def by blast

lemma exec_block_up: "ctx_le UNIV C C' \<Longrightarrow> exec_block C blk st = Inr r \<Longrightarrow> exec_block C' blk st = Inr r"
  using exec_block_mono [of UNIV C C' blk st] by (rule res_le_Inr)

text \<open>A block that both functions have.\<close>

lemma keeps_same_block:
  assumes keep: "keeps_runs k E m m'" and offs: "reg_offset m' = reg_offset m" and same: "same_store st st'"
    and g: "map_of (fns m) g = Some fg" "map_of (fns m') g = Some fg'"
    and blk: "arena_get (block_arena fg) b = Inr blk" "arena_get (block_arena fg') b = Inr blk'"
    and run: "run_blocks (Suc k) E m g b st = Inr r"
    and imp: "\<And>st1 res. exec_block (ctx_of k E m) blk st = Inr (st1, res) \<Longrightarrow> exec_block (ctx_of k E m) blk' st = Inr (st1, res)"
  shows "run_blocks (Suc k) E m' g b st' = Inr r"
proof -
  obtain st1 res where step: "exec_block (ctx_of k E m) blk st = Inr (st1, res)"
      "(case res of NextBlock next \<Rightarrow> run_blocks k E m g next st1 | ReturnValue v \<Rightarrow> Inr (v, regs st1)) = Inr r"
    using run g(1) blk(1) by (auto simp: run_blocks_Suc step_block_def rbind_eq_Inr)
  have "exec_block (ctx_of k E m') blk' st' = Inr (st1, res)"
    using exec_block_up [OF keeps_runs_ctx [OF keep offs] imp [OF step(1)]] exec_block_store [OF same] by simp
  moreover have "run_blocks k E m' g next st1 = Inr r" if "run_blocks k E m g next st1 = Inr r" for "next"
    by (rule keeps_runsD [OF keep _ that]) (simp add: same_store_def)
  ultimately show ?thesis
    using step(2) g(2) blk(2) by (auto simp: run_blocks_Suc step_block_def split: block_result.splits)
qed

lemma keeps_merged_block:
  assumes keep: "\<forall>j<Suc k. keeps_runs j E m m'" and offs: "reg_offset m' = reg_offset m"
    and same: "same_store st st'"
    and g: "map_of (fns m) g = Some fg" "map_of (fns m') g = Some fg'"
    and blk: "arena_get (block_arena fg) b = Inr blk" "arena_get (block_arena fg') b = Inr blk'"
    and tb: "arena_get (block_arena fg) t = Inr tb" and merges: "merges blk t tb blk'"
    and run: "run_blocks (Suc k) E m g b st = Inr r"
  shows "run_blocks (Suc k) E m' g b st' = Inr r"
proof -
  let ?C = "ctx_of k E m"
  have now: "keeps_runs k E m m'" using keep by simp
  obtain st1 res where step: "exec_block ?C blk st = Inr (st1, res)"
      "(case res of NextBlock next \<Rightarrow> run_blocks k E m g next st1 | ReturnValue v \<Rightarrow> Inr (v, regs st1)) = Inr r"
    using run g(1) blk(1) by (auto simp: run_blocks_Suc step_block_def rbind_eq_Inr)
  show ?thesis
  proof (cases "exec_block ?C blk' st = Inr (st1, res)")
    case True
    show ?thesis by (rule keeps_same_block [OF now offs same g blk run]) (use step(1) True in simp)
  next
    case False
    then have res: "res = NextBlock t" and next2: "\<And>C2 st2 res2. ctx_le UNIV C2 ?C \<Longrightarrow> exec_block C2 tb st1 = Inr (st2, res2)
        \<Longrightarrow> \<exists>st2'. exec_block ?C blk' st = Inr (st2', res2) \<and> same_store st2 st2'"
      using merges step(1) unfolding merges_def by blast+
    obtain j where k: "k = Suc j" using step(2) res by (cases k) (auto simp: run_blocks_0)
    obtain st2 res2 where step2: "exec_block (ctx_of j E m) tb st1 = Inr (st2, res2)"
        "(case res2 of NextBlock next \<Rightarrow> run_blocks j E m g next st2 | ReturnValue v \<Rightarrow> Inr (v, regs st2)) = Inr r"
      using step(2) g(1) tb unfolding res k by (auto simp: run_blocks_Suc step_block_def rbind_eq_Inr)
    have "res_le UNIV (interpret_fn j E m g args rf) (interpret_fn k E m g args rf)" for g args rf
      using fuel_mono(1) [of j k E m g args rf] k by (auto simp: res_le_def)
    then have "ctx_le UNIV (ctx_of j E m) ?C" by (simp add: ctx_le_def ctx_of_def)
    from next2 [OF this step2(1)] obtain st2' where st2': "exec_block ?C blk' st = Inr (st2', res2)" "same_store st2 st2'"
      by blast
    have "exec_block (ctx_of k E m') blk' st' = Inr (st2', res2)"
      using exec_block_up [OF keeps_runs_ctx [OF now offs] st2'(1)] exec_block_store [OF same] by simp
    moreover have "run_blocks k E m' g next st2' = Inr r" if "run_blocks j E m g next st2 = Inr r" for "next"
      using keeps_runsD [OF _ st2'(2) that, of m'] keep k res_le_Inr [OF fuel_mono(2) [of j k E m' g "next" st2']] by simp
    ultimately show ?thesis
      using step2(2) st2'(2) g(2) blk(2)
      by (auto simp: run_blocks_Suc step_block_def same_store_def split: block_result.splits)
  qed
qed

lemma merged_keeps_runs:
  assumes f: "map_of (fns m) name = Some f" and blk: "arena_get (block_arena f) s = Inr blk"
    and tb: "arena_get (block_arena f) t = Inr tb" and how: "merges blk t tb blk' \<or> loops_on s blk"
  shows "keeps_runs n E m (update_function m name (set_block f s blk'))"
proof (induction n rule: less_induct)
  case (less n)
  let ?m' = "update_function m name (set_block f s blk')"
  have blk': "arena_get (block_arena (set_block f s blk')) b = (if b = s then Inr blk' else arena_get (block_arena f) b)" for b
    using blk by (auto simp: set_block_def arena_get_def split: if_splits)
  show ?case
  proof (cases n)
    case 0
    then show ?thesis by (simp add: keeps_runs_def run_blocks_0 interpret_fn_0)
  next
    case (Suc k)
    then have keep: "\<forall>j<Suc k. keeps_runs j E m ?m'" and now: "keeps_runs k E m ?m'" using less by simp_all
    have "interpret_fn (Suc k) E ?m' g args rf = Inr r" if run: "interpret_fn (Suc k) E m g args rf = Inr r" for g args rf r
    proof -
      obtain fg where "map_of (fns m) g = Some fg" "run_blocks k E m g (entry_block fg)
          (interpreter_new rf (bind_arguments (parameters fg) args)) = Inr r"
        using run by (auto simp: interpret_fn_Suc rbind_eq_Inr unwrap_eq_Inr)
      moreover from this have "run_blocks k E ?m' g (entry_block fg)
          (interpreter_new rf (bind_arguments (parameters fg) args)) = Inr r"
        by (intro keeps_runsD [OF now]) (simp_all add: same_store_def)
      ultimately show ?thesis
        using f by (cases "g = name") (simp_all add: interpret_fn_Suc set_block_def)
    qed
    moreover have "run_blocks (Suc k) E ?m' g b st' = Inr r"
      if same: "same_store st st'" and run: "run_blocks (Suc k) E m g b st = Inr r" for g b st st' r
    proof -
      obtain fg bb where g: "map_of (fns m) g = Some fg" "arena_get (block_arena fg) b = Inr bb"
        using run by (auto simp: run_blocks_Suc step_block_def rbind_eq_Inr unwrap_eq_Inr)
      show ?thesis
      proof (cases "g = name \<and> b = s")
        case True
        have m': "map_of (fns ?m') name = Some (set_block f s blk')" by simp
        have bs': "arena_get (block_arena (set_block f s blk')) s = Inr blk'" by (simp add: blk')
        have run: "run_blocks (Suc k) E m name s st = Inr r" using run True by simp
        then have "\<not> loops_on s blk" using loops_on_no_return [OF f blk] by blast
        with how have "merges blk t tb blk'" by blast
        from keeps_merged_block [OF keep _ same f m' blk bs' tb this run] show ?thesis using True by simp
      next
        case False
        obtain fg' where "map_of (fns ?m') g = Some fg'" "arena_get (block_arena fg') b = Inr bb"
          using g f False blk' by (cases "g = name") auto
        from keeps_same_block [OF now _ same g(1) this(1) g(2) this(2) run] show ?thesis by simp
      qed
    qed
    ultimately show ?thesis using Suc by (simp add: keeps_runs_def)
  qed
qed

lemma merged_block_refines:
  assumes "map_of (fns m) name = Some f" and "arena_get (block_arena f) s = Inr blk"
    and "arena_get (block_arena f) t = Inr tb" and "merges blk t tb blk' \<or> loops_on s blk"
  shows "model_refines E m (update_function m name (set_block f s blk'))"
  using merged_keeps_runs [OF assms] unfolding model_refines_def keeps_runs_def by blast

section \<open>Executing part of a block\<close>

definition ends_block :: "statement \<Rightarrow> bool" where
  "ends_block s \<longleftrightarrow> (case s of Jump _ \<Rightarrow> True | Branch _ _ _ \<Rightarrow> True | Return _ \<Rightarrow> True | _ \<Rightarrow> False)"

lemma exec_ends_block:
  "exec_statement C sa st s = Inr (st1, out) \<Longrightarrow> ends_block s \<longleftrightarrow> (\<exists>res. out = Finished res)"
  by (cases s) (auto simp: exec_statement_def ends_block_def Let_def rbind_eq_Inr split_beta
      split: option.splits if_splits ternary_operation_kind.splits)

lemma exec_statements_split:
  "exec_statements C sa (xs @ ys) st = Inr r \<longleftrightarrow>
     exec_statements C sa xs st = Inr r
     \<or> (\<exists>st1. exec_prefix C sa xs st = Inr st1 \<and> exec_statements C sa ys st1 = Inr r)"
proof (induction xs arbitrary: st)
  case (Cons x xs)
  show ?case
  proof (cases "\<exists>s st1 out. arena_get sa x = Inr s \<and> exec_statement C sa st s = Inr (st1, out)")
    case True
    then obtain s st1 out where "arena_get sa x = Inr s" "exec_statement C sa st s = Inr (st1, out)" by blast
    then show ?thesis using Cons by (cases out) auto
  qed (auto simp: rbind_eq_Inr)
qed simp

lemma prefix_never_ends: "exec_prefix C sa xs st = Inr st1 \<Longrightarrow> x \<in> set xs \<Longrightarrow> \<not> ends_block (sa ! x)"
proof (induction xs arbitrary: st)
  case (Cons y xs)
  obtain s st2 v where "arena_get sa y = Inr s" "exec_statement C sa st s = Inr (st2, Produced v)"
      "exec_prefix C sa xs (bind_value st2 y v) = Inr st1"
    using Cons.prems(1) unfolding exec_prefix_Cons by blast
  then show ?case using Cons exec_ends_block [of C sa st s st2 "Produced v"] by (auto simp: arena_get_Inr)
qed simp

lemma exec_statements_ends: "exec_statements C sa xs st = Inr r \<Longrightarrow> \<exists>x\<in>set xs. ends_block (sa ! x)"
proof (induction xs arbitrary: st)
  case (Cons x xs)
  obtain s st1 out where "arena_get sa x = Inr s" "exec_statement C sa st s = Inr (st1, out)"
      "(case out of Finished result \<Rightarrow> Inr (st1, result) | Produced v \<Rightarrow> exec_statements C sa xs (bind_value st1 x v)) = Inr r"
    using Cons.prems by (auto simp: rbind_eq_Inr)
  then show ?case
    using Cons.IH exec_ends_block [of C sa st s st1 out] by (cases out) (auto simp: arena_get_Inr)
qed simp

section \<open>More statements in the arena\<close>

lemma arena_get_append: "arena_get sa r = Inr s \<Longrightarrow> arena_get (sa @ zs) r = Inr s"
  by (auto simp: arena_get_Inr nth_append arena_get_def)

lemma typ_step_append:
  assumes "\<And>r t. rec r = Inr t \<Longrightarrow> rec' r = Inr t" and "typ_step rec sa s = Inr t"
  shows "typ_step rec' (sa @ zs) s = Inr t"
proof -
  have "typ_step rec' sa s = Inr t" by (rule typ_step_mono [OF _ assms(2)]) (rule assms(1))
  moreover have "constant_at (sa @ zs) w = constant_at sa w" if "constant_at sa w = Inr c" for w c
    using that by (cases "arena_get sa w") (auto simp: constant_at_def arena_get_append)
  ultimately show ?thesis
    by (cases s) (auto simp: typ_step_extract rbind_eq_Inr, auto simp: typ_step_def)
qed

lemma typ_fuel_append:
  "statement_typ_fuel n sa s = Inr t \<Longrightarrow> statement_typ_fuel n (sa @ zs) s = Inr t"
proof (induction n arbitrary: s t)
  case (Suc n)
  show ?case
    using Suc.prems unfolding statement_typ_fuel.simps
    by (rule typ_step_append [rotated]) (auto simp: rbind_eq_Inr dest: arena_get_append [of _ _ _ zs] Suc.IH)
qed (simp add: statement_typ_fuel.simps)

lemma typ_at_append: "typ_at sa r = Inr t \<Longrightarrow> typ_at (sa @ zs) r = Inr t"
proof -
  assume "typ_at sa r = Inr t"
  then obtain s where "arena_get sa r = Inr s" "statement_typ_fuel (length sa + 1) sa s = Inr t"
    by (auto simp: typ_at_def statement_typ_def rbind_eq_Inr)
  then show ?thesis
    using typ_fuel_append [of "length sa + 1" sa s t zs] arena_get_append [of sa r s zs]
      typ_fuel_mono [of "length sa + 1" "sa @ zs" s t "length (sa @ zs) + 1"]
    by (simp add: typ_at_def statement_typ_def)
qed

lemma exec_statement_append:
  "exec_statement C sa st s = Inr (st1, out) \<Longrightarrow> exec_statement C (sa @ zs) st s = Inr (st1, out)"
  using exec_rename [of st st "\<lambda>r. r" s sa "sa @ zs" C st1 out] typ_at_append exec_keeps_values [of C sa st s st1 out]
  by (auto simp: same_store_def values_agree_def)

lemma exec_prefix_append_arena: "exec_prefix C sa xs st = Inr st1 \<Longrightarrow> exec_prefix C (sa @ zs) xs st = Inr st1"
proof (induction xs arbitrary: st)
  case (Cons x xs)
  obtain s st2 v where run: "arena_get sa x = Inr s" "exec_statement C sa st s = Inr (st2, Produced v)"
      "exec_prefix C sa xs (bind_value st2 x v) = Inr st1"
    using Cons.prems unfolding exec_prefix_Cons by blast
  then show ?case
    using arena_get_append [OF run(1)] exec_statement_append [OF run(2)] Cons.IH by simp
qed simp

lemma exec_statements_append_arena: "exec_statements C sa xs st = Inr r \<Longrightarrow> exec_statements C (sa @ zs) xs st = Inr r"
proof (induction xs arbitrary: st)
  case (Cons x xs)
  obtain s st1 out where run: "arena_get sa x = Inr s" "exec_statement C sa st s = Inr (st1, out)"
      "(case out of Finished result \<Rightarrow> Inr (st1, result) | Produced v \<Rightarrow> exec_statements C sa xs (bind_value st1 x v)) = Inr r"
    using Cons.prems by (auto simp: rbind_eq_Inr)
  then show ?case
    using arena_get_append [OF run(1)] exec_statement_append [OF run(2)] Cons.IH by (cases out) auto
qed simp

section \<open>The copies\<close>

text \<open>
  \<open>copied ta xs sa mp\<close>: the statements \<open>xs\<close> of a block with arena \<open>ta\<close> have copies in \<open>sa\<close>,
  where the map \<open>mp\<close> leads to.  A copy has the type of its original, and it is constant when the
  original is.
\<close>

definition copied :: "statement arena \<Rightarrow> stmt_id list \<Rightarrow> statement arena \<Rightarrow> (stmt_id \<rightharpoonup> stmt_id) \<Rightarrow> bool" where
  "copied ta xs sa mp \<longleftrightarrow> dom mp = set xs
     \<and> (\<forall>r\<in>set xs. the (mp r) < length sa
          \<and> constant_at sa (the (mp r)) = constant_at ta r
          \<and> (\<forall>t. typ_at ta r = Inr t \<longrightarrow> typ_at sa (the (mp r)) = Inr t))"

lemma as_constant_rename [simp]: "as_constant (rename_refs p s) = as_constant s"
  by (cases s) auto

lemma constant_at_append: "r < length sa \<Longrightarrow> constant_at (sa @ zs) r = constant_at sa r"
  by (simp add: constant_at_def arena_get_def nth_append)

lemma copied_append: "copied ta xs sa mp \<Longrightarrow> copied ta xs (sa @ zs) mp"
  unfolding copied_def using constant_at_append typ_at_append by auto

lemma import_copied: "copied ta xs sa mp \<Longrightarrow> import_kind mp s = Inr s' \<Longrightarrow> set (operands s) \<subseteq> set xs"
proof -
  assume cop: "copied ta xs sa mp" and "import_kind mp s = Inr s'"
  then have "list_all2 (\<lambda>r r'. mp r = Some r') (operands s) (operands s')" by (intro import_kind_operands)
  then have "r \<in> dom mp" if "r \<in> set (operands s)" for r
    using that by (induction rule: list_all2_induct) auto
  with cop show ?thesis by (auto simp: copied_def)
qed

lemma copied_snoc:
  assumes cop: "copied ta xs sa mp" and x: "arena_get ta x = Inr s" and s: "import_kind mp s = Inr s'"
  shows "copied ta (xs @ [x]) (sa @ [s']) (mp(x \<mapsto> length sa))"
proof -
  let ?p = "\<lambda>r. the (mp r)"
  note cop' = copied_append [OF cop, of "[s']"]
  note s' = import_kind_rename [OF s] and ops = import_copied [OF cop s]
  have "constant_at (sa @ [s']) (length sa) = constant_at ta x"
    using x s' by (simp add: constant_at_def arena_get_def nth_append)
  moreover have "typ_at (sa @ [s']) (length sa) = Inr t" if "typ_at ta x = Inr t" for t
  proof -
    have "typ_step (typ_at ta) ta s = Inr t"
      using that x typ_at_unfold [of x ta t] by (auto simp: arena_get_Inr)
    then have "typ_step (typ_at (sa @ [s'])) (sa @ [s']) s' = Inr t"
      unfolding s' by (rule typ_step_rename [rotated -1]) (use cop' ops s' in \<open>auto simp: copied_def\<close>)
    then show ?thesis using typ_at_unfold [of "length sa" "sa @ [s']" t] by (simp add: nth_append)
  qed
  ultimately show ?thesis
    using cop' unfolding copied_def by auto
qed

text \<open>What the loop makes of the source block, and what executing the copies does.\<close>

definition same_run :: "stmt_id list \<Rightarrow> (stmt_id \<rightharpoonup> stmt_id) \<Rightarrow> nat \<Rightarrow> interpreter \<Rightarrow> interpreter \<Rightarrow> bool" where
  "same_run xs mp n st st' \<longleftrightarrow> same_store st st'
     \<and> (\<forall>r\<in>set xs. statement_values st' (the (mp r)) = statement_values st r)
     \<and> (\<forall>r. r \<notin> set xs \<longrightarrow> statement_values st r = None)
     \<and> (\<forall>y\<ge>n. statement_values st' y = None)"

lemma same_run_step:
  assumes cop: "copied ta xs sa mp" and run: "same_run xs mp (length sa) st st'" and x: "x \<notin> set xs"
    and get: "arena_get ta x = Inr s" and s: "import_kind mp s = Inr s'" and C: "ctx_le UNIV C C'"
    and exec: "exec_statement C ta st s = Inr (st1, out)"
  shows "\<exists>st1'. exec_statement C' (sa @ s' # zs) st' s' = Inr (st1', out) \<and> same_store st1 st1'
     \<and> (\<forall>v. out = Produced v \<longrightarrow>
          same_run (xs @ [x]) (mp(x \<mapsto> length sa)) (Suc (length sa)) (bind_value st1 x v) (bind_value st1' (length sa) v))"
proof -
  let ?p = "\<lambda>r. the (mp r)"
  let ?sa = "sa @ s' # zs"
  let ?st1' = "st1\<lparr>statement_values := statement_values st'\<rparr>"
  note s' = import_kind_rename [OF s] and ops = import_copied [OF cop s]
  have exec2: "exec_statement C' ta st s = Inr (st1, out)"
    using res_le_Inr [OF exec_statement_mono [OF C] exec] .
  have "exec_statement C' ?sa st' s' = Inr (?st1', out)"
    unfolding s'
  proof (rule exec_rename [OF _ _ _ exec2])
    show "same_store st st'" using run by (simp add: same_run_def)
    show "values_agree ?p (set (operands s)) st st'" using run ops by (auto simp: same_run_def values_agree_def)
    show "typ_at (sa @ rename_refs ?p s # zs) (?p r) = Inr t" if "r \<in> set (operands s)" "typ_at ta r = Inr t" for r t
      using that ops copied_append [OF cop, of "rename_refs ?p s # zs"] by (auto simp: copied_def)
  qed
  moreover have "same_run (xs @ [x]) (mp(x \<mapsto> length sa)) (Suc (length sa)) (bind_value st1 x v) (bind_value ?st1' (length sa) v)" for v
  proof -
    have old: "statement_values st1 = statement_values st" by (rule exec_keeps_values [OF exec])
    have lt: "?p r < length sa" if "r \<in> set xs" for r using cop that by (auto simp: copied_def)
    then have "?p r \<noteq> length sa" if "r \<in> set xs" for r using that by (metis less_irrefl)
    then show ?thesis
      using run x old unfolding same_run_def
      by (cases v) (auto simp: bind_value_def same_store_def)
  qed
  ultimately show ?thesis by (auto simp: same_store_def)
qed

lemma import_statementD:
  assumes "import_statement s t ba x mp = Inr (ba', y)" and "arena_get ba s = Inr b"
  shows "\<exists>tb k k'. arena_get ba t = Inr tb \<and> arena_get (statement_arena tb) x = Inr k
        \<and> import_kind mp k = Inr k' \<and> y = length (statement_arena b)
        \<and> ba' = ba[s := \<lparr>statement_arena = statement_arena b @ [k'], statements = statements b @ [y]\<rparr>]"
proof -
  obtain tb k k' where "arena_get ba t = Inr tb" "arena_get (statement_arena tb) x = Inr k"
      "import_kind mp k = Inr k'" "y = length (statement_arena b)"
      "ba' = ba[s := append_statement (b\<lparr>statement_arena := statement_arena b @ [k']\<rparr>) y]"
    using assms by (auto simp: import_statement_def build_def build_at_def rbind_eq_Inr arena_insert_def Let_def arena_set_Inr)
  then show ?thesis by (cases b) (auto simp: append_statement_def)
qed

lemma import_statements_Cons:
  "import_statements s t (x # xs) (ba, mp) =
     rbind (import_statement s t ba x mp) (\<lambda>(ba, y). import_statements s t xs (ba, mp(x \<mapsto> y)))"
  by (auto simp: import_statements_def rbind_assoc intro!: rbind_cong)

text \<open>The block after copies were appended to it.\<close>

definition extend_block :: "block \<Rightarrow> statement list \<Rightarrow> block" where
  "extend_block b news =
     \<lparr>statement_arena = statement_arena b @ news,
      statements = statements b @ [length (statement_arena b)..<length (statement_arena b) + length news]\<rparr>"

lemma extend_block_Nil [simp]: "extend_block b [] = b"
  by (cases b) (simp add: extend_block_def)

lemma extend_block_Cons:
  "extend_block \<lparr>statement_arena = statement_arena b @ [k], statements = statements b @ [length (statement_arena b)]\<rparr> news
     = extend_block b (k # news)"
proof -
  have "[n..<n + length (k # news)] = n # [Suc n..<Suc n + length news]" for n
    by (simp add: upt_conv_Cons del: upt_Suc)
  then show ?thesis by (simp add: extend_block_def del: upt_Suc)
qed

lemma import_shape:
  "import_statements s t xs (ba, mp) = Inr (ba', mp') \<Longrightarrow> arena_get ba s = Inr b
   \<Longrightarrow> \<exists>news. length news = length xs \<and> ba' = ba[s := extend_block b news]"
proof (induction xs arbitrary: ba mp b)
  case Nil
  then show ?case by (auto simp: import_statements_def arena_get_Inr)
next
  case (Cons x xs)
  obtain ba1 y k where step: "import_statements s t xs (ba1, mp(x \<mapsto> y)) = Inr (ba', mp')"
      "ba1 = ba[s := \<lparr>statement_arena = statement_arena b @ [k], statements = statements b @ [length (statement_arena b)]\<rparr>]"
    using Cons.prems(1) by (auto simp: import_statements_Cons rbind_eq_Inr dest!: import_statementD [OF _ Cons.prems(2)])
  have "arena_get ba1 s = Inr \<lparr>statement_arena = statement_arena b @ [k], statements = statements b @ [length (statement_arena b)]\<rparr>"
    using step(2) Cons.prems(2) by (simp add: arena_get_Inr)
  from Cons.IH [OF step(1) this] obtain news where "length news = length xs" "ba' = ba1[s := extend_block b (k # news)]"
    by (auto simp: extend_block_Cons)
  then show ?case by (intro exI [of _ "k # news"]) (simp add: step(2))
qed

lemma import_runs:
  assumes "import_statements s t todo (ba, mp) = Inr (ba', mp')" and "s \<noteq> t" and "arena_get ba s = Inr b"
    and "arena_get ba t = Inr tb" and "copied (statement_arena tb) done (statement_arena b) mp" and "distinct (done @ todo)"
    and "ba' = ba[s := extend_block b news]" and "length news = length todo"
    and "ctx_le UNIV C C'" and "same_run done mp (length (statement_arena b)) st st'"
    and "exec_statements C (statement_arena tb) todo st = Inr (st1, res)"
  shows "\<exists>st1'. exec_statements C' (statement_arena b @ news)
             [length (statement_arena b)..<length (statement_arena b) + length news] st' = Inr (st1', res) \<and> same_store st1 st1'"
  using assms(1,3-8,10,11)
proof (induction todo arbitrary: ba mp b "done" news st st')
  case (Cons x todo)
  let ?sa = "statement_arena b" and ?ta = "statement_arena tb"
  obtain ba1 k k' where step: "arena_get ?ta x = Inr k" "import_kind mp k = Inr k'"
      "import_statements s t todo (ba1, mp(x \<mapsto> length ?sa)) = Inr (ba', mp')"
      "ba1 = ba[s := \<lparr>statement_arena = ?sa @ [k'], statements = statements b @ [length ?sa]\<rparr>]"
    using Cons.prems(1-3) by (auto simp: import_statements_Cons rbind_eq_Inr dest!: import_statementD [OF _ Cons.prems(2)])
  let ?b1 = "\<lparr>statement_arena = ?sa @ [k'], statements = statements b @ [length ?sa]\<rparr>"
  have b1: "arena_get ba1 s = Inr ?b1" "arena_get ba1 t = Inr tb"
    using step(4) Cons.prems(2,3) assms(2) by (simp_all add: arena_get_Inr)
  obtain news' where news': "length news' = length todo" "ba' = ba1[s := extend_block ?b1 news']"
    using import_shape [OF step(3) b1(1)] by blast
  have "s < length ba" using Cons.prems(2) by (simp add: arena_get_Inr)
  then have "extend_block b (k' # news') = extend_block b news"
    using news'(2) Cons.prems(6) step(4) unfolding extend_block_Cons by (metis length_list_update list_update_overwrite nth_list_update_eq)
  then have news: "news = k' # news'" by (simp add: extend_block_def)
  obtain st2 out where run: "exec_statement C ?ta st k = Inr (st2, out)"
      "(case out of Finished result \<Rightarrow> Inr (st2, result) | Produced v \<Rightarrow> exec_statements C ?ta todo (bind_value st2 x v)) = Inr (st1, res)"
    using Cons.prems(9) step(1) by (auto simp: rbind_eq_Inr)
  have x: "x \<notin> set done" using Cons.prems(5) by simp
  obtain st2' where run': "exec_statement C' (?sa @ k' # news') st' k' = Inr (st2', out)" "same_store st2 st2'"
      "\<forall>v. out = Produced v \<longrightarrow> same_run (done @ [x]) (mp(x \<mapsto> length ?sa)) (Suc (length ?sa)) (bind_value st2 x v) (bind_value st2' (length ?sa) v)"
    using same_run_step [OF Cons.prems(4,8) x step(1,2) assms(9) run(1), of news'] by blast
  have get: "arena_get (?sa @ k' # news') (length ?sa) = Inr k'" by (simp add: arena_get_def)
  have ids: "[length ?sa..<length ?sa + length news] = length ?sa # [Suc (length ?sa)..<Suc (length ?sa) + length news']"
    by (simp add: news upt_conv_Cons del: upt_Suc)
  show ?case
  proof (cases out)
    case (Finished result)
    then show ?thesis using run(2) run' get by (simp add: ids) (simp add: news)
  next
    case (Produced v)
    have "\<exists>st1'. exec_statements C' (statement_arena ?b1 @ news')
        [length (statement_arena ?b1)..<length (statement_arena ?b1) + length news'] (bind_value st2' (length ?sa) v) = Inr (st1', res)
        \<and> same_store st1 st1'"
    proof (rule Cons.IH [OF step(3) b1 _ _ news'(2,1)])
      show "copied ?ta (done @ [x]) (statement_arena ?b1) (mp(x \<mapsto> length ?sa))"
        using copied_snoc [OF Cons.prems(4) step(1,2)] by simp
      show "distinct ((done @ [x]) @ todo)" using Cons.prems(5) by simp
      show "same_run (done @ [x]) (mp(x \<mapsto> length ?sa)) (length (statement_arena ?b1)) (bind_value st2 x v) (bind_value st2' (length ?sa) v)"
        using run'(3) Produced by simp
      show "exec_statements C ?ta todo (bind_value st2 x v) = Inr (st1, res)" using run(2) Produced by simp
    qed
    then show ?thesis using run'(1) get Produced by (simp add: ids del: upt_Suc) (simp add: news del: upt_Suc)
  qed
qed simp

section \<open>The pass is sound\<close>

text \<open>Every block lists each of its statements once.\<close>

definition listed_once :: "block \<Rightarrow> bool" where
  "listed_once b \<longleftrightarrow> distinct (statements b) \<and> (\<forall>r\<in>set (statements b). r < length (statement_arena b))"

definition listed_model :: "model \<Rightarrow> bool" where
  "listed_model m \<longleftrightarrow> (\<forall>name f. map_of (fns m) name = Some f \<longrightarrow> (\<forall>b\<in>set (block_arena f). listed_once b))"

lemma listed_extend: "listed_once b \<Longrightarrow> listed_once (extend_block b news)"
  by (auto simp: listed_once_def extend_block_def)

lemma kill_last:
  assumes "kill_statement b r = Inr b'" and "terminator_statement b = Some r" and "distinct (statements b)"
  shows "statements b = statements b' @ [r] \<and> statement_arena b' = statement_arena b"
proof -
  obtain xs where xs: "statements b = xs @ [r]"
    using assms(2) by (cases "statements b" rule: rev_cases) (auto simp: terminator_statement_def split: if_splits)
  then obtain i where i: "position (statements b) r = Some i" "b' = b\<lparr>statements := take i (statements b) @ drop (Suc i) (statements b)\<rparr>"
    using assms(1) by (auto simp: kill_statement_def index_of_statement_def rbind_eq_Inr unwrap_eq_Inr)
  have "i < length (statements b)" "statements b ! i = r" using position_Some [OF i(1)] by simp_all
  then have "i = length xs"
    using assms(3) xs by (auto simp: nth_append less_Suc_eq split: if_splits)
  then show ?thesis using i(2) xs by simp
qed

lemma exec_jump: "r < length sa \<Longrightarrow> sa ! r = Jump t \<Longrightarrow> exec_statements C sa [r] st = Inr (st, NextBlock t)"
  by (simp add: arena_get_def exec_statement_def)

lemma inlined_merges:
  assumes imp: "import_statements s t (statements tb) (ba, Map.empty) = Inr (ba', mp)" and st: "s \<noteq> t"
    and b: "arena_get ba s = Inr b" and tb: "arena_get ba t = Inr tb" and once: "listed_once b" "distinct (statements tb)"
    and ba': "ba' = ba[s := extend_block b news]" "length news = length (statements tb)"
    and r: "r < length (statement_arena b)" "statement_arena b ! r = Jump t"
  shows "merges (b\<lparr>statements := statements b @ [r]\<rparr>) t tb (extend_block b news)"
  unfolding merges_def
proof (intro allI impI)
  let ?sa = "statement_arena b" and ?ids = "[length (statement_arena b)..<length (statement_arena b) + length news]"
  let ?clear = "\<lambda>st. st\<lparr>statement_values := Map.empty\<rparr> :: interpreter"
  fix C st st1 res
  assume "exec_block C (b\<lparr>statements := statements b @ [r]\<rparr>) st = Inr (st1, res)"
  then consider (early) "exec_statements C ?sa (statements b) (?clear st) = Inr (st1, res)"
    | (jump) "exec_prefix C ?sa (statements b) (?clear st) = Inr st1" "res = NextBlock t"
    using exec_jump [OF r] by (auto simp: exec_block_def exec_statements_split)
  then show "exec_block C (extend_block b news) st = Inr (st1, res)
      \<or> res = NextBlock t \<and> (\<forall>C2 st2 res2. ctx_le UNIV C2 C \<longrightarrow> exec_block C2 tb st1 = Inr (st2, res2)
             \<longrightarrow> (\<exists>st2'. exec_block C (extend_block b news) st = Inr (st2', res2) \<and> same_store st2 st2'))"
  proof cases
    case early
    then have "exec_block C (extend_block b news) st = Inr (st1, res)"
      using exec_statements_append_arena [of C ?sa "statements b" _ _ news]
      by (auto simp: exec_block_def extend_block_def exec_statements_split)
    then show ?thesis by blast
  next
    case jump
    have "\<exists>st2'. exec_block C (extend_block b news) st = Inr (st2', res2) \<and> same_store st2 st2'"
      if C2: "ctx_le UNIV C2 C" and run: "exec_block C2 tb st1 = Inr (st2, res2)" for C2 st2 res2
    proof -
      have "statement_values st1 y = None" if "y \<ge> length ?sa" for y
      proof -
        have "y \<notin> set (statements b)" using once(1) that by (fastforce simp: listed_once_def)
        then show ?thesis using exec_prefix_values [OF jump(1), of y] by simp
      qed
      then have "same_run [] Map.empty (length ?sa) (?clear st1) st1" by (simp add: same_run_def same_store_def)
      moreover have "copied (statement_arena tb) [] ?sa Map.empty" by (simp add: copied_def)
      ultimately obtain st2' where "exec_statements C (?sa @ news) ?ids st1 = Inr (st2', res2)" "same_store st2 st2'"
        using import_runs [OF imp st b tb _ _ ba' C2, of "[]" "?clear st1" st1 st2 res2] run once(2) by (auto simp: exec_block_def)
      then show ?thesis
        using exec_prefix_append_arena [OF jump(1), of news]
        by (auto simp: exec_block_def extend_block_def exec_statements_split)
    qed
    with jump(2) show ?thesis by blast
  qed
qed

lemma self_jump_loops:
  assumes "r < length (statement_arena b)" "statement_arena b ! r = Jump s"
    and "\<not> (\<exists>x\<in>set (statements b). ends_block (statement_arena b ! x))"
  shows "loops_on s (b\<lparr>statements := statements b @ [r]\<rparr>)"
  using assms(3) exec_statements_ends [of _ "statement_arena b" "statements b"] exec_jump [OF assms(1,2)]
  unfolding loops_on_def by (fastforce simp: exec_block_def exec_statements_split)

lemma early_merges:
  assumes "x \<in> set (statements b)" and "ends_block (statement_arena b ! x)"
  shows "merges (b\<lparr>statements := statements b @ [r]\<rparr>) t tb (extend_block b news)"
  using prefix_never_ends [OF _ assms(1)] assms(2) exec_statements_append_arena [of _ "statement_arena b" "statements b" _ _ news]
  unfolding merges_def by (auto simp: exec_block_def extend_block_def exec_statements_split)

lemma run_inliner_cases:
  assumes run: "run_inliner_block s f = Inr (f', c)" and once: "\<forall>b\<in>set (block_arena f). listed_once b"
  shows "f' = f \<or> (\<exists>sb t tb b news. arena_get (block_arena f) s = Inr sb \<and> arena_get (block_arena f) t = Inr tb
           \<and> f' = set_block f s (extend_block b news) \<and> listed_once b
           \<and> (merges sb t tb (extend_block b news) \<or> loops_on s sb))"
proof (cases "f' = f")
  case False
  obtain sb r k where ending: "arena_get (block_arena f) s = Inr sb" "terminator_statement sb = Some r"
      "arena_get (statement_arena sb) r = Inr k"
    using run by (auto simp: run_inliner_block_def rbind_eq_Inr unwrap_eq_Inr)
  have "\<exists>t. k = Jump t"
    using run False ending by (cases k) (auto simp: run_inliner_block_def)
  then obtain t where k: "k = Jump t" by blast
  obtain tb0 b tb ba' mp where jump: "arena_get (block_arena f) t = Inr tb0"
      "kill_statement sb r = Inr b" "arena_get ((block_arena f)[s := b]) t = Inr tb"
      "import_statements s t (statements tb) ((block_arena f)[s := b], Map.empty) = Inr (ba', mp)"
      "f' = f\<lparr>block_arena := ba'\<rparr>"
    using run False ending unfolding k
    by (auto simp: run_inliner_block_def rbind_eq_Inr arena_modify_Inr arena_get_Inr split: if_splits)
  note steps = ending [unfolded k] jump
  have s: "s < length (block_arena f)" using steps(1) by (simp add: arena_get_Inr)
  have "listed_once sb" using steps(1) once by (auto simp: arena_get_Inr)
  then have dist: "distinct (statements sb)" by (simp add: listed_once_def)
  note kill = kill_last [OF steps(5,2) dist]
  have sb: "sb = b\<lparr>statements := statements b @ [r]\<rparr>" using kill by (cases sb; cases b) simp
  have b: "listed_once b" using \<open>listed_once sb\<close> kill by (simp add: listed_once_def)
  have r: "r < length (statement_arena b)" "statement_arena b ! r = Jump t"
    using steps(3) kill by (auto simp: arena_get_Inr)
  have get: "arena_get ((block_arena f)[s := b]) s = Inr b" using s by (simp add: arena_get_Inr)
  obtain news where news: "length news = length (statements tb)" "ba' = (block_arena f)[s := b, s := extend_block b news]"
    using import_shape [OF steps(7) get] by blast
  have f': "f' = set_block f s (extend_block b news)" using steps(8) news(2) by (simp add: set_block_def)
  have "merges sb t tb0 (extend_block b news) \<or> loops_on s sb"
  proof (cases "s = t")
    case True
    show ?thesis
      using early_merges [of _ b r t tb0 news] self_jump_loops [of r b s] r True unfolding sb by blast
  next
    case False
    then have tb: "tb = tb0" using steps(4,6) by (simp add: arena_get_Inr)
    have "listed_once tb" using steps(4) once unfolding tb by (auto simp: arena_get_Inr)
    then have "merges sb t tb (extend_block b news)"
      unfolding sb using inlined_merges [OF steps(7) False get steps(6) b _ news(2,1) r] by (simp add: listed_once_def)
    then show ?thesis using tb by simp
  qed
  with steps(1,4) f' b show ?thesis by blast
qed simp

lemma listed_set_block:
  assumes "listed_model m" and "map_of (fns m) name = Some f" and "listed_once blk"
  shows "listed_model (update_function m name (set_block f b blk))"
proof -
  have "listed_once x" if "x \<in> set ((block_arena f)[b := blk])" for x
    using assms that set_update_subset_insert [of "block_arena f" b blk] unfolding listed_model_def by blast
  then show ?thesis using assms(1) by (auto simp: listed_model_def set_block_def)
qed

lemma run_inliner_block_sound: "pass_sound E listed_model (run_inliner_block s)"
  unfolding pass_sound_def
proof (intro allI impI)
  fix m name f f' c
  assume ok: "listed_model m" and f: "map_of (fns m) name = Some f" and run: "run_inliner_block s f = Inr (f', c)"
  have once: "\<forall>b\<in>set (block_arena f). listed_once b" using ok f unfolding listed_model_def by blast
  from run_inliner_cases [OF run once] consider (same) "f' = f"
    | (inlined) sb t tb b news where "arena_get (block_arena f) s = Inr sb" "arena_get (block_arena f) t = Inr tb"
       "f' = set_block f s (extend_block b news)" "listed_once b"
       "merges sb t tb (extend_block b news) \<or> loops_on s sb"
    by blast
  then show "model_refines E m (update_function m name f') \<and> listed_model (update_function m name f')"
  proof cases
    case same
    then show ?thesis using ok by (simp add: update_function_same [OF f])
  next
    case inlined
    then show ?thesis
      using merged_block_refines [OF f inlined(1,2,5)] listed_set_block [OF ok f listed_extend] by simp
  qed
qed

interpretation block_inliner_pass: sound_pass E listed_model block_inliner for E :: rust_env
  using pass_soundD [OF on_every_block_sound [OF run_inliner_block_sound]]
  by unfold_locales (simp add: block_inliner_def)

text \<open>
  C5: inlining blocks does not change what a function computes.  In a model whose blocks list
  each of their statements once, after any number of runs of the pass on any function every call
  that returned before, of any function, returns the same value and leaves the same registers,
  and the blocks still list each statement once.
\<close>

theorem block_inliner_sound:
  assumes "listed_model m" and "map_of (fns m) name = Some f" and "repeat_pass n block_inliner f = Inr (f', c)"
  shows "model_refines E m (update_function m name f') \<and> listed_model (update_function m name f')"
  using pass_soundD [OF block_inliner_pass.repeat_sound assms] by simp

definition sample_inline :: rfunction where
  "sample_inline =
     \<lparr>return_type = None, parameters = [], fn_name = ''inline'', local_variables = [],
      block_arena = [\<lparr>statement_arena = [Jump 1], statements = [0]\<rparr>,
                     \<lparr>statement_arena = [Constant (UnsignedInteger 7 8), Cast TruncateK u1 0, Jump 2], statements = [0, 1, 2]\<rparr>,
                     \<lparr>statement_arena = [Return None], statements = [0]\<rparr>],
      entry_block = 0\<rparr>"

definition sample_inlined :: rfunction where
  "sample_inlined = sample_inline\<lparr>block_arena := (block_arena sample_inline)[0 :=
     \<lparr>statement_arena = [Jump 1, Constant (UnsignedInteger 7 8), Cast TruncateK u1 1, Jump 2], statements = [1, 2, 3]\<rparr>]\<rparr>"

theorem block_inliner_sound_witness:
  "repeat_pass 3 block_inliner sample_inline = Inr (sample_inlined, True)
     \<and> model_refines sample_env (model_new [(''inline'', sample_inline)] [])
          (update_function (model_new [(''inline'', sample_inline)] []) ''inline'' sample_inlined)"
proof -
  let ?m = "model_new [(''inline'', sample_inline)] []"
  have m: "map_of (fns ?m) ''inline'' = Some sample_inline" by (simp add: model_new_def)
  have ok: "listed_model ?m"
    by (auto simp: listed_model_def model_new_def sample_inline_def listed_once_def split: if_splits)
  have run: "repeat_pass 3 block_inliner sample_inline = Inr (sample_inlined, True)" by code_simp
  show ?thesis using block_inliner_sound [OF ok m run] run by simp
qed

end
