(* ===== verification/Opt_Branch.thy ===== *)
theory Opt_Branch
  imports Opt_Inline
begin

text \<open>
  Branch simplification, \<open>branch_simplification.rs\<close>, with the text of statements
  (\<open>Statement::to_string\<close> in \<open>common/src/rudder/statement.rs\<close> and the \<open>Display\<close>
  implementations it calls), which the pass compares to decide whether two blocks do the same;
  and the phi analysis, \<open>phi_analysis.rs\<close>, which only collects what it would need.  Names and
  string constants are ASCII; the decimal text of a float is a parameter, like the other
  operations on floats.
\<close>

section \<open>Text\<close>

definition digit :: "nat \<Rightarrow> char" where
  "digit n = ''0123456789abcdef'' ! n"

fun show_base :: "nat \<Rightarrow> nat \<Rightarrow> string" where
  "show_base b n = (if b < 2 then '''' else if n < b then [digit n] else show_base b (n div b) @ [digit (n mod b)])"

declare show_base.simps [simp del]

definition show_nat :: "nat \<Rightarrow> string" where
  "show_nat n = show_base 10 n"

definition show_hex :: "nat \<Rightarrow> string" where
  "show_hex n = ''0x'' @ show_base 16 n"

definition show_i64 :: "i64 \<Rightarrow> string" where
  "show_i64 v = (if sint v < 0 then ''-'' else '''') @ show_nat (nat \<bar>sint v\<bar>)"

text \<open>The \<open>Debug\<close> text of a string: quoted, with the escapes of \<open>char::escape_debug\<close>.\<close>

definition escape_char :: "char \<Rightarrow> string" where
  "escape_char c =
     (let n = of_char c :: nat in
      if n = 0 then [CHR 0x5C, CHR ''0'']
      else if n = 9 then [CHR 0x5C, CHR ''t'']
      else if n = 10 then [CHR 0x5C, CHR ''n'']
      else if n = 13 then [CHR 0x5C, CHR ''r'']
      else if n = 34 \<or> n = 92 then [CHR 0x5C, c]
      else if 32 \<le> n \<and> n < 127 then [c]
      else [CHR 0x5C] @ ''u{'' @ show_base 16 n @ ''}'')"

definition show_debug :: "string \<Rightarrow> string" where
  "show_debug s = [CHR 0x22] @ concat (map escape_char s) @ [CHR 0x22]"

fun join :: "string \<Rightarrow> string list \<Rightarrow> string" where
  "join sep [] = ''''"
| "join sep [x] = x"
| "join sep (x # y # xs) = x @ sep @ join sep (y # xs)"

fun show_type :: "rtype \<Rightarrow> string" where
  "show_type (Primitive (UnsignedIntegerT w)) = ''u'' @ show_nat w"
| "show_type (Primitive (SignedIntegerT w)) = ''i'' @ show_nat w"
| "show_type (Primitive (FloatingPointT w)) = ''f'' @ show_nat w"
| "show_type (Vector n t) = ''['' @ show_type t @ ''; '' @ show_nat n @ '']''"
| "show_type BitsT = ''bv''"
| "show_type IntT = ''int''"
| "show_type StringT = ''str''"
| "show_type (TupleT ts) = ''('' @ concat (map (\<lambda>t. show_type t @ '', '') ts) @ '')''"
| "show_type RealT = ''real''"

definition maybe_type_to_string :: "rtype option \<Rightarrow> string" where
  "maybe_type_to_string t = (case t of Some t \<Rightarrow> show_type t | None \<Rightarrow> ''void'')"

fun show_constant :: "(f64 \<Rightarrow> string) \<Rightarrow> rconst \<Rightarrow> string res"
  and show_constants :: "(f64 \<Rightarrow> string) \<Rightarrow> rconst list \<Rightarrow> string res" where
  "show_constant sf (UnsignedInteger value w) = Inr (show_hex (unat value) @ show_type (Primitive (UnsignedIntegerT w)))"
| "show_constant sf (SignedInteger value w) = Inr (show_i64 value @ show_type (Primitive (SignedIntegerT w)))"
| "show_constant sf (FloatingPoint value w) = Inr (sf value @ show_type (Primitive (FloatingPointT w)))"
| "show_constant sf (StringC s) = Inr (show_debug s)"
| "show_constant sf (TupleC vs) =
     rbind (const_typ (TupleC vs)) (\<lambda>_. rbind (show_constants sf vs) (\<lambda>s. Inr (''('' @ s @ '')'')))"
| "show_constant sf (VectorC vs) =
     rbind (const_typ (VectorC vs)) (\<lambda>_. rbind (show_constants sf vs) (\<lambda>s. Inr (''['' @ s @ '']'')))"
| "show_constants sf [] = Inr ''''"
| "show_constants sf (v # vs) =
     rbind (show_constant sf v) (\<lambda>s. rbind (show_constants sf vs) (\<lambda>ss. Inr (s @ '',  '' @ ss)))"

text \<open>\<open>impl Display for Ref<Statement>\<close>\<close>

definition show_ref :: "stmt_id \<Rightarrow> string" where
  "show_ref r = ''s'' @ show_nat r"

fun show_binary :: "binary_operation_kind \<Rightarrow> string" where
  "show_binary AddK = ''add''"
| "show_binary SubK = ''sub''"
| "show_binary MultiplyK = ''mul''"
| "show_binary DivideK = ''div''"
| "show_binary ModuloK = ''mod''"
| "show_binary CompareEqualK = ''cmp-eq''"
| "show_binary CompareNotEqualK = ''cmp-ne''"
| "show_binary CompareLessThanK = ''cmp-lt''"
| "show_binary CompareLessThanOrEqualK = ''cmp-le''"
| "show_binary CompareGreaterThanK = ''cmp-gt''"
| "show_binary CompareGreaterThanOrEqualK = ''cmp-ge''"
| "show_binary AndK = ''and''"
| "show_binary OrK = ''or''"
| "show_binary XorK = ''xor''"
| "show_binary PowIK = ''powi''"

fun show_unary :: "unary_operation_kind \<Rightarrow> string" where
  "show_unary ComplementK = ''cmpl''"
| "show_unary NotK = ''not''"
| "show_unary NegateK = ''neg''"
| "show_unary Power2K = ''pow2''"
| "show_unary AbsoluteK = ''abs''"
| "show_unary CeilK = ''ceil''"
| "show_unary FloorK = ''floor''"
| "show_unary SquareRootK = ''sqrt''"

fun show_shift :: "shift_operation_kind \<Rightarrow> string" where
  "show_shift LogicalShiftLeftK = ''lsl''"
| "show_shift LogicalShiftRightK = ''lsr''"
| "show_shift ArithmeticShiftRightK = ''asr''"
| "show_shift RotateRightK = ''ror''"
| "show_shift RotateLeftK = ''rol''"

fun show_cast :: "cast_operation_kind \<Rightarrow> string" where
  "show_cast ZeroExtendK = ''zx''"
| "show_cast SignExtendK = ''sx''"
| "show_cast TruncateK = ''trunc''"
| "show_cast ReinterpretK = ''reint''"
| "show_cast ConvertK = ''cvt''"
| "show_cast BroadcastK = ''bcast''"

text \<open>A keyword and operands, separated by spaces.\<close>

definition show_words :: "string \<Rightarrow> stmt_id list \<Rightarrow> string" where
  "show_words op rs = join '' '' (op # map show_ref rs)"

definition show_operation :: "(f64 \<Rightarrow> string) \<Rightarrow> statement arena \<Rightarrow> statement \<Rightarrow> string res" where
  "show_operation sf sa s =
     (case s of
        Constant c \<Rightarrow> rbind (show_constant sf c) (\<lambda>c. Inr (''const #'' @ c))
      | ReadVariable sy \<Rightarrow> Inr (''read-var '' @ sym_name sy @ '':'' @ show_type (sym_typ sy))
      | WriteVariable sy v \<Rightarrow>
          rbind (typ_at sa v) (\<lambda>t.
          Inr (''write-var '' @ sym_name sy @ '':'' @ show_type (sym_typ sy) @ '' <= '' @ show_ref v @ '':'' @ maybe_type_to_string t))
      | ReadRegister t offset \<Rightarrow> Inr (''read-reg '' @ show_ref offset @ '':'' @ show_type t)
      | WriteRegister offset v \<Rightarrow> Inr (''write-reg '' @ show_ref offset @ '' <= '' @ show_ref v)
      | ReadMemory address n \<Rightarrow> Inr (''read-mem '' @ show_ref address @ '':'' @ show_ref n)
      | AtomicOperation address compare_operand operand operation_kind \<Rightarrow>
          Inr (''cmp-exchg ('' @ show_ref operation_kind @ '') '' @ show_ref address @ '' '' @ show_ref compare_operand @ '' '' @ show_ref operand)
      | WriteMemory address v \<Rightarrow> Inr (''write-mem '' @ show_ref address @ '' <= '' @ show_ref v)
      | BinaryOperation k l r \<Rightarrow> Inr (show_words (show_binary k) [l, r])
      | TernaryOperation AddWithCarryK a b c \<Rightarrow> Inr (show_words ''add-with-carry'' [a, b, c])
      | UnaryOperation k v \<Rightarrow> Inr (show_words (show_unary k) [v])
      | ShiftOperation k v n \<Rightarrow> Inr (show_words (show_shift k) [v, n])
      | Call target args _ \<Rightarrow> Inr (''call '' @ target @ ''('' @ join '', '' (map show_ref args) @ '')'')
      | Cast k t v \<Rightarrow> Inr (''cast '' @ show_cast k @ '' '' @ show_ref v @ '' -> '' @ show_type t)
      | BitsCast k t v len \<Rightarrow>
          Inr (''bits-cast '' @ show_cast k @ '' '' @ show_ref v @ '' -> '' @ show_type t @ '' length '' @ show_ref len)
      | Jump target \<Rightarrow> Inr (''jump block '' @ show_hex target)
      | Branch c t e \<Rightarrow> Inr (''branch '' @ show_ref c @ '' ? block '' @ show_hex t @ '' : block '' @ show_hex e)
      | PhiNode _ \<Rightarrow> Inl Todo
      | Return v \<Rightarrow> Inr (''return '' @ (case v of Some v \<Rightarrow> show_ref v | None \<Rightarrow> ''''))
      | Select c t e \<Rightarrow> Inr (show_words ''select'' [c, t, e])
      | Panic v \<Rightarrow> Inr (show_words ''panic'' [v])
      | ReadPc \<Rightarrow> Inr ''read-pc''
      | WritePc v \<Rightarrow> Inr (show_words ''write-pc'' [v])
      | BitExtract v i len \<Rightarrow> Inr (show_words ''bit-extract'' [v, i, len])
      | BitInsert t v i len \<Rightarrow> Inr (show_words ''bit-insert'' [t, v, i, len])
      | BitReplicate p n \<Rightarrow> Inr (show_words ''bit-replicate'' [p, n])
      | ReadElement v i \<Rightarrow> Inr (''read-element '' @ show_ref v @ ''['' @ show_ref i @ '']'')
      | AssignElement v x i \<Rightarrow> Inr (''mutate-element '' @ show_ref v @ ''['' @ show_ref i @ ''] <= '' @ show_ref x)
      | SizeOf v \<Rightarrow> Inr (show_words ''size-of'' [v])
      | Assert c \<Rightarrow> Inr (show_words ''assert'' [c])
      | CreateBits v len \<Rightarrow> Inr (show_words ''create-bits'' [v, len])
      | CreateReal n d \<Rightarrow> Inr (''create-real '' @ show_ref n @ '' / '' @ show_ref d)
      | MatchesUnion v variant \<Rightarrow> Inr (''matches-union '' @ show_ref v @ '' '' @ variant)
      | UnwrapUnion v variant \<Rightarrow> Inr (''unwrap-union '' @ show_ref v @ '' '' @ variant)
      | TupleAccess i v \<Rightarrow> Inr (''tuple-access '' @ show_ref v @ ''.'' @ show_nat i)
      | GetFlags v \<Rightarrow> Inr (show_words ''get-flags'' [v])
      | CreateTuple vs \<Rightarrow> Inr (''create-tuple ['' @ join '', '' (map show_nat vs) @ '']''))"

definition statement_to_string :: "(f64 \<Rightarrow> string) \<Rightarrow> statement arena \<Rightarrow> statement \<Rightarrow> string res" where
  "statement_to_string sf sa s =
     rbind (show_operation sf sa s) (\<lambda>operation. rbind (statement_typ sa s) (\<lambda>t.
     Inr (case t of Some t \<Rightarrow> '':'' @ show_type t @ '' = '' @ operation | None \<Rightarrow> '' = '' @ operation)))"

section \<open>The pass\<close>

text \<open>\<open>zip_eq\<close> panics when one list ends before the other; \<open>any\<close> stops at the first difference.\<close>

fun equivalent_statements ::
    "(f64 \<Rightarrow> string) \<Rightarrow> statement arena \<Rightarrow> stmt_id list \<Rightarrow> statement arena \<Rightarrow> stmt_id list \<Rightarrow> bool res" where
  "equivalent_statements sf sa [] sb [] = Inr True"
| "equivalent_statements sf sa (x # xs) sb (y # ys) =
     rbind (arena_get sa x) (\<lambda>s. rbind (arena_get sb y) (\<lambda>s'.
     rbind (statement_to_string sf sa s) (\<lambda>text. rbind (statement_to_string sf sb s') (\<lambda>text'.
     if text \<noteq> text' then Inr False else equivalent_statements sf sa xs sb ys))))"
| "equivalent_statements sf sa _ sb _ = Inl ExplicitPanic"

definition equivalent_blocks :: "(f64 \<Rightarrow> string) \<Rightarrow> block arena \<Rightarrow> block_id \<Rightarrow> block_id \<Rightarrow> bool res" where
  "equivalent_blocks sf arena a b =
     rbind (arena_get arena a) (\<lambda>block_a. rbind (arena_get arena b) (\<lambda>block_b.
     equivalent_statements sf (statement_arena block_a) (statements block_a) (statement_arena block_b) (statements block_b)))"

definition simplify_branch :: "rust_env \<Rightarrow> (f64 \<Rightarrow> string) \<Rightarrow> block_id \<Rightarrow> function_pass" where
  "simplify_branch E sf b f =
     rbind (arena_get (block_arena f) b) (\<lambda>blk.
     case terminator_statement blk of
       None \<Rightarrow> Inr (f, False)
     | Some r \<Rightarrow>
         rbind (arena_get (statement_arena blk) r) (\<lambda>s.
         let become = (\<lambda>s. rbind (replace_statement f b r s) (\<lambda>f. Inr (f, True))) in
         case s of
           Branch condition true_target false_target \<Rightarrow>
             rbind (arena_get (statement_arena blk) condition) (\<lambda>cond.
             case cond of
               Constant value \<Rightarrow> become (Jump (if is_zero E value = Some True then false_target else true_target))
             | UnaryOperation kind value \<Rightarrow>
                 if kind = NotK then become (Branch value false_target true_target) else Inr (f, False)
             | _ \<Rightarrow>
                 rbind (if true_target = false_target then Inr True
                        else equivalent_blocks sf (block_arena f) true_target false_target) (\<lambda>same.
                 if same then become (Jump true_target) else Inr (f, False)))
         | _ \<Rightarrow> Inr (f, False)))"

definition branch_simplification :: "rust_env \<Rightarrow> (f64 \<Rightarrow> string) \<Rightarrow> function_pass" where
  "branch_simplification E sf = on_every_block (simplify_branch E sf)"

section \<open>Phi analysis\<close>

text \<open>
  The last write of every variable in each block is collected and logged, in functions without
  loops; nothing is changed yet.
\<close>

definition block_live_outs :: "block \<Rightarrow> (string \<rightharpoonup> stmt_id) res" where
  "block_live_outs blk =
     foldR (\<lambda>stmt writes. rbind (arena_get (statement_arena blk) stmt) (\<lambda>s.
       Inr (case s of WriteVariable symbol _ \<Rightarrow> writes(sym_name symbol \<mapsto> stmt) | _ \<Rightarrow> writes)))
       (statements blk) Map.empty"

definition phi_analysis :: function_pass where
  "phi_analysis f =
     rbind (contains_loop f) (\<lambda>loop.
     if loop then Inr (f, False)
     else
       rbind (function_blocks f) (\<lambda>bs.
       rbind (mapR (\<lambda>b. rbind (arena_get (block_arena f) b) block_live_outs) bs) (\<lambda>_. Inr (f, False))))"

interpretation phi_analysis_pass: sound_pass E okay phi_analysis for E :: rust_env and okay
  by unfold_locales (auto simp: phi_analysis_def rbind_eq_Inr update_function_same split: if_splits)

section \<open>Simplifying a branch keeps its destination\<close>

lemma prefix_value:
  assumes "exec_prefix C sa xs st0 = Inr st" and "x \<in> set xs" and "distinct xs"
  obtains pre post st1 st2 v where "xs = pre @ x # post" "exec_prefix C sa pre st0 = Inr st1" "x < length sa"
    "exec_statement C sa st1 (sa ! x) = Inr (st2, Produced v)" "statement_values st x = statement_values (bind_value st2 x v) x"
    "exec_prefix C sa post (bind_value st2 x v) = Inr st"
proof -
  obtain pre post where xs: "xs = pre @ x # post" using assms(2) by (meson split_list)
  obtain st1 where st1: "exec_prefix C sa pre st0 = Inr st1" "exec_prefix C sa (x # post) st1 = Inr st"
    using assms(1) unfolding xs exec_prefix_append by (auto simp: rbind_eq_Inr)
  then obtain s st2 v where run: "arena_get sa x = Inr s" "exec_statement C sa st1 s = Inr (st2, Produced v)"
      "exec_prefix C sa post (bind_value st2 x v) = Inr st"
    unfolding exec_prefix_Cons by blast
  have "x \<notin> set post" using assms(3) xs by simp
  then have "statement_values st x = statement_values (bind_value st2 x v) x" by (rule exec_prefix_values [OF run(3)])
  with that [OF xs st1(1)] run show thesis by (auto simp: arena_get_Inr)
qed

text \<open>The value of a constant, and of the negation of a statement, at the end of a block.\<close>

lemma constant_value:
  assumes "exec_prefix C sa xs st0 = Inr st" and "distinct xs" and "x \<in> set xs" and "sa ! x = Constant c"
  shows "statement_values st x = Some (from_constant c)"
proof -
  obtain st1 st2 v where run: "exec_statement C sa st1 (Constant c) = Inr (st2, Produced v)"
      "statement_values st x = statement_values (bind_value st2 x v) x"
    using prefix_value [OF assms(1,3,2)] assms(4) by metis
  then show ?thesis
    by (auto simp: exec_statement_def eval_value_def is_read_statement_def eval_read_def bind_value_def)
qed

lemma negation_value:
  assumes run: "exec_prefix C sa xs st0 = Inr st" and ssa: "ssa sa xs" and x: "x \<in> set xs" "sa ! x = UnaryOperation NotK y"
  shows "\<exists>n w. statement_values st y = Some (UnsignedIntegerV n w) \<and> statement_values st x = Some (UnsignedIntegerV (of_bool (n = 0)) 1)"
proof -
  have dist: "distinct xs" using ssa by (simp add: ssa_def)
  obtain pre post st1 st2 v where p: "xs = pre @ x # post" "exec_prefix C sa pre st0 = Inr st1" "x < length sa"
      "exec_statement C sa st1 (sa ! x) = Inr (st2, Produced v)" "statement_values st x = statement_values (bind_value st2 x v) x"
      "exec_prefix C sa post (bind_value st2 x v) = Inr st"
    using prefix_value [OF run x(1) dist] by blast
  obtain u where u: "statement_values st1 y = Some u" "eval_unary (ctx_env C) NotK u = Inr (the v)" "v \<noteq> None" "st2 = st1"
    using p(4) unfolding x(2)
    by (auto simp: exec_statement_def eval_value_def is_read_statement_def is_bits_statement_def eval_arith_def rbind_eq_Inr
        resolve_def split: option.splits)
  obtain n w where n: "u = UnsignedIntegerV n w" "the v = UnsignedIntegerV (of_bool (n = 0)) 1"
    using u(2) by (cases u) auto
  have "y \<in> set pre" using ssa_operands(1) [OF ssa [unfolded p(1)]] x(2) by auto
  then have "y \<noteq> x" "y \<notin> set post" using dist p(1) by auto
  then have "statement_values st y = statement_values st1 y"
    using exec_prefix_values [OF p(6), of y] u(4) by (simp add: bind_value_other)
  with n u p(5) show ?thesis by (auto simp: bind_value_def)
qed

text \<open>
  The last statement of a block replaced by one that ends the block as it did, whatever was
  executed before.
\<close>

definition same_ending :: "statement arena \<Rightarrow> stmt_id list \<Rightarrow> statement \<Rightarrow> statement \<Rightarrow> bool" where
  "same_ending sa xs s s' \<longleftrightarrow>
     (\<forall>C st0 st r. statement_values st0 = Map.empty \<longrightarrow> exec_prefix C sa xs st0 = Inr st
        \<longrightarrow> exec_statement C sa st s = Inr r \<longrightarrow> exec_statement C sa st s' = Inr r)"

lemma replace_ending:
  assumes rs: "statements blk = xs @ [r]" and dist: "distinct (statements blk)" and r: "r < length (statement_arena blk)"
    and void: "is_void (statement_arena blk ! r)" "is_void s'" and same: "same_ending (statement_arena blk) xs (statement_arena blk ! r) s'"
  shows "block_refines blk (blk\<lparr>statement_arena := (statement_arena blk)[r := s']\<rparr>)"
  unfolding block_refines_def
proof (intro allI impI)
  fix C res and st :: interpreter
  let ?sa = "statement_arena blk" and ?st0 = "st\<lparr>statement_values := Map.empty\<rparr>"
  let ?sa' = "?sa[r := s']"
  have change: "void_change ?sa ?sa'" using void r by (auto simp: void_change_def nth_list_update)
  have exec: "exec_statement C ?sa' st s = Inr o1" if "exec_statement C ?sa st s = Inr o1" for st s o1
    using exec_statement_arena [OF typ_at_void_change [OF change]] that by (cases o1) blast
  have xs: "r \<notin> set xs" using dist rs by simp
  have pre: "exec_prefix C ?sa' ys st = Inr st1" if "exec_prefix C ?sa ys st = Inr st1" "r \<notin> set ys" for ys st st1
    using that
  proof (induction ys arbitrary: st)
    case (Cons y ys)
    then obtain s st2 v where y: "arena_get ?sa y = Inr s" "exec_statement C ?sa st s = Inr (st2, Produced v)"
        "exec_prefix C ?sa ys (bind_value st2 y v) = Inr st1"
      unfolding exec_prefix_Cons by blast
    moreover have "arena_get ?sa' y = Inr s" using y(1) Cons.prems(2) by (auto simp: arena_get_def split: if_splits)
    ultimately show ?case using exec [OF y(2)] Cons by simp
  qed simp
  have early: "exec_statements C ?sa' ys st = Inr o1" if "exec_statements C ?sa ys st = Inr o1" "r \<notin> set ys" for ys st o1
    using that
  proof (induction ys arbitrary: st)
    case (Cons y ys)
    then obtain s st2 out where y: "arena_get ?sa y = Inr s" "exec_statement C ?sa st s = Inr (st2, out)"
        "(case out of Finished result \<Rightarrow> Inr (st2, result) | Produced v \<Rightarrow> exec_statements C ?sa ys (bind_value st2 y v)) = Inr o1"
      by (auto simp: rbind_eq_Inr)
    moreover have "arena_get ?sa' y = Inr s" using y(1) Cons.prems(2) by (auto simp: arena_get_def split: if_splits)
    ultimately show ?case using exec [OF y(2)] Cons by (cases out) auto
  qed simp
  assume "exec_block C blk st = Inr res"
  then consider "exec_statements C ?sa xs ?st0 = Inr res"
    | st1 where "exec_prefix C ?sa xs ?st0 = Inr st1" "exec_statements C ?sa [r] st1 = Inr res"
    by (auto simp: exec_block_def rs exec_statements_split)
  then have "exec_statements C ?sa' (xs @ [r]) ?st0 = Inr res"
  proof cases
    case 1
    show ?thesis unfolding exec_statements_split using early [OF 1 xs] by blast
  next
    case 2
    obtain st2 out where step: "exec_statement C ?sa st1 (?sa ! r) = Inr (st2, out)"
        "(case out of Finished result \<Rightarrow> Inr (st2, result) | Produced v \<Rightarrow> Inl Unreachable) = Inr res"
      using 2(2) r by (auto simp: arena_get_def rbind_eq_Inr)
    have "exec_statement C ?sa st1 s' = Inr (st2, out)"
      using same 2(1) step(1) unfolding same_ending_def by (metis interpreter.select_convs(2) interpreter.surjective interpreter.update_convs(2))
    then have "exec_statements C ?sa' [r] st1 = Inr res"
      using exec step(2) r by (cases out) (auto simp: arena_get_def)
    with pre [OF 2(1) xs] show ?thesis unfolding exec_statements_split by blast
  qed
  then show "exec_block C (blk\<lparr>statement_arena := ?sa'\<rparr>) st = Inr res" by (simp add: exec_block_def rs)
qed

lemma terminator_split: "terminator_statement blk = Some r \<Longrightarrow> \<exists>xs. statements blk = xs @ [r]"
  by (cases "statements blk" rule: rev_cases) (auto simp: terminator_statement_def split: if_splits)

lemma constant_ending:
  assumes "distinct xs" and "c \<in> set xs" and "sa ! c = Constant v"
  shows "same_ending sa xs (Branch c t e) (Jump (if is_zero E v = Some True then e else t))"
proof -
  have "as_u64 (from_constant v) = Inr x \<Longrightarrow> is_zero E v = Some True \<longleftrightarrow> x = 0" for x
    by (cases v) (auto split: if_splits)
  then show ?thesis
    unfolding same_ending_def using constant_value [OF _ assms]
    by (auto simp: exec_statement_def resolve_u64_def resolve_def rbind_eq_Inr)
qed

lemma negated_ending:
  assumes "ssa sa xs" and "c \<in> set xs" and "sa ! c = UnaryOperation NotK y"
  shows "same_ending sa xs (Branch c t e) (Branch y e t)"
  unfolding same_ending_def
proof (intro allI impI)
  fix C r and st0 st :: interpreter
  assume pre: "exec_prefix C sa xs st0 = Inr st" and run: "exec_statement C sa st (Branch c t e) = Inr r"
  obtain n w where "statement_values st y = Some (UnsignedIntegerV n w)"
      "statement_values st c = Some (UnsignedIntegerV (of_bool (n = 0)) 1)"
    using negation_value [OF pre assms] by blast
  then show "exec_statement C sa st (Branch y e t) = Inr r"
    using run by (auto simp: exec_statement_def resolve_u64_def resolve_def split: if_splits)
qed

lemma equal_ending: "same_ending sa xs (Branch c t t) (Jump t)"
  by (auto simp: same_ending_def exec_statement_def rbind_eq_Inr)

text \<open>The branch at the end of a block has one target, or two that do not print alike.\<close>

definition targets_differ :: "(f64 \<Rightarrow> string) \<Rightarrow> rfunction \<Rightarrow> block_id \<Rightarrow> bool" where
  "targets_differ sf f b \<longleftrightarrow>
     (case arena_get (block_arena f) b of
        Inl _ \<Rightarrow> True
      | Inr blk \<Rightarrow>
          (case last (map ((!) (statement_arena blk)) (statements blk)) of
             Branch _ t e \<Rightarrow> t = e \<or> equivalent_blocks sf (block_arena f) t e \<noteq> Inr True
           | _ \<Rightarrow> True))"

lemma simplify_branch_ending:
  assumes run: "simplify_branch E sf b f = Inr (f', c)" and blk: "arena_get (block_arena f) b = Inr blk"
    and ssa: "ssa (statement_arena blk) (statements blk)" and differ: "targets_differ sf f b"
  shows "f' = f \<or> (\<exists>xs r s'. statements blk = xs @ [r] \<and> replace_statement f b r s' = Inr f' \<and> is_void s'
           \<and> is_void (statement_arena blk ! r) \<and> same_ending (statement_arena blk) xs (statement_arena blk ! r) s')"
proof (cases "f' = f")
  case False
  let ?sa = "statement_arena blk"
  obtain r s where r: "terminator_statement blk = Some r" "arena_get ?sa r = Inr s"
    using run blk False by (auto simp: simplify_branch_def rbind_eq_Inr split: option.splits)
  obtain xs where xs: "statements blk = xs @ [r]" using terminator_split [OF r(1)] by blast
  have "\<exists>cn t e. s = Branch cn t e"
    using run blk r False by (cases s) (auto simp: simplify_branch_def)
  then obtain cn t e where s: "s = Branch cn t e" by blast
  have sr: "?sa ! r = Branch cn t e" "r < length ?sa" using r(2) s by (auto simp: arena_get_Inr)
  obtain cond where cond: "arena_get ?sa cn = Inr cond"
    using run blk r s by (auto simp: simplify_branch_def rbind_eq_Inr)
  have cn: "cn \<in> set xs" "?sa ! cn = cond"
    using ssa_operands(1) [of ?sa xs r "[]"] ssa xs sr(1) cond by (auto simp: arena_get_Inr)
  have pre: "ssa ?sa xs" "distinct xs" using ssa xs ssa_prefix [of ?sa xs "[r]"] by (auto simp: ssa_def)
  have eq: "t = e \<or> equivalent_blocks sf (block_arena f) t e \<noteq> Inr True"
    using differ blk xs sr(1) by (simp add: targets_differ_def)
  have "\<exists>s'. replace_statement f b r s' = Inr f' \<and> is_void s' \<and> same_ending ?sa xs (Branch cn t e) s'"
  proof (cases "\<exists>v. cond = Constant v")
    case True
    then obtain v where v: "cond = Constant v" by blast
    then have "replace_statement f b r (Jump (if is_zero E v = Some True then e else t)) = Inr f'"
      using run blk r s cond by (auto simp: simplify_branch_def rbind_eq_Inr)
    then show ?thesis using constant_ending [OF pre(2) cn(1), where v = v and t = t and e = e and E = E] cn(2) v by auto
  next
    case no_const: False
    show ?thesis
    proof (cases "\<exists>k y. cond = UnaryOperation k y")
      case True
      then obtain k y where y: "cond = UnaryOperation k y" by blast
      then have "k = NotK" "replace_statement f b r (Branch y e t) = Inr f'"
        using run blk r s cond False by (auto simp: simplify_branch_def rbind_eq_Inr split: if_splits)
      then show ?thesis using negated_ending [OF pre(1) cn(1)] cn(2) y by auto
    next
      case False
      then have "t = e \<and> replace_statement f b r (Jump t) = Inr f'"
        using run blk r s cond no_const eq \<open>f' \<noteq> f\<close>
        by (cases cond) (auto simp: simplify_branch_def rbind_eq_Inr split: if_splits)
      then show ?thesis using equal_ending by auto
    qed
  qed
  then show ?thesis using xs sr(1) by auto
qed simp

text \<open>
  C6: simplifying the branch at the end of a block does not change what the function computes:
  a branch on a constant becomes a jump to the target it takes, a branch on a negation swaps its
  targets, a branch with one target becomes a jump.  The block lists each statement once, after
  its operands, and its two targets do not print alike.
\<close>

theorem branch_simplification_sound:
  assumes "map_of (fns m) name = Some f" and "simplify_branch E sf b f = Inr (f', c)"
    and "arena_get (block_arena f) b = Inr blk" and "ssa (statement_arena blk) (statements blk)" and "targets_differ sf f b"
  shows "model_refines E m (update_function m name f')"
proof -
  consider "f' = f" | xs r s' where "statements blk = xs @ [r]" "replace_statement f b r s' = Inr f'" "is_void s'"
      "is_void (statement_arena blk ! r)" "same_ending (statement_arena blk) xs (statement_arena blk ! r) s'"
    using simplify_branch_ending [OF assms(2-5)] by blast
  then show ?thesis
  proof cases
    case 1
    then show ?thesis by (simp add: update_function_same [OF assms(1)])
  next
    case 2
    have b: "b < length (block_arena f)" "blk = block_arena f ! b" using assms(3) by (simp_all add: arena_get_Inr)
    have r: "r < length (statement_arena blk)" and
        f': "f' = set_block f b (blk\<lparr>statement_arena := (statement_arena blk)[r := s']\<rparr>)"
      using 2(2) b by (auto simp: replace_statement_Inr set_block_def)
    have "distinct (statements blk)" using assms(4) by (simp add: ssa_def)
    from set_block_refines [OF assms(1,3) replace_ending [OF 2(1) this r 2(4,3,5)]] show ?thesis unfolding f' .
  qed
qed

definition sample_flag :: symbol where
  "sample_flag = \<lparr>sym_name = ''flag'', sym_typ = u1\<rparr>"

definition sample_branch :: "statement arena \<Rightarrow> stmt_id list \<Rightarrow> rfunction" where
  "sample_branch sa rs =
     \<lparr>return_type = Some sample_u8, parameters = [sample_flag], fn_name = ''branch'', local_variables = [],
      block_arena = [\<lparr>statement_arena = sa, statements = rs\<rparr>,
                     \<lparr>statement_arena = [Constant (UnsignedInteger 1 8), Constant (UnsignedInteger 2 8), Return (Some 0)], statements = [0, 1, 2]\<rparr>,
                     \<lparr>statement_arena = [Constant (UnsignedInteger 2 8), Constant (UnsignedInteger 1 8), Return (Some 0)], statements = [1, 0, 2]\<rparr>,
                     \<lparr>statement_arena = [Return None], statements = [0]\<rparr>],
      entry_block = 0\<rparr>"

definition sample_negated :: rfunction where
  "sample_negated = sample_branch [ReadVariable sample_flag, UnaryOperation NotK 0, Branch 1 1 3] [0, 1, 2]"

definition sample_swapped :: rfunction where
  "sample_swapped = sample_branch [ReadVariable sample_flag, UnaryOperation NotK 0, Branch 0 3 1] [0, 1, 2]"

theorem branch_simplification_sound_witness:
  "simplify_branch sample_env (\<lambda>_. []) 0 sample_negated = Inr (sample_swapped, True)
   \<and> model_refines sample_env (model_new [(''branch'', sample_negated)] [])
        (update_function (model_new [(''branch'', sample_negated)] []) ''branch'' sample_swapped)"
proof -
  let ?sf = "\<lambda>_. [] :: string"
  let ?blk = "\<lparr>statement_arena = [ReadVariable sample_flag, UnaryOperation NotK 0, Branch 1 1 3], statements = [0, 1, 2]\<rparr>"
  have run: "simplify_branch sample_env ?sf 0 sample_negated = Inr (sample_swapped, True)" by code_simp
  have m: "map_of (fns (model_new [(''branch'', sample_negated)] [])) ''branch'' = Some sample_negated"
    by (simp add: model_new_def)
  have blk: "arena_get (block_arena sample_negated) 0 = Inr ?blk"
    by (simp add: sample_negated_def sample_branch_def arena_get_def)
  have "ssa (statement_arena ?blk) (statements ?blk)" by (simp add: ssa_def all_less_Suc numeral_3_eq_3)
  moreover have "equivalent_blocks ?sf (block_arena sample_negated) 1 3 = Inr False" by code_simp
  then have "targets_differ ?sf sample_negated 0" by (simp add: targets_differ_def blk)
  ultimately show ?thesis using branch_simplification_sound [OF m run blk] run by blast
qed

section \<open>Equal text is not equal behaviour\<close>

definition sample_alike :: rfunction where
  "sample_alike = sample_branch [ReadVariable sample_flag, Branch 0 1 2] [0, 1]"

definition sample_merged :: rfunction where
  "sample_merged = sample_branch [ReadVariable sample_flag, Jump 1] [0, 1]"

text \<open>
  Two blocks that print alike may differ, because the text of a statement does not contain
  its own reference, only those of its operands.  A branch to two blocks that list a 1 and a 2 in
  the same order, but under exchanged references, and return the statement with reference 0
  becomes a jump to the first: the function returned 2 on a clear flag and returns 1 after it.
\<close>

theorem equal_text_unsound:
  "branch_simplification sample_env (\<lambda>_. []) sample_alike = Inr (sample_merged, True)
   \<and> interpret_fn 3 sample_env (model_new [(''branch'', sample_alike)] []) ''branch'' [UnsignedIntegerV 0 1] rf
       = Inr (Some (UnsignedIntegerV 2 8), rf)
   \<and> interpret_fn 3 sample_env (model_new [(''branch'', sample_merged)] []) ''branch'' [UnsignedIntegerV 0 1] rf
       = Inr (Some (UnsignedIntegerV 1 8), rf)"
proof (intro conjI)
  show "branch_simplification sample_env (\<lambda>_. []) sample_alike = Inr (sample_merged, True)" by code_simp
qed (simp_all add: numeral_3_eq_3 interpret_fn_Suc run_blocks_Suc step_block_def model_new_def sample_alike_def sample_merged_def
    sample_branch_def sample_flag_def exec_block_def interpreter_new_def bind_arguments_def arena_get_def exec_statement_def
    resolve_def resolve_u64_def bind_value_def eval_value_def is_read_statement_def eval_read_def)

end
