(* ===== verification/X86_Node.thy ===== *)
theory X86_Node
  imports Rudder_Statement Bits
begin

text \<open>
  The nodes the translator builds for the values of a guest instruction
  (\<open>brig/dbt/src/emitter.rs\<close>, the end of \<open>brig/dbt/src/x86/emitter/mod.rs\<close>), the host operands
  they can stand for (\<open>x86/encoder\<close>), and what a node denotes: \<open>den\<close> is the reference the
  emitter's simplifications are measured against.  The operation kinds of the emitter have the
  same names as those of the representation, so the kinds of the theory on statements are used
  with the operands as separate arguments.
\<close>

unbundle bit_operations_syntax

section \<open>Host operands\<close>

datatype width = W8 | W16 | W32 | W64 | W128

datatype width_error = ZeroWidth | OversizeWidth nat

definition from_uncanonicalized :: "nat \<Rightarrow> width_error + width" where
  "from_uncanonicalized bits =
     (if 1 \<le> bits \<and> bits \<le> 8 then Inr W8
      else if 9 \<le> bits \<and> bits \<le> 16 then Inr W16
      else if 17 \<le> bits \<and> bits \<le> 32 then Inr W32
      else if 33 \<le> bits \<and> bits \<le> 64 then Inr W64
      else if 65 \<le> bits \<and> bits \<le> 128 then Inr W128
      else if bits = 0 then Inl ZeroWidth
      else Inr W128)"

fun as_u16 :: "width \<Rightarrow> nat" where
  "as_u16 W8 = 8"
| "as_u16 W16 = 16"
| "as_u16 W32 = 32"
| "as_u16 W64 = 64"
| "as_u16 W128 = 128"

definition canonical_width :: "nat \<Rightarrow> width res" where
  "canonical_width bits = (case from_uncanonicalized bits of Inl _ \<Rightarrow> Inl UnwrapFailed | Inr w \<Rightarrow> Inr w)"

datatype segment_register = FS | GS

datatype physical_register =
    RAX | RCX | RDX | RBX | RSI | RDI | RSP | RBP | R8 | R9 | R10 | R11 | R12 | R13 | R14 | R15
  | XMM0 | XMM1 | XMM2 | XMM3 | XMM4 | XMM5 | XMM6 | XMM7

definition all_registers :: "physical_register list" where
  "all_registers =
     [RAX, RCX, RDX, RBX, RSI, RDI, RSP, RBP, R8, R9, R10, R11, R12, R13, R14, R15,
      XMM0, XMM1, XMM2, XMM3, XMM4, XMM5, XMM6, XMM7]"

fun reg_index :: "physical_register \<Rightarrow> nat" where
  "reg_index RAX = 0" | "reg_index RCX = 1" | "reg_index RDX = 2" | "reg_index RBX = 3"
| "reg_index RSI = 4" | "reg_index RDI = 5" | "reg_index RSP = 6" | "reg_index RBP = 7"
| "reg_index R8 = 8" | "reg_index R9 = 9" | "reg_index R10 = 10" | "reg_index R11 = 11"
| "reg_index R12 = 12" | "reg_index R13 = 13" | "reg_index R14 = 14" | "reg_index R15 = 15"
| "reg_index XMM0 = 16" | "reg_index XMM1 = 17" | "reg_index XMM2 = 18" | "reg_index XMM3 = 19"
| "reg_index XMM4 = 20" | "reg_index XMM5 = 21" | "reg_index XMM6 = 22" | "reg_index XMM7 = 23"

definition from_index :: "nat \<Rightarrow> physical_register res" where
  "from_index i = (if i < length all_registers then Inr (all_registers ! i) else Inl ExplicitPanic)"

datatype register_class = General | Xmm

definition is_xmm :: "physical_register \<Rightarrow> bool" where
  "is_xmm r \<longleftrightarrow> r \<in> {XMM0, XMM1, XMM2, XMM3, XMM4, XMM5, XMM6, XMM7}"

definition is_gpr :: "physical_register \<Rightarrow> bool" where
  "is_gpr r \<longleftrightarrow> \<not> is_xmm r"

definition reg_class :: "physical_register \<Rightarrow> register_class" where
  "reg_class r = (if is_gpr r then General else Xmm)"

datatype x86_register = PhysicalR physical_register | VirtualR nat register_class | GlobalR nat

fun class_of_register :: "x86_register \<Rightarrow> register_class option" where
  "class_of_register (PhysicalR r) = Some (reg_class r)"
| "class_of_register (VirtualR _ c) = Some c"
| "class_of_register (GlobalR _) = None"

datatype memory_scale = S1 | S2 | S4 | S8

datatype operand_kind =
    ImmediateO u64
  | MemoryO "x86_register option" "x86_register option" memory_scale int "segment_register option"
  | RegisterO x86_register
  | TargetO nat

record operand =
  operand_kind :: operand_kind
  width_in_bits :: width

section \<open>Types and nodes\<close>

datatype etype = UnsignedE nat | SignedE nat | FloatingE nat | BitsE | IntE | TupleE | RealE

fun etype_width :: "etype \<Rightarrow> nat res" where
  "etype_width (UnsignedE w) = Inr w"
| "etype_width (SignedE w) = Inr w"
| "etype_width (FloatingE w) = Inr w"
| "etype_width BitsE = Inr 64"
| "etype_width IntE = Inr 64"
| "etype_width TupleE = Inl Todo"
| "etype_width RealE = Inr 64"

datatype node = X86Node (node_typ: etype) (node_kind: node_kind)
  and node_kind =
    ConstantN u64 nat
  | OperandN operand
  | FunctionPointerN u64
  | GuestRegisterN u64
  | UnaryN unary_operation_kind node
  | BinaryN binary_operation_kind node node
  | TernaryN ternary_operation_kind node node node
  | CastN node cast_operation_kind
  | ShiftN node node shift_operation_kind
  | ReadStackVariableN nat nat
  | BitExtractN node node node
  | BitInsertN node node node node
  | BitReplicateN node node
  | GetFlagsN node
  | RealN node node
  | TupleN "node list"
  | SelectN node node node
  | CallReturnValueN

text \<open>What the emitter matches on: a constant with its value and width, and a real with its parts.\<close>

fun constant_parts :: "node \<Rightarrow> (u64 \<times> nat) option" where
  "constant_parts (X86Node _ (ConstantN value width)) = Some (value, width)"
| "constant_parts _ = None"

lemma insert_parts_smaller:
  "node_kind n = BitInsertN target source start len \<Longrightarrow> size target < size n \<and> size source < size n"
  by (cases n) auto

definition constant_value :: "node \<Rightarrow> u64 option" where
  "constant_value n = map_option fst (constant_parts n)"

fun real_parts :: "node \<Rightarrow> (node \<times> node) option" where
  "real_parts (X86Node _ (RealN numerator denominator)) = Some (numerator, denominator)"
| "real_parts _ = None"

fun real_depth :: "node \<Rightarrow> nat" where
  "real_depth (X86Node _ (RealN numerator denominator)) = Suc (max (real_depth numerator) (real_depth denominator))"
| "real_depth _ = 0"

lemma constant_parts_Some: "constant_parts n = Some (v, w) \<longleftrightarrow> n = X86Node (node_typ n) (ConstantN v w)"
  by (cases n rule: constant_parts.cases) auto

lemma real_parts_Some: "real_parts n = Some (a, b) \<longleftrightarrow> n = X86Node (node_typ n) (RealN a b)"
  by (cases n rule: real_parts.cases) auto

lemma real_parts_depth: "real_parts n = Some (a, b) \<Longrightarrow> real_depth n = Suc (max (real_depth a) (real_depth b))"
  by (cases n rule: real_parts.cases) auto

lemma real_parts_smaller: "Some (a, b) = real_parts n \<Longrightarrow> real_depth a < real_depth n \<and> real_depth b < real_depth n"
  using real_parts_depth [of n a b] by (auto simp: less_Suc_eq_le)

end
