(* ===== verification/X86_Emitter.thy ===== *)
theory X86_Emitter
  imports X86_Node
begin

text \<open>
  The value-building half of the emitter, \<open>brig/dbt/src/x86/emitter/mod.rs\<close>: every operation
  returns a node, simplified where its operands are constants.  The other half, which appends
  instructions to the current block, is not part of this theory.
\<close>

section \<open>Constants, casts and shifts\<close>

definition constant_node :: "u64 \<Rightarrow> etype \<Rightarrow> node res" where
  "constant_node value t =
     rbind (etype_width t) (\<lambda>width. if width = 0 then Inl ExplicitPanic else Inr (X86Node t (ConstantN value width)))"

definition function_ptr :: "u64 \<Rightarrow> node" where
  "function_ptr val = X86Node (UnsignedE 64) (FunctionPointerN val)"

definition read_register_node :: "u64 \<Rightarrow> etype \<Rightarrow> node" where
  "read_register_node offset t = X86Node t (GuestRegisterN offset)"

definition create_real :: "node \<Rightarrow> node \<Rightarrow> node" where
  "create_real numerator denominator = X86Node RealE (RealN numerator denominator)"

definition create_tuple :: "node list \<Rightarrow> node" where
  "create_tuple vs = X86Node TupleE (TupleN vs)"

fun access_tuple :: "node \<Rightarrow> nat \<Rightarrow> node res" where
  "access_tuple (X86Node _ (TupleN vs)) index = (if index < length vs then Inr (vs ! index) else Inl IndexOutOfBounds)"
| "access_tuple _ index = Inl ExplicitPanic"

definition get_flags :: "node \<Rightarrow> node" where
  "get_flags operation = X86Node (UnsignedE 4) (GetFlagsN operation)"

text \<open>The two checked shifts fail together: by 64 or more, that is for the width 0 and over 64.\<close>

definition emitter_sign_extend :: "rust_env \<Rightarrow> u64 \<Rightarrow> nat \<Rightarrow> u64 res" where
  "emitter_sign_extend E v original_width =
     (if v = 0 then Inr 0
      else rbind (u32_sub E 64 original_width) (\<lambda>n.
        if n < 64 then Inr (signed_drop_bit n (push_bit n v)) else Inl ExplicitPanic))"

definition cast_constant :: "rust_env \<Rightarrow> u64 \<Rightarrow> nat \<Rightarrow> nat \<Rightarrow> cast_operation_kind \<Rightarrow> u64 res" where
  "cast_constant E v original_width target_width kind =
     (case kind of
        ZeroExtendK \<Rightarrow> Inr (if original_width = 64 then v else v AND mask_u64 original_width)
      | SignExtendK \<Rightarrow> emitter_sign_extend E v original_width
      | TruncateK \<Rightarrow> Inr (v AND mask_u64 target_width)
      | ReinterpretK \<Rightarrow> Inr v
      | ConvertK \<Rightarrow> Inr v
      | BroadcastK \<Rightarrow> Inr v)"

definition cast_node :: "rust_env \<Rightarrow> node \<Rightarrow> etype \<Rightarrow> cast_operation_kind \<Rightarrow> node res" where
  "cast_node E n target_type kind =
     (case constant_value n of
        Some v \<Rightarrow>
          if target_type = BitsE then Inl ExplicitPanic
          else
            rbind (etype_width (node_typ n)) (\<lambda>original_width. rbind (etype_width target_type) (\<lambda>target_width.
            rbind (cast_constant E v original_width target_width kind) (\<lambda>casted. constant_node casted target_type)))
      | None \<Rightarrow>
          if kind \<in> {ReinterpretK, TruncateK} \<and> node_typ n = target_type then Inr n
          else Inr (X86Node target_type (CastN n kind)))"

definition shift_constant ::
    "u64 \<Rightarrow> nat \<Rightarrow> u64 \<Rightarrow> shift_operation_kind \<Rightarrow> u64 res" where
  "shift_constant v width amount kind =
     (case kind of
        LogicalShiftLeftK \<Rightarrow>
          rbind (if v = 0 then Inr 0
                 else if amount = 0 then Inr v
                 else rbind (u32_try_from_u64 amount) (\<lambda>a. Inr (if a < 64 then push_bit a v else 0)))
            (\<lambda>shifted. Inr (shifted AND mask_u64 width))
      | LogicalShiftRightK \<Rightarrow>
          rbind (u32_try_from_u64 amount) (\<lambda>a. Inr (if a < 64 then drop_bit a v else 0))
      | ArithmeticShiftRightK \<Rightarrow>
          if width = 64 then
            rbind (u32_try_from_u64 amount) (\<lambda>a. if a < 64 then Inr (signed_drop_bit a v) else Inl UnwrapFailed)
          else if width = 32 then
            rbind (u32_try_from_u64 amount) (\<lambda>a.
              if a < 32 then Inr (scast (signed_drop_bit a (ucast v :: u32))) else Inl UnwrapFailed)
          else Inl Todo
      | _ \<Rightarrow> Inl Todo)"

definition shift_node :: "node \<Rightarrow> node \<Rightarrow> shift_operation_kind \<Rightarrow> node res" where
  "shift_node n amount kind =
     (case (constant_parts n, constant_value amount) of
        (Some (v, width), Some a) \<Rightarrow> rbind (shift_constant v width a kind) (\<lambda>shifted. constant_node shifted (node_typ n))
      | (None, Some a) \<Rightarrow> if a = 0 then Inr n else Inr (X86Node (node_typ n) (ShiftN n amount kind))
      | _ \<Rightarrow> Inr (X86Node (node_typ n) (ShiftN n amount kind)))"

section \<open>Binary operations\<close>

text \<open>Each operation is one arm of \<open>binary_operation\<close>; \<open>plain\<close> is the node left unsimplified.\<close>

abbreviation plain :: "binary_operation_kind \<Rightarrow> node \<Rightarrow> node \<Rightarrow> node" where
  "plain op lhs rhs \<equiv> X86Node (node_typ lhs) (BinaryN op lhs rhs)"

function multiply_node :: "rust_env \<Rightarrow> node \<Rightarrow> node \<Rightarrow> node res" where
  "multiply_node E lhs rhs =
     (case (constant_parts lhs, constant_parts rhs) of
        (Some (l, width), Some (r, _)) \<Rightarrow> rbind (u64_mul E l r) (\<lambda>v. Inr (X86Node (node_typ lhs) (ConstantN v width)))
      | (Some (l, _), None) \<Rightarrow>
          if l = 0 then rbind (etype_width (node_typ rhs)) (\<lambda>w. Inr (X86Node (node_typ rhs) (ConstantN 0 w)))
          else if l = 1 then Inr rhs
          else Inr (plain MultiplyK lhs rhs)
      | (None, Some (r, _)) \<Rightarrow>
          if r = 0 then rbind (etype_width (node_typ lhs)) (\<lambda>w. Inr (X86Node (node_typ lhs) (ConstantN 0 w)))
          else if r = 1 then Inr lhs
          else Inr (plain MultiplyK lhs rhs)
      | (None, None) \<Rightarrow>
          (case (real_parts lhs, real_parts rhs) of
             (Some (left_num, left_den), Some (right_num, right_den)) \<Rightarrow>
               rbind (multiply_node E left_num right_num) (\<lambda>num.
               rbind (multiply_node E left_den right_den) (\<lambda>den. Inr (create_real num den)))
           | _ \<Rightarrow> Inr (plain MultiplyK lhs rhs)))"
  by pat_completeness auto
termination
  by (relation "measure (\<lambda>(E, lhs, rhs). real_depth lhs)") (auto dest: real_parts_smaller)

declare multiply_node.simps [simp del]

lemma multiply_depth: "multiply_node E lhs rhs = Inr n \<Longrightarrow> real_depth n \<le> max (real_depth lhs) (real_depth rhs)"
proof (induction E lhs rhs arbitrary: n rule: multiply_node.induct)
  case (1 E lhs rhs)
  show ?case
  proof (cases "\<exists>ln ld rn rd. real_parts lhs = Some (ln, ld) \<and> real_parts rhs = Some (rn, rd)
      \<and> constant_parts lhs = None \<and> constant_parts rhs = None")
    case True
    then obtain ln ld rn rd where r: "real_parts lhs = Some (ln, ld)" "real_parts rhs = Some (rn, rd)"
        "constant_parts lhs = None" "constant_parts rhs = None" by blast
    then obtain a b where ab: "multiply_node E ln rn = Inr a" "multiply_node E ld rd = Inr b" "n = create_real a b"
      using 1(3) by (subst (asm) multiply_node.simps) (auto simp: rbind_eq_Inr)
    have "real_depth a \<le> max (real_depth ln) (real_depth rn)"
      using 1(1) [OF refl r(3,4) refl r(1) refl r(2) refl ab(1)] by simp
    moreover have "real_depth b \<le> max (real_depth ld) (real_depth rd)"
      using 1(2) [OF refl r(3,4) refl r(1) refl r(2) refl ab(1) ab(2)] by simp
    ultimately show ?thesis using r ab(3) by (auto simp: create_real_def real_parts_depth)
  next
    case False
    then show ?thesis
      using 1(3) by (subst (asm) multiply_node.simps) (auto simp: rbind_eq_Inr split: option.splits if_splits)
  qed
qed

function add_node :: "rust_env \<Rightarrow> node \<Rightarrow> node \<Rightarrow> node res" where
  "add_node E lhs rhs =
     (case (constant_parts lhs, constant_parts rhs) of
        (Some (l, width), Some (r, _)) \<Rightarrow> Inr (X86Node (node_typ lhs) (ConstantN (l + r) width))
      | (Some (l, _), None) \<Rightarrow> Inr (if l = 0 then rhs else plain AddK lhs rhs)
      | (None, Some (r, _)) \<Rightarrow> Inr (if r = 0 then lhs else plain AddK lhs rhs)
      | (None, None) \<Rightarrow>
          (case (real_parts lhs, real_parts rhs) of
             (Some (left_num, left_den), Some (right_num, right_den)) \<Rightarrow>
               rbind (multiply_node E left_num right_den) (\<lambda>left.
               rbind (multiply_node E right_num left_den) (\<lambda>right.
               rbind (add_node E left right) (\<lambda>num.
               rbind (multiply_node E left_den right_den) (\<lambda>den. Inr (create_real num den)))))
           | _ \<Rightarrow> Inr (plain AddK lhs rhs)))"
  by pat_completeness auto
termination
  by (relation "measure (\<lambda>(E, lhs, rhs). max (real_depth lhs) (real_depth rhs))")
    (auto dest!: multiply_depth real_parts_smaller)

function sub_node :: "rust_env \<Rightarrow> node \<Rightarrow> node \<Rightarrow> node res" where
  "sub_node E lhs rhs =
     (case (constant_parts lhs, constant_parts rhs) of
        (Some (l, width), Some (r, _)) \<Rightarrow> Inr (X86Node (node_typ lhs) (ConstantN (l - r) width))
      | _ \<Rightarrow>
          (case (real_parts lhs, real_parts rhs) of
             (Some (left_num, left_den), Some (right_num, right_den)) \<Rightarrow>
               rbind (multiply_node E left_num right_den) (\<lambda>left.
               rbind (multiply_node E left_den right_den) (\<lambda>den.
               rbind (multiply_node E right_num left_den) (\<lambda>right.
               rbind (sub_node E left right) (\<lambda>num. Inr (create_real num den)))))
           | _ \<Rightarrow> Inr (plain SubK lhs rhs)))"
  by pat_completeness auto
termination
  by (relation "measure (\<lambda>(E, lhs, rhs). max (real_depth lhs) (real_depth rhs))")
    (auto dest!: multiply_depth real_parts_smaller)

declare add_node.simps [simp del] sub_node.simps [simp del]

definition divide_node :: "rust_env \<Rightarrow> node \<Rightarrow> node \<Rightarrow> node res" where
  "divide_node E lhs rhs =
     (case (constant_parts lhs, constant_parts rhs) of
        (Some (l, width), Some (r, _)) \<Rightarrow> rbind (u64_div l r) (\<lambda>v. Inr (X86Node (node_typ lhs) (ConstantN v width)))
      | _ \<Rightarrow>
          (case (real_parts lhs, real_parts rhs) of
             (Some (left_num, left_den), Some (right_num, right_den)) \<Rightarrow>
               rbind (multiply_node E left_num right_den) (\<lambda>num.
               rbind (multiply_node E left_den right_num) (\<lambda>den. Inr (create_real num den)))
           | _ \<Rightarrow> Inr (plain DivideK lhs rhs)))"

definition modulo_node :: "node \<Rightarrow> node \<Rightarrow> node res" where
  "modulo_node lhs rhs =
     (case (constant_parts lhs, constant_parts rhs) of
        (Some (l, width), Some (r, _)) \<Rightarrow>
          if r = 0 then Inl DivideByZero else Inr (X86Node (node_typ lhs) (ConstantN (l mod r) width))
      | _ \<Rightarrow> Inr (plain ModuloK lhs rhs))"

definition or_node :: "node \<Rightarrow> node \<Rightarrow> node res" where
  "or_node lhs rhs =
     (case (constant_parts lhs, constant_parts rhs) of
        (Some (l, width), Some (r, _)) \<Rightarrow> Inr (X86Node (node_typ lhs) (ConstantN (l OR r) width))
      | _ \<Rightarrow>
          rbind (etype_width (node_typ rhs)) (\<lambda>rw. rbind (etype_width (node_typ lhs)) (\<lambda>lw.
          Inr (X86Node (if rw > lw then node_typ rhs else node_typ lhs) (BinaryN OrK lhs rhs)))))"

definition xor_node :: "node \<Rightarrow> node \<Rightarrow> node res" where
  "xor_node lhs rhs =
     (case (constant_parts lhs, constant_parts rhs) of
        (Some (l, width), Some (r, _)) \<Rightarrow> Inr (X86Node (node_typ lhs) (ConstantN (l XOR r) width))
      | _ \<Rightarrow> Inr (plain XorK lhs rhs))"

definition is_no_op_and :: "etype \<Rightarrow> etype \<Rightarrow> u64 \<Rightarrow> bool res" where
  "is_no_op_and left_type right_type right_constant =
     rbind (etype_width left_type) (\<lambda>lw.
     if lw > 128 then Inr False
     else
       rbind (if right_constant = mask_u64 lw
              then rbind (etype_width right_type) (\<lambda>rw. Inr (rw \<in> {8, 16, 32, 64, 128}))
              else Inr False)
         (\<lambda>all_ones. Inr (all_ones \<or> lw > 64 \<and> right_constant = - 1)))"

definition and_node :: "node \<Rightarrow> node \<Rightarrow> node res" where
  "and_node lhs rhs =
     (case (constant_parts lhs, constant_parts rhs) of
        (Some (l, width), Some (r, _)) \<Rightarrow> Inr (X86Node (node_typ lhs) (ConstantN (l AND r) width))
      | (Some (l, _), None) \<Rightarrow>
          if l = 0 then constant_node 0 (node_typ rhs)
          else rbind (is_no_op_and (node_typ rhs) (node_typ lhs) l) (\<lambda>no_op.
            Inr (if no_op then rhs else X86Node (node_typ lhs) (BinaryN AndK lhs rhs)))
      | (None, Some (r, _)) \<Rightarrow>
          if r = 0 then constant_node 0 (node_typ lhs)
          else rbind (is_no_op_and (node_typ lhs) (node_typ rhs) r) (\<lambda>no_op.
            Inr (if no_op then lhs else X86Node (node_typ rhs) (BinaryN AndK lhs rhs)))
      | (None, None) \<Rightarrow> Inr (plain AndK lhs rhs))"

text \<open>\<open>emit_compare\<close>: the result of comparing two constants keeps the type of the left one.\<close>

fun compare_holds :: "binary_operation_kind \<Rightarrow> ordering \<Rightarrow> bool res" where
  "compare_holds CompareLessThanK c = Inr (c = Less)"
| "compare_holds CompareLessThanOrEqualK c = Inr (c \<noteq> Greater)"
| "compare_holds CompareGreaterThanK c = Inr (c = Greater)"
| "compare_holds CompareGreaterThanOrEqualK c = Inr (c \<noteq> Less)"
| "compare_holds CompareEqualK c = Inr (c = Equal)"
| "compare_holds CompareNotEqualK c = Inr (c \<noteq> Equal)"
| "compare_holds _ c = Inl ExplicitPanic"

fun compare_signedness :: "etype \<Rightarrow> etype \<Rightarrow> bool res" where
  "compare_signedness (SignedE lw) (SignedE rw) = Inr True"
| "compare_signedness (UnsignedE lw) (UnsignedE rw) = Inr False"
| "compare_signedness IntE (SignedE rw) = (if rw = 64 then Inr True else Inl Todo)"
| "compare_signedness (UnsignedE lw) (SignedE rw) = (if lw = 64 \<and> rw = 64 then Inr True else Inl Todo)"
| "compare_signedness (SignedE lw) (UnsignedE rw) = (if lw = 64 \<and> rw = 64 then Inr True else Inl Todo)"
| "compare_signedness _ _ = Inl Todo"

function emit_compare :: "rust_env \<Rightarrow> binary_operation_kind \<Rightarrow> node \<Rightarrow> node \<Rightarrow> node res" where
  "emit_compare E op lhs rhs =
     (case (constant_parts lhs, constant_parts rhs) of
        (Some (l, _), Some (r, _)) \<Rightarrow>
          rbind (compare_signedness (node_typ lhs) (node_typ rhs)) (\<lambda>is_signed.
          rbind (compare_holds op (if is_signed then i64_cmp l r else cmp l r)) (\<lambda>result.
          Inr (X86Node (node_typ lhs) (ConstantN (of_bool result) 1))))
      | _ \<Rightarrow>
          (case (real_parts lhs, real_parts rhs) of
             (Some (left_num, left_den), Some (right_num, right_den)) \<Rightarrow>
               rbind (multiply_node E left_num right_den) (\<lambda>left.
               rbind (multiply_node E left_den right_num) (\<lambda>right. emit_compare E op left right))
           | _ \<Rightarrow> Inr (X86Node (UnsignedE 1) (BinaryN op lhs rhs))))"
  by pat_completeness auto
termination
  by (relation "measure (\<lambda>(E, op, lhs, rhs). max (real_depth lhs) (real_depth rhs))")
    (auto dest!: multiply_depth real_parts_smaller)

declare emit_compare.simps [simp del]

text \<open>\<open>i64::pow\<close> with the overflow checks, and \<open>abs\<close> of the exponent, which panics on the least \<open>i64\<close>.\<close>

definition i64_pow :: "rust_env \<Rightarrow> i64 \<Rightarrow> nat \<Rightarrow> i64 res" where
  "i64_pow E a n = checked E (fits_i64 (sint a ^ n)) (a ^ n)"

definition powi_constant :: "rust_env \<Rightarrow> u64 \<Rightarrow> u64 \<Rightarrow> u64 res" where
  "powi_constant E base exponent =
     (if \<bar>sint exponent\<bar> < 2 ^ 32
      then rbind (i64_pow E base (nat \<bar>sint exponent\<bar>)) (\<lambda>res.
        if res = 0 then Inr 0
        else if is_negative exponent then i64_div 1 res
        else Inr res)
      else Inl ExplicitPanic)"

function powi_node :: "rust_env \<Rightarrow> node \<Rightarrow> node \<Rightarrow> node res" where
  "powi_node E base exponent =
     (case (constant_value base, constant_value exponent) of
        (Some b, Some e) \<Rightarrow> rbind (powi_constant E b e) (\<lambda>v. constant_node v (node_typ base))
      | (b, e) \<Rightarrow>
          if b = Some 1 then Inr base
          else if e = Some 0 then constant_node 1 (node_typ base)
          else if b = Some 2 then
            rbind (constant_node 1 (node_typ base)) (\<lambda>one. shift_node one exponent LogicalShiftLeftK)
          else
            (case real_parts base of
               Some (numerator, denominator) \<Rightarrow>
                 rbind (powi_node E numerator exponent) (\<lambda>num.
                 rbind (powi_node E denominator exponent) (\<lambda>den. Inr (create_real num den)))
             | None \<Rightarrow> Inr (plain PowIK base exponent)))"
  by pat_completeness auto
termination
  by (relation "measure (\<lambda>(E, base, exponent). real_depth base)") (auto dest!: real_parts_smaller real_parts_smaller [OF sym])

declare powi_node.simps [simp del]

fun binary_operation :: "rust_env \<Rightarrow> binary_operation_kind \<Rightarrow> node \<Rightarrow> node \<Rightarrow> node res" where
  "binary_operation E AddK lhs rhs = add_node E lhs rhs"
| "binary_operation E SubK lhs rhs = sub_node E lhs rhs"
| "binary_operation E MultiplyK lhs rhs = multiply_node E lhs rhs"
| "binary_operation E DivideK lhs rhs = divide_node E lhs rhs"
| "binary_operation E ModuloK lhs rhs = modulo_node lhs rhs"
| "binary_operation E OrK lhs rhs = or_node lhs rhs"
| "binary_operation E XorK lhs rhs = xor_node lhs rhs"
| "binary_operation E AndK lhs rhs = and_node lhs rhs"
| "binary_operation E PowIK lhs rhs = powi_node E lhs rhs"
| "binary_operation E op lhs rhs = emit_compare E op lhs rhs"

definition ternary_operation :: "ternary_operation_kind \<Rightarrow> node \<Rightarrow> node \<Rightarrow> node \<Rightarrow> node" where
  "ternary_operation op src dst carry = X86Node (node_typ src) (TernaryN op src dst carry)"

section \<open>Bit fields\<close>

definition select_node :: "node \<Rightarrow> node \<Rightarrow> node \<Rightarrow> node" where
  "select_node condition true_value false_value =
     (case constant_value condition of
        Some v \<Rightarrow> if v = 0 then false_value else true_value
      | None \<Rightarrow> X86Node (node_typ true_value) (SelectN condition true_value false_value))"

text \<open>
  The whole target is replaced when the start is 0 and the three widths agree, as canonical host
  widths; the widths are only looked at when the start is 0.
\<close>

definition replaces_target :: "node \<Rightarrow> node \<Rightarrow> u64 \<Rightarrow> u64 \<Rightarrow> bool res" where
  "replaces_target target source start len =
     (if start \<noteq> 0 then Inr False
      else
        rbind (canonical_width (unat len)) (\<lambda>w.
        rbind (etype_width (node_typ source)) (\<lambda>sw. rbind (canonical_width sw) (\<lambda>sw.
        if w \<noteq> sw then Inr False
        else rbind (etype_width (node_typ target)) (\<lambda>tw. rbind (canonical_width tw) (\<lambda>tw. Inr (w = tw)))))))"

definition bit_insert_node :: "node \<Rightarrow> node \<Rightarrow> node \<Rightarrow> node \<Rightarrow> node res" where
  "bit_insert_node target source start len =
     (let partial = (case (constant_value start, constant_value len) of
           (Some s, Some l) \<Rightarrow>
             rbind (replaces_target target source s l) (\<lambda>whole.
             Inr (if whole then source else X86Node (node_typ target) (BitInsertN target source start len)))
         | _ \<Rightarrow> Inr (X86Node (node_typ target) (BitInsertN target source start len))) in
      case (constant_parts target, constant_value source, constant_value start, constant_value len) of
        (Some (t, tw), Some v, Some s, Some l) \<Rightarrow>
          if tw \<le> 64 then rbind (bit_insert t v s l) (\<lambda>x. constant_node x (UnsignedE tw)) else partial
      | _ \<Rightarrow> partial)"

definition bit_replicate_node :: "rust_env \<Rightarrow> node \<Rightarrow> node \<Rightarrow> node res" where
  "bit_replicate_node E pattern count =
     (let unknown = Inr (X86Node (UnsignedE 64) (BitReplicateN pattern count)) in
      case (constant_parts pattern, constant_value count) of
        (Some (p, width), Some c) \<Rightarrow>
          rbind (u64_mul E (word_of_nat width) c) (\<lambda>total.
          if total \<le> 64 then
            rbind (foldR (\<lambda>_ dest. rbind (u64_shl E dest width) (\<lambda>d. Inr (d OR p))) [1..<unat c] p) (\<lambda>dest.
            rbind (u32_try_from_u64 c) (\<lambda>c. rbind (u32_mul E width c) (\<lambda>w. constant_node dest (UnsignedE w))))
          else unknown)
      | _ \<Rightarrow> unknown)"

text \<open>The arm of \<open>bit_extract\<close> for a known start and length.\<close>

definition before_extension :: "rust_env \<Rightarrow> node \<Rightarrow> u64 \<Rightarrow> u64 \<Rightarrow> node res" where
  "before_extension E n start len =
     (case (node_kind n, node_typ n) of
        (CastN pre ZeroExtendK, UnsignedE _) \<Rightarrow>
          rbind (etype_width (node_typ pre)) (\<lambda>w. rbind (u64_add E start len) (\<lambda>end.
          Inr (if unat end \<le> w then pre else n)))
      | _ \<Rightarrow> Inr n)"

definition extract_known :: "rust_env \<Rightarrow> node \<Rightarrow> node \<Rightarrow> u64 \<Rightarrow> u64 \<Rightarrow> node res" where
  "extract_known E n start start_value len =
     rbind (before_extension E n start_value len) (\<lambda>v.
     case (node_kind v, unat len \<in> {8, 16, 32, 64, 128}) of
       (GuestRegisterN offset, True) \<Rightarrow>
         (case node_typ n of
            UnsignedE _ \<Rightarrow>
              if start_value mod 8 \<noteq> 0 then Inl ExplicitPanic
              else rbind (u64_add E offset (start_value div 8)) (\<lambda>off.
                Inr (read_register_node off (UnsignedE (unat len))))
          | _ \<Rightarrow> Inl Todo)
     | _ \<Rightarrow>
         rbind (shift_node v start LogicalShiftRightK) (\<lambda>shifted.
         rbind (u32_try_from_u64 len) (\<lambda>w.
         rbind (cast_node E shifted (UnsignedE w) TruncateK) (\<lambda>cast.
         rbind (constant_node (mask_u64 w) (node_typ cast)) (\<lambda>m. and_node cast m)))))"

function bit_extract_node :: "rust_env \<Rightarrow> node \<Rightarrow> node \<Rightarrow> node \<Rightarrow> node res" where
  "bit_extract_node E n start len =
     (case (constant_value n, constant_value start, constant_value len) of
        (Some v, Some s, Some l) \<Rightarrow>
          rbind (bit_extract E v s l) (\<lambda>x. rbind (u32_try_from_u64 l) (\<lambda>w. constant_node x (UnsignedE w)))
      | (None, Some s, Some l) \<Rightarrow>
          (case node_kind n of
             BitInsertN target source ins_start ins_len \<Rightarrow>
               (case (constant_value ins_start, constant_value ins_len) of
                  (Some a_length, Some b_length) \<Rightarrow>
                    if s = a_length \<and> l = b_length then Inr source
                    else if s = 0 \<and> l = a_length then
                      rbind (u32_try_from_u64 l) (\<lambda>w. cast_node E target (UnsignedE w) TruncateK)
                    else
                      rbind (u64_add E a_length b_length) (\<lambda>b_end.
                      rbind (u64_add E s l) (\<lambda>past. rbind (u64_sub E past 1) (\<lambda>c_end.
                      let in_a = (\<lambda>i. i < a_length); in_b = (\<lambda>i. a_length \<le> i \<and> i < b_end) in
                      if in_a s \<and> in_a c_end then
                        rbind (constant_node s (SignedE 64)) (\<lambda>from. rbind (constant_node l (SignedE 64)) (\<lambda>count.
                        bit_extract_node E target from count))
                      else if in_b s \<and> in_b c_end then
                        rbind (u64_sub E s a_length) (\<lambda>offset.
                        rbind (constant_node offset (SignedE 64)) (\<lambda>from. rbind (constant_node l (SignedE 64)) (\<lambda>count.
                        bit_extract_node E source from count)))
                      else if in_a s \<and> in_b c_end then
                        rbind (u64_sub E a_length s) (\<lambda>a_part.
                        let b_part = (if a_part \<le> l then l - a_part else 0) in
                        rbind (u64_add E a_part b_part) (\<lambda>total. rbind (rassert (total = l)) (\<lambda>_.
                        rbind (constant_node s (SignedE 64)) (\<lambda>from. rbind (constant_node a_part (SignedE 64)) (\<lambda>a_count.
                        rbind (bit_extract_node E target from a_count) (\<lambda>a.
                        rbind (constant_node 0 (SignedE 64)) (\<lambda>from. rbind (constant_node b_part (SignedE 64)) (\<lambda>b_count.
                        rbind (bit_extract_node E source from b_count) (\<lambda>b.
                        rbind (u32_try_from_u64 l) (\<lambda>w. rbind (cast_node E a (UnsignedE w) ZeroExtendK) (\<lambda>expanded_a.
                        bit_insert_node expanded_a b a_count b_count)))))))))))
                      else Inl Todo)))
                | _ \<Rightarrow> Inl ExplicitPanic)
           | BinaryN MultiplyK _ _ \<Rightarrow>
               if s = 64 \<and> l = 64 then Inr (X86Node (node_typ n) (BitExtractN n start len))
               else extract_known E n start s l
           | _ \<Rightarrow> extract_known E n start s l)
      | (_, _, Some l) \<Rightarrow>
          rbind (u32_try_from_u64 l) (\<lambda>w. Inr (X86Node (UnsignedE w) (BitExtractN n start len)))
      | _ \<Rightarrow> Inr (X86Node (node_typ n) (BitExtractN n start len)))"
  by pat_completeness auto
termination
  by (relation "measure (\<lambda>(E, n, start, len). size n)") (auto dest!: insert_parts_smaller insert_parts_smaller [OF sym])

declare bit_extract_node.simps [simp del]

section \<open>Sizes and bit vectors\<close>

definition size_of :: "node \<Rightarrow> node res" where
  "size_of n =
     (case node_typ n of
        UnsignedE w \<Rightarrow> constant_node (word_of_nat w) (UnsignedE 16)
      | SignedE w \<Rightarrow> constant_node (word_of_nat w) (UnsignedE 16)
      | FloatingE w \<Rightarrow> constant_node (word_of_nat w) (UnsignedE 16)
      | BitsE \<Rightarrow>
          (case node_kind n of
             ConstantN _ width \<Rightarrow> constant_node (word_of_nat width) (UnsignedE 16)
           | CastN v ZeroExtendK \<Rightarrow>
               (case node_typ v of UnsignedE w \<Rightarrow> constant_node (word_of_nat w) (UnsignedE 16) | _ \<Rightarrow> Inl Todo)
           | ReadStackVariableN _ _ \<Rightarrow> constant_node 64 (UnsignedE 16)
           | _ \<Rightarrow> Inl Todo)
      | IntE \<Rightarrow> constant_node 64 (UnsignedE 16)
      | TupleE \<Rightarrow> Inl Todo
      | RealE \<Rightarrow> Inl Todo)"

fun with_length :: "etype \<Rightarrow> nat \<Rightarrow> etype res" where
  "with_length (UnsignedE _) len = Inr (UnsignedE len)"
| "with_length BitsE len = Inr (UnsignedE len)"
| "with_length (SignedE _) len = Inr (SignedE len)"
| "with_length _ len = Inl Todo"

definition bits_cast_node :: "rust_env \<Rightarrow> node \<Rightarrow> node \<Rightarrow> cast_operation_kind \<Rightarrow> node res" where
  "bits_cast_node E n len kind =
     (case (constant_parts n, constant_value len) of
        (Some (v, width), Some l) \<Rightarrow>
          (case kind of
             TruncateK \<Rightarrow>
               rbind (u32_try_from_u64 l) (\<lambda>target_length. rbind (rassert (target_length \<le> width)) (\<lambda>_.
               rbind (with_length (node_typ n) target_length) (\<lambda>t. constant_node (v AND mask_u64 target_length) t)))
           | SignExtendK \<Rightarrow>
               rbind (u32_try_from_u64 l) (\<lambda>target_length. rbind (rassert (target_length \<ge> width)) (\<lambda>_.
               rbind (with_length (node_typ n) target_length) (\<lambda>t.
               rbind (u32_sub E 64 width) (\<lambda>k. rbind (i64_shl E v k) (\<lambda>x. rbind (i64_shr E x k) (\<lambda>sign_extended.
               constant_node (sign_extended AND mask_u64 target_length) t))))))
           | ZeroExtendK \<Rightarrow>
               rbind (u32_try_from_u64 l) (\<lambda>target_length. rbind (rassert (target_length \<ge> width)) (\<lambda>_.
               rbind (with_length (node_typ n) target_length) (\<lambda>t. constant_node v t)))
           | _ \<Rightarrow> Inr n)
      | (None, Some l) \<Rightarrow>
          if kind = SignExtendK
          then rbind (u32_try_from_u64 l) (\<lambda>w. cast_node E n (SignedE w) SignExtendK)
          else Inr n
      | _ \<Rightarrow> Inr n)"

definition create_bits_node :: "rust_env \<Rightarrow> node \<Rightarrow> node \<Rightarrow> node res" where
  "create_bits_node E n len =
     (case constant_value len of
        Some l \<Rightarrow>
          rbind (u32_try_from_u64 l) (\<lambda>l.
          rbind (case node_typ n of UnsignedE _ \<Rightarrow> Inr (UnsignedE l) | SignedE _ \<Rightarrow> Inr (SignedE l) | _ \<Rightarrow> Inl Todo) (\<lambda>t.
          rbind (etype_width (node_typ n)) (\<lambda>w.
          cast_node E n t (if w < l then ZeroExtendK else if w = l then ReinterpretK else TruncateK))))
      | None \<Rightarrow> Inr n)"

section \<open>Unary operations\<close>

definition constants_of :: "node \<Rightarrow> node \<Rightarrow> (u64 \<times> u64) option" where
  "constants_of a b = (case (constant_value a, constant_value b) of (Some x, Some y) \<Rightarrow> Some (x, y) | _ \<Rightarrow> None)"

definition i64_div_floor :: "i64 \<Rightarrow> i64 \<Rightarrow> i64 res" where
  "i64_div_floor a b =
     (if b = 0 then Inl DivideByZero
      else if \<not> fits_i64 (sint a div sint b) then Inl Overflow
      else Inr (word_of_int (sint a div sint b)))"

definition ceil_node :: "node \<Rightarrow> node res" where
  "ceil_node n =
     (case real_parts n of
        None \<Rightarrow> Inl ExplicitPanic
      | Some (numerator, denominator) \<Rightarrow>
          if constants_of numerator denominator \<noteq> None then Inl Todo
          else Inr (X86Node (SignedE 64) (UnaryN CeilK n)))"

definition floor_node :: "node \<Rightarrow> node res" where
  "floor_node n =
     (case real_parts n of
        None \<Rightarrow> Inl ExplicitPanic
      | Some (numerator, denominator) \<Rightarrow>
          (case constants_of numerator denominator of
             Some (num, den) \<Rightarrow>
               rbind (rassert (node_typ numerator = SignedE 64)) (\<lambda>_.
               rbind (rassert (node_typ denominator = SignedE 64)) (\<lambda>_.
               rbind (i64_div_floor num den) (\<lambda>v. Inr (X86Node (SignedE 64) (ConstantN v 64)))))
           | None \<Rightarrow> Inr (X86Node (SignedE 64) (UnaryN FloorK n))))"

function negate_node :: "rust_env \<Rightarrow> node \<Rightarrow> node res" where
  "negate_node E n =
     (case constant_value n of
        Some v \<Rightarrow>
          (case node_typ n of
             SignedE w \<Rightarrow> rbind (i64_neg E v) (\<lambda>negated. constant_node negated (SignedE w))
           | _ \<Rightarrow> Inl Todo)
      | None \<Rightarrow>
          (case real_parts n of
             Some (numerator, denominator) \<Rightarrow> rbind (negate_node E numerator) (\<lambda>neg. Inr (create_real neg denominator))
           | None \<Rightarrow> Inr (X86Node (node_typ n) (UnaryN NegateK n))))"
  by pat_completeness auto
termination
  by (relation "measure (\<lambda>(E, n). real_depth n)") (auto dest!: real_parts_smaller [OF sym])

declare negate_node.simps [simp del]

definition absolute_node :: "rust_env \<Rightarrow> node \<Rightarrow> node res" where
  "absolute_node E n =
     (case constant_parts n of
        Some (v, width) \<Rightarrow>
          if node_typ n = SignedE 64 \<and> width = 64 then
            if fits_i64 \<bar>sint v\<bar> then constant_node (word_of_int \<bar>sint v\<bar>) (SignedE 64) else Inl Overflow
          else Inl Todo
      | None \<Rightarrow>
          (case node_typ n of
             FloatingE width \<Rightarrow>
               rbind (cast_node E n (UnsignedE width) ReinterpretK) (\<lambda>cast_value.
               rbind (constant_node 0 (UnsignedE 1)) (\<lambda>zero. rbind (constant_node 1 (SignedE 64)) (\<lambda>one.
               rbind (u64_sub E (word_of_nat width) 1) (\<lambda>top. rbind (constant_node top (SignedE 64)) (\<lambda>start.
               rbind (bit_insert_node cast_value zero start one) (\<lambda>cleared_bit.
               cast_node E cleared_bit (FloatingE width) ReinterpretK))))))
           | _ \<Rightarrow> Inl Todo))"

fun unary_operation :: "rust_env \<Rightarrow> unary_operation_kind \<Rightarrow> node \<Rightarrow> node res" where
  "unary_operation E NotK n =
     (case constant_parts n of
        Some (v, width) \<Rightarrow> Inr (X86Node (node_typ n) (ConstantN (of_bool (v = 0)) width))
      | None \<Rightarrow> Inr (X86Node (node_typ n) (UnaryN NotK n)))"
| "unary_operation E ComplementK n =
     (case constant_parts n of
        Some (v, width) \<Rightarrow> Inr (X86Node (node_typ n) (ConstantN (NOT v AND mask_u64 width) width))
      | None \<Rightarrow> Inr (X86Node (node_typ n) (UnaryN ComplementK n)))"
| "unary_operation E CeilK n = ceil_node n"
| "unary_operation E FloorK n = floor_node n"
| "unary_operation E NegateK n = negate_node E n"
| "unary_operation E AbsoluteK n = absolute_node E n"
| "unary_operation E SquareRootK n = Inr (X86Node (node_typ n) (UnaryN SquareRootK n))"
| "unary_operation E Power2K n = Inl Todo"

section \<open>Composite operations\<close>

definition field_mask :: "rust_env \<Rightarrow> node \<Rightarrow> node \<Rightarrow> nat \<Rightarrow> node res" where
  "field_mask E start len width =
     rbind (constant_node 1 (UnsignedE width)) (\<lambda>one.
     rbind (shift_node one len LogicalShiftLeftK) (\<lambda>shifted_1.
     rbind (binary_operation E SubK shifted_1 one) (\<lambda>m. shift_node m start LogicalShiftLeftK)))"

definition bit_insert_64 :: "rust_env \<Rightarrow> node \<Rightarrow> node \<Rightarrow> node \<Rightarrow> node \<Rightarrow> node res" where
  "bit_insert_64 E target source start len =
     rbind (etype_width (node_typ target)) (\<lambda>w.
     rbind (field_mask E start len w) (\<lambda>m.
     rbind (unary_operation E ComplementK m) (\<lambda>inverted_mask.
     rbind (binary_operation E AndK target inverted_mask) (\<lambda>cleared_target.
     rbind (cast_node E source (node_typ target) ZeroExtendK) (\<lambda>cast_source.
     rbind (shift_node cast_source start LogicalShiftLeftK) (\<lambda>shifted_source.
     rbind (binary_operation E AndK shifted_source m) (\<lambda>masked_source.
     binary_operation E OrK cleared_target masked_source)))))))"

end
