(* ===== verification/X86_Denote.thy ===== *)
theory X86_Denote
  imports X86_Emitter
begin

text \<open>
  What the nodes of the emitter denote, and that its simplifications respect it.  A node of an
  integer type denotes the bits it leaves in the low part of a host register, as an integer
  below \<open>2 ^ width\<close>; a value narrower than its host register is taken to be zero-extended there.  The
  registers of the guest and the nodes that are no function of their operands (calls, flags,
  floating point) are given by an environment.  A shift denotes what the \<open>shl\<close>, \<open>shr\<close> or \<open>sar\<close> does
  that \<open>to_operand\<close> emits for it: the processor takes the count modulo 32, or modulo 64 for a value of
  more than 32 bits, and \<open>shift_right_128\<close> does the same with a pair of registers.
\<close>

unbundle bit_operations_syntax

record node_env =
  guest_byte :: "nat \<Rightarrow> u8"
  opaque :: "etype \<Rightarrow> node_kind \<Rightarrow> int"

definition tw :: "etype \<Rightarrow> nat" where
  "tw t = (case etype_width t of Inr w \<Rightarrow> w | Inl _ \<Rightarrow> 0)"

definition guest_bits :: "node_env \<Rightarrow> nat \<Rightarrow> nat \<Rightarrow> int" where
  "guest_bits \<rho> offset w =
     horner_sum of_bool 2 (map (\<lambda>j. bit (guest_byte \<rho> (offset + j div 8)) (j mod 8)) [0..<w])"

definition signed_read :: "etype \<Rightarrow> int \<Rightarrow> int" where
  "signed_read t x = signed_take_bit (tw t - 1) x"

fun both_unsigned :: "etype \<Rightarrow> etype \<Rightarrow> bool" where
  "both_unsigned (UnsignedE _) (UnsignedE _) = True"
| "both_unsigned _ _ = False"

definition ref_insert :: "int \<Rightarrow> int \<Rightarrow> nat \<Rightarrow> nat \<Rightarrow> int" where
  "ref_insert target source start len =
     (target AND NOT (push_bit start (mask len))) OR push_bit start (take_bit len source)"

definition ref_compare :: "binary_operation_kind \<Rightarrow> etype \<Rightarrow> etype \<Rightarrow> int \<Rightarrow> int \<Rightarrow> bool" where
  "ref_compare op ta tb a b =
     (let c = (if both_unsigned ta tb then cmp a b else cmp (signed_read ta a) (signed_read tb b)) in
      case op of
        CompareEqualK \<Rightarrow> c = Equal | CompareNotEqualK \<Rightarrow> c \<noteq> Equal
      | CompareLessThanK \<Rightarrow> c = Less | CompareLessThanOrEqualK \<Rightarrow> c \<noteq> Greater
      | CompareGreaterThanK \<Rightarrow> c = Greater | CompareGreaterThanOrEqualK \<Rightarrow> c \<noteq> Less
      | _ \<Rightarrow> False)"

definition ref_binary :: "binary_operation_kind \<Rightarrow> etype \<Rightarrow> etype \<Rightarrow> int \<Rightarrow> int \<Rightarrow> int" where
  "ref_binary op ta tb a b =
     (case op of
        AddK \<Rightarrow> a + b
      | SubK \<Rightarrow> a - b
      | MultiplyK \<Rightarrow> a * b
      | DivideK \<Rightarrow> if both_unsigned ta tb then a div b else signed_read ta a sdiv signed_read tb b
      | ModuloK \<Rightarrow> if both_unsigned ta tb then a mod b else signed_read ta a smod signed_read tb b
      | AndK \<Rightarrow> a AND b
      | OrK \<Rightarrow> a OR b
      | XorK \<Rightarrow> a XOR b
      | PowIK \<Rightarrow> a ^ nat b
      | _ \<Rightarrow> of_bool (ref_compare op ta tb a b))"

text \<open>
  The bits of the count that the processor looks at, and the shifts that are not emitted as one: those of 128 bits
  to the left or with the sign, and the upper half of a product.
\<close>

definition count_bits :: "etype \<Rightarrow> nat" where
  "count_bits t = (if tw t \<le> 32 then 5 else 6)"

definition emitted_shift :: "node \<Rightarrow> node \<Rightarrow> shift_operation_kind \<Rightarrow> bool" where
  "emitted_shift n amount kind \<longleftrightarrow>
     (if tw (node_typ n) \<le> 64 then kind \<in> {LogicalShiftLeftK, LogicalShiftRightK, ArithmeticShiftRightK} else kind = LogicalShiftRightK)
     \<and> \<not> (kind = LogicalShiftRightK \<and> constant_value amount = Some 64 \<and> (case node_kind n of BinaryN op _ _ \<Rightarrow> op = MultiplyK | _ \<Rightarrow> False))"

definition ref_shift :: "shift_operation_kind \<Rightarrow> etype \<Rightarrow> int \<Rightarrow> int \<Rightarrow> int" where
  "ref_shift kind t x amount =
     (let count = nat (take_bit (count_bits t) amount) in
      case kind of
        LogicalShiftLeftK \<Rightarrow> push_bit count x
      | LogicalShiftRightK \<Rightarrow> drop_bit count x
      | _ \<Rightarrow> drop_bit count (signed_read t x))"

fun den :: "node_env \<Rightarrow> node \<Rightarrow> int"
  and raw :: "node_env \<Rightarrow> etype \<Rightarrow> node_kind \<Rightarrow> int" where
  "den \<rho> (X86Node t k) = take_bit (tw t) (raw \<rho> t k)"
| "raw \<rho> t (ConstantN v _) = uint v"
| "raw \<rho> t (GuestRegisterN offset) = guest_bits \<rho> (unat offset) (tw t)"
| "raw \<rho> t (UnaryN op n) =
     (case op of
        NotK \<Rightarrow> of_bool (den \<rho> n = 0)
      | ComplementK \<Rightarrow> NOT (den \<rho> n)
      | NegateK \<Rightarrow> - den \<rho> n
      | _ \<Rightarrow> opaque \<rho> t (UnaryN op n))"
| "raw \<rho> t (BinaryN op a b) = ref_binary op (node_typ a) (node_typ b) (den \<rho> a) (den \<rho> b)"
| "raw \<rho> t (CastN n kind) =
     (case kind of
        SignExtendK \<Rightarrow> signed_read (node_typ n) (den \<rho> n)
      | BroadcastK \<Rightarrow> opaque \<rho> t (CastN n kind)
      | _ \<Rightarrow> den \<rho> n)"
| "raw \<rho> t (ShiftN n amount kind) =
     (if emitted_shift n amount kind then ref_shift kind (node_typ n) (den \<rho> n) (den \<rho> amount)
      else opaque \<rho> t (ShiftN n amount kind))"
| "raw \<rho> t (BitExtractN n start len) = take_bit (nat (den \<rho> len)) (drop_bit (nat (den \<rho> start)) (den \<rho> n))"
| "raw \<rho> t (BitInsertN target source start len) =
     ref_insert (den \<rho> target) (den \<rho> source) (nat (den \<rho> start)) (nat (den \<rho> len))"
| "raw \<rho> t (SelectN c a b) = (if den \<rho> c \<noteq> 0 then den \<rho> a else den \<rho> b)"
| "raw \<rho> t k = opaque \<rho> t k"

section \<open>Denotations and constants\<close>

lemma tw_simps [simp]:
  "tw (UnsignedE w) = w" "tw (SignedE w) = w" "tw (FloatingE w) = w" "tw BitsE = 64" "tw IntE = 64" "tw RealE = 64"
  by (simp_all add: tw_def)

lemma etype_width_Inr: "etype_width t = Inr w \<Longrightarrow> tw t = w"
  by (simp add: tw_def)

lemma den_take_bit [simp]: "take_bit (tw (node_typ n)) (den \<rho> n) = den \<rho> n"
  by (cases n) simp

lemma den_take_bit_ge: "tw (node_typ n) \<le> w \<Longrightarrow> take_bit w (den \<rho> n) = den \<rho> n"
  by (metis den_take_bit min.absorb2 take_bit_take_bit)

lemma den_nonneg [simp]: "0 \<le> den \<rho> n"
  by (cases n) simp

lemma den_less: "den \<rho> n < 2 ^ tw (node_typ n)"
  by (cases n) simp

text \<open>The constants whose upper bits are the ones their type stores.\<close>

definition canonical :: "node \<Rightarrow> bool" where
  "canonical n \<longleftrightarrow> (case constant_value n of
     None \<Rightarrow> True
   | Some v \<Rightarrow>
       (case node_typ n of
          SignedE w \<Rightarrow> sint v = signed_take_bit (w - 1) (sint v)
        | t \<Rightarrow> uint v < 2 ^ tw t))"

lemma constant_value_Some: "constant_value n = Some v \<longleftrightarrow> (\<exists>w. n = X86Node (node_typ n) (ConstantN v w))"
  by (auto simp: constant_value_def constant_parts_Some)

lemma den_constant: "constant_value n = Some v \<Longrightarrow> den \<rho> n = take_bit (tw (node_typ n)) (uint v)"
  by (metis constant_value_Some den.simps raw.simps(1))

lemma constant_parts_value: "constant_parts n = Some (v, w) \<Longrightarrow> constant_value n = Some v"
  by (simp add: constant_value_def)

lemma den_canonical_unsigned:
  "constant_value n = Some v \<Longrightarrow> node_typ n = UnsignedE w \<Longrightarrow> canonical n \<Longrightarrow> den \<rho> n = uint v"
  by (simp add: den_constant canonical_def take_bit_int_eq_self)

lemma constant_node_den:
  assumes "constant_node v t = Inr n"
  shows "den \<rho> n = take_bit (tw t) (uint v)" "node_typ n = t" "constant_value n = Some v" "0 < tw t"
  using assms by (auto simp: constant_node_def rbind_eq_Inr constant_value_def tw_def split: if_splits)

lemma signed_read_uint:
  assumes "w \<le> 64" "0 < w"
  shows "signed_take_bit (w - 1) (take_bit w (uint (v :: u64))) = signed_take_bit (w - 1) (sint v)"
proof (cases "w = 64")
  case True
  then show ?thesis using uint_lt2p [of v] by (simp add: sint_uint take_bit_int_eq_self)
next
  case False
  with assms have "w < 64" by simp
  then show ?thesis using assms(2) by (intro bit_eqI) (auto simp: bit_simps min_def bit_uint_iff bit_sint_iff)
qed

lemma den_canonical_signed:
  assumes "constant_value n = Some v" and t: "node_typ n = SignedE w" "0 < w" "w \<le> 64" and "canonical n"
  shows "signed_read (node_typ n) (den \<rho> n) = sint v"
  using assms signed_read_uint [of w v] by (simp add: den_constant canonical_def signed_read_def)

lemma uint_and_mask: "uint (v AND mask_u64 w) = take_bit w (uint v)"
  by (rule bit_eqI) (auto simp: bit_simps bit_uint_iff dest: bit_imp_le_length)

lemma take_uint_arith:
  assumes "w \<le> 64"
  shows "take_bit w (uint (a + b :: u64)) = take_bit w (uint a + uint b)"
    and "take_bit w (uint (a - b :: u64)) = take_bit w (uint a - uint b)"
    and "take_bit w (uint (a * b :: u64)) = take_bit w (uint a * uint b)"
  using assms by (simp_all add: uint_word_arith_bintrs min_def)

lemma take_bit_mult_cong: "take_bit w (take_bit w a * take_bit w b) = take_bit w (a * b :: int)"
  by (simp add: take_bit_eq_mod mod_mult_eq)

lemma take_bit_logic:
  "take_bit w (take_bit w a AND take_bit w b) = take_bit w (a AND b :: int)"
  "take_bit w (take_bit w a OR take_bit w b) = take_bit w (a OR b :: int)"
  "take_bit w (take_bit w a XOR take_bit w b) = take_bit w (a XOR b :: int)"
  by simp_all

section \<open>Binary operations on integers\<close>

definition integer_operands :: "etype \<Rightarrow> node \<Rightarrow> node \<Rightarrow> bool" where
  "integer_operands t l r \<longleftrightarrow> node_typ l = t \<and> node_typ r = t \<and> (real_parts l = None \<or> real_parts r = None)
     \<and> t \<in> {UnsignedE (tw t), SignedE (tw t)} \<and> 0 < tw t \<and> tw t \<le> 64"

lemma integer_operandsD:
  assumes "integer_operands t l r"
  shows "node_typ l = t" "node_typ r = t" "real_parts l = None \<or> real_parts r = None"
    "0 < tw t" "tw t \<le> 64" "etype_width t = Inr (tw t)" "t = UnsignedE (tw t) \<or> t = SignedE (tw t)"
  using assms by (auto simp: integer_operands_def) (metis etype_width.simps)+

definition means :: "node_env \<Rightarrow> etype \<Rightarrow> int \<Rightarrow> node \<Rightarrow> bool" where
  "means \<rho> t x n \<longleftrightarrow> node_typ n = t \<and> den \<rho> n = take_bit (tw t) x"

lemma constant_node_means: "constant_node v t = Inr n \<Longrightarrow> means \<rho> t (uint v) n"
  using constant_node_den [of v t n] by (simp add: means_def)

lemma add_sound:
  assumes ops: "integer_operands t l r" and run: "add_node E l r = Inr n"
  shows "means \<rho> t (den \<rho> l + den \<rho> r) n"
  using run integer_operandsD [OF ops] den_take_bit [of l \<rho>] den_take_bit [of r \<rho>]
  by (subst (asm) add_node.simps)
    (auto simp: means_def ref_binary_def den_constant take_uint_arith take_bit_add dest!: constant_parts_value split: option.splits if_splits)

lemma sub_sound:
  assumes ops: "integer_operands t l r" and run: "sub_node E l r = Inr n"
  shows "means \<rho> t (den \<rho> l - den \<rho> r) n"
  using run integer_operandsD [OF ops] den_take_bit [of l \<rho>] den_take_bit [of r \<rho>]
  by (subst (asm) sub_node.simps)
    (auto simp: means_def ref_binary_def den_constant take_uint_arith take_bit_diff dest!: constant_parts_value split: option.splits if_splits)

lemma multiply_sound:
  assumes ops: "integer_operands t l r" and run: "multiply_node E l r = Inr n"
  shows "means \<rho> t (den \<rho> l * den \<rho> r) n"
  using run integer_operandsD [OF ops] den_take_bit [of l \<rho>] den_take_bit [of r \<rho>]
  by (subst (asm) multiply_node.simps)
    (auto simp: means_def ref_binary_def den_constant take_uint_arith take_bit_mult_cong u64_mul_def checked_eq_Inr rbind_eq_Inr dest!: constant_parts_value split: option.splits if_splits)

definition same_typed :: "etype \<Rightarrow> node \<Rightarrow> node \<Rightarrow> bool" where
  "same_typed t l r \<longleftrightarrow> node_typ l = t \<and> node_typ r = t \<and> etype_width t = Inr (tw t) \<and> tw t \<le> 64"

lemma integer_same_typed: "integer_operands t l r \<Longrightarrow> same_typed t l r"
  using integer_operandsD [of t l r] by (simp add: same_typed_def)

lemma or_sound:
  assumes ops: "same_typed t l r" and run: "or_node l r = Inr n"
  shows "means \<rho> t (den \<rho> l OR den \<rho> r) n"
  using run ops
  by (auto simp: same_typed_def or_node_def means_def ref_binary_def den_constant unsigned_or_eq dest!: constant_parts_value split: option.splits)

lemma xor_sound:
  assumes ops: "same_typed t l r" and run: "xor_node l r = Inr n"
  shows "means \<rho> t (den \<rho> l XOR den \<rho> r) n"
  using run ops
  by (auto simp: same_typed_def xor_node_def means_def ref_binary_def den_constant unsigned_xor_eq dest!: constant_parts_value split: option.splits)

lemma no_op_and:
  assumes "is_no_op_and t t c = Inr True" and "tw t \<le> 64" "etype_width t = Inr (tw t)"
  shows "take_bit (tw t) (uint c) = mask (tw t)"
proof -
  have "c = mask_u64 (tw t)" using assms by (auto simp: is_no_op_and_def rbind_eq_Inr split: if_splits)
  then show ?thesis using assms(2) by (auto intro!: bit_eqI simp: bit_simps bit_uint_iff)
qed

lemma and_sound:
  assumes ops: "same_typed t l r" and run: "and_node l r = Inr n"
  shows "means \<rho> t (den \<rho> l AND den \<rho> r) n"
proof -
  have D: "node_typ l = t" "node_typ r = t" "etype_width t = Inr (tw t)" "tw t \<le> 64" using ops by (auto simp: same_typed_def)
  have full: "den \<rho> x AND mask (tw t) = den \<rho> x" "mask (tw t) AND den \<rho> x = den \<rho> x" if "node_typ x = t" for x
    using that den_take_bit [of x \<rho>] by (simp_all add: take_bit_eq_mask and.commute)
  show ?thesis
    using run D full [OF D(1)] full [OF D(2)] den_take_bit [of l \<rho>] den_take_bit [of r \<rho>]
    by (auto simp: and_node_def means_def ref_binary_def den_constant unsigned_and_eq rbind_eq_Inr no_op_and
        dest!: constant_parts_value constant_node_means [where \<rho> = \<rho>] split: option.splits if_splits)
qed

lemma cmp_uint: "cmp (uint a) (uint b) = cmp a b"
  by (simp add: cmp_def word_less_def word_uint_eq_iff)

lemma take_uint_less: "uint (a :: u64) \<le> uint b \<Longrightarrow> uint b < 2 ^ w \<Longrightarrow> take_bit w (uint a) = uint a"
  by (simp add: take_bit_int_eq_self)

lemma divide_sound:
  assumes ops: "integer_operands (UnsignedE w) l r" and canon: "canonical l" "canonical r" and run: "divide_node E l r = Inr n"
  shows "means \<rho> (UnsignedE w) (den \<rho> l div den \<rho> r) n"
  using run integer_operandsD [OF ops] den_canonical_unsigned [OF _ _ canon(1), where \<rho> = \<rho>]
    den_canonical_unsigned [OF _ _ canon(2), where \<rho> = \<rho>]
  by (auto simp: divide_node_def means_def ref_binary_def rbind_eq_Inr u64_div_def uint_div
      dest!: constant_parts_value split: option.splits if_splits)

lemma modulo_sound:
  assumes ops: "integer_operands (UnsignedE w) l r" and canon: "canonical l" "canonical r" and run: "modulo_node l r = Inr n"
  shows "means \<rho> (UnsignedE w) (den \<rho> l mod den \<rho> r) n"
  using run integer_operandsD [OF ops] den_canonical_unsigned [OF _ _ canon(1), where \<rho> = \<rho>]
    den_canonical_unsigned [OF _ _ canon(2), where \<rho> = \<rho>]
  by (auto simp: modulo_node_def means_def ref_binary_def uint_mod
      dest!: constant_parts_value split: option.splits if_splits)

definition is_compare :: "binary_operation_kind \<Rightarrow> bool" where
  "is_compare op \<longleftrightarrow> op \<in> {CompareEqualK, CompareNotEqualK, CompareLessThanK, CompareLessThanOrEqualK,
     CompareGreaterThanK, CompareGreaterThanOrEqualK}"

lemma constant_compare:
  assumes ops: "integer_operands t l r" and canon: "canonical l" "canonical r"
    and v: "constant_value l = Some a" "constant_value r = Some b" and signed: "compare_signedness t t = Inr s"
  shows "(if both_unsigned t t then cmp (den \<rho> l) (den \<rho> r) else cmp (signed_read t (den \<rho> l)) (signed_read t (den \<rho> r)))
    = (if s then i64_cmp a b else cmp a b)"
proof -
  note D = integer_operandsD [OF ops]
  from D(7) show ?thesis
  proof
    assume t: "t = UnsignedE (tw t)"
    then have "den \<rho> l = uint a" "den \<rho> r = uint b" using den_canonical_unsigned canon v D(1,2) by metis+
    moreover have "\<not> s" "both_unsigned t t" using signed t by (cases t; simp)+
    ultimately show ?thesis by (simp add: cmp_uint)
  next
    assume t: "t = SignedE (tw t)"
    then have "signed_read t (den \<rho> l) = sint a" "signed_read t (den \<rho> r) = sint b"
      using den_canonical_signed [OF v(1) _ _ _ canon(1)] den_canonical_signed [OF v(2) _ _ _ canon(2)] D(1,2,4,5) by metis+
    moreover have "s" "\<not> both_unsigned t t" using signed t by (cases t; simp)+
    ultimately show ?thesis by (simp add: i64_cmp_def)
  qed
qed

lemma compare_sound:
  assumes ops: "integer_operands t l r" and canon: "canonical l" "canonical r" and op: "is_compare op"
    and run: "emit_compare E op l r = Inr n"
  shows "den \<rho> n = of_bool (ref_compare op t t (den \<rho> l) (den \<rho> r))"
proof (cases "constant_value l \<noteq> None \<and> constant_value r \<noteq> None")
  case True
  then obtain a w b w' where parts: "constant_parts l = Some (a, w)" "constant_parts r = Some (b, w')"
    by (auto simp: constant_value_def)
  note D = integer_operandsD [OF ops]
  from run obtain s c where c: "compare_signedness t t = Inr s" "compare_holds op (if s then i64_cmp a b else cmp a b) = Inr c"
      "n = X86Node t (ConstantN (of_bool c) 1)"
    using parts D(1,2) by (subst (asm) emit_compare.simps) (auto simp: rbind_eq_Inr)
  have "c = ref_compare op t t (den \<rho> l) (den \<rho> r)"
    using c(2) op constant_compare [OF ops canon constant_parts_value [OF parts(1)] constant_parts_value [OF parts(2)] c(1), of \<rho>]
    by (auto simp: is_compare_def ref_compare_def Let_def)
  then show ?thesis using D(4) c(3) by (cases c) (simp_all add: take_bit_int_eq_self)
next
  case False
  note D = integer_operandsD [OF ops]
  have "n = X86Node (UnsignedE 1) (BinaryN op l r)"
    using run False D(3) by (subst (asm) emit_compare.simps) (auto simp: constant_value_def split: option.splits)
  then show ?thesis using op D(1,2) by (auto simp: is_compare_def ref_binary_def take_bit_int_eq_self)
qed

section \<open>Casts and shifts\<close>

text \<open>A constant without bits above its type.\<close>

definition exact :: "node \<Rightarrow> bool" where
  "exact n \<longleftrightarrow> (case constant_parts n of
     None \<Rightarrow> True
   | Some (v, w) \<Rightarrow> w = tw (node_typ n) \<and> uint v < 2 ^ w \<and> 0 < w \<and> w \<le> 64)"

lemma exactD:
  assumes "exact n" and "constant_parts n = Some (v, w)"
  shows "tw (node_typ n) = w" "uint v < 2 ^ w" "0 < w" "w \<le> 64"
  using assms by (auto simp: exact_def)

lemma den_exact: "exact n \<Longrightarrow> constant_value n = Some v \<Longrightarrow> den \<rho> n = uint v"
  by (auto simp: exact_def den_constant constant_value_def take_bit_int_eq_self)

lemma constant_node_exact: "constant_node v t = Inr n \<Longrightarrow> uint v < 2 ^ tw t \<Longrightarrow> tw t \<le> 64 \<Longrightarrow> exact n"
  by (auto simp: constant_node_def rbind_eq_Inr exact_def tw_def split: if_splits)

lemma plain_exact [simp]: "constant_parts n = None \<Longrightarrow> exact n"
  by (simp add: exact_def)

lemma sign_extend_den:
  assumes "emitter_sign_extend E v w = Inr x" and "0 < w" "w \<le> 64"
  shows "uint x = take_bit 64 (signed_take_bit (w - 1) (take_bit w (uint v)))"
proof -
  have "uint x = take_bit 64 (sint x)" 
    using uint_lt2p [of x] by (simp add: sint_uint take_bit_signed_take_bit take_bit_int_eq_self)
  moreover have "sint x = signed_take_bit (w - 1) (sint v)"
    using assms sint_sign_extend_from [of w v]
    by (auto simp: emitter_sign_extend_def sign_extend_from_def u32_sub_def split: if_splits)
  ultimately show ?thesis using signed_read_uint [of w v] assms by simp
qed

lemma cast_sound:
  assumes run: "cast_node E n t kind = Inr m" and "etype_width (node_typ n) = Inr w" "etype_width t = Inr w'"
    and "constant_value n \<noteq> None \<Longrightarrow> 0 < w \<and> w \<le> 64 \<and> w' \<le> 64"
    and kind: "kind \<in> {ZeroExtendK, SignExtendK} \<or> kind \<in> {TruncateK, ReinterpretK} \<and> w' \<le> w"
  shows "means \<rho> t (raw \<rho> t (CastN n kind)) m"
proof (cases "constant_value n")
  case None
  then show ?thesis
    using run kind by (auto simp: cast_node_def means_def split: if_splits)
next
  case (Some v)
  with assms have w: "0 < w" "w \<le> 64" "w' \<le> 64" by auto
  from run Some assms(2,3) obtain x where x: "cast_constant E v w w' kind = Inr x" "constant_node x t = Inr m"
    by (auto simp: cast_node_def rbind_eq_Inr split: if_splits)
  have tw: "tw (node_typ n) = w" "tw t = w'" using assms(2,3) by (auto dest: etype_width_Inr)
  have "take_bit w' (uint x) = take_bit w' (raw \<rho> t (CastN n kind))"
  proof (cases "kind = SignExtendK")
    case True
    then show ?thesis
      using x(1) sign_extend_den [of E v w x] w Some by (simp add: cast_constant_def den_constant signed_read_def tw min_def)
  next
    case False
    have "v AND mask_u64 64 = v" by (simp add: and_mask_u64_full)
    with False show ?thesis
      using x(1) kind Some w uint_and_mask [of v w] uint_and_mask [of v w']
      by (auto simp: cast_constant_def den_constant tw min_def uint_and_mask split: if_splits)
  qed
  then show ?thesis using constant_node_means [OF x(2), of \<rho>] tw(2) by (simp add: means_def)
qed

lemma count_in_range: "0 \<le> a \<Longrightarrow> a < 2 ^ count_bits t \<Longrightarrow> take_bit (count_bits t) a = (a :: int)"
  by (simp add: take_bit_int_eq_self)

text \<open>The processor's reading of the count matters where the emitter does not fold the shift.\<close>

definition count_ok :: "node_env \<Rightarrow> node \<Rightarrow> node \<Rightarrow> bool" where
  "count_ok \<rho> n amount \<longleftrightarrow> constant_value n \<noteq> None \<and> constant_value amount \<noteq> None \<or> den \<rho> amount < 2 ^ count_bits (node_typ n)"

lemma shift_left_sound:
  assumes run: "shift_node n amount LogicalShiftLeftK = Inr m" and "exact amount"
    and width: "\<And>v w. constant_parts n = Some (v, w) \<Longrightarrow> w = tw (node_typ n) \<and> w \<le> 64"
    and count: "tw (node_typ n) \<le> 64" "count_ok \<rho> n amount"
  shows "means \<rho> (node_typ n) (push_bit (nat (den \<rho> amount)) (den \<rho> n)) m"
proof (cases "constant_value n = None \<or> constant_value amount = None")
  case True
  then have "den \<rho> amount < 2 ^ count_bits (node_typ n)" using count(2) by (auto simp: count_ok_def)
  from count_in_range [OF _ this] True show ?thesis
    using run den_exact [OF assms(2), where \<rho> = \<rho>] count(1)
    by (auto simp: shift_node_def means_def constant_value_def emitted_shift_def ref_shift_def Let_def split: option.splits if_splits)
next
  case False
  then obtain v w a where c: "constant_parts n = Some (v, w)" "constant_value amount = Some a" by (auto simp: constant_value_def)
  then obtain x where x: "shift_constant v w a LogicalShiftLeftK = Inr x" "constant_node x (node_typ n) = Inr m"
    using run by (auto simp: shift_node_def rbind_eq_Inr)
  note w = width [OF c(1)]
  have "take_bit w (uint x) = take_bit w (push_bit (unat a) (take_bit w (uint v)))"
    using x(1) w
    by (auto simp: shift_constant_def rbind_eq_Inr u32_try_from_u64_def uint_and_mask split: if_splits
        intro!: bit_eqI simp: bit_simps bit_uint_iff)
  then show ?thesis
    using constant_node_means [OF x(2), of \<rho>] w den_exact [OF assms(2) c(2), of \<rho>] den_constant [OF constant_parts_value [OF c(1)], of \<rho>]
    by (simp add: means_def)
qed

lemma drop_bit_less: "0 \<le> k \<Longrightarrow> k < 2 ^ w \<Longrightarrow> drop_bit a (k :: int) < 2 ^ w"
  using zdiv_mono2 [of k 1 "2 ^ a"] by (simp add: drop_bit_eq_div)

lemma shift_right_sound:
  assumes run: "shift_node n amount LogicalShiftRightK = Inr m" and amount: "exact amount" and n: "exact n"
    and count: "count_ok \<rho> n amount"
  shows "means \<rho> (node_typ n) (drop_bit (nat (den \<rho> amount)) (den \<rho> n)) m \<and> exact m"
proof (cases "constant_value n = None \<or> constant_value amount = None")
  case True
  then have small: "den \<rho> amount < 2 ^ count_bits (node_typ n)" using count by (auto simp: count_ok_def)
  have "(2::int) ^ count_bits (node_typ n) \<le> 64" by (simp add: count_bits_def)
  then have "constant_value amount \<noteq> Some 64" using small den_exact [OF amount, of 64 \<rho>] by auto
  then have emitted: "emitted_shift n amount LogicalShiftRightK" by (simp add: emitted_shift_def)
  from count_in_range [OF _ small] True show ?thesis
    using run n den_exact [OF amount, where \<rho> = \<rho>] emitted
    by (auto simp: shift_node_def means_def constant_value_def ref_shift_def Let_def split: option.splits if_splits)
next
  case False
  then obtain v w a where c: "constant_parts n = Some (v, w)" "constant_value amount = Some a" by (auto simp: constant_value_def)
  then obtain x where x: "shift_constant v w a LogicalShiftRightK = Inr x" "constant_node x (node_typ n) = Inr m"
    using run by (auto simp: shift_node_def rbind_eq_Inr)
  note w = exactD [OF n c(1)]
  have shifted: "uint x = drop_bit (unat a) (uint v)"
    using x(1) by (auto simp: shift_constant_def rbind_eq_Inr u32_try_from_u64_def split: if_splits
        intro!: bit_eqI simp: bit_simps bit_uint_iff dest!: bit_imp_le_length)
  then have "uint x < 2 ^ w" using w drop_bit_less [of "uint v" w "unat a"] by simp
  then have "exact m" using constant_node_exact [OF x(2)] w by simp
  moreover have "take_bit w (uint x) = uint x" using \<open>uint x < 2 ^ w\<close> by (simp add: take_bit_int_eq_self)
  ultimately show ?thesis
    using constant_node_means [OF x(2), of \<rho>] w shifted den_exact [OF amount c(2), of \<rho>]
      den_exact [OF n constant_parts_value [OF c(1)], of \<rho>] by (simp add: means_def)
qed

section \<open>Extraction with a known start and length\<close>

definition field_of :: "node_env \<Rightarrow> node \<Rightarrow> nat \<Rightarrow> nat \<Rightarrow> node \<Rightarrow> bool" where
  "field_of \<rho> n s l m \<longleftrightarrow> node_typ m = UnsignedE l \<and> exact m \<and> den \<rho> m = take_bit l (drop_bit s (den \<rho> n))"

lemma guest_bits_bit: "bit (guest_bits \<rho> offset w) i \<longleftrightarrow> i < w \<and> bit (guest_byte \<rho> (offset + i div 8)) (i mod 8)"
  by (auto simp: guest_bits_def bit_horner_sum_bit_iff)

lemma guest_bits_field:
  assumes "8 * k + l \<le> w"
  shows "guest_bits \<rho> (offset + k) l = take_bit l (drop_bit (8 * k) (guest_bits \<rho> offset w))"
  using assms by (intro bit_eqI) (auto simp: guest_bits_bit bit_simps add.assoc)

lemma take_drop_narrow: "s + l \<le> w \<Longrightarrow> take_bit l (drop_bit s (take_bit w x)) = take_bit l (drop_bit s (x :: int))"
  by (rule bit_eqI) (auto simp: bit_simps)

lemma before_extension_field:
  assumes run: "before_extension E n s l = Inr v" and w: "node_typ n = UnsignedE w" "unat s + unat l \<le> w" "w \<le> 128" and n: "exact n"
    and pre: "\<And>x. node_kind n = CastN x ZeroExtendK \<Longrightarrow> exact x"
  shows "exact v \<and> unat s + unat l \<le> tw (node_typ v) \<and> etype_width (node_typ v) = Inr (tw (node_typ v))
    \<and> take_bit (unat l) (drop_bit (unat s) (den \<rho> v)) = take_bit (unat l) (drop_bit (unat s) (den \<rho> n))"
proof (cases "v = n")
  case True
  then show ?thesis using w n by simp
next
  case False
  then obtain pw e where c: "node_kind n = CastN v ZeroExtendK" "etype_width (node_typ v) = Inr pw" "u64_add E s l = Inr e" "unat e \<le> pw"
    using run w(1) by (auto simp: before_extension_def rbind_eq_Inr split: node_kind.splits cast_operation_kind.splits if_splits)
  have "unat e = unat s + unat l"
    using c(3) w(2,3) by (auto simp: u64_add_def checked_eq_Inr unat_word_ariths)
  moreover have "den \<rho> n = take_bit w (den \<rho> v)" using c(1) w(1) by (cases n) simp
  ultimately show ?thesis using c pre [OF c(1)] take_drop_narrow [OF w(2)] etype_width_Inr [OF c(2)] by auto
qed

lemma and_mask_field:
  assumes run: "and_node c m = Inr n" and c: "node_typ c = UnsignedE l" "exact c" and m: "constant_node (mask_u64 l) (UnsignedE l) = Inr m"
    and l: "0 < l" "l \<le> 64"
  shows "node_typ n = UnsignedE l \<and> exact n \<and> den \<rho> n = den \<rho> c"
proof -
  have mp: "constant_parts m = Some (mask_u64 l, l)" "node_typ m = UnsignedE l"
    using m l by (auto simp: constant_node_def)
  have mask: "uint (mask_u64 l) = mask l" using l by (auto intro!: bit_eqI simp: bit_simps bit_uint_iff)
  then have dm: "den \<rho> m = mask l" using den_constant [OF constant_parts_value [OF mp(1)], of \<rho>] mp(2) by simp
  have full: "den \<rho> c AND mask l = den \<rho> c" using den_take_bit [of c \<rho>] c(1) by (simp add: take_bit_eq_mask)
  show ?thesis
  proof (cases "constant_parts c")
    case None
    have "mask_u64 l \<noteq> 0" using mask l(1) by (metis mask_eq_0_iff less_not_refl uint_0_iff)
    with None show ?thesis
      using run c mp dm full by (auto simp: and_node_def rbind_eq_Inr ref_binary_def take_bit_eq_mask and.assoc split: if_splits)
  next
    case (Some p)
    then obtain a k where p: "constant_parts c = Some (a, k)" by (cases p) auto
    note D = exactD [OF c(2) p]
    have "int (unat a) < int (2 ^ l)" using D(1,2) c(1) by simp
    then have "unat a < 2 ^ l" by (simp only: of_nat_less_iff)
    then have "a AND mask_u64 l = a" by (simp add: and_mask_u64_id_iff)
    then have "n = X86Node (UnsignedE l) (ConstantN a k)" using run p c(1) mp by (simp add: and_node_def)
    then show ?thesis using D c den_constant [OF constant_parts_value [OF p], of \<rho>] by (simp add: exact_def)
  qed
qed

lemma word_dvd_8: "s mod 8 = 0 \<Longrightarrow> unat (s :: u64) = 8 * unat (s div 8)"
  using unat_div [of s 8] unat_mod [of s 8] by (auto simp: mult_div_mod_eq [symmetric] intro: dvd_mult_div_cancel [symmetric])

lemma extract_guest_field:
  assumes dev: "overflow_checks E" and v: "node_kind v = GuestRegisterN offset" "unat s + unat l \<le> tw (node_typ v)"
    and read: "s mod 8 = 0" "u64_add E offset (s div 8) = Inr off"
  shows "field_of \<rho> v (unat s) (unat l) (read_register_node off (UnsignedE (unat l)))"
proof -
  have off: "unat off = unat offset + unat (s div 8)"
    using read(2) dev by (auto simp: u64_add_def checked_eq_Inr unat_word_ariths)
  have "den \<rho> v = guest_bits \<rho> (unat offset) (tw (node_typ v))"
    using v(1) by (cases v) (auto intro!: bit_eqI simp: bit_simps guest_bits_bit)
  then show ?thesis
    using guest_bits_field [of "unat (s div 8)" "unat l" "tw (node_typ v)" \<rho> "unat offset"] v(2) word_dvd_8 [OF read(1)] off
    by (simp add: field_of_def read_register_node_def)
qed

lemma cast_exact:
  assumes run: "cast_node E n (UnsignedE w') kind = Inr m" and n: "exact n" and w': "w' \<le> 64"
    and kind: "kind = TruncateK \<or> kind = ZeroExtendK \<and> tw (node_typ n) \<le> w'"
  shows "exact m"
proof (cases "constant_parts n")
  case None
  then show ?thesis using run by (auto simp: cast_node_def constant_value_def split: if_splits)
next
  case (Some p)
  then obtain v w where c: "constant_parts n = Some (v, w)" by (cases p) auto
  note D = exactD [OF n c]
  obtain x where x: "cast_constant E v w w' kind = Inr x" "constant_node x (UnsignedE w') = Inr m"
    using run c D(1) by (auto simp: cast_node_def constant_value_def rbind_eq_Inr tw_def split: sum.splits)
  have "uint x < 2 ^ w'"
  proof (cases "kind = TruncateK")
    case True
    then have "x = v AND mask_u64 w'" using x(1) by (simp add: cast_constant_def)
    then show ?thesis by (simp add: uint_and_mask)
  next
    case False
    then have "uint x \<le> uint v" using x(1) kind D by (auto simp: cast_constant_def uint_and_mask take_bit_int_eq_self split: if_splits)
    moreover have "(2::int) ^ w \<le> 2 ^ w'" using kind False D(1) by simp
    ultimately show ?thesis using D(2) by linarith
  qed
  then show ?thesis using constant_node_exact [OF x(2)] w' by simp
qed

lemma extract_shift_field:
  assumes run: "shift_node v start LogicalShiftRightK = Inr sh" "cast_node E sh (UnsignedE (unat l)) TruncateK = Inr c"
      "constant_node (mask_u64 (unat l)) (node_typ c) = Inr k" "and_node c k = Inr m"
    and start: "constant_value start = Some s" "exact start" "unat s < 64" and l: "unat l \<le> 64" "0 < unat l"
    and v: "exact v" "unat s + unat l \<le> tw (node_typ v)" "etype_width (node_typ v) = Inr (tw (node_typ v))"
  shows "field_of \<rho> v (unat s) (unat l) m"
proof -
  have "unat s < 2 ^ count_bits (node_typ v)" using start(3) l(2) v(2) by (auto simp: count_bits_def)
  then have "int (unat s) < int (2 ^ count_bits (node_typ v))" by (simp only: of_nat_less_iff)
  then have count: "count_ok \<rho> v start" using den_exact [OF start(2,1), of \<rho>] by (simp add: count_ok_def)
  have sh: "node_typ sh = node_typ v" "den \<rho> sh = take_bit (tw (node_typ v)) (drop_bit (unat s) (den \<rho> v))" "exact sh"
    using shift_right_sound [OF run(1) start(2) v(1) count] den_exact [OF start(2,1), of \<rho>]
    by (auto simp: means_def)
  have "constant_value sh \<noteq> None \<Longrightarrow> 0 < tw (node_typ v) \<and> tw (node_typ v) \<le> 64 \<and> unat l \<le> 64"
    using exactD [OF sh(3)] sh(1) l(1) by (auto simp: constant_value_def)
  then have c: "node_typ c = UnsignedE (unat l)" "den \<rho> c = take_bit (unat l) (den \<rho> sh)"
    using cast_sound [OF run(2), of "tw (node_typ v)" "unat l" \<rho>] sh(1) v(2,3) by (auto simp: means_def)
  have m: "node_typ m = UnsignedE (unat l) \<and> exact m \<and> den \<rho> m = den \<rho> c"
    using and_mask_field [OF run(4) c(1) cast_exact [OF run(2) sh(3) l(1)]] run(3) c(1) l by simp
  have "take_bit (unat l) (take_bit (tw (node_typ v)) (drop_bit (unat s) (den \<rho> v))) = take_bit (unat l) (drop_bit (unat s) (den \<rho> v))"
    using v(2) by (simp add: min_def)
  then show ?thesis using m c(2) sh(2) by (simp add: field_of_def)
qed

lemma guest_case:
  "(case (k, b) of (GuestRegisterN offset, True) \<Rightarrow> f offset | _ \<Rightarrow> y) = x \<longleftrightarrow>
     (\<exists>offset. k = GuestRegisterN offset \<and> b \<and> f offset = x) \<or> ((\<forall>offset. k \<noteq> GuestRegisterN offset) \<or> \<not> b) \<and> y = x"
  by (auto split: node_kind.splits bool.splits)

lemma extract_known_field:
  assumes dev: "overflow_checks E" and run: "extract_known E n start s l = Inr m"
    and w: "node_typ n = UnsignedE w" "unat s + unat l \<le> w" "w \<le> 128" and n: "exact n"
    and start: "constant_value start = Some s" "exact start" "unat s < 64" and l: "unat l \<le> 64" "0 < unat l"
    and pre: "\<And>x. node_kind n = CastN x ZeroExtendK \<Longrightarrow> exact x"
  shows "field_of \<rho> n (unat s) (unat l) m"
proof -
  from run obtain v where v: "before_extension E n s l = Inr v" by (auto simp: extract_known_def rbind_eq_Inr)
  have V: "exact v" "unat s + unat l \<le> tw (node_typ v)" "etype_width (node_typ v) = Inr (tw (node_typ v))"
      "take_bit (unat l) (drop_bit (unat s) (den \<rho> v)) = take_bit (unat l) (drop_bit (unat s) (den \<rho> n))"
    using before_extension_field [OF v w n pre, of \<rho>] by auto
  consider (reg) offset off where "node_kind v = GuestRegisterN offset" "s mod 8 = 0" "u64_add E offset (s div 8) = Inr off"
      "m = read_register_node off (UnsignedE (unat l))"
    | (shift) sh c k where "shift_node v start LogicalShiftRightK = Inr sh" "cast_node E sh (UnsignedE (unat l)) TruncateK = Inr c"
      "constant_node (mask_u64 (unat l)) (node_typ c) = Inr k" "and_node c k = Inr m"
    using run v w(1) unfolding extract_known_def rbind_eq_Inr guest_case
    by (auto simp: rbind_eq_Inr u32_try_from_u64_def split: if_splits)
  then have "field_of \<rho> v (unat s) (unat l) m"
  proof cases
    case reg
    then show ?thesis using extract_guest_field [OF dev reg(1) V(2) reg(2,3)] by simp
  next
    case shift
    then show ?thesis by (rule extract_shift_field [OF _ _ _ _ start l V(1-3)])
  qed
  then show ?thesis using V(4) by (simp add: field_of_def)
qed

section \<open>Insertion and the general extraction\<close>

lemma ref_insert_bit:
  "bit (ref_insert t x s l) i \<longleftrightarrow> (if s \<le> i \<and> i < s + l then bit x (i - s) else bit t i)"
  by (auto simp: ref_insert_def bit_simps)

lemma ref_insert_take:
  assumes "s + l \<le> w" and t: "take_bit w t = t"
  shows "take_bit w (ref_insert t x s l) = ref_insert t x s l"
proof (rule bit_eqI)
  fix i
  have "bit t i \<Longrightarrow> i < w" using t by (metis bit_take_bit_iff)
  then show "bit (take_bit w (ref_insert t x s l)) i \<longleftrightarrow> bit (ref_insert t x s l) i"
    using assms(1) by (auto simp: bit_take_bit_iff ref_insert_bit)
qed

lemma bit_insert_den:
  assumes "bit_insert t v s l = Inr x" and "unat s + unat l \<le> 64" "0 < unat l"
  shows "uint x = ref_insert (uint t) (uint v) (unat s) (unat l)"
proof (rule bit_eqI)
  fix i
  have x: "x = (t AND NOT (push_bit (unat s) (mask_u64 (unat l)))) OR push_bit (unat s) (v AND mask_u64 (unat l))"
    using assms by (auto simp: bit_insert_def Let_def rbind_eq_Inr u32_try_from_u64_def split: if_splits)
  have len: "bit t i \<Longrightarrow> i < 64" using bit_imp_le_length [of t i] by simp
  show "bit (uint x) i \<longleftrightarrow> bit (ref_insert (uint t) (uint v) (unat s) (unat l)) i"
  proof (cases "i < 64")
    case True
    with assms(2) show ?thesis unfolding x ref_insert_bit by (auto simp: bit_simps bit_uint_iff)
  next
    case False
    with len assms(2) show ?thesis by (auto simp: ref_insert_bit bit_uint_iff)
  qed
qed

lemma bit_insert_node_eq:
  assumes "constant_value start = Some s" "constant_value len = Some l"
  shows "bit_insert_node target source start len =
    (let partial = rbind (replaces_target target source s l) (\<lambda>whole.
           Inr (if whole then source else X86Node (node_typ target) (BitInsertN target source start len))) in
     case (constant_parts target, constant_value source) of
       (Some (t, k), Some v) \<Rightarrow> if k \<le> 64 then rbind (bit_insert t v s l) (\<lambda>x. constant_node x (UnsignedE k)) else partial
     | _ \<Rightarrow> partial)"
  using assms by (simp add: bit_insert_node_def Let_def split: option.split prod.split)

lemma insert_sound:
  assumes run: "bit_insert_node target source start len = Inr m"
    and pos: "constant_value start = Some s" "constant_value len = Some l" "exact start" "exact len"
    and target: "node_typ target = UnsignedE w" "exact target" and source: "exact source"
    and w: "unat s + unat l \<le> w" "w \<le> 128" "0 < unat l"
    and rep: "replaces_target target source s l = Inr True \<Longrightarrow> node_typ source = UnsignedE w \<and> unat l = w"
  shows "node_typ m = UnsignedE w \<and> exact m
    \<and> den \<rho> m = ref_insert (den \<rho> target) (den \<rho> source) (unat s) (unat l)"
proof -
  have fits: "take_bit w (ref_insert (den \<rho> target) x (unat s) (unat l)) = ref_insert (den \<rho> target) x (unat s) (unat l)" for x
    using den_take_bit [of target \<rho>] target(1) by (intro ref_insert_take [OF w(1)]) simp
  consider (const) t v where "constant_parts target = Some (t, w)" "constant_value source = Some v" "w \<le> 64"
      "rbind (bit_insert t v s l) (\<lambda>x. constant_node x (UnsignedE w)) = Inr m"
    | (whole) "replaces_target target source s l = Inr True" "m = source"
    | (node) "m = X86Node (UnsignedE w) (BitInsertN target source start len)"
    using run unfolding bit_insert_node_eq [OF pos(1,2)] Let_def
    by (cases "constant_parts target"; cases "constant_value source")
      (auto simp: rbind_eq_Inr target(1) dest!: exactD(1) [OF target(2)] split: if_splits)
  then show ?thesis
  proof cases
    case const
    then obtain x where x: "bit_insert t v s l = Inr x" "constant_node x (UnsignedE w) = Inr m" by (auto simp: rbind_eq_Inr)
    have "den \<rho> target = uint t" "den \<rho> source = uint v"
      using den_exact [OF target(2) constant_parts_value [OF const(1)]] den_exact [OF source const(2)] by auto
    then have "uint x = ref_insert (den \<rho> target) (den \<rho> source) (unat s) (unat l)"
      using bit_insert_den [OF x(1)] w const(3) by simp
    then show ?thesis
      using constant_node_means [OF x(2), of \<rho>] constant_node_exact [OF x(2)] fits const(3)
      by (simp add: means_def) (metis take_bit_int_less_exp)
  next
    case whole
    with rep have "node_typ source = UnsignedE w" "unat l = w" by auto
    moreover from this w(1) have "unat s = 0" by simp
    moreover have "ref_insert (den \<rho> target) (den \<rho> source) 0 w = den \<rho> source"
      using den_take_bit [of target \<rho>] den_take_bit [of source \<rho>] target(1) \<open>node_typ source = UnsignedE w\<close>
      by (intro bit_eqI) (metis (no_types, lifting) add_0 bit_take_bit_iff diff_zero le0 ref_insert_bit tw_simps(1))
    ultimately show ?thesis using whole(2) source by simp
  next
    case node
    then show ?thesis
      using fits den_exact [OF pos(3,1), of \<rho>] den_exact [OF pos(4,2), of \<rho>] by simp
  qed
qed

fun extract_ok :: "node \<Rightarrow> bool" where
  "extract_ok (X86Node t k) \<longleftrightarrow> t = UnsignedE (tw t) \<and> tw t \<le> 128 \<and> exact (X86Node t k)
     \<and> (case k of
          BitInsertN target source start len \<Rightarrow>
            extract_ok target \<and> extract_ok source \<and> node_typ target = t
            \<and> (case (constant_value start, constant_value len) of
                 (Some a, Some b) \<Rightarrow> node_typ source = UnsignedE (unat b) \<and> unat a + unat b \<le> tw t
               | _ \<Rightarrow> True)
            \<and> exact start \<and> exact len
        | CastN x _ \<Rightarrow> exact x
        | BinaryN _ _ _ \<Rightarrow> tw t \<le> 64
        | _ \<Rightarrow> True)"

lemma extract_okD:
  assumes "extract_ok n"
  shows "node_typ n = UnsignedE (tw (node_typ n))" "tw (node_typ n) \<le> 128" "exact n"
    "node_kind n = CastN x c \<Longrightarrow> exact x" "node_kind n = BinaryN op a b \<Longrightarrow> tw (node_typ n) \<le> 64"
  using assms by (cases n; auto)+

lemma extract_ok_width: "extract_ok n \<Longrightarrow> etype_width (node_typ n) = Inr (tw (node_typ n))"
  using extract_okD(1) by (metis etype_width.simps(1))

lemma constant_node_position:
  assumes "constant_node v (SignedE 64) = Inr n"
  shows "constant_value n = Some v" "exact n"
  using constant_node_den [OF assms] constant_node_exact [OF assms] uint_lt2p [of v] by simp_all

lemma den_insert_field:
  assumes n: "extract_ok n" and k: "node_kind n = BitInsertN target source start len"
    and c: "constant_value start = Some a" "constant_value len = Some b"
  shows "den \<rho> n = ref_insert (den \<rho> target) (den \<rho> source) (unat a) (unat b)"
    "extract_ok target" "extract_ok source" "node_typ target = node_typ n" "node_typ source = UnsignedE (unat b)"
    "unat a + unat b \<le> tw (node_typ n)" "exact start" "exact len"
proof -
  obtain t where nt: "n = X86Node t (BitInsertN target source start len)" using k by (cases n) simp
  show facts: "extract_ok target" "extract_ok source" "node_typ target = node_typ n" "node_typ source = UnsignedE (unat b)"
    "unat a + unat b \<le> tw (node_typ n)" "exact start" "exact len"
    using n c by (auto simp: nt)
  show "den \<rho> n = ref_insert (den \<rho> target) (den \<rho> source) (unat a) (unat b)"
    using facts(3,5) ref_insert_take [OF facts(5), of "den \<rho> target" "den \<rho> source"] den_take_bit [of target \<rho>]
      den_exact [OF facts(6) c(1), of \<rho>] den_exact [OF facts(7) c(2), of \<rho>]
    by (simp add: nt)
qed

lemma insert_fields:
  "s + l \<le> a \<Longrightarrow> take_bit l (drop_bit s (ref_insert t x a b)) = take_bit l (drop_bit s t)"
  "a \<le> s \<Longrightarrow> s + l \<le> a + b \<Longrightarrow> take_bit l (drop_bit s (ref_insert t x a b)) = take_bit l (drop_bit (s - a) x)"
  by (rule bit_eqI, auto simp: bit_simps ref_insert_bit)+

lemma insert_straddle:
  assumes "s < a" "a \<le> s + l" "s + l \<le> a + b"
  shows "take_bit l (drop_bit s (ref_insert t x a b)) =
    ref_insert (take_bit (a - s) (drop_bit s t)) (take_bit (s + l - a) x) (a - s) (s + l - a)"
  using assms by (intro bit_eqI) (auto simp: bit_simps ref_insert_bit add.commute)

text \<open>The arm for an extraction from an insertion, with the constant positions named.\<close>

definition extract_overlap :: "rust_env \<Rightarrow> node \<Rightarrow> node \<Rightarrow> u64 \<Rightarrow> u64 \<Rightarrow> u64 \<Rightarrow> u64 \<Rightarrow> node \<Rightarrow> bool" where
  "extract_overlap E target source a b s l m \<longleftrightarrow>
     (s = a \<and> l = b \<and> m = source)
     \<or> (s = 0 \<and> l = a \<and> cast_node E target (UnsignedE (unat l)) TruncateK = Inr m)
     \<or> (\<exists>from count. constant_node s (SignedE 64) = Inr from \<and> constant_node l (SignedE 64) = Inr count
          \<and> unat s < unat a \<and> unat s + unat l \<le> unat a \<and> bit_extract_node E target from count = Inr m)
     \<or> (\<exists>from count. constant_node (s - a) (SignedE 64) = Inr from \<and> constant_node l (SignedE 64) = Inr count
          \<and> unat a \<le> unat s \<and> unat s + unat l \<le> unat a + unat b \<and> bit_extract_node E source from count = Inr m)
     \<or> (\<exists>from a_count x from' b_count y z. unat s < unat a \<and> unat a < unat s + unat l \<and> unat s + unat l \<le> unat a + unat b
          \<and> constant_node s (SignedE 64) = Inr from \<and> constant_node (a - s) (SignedE 64) = Inr a_count
          \<and> bit_extract_node E target from a_count = Inr x
          \<and> constant_node 0 (SignedE 64) = Inr from' \<and> constant_node (l - (a - s)) (SignedE 64) = Inr b_count
          \<and> bit_extract_node E source from' b_count = Inr y
          \<and> cast_node E x (UnsignedE (unat l)) ZeroExtendK = Inr z \<and> bit_insert_node z y a_count b_count = Inr m)"

lemma u64_checked_unat:
  assumes "overflow_checks E"
  shows "u64_add E x y = Inr z \<Longrightarrow> unat z = unat x + unat y"
    and "u64_sub E x y = Inr z \<Longrightarrow> y \<le> x \<and> z = x - y \<and> unat z = unat x - unat y"
  using assms by (auto simp: u64_add_def u64_sub_def checked_eq_Inr unat_word_ariths unat_sub)

lemma extract_insert_cases:
  assumes run: "bit_extract_node E n start len = Inr m" and k: "node_kind n = BitInsertN target source st ln"
    and c: "constant_value start = Some s" "constant_value len = Some l" "constant_value st = Some a" "constant_value ln = Some b"
    and dev: "overflow_checks E" and l: "0 < unat l"
  shows "extract_overlap E target source a b s l m"
proof (cases "s = a \<and> l = b \<or> s = 0 \<and> l = a")
  case True
  have n: "constant_value n = None" using k by (cases n) (simp add: constant_value_def)
  show ?thesis
    using run True by (subst (asm) bit_extract_node.simps) (auto simp: n c k extract_overlap_def rbind_eq_Inr u32_try_from_u64_def split: if_splits)
next
  case False
  have n: "constant_value n = None" using k by (cases n) (simp add: constant_value_def)
  obtain b_end past c_end where e: "u64_add E a b = Inr b_end" "u64_add E s l = Inr past" "u64_sub E past 1 = Inr c_end"
    using run False by (subst (asm) bit_extract_node.simps) (auto simp: n c k rbind_eq_Inr)
  note u = u64_checked_unat(1) [OF dev e(1)] u64_checked_unat(1) [OF dev e(2)] u64_checked_unat(2) [OF dev e(3)]
  consider (A) "s < a" "c_end < a" | (B) "a \<le> s" "c_end < b_end" | (AB) "s < a" "a \<le> c_end" "c_end < b_end"
    using run False e by (subst (asm) bit_extract_node.simps) (auto simp: n c k Let_def not_less split: if_splits)
  then show ?thesis
  proof cases
    case A
    then show ?thesis
      using run False e u by (subst (asm) bit_extract_node.simps) (auto simp: n c k Let_def rbind_eq_Inr extract_overlap_def word_less_nat_alt)
  next
    case B
    then have i: "\<not> s < a" "a \<le> s" "s < b_end" "a \<le> c_end" "\<not> c_end < a" "c_end < b_end"
      using u l by (auto simp: word_less_nat_alt word_le_nat_alt)
    obtain offset first count where r: "u64_sub E s a = Inr offset" "constant_node offset (SignedE 64) = Inr first"
        "constant_node l (SignedE 64) = Inr count" "bit_extract_node E source first count = Inr m"
      using run False e i by (subst (asm) bit_extract_node.simps) (auto simp: n c k Let_def rbind_eq_Inr)
    then show ?thesis
      using u64_checked_unat(2) [OF dev r(1)] i u by (auto simp: extract_overlap_def word_less_nat_alt word_le_nat_alt)
  next
    case AB
    then have i: "s < a" "\<not> a \<le> s" "a \<le> c_end" "\<not> c_end < a" "c_end < b_end" by auto
    note R = run [unfolded bit_extract_node.simps [of E n start len]]
    obtain a_part where sub: "u64_sub E a s = Inr a_part"
      using R False e i by (cases "u64_sub E a s") (auto simp: n c k Let_def)
    note p = u64_checked_unat(2) [OF dev sub]
    have ends: "unat a_part = unat a - unat s" "unat c_end = unat s + unat l - 1" using p u by auto
    have part: "a_part \<le> l" using i(1,3) l unfolding word_less_nat_alt word_le_nat_alt ends by linarith
    obtain first a_count x zero b_count y z where r: "constant_node s (SignedE 64) = Inr first"
        "constant_node a_part (SignedE 64) = Inr a_count" "bit_extract_node E target first a_count = Inr x"
        "constant_node 0 (SignedE 64) = Inr zero" "constant_node (l - a_part) (SignedE 64) = Inr b_count"
        "bit_extract_node E source zero b_count = Inr y"
        "cast_node E x (UnsignedE (unat l)) ZeroExtendK = Inr z" "bit_insert_node z y a_count b_count = Inr m"
      using R False e i part sub by (auto simp: n c k Let_def rbind_eq_Inr u32_try_from_u64_def split: if_splits)
    have "unat s < unat a" "unat a < unat s + unat l" "unat s + unat l \<le> unat a + unat b"
      using i u l by (auto simp: word_less_nat_alt word_le_nat_alt)
    then show ?thesis using r p unfolding extract_overlap_def by auto
  qed
qed

lemma extract_plain_field:
  assumes dev: "overflow_checks E" and run: "bit_extract_node E n start len = Inr m" and n: "extract_ok n"
    and pos: "constant_value start = Some s" "constant_value len = Some l" "exact start"
    and fits: "unat s + unat l \<le> tw (node_typ n)" "unat l \<le> 64" "0 < unat l" "unat s < 64"
    and k: "\<And>t x i j. node_kind n \<noteq> BitInsertN t x i j"
  shows "field_of \<rho> n (unat s) (unat l) m"
proof (cases "constant_value n")
  case None
  have "extract_known E n start s l = Inr m"
    using run None pos k extract_okD(5) [OF n] fits unfolding bit_extract_node.simps [of E n start len]
    by (auto split: node_kind.splits binary_operation_kind.splits if_splits)
  then show ?thesis
    using extract_known_field [OF dev _ extract_okD(1) [OF n] fits(1) extract_okD(2,3) [OF n] pos(1,3) fits(4,2,3)] extract_okD(4) [OF n] by blast
next
  case (Some v)
  then obtain x where x: "bit_extract E v s l = Inr x" "constant_node x (UnsignedE (unat l)) = Inr m"
    using run pos by (subst (asm) bit_extract_node.simps) (auto simp: rbind_eq_Inr u32_try_from_u64_def split: if_splits)
  have "uint x = take_bit (unat l) (drop_bit (unat s) (uint v))"
    using x(1) dev by (auto simp: bit_extract_def u64_shr_def checked_eq_Inr rbind_eq_Inr u32_try_from_u64_def uint_and_mask
        intro!: bit_eqI simp: bit_simps bit_uint_iff split: if_splits)
  then show ?thesis
    using constant_node_means [OF x(2), of \<rho>] constant_node_exact [OF x(2)] fits(2) den_exact [OF extract_okD(3) [OF n] Some, of \<rho>]
    by (simp add: field_of_def means_def)
qed

lemma extract_field:
  assumes dev: "overflow_checks E" and "bit_extract_node E n start len = Inr m" and "extract_ok n"
    and "constant_value start = Some s" "constant_value len = Some l" "exact start"
    and "unat s + unat l \<le> tw (node_typ n)" "unat l \<le> 64" "0 < unat l" "unat s < 64"
  shows "field_of \<rho> n (unat s) (unat l) m"
  using assms(2-)
proof (induction n arbitrary: start len s l m rule: measure_induct_rule [of size])
  case (less n)
  show ?case
  proof (cases "\<exists>target source st ln. node_kind n = BitInsertN target source st ln")
    case False
    then show ?thesis using extract_plain_field [OF dev less.prems] by blast
  next
    case True
    then obtain target source st ln where k: "node_kind n = BitInsertN target source st ln" by blast
    have nc: "constant_value n = None" using k by (cases n) (simp add: constant_value_def)
    obtain a b where c: "constant_value st = Some a" "constant_value ln = Some b"
      using less.prems(1,3,4) k nc by (subst (asm) bit_extract_node.simps) (auto split: option.splits)
    note D = den_insert_field [OF less.prems(2) k c]
    note sm = insert_parts_smaller [OF k]
    note P = constant_node_position
    from extract_insert_cases [OF less.prems(1) k less.prems(3,4) c dev less.prems(8)] show ?thesis
      unfolding extract_overlap_def
    proof (elim disjE exE conjE)
      assume "s = a" "l = b" "m = source"
      then show ?thesis
        using D(1,5) extract_okD(3) [OF D(3)] den_take_bit [of source \<rho>] insert_fields(2) [of "unat a" "unat a" "unat b" "unat b"]
        by (simp add: field_of_def)
    next
      assume s: "s = 0" "l = a" and cast: "cast_node E target (UnsignedE (unat l)) TruncateK = Inr m"
      note T = extract_okD(1-3) [OF D(2)]
      have "constant_value target \<noteq> None \<Longrightarrow> 0 < tw (node_typ target) \<and> tw (node_typ target) \<le> 64 \<and> unat l \<le> 64"
        using exactD [OF T(3)] less.prems(7) by (auto simp: constant_value_def)
      then have "means \<rho> (UnsignedE (unat l)) (den \<rho> target) m"
        using cast_sound [OF cast, of "tw (node_typ target)" "unat l" \<rho>] extract_ok_width [OF D(2)] D(4) less.prems(6) by simp
      then show ?thesis
        using cast_exact [OF cast T(3) less.prems(7)] D(1) insert_fields(1) [of 0 "unat a" "unat a"] s by (simp add: field_of_def means_def)
    next
      fix first count
      assume r: "constant_node s (SignedE 64) = Inr first" "constant_node l (SignedE 64) = Inr count"
        "unat s + unat l \<le> unat a" "bit_extract_node E target first count = Inr m"
      have "field_of \<rho> target (unat s) (unat l) m"
        using less.IH [OF _ r(4) D(2) P(1) [OF r(1)] P(1) [OF r(2)] P(2) [OF r(1)]] sm D(4) less.prems(6-9) by simp
      then show ?thesis using D(1) insert_fields(1) [OF r(3)] by (simp add: field_of_def)
    next
      fix first count
      assume r: "constant_node (s - a) (SignedE 64) = Inr first" "constant_node l (SignedE 64) = Inr count"
        "unat a \<le> unat s" "unat s + unat l \<le> unat a + unat b" "bit_extract_node E source first count = Inr m"
      have sub: "unat (s - a) = unat s - unat a" using r(3) by (simp add: unat_sub word_le_nat_alt)
      have "field_of \<rho> source (unat (s - a)) (unat l) m"
        using less.IH [OF _ r(5) D(3) P(1) [OF r(1)] P(1) [OF r(2)] P(2) [OF r(1)]] sm D(5) less.prems(7-9) r(3,4) sub by simp
      then show ?thesis using D(1) insert_fields(2) [OF r(3,4)] sub by (simp add: field_of_def)
    next
      fix first a_count x zero b_count y z
      assume o: "unat s < unat a" "unat a < unat s + unat l" "unat s + unat l \<le> unat a + unat b"
        and r: "constant_node s (SignedE 64) = Inr first" "constant_node (a - s) (SignedE 64) = Inr a_count"
        "bit_extract_node E target first a_count = Inr x"
        "constant_node 0 (SignedE 64) = Inr zero" "constant_node (l - (a - s)) (SignedE 64) = Inr b_count"
        "bit_extract_node E source zero b_count = Inr y"
        "cast_node E x (UnsignedE (unat l)) ZeroExtendK = Inr z" "bit_insert_node z y a_count b_count = Inr m"
      have sub: "unat (a - s) = unat a - unat s" "unat (l - (a - s)) = unat s + unat l - unat a"
        using o by (simp_all add: unat_sub word_le_nat_alt less_imp_le)
      have x: "field_of \<rho> target (unat s) (unat a - unat s) x"
        using less.IH [OF _ r(3) D(2) P(1) [OF r(1)] P(1) [OF r(2)] P(2) [OF r(1)]] sm D(4,6) less.prems(7,9) o sub by simp
      have y: "field_of \<rho> source 0 (unat s + unat l - unat a) y"
        using less.IH [OF _ r(6) D(3) P(1) [OF r(4)] P(1) [OF r(5)] P(2) [OF r(4)]] sm D(5) less.prems(7) o sub by simp
      have xt: "node_typ x = UnsignedE (unat a - unat s)" "exact x" "node_typ y = UnsignedE (unat s + unat l - unat a)" "exact y"
        using x y by (auto simp: field_of_def)
      have "constant_value x \<noteq> None \<Longrightarrow> 0 < unat a - unat s \<and> unat a - unat s \<le> 64 \<and> unat l \<le> 64"
        using exactD [OF xt(2)] xt(1) less.prems(7) by (auto simp: constant_value_def)
      then have z: "node_typ z = UnsignedE (unat l)" "den \<rho> z = den \<rho> x"
        using cast_sound [OF r(7), of "unat a - unat s" "unat l" \<rho>] xt(1) o den_take_bit_ge [of x "unat l" \<rho>] by (auto simp: means_def)
      have "exact z" using cast_exact [OF r(7) xt(2) less.prems(7)] xt(1) o by simp
      have "unat (a - s) \<noteq> 0" using sub o by simp
      then have "a - s \<noteq> 0" by (metis unat_0)
      then have "replaces_target z y (a - s) (l - (a - s)) \<noteq> Inr True" by (simp add: replaces_target_def)
      then have "node_typ m = UnsignedE (unat l) \<and> exact m
          \<and> den \<rho> m = ref_insert (den \<rho> z) (den \<rho> y) (unat (a - s)) (unat (l - (a - s)))"
        using insert_sound [OF r(8) P(1) [OF r(2)] P(1) [OF r(5)] P(2) [OF r(2)] P(2) [OF r(5)] z(1) \<open>exact z\<close> xt(4), of \<rho>]
          less.prems(7) o sub by simp
      then show ?thesis
        using x y z(2) sub D(1) insert_straddle [of "unat s" "unat a" "unat l" "unat b" "den \<rho> target" "den \<rho> source"] o
        by (simp add: field_of_def)
    qed
  qed
qed

end
