(* ===== verification/X86_Fold.thy ===== *)
theory X86_Fold
  imports X86_Denote
begin

text \<open>
  What the emitter guarantees of the nodes it builds, under the conditions each theorem names:
  simplification does not change what a binary operation or an extraction denotes, and the sequence of
  nodes emitted for an insertion computes the insertion.  The last section has the two cases in which it does change it.
\<close>

unbundle bit_operations_syntax

section \<open>Binary operations\<close>

text \<open>
  C12: on operands of one signed or unsigned integer type of 1 to 64 bits, not both rational numbers and with
  constants in the range of their type, every simplification of a binary operation denotes what the unsimplified
  node denotes, in every environment.  Powers are left out, and division and remainder are only claimed of
  unsigned types.
\<close>

theorem emitter_binary_sound:
  assumes "integer_operands t l r" and "canonical l" "canonical r" and "op \<noteq> PowIK"
    and "op \<in> {DivideK, ModuloK} \<longrightarrow> t = UnsignedE (tw t)" and "binary_operation E op l r = Inr n"
  shows "den \<rho> n = den \<rho> (X86Node (if is_compare op then UnsignedE 1 else t) (BinaryN op l r))"
proof -
  note D = integer_operandsD [OF assms(1)]
  have same: "same_typed t l r" by (rule integer_same_typed [OF assms(1)])
  show ?thesis
  proof (cases op)
    case DivideK
    then obtain w where t: "t = UnsignedE w" using assms(5) by auto
    show ?thesis
      using divide_sound [OF assms(1) [unfolded t] assms(2,3), of E n \<rho>] DivideK assms(6) D(1,2)
      by (simp add: means_def t is_compare_def ref_binary_def)
  next
    case ModuloK
    then obtain w where t: "t = UnsignedE w" using assms(5) by auto
    show ?thesis
      using modulo_sound [OF assms(1) [unfolded t] assms(2,3), of n \<rho>] ModuloK assms(6) D(1,2)
      by (simp add: means_def t is_compare_def ref_binary_def)
  qed (use assms D(1,2) same add_sound [OF assms(1), of E n \<rho>] sub_sound [OF assms(1), of E n \<rho>]
        multiply_sound [OF assms(1), of E n \<rho>] and_sound [OF same, of n \<rho>] or_sound [OF same, of n \<rho>] xor_sound [OF same, of n \<rho>]
        compare_sound [OF assms(1-3), of op E n \<rho>] in \<open>simp_all add: means_def is_compare_def ref_binary_def take_bit_int_eq_self\<close>)
qed

definition u8_constant :: "u64 \<Rightarrow> node" where
  "u8_constant v = X86Node (UnsignedE 8) (ConstantN v 8)"

definition u8_register :: "u64 \<Rightarrow> node" where
  "u8_register offset = X86Node (UnsignedE 8) (GuestRegisterN offset)"

theorem emitter_binary_sound_witness:
  "\<exists>n. binary_operation sample_env AndK (u8_register 3) (u8_constant 0xff) = Inr n \<and> n = u8_register 3
     \<and> (\<forall>\<rho>. den \<rho> n = den \<rho> (X86Node (UnsignedE 8) (BinaryN AndK (u8_register 3) (u8_constant 0xff))))"
proof -
  have ops: "integer_operands (UnsignedE 8) (u8_register 3) (u8_constant 0xff)"
    by (simp add: integer_operands_def u8_register_def u8_constant_def)
  have canon: "canonical (u8_register 3)" "canonical (u8_constant 0xff)"
    by (simp_all add: canonical_def constant_value_def u8_register_def u8_constant_def)
  have run: "binary_operation sample_env AndK (u8_register 3) (u8_constant 0xff) = Inr (u8_register 3)"
    by (simp add: and_node_def is_no_op_and_def u8_register_def u8_constant_def mask_u64_eq min_def mask_eq_exp_minus_1)
  show ?thesis using run emitter_binary_sound [OF ops canon _ _ run] by (simp add: is_compare_def)
qed

section \<open>Extraction\<close>

text \<open>
  C28: extracting a field of known position inside a value of up to 128 bits, of one to 64 bits and starting below bit 64, gives a node
  of the field's width that denotes the field, whether the emitter folds constants, looks through zero
  extensions, reads part of a guest register, or resolves the extraction against earlier
  insertions, across the boundary between the inserted and the original part.  Arithmetic is
  checked, the nodes are unsigned, of at most 64 bits if they are binary operations, with constants that fit their types,
  and a source inserted at a known place has exactly the inserted length as its width and lies inside the target.
\<close>

theorem emitter_extract_sound:
  assumes "overflow_checks E" and "extract_ok n" and "constant_value start = Some s" "constant_value len = Some l" "exact start"
    and "unat s + unat l \<le> tw (node_typ n)" "unat l \<le> 64" "0 < unat l" "unat s < 64"
    and "bit_extract_node E n start len = Inr m"
  shows "node_typ m = UnsignedE (unat l) \<and> den \<rho> m = take_bit (unat l) (drop_bit (unat s) (den \<rho> n))"
  using extract_field [OF assms(1,10,2-9), of \<rho>] by (simp add: field_of_def)

definition position :: "u64 \<Rightarrow> node" where
  "position v = X86Node (SignedE 64) (ConstantN v 64)"

definition sample_concat :: node where
  "sample_concat = X86Node (UnsignedE 16)
     (BitInsertN (X86Node (UnsignedE 16) (GuestRegisterN 0)) (u8_register 8) (position 8) (position 8))"

theorem emitter_extract_sound_witness:
  "\<exists>m. bit_extract_node sample_env sample_concat (position 8) (position 8) = Inr m \<and> m = u8_register 8
     \<and> (\<forall>\<rho>. den \<rho> m = take_bit 8 (drop_bit 8 (den \<rho> sample_concat)))"
proof -
  have ok: "extract_ok sample_concat"
    by (simp add: sample_concat_def u8_register_def position_def exact_def constant_value_def)
  have pos: "constant_value (position 8) = Some 8" "exact (position 8)"
    by (simp_all add: position_def constant_value_def exact_def)
  have run: "bit_extract_node sample_env sample_concat (position 8) (position 8) = Inr (u8_register 8)"
    by (subst bit_extract_node.simps) (simp add: sample_concat_def position_def constant_value_def)
  show ?thesis using run emitter_extract_sound [OF sample_env_checks ok pos(1,1,2) _ _ _ _ run] by (simp add: sample_concat_def)
qed

section \<open>Insertion as a sequence of operations\<close>

text \<open>Constants that carry the width of their type.\<close>

definition sized :: "node \<Rightarrow> bool" where
  "sized n \<longleftrightarrow> (case constant_parts n of None \<Rightarrow> True | Some (_, w) \<Rightarrow> w = tw (node_typ n) \<and> w \<le> 64)"

lemma sizedD: "sized n \<Longrightarrow> constant_parts n = Some (v, w) \<Longrightarrow> w = tw (node_typ n) \<and> w \<le> 64"
  by (auto simp: sized_def)

lemma sized_plain [simp]: "constant_parts n = None \<Longrightarrow> sized n"
  by (simp add: sized_def)

lemma sized_constant_node: "constant_node v t = Inr n \<Longrightarrow> tw t \<le> 64 \<Longrightarrow> sized n"
  by (auto simp: constant_node_def rbind_eq_Inr sized_def tw_def split: if_splits)

lemma sized_shift: "shift_node n amount k = Inr m \<Longrightarrow> sized n \<Longrightarrow> tw (node_typ n) \<le> 64 \<Longrightarrow> sized m"
  by (auto simp: shift_node_def rbind_eq_Inr sized_constant_node split: option.splits if_splits)

lemma sized_sub:
  assumes "integer_operands t l r" and run: "sub_node E l r = Inr n" and "sized l"
  shows "sized n"
  using run integer_operandsD(3) [OF assms(1)] assms(3)
  by (subst (asm) sub_node.simps) (auto simp: sized_def split: option.splits)

lemma sized_cast: "cast_node E n t k = Inr m \<Longrightarrow> sized n \<Longrightarrow> tw t \<le> 64 \<Longrightarrow> sized m"
  by (auto simp: cast_node_def rbind_eq_Inr sized_constant_node split: option.splits if_splits)

lemma complement_sound:
  assumes "unary_operation E ComplementK n = Inr m" and "sized n"
  shows "means \<rho> (node_typ n) (NOT (den \<rho> n)) m"
proof (cases "constant_parts n")
  case None
  then show ?thesis using assms(1) by (auto simp: means_def)
next
  case (Some p)
  then obtain v w where c: "constant_parts n = Some (v, w)" by (cases p) auto
  note D = sizedD [OF assms(2) c]
  have "take_bit w (uint (NOT v AND mask_u64 w)) = take_bit w (NOT (take_bit w (uint v)))"
    using D by (intro bit_eqI) (auto simp: bit_simps bit_uint_iff)
  then show ?thesis
    using assms(1) c D den_constant [OF constant_parts_value [OF c], of \<rho>] by (auto simp: means_def)
qed

lemma field_mask_sound:
  assumes run: "field_mask E start len w = Inr m" and "exact start" "exact len" and w: "0 < w" "w \<le> 64"
    and start: "den \<rho> start < 2 ^ count_bits (UnsignedE w)"
    and len: "constant_value len \<noteq> None \<or> den \<rho> len < 2 ^ count_bits (UnsignedE w)"
  shows "means \<rho> (UnsignedE w) (push_bit (nat (den \<rho> start)) (mask (nat (den \<rho> len)))) m \<and> sized m"
proof -
  let ?S = "nat (den \<rho> start)" and ?L = "nat (den \<rho> len)"
  from run obtain one sh k where r: "constant_node 1 (UnsignedE w) = Inr one" "shift_node one len LogicalShiftLeftK = Inr sh"
      "sub_node E sh one = Inr k" "shift_node k start LogicalShiftLeftK = Inr m"
    by (auto simp: field_mask_def rbind_eq_Inr)
  have one: "node_typ one = UnsignedE w" "den \<rho> one = 1" "sized one" "real_parts one = None" "constant_value one \<noteq> None"
    using constant_node_means [OF r(1), of \<rho>] sized_constant_node [OF r(1)] w r(1)
    by (auto simp: means_def take_bit_int_eq_self constant_node_def constant_value_def)
  have lc: "count_ok \<rho> one len" using len one(1,5) by (auto simp: count_ok_def)
  have sh: "node_typ sh = UnsignedE w" "den \<rho> sh = take_bit w (push_bit ?L 1)" "sized sh"
    using shift_left_sound [OF r(2) assms(3) sizedD [OF one(3)] _ lc] sized_shift [OF r(2) one(3)] one w by (auto simp: means_def)
  have ops: "integer_operands (UnsignedE w) sh one" using sh one w by (simp add: integer_operands_def)
  have "take_bit w (take_bit w (push_bit ?L 1) - 1) = take_bit w (mask ?L :: int)"
    by (simp add: take_bit_eq_mod mod_diff_left_eq mask_eq_exp_minus_1 push_bit_eq_mult)
  then have k: "node_typ k = UnsignedE w" "den \<rho> k = take_bit w (mask ?L)" "sized k"
    using sub_sound [OF ops r(3), of \<rho>] sized_sub [OF ops r(3) sh(3)] sh(2) one(2) by (simp_all only: means_def tw_simps)
  have "take_bit w (push_bit ?S (take_bit w (mask ?L))) = take_bit w (push_bit ?S (mask ?L :: int))"
    by (rule bit_eqI) (auto simp: bit_simps)
  moreover have "count_ok \<rho> k start" using start k(1) by (simp add: count_ok_def)
  ultimately show ?thesis
    using shift_left_sound [OF r(4) assms(2) sizedD [OF k(3)], where \<rho> = \<rho>] sized_shift [OF r(4) k(3)] k w by (auto simp: means_def)
qed

lemma masked_insert:
  "take_bit w ((take_bit w (t AND NOT (take_bit w M))) OR take_bit w (take_bit w (push_bit S (take_bit w x)) AND take_bit w M))
     = take_bit w (ref_insert t x S L)" if "M = push_bit S (mask L)" for t x :: int
  unfolding that by (rule bit_eqI) (auto simp: bit_simps ref_insert_bit)

text \<open>
  C29: the masks, shifts and logical operations emitted for an insertion into a value of at most 64
  bits compute the insertion, also where the field reaches past the end of the target.  The start and a
  length that is not a constant may be unknown but are in the range of the processor's shift count, below 32
  for a target of at most 32 bits and below 64 for a wider one; a constant length may be any.
\<close>

theorem bit_insert_64_sound:
  assumes "node_typ target = UnsignedE w" "0 < w" "w \<le> 64" and "exact source" "etype_width (node_typ source) = Inr sw"
    and "exact start" "exact len" and "den \<rho> start < (if w \<le> 32 then 32 else 64)"
    and "constant_value len \<noteq> None \<or> den \<rho> len < (if w \<le> 32 then 32 else 64)"
    and run: "bit_insert_64 E target source start len = Inr n"
  shows "node_typ n = UnsignedE w
    \<and> den \<rho> n = take_bit w (ref_insert (den \<rho> target) (den \<rho> source) (nat (den \<rho> start)) (nat (den \<rho> len)))"
proof -
  let ?S = "nat (den \<rho> start)" and ?L = "nat (den \<rho> len)"
  obtain m i c x sx ms where r: "field_mask E start len w = Inr m" "unary_operation E ComplementK m = Inr i"
      "and_node target i = Inr c" "cast_node E source (UnsignedE w) ZeroExtendK = Inr x"
      "shift_node x start LogicalShiftLeftK = Inr sx" "and_node sx m = Inr ms" "or_node c ms = Inr n"
    using run assms(1) by (auto simp: bit_insert_64_def rbind_eq_Inr)
  have bits: "(2::int) ^ count_bits (UnsignedE w) = (if w \<le> 32 then 32 else 64)" by (simp add: count_bits_def)
  have m: "node_typ m = UnsignedE w" "den \<rho> m = take_bit w (push_bit ?S (mask ?L))" "sized m"
    using field_mask_sound [OF r(1) assms(6,7,2,3) assms(8,9) [folded bits]] by (auto simp: means_def)
  have i: "node_typ i = UnsignedE w" "den \<rho> i = take_bit w (NOT (den \<rho> m))"
    using complement_sound [OF r(2) m(3), of \<rho>] m(1) by (auto simp: means_def)
  have c: "node_typ c = UnsignedE w" "den \<rho> c = take_bit w (den \<rho> target AND den \<rho> i)"
    using and_sound [OF _ r(3), of "UnsignedE w" \<rho>] assms(1,3) i(1) by (auto simp: means_def same_typed_def)
  have "constant_value source \<noteq> None \<Longrightarrow> 0 < sw \<and> sw \<le> 64 \<and> w \<le> 64"
    using exactD [OF assms(4)] etype_width_Inr [OF assms(5)] assms(3) by (auto simp: constant_value_def)
  then have x: "node_typ x = UnsignedE w" "den \<rho> x = take_bit w (den \<rho> source)"
    using cast_sound [OF r(4) assms(5), of w \<rho>] by (auto simp: means_def)
  have "sized source" using exactD [OF assms(4)] by (auto simp: sized_def split: option.splits)
  then have "sized x" using sized_cast [OF r(4)] assms(3) by simp
  moreover have "count_ok \<rho> x start" using assms(8) x(1) bits by (simp add: count_ok_def)
  ultimately have sx: "node_typ sx = UnsignedE w" "den \<rho> sx = take_bit w (push_bit ?S (den \<rho> x))"
    using shift_left_sound [OF r(5) assms(6) sizedD, where \<rho> = \<rho>] x(1) assms(3) by (auto simp: means_def)
  have ms: "node_typ ms = UnsignedE w" "den \<rho> ms = take_bit w (den \<rho> sx AND den \<rho> m)"
    using and_sound [OF _ r(6), of "UnsignedE w" \<rho>] assms(3) sx(1) m(1) by (auto simp: means_def same_typed_def)
  have n: "node_typ n = UnsignedE w" "den \<rho> n = take_bit w (den \<rho> c OR den \<rho> ms)"
    using or_sound [OF _ r(7), of "UnsignedE w" \<rho>] assms(3) c(1) ms(1) by (auto simp: means_def same_typed_def)
  have "take_bit w (den \<rho> target AND den \<rho> i) = take_bit w (den \<rho> target AND NOT (den \<rho> m))"
    unfolding i(2) by (rule bit_eqI) (auto simp: bit_simps)
  then show ?thesis
    using n masked_insert [OF refl, of w "den \<rho> target" ?S ?L "den \<rho> source"] unfolding c(2) ms(2) sx(2) x(2) m(2) by simp
qed

theorem bit_insert_64_sound_witness:
  "\<exists>n. bit_insert_64 sample_env (u8_register 0) (u8_register 1) (position 4) (position 4) = Inr n
     \<and> (\<forall>\<rho>. den \<rho> n = take_bit 8 (ref_insert (den \<rho> (u8_register 0)) (den \<rho> (u8_register 1)) 4 4))"
proof -
  have pos: "exact (position 4)" "\<And>\<rho>. den \<rho> (position 4) = 4" by (simp_all add: position_def exact_def)
  have reg: "exact (u8_register 1)" "etype_width (node_typ (u8_register 1)) = Inr 8" "node_typ (u8_register 0) = UnsignedE 8"
    by (simp_all add: u8_register_def)
  have "\<exists>n. bit_insert_64 sample_env (u8_register 0) (u8_register 1) (position 4) (position 4) = Inr n"
    by (simp add: bit_insert_64_def field_mask_def constant_node_def shift_node_def shift_constant_def constant_value_def position_def
        u8_register_def sub_node.simps u32_try_from_u64_def and_node_def is_no_op_and_def cast_node_def or_node_def mask_u64_eq min_def)
  then obtain n where run: "bit_insert_64 sample_env (u8_register 0) (u8_register 1) (position 4) (position 4) = Inr n" by blast
  show ?thesis using run bit_insert_64_sound [OF reg(3) _ _ reg(1,2) pos(1,1) _ _ run] pos(2) by auto
qed

section \<open>Where simplification changes the value\<close>

text \<open>
  Inserting four bits at the start of an eight-bit value returns the inserted value alone,
  because the three widths are compared after rounding them to a host width: the upper half of
  the target is lost.
\<close>

theorem bit_insert_drops_target:
  "bit_insert_node (u8_register 0) (X86Node (UnsignedE 4) (GuestRegisterN 1)) (position 0) (position 4)
     = Inr (X86Node (UnsignedE 4) (GuestRegisterN 1))
   \<and> (\<exists>\<rho>. den \<rho> (X86Node (UnsignedE 4) (GuestRegisterN 1)) = 5
        \<and> den \<rho> (X86Node (UnsignedE 8)
             (BitInsertN (u8_register 0) (X86Node (UnsignedE 4) (GuestRegisterN 1)) (position 0) (position 4))) = 0xf5)"
proof
  show "bit_insert_node (u8_register 0) (X86Node (UnsignedE 4) (GuestRegisterN 1)) (position 0) (position 4)
     = Inr (X86Node (UnsignedE 4) (GuestRegisterN 1))"
    by (simp add: bit_insert_node_def constant_value_def position_def u8_register_def replaces_target_def canonical_width_def
        from_uncanonicalized_def)
  let ?\<rho> = "\<lparr>guest_byte = (\<lambda>i. if i = 0 then 0xf0 else 0x05), opaque = (\<lambda>_ _. 0)\<rparr>"
  have "guest_bits ?\<rho> 0 8 = 0xf0" "guest_bits ?\<rho> 1 4 = 5"
    by (simp_all add: guest_bits_def upt_conv_Cons horner_sum_simps)
  then show "\<exists>\<rho>. den \<rho> (X86Node (UnsignedE 4) (GuestRegisterN 1)) = 5
        \<and> den \<rho> (X86Node (UnsignedE 8)
             (BitInsertN (u8_register 0) (X86Node (UnsignedE 4) (GuestRegisterN 1)) (position 0) (position 4))) = 0xf5"
    by (intro exI [of _ ?\<rho>]) (simp add: u8_register_def position_def ref_insert_def mask_eq_exp_minus_1)
qed

text \<open>
  Constants are added in 64 bits whatever their width, and compared with all their bits: at
  eight bits 255 + 1 is built as 256, and comparing it with 0 gives false although both denote 0.
\<close>

theorem constant_add_then_compare:
  "\<exists>sum n. binary_operation E AddK (u8_constant 255) (u8_constant 1) = Inr sum
     \<and> binary_operation E CompareEqualK sum (u8_constant 0) = Inr n
     \<and> den \<rho> n = 0 \<and> den \<rho> (X86Node (UnsignedE 1) (BinaryN CompareEqualK sum (u8_constant 0))) = 1"
  by (simp add: add_node.simps emit_compare.simps u8_constant_def ref_binary_def ref_compare_def cmp_def)

end
