(* ===== verification/Interpreter_Facts.thy ===== *)
theory Interpreter_Facts
  imports Refinement
begin

text \<open>
  What the interpreter promises of its own: the fuel of the model is only a bound, the flags of
  an add-with-carry decide comparisons, and registers give back what was written.
\<close>

unbundle bit_operations_syntax

section \<open>Fuel\<close>

text \<open>
  The fuel only bounds the run: a call that ends with some fuel, in a value or in a panic,
  ends the same way with any larger amount.
\<close>

theorem interpret_fuel_independent:
  assumes "interpret_fn n E m f args rf = r" and "r \<noteq> Inl OutOfFuel" and "n \<le> n'"
  shows "interpret_fn n' E m f args rf = r"
  using fuel_mono(1) [OF assms(3), of E m f args rf] assms(1,2) by (auto simp: res_le_def)

definition sample_return :: rfunction where
  "sample_return =
     \<lparr>return_type = None, parameters = [], fn_name = ''seven'', local_variables = [],
      block_arena = [\<lparr>statement_arena = [Constant (UnsignedInteger 7 8), Return (Some 0)], statements = [0, 1]\<rparr>],
      entry_block = 0\<rparr>"

theorem interpret_fuel_independent_witness:
  "interpret_fn 2 sample_env (model_new [(''seven'', sample_return)] []) ''seven'' [] sample_rf
     = Inr (Some (UnsignedIntegerV 7 8), sample_rf)
   \<and> interpret_fn 1000 sample_env (model_new [(''seven'', sample_return)] []) ''seven'' [] sample_rf
     = Inr (Some (UnsignedIntegerV 7 8), sample_rf)"
proof -
  have run: "interpret_fn 2 sample_env (model_new [(''seven'', sample_return)] []) ''seven'' [] sample_rf
     = Inr (Some (UnsignedIntegerV 7 8), sample_rf)"
    by (simp add: numeral_2_eq_2 interpret_fn_Suc run_blocks_Suc model_new_def sample_return_def step_block_def
        arena_get_def exec_block_def exec_statement_def eval_value_def is_read_statement_def eval_read_def Let_def
        interpreter_new_def bind_value_def resolve_def)
  then show ?thesis using interpret_fuel_independent [OF run, of 1000] by simp
qed

section \<open>Flags\<close>

definition nzcv :: "nat \<Rightarrow> bool \<times> bool \<times> bool \<times> bool" where
  "nzcv f = (odd (f div 8), odd (f div 4), odd (f div 2), odd f)"

lemma nzcv_packed:
  "nzcv (8 * of_bool n + 4 * of_bool z + 2 * of_bool c + of_bool v) = (n, z, c, v)"
  by (cases n; cases z; cases c; cases v) (simp_all add: nzcv_def)

lemma sint_of_int_word: "sint (word_of_int x :: 64 word) = x \<longleftrightarrow> - (2 ^ 63) \<le> x \<and> x < 2 ^ 63"
proof -
  have "sint (word_of_int x :: 64 word) = signed_take_bit 63 x" by (simp add: signed_of_int)
  then show ?thesis
    by (simp add: signed_take_bit_int_eq_self_iff)
qed

lemma uint_of_int_word: "uint (word_of_int x :: 64 word) = x \<longleftrightarrow> 0 \<le> x \<and> x < 2 ^ 64"
  by (simp add: unsigned_of_int take_bit_int_eq_self_iff)

lemma bit_63_sint: "bit (x :: 64 word) 63 \<longleftrightarrow> sint x < 0"
  using bit_last_iff [of x] by simp

lemma add_with_carry_eq:
  "add_with_carry a b c =
     (a + b + c, 8 * of_bool (sint (a + b + c) < 0) + 4 * of_bool (a + b + c = 0)
        + 2 * of_bool (2 ^ 64 \<le> uint a + uint b + uint c)
        + of_bool (sint a + sint b + sint c \<notin> {- (2 ^ 63)..<2 ^ 63}))"
proof -
  have u: "word_of_int (uint a + uint b + uint c) = a + b + c" and s: "word_of_int (sint a + sint b + sint c) = a + b + c"
    by simp_all
  have "uint a + uint b + uint c \<ge> 0" by simp
  then have carry: "uint (a + b + c) \<noteq> uint a + uint b + uint c \<longleftrightarrow> 2 ^ 64 \<le> uint a + uint b + uint c"
    using uint_of_int_word [of "uint a + uint b + uint c", unfolded u] by linarith
  have over: "sint (a + b + c) \<noteq> sint a + sint b + sint c \<longleftrightarrow> sint a + sint b + sint c \<notin> {- (2 ^ 63)..<2 ^ 63}"
    using sint_of_int_word [of "sint a + sint b + sint c", unfolded s] by auto
  show ?thesis
    unfolding add_with_carry_def Let_def u carry over bit_63_sint by simp
qed

lemma sint_diff_sign:
  "(sint (a - b :: 64 word) < 0) \<noteq> (sint a - sint b \<notin> {- (2 ^ 63)..<2 ^ 63}) \<longleftrightarrow> sint a < sint b"
proof -
  have w: "word_of_int (sint a - sint b) = a - b" by simp
  have r: "- (2 ^ 63) \<le> sint a" "sint a < 2 ^ 63" "- (2 ^ 63) \<le> sint b" "sint b < 2 ^ 63"
    using sint_ge [of a] sint_lt [of a] sint_ge [of b] sint_lt [of b] by simp_all
  consider "sint a - sint b \<in> {- (2 ^ 63)..<2 ^ 63}" | "2 ^ 63 \<le> sint a - sint b" | "sint a - sint b < - (2 ^ 63)"
    by fastforce
  then show ?thesis
  proof cases
    case 1
    then have "sint (a - b) = sint a - sint b"
      using sint_of_int_word [of "sint a - sint b", unfolded w] by simp
    then show ?thesis using 1 by auto
  next
    case 2
    have w2: "word_of_int (sint a - sint b - 2 ^ 64) = a - b" by (simp add: w)
    have "sint (a - b) = sint a - sint b - 2 ^ 64"
      using sint_of_int_word [of "sint a - sint b - 2 ^ 64", unfolded w2] 2 r by simp
    then show ?thesis using 2 r by auto
  next
    case 3
    have w2: "word_of_int (sint a - sint b + 2 ^ 64) = a - b" by (simp add: w)
    have "sint (a - b) = sint a - sint b + 2 ^ 64"
      using sint_of_int_word [of "sint a - sint b + 2 ^ 64", unfolded w2] 3 r by simp
    then show ?thesis using 3 r by auto
  qed
qed

text \<open>
  Add-with-carry returns the sum modulo 2^64 with the Arm flags: negative, zero, carry when
  the unsigned sum does not fit, overflow when the signed one does not; so adding the complement
  with carry in gives the difference and flags that decide every comparison of the two operands.
\<close>

theorem add_with_carry_flags:
  "fst (add_with_carry a b c) = a + b + c
   \<and> snd (add_with_carry a b c) < 16
   \<and> nzcv (snd (add_with_carry a b c)) =
       (sint (a + b + c) < 0, a + b + c = 0, 2 ^ 64 \<le> uint a + uint b + uint c,
        sint a + sint b + sint c \<notin> {- (2 ^ 63)..<2 ^ 63})
   \<and> fst (add_with_carry a (NOT b) 1) = a - b
   \<and> (case nzcv (snd (add_with_carry a (NOT b) 1)) of (n, z, c, v) \<Rightarrow>
        (z \<longleftrightarrow> a = b) \<and> (c \<longleftrightarrow> b \<le> a) \<and> (n \<noteq> v \<longleftrightarrow> sint a < sint b))"
proof (intro conjI)
  have not: "a + NOT b + 1 = a - b" by (simp add: not_eq_complement algebra_simps)
  have "(18446744073709551615 :: 64 word) = - 1" by simp
  then have nb: "word_of_int (2 ^ 64 - 1 - uint b) = NOT b" by (simp add: not_eq_complement)
  have "uint b \<ge> 0" "uint b < 2 ^ 64" using uint_lt2p [of b] by simp_all
  then have "uint (NOT b) = 2 ^ 64 - 1 - uint b"
    using uint_of_int_word [of "2 ^ 64 - 1 - uint b", unfolded nb] by linarith
  then have carry: "2 ^ 64 \<le> uint a + uint (NOT b) + uint (1 :: 64 word) \<longleftrightarrow> b \<le> a" by (simp add: word_le_def)
  have ns: "word_of_int (- 1 - sint b) = NOT b" by (simp add: not_eq_complement)
  have "sint (NOT b) = - 1 - sint b"
    using sint_of_int_word [of "- 1 - sint b", unfolded ns] sint_ge [of b] sint_lt [of b] by simp
  then have over: "sint a + sint (NOT b) + sint (1 :: 64 word) = sint a - sint b" by simp
  show "fst (add_with_carry a b c) = a + b + c" "snd (add_with_carry a b c) < 16"
    by (simp_all add: add_with_carry_eq of_bool_def)
  show "nzcv (snd (add_with_carry a b c)) =
       (sint (a + b + c) < 0, a + b + c = 0, 2 ^ 64 \<le> uint a + uint b + uint c,
        sint a + sint b + sint c \<notin> {- (2 ^ 63)..<2 ^ 63})"
    unfolding add_with_carry_eq snd_conv by (rule nzcv_packed)
  show "fst (add_with_carry a (NOT b) 1) = a - b" by (simp only: add_with_carry_eq fst_conv not)
  show "case nzcv (snd (add_with_carry a (NOT b) 1)) of (n, z, c, v) \<Rightarrow>
        (z \<longleftrightarrow> a = b) \<and> (c \<longleftrightarrow> b \<le> a) \<and> (n \<noteq> v \<longleftrightarrow> sint a < sint b)"
    unfolding add_with_carry_eq snd_conv nzcv_packed prod.case not carry over using sint_diff_sign by simp
qed

section \<open>Registers\<close>

lemma write_sized_load:
  assumes "write_sized E rf v w off = Inr rf'" and "1 \<le> w" and "w \<le> 64" and "off < 2 ^ 64"
  shows "read_sized E rf' w off = Inr v"
proof -
  have round: "rf_bytes.load_int E rf' off n = Inr (unat v)"
    if "write_raw E rf off (le_bytes n (unat v)) = Inr rf'" "unat v < 256 ^ n" "n < 2 ^ 64" for n
    using rf_bytes.load_int_stored [OF assms(4) that(3,1,2)] .
  have "unat v < 256 ^ 8" using unsigned_less [of v, where ?'a = nat] by simp
  then show ?thesis
    using assms(1-3) round [of 1] round [of 2] round [of 4] round [of 8]
    unfolding write_sized_def read_sized_def Let_def rf_bytes.load_int_def [symmetric]
    by (auto split: if_splits)
qed

text \<open>
  An unsigned value that fits its width, written to a register of at most 64 bits, is read
  back as it was; a signed one comes back with its bits below the width and zeros above.
\<close>

theorem register_value_round_trip:
  assumes "1 \<le> w" and "w \<le> 64" and "off < 2 ^ 64"
  shows "(write_register E rf (UnsignedIntegerV v w) off = Inr rf' \<and> (w = 64 \<or> unat v < 2 ^ w)
        \<longrightarrow> read_register E rf' (Primitive (UnsignedIntegerT w)) off = Inr (UnsignedIntegerV v w))
    \<and> (write_register E rf (SignedIntegerV v w) off = Inr rf'
        \<longrightarrow> read_register E rf' (Primitive (SignedIntegerT w)) off = Inr (SignedIntegerV (v AND mask_u64 w) w))"
proof (intro conjI impI)
  show "read_register E rf' (Primitive (UnsignedIntegerT w)) off = Inr (UnsignedIntegerV v w)"
    if "write_register E rf (UnsignedIntegerV v w) off = Inr rf' \<and> (w = 64 \<or> unat v < 2 ^ w)"
    using write_sized_load [OF _ assms] that and_mask_u64_id_iff [of v w] by auto
  show "read_register E rf' (Primitive (SignedIntegerT w)) off = Inr (SignedIntegerV (v AND mask_u64 w) w)"
    if "write_register E rf (SignedIntegerV v w) off = Inr rf'"
    using write_sized_load [OF _ assms] that by simp
qed

theorem register_value_round_trip_witness:
  "\<exists>rf'. write_register sample_env sample_rf (SignedIntegerV (- 1) 8) 8 = Inr rf'
     \<and> read_register sample_env rf' (Primitive (SignedIntegerT 8)) 8 = Inr (SignedIntegerV 255 8)
     \<and> SignedIntegerV 255 8 \<noteq> SignedIntegerV (- 1) 8"
proof -
  obtain rf' where w: "write_register sample_env sample_rf (SignedIntegerV (- 1) 8) 8 = Inr rf'"
    by (simp add: write_sized_def write_raw_def validate_range_def sample_rf_def binary_search_def
        bs_narrow.simps Let_def usize_add_def mask_u64_eq mask_numeral)
  have "read_register sample_env rf' (Primitive (SignedIntegerT 8)) 8 = Inr (SignedIntegerV (- 1 AND mask_u64 8) 8)"
    using register_value_round_trip [of 8 8 sample_env sample_rf "- 1" rf'] w by simp
  moreover have "- 1 AND mask_u64 8 = 255" by (simp add: mask_u64_eq mask_numeral)
  ultimately show ?thesis using w by simp
qed
end
