(* ===== verification/Ring_Buffer.thy ===== *)
theory Ring_Buffer
  imports Bytes
begin

text \<open>
  The ring buffer that host and guest share, \<open>common/src/ringbuffer.rs\<close>.  Its memory is a header
  of three little-endian counters and a byte buffer; producer and consumer map the same memory.
  \<open>head\<close> and \<open>tail\<close> only grow and are reduced modulo the capacity on use.  The locale
  \<open>byte_fifo\<close> is what either end may rely on: bytes come out in the order they went in.
\<close>

section \<open>Memory\<close>

definition patch :: "'a list \<Rightarrow> nat \<Rightarrow> 'a list \<Rightarrow> 'a list" where
  "patch xs off bs = take off xs @ bs @ drop (off + length bs) xs"

record ring_buffer =
  header :: "u8 list"
  buffer :: "u8 list"

definition HEADER_SIZE :: nat where "HEADER_SIZE = 24"

definition read_header_field :: "ring_buffer \<Rightarrow> nat \<Rightarrow> nat" where
  "read_header_field rb offset = from_le (take 8 (drop offset (header rb)))"

definition write_header_field :: "ring_buffer \<Rightarrow> nat \<Rightarrow> nat \<Rightarrow> ring_buffer" where
  "write_header_field rb offset value = rb\<lparr>header := patch (header rb) offset (le_bytes 8 value)\<rparr>"

definition ring_capacity :: "ring_buffer \<Rightarrow> nat" where "ring_capacity rb = read_header_field rb 0"
definition ring_head :: "ring_buffer \<Rightarrow> nat" where "ring_head rb = read_header_field rb 8"
definition ring_tail :: "ring_buffer \<Rightarrow> nat" where "ring_tail rb = read_header_field rb 16"

definition set_capacity :: "ring_buffer \<Rightarrow> nat \<Rightarrow> ring_buffer" where
  "set_capacity rb value = write_header_field rb 0 value"

definition set_head :: "ring_buffer \<Rightarrow> nat \<Rightarrow> ring_buffer" where
  "set_head rb value = write_header_field rb 8 value"

definition set_tail :: "ring_buffer \<Rightarrow> nat \<Rightarrow> ring_buffer" where
  "set_tail rb value = write_header_field rb 16 value"

definition ring_open :: "u8 list \<Rightarrow> ring_buffer res" where
  "ring_open mem =
     (if HEADER_SIZE \<le> length mem
      then Inr \<lparr>header = take HEADER_SIZE mem, buffer = drop HEADER_SIZE mem\<rparr>
      else Inl ExplicitPanic)"

definition ring_init :: "u8 list \<Rightarrow> ring_buffer res" where
  "ring_init mem =
     rbind (ring_open mem) (\<lambda>rb. Inr (set_tail (set_head (set_capacity rb (length (buffer rb))) 0) 0))"

section \<open>Producer\<close>

text \<open>
  The two free regions of the buffer as (start, length): from the head on, and what is left of it
  at the start of the buffer.
\<close>

definition free_regions :: "nat \<Rightarrow> nat \<Rightarrow> nat \<Rightarrow> ((nat \<times> nat) \<times> (nat \<times> nat)) res" where
  "free_regions len head_wrapped tail_wrapped =
     (if len < tail_wrapped then Inl ExplicitPanic
      else if tail_wrapped \<le> head_wrapped then
        if len < head_wrapped then Inl IndexOutOfBounds
        else Inr ((head_wrapped, len - head_wrapped), (0, tail_wrapped))
      else Inr ((head_wrapped, tail_wrapped - head_wrapped), (0, 0)))"

definition ring_write :: "rust_env \<Rightarrow> ring_buffer \<Rightarrow> u8 list \<Rightarrow> (ring_buffer \<times> nat) res" where
  "ring_write E rb data =
     (let head = ring_head rb; tail = ring_tail rb; capacity = ring_capacity rb in
      if capacity < length data then Inl ExplicitPanic
      else if capacity = 0 then Inl DivideByZero
      else
        rbind (free_regions (length (buffer rb)) (head mod capacity) (tail mod capacity)) (\<lambda>((a, a_len), (b, b_len)).
        let total = min (a_len + b_len) (length data);
            first_write = min a_len (length data);
            buf = patch (buffer rb) a (take first_write data);
            buf = (if first_write < total then patch buf b (take (total - first_write) (drop first_write data)) else buf)
        in rbind (usize_add E head total) (\<lambda>h. Inr (set_head (rb\<lparr>buffer := buf\<rparr>) h, total))))"

section \<open>Consumer\<close>

datatype maybe_split_buffer = Single "u8 list" | Split "u8 list" "u8 list"

fun split_len :: "maybe_split_buffer \<Rightarrow> nat" where
  "split_len (Single buf) = length buf"
| "split_len (Split a b) = length a + length b"

definition slice :: "'a list \<Rightarrow> nat \<Rightarrow> nat \<Rightarrow> 'a list res" where
  "slice xs i j = (if i \<le> j \<and> j \<le> length xs then Inr (take (j - i) (drop i xs)) else Inl IndexOutOfBounds)"

definition readable :: "u8 list \<Rightarrow> nat \<Rightarrow> nat \<Rightarrow> nat \<Rightarrow> maybe_split_buffer res" where
  "readable buf capacity head_wrapped tail_wrapped =
     (case cmp head_wrapped tail_wrapped of
        Equal \<Rightarrow> Inl Unreachable
      | Greater \<Rightarrow> rbind (slice buf tail_wrapped head_wrapped) (\<lambda>a. Inr (Single a))
      | Less \<Rightarrow>
          rbind (slice buf tail_wrapped capacity) (\<lambda>a. rbind (slice buf 0 head_wrapped) (\<lambda>b. Inr (Split a b))))"

text \<open>The closure gets the readable bytes and says how many it took; the buffer it saw is returned too.\<close>

definition ring_read ::
  "rust_env \<Rightarrow> ring_buffer \<Rightarrow> (maybe_split_buffer \<Rightarrow> nat) \<Rightarrow> (ring_buffer \<times> maybe_split_buffer option) res" where
  "ring_read E rb f =
     (let head = ring_head rb; tail = ring_tail rb; capacity = ring_capacity rb in
      if head = tail then Inr (rb, None)
      else if capacity = 0 then Inl DivideByZero
      else
        rbind (readable (buffer rb) capacity (head mod capacity) (tail mod capacity)) (\<lambda>buf.
        rbind (usize_add E (f buf) tail) (\<lambda>t. Inr (set_tail rb t, Some buf))))"

section \<open>Header fields\<close>

lemma length_patch [simp]: "off + length bs \<le> length xs \<Longrightarrow> length (patch xs off bs) = length xs"
  by (simp add: patch_def)

lemma slice_patch_same: "off + length bs \<le> length xs \<Longrightarrow> take (length bs) (drop off (patch xs off bs)) = bs"
  by (simp add: patch_def)

lemma slice_patch_other:
  assumes "off + length bs \<le> length xs" and "off' + n \<le> off \<or> off + length bs \<le> off'"
  shows "take n (drop off' (patch xs off bs)) = take n (drop off' xs)"
proof (cases "off' + n \<le> off")
  case True
  then show ?thesis using assms(1) by (simp add: patch_def min_def take_drop)
next
  case False
  with assms(2) have le: "off + length bs \<le> off'" by simp
  have "drop off' (patch xs off bs) = drop (off' - (off + length bs)) (drop (off + length bs) xs)"
    using le assms(1) by (simp add: patch_def)
  with le show ?thesis by simp
qed

lemma nth_patch:
  "off + length bs \<le> length xs \<Longrightarrow> i < length xs
   \<Longrightarrow> patch xs off bs ! i = (if off \<le> i \<and> i < off + length bs then bs ! (i - off) else xs ! i)"
  by (auto simp: patch_def nth_append min_def)

definition header_ok :: "ring_buffer \<Rightarrow> bool" where
  "header_ok rb \<longleftrightarrow> length (header rb) = HEADER_SIZE"

lemma read_write_header_field:
  assumes "header_ok rb" and "i \<in> {0, 8, 16}" and "j \<in> {0, 8, 16}"
  shows "read_header_field (write_header_field rb i v) j = (if i = j then v mod 2 ^ 64 else read_header_field rb j)"
proof (cases "i = j")
  case True
  then show ?thesis
    using assms slice_patch_same [of j "le_bytes 8 v" "header rb"]
    by (simp add: read_header_field_def write_header_field_def header_ok_def HEADER_SIZE_def from_le_bytes) (auto simp: from_le_bytes)
next
  case False
  then show ?thesis
    using assms slice_patch_other [of i "le_bytes 8 v" "header rb" j 8]
    by (auto simp: read_header_field_def write_header_field_def header_ok_def HEADER_SIZE_def)
qed

lemma header_ok_write [simp]: "header_ok rb \<Longrightarrow> i \<in> {0, 8, 16} \<Longrightarrow> header_ok (write_header_field rb i v)"
  by (auto simp: header_ok_def write_header_field_def HEADER_SIZE_def patch_def)

lemma header_fields [simp]:
  "header_ok rb \<Longrightarrow> ring_head (set_head rb v) = v mod 2 ^ 64"
  "header_ok rb \<Longrightarrow> ring_tail (set_head rb v) = ring_tail rb"
  "header_ok rb \<Longrightarrow> ring_capacity (set_head rb v) = ring_capacity rb"
  "header_ok rb \<Longrightarrow> ring_tail (set_tail rb v) = v mod 2 ^ 64"
  "header_ok rb \<Longrightarrow> ring_head (set_tail rb v) = ring_head rb"
  "header_ok rb \<Longrightarrow> ring_capacity (set_tail rb v) = ring_capacity rb"
  "header_ok rb \<Longrightarrow> ring_capacity (set_capacity rb v) = v mod 2 ^ 64"
  by (simp_all add: ring_head_def ring_tail_def ring_capacity_def set_head_def set_tail_def set_capacity_def
      read_write_header_field)

lemma header_ok_set [simp]:
  "header_ok rb \<Longrightarrow> header_ok (set_head rb v)" "header_ok rb \<Longrightarrow> header_ok (set_tail rb v)"
  "header_ok rb \<Longrightarrow> header_ok (set_capacity rb v)"
  by (simp_all add: set_head_def set_tail_def set_capacity_def)

lemma buffer_set [simp]:
  "buffer (set_head rb v) = buffer rb" "buffer (set_tail rb v) = buffer rb" "buffer (set_capacity rb v) = buffer rb"
  by (simp_all add: set_head_def set_tail_def set_capacity_def write_header_field_def)

lemma header_of_buffer [simp]:
  "header_ok (rb\<lparr>buffer := b\<rparr>) = header_ok rb" "ring_head (rb\<lparr>buffer := b\<rparr>) = ring_head rb"
  "ring_tail (rb\<lparr>buffer := b\<rparr>) = ring_tail rb" "ring_capacity (rb\<lparr>buffer := b\<rparr>) = ring_capacity rb"
  by (simp_all add: header_ok_def ring_head_def ring_tail_def ring_capacity_def read_header_field_def)


section \<open>The queue of bytes\<close>

definition contents :: "ring_buffer \<Rightarrow> u8 list" where
  "contents rb = map (\<lambda>i. buffer rb ! ((ring_tail rb + i) mod ring_capacity rb)) [0..<ring_head rb - ring_tail rb]"

text \<open>
  The states the protocol works in.  The buffer is never completely full: the two counters would
  then be congruent, which the code takes for empty when writing and for impossible when reading.
\<close>

definition ring_valid :: "ring_buffer \<Rightarrow> bool" where
  "ring_valid rb \<longleftrightarrow> header_ok rb \<and> ring_capacity rb = length (buffer rb)
     \<and> ring_tail rb \<le> ring_head rb \<and> ring_head rb - ring_tail rb < ring_capacity rb"

definition ring_room :: "ring_buffer \<Rightarrow> nat \<Rightarrow> bool" where
  "ring_room rb n \<longleftrightarrow> length (contents rb) + n < ring_capacity rb \<and> ring_head rb + n < 2 ^ 64"

fun joined :: "maybe_split_buffer \<Rightarrow> u8 list" where
  "joined (Single a) = a"
| "joined (Split a b) = a @ b"

lemma length_contents [simp]: "length (contents rb) = ring_head rb - ring_tail rb"
  by (simp add: contents_def)

lemma header_field_less: "read_header_field rb i < 2 ^ 64"
proof -
  have "length (take 8 (drop i (header rb))) \<le> 8" by simp
  then have "256 ^ length (take 8 (drop i (header rb))) \<le> (256 :: nat) ^ 8" by (rule power_increasing) simp
  then show ?thesis
    using from_le_less [of "take 8 (drop i (header rb))"] by (simp add: read_header_field_def)
qed

lemma ring_init_valid:
  assumes "ring_init mem = Inr rb" and "HEADER_SIZE < length mem" and "length mem < 2 ^ 64"
  shows "ring_valid rb \<and> contents rb = [] \<and> ring_capacity rb = length mem - HEADER_SIZE"
proof -
  have "header_ok \<lparr>header = take HEADER_SIZE mem, buffer = drop HEADER_SIZE mem\<rparr>"
    using assms(2) by (simp add: header_ok_def)
  moreover have "(length mem - HEADER_SIZE) mod 2 ^ 64 = length mem - HEADER_SIZE" using assms(3) by simp
  ultimately show ?thesis
    using assms by (auto simp: ring_init_def ring_open_def ring_valid_def contents_def)
qed

text \<open>The distance from the head to a position of the buffer, going round.\<close>

lemma mod_once: "(x :: nat) < 2 * c \<Longrightarrow> x mod c = (if x < c then x else x - c)"
  by (simp add: le_mod_geq not_less)

lemma add_mod_once: "k < c \<Longrightarrow> (t + k) mod c = (if t mod c + k < c then t mod c + k else t mod c + k - (c :: nat))"
proof -
  assume k: "k < c"
  then have "t mod c < c" by simp
  then have "t mod c + k < 2 * c" using k by linarith
  then have "(t mod c + k) mod c = (if t mod c + k < c then t mod c + k else t mod c + k - c)" by (rule mod_once)
  then show ?thesis by (simp add: mod_simps)
qed

lemma wrap_distance:
  assumes "m < c"
  shows "((h + m) mod c + c - h mod c) mod c = (m :: nat)"
proof -
  have "h mod c < c" using assms by simp
  then show ?thesis using assms unfolding add_mod_once [OF assms] by (auto simp: mod_once)
qed

definition written :: "u8 list \<Rightarrow> nat \<Rightarrow> u8 list \<Rightarrow> u8 list" where
  "written buf h data =
     map (\<lambda>p. let j = (p + length buf - h mod length buf) mod length buf in
              if j < length data then data ! j else buf ! p) [0..<length buf]"

lemma length_written [simp]: "length (written buf h data) = length buf"
  by (simp add: written_def)

lemma nth_written:
  "m < length buf \<Longrightarrow> written buf h data ! ((h + m) mod length buf)
     = (if m < length data then data ! m else buf ! ((h + m) mod length buf))"
proof -
  assume m: "m < length buf"
  then have "(h + m) mod length buf < length buf" by (metis gr_implies_not0 mod_less_divisor neq0_conv)
  then show ?thesis using wrap_distance [OF m, of h] by (simp add: written_def Let_def)
qed

text \<open>Copying in at most two pieces does exactly that.\<close>

lemma patch_twice_written:
  assumes hw: "hw = h mod length buf" and "buf \<noteq> []" and n: "n = min a_len (length data)" "length data \<le> a_len + b_len"
    and "a_len = length buf - hw \<and> b_len \<le> hw \<or> a_len \<le> length buf - hw \<and> length data \<le> a_len"
  shows "(if n < length data then patch (patch buf hw (take n data)) 0 (take (length data - n) (drop n data))
          else patch buf hw (take n data)) = written buf h data"
    (is "?l = _")
proof (rule nth_equalityI)
  have lt: "hw < length buf" using assms(1,2) by simp
  have len: "hw + n \<le> length buf" using assms(5) n lt by auto
  have rest: "length data - n \<le> hw" using assms(5) n by auto
  show "length ?l = length (written buf h data)" using len rest lt n by simp
  fix p
  assume "p < length ?l"
  then have p: "p < length buf" using len rest lt n by (simp split: if_splits)
  have j: "(p + length buf - hw) mod length buf = (if hw \<le> p then p - hw else p + length buf - hw)"
    using p lt by (simp add: mod_once)
  have w: "written buf h data ! p = (let j = (if hw \<le> p then p - hw else p + length buf - hw) in
      if j < length data then data ! j else buf ! p)"
    using p by (simp only: written_def hw [symmetric] nth_map length_upt nth_upt) (simp add: Let_def j)
  have one: "patch buf hw (take n data) ! p = (if hw \<le> p \<and> p < hw + n then data ! (p - hw) else buf ! p)"
  proof -
    have "length (take n data) = n" using n(1) by simp
    moreover have "take n data ! (p - hw) = data ! (p - hw)" if "hw \<le> p" "p < hw + n" using that by (intro nth_take) linarith
    ultimately show ?thesis using p len nth_patch [of hw "take n data" buf p] by auto
  qed
  show "?l ! p = written buf h data ! p"
  proof (cases "n < length data")
    case True
    then have "n = length buf - hw" using n(1) assms(5) by auto
    then show ?thesis using True p lt len rest one by (auto simp: w Let_def nth_patch add.commute)
  next
    case False
    then show ?thesis using p lt len n(1) assms(5) one by (auto simp: w Let_def)
  qed
qed

lemma free_regions_cover:
  assumes "0 < c" and "t \<le> h" and "h - t + d < c"
  obtains a_len b_len where "free_regions c (h mod c) (t mod c) = Inr ((h mod c, a_len), (0, b_len))"
    and "d \<le> a_len + b_len"
    and "a_len = c - h mod c \<and> b_len \<le> h mod c \<or> a_len \<le> c - h mod c \<and> d \<le> a_len"
proof -
  define hw tw where "hw = h mod c" and "tw = t mod c"
  have lt: "tw < c" "hw < c" using assms(1) by (simp_all add: hw_def tw_def)
  have hw: "hw = (if tw + (h - t) < c then tw + (h - t) else tw + (h - t) - c)"
    using add_mod_once [of "h - t" c t] assms(2,3) by (simp add: hw_def tw_def)
  show thesis
  proof (cases "tw \<le> hw")
    case True
    then have "hw = tw + (h - t)" using hw lt assms(3) by (auto split: if_splits)
    moreover have "free_regions c hw tw = Inr ((hw, c - hw), (0, tw))" using True lt by (simp add: free_regions_def)
    ultimately show thesis
      using True lt assms(3) by (intro that [folded hw_def tw_def, of "c - hw" tw]) linarith+
  next
    case False
    then have "hw = tw + (h - t) - c" "c \<le> tw + (h - t)" using hw by (auto split: if_splits)
    moreover have "free_regions c hw tw = Inr ((hw, tw - hw), (0, 0))" using False lt by (simp add: free_regions_def)
    ultimately show thesis
      using False lt assms(3) by (intro that [folded hw_def tw_def, of "tw - hw" 0]) linarith+
  qed
qed

lemma ring_write_correct:
  assumes "ring_valid rb" and "ring_room rb (length data)"
  shows "ring_write E rb data = Inr (set_head (rb\<lparr>buffer := written (buffer rb) (ring_head rb) data\<rparr>)
      (ring_head rb + length data), length data)"
proof -
  let ?c = "length (buffer rb)" and ?h = "ring_head rb" and ?t = "ring_tail rb"
  have v: "ring_capacity rb = ?c" "?t \<le> ?h" "?h - ?t + length data < ?c" "?h + length data < 2 ^ 64"
    using assms by (simp_all add: ring_valid_def ring_room_def)
  then have c: "0 < ?c" by linarith
  obtain a_len b_len where regions: "free_regions ?c (?h mod ?c) (?t mod ?c) = Inr ((?h mod ?c, a_len), (0, b_len))"
      "length data \<le> a_len + b_len"
      "a_len = ?c - ?h mod ?c \<and> b_len \<le> ?h mod ?c \<or> a_len \<le> ?c - ?h mod ?c \<and> length data \<le> a_len"
    using free_regions_cover [OF c v(2,3)] by blast
  have ne: "buffer rb \<noteq> []" using c by simp
  have total: "min (a_len + b_len) (length data) = length data" using regions(2) by simp
  have add: "usize_add E ?h (length data) = Inr (?h + length data)" using v(4) by (simp add: usize_add_def)
  have small: "\<not> ?c < length data" "?c \<noteq> 0" using v(3) c by simp_all
  show ?thesis
    unfolding ring_write_def Let_def v(1) regions(1) rbind_Inr prod.case total add if_not_P [OF small(1)] if_not_P [OF small(2)]
      patch_twice_written [OF refl ne refl regions(2,3)] by (rule refl)
qed

lemma ring_write_contents:
  assumes "ring_valid rb" and "ring_room rb (length data)"
  shows "\<exists>rb'. ring_write E rb data = Inr (rb', length data) \<and> ring_valid rb'
     \<and> contents rb' = contents rb @ data \<and> ring_capacity rb' = ring_capacity rb
     \<and> ring_head rb' = ring_head rb + length data"
proof -
  let ?c = "length (buffer rb)" and ?h = "ring_head rb" and ?t = "ring_tail rb"
  let ?rb = "set_head (rb\<lparr>buffer := written (buffer rb) ?h data\<rparr>) (?h + length data)"
  have v: "header_ok rb" "ring_capacity rb = ?c" "?t \<le> ?h" "?h - ?t + length data < ?c" "?h + length data < 2 ^ 64"
    using assms by (simp_all add: ring_valid_def ring_room_def)
  have fields: "ring_head ?rb = ?h + length data" "ring_tail ?rb = ?t" "ring_capacity ?rb = ?c" "header_ok ?rb"
      "buffer ?rb = written (buffer rb) ?h data"
    using v by simp_all
  have "contents ?rb = contents rb @ data"
  proof (rule nth_equalityI)
    show "length (contents ?rb) = length (contents rb @ data)" using fields v(3) by simp
    fix i
    assume "i < length (contents ?rb)"
    then have i: "i < ?h - ?t + length data" using fields v(3) by simp
    have at: "contents ?rb ! i = written (buffer rb) ?h data ! ((?t + i) mod ?c)"
      using i v(3) unfolding contents_def fields by simp
    show "contents ?rb ! i = (contents rb @ data) ! i"
    proof (cases "i < ?h - ?t")
      case True
      define m where "m = ?c - (?h - ?t) + i"
      have m: "m < ?c" "length data \<le> m" "?h + m = ?t + i + ?c" using True v(3,4) by (auto simp: m_def)
      have "(?t + i) mod ?c = (?h + m) mod ?c" using m(3) by simp
      then show ?thesis using at m(1,2) nth_written [OF m(1), of ?h data] True v(2) by (simp add: nth_append contents_def)
    next
      case False
      define m where "m = i - (?h - ?t)"
      have m: "m < ?c" "m < length data" "?h + m = ?t + i" using False i v(3,4) by (auto simp: m_def)
      then have "contents ?rb ! i = data ! m" using at nth_written [OF m(1), of ?h data] by simp
      then show ?thesis using False by (simp add: nth_append m_def)
    qed
  qed
  with fields v show ?thesis
    using ring_write_correct [OF assms] by (intro exI [of _ ?rb]) (simp add: ring_valid_def)
qed

lemma readable_contents:
  assumes "ring_valid rb" and "contents rb \<noteq> []"
  shows "\<exists>s. readable (buffer rb) (ring_capacity rb) (ring_head rb mod ring_capacity rb) (ring_tail rb mod ring_capacity rb) = Inr s
     \<and> joined s = contents rb"
proof -
  let ?c = "length (buffer rb)" and ?h = "ring_head rb" and ?t = "ring_tail rb"
  have v: "ring_capacity rb = ?c" "?t < ?h" "?h - ?t < ?c"
    using assms by (auto simp: ring_valid_def contents_def)
  define hw tw k where "hw = ?h mod ?c" and "tw = ?t mod ?c" and "k = ?h - ?t"
  have k: "0 < k" "k < ?c" using v by (simp_all add: k_def)
  have tw: "tw < ?c" unfolding tw_def using k by (intro mod_less_divisor) linarith
  have hw: "hw = (if tw + k < ?c then tw + k else tw + k - ?c)"
    using add_mod_once [OF k(2), of ?t] v(2) by (simp add: hw_def tw_def k_def)
  have nth: "contents rb ! i = buffer rb ! (if tw + i < ?c then tw + i else tw + i - ?c)" if "i < k" for i
    using add_mod_once [of i ?c ?t] that k(2) v(1) by (simp add: contents_def tw_def k_def)
  have len: "length (contents rb) = k" by (simp add: k_def)
  have "\<exists>s. readable (buffer rb) ?c hw tw = Inr s \<and> joined s = contents rb"
  proof (cases "tw + k < ?c")
    case True
    have "take k (drop tw (buffer rb)) = contents rb"
      by (rule nth_equalityI) (use True nth len in auto)
    then show ?thesis using True hw k tw by (simp add: readable_def cmp_def slice_def)
  next
    case False
    have "drop tw (buffer rb) @ take (tw + k - ?c) (buffer rb) = contents rb"
    proof (rule nth_equalityI)
      show "length (drop tw (buffer rb) @ take (tw + k - ?c) (buffer rb)) = length (contents rb)"
        using False len tw k by simp
      fix i
      assume "i < length (drop tw (buffer rb) @ take (tw + k - ?c) (buffer rb))"
      then have i: "i < k" using False tw k by simp
      then show "(drop tw (buffer rb) @ take (tw + k - ?c) (buffer rb)) ! i = contents rb ! i"
        using nth [OF i] tw k by (auto simp: nth_append add.commute)
    qed
    then show ?thesis using False hw k tw by (simp add: readable_def cmp_def slice_def)
  qed
  then show ?thesis by (simp add: v(1) hw_def tw_def)
qed

lemma ring_read_contents:
  assumes "ring_valid rb" and "contents rb \<noteq> []"
  shows "\<exists>rb' s. joined s = contents rb \<and> (f s \<le> length (contents rb) \<longrightarrow>
     ring_read E rb f = Inr (rb', Some s) \<and> ring_valid rb' \<and> contents rb' = drop (f s) (contents rb)
     \<and> ring_capacity rb' = ring_capacity rb \<and> ring_head rb' = ring_head rb)"
proof -
  let ?c = "ring_capacity rb" and ?h = "ring_head rb" and ?t = "ring_tail rb"
  obtain s where s: "readable (buffer rb) ?c (?h mod ?c) (?t mod ?c) = Inr s" "joined s = contents rb"
    using readable_contents [OF assms] by blast
  have v: "header_ok rb" "?c = length (buffer rb)" "?t < ?h" "?h - ?t < ?c"
    using assms by (auto simp: ring_valid_def contents_def)
  have "ring_read E rb f = Inr (set_tail rb (?t + f s), Some s) \<and> ring_valid (set_tail rb (?t + f s))
      \<and> contents (set_tail rb (?t + f s)) = drop (f s) (contents rb)" if le: "f s \<le> length (contents rb)"
  proof -
    have fs: "?t + f s \<le> ?h" "f s + ?t < 2 ^ 64"
      using le v(3) header_field_less [of rb 8] by (auto simp: ring_head_def)
    then have add: "usize_add E (f s) ?t = Inr (?t + f s)" by (simp add: usize_add_def add.commute)
    have mod64: "(?t + f s) mod 2 ^ 64 = ?t + f s" using fs(2) by simp
    have "contents (set_tail rb (?t + f s)) = drop (f s) (contents rb)"
      by (rule nth_equalityI) (use v fs mod64 in \<open>auto simp: contents_def algebra_simps\<close>)
    with add s(1) v fs mod64 show ?thesis
      by (auto simp: ring_read_def Let_def ring_valid_def)
  qed
  with s(2) v show ?thesis by (intro exI [of _ "set_tail rb (?t + f s)"] exI [of _ s]) simp
qed


section \<open>The interface\<close>

text \<open>
  A first-in first-out channel of bytes: \<open>push\<close> appends when there is room, \<open>pop\<close> shows all bytes
  that wait and removes as many as the reader takes.
\<close>

datatype fifo_op = Push "u8 list" | Pop nat

fun pushed :: "fifo_op list \<Rightarrow> u8 list" where
  "pushed [] = []"
| "pushed (Push d # ops) = d @ pushed ops"
| "pushed (Pop n # ops) = pushed ops"

locale byte_fifo =
  fixes valid :: "'q \<Rightarrow> bool" and queued :: "'q \<Rightarrow> u8 list" and room :: "'q \<Rightarrow> nat \<Rightarrow> bool"
    and push :: "'q \<Rightarrow> u8 list \<Rightarrow> ('q \<times> nat) res" and pop :: "'q \<Rightarrow> nat \<Rightarrow> ('q \<times> u8 list) res"
  assumes push_ok: "valid q \<Longrightarrow> room q (length d)
      \<Longrightarrow> \<exists>q'. push q d = Inr (q', length d) \<and> valid q' \<and> queued q' = queued q @ d"
    and pop_ok: "valid q \<Longrightarrow> \<exists>q'. pop q n = Inr (q', take n (queued q)) \<and> valid q' \<and> queued q' = drop n (queued q)"
begin

text \<open>Running a list of operations, as long as each write finds room: what was read, and the end state.\<close>

fun run :: "fifo_op list \<Rightarrow> 'q \<Rightarrow> ('q \<times> u8 list) option" where
  "run [] q = Some (q, [])"
| "run (Push d # ops) q =
     (if room q (length d) then (case push q d of Inr (q, _) \<Rightarrow> run ops q | Inl _ \<Rightarrow> None) else None)"
| "run (Pop n # ops) q =
     (case pop q n of
        Inr (q, bs) \<Rightarrow> (case run ops q of Some (q, rest) \<Rightarrow> Some (q, bs @ rest) | None \<Rightarrow> None)
      | Inl _ \<Rightarrow> None)"

lemma in_order:
  "valid q \<Longrightarrow> run ops q = Some (q', out) \<Longrightarrow> valid q' \<and> out @ queued q' = queued q @ pushed ops"
proof (induction ops arbitrary: q out)
  case (Cons oper ops)
  show ?case
  proof (cases oper)
    case (Push d)
    then have room: "room q (length d)" using Cons.prems(2) by (auto split: if_splits)
    obtain q1 where "push q d = Inr (q1, length d)" "valid q1" "queued q1 = queued q @ d"
      using push_ok [OF Cons.prems(1) room] by blast
    then show ?thesis using Cons.IH [of q1 out] Cons.prems(2) Push room by simp
  next
    case (Pop n)
    obtain q1 where q1: "pop q n = Inr (q1, take n (queued q))" "valid q1" "queued q1 = drop n (queued q)"
      using pop_ok [OF Cons.prems(1)] by blast
    obtain rest where rest: "run ops q1 = Some (q', rest)" "out = take n (queued q) @ rest"
      using Cons.prems(2) Pop q1(1) by (auto split: option.splits)
    then show ?thesis using Cons.IH [OF q1(2) rest(1)] q1(3) Pop by simp
  qed
qed simp

end

text \<open>Reading at most \<open>n\<close> bytes through the closure interface.\<close>

definition ring_pop :: "rust_env \<Rightarrow> ring_buffer \<Rightarrow> nat \<Rightarrow> (ring_buffer \<times> u8 list) res" where
  "ring_pop E rb n =
     rbind (ring_read E rb (\<lambda>s. min n (split_len s))) (\<lambda>(rb, s).
     Inr (rb, case s of None \<Rightarrow> [] | Some s \<Rightarrow> take n (joined s)))"

lemma split_len_joined: "split_len s = length (joined s)"
  by (cases s) auto

interpretation ring: byte_fifo ring_valid contents ring_room "ring_write E" "ring_pop E" for E :: rust_env
proof
  fix rb :: ring_buffer and d :: "u8 list"
  assume "ring_valid rb" "ring_room rb (length d)"
  then show "\<exists>rb'. ring_write E rb d = Inr (rb', length d) \<and> ring_valid rb' \<and> contents rb' = contents rb @ d"
    using ring_write_contents by blast
next
  fix rb :: ring_buffer and n
  assume v: "ring_valid rb"
  show "\<exists>rb'. ring_pop E rb n = Inr (rb', take n (contents rb)) \<and> ring_valid rb' \<and> contents rb' = drop n (contents rb)"
  proof (cases "contents rb = []")
    case True
    then have "ring_head rb = ring_tail rb" using v by (simp add: contents_def ring_valid_def)
    then show ?thesis using True v by (simp add: ring_pop_def ring_read_def Let_def)
  next
    case False
    obtain rb' s where s: "joined s = contents rb" "ring_read E rb (\<lambda>s. min n (split_len s)) = Inr (rb', Some s)"
        "ring_valid rb'" "contents rb' = drop (min n (length (contents rb))) (contents rb)"
      using ring_read_contents [OF v False, of "\<lambda>s. min n (split_len s)" E] by (auto simp: split_len_joined)
    moreover have "drop (min n (length (contents rb))) (contents rb) = drop n (contents rb)" by (simp add: min_def)
    ultimately show ?thesis by (simp add: ring_pop_def)
  qed
qed

text \<open>
  C20: a producer and a consumer on the same memory see a queue: for any interleaving of writes
  that find room and reads, the bytes the reads hand over followed by the bytes still waiting
  are the bytes that waited at the start followed by those written, in order.
\<close>

theorem ring_buffer_fifo:
  assumes "ring_valid rb" and "ring.run E ops rb = Some (rb', out)"
  shows "ring_valid rb' \<and> out @ contents rb' = contents rb @ pushed ops"
  using ring.in_order [OF assms] .

definition sample_ring :: ring_buffer where
  "sample_ring = \<lparr>header = le_bytes 8 4 @ le_bytes 8 6 @ le_bytes 8 5, buffer = [10, 11, 12, 13]\<rparr>"

lemma sample_ring_fields [simp]:
  "ring_capacity sample_ring = 4" "ring_head sample_ring = 6" "ring_tail sample_ring = 5" "header_ok sample_ring"
  "buffer sample_ring = [10, 11, 12, 13]"
  by (simp_all add: sample_ring_def ring_capacity_def ring_head_def ring_tail_def read_header_field_def
      header_ok_def HEADER_SIZE_def from_le_bytes)

theorem ring_buffer_fifo_witness:
  "\<exists>rb' out. ring_valid sample_ring \<and> ring.run sample_env [Push [1, 2], Pop 2] sample_ring = Some (rb', out)
     \<and> out @ contents rb' = contents sample_ring @ [1, 2]"
proof -
  have v: "ring_valid sample_ring" by (simp add: ring_valid_def)
  have room: "ring_room sample_ring (length [1 :: u8, 2])" by (simp add: ring_room_def)
  obtain rb1 where "ring_write sample_env sample_ring [1, 2] = Inr (rb1, length [1 :: u8, 2])" "ring_valid rb1"
    using ring.push_ok [OF v room] by blast
  moreover obtain rb2 where "ring_pop sample_env rb1 2 = Inr (rb2, take 2 (contents rb1))"
    using ring.pop_ok [OF \<open>ring_valid rb1\<close>] by blast
  ultimately have run: "ring.run sample_env [Push [1, 2], Pop 2] sample_ring = Some (rb2, take 2 (contents rb1) @ [])"
    using room by simp
  show ?thesis using ring_buffer_fifo [OF v run] v run by auto
qed

text \<open>
  A write that fills the buffer to the last byte leaves it in a state in which the consumer
  panics, although the bytes are there, and in which a further write overwrites them.
\<close>

theorem ring_buffer_full_breaks:
  "\<exists>rb rb'. ring_valid sample_ring \<and> ring_write sample_env sample_ring [1, 2, 3] = Inr (rb, 3)
     \<and> contents rb = [11, 1, 2, 3] \<and> (\<forall>f. ring_read sample_env rb f = Inl Unreachable)
     \<and> ring_write sample_env rb [9] = Inr (rb', 1) \<and> buffer rb ! 1 = 11 \<and> buffer rb' ! 1 = 9"
proof -
  define rb where "rb = set_head (sample_ring\<lparr>buffer := [3, 11, 1, 2]\<rparr>) 9"
  define rb' where "rb' = set_head (rb\<lparr>buffer := [3, 9, 1, 2]\<rparr>) 10"
  have fields: "ring_capacity rb = 4" "ring_head rb = 9" "ring_tail rb = 5" "buffer rb = [3, 11, 1, 2]"
    by (simp_all add: rb_def)
  have "ring_write sample_env sample_ring [1, 2, 3] = Inr (rb, 3)"
    by (simp add: ring_write_def Let_def free_regions_def patch_def usize_add_def rb_def)
  moreover have "contents rb = [11, 1, 2, 3]"
    by (simp add: contents_def fields upt_rec)
  moreover have "ring_read sample_env rb f = Inl Unreachable" for f
    by (simp add: ring_read_def Let_def fields readable_def cmp_def)
  moreover have "ring_write sample_env rb [9] = Inr (rb', 1)"
    by (simp add: ring_write_def Let_def fields free_regions_def patch_def usize_add_def rb'_def)
  moreover have "ring_valid sample_ring" by (simp add: ring_valid_def)
  moreover have "buffer rb ! 1 = 11" "buffer rb' ! 1 = 9" by (simp_all add: fields rb'_def)
  ultimately show ?thesis by blast
qed

end
