(* ===== verification/Bump_Alloc.thy ===== *)
theory Bump_Alloc
  imports Rust_Arith
begin

text \<open>
  The bump allocator behind the translator's arenas, \<open>brig/dbt/src/bump_alloc.rs\<close>.  Memory is
  handed out front to back and only reclaimed all at once.  An allocation is the pair of its
  offset into the allocator's memory and its size.
\<close>

record bump_allocator =
  data_len :: nat
  bump_position :: nat

definition bump_new :: "nat \<Rightarrow> bump_allocator" where
  "bump_new len = \<lparr>data_len = len, bump_position = 0\<rparr>"

definition bump_clear :: "bump_allocator \<Rightarrow> bump_allocator" where
  "bump_clear b = b\<lparr>bump_position := 0\<rparr>"

text \<open>\<open>None\<close> is \<open>Err(AllocError)\<close>.\<close>

definition bump_allocate ::
  "rust_env \<Rightarrow> bump_allocator \<Rightarrow> nat \<Rightarrow> nat \<Rightarrow> (bump_allocator \<times> (nat \<times> nat) option) res" where
  "bump_allocate E b layout_size layout_align =
     (if layout_align = 0 then Inl DivideByZero
      else
        rbind (usize_add E (bump_position b) (layout_align - bump_position b mod layout_align)) (\<lambda>aligned.
        rbind (usize_add E aligned layout_size) (\<lambda>next_position.
        if data_len b \<le> next_position then Inr (b, None)
        else if aligned \<le> next_position
             then Inr (b\<lparr>bump_position := next_position\<rparr>, Some (aligned, layout_size))
             else Inl IndexOutOfBounds)))"

text \<open>What \<open>Layout\<close> guarantees: a power of two, and a rounded size that fits an \<open>isize\<close>.\<close>

definition layout_ok :: "nat \<Rightarrow> nat \<Rightarrow> bool" where
  "layout_ok size_v align \<longleftrightarrow> (\<exists>k. align = 2 ^ k) \<and> size_v + align \<le> 2 ^ 63"

text \<open>
  The states an allocator can be in, with the allocations made since it was last cleared, the
  newest first: (offset, size, alignment).
\<close>

inductive bump_reachable :: "rust_env \<Rightarrow> nat \<Rightarrow> bump_allocator \<Rightarrow> (nat \<times> nat \<times> nat) list \<Rightarrow> bool"
  for E len where
  bump_init: "bump_reachable E len (bump_new len) []"
| bump_alloc: "bump_reachable E len b live \<Longrightarrow> layout_ok size_v align
    \<Longrightarrow> bump_allocate E b size_v align = Inr (b', Some (start, n))
    \<Longrightarrow> bump_reachable E len b' ((start, n, align) # live)"
| bump_fail: "bump_reachable E len b live \<Longrightarrow> bump_allocate E b size_v align = Inr (b', None)
    \<Longrightarrow> bump_reachable E len b' live"
| bump_reset: "bump_reachable E len b live \<Longrightarrow> bump_reachable E len (bump_clear b) []"

definition bump_invariant :: "nat \<Rightarrow> bump_allocator \<Rightarrow> (nat \<times> nat \<times> nat) list \<Rightarrow> bool" where
  "bump_invariant len b live \<longleftrightarrow>
     data_len b = len \<and> bump_position b \<le> len
     \<and> (\<forall>(start, n, align)\<in>set live. start mod align = 0 \<and> start + n \<le> bump_position b)
     \<and> sorted_wrt (\<lambda>(start, n, _) (start', n', _). start' + n' \<le> start) live"

lemma bump_allocate_Some:
  assumes "bump_allocate E b size_v align = Inr (b', Some (start, n))" and "layout_ok size_v align"
    and "bump_position b < 2 ^ 63"
  shows "n = size_v \<and> bump_position b < start \<and> start mod align = 0 \<and> start + n < data_len b
    \<and> b' = b\<lparr>bump_position := start + n\<rparr>"
proof -
  let ?p = "bump_position b" and ?skip = "align - bump_position b mod align"
  have "0 < align" using assms(2) by (auto simp: layout_ok_def)
  then have align: "0 < align" "align \<le> 2 ^ 63" "size_v < 2 ^ 63" using assms(2) by (auto simp: layout_ok_def)
  have skip: "0 < ?skip" "?skip \<le> align" using align(1) by simp_all
  obtain stop where run: "usize_add E ?p ?skip = Inr start" "usize_add E start size_v = Inr stop"
      "stop < data_len b" "start \<le> stop" "n = size_v" "b' = b\<lparr>bump_position := stop\<rparr>"
    using assms(1) align(1) by (auto simp: bump_allocate_def rbind_eq_Inr split: if_splits)
  have "?p + ?skip < 2 ^ 64" using assms(3) skip align by simp
  then have start: "start = ?p + ?skip" "start < 2 ^ 64"
    using run(1) by (simp_all add: usize_add_def checked_eq_Inr)
  have stop: "stop = start + size_v"
  proof (cases "start + size_v < 2 ^ 64")
    case False
    then have "(start + size_v) mod 2 ^ 64 = start + size_v - 2 ^ 64"
      using start(2) align(3) by (simp add: le_mod_geq)
    then show ?thesis using run(2,4) False align(3) by (auto simp: usize_add_def checked_eq_Inr)
  qed (use run(2) in \<open>simp add: usize_add_def checked_eq_Inr\<close>)
  have "?p + ?skip = ?p div align * align + align"
    using align(1) div_mult_mod_eq [of ?p align] mod_less_divisor [OF align(1), of ?p] by linarith
  then have "start mod align = 0" using start(1) by simp
  with run start stop skip show ?thesis by simp
qed

lemma bump_allocate_None: "bump_allocate E b size_v align = Inr (b', None) \<Longrightarrow> b' = b"
  by (auto simp: bump_allocate_def rbind_eq_Inr split: if_splits)

lemma bump_reachable_invariant:
  assumes "bump_reachable E len b live" and "len < 2 ^ 63"
  shows "bump_invariant len b live"
  using assms(1)
proof (induction rule: bump_reachable.induct)
  case (bump_alloc b live size_v align b' start n)
  have "bump_position b < 2 ^ 63" using bump_alloc.IH assms(2) by (simp add: bump_invariant_def)
  from bump_allocate_Some [OF bump_alloc.hyps(3,2) this] bump_alloc.IH show ?case
    by (fastforce simp: bump_invariant_def)
next
  case (bump_fail b live size_v align b')
  then show ?case using bump_allocate_None by blast
qed (simp_all add: bump_invariant_def bump_new_def bump_clear_def)

text \<open>
  C21: whatever was allocated since the allocator was last cleared lies inside its memory, of less than
  \<open>2 ^ 63\<close> bytes, at an offset in it that is a multiple of the requested alignment (the memory itself
  need not be aligned), and no two allocations overlap; in both build profiles.
\<close>

theorem bump_allocations_disjoint:
  assumes "bump_reachable E len b live" and "len < 2 ^ 63"
  shows "(\<forall>(start, n, align)\<in>set live. start mod align = 0 \<and> start + n \<le> len)
    \<and> (\<forall>i j. i < j \<longrightarrow> j < length live \<longrightarrow>
         fst (live ! j) + fst (snd (live ! j)) \<le> fst (live ! i))"
  using bump_reachable_invariant [OF assms]
  by (fastforce simp: bump_invariant_def sorted_wrt_iff_nth_less split_beta)

theorem bump_allocations_disjoint_witness:
  "\<exists>b live. bump_reachable sample_env 64 b live \<and> live = [(32, 4, 8), (8, 16, 8)]
     \<and> fst (live ! 1) + fst (snd (live ! 1)) \<le> fst (live ! 0)"
proof -
  have l: "layout_ok 16 8" "layout_ok 4 8" by (auto simp: layout_ok_def intro: exI [of _ 3])
  let ?b1 = "(bump_new 64)\<lparr>bump_position := 24\<rparr>" and ?b2 = "(bump_new 64)\<lparr>bump_position := 36\<rparr>"
  have a1: "bump_allocate sample_env (bump_new 64) 16 8 = Inr (?b1, Some (8, 16))"
    by (simp add: bump_allocate_def bump_new_def usize_add_def)
  have a2: "bump_allocate sample_env ?b1 4 8 = Inr (?b2, Some (32, 4))"
    by (simp add: bump_allocate_def bump_new_def usize_add_def)
  note r = bump_alloc [OF bump_alloc [OF bump_init l(1) a1] l(2) a2]
  define live :: "(nat \<times> nat \<times> nat) list" where "live = [(32, 4, 8), (8, 16, 8)]"
  have r: "bump_reachable sample_env 64 ?b2 live" using r by (simp add: live_def)
  have "fst (live ! 1) + fst (snd (live ! 1)) \<le> fst (live ! 0)"
    using bump_allocations_disjoint [OF r] by (simp add: live_def)
  with r show ?thesis by (auto simp: live_def)
qed

end
