(* ===== verification/Irq_Controller.thy ===== *)
theory Irq_Controller
  imports Bytes
begin

text \<open>
  The interface between a guest device and the interrupt controller it is wired to, the trait
  \<open>IrqController\<close> of \<open>brig/common/src/device.rs\<close>.  A device drives its line: \<open>raise\<close> and \<open>rescind\<close>
  set the level of that line and of no other.  \<open>level_driver\<close> is the shape every device here has:
  raise when a condition holds, rescind otherwise.
\<close>

definition drive_line :: "('c \<Rightarrow> nat \<Rightarrow> 'c res) \<Rightarrow> ('c \<Rightarrow> nat \<Rightarrow> 'c res) \<Rightarrow> bool \<Rightarrow> nat \<Rightarrow> 'c \<Rightarrow> 'c res" where
  "drive_line raise rescind level line c = (if level then raise c line else rescind c line)"

locale irq_controller =
  fixes valid :: "'c \<Rightarrow> bool" and level :: "'c \<Rightarrow> nat \<Rightarrow> bool" and line_count :: nat
    and raise rescind :: "'c \<Rightarrow> nat \<Rightarrow> 'c res"
  assumes raise_ok: "valid c \<Longrightarrow> line < line_count
      \<Longrightarrow> \<exists>c'. raise c line = Inr c' \<and> valid c' \<and> (\<forall>k. level c' k \<longleftrightarrow> k = line \<or> level c k)"
    and rescind_ok: "valid c \<Longrightarrow> line < line_count
      \<Longrightarrow> \<exists>c'. rescind c line = Inr c' \<and> valid c' \<and> (\<forall>k. level c' k \<longleftrightarrow> k \<noteq> line \<and> level c k)"
begin

lemma drive_ok:
  assumes "valid c" and "line < line_count"
  shows "\<exists>c'. drive_line raise rescind l line c = Inr c' \<and> valid c'
    \<and> level c' line = l \<and> (\<forall>k. k \<noteq> line \<longrightarrow> level c' k = level c k)"
  using raise_ok [OF assms] rescind_ok [OF assms] by (cases l) (auto simp: drive_line_def)

text \<open>Two lines driven one after the other.\<close>

lemma drive_two_ok:
  assumes "valid c" and "a < line_count" and "b < line_count" and "a \<noteq> b"
  shows "\<exists>c'. rbind (drive_line raise rescind la a c) (drive_line raise rescind lb b) = Inr c' \<and> valid c'
    \<and> level c' a = la \<and> level c' b = lb \<and> (\<forall>k. k \<noteq> a \<longrightarrow> k \<noteq> b \<longrightarrow> level c' k = level c k)"
proof -
  obtain c1 where c1: "drive_line raise rescind la a c = Inr c1" "valid c1" "level c1 a = la"
      "\<forall>k. k \<noteq> a \<longrightarrow> level c1 k = level c k"
    using drive_ok [OF assms(1,2)] by blast
  with drive_ok [OF c1(2) assms(3), of lb] assms(4) show ?thesis by auto
qed

end

end
