(* ===== verification/Gic.thy ===== *)
theory Gic
  imports Irq_Controller
begin

text \<open>
  The guest's interrupt controller, \<open>brig/brig/src/guest/devices/arm/a9gic.rs\<close>: 1020 lines, the
  distributor and the CPU interface.  The code's sentinel \<open>NO_LINE\<close> is \<open>None\<close> here, and the flag
  \<open>interrupt_pending\<close> of the guest execution context, which \<open>cpu_irq_raise\<close> and
  \<open>cpu_irq_rescind\<close> set, is a field of the state.  The lines an interrupt handler has taken form
  a chain through \<open>last_active\<close>, starting at the running one; \<open>eoi\<close> follows it and so has fuel.
\<close>

unbundle bit_operations_syntax

section \<open>State\<close>

record irq_line =
  raised :: bool
  enabled :: bool
  active :: bool
  pending :: bool
  priority :: u8
  cpu_mask :: u8
  config :: u8
  last_active :: "nat option"

record gic =
  gic_lines :: "irq_line list"
  distributor_enabled :: bool
  cpu_enabled :: bool
  cpu_pmr :: u8
  cpu_irq_line_pending :: "nat option"
  cpu_irq_line_running :: "nat option"
  interrupt_pending :: bool

definition irq_line_new :: "u8 \<Rightarrow> u8 \<Rightarrow> irq_line" where
  "irq_line_new cfg msk =
     \<lparr>raised = False, enabled = False, active = False, pending = False, priority = 0, cpu_mask = msk,
      config = cfg, last_active = None\<rparr>"

definition edge_triggered :: "irq_line \<Rightarrow> bool" where
  "edge_triggered l \<longleftrightarrow> config l AND 2 = 2"

definition level_triggered :: "irq_line \<Rightarrow> bool" where
  "level_triggered l \<longleftrightarrow> config l AND 2 = 0"

definition LINE_COUNT :: nat where "LINE_COUNT = 1020"

definition gic_new :: gic where
  "gic_new =
     \<lparr>gic_lines = map (\<lambda>i. irq_line_new (if i < 16 then 2 else 0) (if i < 32 then 1 else 0)) [0..<LINE_COUNT],
      distributor_enabled = False, cpu_enabled = False, cpu_pmr = 0, cpu_irq_line_pending = None,
      cpu_irq_line_running = None, interrupt_pending = False\<rparr>"

definition get_line :: "gic \<Rightarrow> nat \<Rightarrow> irq_line res" where
  "get_line g i = (if i < length (gic_lines g) then Inr (gic_lines g ! i) else Inl IndexOutOfBounds)"

definition set_line :: "gic \<Rightarrow> nat \<Rightarrow> irq_line \<Rightarrow> gic" where
  "set_line g i l = g\<lparr>gic_lines := (gic_lines g)[i := l]\<rparr>"

section \<open>Selecting an interrupt\<close>

definition running_priority :: "gic \<Rightarrow> nat res" where
  "running_priority g =
     (case cpu_irq_line_running g of
        None \<Rightarrow> Inr 0x100
      | Some line \<Rightarrow> rbind (get_line g line) (\<lambda>l. Inr (unat (priority l))))"

definition wants_service :: "irq_line \<Rightarrow> bool" where
  "wants_service l \<longleftrightarrow> enabled l \<and> (pending l \<or> level_triggered l \<and> raised l)"

text \<open>The loop over \<open>lines.iter().enumerate()\<close>.\<close>

fun best_irq :: "irq_line list \<Rightarrow> nat \<Rightarrow> irq_line list \<Rightarrow> nat option \<Rightarrow> nat option" where
  "best_irq ls i [] best = best"
| "best_irq ls i (l # rest) best =
     best_irq ls (Suc i) rest
       (if wants_service l then
          (case best of
             None \<Rightarrow> Some i
           | Some b \<Rightarrow> if priority l < priority (ls ! b) then Some i else Some b)
        else best)"

definition gic_update :: "gic \<Rightarrow> gic res" where
  "gic_update g =
     (let g = g\<lparr>cpu_irq_line_pending := None\<rparr> in
      if \<not> cpu_enabled g \<or> \<not> distributor_enabled g then Inr (g\<lparr>interrupt_pending := False\<rparr>)
      else
        case best_irq (gic_lines g) 0 (gic_lines g) None of
          None \<Rightarrow> Inr (g\<lparr>interrupt_pending := False\<rparr>)
        | Some b \<Rightarrow>
            rbind (get_line g b) (\<lambda>best.
            if priority best < cpu_pmr g then
              rbind (running_priority g) (\<lambda>running.
              Inr (g\<lparr>cpu_irq_line_pending := Some b, interrupt_pending := unat (priority best) < running\<rparr>))
            else Inr (g\<lparr>interrupt_pending := False\<rparr>)))"

section \<open>CPU interface operations\<close>

definition acknowledge :: "gic \<Rightarrow> (gic \<times> nat) res" where
  "acknowledge g =
     (case cpu_irq_line_pending g of
        None \<Rightarrow> Inr (g\<lparr>cpu_irq_line_running := None\<rparr>, 1023)
      | Some i \<Rightarrow>
          rbind (get_line g i) (\<lambda>l. rbind (running_priority g) (\<lambda>running.
          if running \<le> unat (priority l) then Inr (g, 1023)
          else
            let g = set_line g i (l\<lparr>last_active := cpu_irq_line_running g, pending := False\<rparr>);
                g = g\<lparr>cpu_irq_line_running := Some i\<rparr>
            in rbind (gic_update g) (\<lambda>g. rbind (u32_try_from_usize i) (\<lambda>i. Inr (g, i))))))"

text \<open>
  \<open>while last_idx != NO_LINE\<close>: follow the chain until the line is found.  The store writes the
  line's own link back to it.
\<close>

fun eoi_walk :: "nat \<Rightarrow> gic \<Rightarrow> nat \<Rightarrow> nat option \<Rightarrow> gic res" where
  "eoi_walk 0 g irqid last_idx = Inl OutOfFuel"
| "eoi_walk (Suc n) g irqid last_idx =
     (case last_idx of
        None \<Rightarrow> Inr g
      | Some i \<Rightarrow>
          rbind (get_line g i) (\<lambda>l.
          if i = irqid then
            rbind (get_line g irqid) (\<lambda>irq. Inr (set_line g i (l\<lparr>last_active := last_active irq\<rparr>)))
          else eoi_walk n g irqid (last_active l)))"

definition eoi :: "nat \<Rightarrow> gic \<Rightarrow> nat \<Rightarrow> gic res" where
  "eoi fuel g irqid =
     (if length (gic_lines g) \<le> irqid then Inr g
      else case cpu_irq_line_running g of
        None \<Rightarrow> Inr g
      | Some current \<Rightarrow>
          rbind (get_line g current) (\<lambda>running.
          rbind (if irqid \<noteq> current then eoi_walk fuel g irqid (Some current)
                 else Inr (g\<lparr>cpu_irq_line_running := last_active running\<rparr>)) gic_update))"

section \<open>Lines\<close>

definition gic_raise :: "gic \<Rightarrow> nat \<Rightarrow> gic res" where
  "gic_raise g line =
     rbind (get_line g line) (\<lambda>l.
     if \<not> raised l then
       gic_update (set_line g line (if edge_triggered l then l\<lparr>raised := True, pending := True\<rparr> else l\<lparr>raised := True\<rparr>))
     else Inr g)"

definition gic_rescind :: "gic \<Rightarrow> nat \<Rightarrow> gic res" where
  "gic_rescind g line =
     rbind (get_line g line) (\<lambda>l.
     if raised l then gic_update (set_line g line (l\<lparr>raised := False\<rparr>)) else Inr g)"

section \<open>Memory-mapped registers\<close>

text \<open>\<open>value.copy_from_slice(&response.to_le_bytes())\<close>: the destination has to be four bytes long.\<close>

definition respond :: "nat \<Rightarrow> u32 \<Rightarrow> u8 list res" where
  "respond len response = (if len = 4 then Inr (le_bytes 4 (unat response)) else Inl ExplicitPanic)"

definition word_argument :: "u8 list \<Rightarrow> u32 res" where
  "word_argument bs = (if length bs = 1 \<or> length bs = 4 then Inr (word_of_nat (from_le bs)) else Inl Todo)"

definition cpu_read :: "gic \<Rightarrow> nat \<Rightarrow> nat \<Rightarrow> (gic \<times> u8 list) res" where
  "cpu_read g offset len =
     rbind (if offset = 0x0000 then Inr (g, of_bool (cpu_enabled g))
            else if offset = 0x000c then rbind (acknowledge g) (\<lambda>(g, i). Inr (g, word_of_nat i))
            else if offset = 0x00fc then Inr (g, 0)
            else Inl ExplicitPanic) (\<lambda>(g, response).
     rbind (respond len response) (\<lambda>bs. Inr (g, bs)))"

definition cpu_write :: "nat \<Rightarrow> gic \<Rightarrow> nat \<Rightarrow> u8 list \<Rightarrow> gic res" where
  "cpu_write fuel g offset bs =
     rbind (word_argument bs) (\<lambda>value.
     if offset = 0x0000 then Inr (g\<lparr>cpu_enabled := (value AND 1 = 1)\<rparr>)
     else if offset = 0x0004 then Inr (g\<lparr>cpu_pmr := ucast (value AND 0xff)\<rparr>)
     else if offset = 0x0010 then eoi fuel g (unat value)
     else Inl ExplicitPanic)"

text \<open>The range of lines a register at \<open>base\<close> describes with \<open>bits\<close> bits each.\<close>

definition lines_for_bitvector :: "gic \<Rightarrow> nat \<Rightarrow> nat \<Rightarrow> nat \<Rightarrow> (nat \<times> nat) res" where
  "lines_for_bitvector g base len bits =
     (let start_index = (8 * base) div bits;
          end_index = min ((8 * len) div bits + start_index) 1019
      in if start_index \<le> end_index \<and> end_index \<le> length (gic_lines g) then Inr (start_index, end_index)
         else Inl IndexOutOfBounds)"

definition field_of :: "u32 \<Rightarrow> nat \<Rightarrow> nat \<Rightarrow> u8" where
  "field_of value index bits = ucast (drop_bit (index * bits) value AND mask bits)"

text \<open>\<open>for_each(|(index, line)| ...)\<close> over such a range.\<close>

definition map_lines :: "gic \<Rightarrow> nat \<Rightarrow> nat \<Rightarrow> nat \<Rightarrow> (nat \<Rightarrow> irq_line \<Rightarrow> irq_line) \<Rightarrow> gic res" where
  "map_lines g base len bits f =
     rbind (lines_for_bitvector g base len bits) (\<lambda>(a, b).
     Inr (g\<lparr>gic_lines := map (\<lambda>i. if a \<le> i \<and> i < b then f (i - a) (gic_lines g ! i) else gic_lines g ! i)
              [0..<length (gic_lines g)]\<rparr>))"

definition fold_lines :: "gic \<Rightarrow> nat \<Rightarrow> nat \<Rightarrow> nat \<Rightarrow> (nat \<Rightarrow> irq_line \<Rightarrow> u32) \<Rightarrow> u32 res" where
  "fold_lines g base len bits f =
     rbind (lines_for_bitvector g base len bits) (\<lambda>(a, b).
     Inr (fold (\<lambda>i acc. acc OR f (i - a) (gic_lines g ! i)) [a..<b] 0))"

definition dist_read :: "gic \<Rightarrow> nat \<Rightarrow> nat \<Rightarrow> u8 list res" where
  "dist_read g offset len =
     rbind (if offset = 0x0000 then Inr (of_bool (distributor_enabled g))
            else if offset = 0x0004 then Inr 0x81f
            else if offset = 0x0008 then Inr 0x200143b
            else if offset \<in> {0x0100..0x017c} \<union> {0x0300..0x037c} then Inr 0
            else if offset \<in> {0x0800..0x0bfb} then
              fold_lines g (offset - 0x0800) 4 8 (\<lambda>index l. push_bit (index * 8) (ucast (cpu_mask l)))
            else if offset \<in> {0x0c00..0x0dff} then
              fold_lines g (offset - 0x0c00) 4 2 (\<lambda>index l. push_bit (index * 2) (ucast (config l)))
            else if offset = 0x0fe0 then Inr 0x90
            else if offset = 0x0fe4 then Inr 0xb4
            else if offset = 0x0fe8 then Inr 0x2b
            else if offset = 0x0fec then Inr 0x00
            else if offset = 0x0ff0 then Inr 0x0d
            else if offset = 0x0ff4 then Inr 0xf0
            else if offset = 0x0ff8 then Inr 0x05
            else if offset = 0x0ffc then Inr 0xb1
            else Inl ExplicitPanic) (respond len)"

text \<open>\<open>fetch_nand(b)\<close> stores the negation of the conjunction.\<close>

definition nand :: "bool \<Rightarrow> bool \<Rightarrow> bool" where
  "nand a b \<longleftrightarrow> \<not> (a \<and> b)"

definition clear_pending_sgi :: "gic \<Rightarrow> nat \<Rightarrow> u32 \<Rightarrow> gic res" where
  "clear_pending_sgi g base value =
     rbind (lines_for_bitvector g base 4 1) (\<lambda>(a, b).
     foldR (\<lambda>i g. rbind (get_line g i) (\<lambda>l.
              gic_rescind (set_line g i (l\<lparr>pending := (pending l \<and> \<not> bit value (i - a))\<rparr>)) i)) [a..<b] g)"

definition dist_write :: "gic \<Rightarrow> nat \<Rightarrow> u8 list \<Rightarrow> gic res" where
  "dist_write g offset bs =
     rbind (word_argument bs) (\<lambda>value.
     if offset = 0x0000 then Inr (g\<lparr>distributor_enabled := (value AND 1 = 1)\<rparr>)
     else if offset \<in> {0x0100..0x017f} then
       map_lines g (offset - 0x0100) 4 1 (\<lambda>index l. l\<lparr>enabled := (enabled l \<or> bit value index)\<rparr>)
     else if offset \<in> {0x0180..0x01ff} then
       map_lines g (offset - 0x0180) 4 1 (\<lambda>index l. l\<lparr>enabled := nand (enabled l) (bit value index)\<rparr>)
     else if offset \<in> {0x0380..0x03ff} then
       map_lines g (offset - 0x0380) 4 1 (\<lambda>index l. l\<lparr>active := nand (active l) (bit value index)\<rparr>)
     else if offset \<in> {0x0400..0x07fb} then
       map_lines g (offset - 0x0400) 4 8 (\<lambda>index l. l\<lparr>priority := field_of value index 8\<rparr>)
     else if offset \<in> {0x0800..0x0bfb} then
       map_lines g (offset - 0x0800) 4 8 (\<lambda>index l. l\<lparr>cpu_mask := field_of value index 8\<rparr>)
     else if offset \<in> {0x0c00..0x0dff} then
       map_lines g (offset - 0x0c00) 4 2 (\<lambda>index l. l\<lparr>config := field_of value index 2\<rparr>)
     else if offset = 0x0f00 then
       (let value = ucast value :: u8 in if value < 16 then gic_raise g (unat value) else Inr g)
     else if offset \<in> {0x0f10..0x0f1f} then clear_pending_sgi g (offset - 0xf10) value
     else if offset \<in> {0x0f20..0x0f2f} then Inl Todo
     else Inl ExplicitPanic)"


section \<open>Well-formed states\<close>

lemma get_line_update [simp]:
  "get_line (g\<lparr>cpu_irq_line_pending := p\<rparr>) = get_line g" "get_line (g\<lparr>interrupt_pending := q\<rparr>) = get_line g"
  "get_line (g\<lparr>cpu_irq_line_running := r\<rparr>) = get_line g"
  by (simp_all add: get_line_def fun_eq_iff cong: if_cong)

lemma running_priority_update [simp]:
  "running_priority (g\<lparr>cpu_irq_line_pending := p\<rparr>) = running_priority g"
  "running_priority (g\<lparr>interrupt_pending := q\<rparr>) = running_priority g"
  by (simp_all add: running_priority_def split: option.split)

definition gic_wf :: "gic \<Rightarrow> bool" where
  "gic_wf g \<longleftrightarrow> length (gic_lines g) = LINE_COUNT
     \<and> (\<forall>i. cpu_irq_line_running g = Some i \<longrightarrow> i < LINE_COUNT)
     \<and> (\<forall>i. cpu_irq_line_pending g = Some i \<longrightarrow> i < LINE_COUNT)"

text \<open>The line the controller has to deliver: the lowest priority value, the lowest number among equals.\<close>

definition highest_priority :: "irq_line list \<Rightarrow> nat \<Rightarrow> nat \<Rightarrow> bool" where
  "highest_priority ls n b \<longleftrightarrow> b < n \<and> wants_service (ls ! b)
     \<and> (\<forall>i<n. wants_service (ls ! i) \<longrightarrow> priority (ls ! b) \<le> priority (ls ! i)
          \<and> (i < b \<longrightarrow> priority (ls ! b) < priority (ls ! i)))"

lemma highest_priority_unique: "highest_priority ls n b \<Longrightarrow> highest_priority ls n c \<Longrightarrow> b = c"
  unfolding highest_priority_def by (metis linorder_neqE_nat not_less)

definition best_so_far :: "irq_line list \<Rightarrow> nat \<Rightarrow> nat option \<Rightarrow> bool" where
  "best_so_far ls n best \<longleftrightarrow>
     (case best of None \<Rightarrow> \<forall>i<n. \<not> wants_service (ls ! i) | Some b \<Rightarrow> highest_priority ls n b)"

lemma best_so_far_Suc:
  assumes "best_so_far ls n best"
  shows "best_so_far ls (Suc n) (if wants_service (ls ! n) then
          (case best of None \<Rightarrow> Some n | Some b \<Rightarrow> if priority (ls ! n) < priority (ls ! b) then Some n else Some b)
        else best)"
  using assms unfolding best_so_far_def highest_priority_def
  by (cases best) (auto simp: less_Suc_eq not_less intro: order.strict_trans2)

lemma best_irq_spec:
  "best_so_far ls i best \<Longrightarrow> drop i ls = rest \<Longrightarrow> best_so_far ls (i + length rest) (best_irq ls i rest best)"
proof (induction rest arbitrary: i best)
  case (Cons l rest)
  have l: "l = ls ! i" "drop (Suc i) ls = rest"
    using Cons.prems(2) nth_via_drop [of i ls l rest] by (simp_all add: drop_Suc drop_tl)
  show ?case using Cons.IH [OF best_so_far_Suc [OF Cons.prems(1)] l(2)] by (simp add: l(1))
qed simp

lemma best_irq_all: "best_so_far ls (length ls) (best_irq ls 0 ls None)"
  using best_irq_spec [of ls 0 None ls] by (simp add: best_so_far_def)

lemma running_priority_Inr: "gic_wf g \<Longrightarrow> \<exists>r. running_priority g = Inr r"
  by (auto simp: running_priority_def get_line_def gic_wf_def split: option.splits)

text \<open>\<open>update\<close> never panics and only sets the pending line and the CPU's interrupt input.\<close>

lemma gic_update_Inr:
  assumes "gic_wf g"
  shows "\<exists>p q. gic_update g = Inr (g\<lparr>cpu_irq_line_pending := p, interrupt_pending := q\<rparr>)
    \<and> gic_wf (g\<lparr>cpu_irq_line_pending := p, interrupt_pending := q\<rparr>)"
proof -
  let ?g = "g\<lparr>cpu_irq_line_pending := None\<rparr>"
  have wf: "gic_wf ?g" using assms by (simp add: gic_wf_def)
  obtain r where r: "running_priority ?g = Inr r" using running_priority_Inr [OF wf] by blast
  have best: "b < length (gic_lines g)" if "best_irq (gic_lines g) 0 (gic_lines g) None = Some b" for b
    using best_irq_all [of "gic_lines g"] that by (simp add: best_so_far_def highest_priority_def)
  show ?thesis
    using assms r best by (cases "best_irq (gic_lines g) 0 (gic_lines g) None")
      (auto simp: gic_update_def Let_def get_line_def gic_wf_def running_priority_update)
qed

lemma gic_update_cases:
  assumes "gic_wf g" and "gic_update g = Inr g'"
  obtains p q where "g' = g\<lparr>cpu_irq_line_pending := p, interrupt_pending := q\<rparr>" and "gic_wf g'"
  using gic_update_Inr [OF assms(1)] assms(2) by auto

lemma gic_update_spec:
  assumes "gic_wf g" and "gic_update g = Inr g'" and "running_priority g = Inr r"
  shows "(\<forall>b. cpu_irq_line_pending g' = Some b \<longleftrightarrow>
           cpu_enabled g \<and> distributor_enabled g \<and> highest_priority (gic_lines g) LINE_COUNT b
           \<and> priority (gic_lines g ! b) < cpu_pmr g)
     \<and> (interrupt_pending g' \<longleftrightarrow>
           (\<exists>b. cpu_irq_line_pending g' = Some b \<and> unat (priority (gic_lines g ! b)) < r))"
proof -
  have len: "length (gic_lines g) = LINE_COUNT" using assms(1) by (simp add: gic_wf_def)
  have r: "running_priority (g\<lparr>cpu_irq_line_pending := None\<rparr>) = Inr r"
    using assms(3) by simp
  note best = best_irq_all [of "gic_lines g", unfolded len]
  show ?thesis
  proof (cases "best_irq (gic_lines g) 0 (gic_lines g) None")
    case None
    then have "\<not> highest_priority (gic_lines g) LINE_COUNT b" for b
      using best by (auto simp: best_so_far_def highest_priority_def)
    then show ?thesis using assms(2) None by (auto simp: gic_update_def Let_def split: if_splits)
  next
    case (Some c)
    then have c: "highest_priority (gic_lines g) LINE_COUNT c" using best by (simp add: best_so_far_def)
    then have u: "highest_priority (gic_lines g) LINE_COUNT b \<longleftrightarrow> b = c" for b
      using highest_priority_unique by blast
    have "c < LINE_COUNT" using c by (simp add: highest_priority_def)
    then have get: "get_line (g\<lparr>cpu_irq_line_pending := None\<rparr>) c = Inr (gic_lines g ! c)"
      using len by (simp add: get_line_def)
    show ?thesis using assms(2) Some r get by (auto simp: gic_update_def Let_def u split: if_splits)
  qed
qed

text \<open>
  C23: \<open>update\<close> selects the right interrupt: the pending line is the enabled line that is pending or
  held high with the lowest priority value, the lowest number among equals, provided it passes
  the priority mask; and the CPU is interrupted exactly when it also beats the line being served.
\<close>

theorem gic_update_selects:
  assumes "gic_wf g" and "gic_update g = Inr g'" and "running_priority g = Inr r"
  shows "(\<forall>b. cpu_irq_line_pending g' = Some b \<longleftrightarrow>
           cpu_enabled g \<and> distributor_enabled g \<and> highest_priority (gic_lines g) LINE_COUNT b
           \<and> priority (gic_lines g ! b) < cpu_pmr g)
     \<and> (interrupt_pending g' \<longleftrightarrow>
           (\<exists>b. cpu_irq_line_pending g' = Some b \<and> unat (priority (gic_lines g ! b)) < r))"
  by (rule gic_update_spec [OF assms])

definition ready_gic :: gic where
  "ready_gic = gic_new\<lparr>distributor_enabled := True, cpu_enabled := True, cpu_pmr := 0xff,
     gic_lines := (gic_lines gic_new)[50 := (gic_lines gic_new ! 50)\<lparr>enabled := True, raised := True, priority := 8\<rparr>]\<rparr>"

theorem gic_update_selects_witness:
  "\<exists>g'. gic_update ready_gic = Inr g' \<and> cpu_irq_line_pending g' = Some 50 \<and> interrupt_pending g'"
proof -
  let ?ls = "gic_lines ready_gic"
  have ls: "?ls ! i = (if i = 50 then (irq_line_new 0 0)\<lparr>enabled := True, raised := True, priority := 8\<rparr>
      else irq_line_new (if i < 16 then 2 else 0) (if i < 32 then 1 else 0))" if "i < LINE_COUNT" for i
    using that by (simp add: ready_gic_def gic_new_def LINE_COUNT_def nth_list_update)
  have wf: "gic_wf ready_gic" by (simp add: gic_wf_def ready_gic_def gic_new_def)
  have r: "running_priority ready_gic = Inr 0x100" by (simp add: running_priority_def ready_gic_def gic_new_def)
  have wants: "wants_service (?ls ! i) \<longleftrightarrow> i = 50" if "i < LINE_COUNT" for i
    using that by (simp add: ls wants_service_def level_triggered_def irq_line_new_def)
  have l50: "50 < LINE_COUNT" by (simp add: LINE_COUNT_def)
  have best: "highest_priority ?ls LINE_COUNT 50" using wants l50 by (auto simp: highest_priority_def)
  have prio: "priority (?ls ! 50) = 8" using l50 by (simp add: ls)
  obtain g' where g': "gic_update ready_gic = Inr g'" using gic_update_Inr [OF wf] by blast
  have cpu: "cpu_enabled ready_gic" "distributor_enabled ready_gic" "cpu_pmr ready_gic = 0xff"
    by (simp_all add: ready_gic_def)
  have "cpu_irq_line_pending g' = Some 50"
    using gic_update_selects [OF wf g' r] best prio cpu by simp
  moreover have "interrupt_pending g'"
    using gic_update_selects [OF wf g' r] prio calculation by simp
  ultimately show ?thesis using g' by blast
qed

section \<open>Driving lines\<close>

definition line_level :: "gic \<Rightarrow> nat \<Rightarrow> bool" where
  "line_level g i \<longleftrightarrow> i < length (gic_lines g) \<and> raised (gic_lines g ! i)"

lemma gic_wf_set_line [simp]: "gic_wf (set_line g i l) = gic_wf g"
  by (simp add: gic_wf_def set_line_def)

lemma line_level_set_line: "i < length (gic_lines g) \<Longrightarrow> line_level (set_line g i l) k \<longleftrightarrow> (if k = i then raised l else line_level g k)"
  by (auto simp: line_level_def set_line_def)

lemma line_level_update [simp]:
  "line_level (g\<lparr>cpu_irq_line_pending := p\<rparr>) = line_level g" "line_level (g\<lparr>interrupt_pending := q\<rparr>) = line_level g"
  by (simp_all add: line_level_def fun_eq_iff)

interpretation gic_irq: irq_controller gic_wf line_level LINE_COUNT gic_raise gic_rescind
proof
  fix g :: gic and line
  assume g: "gic_wf g" and line: "line < LINE_COUNT"
  then have get: "get_line g line = Inr (gic_lines g ! line)" and len: "line < length (gic_lines g)"
    by (simp_all add: gic_wf_def get_line_def)
  let ?l = "gic_lines g ! line"
  show "\<exists>g'. gic_raise g line = Inr g' \<and> gic_wf g' \<and> (\<forall>k. line_level g' k \<longleftrightarrow> k = line \<or> line_level g k)"
  proof (cases "raised ?l")
    case True
    then show ?thesis using g get len by (auto simp: gic_raise_def line_level_def)
  next
    case False
    define g1 where "g1 = set_line g line (if edge_triggered ?l then ?l\<lparr>raised := True, pending := True\<rparr> else ?l\<lparr>raised := True\<rparr>)"
    have "gic_wf g1" using g by (simp add: g1_def)
    then obtain p q where "gic_update g1 = Inr (g1\<lparr>cpu_irq_line_pending := p, interrupt_pending := q\<rparr>)"
        "gic_wf (g1\<lparr>cpu_irq_line_pending := p, interrupt_pending := q\<rparr>)"
      using gic_update_Inr by blast
    moreover have "gic_raise g line = gic_update g1" using get False by (simp add: gic_raise_def g1_def)
    moreover have "line_level g1 k \<longleftrightarrow> k = line \<or> line_level g k" for k
      using line_level_set_line [OF len] by (simp add: g1_def)
    ultimately show ?thesis by simp
  qed
  show "\<exists>g'. gic_rescind g line = Inr g' \<and> gic_wf g' \<and> (\<forall>k. line_level g' k \<longleftrightarrow> k \<noteq> line \<and> line_level g k)"
  proof (cases "raised ?l")
    case False
    then show ?thesis using g get len by (auto simp: gic_rescind_def line_level_def)
  next
    case True
    define g1 where "g1 = set_line g line (?l\<lparr>raised := False\<rparr>)"
    have "gic_wf g1" using g by (simp add: g1_def)
    then obtain p q where "gic_update g1 = Inr (g1\<lparr>cpu_irq_line_pending := p, interrupt_pending := q\<rparr>)"
        "gic_wf (g1\<lparr>cpu_irq_line_pending := p, interrupt_pending := q\<rparr>)"
      using gic_update_Inr by blast
    moreover have "gic_rescind g line = gic_update g1" using get True by (simp add: gic_rescind_def g1_def)
    moreover have "line_level g1 k \<longleftrightarrow> k \<noteq> line \<and> line_level g k" for k
      using line_level_set_line [OF len] by (simp add: g1_def)
    ultimately show ?thesis by simp
  qed
qed

section \<open>The chain of active interrupts\<close>

inductive chain :: "irq_line list \<Rightarrow> nat option \<Rightarrow> nat list \<Rightarrow> bool" for ls where
  chain_end: "chain ls None []"
| chain_line: "i < length ls \<Longrightarrow> chain ls (last_active (ls ! i)) c \<Longrightarrow> chain ls (Some i) (i # c)"

inductive_cases chain_NoneE: "chain ls None c"
inductive_cases chain_SomeE: "chain ls (Some i) c"

lemma chain_cong:
  "chain ls start c \<Longrightarrow> length ls' = length ls \<Longrightarrow> (\<And>i. i \<in> set c \<Longrightarrow> last_active (ls' ! i) = last_active (ls ! i))
   \<Longrightarrow> chain ls' start c"
  by (induction rule: chain.induct) (auto intro: chain.intros)

lemma chain_bound: "chain ls start c \<Longrightarrow> i \<in> set c \<Longrightarrow> i < length ls"
  by (induction rule: chain.induct) auto

text \<open>A handler is only preempted by a line of strictly higher priority, so priorities fall along the chain.\<close>

definition nested :: "irq_line list \<Rightarrow> nat list \<Rightarrow> bool" where
  "nested ls c \<longleftrightarrow> sorted_wrt (\<lambda>i j. priority (ls ! i) < priority (ls ! j)) c"

definition gic_chain :: "gic \<Rightarrow> bool" where
  "gic_chain g \<longleftrightarrow> gic_wf g \<and> (\<exists>c. chain (gic_lines g) (cpu_irq_line_running g) c \<and> nested (gic_lines g) c)"

lemma nested_distinct: "nested ls c \<Longrightarrow> distinct c"
  unfolding nested_def by (induction c) auto

lemma gic_chain_cong:
  assumes "gic_chain g" and "gic_wf g'" and "cpu_irq_line_running g' = cpu_irq_line_running g"
    and "\<And>c i. chain (gic_lines g) (cpu_irq_line_running g) c \<Longrightarrow> i \<in> set c \<Longrightarrow>
      last_active (gic_lines g' ! i) = last_active (gic_lines g ! i) \<and> priority (gic_lines g' ! i) = priority (gic_lines g ! i)"
  shows "gic_chain g'"
proof -
  obtain c where c: "chain (gic_lines g) (cpu_irq_line_running g) c" "nested (gic_lines g) c" and "gic_wf g"
    using assms(1) by (auto simp: gic_chain_def)
  then have len: "length (gic_lines g') = length (gic_lines g)" using assms(2) by (simp add: gic_wf_def)
  have "chain (gic_lines g') (cpu_irq_line_running g') c"
    using chain_cong [OF c(1) len] assms(3,4) c(1) by simp
  moreover have "nested (gic_lines g') c"
    using c(2) assms(4) [OF c(1)] unfolding nested_def by (simp add: sorted_wrt_iff_nth_less)
  ultimately show ?thesis using assms(2) by (auto simp: gic_chain_def)
qed

lemma gic_chain_update:
  assumes "gic_chain g" and "gic_update g = Inr g'"
  shows "gic_chain g'"
proof -
  have "gic_wf g" using assms(1) by (simp add: gic_chain_def)
  then obtain p q where "g' = g\<lparr>cpu_irq_line_pending := p, interrupt_pending := q\<rparr>" "gic_wf g'"
    using assms(2) by (rule gic_update_cases)
  then show ?thesis using assms(1) by (simp add: gic_chain_def)
qed

lemma gic_chain_acknowledge:
  assumes "gic_chain g" and "acknowledge g = Inr (g', n)"
  shows "gic_chain g'"
proof (cases "cpu_irq_line_pending g")
  case None
  then show ?thesis
    using assms by (auto simp: acknowledge_def gic_chain_def gic_wf_def nested_def
        intro: chain.intros intro!: exI [of _ "[]"])
next
  case (Some i)
  obtain c where c: "chain (gic_lines g) (cpu_irq_line_running g) c" "nested (gic_lines g) c" and wf: "gic_wf g"
    using assms(1) by (auto simp: gic_chain_def)
  have i: "i < length (gic_lines g)" using wf Some by (simp add: gic_wf_def)
  let ?l = "gic_lines g ! i"
  obtain r where r: "running_priority g = Inr r" using running_priority_Inr [OF wf] by blast
  show ?thesis
  proof (cases "r \<le> unat (priority ?l)")
    case True
    then show ?thesis using assms Some i r by (auto simp: acknowledge_def get_line_def)
  next
    case False
    define ls where "ls = (gic_lines g)[i := ?l\<lparr>last_active := cpu_irq_line_running g, pending := False\<rparr>]"
    define g1 where "g1 = g\<lparr>gic_lines := ls, cpu_irq_line_running := Some i\<rparr>"
    have upd: "gic_update g1 = Inr g'"
      using assms(2) Some i r False
      by (auto simp: acknowledge_def get_line_def set_line_def g1_def ls_def Let_def rbind_eq_Inr)
    have below: "priority ?l < priority (gic_lines g ! j)" if j: "j \<in> set c" for j
    proof -
      obtain k where k: "cpu_irq_line_running g = Some k"
        using c(1) j by (cases "cpu_irq_line_running g") (auto elim: chain_NoneE)
      then obtain c' where c': "c = k # c'" using c(1) by (auto elim: chain_SomeE)
      have "r = unat (priority (gic_lines g ! k))"
        using r k wf by (auto simp: running_priority_def get_line_def gic_wf_def)
      then have "priority ?l < priority (gic_lines g ! k)" using False by (simp add: word_less_nat_alt)
      moreover have "j = k \<or> priority (gic_lines g ! k) < priority (gic_lines g ! j)"
        using c(2) j unfolding c' nested_def by auto
      ultimately show ?thesis by (metis order.strict_trans)
    qed
    then have fresh: "i \<notin> set c" by auto
    have len: "length ls = length (gic_lines g)" by (simp add: ls_def)
    have same: "priority (ls ! j) = priority (gic_lines g ! j)" for j
      by (cases "j = i") (use i in \<open>auto simp: ls_def\<close>)
    have "chain ls (cpu_irq_line_running g) c"
    proof (rule chain_cong [OF c(1) len])
      fix j assume "j \<in> set c"
      then have "j \<noteq> i" using fresh by auto
      then show "last_active (ls ! j) = last_active (gic_lines g ! j)" by (simp add: ls_def)
    qed
    then have "chain ls (Some i) (i # c)" using i by (intro chain_line) (simp_all add: ls_def)
    moreover have "nested ls (i # c)" using c(2) below unfolding nested_def same by simp
    moreover have "gic_wf g1" using wf i by (simp add: g1_def gic_wf_def ls_def)
    ultimately have "gic_chain g1" by (auto simp: gic_chain_def g1_def)
    then show ?thesis using upd by (rule gic_chain_update)
  qed
qed


text \<open>Ending an interrupt that is not the running one walks the chain and changes nothing.\<close>

lemma eoi_walk_returns:
  "chain (gic_lines g) start c \<Longrightarrow> length c < n \<Longrightarrow> eoi_walk n g irqid start = Inr g"
proof (induction arbitrary: n rule: chain.induct)
  case chain_end
  then show ?case by (cases n) auto
next
  case (chain_line i c)
  then obtain m where n: "n = Suc m" by (cases n) auto
  have "set_line g i ((gic_lines g ! i)\<lparr>last_active := last_active (gic_lines g ! i)\<rparr>) = g"
    by (simp add: set_line_def)
  with chain_line n show ?case by (auto simp: get_line_def)
qed

lemma chain_length:
  assumes "gic_wf g" and "chain (gic_lines g) start c" and "nested (gic_lines g) c"
  shows "length c \<le> LINE_COUNT"
proof -
  have "set c \<subseteq> {..<LINE_COUNT}" using chain_bound [OF assms(2)] assms(1) by (auto simp: gic_wf_def)
  then have "card (set c) \<le> LINE_COUNT" using card_mono [OF finite_lessThan] by fastforce
  then show ?thesis using distinct_card [OF nested_distinct [OF assms(3)]] by simp
qed

lemma gic_chain_eoi:
  assumes "gic_chain g" and "LINE_COUNT < fuel"
  shows "\<exists>g'. eoi fuel g irqid = Inr g' \<and> gic_chain g'"
proof -
  obtain c where c: "chain (gic_lines g) (cpu_irq_line_running g) c" "nested (gic_lines g) c" and wf: "gic_wf g"
    using assms(1) by (auto simp: gic_chain_def)
  have upd: "\<exists>g'. gic_update h = Inr g' \<and> gic_chain g'" if "gic_chain h" for h
    using gic_update_Inr [of h] that gic_chain_update [OF that] by (auto simp: gic_chain_def)
  show ?thesis
  proof (cases "length (gic_lines g) \<le> irqid \<or> cpu_irq_line_running g = None")
    case True
    then show ?thesis using assms(1) by (auto simp: eoi_def split: option.splits)
  next
    case False
    then obtain i where i: "cpu_irq_line_running g = Some i" "irqid < length (gic_lines g)" by auto
    then obtain c' where c': "c = i # c'" "i < length (gic_lines g)" "chain (gic_lines g) (last_active (gic_lines g ! i)) c'"
      using c(1) by (auto elim: chain_SomeE)
    have get: "get_line g i = Inr (gic_lines g ! i)" using c'(2) by (simp add: get_line_def)
    show ?thesis
    proof (cases "irqid = i")
      case True
      let ?g = "g\<lparr>cpu_irq_line_running := last_active (gic_lines g ! i)\<rparr>"
      have "gic_wf ?g"
        using wf c'(3) by (auto simp: gic_wf_def elim: chain.cases)
      then have "gic_chain ?g" using c(2) c'(1,3) by (auto simp: gic_chain_def nested_def)
      then show ?thesis using upd [of ?g] i get True by (simp add: eoi_def)
    next
      case other: False
      have "eoi_walk fuel g irqid (Some i) = Inr g"
        using eoi_walk_returns [OF c(1)] chain_length [OF wf c] assms(2) i(1) by simp
      then show ?thesis using upd [OF assms(1)] i get other by (simp add: eoi_def)
    qed
  qed
qed

lemma gic_chain_set_line:
  assumes "gic_chain g" and "i < length (gic_lines g)" and "last_active l = last_active (gic_lines g ! i)"
    and "priority l = priority (gic_lines g ! i)"
  shows "gic_chain (set_line g i l)"
  by (rule gic_chain_cong [OF assms(1)])
    (use assms in \<open>auto simp: gic_chain_def set_line_def gic_wf_def nth_list_update\<close>)

lemma gic_chain_set_update:
  assumes "gic_update (set_line g i l) = Inr g'" and "gic_chain g" and "i < length (gic_lines g)"
    and "last_active l = last_active (gic_lines g ! i)" and "priority l = priority (gic_lines g ! i)"
  shows "gic_chain g'"
  using gic_chain_update [OF gic_chain_set_line [OF assms(2-)] assms(1)] .

lemma gic_chain_raise: "gic_chain g \<Longrightarrow> gic_raise g line = Inr g' \<Longrightarrow> gic_chain g'"
  and gic_chain_rescind: "gic_chain g \<Longrightarrow> gic_rescind g line = Inr g' \<Longrightarrow> gic_chain g'"
  by (auto simp: gic_raise_def gic_rescind_def rbind_eq_Inr get_line_def split: if_splits
      intro: gic_chain_set_update)

lemma gic_chain_map_lines:
  assumes "gic_chain g" and "map_lines g base len bits f = Inr g'"
    and "\<And>i l. last_active (f i l) = last_active l"
    and "\<And>i l. cpu_irq_line_running g \<noteq> None \<Longrightarrow> priority (f i l) = priority l"
  shows "gic_chain g'"
proof (rule gic_chain_cong [OF assms(1)])
  have wf: "gic_wf g" using assms(1) by (simp add: gic_chain_def)
  obtain a b where g': "g' = g\<lparr>gic_lines := map (\<lambda>i. if a \<le> i \<and> i < b then f (i - a) (gic_lines g ! i) else gic_lines g ! i)
      [0..<length (gic_lines g)]\<rparr>"
    using assms(2) by (auto simp: map_lines_def rbind_eq_Inr)
  then show "gic_wf g'" "cpu_irq_line_running g' = cpu_irq_line_running g" using wf by (simp_all add: gic_wf_def)
  fix c i
  assume c: "chain (gic_lines g) (cpu_irq_line_running g) c" "i \<in> set c"
  then have "cpu_irq_line_running g \<noteq> None" by (auto elim: chain.cases)
  with c chain_bound [OF c] show "last_active (gic_lines g' ! i) = last_active (gic_lines g ! i)
      \<and> priority (gic_lines g' ! i) = priority (gic_lines g ! i)"
    using assms(3,4) by (simp add: g')
qed


lemma gic_chain_clear_pending:
  assumes "gic_chain g" and "clear_pending_sgi g base value = Inr g'"
  shows "gic_chain g'"
proof -
  obtain a b where run: "foldR (\<lambda>i g. rbind (get_line g i) (\<lambda>l.
        gic_rescind (set_line g i (l\<lparr>pending := (pending l \<and> \<not> bit value (i - a))\<rparr>)) i)) [a..<b] g = Inr g'"
    using assms(2) by (auto simp: clear_pending_sgi_def rbind_eq_Inr)
  show ?thesis
    by (rule foldR_invariant [where P = gic_chain, OF _ assms(1) run])
      (auto simp: rbind_eq_Inr get_line_def split: if_splits elim!: gic_chain_rescind [rotated] intro!: gic_chain_set_line)
qed

text \<open>Priorities may be written when no interrupt is being handled.\<close>

definition sets_priority :: "nat \<Rightarrow> bool" where
  "sets_priority offset \<longleftrightarrow> offset \<in> {0x0400..0x07fb}"

lemma gic_chain_fields:
  "gic_chain (g\<lparr>distributor_enabled := b\<rparr>) = gic_chain g" "gic_chain (g\<lparr>cpu_enabled := b\<rparr>) = gic_chain g"
  "gic_chain (g\<lparr>cpu_pmr := m\<rparr>) = gic_chain g"
  by (simp_all add: gic_chain_def gic_wf_def)

lemma gic_chain_dist_write:
  assumes "gic_chain g" and "dist_write g offset bs = Inr g'"
    and "sets_priority offset \<Longrightarrow> cpu_irq_line_running g = None"
  shows "gic_chain g'"
proof -
  have prio: "offset \<in> {0x0400..0x07fb} \<Longrightarrow> cpu_irq_line_running g = None" using assms(3) by (simp add: sets_priority_def)
  show ?thesis
    using assms(1,2) prio unfolding dist_write_def
    by (elim rbind_InrE)
      (auto simp: Let_def gic_chain_fields simp del: atLeastAtMost_iff split: if_split_asm
        intro: gic_chain_map_lines [OF assms(1)] gic_chain_raise [OF assms(1)] gic_chain_clear_pending [OF assms(1)])
qed

section \<open>Reachable states\<close>

definition EOI_FUEL :: nat where "EOI_FUEL = LINE_COUNT + 1"

inductive gic_reachable :: "gic \<Rightarrow> bool" where
  gic_start: "gic_reachable gic_new"
| gic_raised: "gic_reachable g \<Longrightarrow> gic_raise g line = Inr g' \<Longrightarrow> gic_reachable g'"
| gic_rescinded: "gic_reachable g \<Longrightarrow> gic_rescind g line = Inr g' \<Longrightarrow> gic_reachable g'"
| gic_cpu_read: "gic_reachable g \<Longrightarrow> cpu_read g offset len = Inr (g', bs) \<Longrightarrow> gic_reachable g'"
| gic_cpu_write: "gic_reachable g \<Longrightarrow> cpu_write EOI_FUEL g offset bs = Inr g' \<Longrightarrow> gic_reachable g'"
| gic_dist_write: "gic_reachable g \<Longrightarrow> dist_write g offset bs = Inr g'
    \<Longrightarrow> (sets_priority offset \<Longrightarrow> cpu_irq_line_running g = None) \<Longrightarrow> gic_reachable g'"

lemma gic_chain_new: "gic_chain gic_new"
  by (auto simp: gic_chain_def gic_wf_def gic_new_def nested_def intro: chain.intros intro!: exI [of _ "[]"])

lemma gic_reachable_chain: "gic_reachable g \<Longrightarrow> gic_chain g"
proof (induction rule: gic_reachable.induct)
  case (gic_cpu_read g offset len g' bs)
  then show ?case by (auto simp: cpu_read_def rbind_eq_Inr split: if_splits dest: gic_chain_acknowledge)
next
  case (gic_cpu_write g offset bs g')
  then show ?case
    using gic_chain_eoi [of g EOI_FUEL]
    by (auto simp: cpu_write_def rbind_eq_Inr gic_chain_fields EOI_FUEL_def split: if_splits) (metis sum.inject(2))
next
  case (gic_dist_write g offset bs g')
  then show ?case using gic_chain_dist_write by blast
qed (auto intro: gic_chain_new gic_chain_raise gic_chain_rescind)

text \<open>
  C24: as long as priorities are only written while no interrupt is being handled, the interrupts
  taken and not yet ended form a finite chain without repetition, in which each preempted one of
  strictly lower priority, and every end-of-interrupt write returns, for any interrupt number.
\<close>

theorem gic_eoi_returns:
  assumes "gic_reachable g"
  shows "(\<exists>c. chain (gic_lines g) (cpu_irq_line_running g) c \<and> distinct c \<and> nested (gic_lines g) c)
    \<and> (\<forall>irqid. \<exists>g'. eoi EOI_FUEL g irqid = Inr g')"
  using gic_reachable_chain [OF assms] gic_chain_eoi [of g EOI_FUEL] nested_distinct
  by (fastforce simp: gic_chain_def EOI_FUEL_def)

theorem gic_eoi_returns_witness: "gic_reachable gic_new \<and> (\<exists>g'. eoi EOI_FUEL gic_new 5 = Inr g')"
  using gic_eoi_returns [OF gic_start] gic_start by blast

text \<open>A chain that has become a cycle is walked forever.\<close>

lemma eoi_walk_cycle:
  assumes "gic_lines g ! a = la" "gic_lines g ! b = lb" "last_active la = Some b" "last_active lb = Some a"
    and "a < length (gic_lines g)" "b < length (gic_lines g)" "irqid \<noteq> a" "irqid \<noteq> b"
  shows "eoi_walk n g irqid (Some a) = Inl OutOfFuel \<and> eoi_walk n g irqid (Some b) = Inl OutOfFuel"
  by (induction n) (use assms in \<open>auto simp: get_line_def\<close>)

text \<open>
  Lowering the priority value of an interrupt while its handler is preempted breaks the chain:
  when line \<open>b\<close> was preempted by \<open>a\<close>, is pending again and now has the higher priority, taking
  it makes the chain a cycle, and ending any third interrupt then never returns.
\<close>

theorem gic_eoi_diverges:
  assumes "gic_wf g" and "cpu_irq_line_running g = Some a" and "last_active (gic_lines g ! a) = Some b"
    and "cpu_irq_line_pending g = Some b" and "priority (gic_lines g ! b) < priority (gic_lines g ! a)"
    and "irqid < LINE_COUNT" and "irqid \<noteq> a" and "irqid \<noteq> b"
  shows "\<exists>g'. acknowledge g = Inr (g', b) \<and> (\<forall>n. eoi n g' irqid = Inl OutOfFuel)"
proof -
  have ab: "a < LINE_COUNT" "b < LINE_COUNT" "a \<noteq> b" and len: "length (gic_lines g) = LINE_COUNT"
    using assms(1,2,4,5) by (auto simp: gic_wf_def)
  define g1 where "g1 = (set_line g b ((gic_lines g ! b)\<lparr>last_active := Some a, pending := False\<rparr>))\<lparr>cpu_irq_line_running := Some b\<rparr>"
  have "gic_wf g1" using assms(1) ab by (simp add: g1_def gic_wf_def set_line_def)
  then obtain p q where upd: "gic_update g1 = Inr (g1\<lparr>cpu_irq_line_pending := p, interrupt_pending := q\<rparr>)"
    using gic_update_Inr by blast
  let ?g = "g1\<lparr>cpu_irq_line_pending := p, interrupt_pending := q\<rparr>"
  have "running_priority g = Inr (unat (priority (gic_lines g ! a)))"
    using assms(2) ab len by (simp add: running_priority_def get_line_def)
  moreover have "\<not> unat (priority (gic_lines g ! a)) \<le> unat (priority (gic_lines g ! b))"
    using assms(5) by (simp add: word_less_nat_alt)
  moreover have "u32_try_from_usize b = Inr b" using ab by (simp add: u32_try_from_usize_def LINE_COUNT_def)
  ultimately have ack: "acknowledge g = Inr (?g, b)"
    using assms(2,4) ab len upd by (simp add: acknowledge_def get_line_def Let_def g1_def)
  have lines: "gic_lines ?g ! b = (gic_lines g ! b)\<lparr>last_active := Some a, pending := False\<rparr>"
      "gic_lines ?g ! a = gic_lines g ! a" "length (gic_lines ?g) = LINE_COUNT" "cpu_irq_line_running ?g = Some b"
    using ab len by (simp_all add: g1_def set_line_def)
  have "eoi_walk n ?g irqid (Some b) = Inl OutOfFuel" for n
    using eoi_walk_cycle [of ?g b _ a _ irqid n] lines assms(3,7,8) ab by simp
  then have "eoi n ?g irqid = Inl OutOfFuel" for n
    using lines assms(6,8) ab by (simp add: eoi_def get_line_def)
  with ack show ?thesis by blast
qed

definition sample_gic :: gic where
  "sample_gic = gic_new\<lparr>
     gic_lines := (gic_lines gic_new)[40 := (gic_lines gic_new ! 40)\<lparr>priority := 8, last_active := Some 41\<rparr>,
                                       41 := (gic_lines gic_new ! 41)\<lparr>priority := 4\<rparr>],
     cpu_irq_line_running := Some 40, cpu_irq_line_pending := Some 41\<rparr>"

theorem gic_eoi_diverges_witness: "\<exists>g'. acknowledge sample_gic = Inr (g', 41) \<and> (\<forall>n. eoi n g' 7 = Inl OutOfFuel)"
proof -
  have len: "length (gic_lines gic_new) = 1020" by (simp add: gic_new_def LINE_COUNT_def)
  have wf: "gic_wf sample_gic" by (simp add: gic_wf_def sample_gic_def len LINE_COUNT_def)
  show ?thesis
    by (rule gic_eoi_diverges [OF wf, of 40]) (simp_all add: sample_gic_def len LINE_COUNT_def)
qed

text \<open>
  The clear-enable register enables lines: it stores the negated conjunction of the line's
  state and the written bit, so writing zero, which by the architecture has no effect, enables
  all 32 lines of the register.
\<close>

theorem gic_clear_enable_enables:
  assumes "gic_wf g"
  shows "\<exists>g'. dist_write g 0x180 [0, 0, 0, 0] = Inr g' \<and> (\<forall>i<32. enabled (gic_lines g' ! i))"
proof -
  have len: "length (gic_lines g) = 1020" using assms by (simp add: gic_wf_def LINE_COUNT_def)
  show ?thesis
    by (simp add: dist_write_def word_argument_def map_lines_def lines_for_bitvector_def len Let_def nand_def)
qed

theorem gic_clear_enable_enables_witness:
  "\<not> enabled (gic_lines gic_new ! 3) \<and> (\<exists>g'. dist_write gic_new 0x180 [0, 0, 0, 0] = Inr g' \<and> enabled (gic_lines g' ! 3))"
proof -
  have "gic_wf gic_new" using gic_chain_new by (simp add: gic_chain_def)
  moreover have "\<not> enabled (gic_lines gic_new ! 3)" by (simp add: gic_new_def LINE_COUNT_def irq_line_new_def)
  ultimately show ?thesis using gic_clear_enable_enables [of gic_new] by force
qed

text \<open>The upper half of the interrupt configuration registers is out of range of the line array.\<close>

lemma gic_config_out_of_range:
  "length bs = 4 \<Longrightarrow> dist_write g 0xd00 bs = Inl IndexOutOfBounds"
  by (simp add: dist_write_def word_argument_def map_lines_def lines_for_bitvector_def Let_def)

end
