(* ===== verification/Pl011.thy ===== *)
theory Pl011
  imports Gic
begin

text \<open>
  The guest's UART, \<open>brig/devices/primecell/pl011/src/lib.rs\<close>.  The device is wired to an interrupt
  controller, which is a parameter (\<open>raise\<close> and \<open>rescind\<close>) with the laws of \<open>irq_controller\<close>; the
  characters the kernel prints for it are a field of the state.  A read returns the destination
  slice after the access, so the bytes the code leaves alone are visible.
\<close>

unbundle bit_operations_syntax

record pl011 =
  control_register :: u16
  baud_rate :: u16
  fractional_baud :: u16
  line_control :: u16
  ifl :: u16
  irq_status :: u32
  irq_mask :: u32
  printed :: "u8 list"

definition IRQ_TXINTR :: u32 where "IRQ_TXINTR = push_bit 5 1"

definition pl011_new :: pl011 where
  "pl011_new = \<lparr>control_register = 0x300, baud_rate = 0, fractional_baud = 0, line_control = 0, ifl = 0x12,
     irq_status = 0, irq_mask = 0, printed = []\<rparr>"

definition pl011_asserted :: "pl011 \<Rightarrow> bool" where
  "pl011_asserted d \<longleftrightarrow> irq_status d AND irq_mask d \<noteq> 0"

definition update_irq :: "('c \<Rightarrow> nat \<Rightarrow> 'c res) \<Rightarrow> ('c \<Rightarrow> nat \<Rightarrow> 'c res) \<Rightarrow> nat \<Rightarrow> pl011 \<Rightarrow> 'c \<Rightarrow> 'c res" where
  "update_irq raise rescind irq_line d = drive_line raise rescind (pl011_asserted d) irq_line"

section \<open>Reads\<close>

text \<open>\<open>dst[..n].copy_from_slice(..)\<close> and \<open>dst[0] = b\<close>: a shorter destination panics.\<close>

definition fill_front :: "u8 list \<Rightarrow> u8 list \<Rightarrow> u8 list res" where
  "fill_front dst bs = (if length bs \<le> length dst then Inr (bs @ drop (length bs) dst) else Inl IndexOutOfBounds)"

definition pl011_read :: "pl011 \<Rightarrow> nat \<Rightarrow> u8 list \<Rightarrow> u8 list res" where
  "pl011_read d offset dst =
     (if offset = 0x000 then Inr dst
      else if offset = 0x004 then Inr (replicate (length dst) 0)
      else if offset = 0x018 then
        fill_front dst [(if line_control d AND 0x10 = 0 then 0x40 else 0) OR 0x80]
      else if offset = 0x024 then fill_front dst (le_bytes 2 (unat (baud_rate d)))
      else if offset = 0x028 then fill_front dst (le_bytes 2 (unat (fractional_baud d)))
      else if offset = 0x02c then fill_front dst (le_bytes 2 (unat (line_control d)))
      else if offset = 0x030 then fill_front dst (le_bytes 2 (unat (control_register d)))
      else if offset = 0x034 then fill_front dst (le_bytes 2 (unat (ifl d)))
      else if offset = 0x038 then fill_front dst (le_bytes 2 (unat (ucast (irq_mask d) :: u16)))
      else if offset = 0x03c then fill_front dst (le_bytes 4 (unat (irq_status d)))
      else if offset = 0xfe0 then fill_front dst [0x11]
      else if offset = 0xfe4 then fill_front dst [0x10]
      else if offset = 0xfe8 then fill_front dst [0x14]
      else if offset = 0xfec then fill_front dst [0x00]
      else if offset = 0xff0 then fill_front dst [0x0d]
      else if offset = 0xff4 then fill_front dst [0xf0]
      else if offset = 0xff8 then fill_front dst [0x05]
      else if offset = 0xffc then fill_front dst [0xb1]
      else Inl ExplicitPanic)"

section \<open>Writes\<close>

definition u16_argument :: "u8 list \<Rightarrow> u16 res" where
  "u16_argument bs = (if length bs = 2 then Inr (word_of_nat (from_le bs)) else Inl UnwrapFailed)"

definition u16_or_u32_argument :: "u8 list \<Rightarrow> u32 res" where
  "u16_or_u32_argument bs = (if length bs = 2 \<or> length bs = 4 then Inr (word_of_nat (from_le bs)) else Inl Todo)"

definition pl011_write ::
    "('c \<Rightarrow> nat \<Rightarrow> 'c res) \<Rightarrow> ('c \<Rightarrow> nat \<Rightarrow> 'c res) \<Rightarrow> nat \<Rightarrow> nat \<Rightarrow> u8 list \<Rightarrow> pl011 \<times> 'c \<Rightarrow> (pl011 \<times> 'c) res" where
  "pl011_write raise rescind irq_line offset src = (\<lambda>(d, c).
     let updated = (\<lambda>d. rbind (update_irq raise rescind irq_line d c) (\<lambda>c. Inr (d, c))) in
     if offset = 0x000 then
       (case src of
          [] \<Rightarrow> Inl IndexOutOfBounds
        | ch # _ \<Rightarrow> updated (d\<lparr>printed := printed d @ [ch], irq_status := irq_status d OR IRQ_TXINTR\<rparr>))
     else if offset = 0x004 then Inr (d, c)
     else if offset = 0x024 then
       rbind (u16_argument src) (\<lambda>v. Inr (d\<lparr>baud_rate := v AND 0xffff\<rparr>, c))
     else if offset = 0x028 then
       rbind (u16_argument src) (\<lambda>v. Inr (d\<lparr>fractional_baud := v AND 0x3f\<rparr>, c))
     else if offset = 0x02c then
       rbind (u16_argument src) (\<lambda>v. Inr (d\<lparr>line_control := v AND 0xff\<rparr>, c))
     else if offset = 0x030 then
       rbind (u16_argument src) (\<lambda>v. Inr (d\<lparr>control_register := v\<rparr>, c))
     else if offset = 0x034 then rbind (u16_argument src) (\<lambda>v. updated (d\<lparr>ifl := v\<rparr>))
     else if offset = 0x038 then
       rbind (u16_argument src) (\<lambda>v. updated (d\<lparr>irq_mask := ucast (v AND 0x7ff)\<rparr>))
     else if offset = 0x044 then
       rbind (u16_or_u32_argument src) (\<lambda>v. updated (d\<lparr>irq_status := irq_status d AND NOT v\<rparr>))
     else Inl ExplicitPanic)"

section \<open>The interrupt line follows the registers\<close>

definition wired :: "('c \<Rightarrow> bool) \<Rightarrow> ('c \<Rightarrow> nat \<Rightarrow> bool) \<Rightarrow> nat \<Rightarrow> pl011 \<times> 'c \<Rightarrow> bool" where
  "wired valid level irq_line = (\<lambda>(d, c). valid c \<and> level c irq_line = pl011_asserted d)"

text \<open>Which requests the device accepts: the registers it has, at the sizes their arms convert.\<close>

definition pl011_accepts :: "nat \<Rightarrow> nat \<Rightarrow> bool" where
  "pl011_accepts offset len \<longleftrightarrow>
     offset = 0x000 \<and> 0 < len \<or> offset = 0x004 \<or> offset \<in> {0x024, 0x028, 0x02c, 0x030, 0x034, 0x038} \<and> len = 2
     \<or> offset = 0x044 \<and> (len = 2 \<or> len = 4)"

lemmas pl011_write_defs = pl011_write_def update_irq_def u16_argument_def u16_or_u32_argument_def Let_def

context irq_controller
begin

lemma pl011_update_wired:
  assumes "valid c" and "irq_line < line_count"
  shows "\<exists>c'. update_irq raise rescind irq_line d c = Inr c' \<and> wired valid level irq_line (d, c')
    \<and> (\<forall>k. k \<noteq> irq_line \<longrightarrow> level c' k = level c k)"
  using drive_ok [OF assms] by (auto simp: update_irq_def wired_def)

text \<open>A write that changes neither status nor mask leaves the controller alone; the others drive the line.\<close>

lemma pl011_write_cases:
  assumes "pl011_accepts offset (length src)"
  shows "\<exists>d'. pl011_write raise rescind irq_line offset src (d, c) = Inr (d', c) \<and> pl011_asserted d' = pl011_asserted d
    \<or> pl011_write raise rescind irq_line offset src (d, c) = rbind (update_irq raise rescind irq_line d' c) (\<lambda>c. Inr (d', c))"
proof -
  consider "offset = 0" "src \<noteq> []" | "offset = 4" | "offset \<in> {0x24, 0x28, 0x2c, 0x30}" "length src = 2"
    | "offset \<in> {0x34, 0x38}" "length src = 2" | "offset = 0x44" "length src = 2 \<or> length src = 4"
    using assms unfolding pl011_accepts_def by fastforce
  then show ?thesis
  proof cases
    case 1
    then show ?thesis by (cases src) (auto simp: pl011_write_def Let_def)
  next
    case 3
    then show ?thesis by (auto simp: pl011_write_def Let_def pl011_asserted_def u16_argument_def ex_disj_distrib)
  qed (auto simp: pl011_write_def Let_def u16_argument_def u16_or_u32_argument_def)
qed

lemma pl011_write_wired:
  assumes "wired valid level irq_line (d, c)" and "irq_line < line_count" and "pl011_accepts offset (length src)"
  shows "\<exists>d' c'. pl011_write raise rescind irq_line offset src (d, c) = Inr (d', c')
    \<and> wired valid level irq_line (d', c') \<and> (\<forall>k. k \<noteq> irq_line \<longrightarrow> level c' k = level c k)"
proof -
  have c: "valid c" using assms(1) by (simp add: wired_def)
  obtain d' where "pl011_write raise rescind irq_line offset src (d, c) = Inr (d', c) \<and> pl011_asserted d' = pl011_asserted d
      \<or> pl011_write raise rescind irq_line offset src (d, c) = rbind (update_irq raise rescind irq_line d' c) (\<lambda>c. Inr (d', c))"
    using pl011_write_cases [OF assms(3)] by blast
  with assms(1) pl011_update_wired [OF c assms(2), of d'] show ?thesis by (auto simp: wired_def)
qed

end

lemma pl011_write_rejects:
  "\<not> pl011_accepts offset (length src) \<Longrightarrow> \<exists>e. pl011_write raise rescind irq_line offset src s = Inl e"
  unfolding pl011_accepts_def pl011_write_def Let_def
  by (cases s; cases src) (auto simp: u16_argument_def u16_or_u32_argument_def)

text \<open>
  C25: the UART's interrupt line always follows its registers: from a state in which the line is
  high exactly when a raised status bit is unmasked, every write the device accepts returns, ends
  in such a state again and moves no other line of the controller; every other write panics.
\<close>

theorem pl011_drives_its_line:
  assumes "wired gic_wf line_level irq_line (d, g)" and "irq_line < LINE_COUNT"
  shows "if pl011_accepts offset (length src)
    then \<exists>d' g'. pl011_write gic_raise gic_rescind irq_line offset src (d, g) = Inr (d', g')
      \<and> wired gic_wf line_level irq_line (d', g') \<and> (\<forall>k. k \<noteq> irq_line \<longrightarrow> line_level g' k = line_level g k)
    else \<exists>e. pl011_write gic_raise gic_rescind irq_line offset src (d, g) = Inl e"
  using gic_irq.pl011_write_wired [OF assms, of offset src]
    pl011_write_rejects [of offset src gic_raise gic_rescind irq_line "(d, g)"] by simp

lemma wired_new: "wired gic_wf line_level irq_line (pl011_new, gic_new)"
  using gic_chain_new
  by (auto simp: wired_def gic_chain_def line_level_def pl011_asserted_def pl011_new_def gic_new_def irq_line_new_def)

theorem pl011_drives_its_line_witness:
  "\<exists>d' g'. pl011_write gic_raise gic_rescind 33 0x000 [0x41] (pl011_new, gic_new) = Inr (d', g')
     \<and> wired gic_wf line_level 33 (d', g')"
  using pl011_drives_its_line [OF wired_new, of 33 0 "[0x41]"] by (auto simp: LINE_COUNT_def pl011_accepts_def)

text \<open>
  What the guest writes to a configuration register it reads back, up to the bits the
  register does not have, and the bytes of the destination behind it are left alone.
\<close>

lemma pl011_register_round_trip:
  assumes "length src = 2"
    and "(offset, m) \<in> {(0x024, 0xffff), (0x028, 0x3f), (0x02c, 0xff), (0x030, 0xffff), (0x034, 0xffff), (0x038, 0x7ff)}"
    and "pl011_write raise rescind irq_line offset src (d, c) = Inr (d', c')" and "2 \<le> length dst"
  shows "pl011_read d' offset dst = Inr (le_bytes 2 (unat ((word_of_nat (from_le src) :: u16) AND m)) @ drop 2 dst)"
proof -
  have id: "(x :: u16) AND 0xffff = x" for x
    using take_bit_word_eq_self [of 16 x] by (simp add: take_bit_eq_mask mask_eq_exp_minus_1)
  have up: "(ucast (ucast (x :: u16) :: u32) :: u16) = x" for x
    by (rule bit_word_eqI) (auto simp: bit_simps)
  note [simp] = pl011_write_def pl011_read_def u16_argument_def Let_def fill_front_def
  show ?thesis
    using assms(2) by (elim insertE emptyE) (use assms(1,3,4) in \<open>auto simp: id up elim!: rbind_InrE\<close>)
qed

lemma pl011_register_round_trip_witness:
  "\<exists>d'. pl011_write gic_raise gic_rescind 33 0x02c [0x70, 0x01] (pl011_new, gic_new) = Inr (d', gic_new)
     \<and> pl011_read d' 0x02c [9, 9, 9] = Inr [0x70, 0, 9]"
proof -
  let ?d = "pl011_new\<lparr>line_control := 0x70\<rparr>"
  have w: "pl011_write gic_raise gic_rescind 33 0x02c [0x70, 0x01] (pl011_new, gic_new) = Inr (?d, gic_new)"
    by (simp add: pl011_write_def u16_argument_def)
  have "pl011_read ?d 0x02c [9, 9, 9] = Inr (le_bytes 2 (unat ((word_of_nat (from_le [0x70, 0x01]) :: u16) AND 0xff)) @ drop 2 [9, 9, 9])"
    by (rule pl011_register_round_trip [OF _ _ w]) auto
  then show ?thesis using w by (simp add: le_bytes_numeral)
qed

end
