(* ===== verification/Pl190.thy ===== *)
theory Pl190
  imports Gic
begin

text \<open>
  The vectored interrupt controller \<open>brig/devices/primecell/pl190/src/lib.rs\<close>.  It sits between up to
  32 sources and two lines, IRQ and FIQ, of the controller it is wired to, which is a parameter with
  the laws of \<open>irq_controller\<close>.  \<open>pl190_run\<close> collects the states of the device under any sequence of
  register accesses, interleaved with steps of its environment that leave its two lines alone.
\<close>

unbundle bit_operations_syntax

record pl190 =
  vic_irq_status :: u32
  soft_status :: u32
  vic_mask :: u32
  fiq_select :: u32
  default_vector_address :: u32
  vic_priority :: nat
  prev_priority :: "nat list"
  prio_mask :: "u32 list"
  vector_addrs :: "u32 list"
  vector_controls :: "u8 list"

definition PERIPHERAL_ID :: u32 where "PERIPHERAL_ID = 0x00041190"
definition PRIMECELL_ID :: u32 where "PRIMECELL_ID = 0xb105f00d"

definition vic_raw_status :: "pl190 \<Rightarrow> u32" where
  "vic_raw_status d = vic_irq_status d OR soft_status d"

definition get_irq_status :: "pl190 \<Rightarrow> u32" where
  "get_irq_status d = vic_raw_status d AND vic_mask d AND NOT (fiq_select d)"

definition get_fiq_status :: "pl190 \<Rightarrow> u32" where
  "get_fiq_status d = vic_raw_status d AND vic_mask d AND fiq_select d"

definition index_at :: "'a list \<Rightarrow> nat \<Rightarrow> 'a res" where
  "index_at xs i = (if i < length xs then Inr (xs ! i) else Inl IndexOutOfBounds)"

definition update_lines ::
    "('c \<Rightarrow> nat \<Rightarrow> 'c res) \<Rightarrow> ('c \<Rightarrow> nat \<Rightarrow> 'c res) \<Rightarrow> nat \<Rightarrow> nat \<Rightarrow> pl190 \<Rightarrow> 'c \<Rightarrow> (pl190 \<times> 'c) res" where
  "update_lines raise rescind irq_line fiq_line d c =
     rbind (index_at (prio_mask d) (vic_priority d)) (\<lambda>m.
     rbind (rbind (drive_line raise rescind (get_irq_status d AND m \<noteq> 0) irq_line c)
                  (drive_line raise rescind (get_fiq_status d AND m \<noteq> 0) fiq_line)) (\<lambda>c. Inr (d, c)))"

text \<open>The masks of priorities 0 to 16: the sources of the enabled vectors before each one.\<close>

fun vector_masks :: "u8 list \<Rightarrow> u32 \<Rightarrow> u32 list" where
  "vector_masks [] m = [m]"
| "vector_masks (v # vs) m =
     m # vector_masks vs (if v AND 0x20 \<noteq> 0 then m OR push_bit (unat (v AND 0x1f)) 1 else m)"

definition update_vectors ::
    "('c \<Rightarrow> nat \<Rightarrow> 'c res) \<Rightarrow> ('c \<Rightarrow> nat \<Rightarrow> 'c res) \<Rightarrow> nat \<Rightarrow> nat \<Rightarrow> pl190 \<Rightarrow> 'c \<Rightarrow> (pl190 \<times> 'c) res" where
  "update_vectors raise rescind irq_line fiq_line d =
     update_lines raise rescind irq_line fiq_line
       (d\<lparr>prio_mask := vector_masks (vector_controls d) 0 @ drop 17 (prio_mask d)\<rparr>)"

definition pl190_new ::
    "('c \<Rightarrow> nat \<Rightarrow> 'c res) \<Rightarrow> ('c \<Rightarrow> nat \<Rightarrow> 'c res) \<Rightarrow> nat \<Rightarrow> nat \<Rightarrow> 'c \<Rightarrow> (pl190 \<times> 'c) res" where
  "pl190_new raise rescind irq_line fiq_line =
     update_vectors raise rescind irq_line fiq_line
       \<lparr>vic_irq_status = 0, soft_status = 0, vic_mask = 0, fiq_select = 0, default_vector_address = 0,
        vic_priority = 17, prev_priority = replicate 17 0, prio_mask = (replicate 18 0)[17 := 0xffffffff],
        vector_addrs = replicate 16 0, vector_controls = replicate 16 0\<rparr>"

section \<open>The vector address register\<close>

fun scan_var :: "pl190 \<Rightarrow> nat list \<Rightarrow> nat res" where
  "scan_var d [] = Inr 0"
| "scan_var d (i # is) =
     rbind (index_at (prio_mask d) (i + 1)) (\<lambda>m. if vic_raw_status d AND m \<noteq> 0 then Inr i else scan_var d is)"

definition read_var ::
    "('c \<Rightarrow> nat \<Rightarrow> 'c res) \<Rightarrow> ('c \<Rightarrow> nat \<Rightarrow> 'c res) \<Rightarrow> nat \<Rightarrow> nat \<Rightarrow> pl190 \<times> 'c \<Rightarrow> ((pl190 \<times> 'c) \<times> u32) res" where
  "read_var raise rescind irq_line fiq_line = (\<lambda>(d, c).
     rbind (scan_var d [0..<vic_priority d]) (\<lambda>index.
     if index = 17 then Inr ((d, c), default_vector_address d)
     else
       rbind (if index < vic_priority d then
                rbind (index_at (prev_priority d) index) (\<lambda>_.
                update_lines raise rescind irq_line fiq_line
                  (d\<lparr>prev_priority := (prev_priority d)[index := vic_priority d], vic_priority := index\<rparr>) c)
              else Inr (d, c)) (\<lambda>(d, c).
       rbind (index_at (vector_addrs d) (vic_priority d)) (\<lambda>v. Inr ((d, c), v)))))"

definition write_var ::
    "('c \<Rightarrow> nat \<Rightarrow> 'c res) \<Rightarrow> ('c \<Rightarrow> nat \<Rightarrow> 'c res) \<Rightarrow> nat \<Rightarrow> nat \<Rightarrow> pl190 \<times> 'c \<Rightarrow> (pl190 \<times> 'c) res" where
  "write_var raise rescind irq_line fiq_line = (\<lambda>(d, c).
     rbind (if vic_priority d < 17 then
              rbind (index_at (prev_priority d) (vic_priority d)) (\<lambda>p. Inr (d\<lparr>vic_priority := p\<rparr>))
            else Inr d) (\<lambda>d.
     update_lines raise rescind irq_line fiq_line d c))"

section \<open>Register accesses\<close>

definition pl190_read ::
    "('c \<Rightarrow> nat \<Rightarrow> 'c res) \<Rightarrow> ('c \<Rightarrow> nat \<Rightarrow> 'c res) \<Rightarrow> nat \<Rightarrow> nat \<Rightarrow> nat \<Rightarrow> nat \<Rightarrow> pl190 \<times> 'c
      \<Rightarrow> ((pl190 \<times> 'c) \<times> u8 list) res" where
  "pl190_read raise rescind irq_line fiq_line offset len = (\<lambda>(d, c).
     rbind
       (if offset = 0x000 then Inr ((d, c), get_irq_status d)
        else if offset = 0x004 then Inr ((d, c), get_fiq_status d)
        else if offset = 0x008 then Inr ((d, c), vic_raw_status d)
        else if offset = 0x00c then Inr ((d, c), fiq_select d)
        else if offset = 0x010 then Inr ((d, c), vic_mask d)
        else if offset = 0x018 then Inr ((d, c), soft_status d)
        else if offset = 0x024 then Inr ((d, c), 0)
        else if offset = 0x030 then read_var raise rescind irq_line fiq_line (d, c)
        else if offset = 0x034 then Inr ((d, c), default_vector_address d)
        else if 0x100 \<le> offset \<and> offset \<le> 0xfdf then Inl Todo
        else if offset = 0xfec then Inr ((d, c), drop_bit 24 PERIPHERAL_ID)
        else if offset = 0xfe8 then Inr ((d, c), drop_bit 16 PERIPHERAL_ID)
        else if offset = 0xfe4 then Inr ((d, c), drop_bit 8 PERIPHERAL_ID)
        else if offset = 0xfe0 then Inr ((d, c), PERIPHERAL_ID)
        else if offset = 0xffc then Inr ((d, c), drop_bit 24 PRIMECELL_ID)
        else if offset = 0xff8 then Inr ((d, c), drop_bit 16 PRIMECELL_ID)
        else if offset = 0xff4 then Inr ((d, c), drop_bit 8 PRIMECELL_ID)
        else if offset = 0xff0 then Inr ((d, c), PRIMECELL_ID)
        else Inl ExplicitPanic) (\<lambda>(s, response).
     rbind (respond len response) (\<lambda>bs. Inr (s, bs))))"

definition pl190_write ::
    "('c \<Rightarrow> nat \<Rightarrow> 'c res) \<Rightarrow> ('c \<Rightarrow> nat \<Rightarrow> 'c res) \<Rightarrow> nat \<Rightarrow> nat \<Rightarrow> nat \<Rightarrow> u8 list \<Rightarrow> pl190 \<times> 'c
      \<Rightarrow> (pl190 \<times> 'c) res" where
  "pl190_write raise rescind irq_line fiq_line offset bs = (\<lambda>(d, c).
     let updated = (\<lambda>d. update_lines raise rescind irq_line fiq_line d c) in
     rbind (if length bs = 4 then Inr (word_of_nat (from_le bs)) else Inl UnwrapFailed) (\<lambda>data.
     if offset \<in> {0x000, 0x004, 0x008} then updated d
     else if offset = 0x00c then updated (d\<lparr>fiq_select := data\<rparr>)
     else if offset = 0x010 then updated (d\<lparr>vic_mask := vic_mask d OR data\<rparr>)
     else if offset = 0x014 then updated (d\<lparr>vic_mask := vic_mask d AND NOT data\<rparr>)
     else if offset = 0x018 then updated (d\<lparr>soft_status := soft_status d OR data\<rparr>)
     else if offset = 0x01c then updated (d\<lparr>soft_status := soft_status d AND NOT data\<rparr>)
     else if offset = 0x030 then write_var raise rescind irq_line fiq_line (d, c)
     else if offset = 0x034 then Inr (d\<lparr>default_vector_address := data\<rparr>, c)
     else if 0x100 \<le> offset \<and> offset \<le> 0x1ff then Inl Todo
     else Inl ExplicitPanic))"

section \<open>States of the device\<close>

inductive pl190_run ::
    "('c \<Rightarrow> bool) \<Rightarrow> ('c \<Rightarrow> nat \<Rightarrow> bool) \<Rightarrow> ('c \<Rightarrow> nat \<Rightarrow> 'c res) \<Rightarrow> ('c \<Rightarrow> nat \<Rightarrow> 'c res) \<Rightarrow> nat \<Rightarrow> nat \<Rightarrow> pl190 \<times> 'c \<Rightarrow> bool"
  for valid level raise rescind irq_line fiq_line where
  run_new: "valid c \<Longrightarrow> pl190_new raise rescind irq_line fiq_line c = Inr s
    \<Longrightarrow> pl190_run valid level raise rescind irq_line fiq_line s"
| run_read: "pl190_run valid level raise rescind irq_line fiq_line s
    \<Longrightarrow> pl190_read raise rescind irq_line fiq_line offset len s = Inr (s', bs)
    \<Longrightarrow> pl190_run valid level raise rescind irq_line fiq_line s'"
| run_write: "pl190_run valid level raise rescind irq_line fiq_line s
    \<Longrightarrow> pl190_write raise rescind irq_line fiq_line offset bs s = Inr s'
    \<Longrightarrow> pl190_run valid level raise rescind irq_line fiq_line s'"
| run_environment: "pl190_run valid level raise rescind irq_line fiq_line (d, c) \<Longrightarrow> valid c'
    \<Longrightarrow> level c' irq_line = level c irq_line \<Longrightarrow> level c' fiq_line = level c fiq_line
    \<Longrightarrow> pl190_run valid level raise rescind irq_line fiq_line (d, c')"

text \<open>
  No access writes a vector control register, so no vector is ever enabled: priority 17 lets every
  source through, and the others none.
\<close>

definition vic_fixed :: "pl190 \<Rightarrow> bool" where
  "vic_fixed d \<longleftrightarrow> prio_mask d = replicate 17 0 @ [0xffffffff] \<and> vector_addrs d = replicate 16 0
     \<and> vector_controls d = replicate 16 0 \<and> length (prev_priority d) = 17
     \<and> (vic_priority d = 17 \<or> vic_priority d = 0 \<and> prev_priority d ! 0 = 17)"

definition vic_lines :: "('c \<Rightarrow> bool) \<Rightarrow> ('c \<Rightarrow> nat \<Rightarrow> bool) \<Rightarrow> nat \<Rightarrow> nat \<Rightarrow> pl190 \<times> 'c \<Rightarrow> bool" where
  "vic_lines valid level irq_line fiq_line = (\<lambda>(d, c). valid c
     \<and> (level c irq_line \<longleftrightarrow> vic_priority d = 17 \<and> get_irq_status d \<noteq> 0)
     \<and> (level c fiq_line \<longleftrightarrow> vic_priority d = 17 \<and> get_fiq_status d \<noteq> 0))"

lemma and_all_ones [simp]: "(x :: u32) AND 0xffffffff = x"
  using take_bit_word_eq_self [of 32 x] by (simp add: take_bit_eq_mask mask_eq_exp_minus_1)

lemma nth_prio_mask: "i < 18 \<Longrightarrow> (replicate 17 0 @ [0xffffffff :: u32]) ! i = (if i = 17 then 0xffffffff else 0)"
  by (auto simp: nth_append)

context irq_controller
begin

lemma update_lines_ok:
  assumes "valid c" and "irq_line < line_count" and "fiq_line < line_count" and "irq_line \<noteq> fiq_line"
    and "prio_mask d = replicate 17 0 @ [0xffffffff]" and "vic_priority d < 18"
  shows "\<exists>c'. update_lines raise rescind irq_line fiq_line d c = Inr (d, c') \<and> vic_lines valid level irq_line fiq_line (d, c')"
proof -
  define m where "m = prio_mask d ! vic_priority d"
  have m: "m = (if vic_priority d = 17 then 0xffffffff else 0)"
    using assms(5) nth_prio_mask [OF assms(6)] by (simp add: m_def)
  have "index_at (prio_mask d) (vic_priority d) = Inr m" using assms(5,6) by (simp add: index_at_def m_def)
  then show ?thesis
    using drive_two_ok [OF assms(1-4), of "get_irq_status d AND m \<noteq> 0" "get_fiq_status d AND m \<noteq> 0"]
    by (auto simp: update_lines_def vic_lines_def m)
qed

lemma update_lines_inv:
  assumes "valid c" and "irq_line < line_count" and "fiq_line < line_count" and "irq_line \<noteq> fiq_line" and "vic_fixed d"
    and "update_lines raise rescind irq_line fiq_line d c = Inr s"
  shows "vic_fixed (fst s) \<and> vic_lines valid level irq_line fiq_line s"
proof -
  have "prio_mask d = replicate 17 0 @ [0xffffffff]" "vic_priority d < 18" using assms(5) by (auto simp: vic_fixed_def)
  from update_lines_ok [OF assms(1-4) this] show ?thesis using assms(5,6) by auto
qed

end

section \<open>The vector address register without vectors\<close>

lemma vector_masks_none: "vector_masks (replicate n 0) m = replicate (Suc n) m"
  by (induction n) auto

lemma scan_masked:
  assumes "prio_mask d = replicate 17 0 @ [0xffffffff]" and "\<forall>i\<in>set is. i < 16"
  shows "scan_var d (is @ js) = scan_var d js"
  using assms(2) by (induction "is") (simp_all add: index_at_def assms(1) nth_prio_mask nth_append)

lemma scan_var_fixed:
  assumes "vic_fixed d"
  shows "scan_var d [0..<vic_priority d] = Inr (if vic_priority d = 17 \<and> vic_raw_status d \<noteq> 0 then 16 else 0)"
proof (cases "vic_priority d = 17")
  case True
  have pm: "prio_mask d = replicate 17 0 @ [0xffffffff]" using assms by (simp add: vic_fixed_def)
  have "[0..<17] = [0..<16] @ [16 :: nat]" by (simp add: upt_conv_Cons)
  then have "scan_var d [0..<17] = scan_var d [16]" using scan_masked [OF pm, of "[0..<16]" "[16]"] by simp
  then show ?thesis using True by (simp add: index_at_def pm nth_append)
qed (use assms in \<open>auto simp: vic_fixed_def\<close>)

text \<open>The device the constructor leaves, before it drives its lines.\<close>

definition pl190_start :: pl190 where
  "pl190_start = \<lparr>vic_irq_status = 0, soft_status = 0, vic_mask = 0, fiq_select = 0, default_vector_address = 0,
     vic_priority = 17, prev_priority = replicate 17 0, prio_mask = replicate 17 0 @ [0xffffffff],
     vector_addrs = replicate 16 0, vector_controls = replicate 16 0\<rparr>"

lemma pl190_new_start:
  "pl190_new raise rescind irq_line fiq_line = update_lines raise rescind irq_line fiq_line pl190_start"
  by (simp add: pl190_new_def update_vectors_def pl190_start_def vector_masks_none drop_update_swap)

lemma vic_fixed_start: "vic_fixed pl190_start"
  by (simp add: vic_fixed_def pl190_start_def)

context irq_controller
begin

lemma read_var_fixed:
  assumes "vic_fixed d" and "vic_lines valid level irq_line fiq_line (d, c)"
    and "irq_line < line_count" and "fiq_line < line_count" and "irq_line \<noteq> fiq_line"
  shows "if vic_priority d = 17 \<and> vic_raw_status d \<noteq> 0
    then read_var raise rescind irq_line fiq_line (d, c) = Inl IndexOutOfBounds
    else \<exists>d' c'. read_var raise rescind irq_line fiq_line (d, c) = Inr ((d', c'), 0) \<and> vic_fixed d'
      \<and> vic_priority d' = 0 \<and> vic_lines valid level irq_line fiq_line (d', c')"
proof -
  have c: "valid c" using assms(2) by (simp add: vic_lines_def)
  have d: "prio_mask d = replicate 17 0 @ [0xffffffff]" "vector_addrs d = replicate 16 0" "length (prev_priority d) = 17"
    using assms(1) by (simp_all add: vic_fixed_def)
  let ?d = "\<lambda>i. d\<lparr>prev_priority := (prev_priority d)[i := vic_priority d], vic_priority := i\<rparr>"
  have upd: "\<exists>c'. update_lines raise rescind irq_line fiq_line (?d i) c = Inr (?d i, c') \<and> vic_lines valid level irq_line fiq_line (?d i, c')"
    if "i < 18" for i
    by (rule update_lines_ok [OF c assms(3-5)]) (use d that in simp_all)
  show ?thesis
  proof (cases "vic_priority d = 17 \<and> vic_raw_status d \<noteq> 0")
    case True
    obtain c' where "update_lines raise rescind irq_line fiq_line (?d 16) c = Inr (?d 16, c')" using upd [of 16] by auto
    then show ?thesis
      using True d scan_var_fixed [OF assms(1)] by (simp add: read_var_def index_at_def)
  next
    case False
    then have scan: "scan_var d [0..<vic_priority d] = Inr 0" using scan_var_fixed [OF assms(1)] by auto
    obtain c' where c': "update_lines raise rescind irq_line fiq_line (?d 0) c = Inr (?d 0, c')"
        "vic_lines valid level irq_line fiq_line (?d 0, c')" using upd [of 0] by auto
    show ?thesis
    proof (cases "vic_priority d = 0")
      case True
      then show ?thesis using False scan d assms(1,2) by (auto simp: read_var_def index_at_def)
    next
      case pos: False
      then have "vic_priority d = 17" using assms(1) by (simp add: vic_fixed_def)
      then have "vic_fixed (?d 0)" using assms(1) by (simp add: vic_fixed_def)
      then show ?thesis using False pos scan c' d by (auto simp: read_var_def index_at_def)
    qed
  qed
qed

lemma write_var_inv:
  assumes "vic_fixed d" and "valid c" and "irq_line < line_count" and "fiq_line < line_count" and "irq_line \<noteq> fiq_line"
    and "write_var raise rescind irq_line fiq_line (d, c) = Inr s"
  shows "vic_fixed (fst s) \<and> vic_lines valid level irq_line fiq_line s \<and> vic_priority (fst s) = 17"
proof -
  let ?d = "d\<lparr>vic_priority := 17\<rparr>"
  have fixed: "vic_fixed ?d" using assms(1) by (auto simp: vic_fixed_def)
  have "update_lines raise rescind irq_line fiq_line ?d c = Inr s"
  proof (cases "vic_priority d = 17")
    case True
    then have "?d = d" by simp
    then show ?thesis using assms(6) True by (simp only: write_var_def split_conv) simp
  next
    case False
    then show ?thesis using assms(1,6) by (auto simp: write_var_def vic_fixed_def index_at_def)
  qed
  then show ?thesis
    using update_lines_inv [OF assms(2-5) fixed] by (auto simp: update_lines_def elim!: rbind_InrE)
qed

lemma pl190_run_inv:
  assumes "pl190_run valid level raise rescind irq_line fiq_line s"
    and lines: "irq_line < line_count" "fiq_line < line_count" "irq_line \<noteq> fiq_line"
  shows "vic_fixed (fst s) \<and> vic_lines valid level irq_line fiq_line s"
  using assms(1)
proof (induction rule: pl190_run.induct)
  case (run_new c s)
  then show ?case using update_lines_inv [OF run_new(1) lines vic_fixed_start] by (simp add: pl190_new_start)
next
  case (run_read s offset len s' bs)
  obtain d c where s: "s = (d, c)" by (cases s)
  then have fixed: "vic_fixed d" "vic_lines valid level irq_line fiq_line (d, c)" using run_read.IH by simp_all
  have "s' = s \<or> (\<exists>v. read_var raise rescind irq_line fiq_line (d, c) = Inr (s', v))"
    using run_read(2) by (auto simp: pl190_read_def s elim!: rbind_InrE split: if_split_asm)
  then show ?case using read_var_fixed [OF fixed lines] fixed s by (auto split: if_split_asm)
next
  case (run_write s offset bs s')
  obtain d c where s: "s = (d, c)" by (cases s)
  then have d: "vic_fixed d" "vic_lines valid level irq_line fiq_line (d, c)" and c: "valid c"
    using run_write.IH by (simp_all add: vic_lines_def)
  have fixed: "vic_fixed (d\<lparr>fiq_select := v\<rparr>)" "vic_fixed (d\<lparr>vic_mask := v\<rparr>)" "vic_fixed (d\<lparr>soft_status := v\<rparr>)"
      "vic_fixed (d\<lparr>default_vector_address := v\<rparr>)" for v
    using d(1) by (simp_all add: vic_fixed_def)
  have default: "vic_lines valid level irq_line fiq_line (d\<lparr>default_vector_address := v\<rparr>, c)" for v
    using d(2) by (simp add: vic_lines_def get_irq_status_def get_fiq_status_def vic_raw_status_def)
  show ?case
    using run_write(2) unfolding s pl190_write_def Let_def
    by (auto simp: fixed default elim!: rbind_InrE split: if_split_asm
        dest: update_lines_inv [OF c lines d(1)] update_lines_inv [OF c lines fixed(1)] update_lines_inv [OF c lines fixed(2)]
          update_lines_inv [OF c lines fixed(3)] write_var_inv [OF d(1) c lines])
next
  case (run_environment d c c')
  then show ?case by (auto simp: vic_lines_def)
qed

end

section \<open>On the guest's interrupt controller\<close>

lemmas gic_pl190_inv = gic_irq.pl190_run_inv
lemmas gic_read_var = gic_irq.read_var_fixed

text \<open>For closed examples: the lines 3 and 4 of a fresh controller.\<close>

lemma gic_update_lines_example:
  assumes "gic_wf g" and "vic_fixed d"
  shows "\<exists>g'. update_lines gic_raise gic_rescind 3 4 d g = Inr (d, g') \<and> gic_wf g'"
proof -
  have "3 < LINE_COUNT" "4 < LINE_COUNT" "(3::nat) \<noteq> 4" by (simp_all add: LINE_COUNT_def)
  moreover have "prio_mask d = replicate 17 0 @ [0xffffffff]" "vic_priority d < 18" using assms(2) by (auto simp: vic_fixed_def)
  ultimately show ?thesis using gic_irq.update_lines_ok [OF assms(1), of 3 4 d] by (auto simp: vic_lines_def)
qed

lemma gic_pl190_new: "\<exists>g. pl190_new gic_raise gic_rescind 3 4 gic_new = Inr (pl190_start, g) \<and> gic_wf g"
  using gic_update_lines_example [OF _ vic_fixed_start, of gic_new] gic_chain_new
  by (simp add: pl190_new_start gic_chain_def)

text \<open>
  C26: in every state the vectored controller reaches, its IRQ line is high exactly when an unmasked
  source that is not selected for FIQ is raised and no vector read is outstanding, its FIQ line
  likewise for the selected ones; and no source drives both.
\<close>

theorem pl190_lines_follow_status:
  assumes "pl190_run gic_wf line_level gic_raise gic_rescind irq_line fiq_line (d, g)"
    and "irq_line < LINE_COUNT" and "fiq_line < LINE_COUNT" and "irq_line \<noteq> fiq_line"
  shows "(line_level g irq_line \<longleftrightarrow> vic_priority d = 17 \<and> get_irq_status d \<noteq> 0)
    \<and> (line_level g fiq_line \<longleftrightarrow> vic_priority d = 17 \<and> get_fiq_status d \<noteq> 0)
    \<and> get_irq_status d AND get_fiq_status d = 0"
proof -
  have "get_irq_status d AND get_fiq_status d = 0"
    by (rule bit_word_eqI) (simp add: get_irq_status_def get_fiq_status_def bit_simps)
  then show ?thesis using gic_pl190_inv [OF assms] by (simp add: vic_lines_def)
qed

theorem pl190_lines_follow_status_witness:
  "\<exists>g. pl190_new gic_raise gic_rescind 3 4 gic_new = Inr (pl190_start, g) \<and> \<not> line_level g 3 \<and> \<not> line_level g 4"
proof -
  obtain g where g: "pl190_new gic_raise gic_rescind 3 4 gic_new = Inr (pl190_start, g)" using gic_pl190_new by blast
  have "gic_wf gic_new" using gic_chain_new by (simp add: gic_chain_def)
  with g have "pl190_run gic_wf line_level gic_raise gic_rescind 3 4 (pl190_start, g)" by (auto intro: run_new)
  from pl190_lines_follow_status [OF this] g show ?thesis
    by (simp add: LINE_COUNT_def pl190_start_def get_irq_status_def get_fiq_status_def vic_raw_status_def)
qed

text \<open>
  Reading the vector address while a source is raised, which is when a handler reads it, always
  panics: no access writes a vector control register, so the search ends at priority 16, one past
  the array of vector addresses.  With no source raised the read returns 0, not the default
  vector address, and blocks both lines until the register is written.
\<close>

theorem pl190_vector_read_panics:
  assumes "pl190_run gic_wf line_level gic_raise gic_rescind irq_line fiq_line (d, g)"
    and "irq_line < LINE_COUNT" and "fiq_line < LINE_COUNT" and "irq_line \<noteq> fiq_line" and "vic_priority d = 17"
  shows "if vic_raw_status d \<noteq> 0
    then pl190_read gic_raise gic_rescind irq_line fiq_line 0x30 4 (d, g) = Inl IndexOutOfBounds
    else \<exists>d' g'. pl190_read gic_raise gic_rescind irq_line fiq_line 0x30 4 (d, g) = Inr ((d', g'), [0, 0, 0, 0])
      \<and> \<not> line_level g' irq_line \<and> \<not> line_level g' fiq_line"
proof -
  have "vic_fixed d" "vic_lines gic_wf line_level irq_line fiq_line (d, g)"
    using gic_pl190_inv [OF assms(1-4)] by simp_all
  from gic_read_var [OF this assms(2-4)] show ?thesis
    using assms(5) by (auto simp: pl190_read_def respond_def vic_lines_def le_bytes_numeral split: if_splits)
qed

theorem pl190_vector_read_panics_witness:
  "\<exists>s s'. pl190_new gic_raise gic_rescind 3 4 gic_new = Inr s
     \<and> pl190_write gic_raise gic_rescind 3 4 0x18 [1, 0, 0, 0] s = Inr s'
     \<and> pl190_read gic_raise gic_rescind 3 4 0x30 4 s' = Inl IndexOutOfBounds"
proof -
  obtain g where g: "pl190_new gic_raise gic_rescind 3 4 gic_new = Inr (pl190_start, g)" "gic_wf g"
    using gic_pl190_new by blast
  let ?d = "pl190_start\<lparr>soft_status := 1\<rparr>"
  have "vic_fixed ?d" using vic_fixed_start by (simp add: vic_fixed_def)
  then obtain g' where "update_lines gic_raise gic_rescind 3 4 ?d g = Inr (?d, g')"
    using gic_update_lines_example [OF g(2)] by blast
  then have w: "pl190_write gic_raise gic_rescind 3 4 0x18 [1, 0, 0, 0] (pl190_start, g) = Inr (?d, g')"
    by (simp add: pl190_write_def pl190_start_def)
  have "gic_wf gic_new" using gic_chain_new by (simp add: gic_chain_def)
  with g(1) w have "pl190_run gic_wf line_level gic_raise gic_rescind 3 4 (?d, g')" by (auto intro: run_new run_write)
  from pl190_vector_read_panics [OF this] have "pl190_read gic_raise gic_rescind 3 4 0x30 4 (?d, g') = Inl IndexOutOfBounds"
    by (simp add: LINE_COUNT_def vic_raw_status_def pl190_start_def)
  with g w show ?thesis by blast
qed

end
