(* ===== verification/Generic_Timer.thy ===== *)
theory Generic_Timer
  imports Gic Bits
begin

text \<open>
  The guest's generic timer, \<open>brig/brig/src/guest/devices/arm/generic_timer.rs\<close>, and the dispatch of
  system register accesses in \<open>brig/common/src/sysreg_helpers.rs\<close>.  The multiplication, the two
  subtractions of \<open>tick\<close> and their overflow checks follow the build profile (\<open>rust_env\<close>); the
  counter itself wraps, being an atomic.
\<close>

unbundle bit_operations_syntax

section \<open>System register numbers\<close>

definition encode_sysreg_id :: "u64 \<Rightarrow> u64 \<Rightarrow> u64 \<Rightarrow> u64 \<Rightarrow> u64 \<Rightarrow> u64" where
  "encode_sysreg_id op0 op1 crn crm op2 =
     push_bit 19 op0 OR push_bit 16 op1 OR push_bit 12 crn OR push_bit 8 crm OR push_bit 5 op2"

definition CNTKCTL_EL1 :: u64 where "CNTKCTL_EL1 = encode_sysreg_id 3 0 14 1 0"
definition CNTFRQ_EL0 :: u64 where "CNTFRQ_EL0 = encode_sysreg_id 3 3 14 0 0"
definition CNTPCT_EL0 :: u64 where "CNTPCT_EL0 = encode_sysreg_id 3 3 14 0 1"
definition CNTVCT_EL0 :: u64 where "CNTVCT_EL0 = encode_sysreg_id 3 3 14 0 2"
definition CNTVCTSS_EL0 :: u64 where "CNTVCTSS_EL0 = encode_sysreg_id 3 3 14 0 6"
definition CNTP_TVAL_EL0 :: u64 where "CNTP_TVAL_EL0 = encode_sysreg_id 3 3 14 2 0"
definition CNTP_CTL_EL0 :: u64 where "CNTP_CTL_EL0 = encode_sysreg_id 3 3 14 2 1"
definition CNTP_CVAL_EL0 :: u64 where "CNTP_CVAL_EL0 = encode_sysreg_id 3 3 14 2 2"
definition CNTVOFF_EL2 :: u64 where "CNTVOFF_EL2 = encode_sysreg_id 3 4 14 0 3"
definition CNTPS_TVAL_EL1 :: u64 where "CNTPS_TVAL_EL1 = encode_sysreg_id 3 7 14 2 0"
definition CNTPS_CTL_EL1 :: u64 where "CNTPS_CTL_EL1 = encode_sysreg_id 3 7 14 2 1"
definition CNTPS_CVAL_EL1 :: u64 where "CNTPS_CVAL_EL1 = encode_sysreg_id 3 7 14 2 2"
definition CNTV_TVAL_EL0 :: u64 where "CNTV_TVAL_EL0 = encode_sysreg_id 3 3 14 3 0"
definition CNTV_CTL_EL0 :: u64 where "CNTV_CTL_EL0 = encode_sysreg_id 3 3 14 3 1"
definition CNTV_CVAL_EL0 :: u64 where "CNTV_CVAL_EL0 = encode_sysreg_id 3 3 14 3 2"

lemmas timer_registers =
  CNTKCTL_EL1_def CNTFRQ_EL0_def CNTPCT_EL0_def CNTVCT_EL0_def CNTVCTSS_EL0_def CNTP_TVAL_EL0_def CNTP_CTL_EL0_def
  CNTP_CVAL_EL0_def CNTVOFF_EL2_def CNTPS_TVAL_EL1_def CNTPS_CTL_EL1_def CNTPS_CVAL_EL1_def CNTV_TVAL_EL0_def
  CNTV_CTL_EL0_def CNTV_CVAL_EL0_def encode_sysreg_id_def

section \<open>The timer\<close>

record generic_timer =
  timer_running :: bool \<comment> \<open>the field \<open>enabled\<close>, set by \<open>start\<close> and \<open>stop\<close>\<close>
  counter :: u64
  frequency :: u64
  virtual_offset :: u64
  timer_condition_met :: bool
  timer_interrupt_masked :: bool
  timer_enabled :: bool
  compare_value :: u64
  cntkctl_el1 :: u64

definition timer_new :: generic_timer where
  "timer_new = \<lparr>timer_running = False, counter = 0, frequency = 10000000, virtual_offset = 0, timer_condition_met = False,
     timer_interrupt_masked = False, timer_enabled = False, compare_value = 0, cntkctl_el1 = 0\<rparr>"

definition timer_start :: "generic_timer \<Rightarrow> generic_timer" where
  "timer_start t = t\<lparr>timer_running := True\<rparr>"

definition timer_stop :: "generic_timer \<Rightarrow> generic_timer" where
  "timer_stop t = t\<lparr>timer_running := False\<rparr>"

definition virtual_count :: "rust_env \<Rightarrow> generic_timer \<Rightarrow> u64 res" where
  "virtual_count E t = u64_sub E (counter t) (virtual_offset t)"

definition timer_condition :: "rust_env \<Rightarrow> generic_timer \<Rightarrow> bool res" where
  "timer_condition E t =
     (if timer_enabled t then
        rbind (virtual_count E t) (\<lambda>v. rbind (i64_sub E v (compare_value t)) (\<lambda>x. Inr (0 \<le> sint x)))
      else Inr False)"

definition tick ::
    "rust_env \<Rightarrow> ('c \<Rightarrow> nat \<Rightarrow> 'c res) \<Rightarrow> ('c \<Rightarrow> nat \<Rightarrow> 'c res) \<Rightarrow> nat \<Rightarrow> u64 \<Rightarrow> generic_timer \<times> 'c
      \<Rightarrow> (generic_timer \<times> 'c) res" where
  "tick E raise rescind irq_line time_since_last_tick = (\<lambda>(t, c).
     if timer_running t then
       rbind (u64_mul E time_since_last_tick (frequency t)) (\<lambda>product.
       let t = t\<lparr>counter := counter t + product div 1000000000\<rparr> in
       rbind (timer_condition E t) (\<lambda>interrupt_status.
       let t = t\<lparr>timer_condition_met := interrupt_status\<rparr> in
       rbind (drive_line raise rescind (interrupt_status \<and> \<not> timer_interrupt_masked t) irq_line c) (\<lambda>c. Inr (t, c))))
     else Inr (t, c))"

definition timer_read :: "generic_timer \<Rightarrow> u64 \<Rightarrow> nat \<Rightarrow> u8 list res" where
  "timer_read t sys_reg_id len =
     rbind
       (if sys_reg_id = CNTKCTL_EL1 then Inr (cntkctl_el1 t)
        else if sys_reg_id = CNTFRQ_EL0 then Inr (frequency t)
        else if sys_reg_id = CNTVCT_EL0 then Inr (counter t)
        else if sys_reg_id = CNTVCTSS_EL0 then Inr (counter t)
        else if sys_reg_id = CNTV_CTL_EL0 then
          Inr (push_bit 2 (of_bool (timer_condition_met t)) OR push_bit 1 (of_bool (timer_interrupt_masked t))
               OR of_bool (timer_enabled t))
        else if sys_reg_id \<in> {CNTPCT_EL0, CNTP_TVAL_EL0, CNTP_CTL_EL0, CNTP_CVAL_EL0, CNTVOFF_EL2, CNTPS_TVAL_EL1,
               CNTPS_CTL_EL1, CNTPS_CVAL_EL1, CNTV_TVAL_EL0, CNTV_CVAL_EL0} then Inl Todo
        else Inl ExplicitPanic) (\<lambda>v.
     if len = 8 then Inr (le_bytes 8 (unat v)) else Inl ExplicitPanic)"

definition timer_write :: "generic_timer \<Rightarrow> u64 \<Rightarrow> u8 list \<Rightarrow> generic_timer res" where
  "timer_write t sys_reg_id bs =
     rbind (if length bs = 8 then Inr (word_of_nat (from_le bs)) else Inl UnwrapFailed) (\<lambda>v.
     if sys_reg_id = CNTKCTL_EL1 then Inr (t\<lparr>cntkctl_el1 := v\<rparr>)
     else if sys_reg_id = CNTFRQ_EL0 then Inr t
     else if sys_reg_id = CNTVOFF_EL2 then Inr (t\<lparr>virtual_offset := v\<rparr>)
     else if sys_reg_id = CNTV_CTL_EL0 then
       Inr (t\<lparr>timer_enabled := (v AND 1 = 1), timer_interrupt_masked := (v AND 2 = 2)\<rparr>)
     else if sys_reg_id = CNTV_CVAL_EL0 then Inr (t\<lparr>compare_value := v\<rparr>)
     else if sys_reg_id \<in> {CNTPCT_EL0, CNTVCT_EL0, CNTVCTSS_EL0, CNTP_TVAL_EL0, CNTP_CTL_EL0, CNTP_CVAL_EL0,
            CNTPS_TVAL_EL1, CNTPS_CTL_EL1, CNTPS_CVAL_EL1, CNTV_TVAL_EL0} then Inl Todo
     else Inl ExplicitPanic)"

section \<open>Dispatching system register accesses\<close>

text \<open>
  The table of handlers: a device, here its position in the machine's state \<open>'s\<close>, or a function.
  The accesses of the devices are parameters.
\<close>

datatype ('d, 'f) handler = Device 'd | Fn 'f

definition register_handler :: "(u64 \<rightharpoonup> ('d, 'f) handler) \<Rightarrow> u64 \<Rightarrow> ('d, 'f) handler \<Rightarrow> (u64 \<rightharpoonup> ('d, 'f) handler)" where
  "register_handler handlers i h = handlers(i \<mapsto> h)"

definition handler_exists :: "(u64 \<rightharpoonup> ('d, 'f) handler) \<Rightarrow> u64 \<Rightarrow> bool" where
  "handler_exists handlers reg \<longleftrightarrow> handlers reg \<noteq> None"

definition sys_reg_read ::
    "('d \<Rightarrow> u64 \<Rightarrow> nat \<Rightarrow> 's \<Rightarrow> ('s \<times> u8 list) res) \<Rightarrow> (u64 \<rightharpoonup> ('d, 'f) handler) \<Rightarrow> u64 \<Rightarrow> 's \<Rightarrow> ('s \<times> u64) res" where
  "sys_reg_read dev_read handlers reg s =
     rbind (unwrap (handlers reg)) (\<lambda>h.
     case h of
       Device dev \<Rightarrow> rbind (dev_read dev reg 8 s) (\<lambda>(s, bs). Inr (s, word_of_nat (from_le bs)))
     | Fn f \<Rightarrow> Inl Todo)"

definition sys_reg_write ::
    "('d \<Rightarrow> u64 \<Rightarrow> u8 list \<Rightarrow> 's \<Rightarrow> 's res) \<Rightarrow> ('f \<Rightarrow> u64 \<Rightarrow> 's \<Rightarrow> 's res) \<Rightarrow> (u64 \<rightharpoonup> ('d, 'f) handler) \<Rightarrow> u64 \<Rightarrow> u64 \<Rightarrow> 's
      \<Rightarrow> 's res" where
  "sys_reg_write dev_write call_fn handlers reg v s =
     rbind (unwrap (handlers reg)) (\<lambda>h.
     case h of
       Device dev \<Rightarrow> dev_write dev reg (le_bytes 8 (unat v)) s
     | Fn f \<Rightarrow> call_fn f v s)"

section \<open>Ticks\<close>

lemma u64_sub_le: "b \<le> a \<Longrightarrow> u64_sub E a b = Inr (a - b)"
  by (simp add: u64_sub_def checked_def)

lemma i64_sub_small:
  assumes "unat (a :: u64) < 2 ^ 63" and "unat b < 2 ^ 63"
  shows "\<exists>x. i64_sub E a b = Inr x \<and> (0 \<le> sint x \<longleftrightarrow> unat b \<le> unat a)"
proof -
  have s: "sint a = int (unat a)" "sint b = int (unat b)" using assms by (simp_all only: sint64_eq if_True)
  have "int (unat a) < 2 ^ 63" "int (unat b) < 2 ^ 63"
    using assms by (metis of_nat_less_iff of_nat_numeral of_nat_power)+
  moreover have "0 \<le> int (unat a)" "0 \<le> int (unat b)" by (rule of_nat_0_le_iff)+
  ultimately have fits: "fits_i64 (sint a - sint b)" unfolding s fits_i64_def by linarith
  then show ?thesis
    using sint_sub_i64 [OF fits] by (simp add: i64_sub_def checked_def s word_le_nat_alt [symmetric] word_le_def)
qed

text \<open>The count after a tick, and whether the timer fires there.\<close>

definition ticked :: "generic_timer \<Rightarrow> u64 \<Rightarrow> nat" where
  "ticked t time = unat (counter t) + unat time * unat (frequency t) div 1000000000"

definition fires_at :: "generic_timer \<Rightarrow> nat \<Rightarrow> bool" where
  "fires_at t n \<longleftrightarrow> timer_enabled t \<and> unat (virtual_offset t) + unat (compare_value t) \<le> n"

lemma tick_counter:
  assumes "unat time * unat (frequency t) < 2 ^ 64" and "ticked t time < 2 ^ 64"
  shows "unat (counter t + time * frequency t div 1000000000) = ticked t time"
proof -
  have m: "unat (time * frequency t) = unat time * unat (frequency t)"
    using assms(1) by (simp add: unat_mult_lem [THEN iffD1])
  have "unat (time * frequency t div 1000000000) = unat time * unat (frequency t) div 1000000000"
    by (simp add: unat_div_distrib m)
  then show ?thesis using assms(2) by (simp add: ticked_def unat_add_lem [THEN iffD1])
qed

lemma timer_condition_spec:
  assumes "unat (counter t) < 2 ^ 63" and "virtual_offset t \<le> counter t" and "unat (compare_value t) < 2 ^ 63"
  shows "timer_condition E t = Inr (fires_at t (unat (counter t)))"
proof -
  have d: "unat (counter t - virtual_offset t) = unat (counter t) - unat (virtual_offset t)"
      "unat (virtual_offset t) \<le> unat (counter t)"
    using assms(2) by (simp_all add: unat_sub word_le_nat_alt)
  then have "unat (counter t - virtual_offset t) < 2 ^ 63" using assms(1) by linarith
  then show ?thesis
    using i64_sub_small [OF _ assms(3), of "counter t - virtual_offset t" E] d
    by (auto simp: timer_condition_def virtual_count_def u64_sub_le [OF assms(2)] fires_at_def)
qed

context irq_controller
begin

lemma tick_drives_line:
  assumes "valid c" and "irq_line < line_count" and "timer_running t"
    and "unat time * unat (frequency t) < 2 ^ 64" and "ticked t time < 2 ^ 63"
    and "unat (virtual_offset t) \<le> ticked t time" and "unat (compare_value t) < 2 ^ 63"
  shows "\<exists>t' c'. tick E raise rescind irq_line time (t, c) = Inr (t', c') \<and> valid c'
    \<and> unat (counter t') = ticked t time \<and> timer_condition_met t' = fires_at t (ticked t time)
    \<and> (level c' irq_line \<longleftrightarrow> fires_at t (ticked t time) \<and> \<not> timer_interrupt_masked t)
    \<and> (\<forall>k. k \<noteq> irq_line \<longrightarrow> level c' k = level c k)"
proof -
  have n: "unat (counter t + time * frequency t div 1000000000) = ticked t time"
    using assms(4,5) by (intro tick_counter) simp_all
  have mul: "u64_mul E time (frequency t) = Inr (time * frequency t)" using assms(4) by (simp add: u64_mul_def checked_def)
  let ?t = "t\<lparr>counter := counter t + time * frequency t div 1000000000\<rparr>"
  have "timer_condition E ?t = Inr (fires_at ?t (unat (counter ?t)))"
    by (rule timer_condition_spec) (use assms n in \<open>simp_all add: word_le_nat_alt\<close>)
  moreover have "fires_at ?t (unat (counter ?t)) = fires_at t (ticked t time)" by (simp add: fires_at_def n)
  ultimately show ?thesis
    using drive_ok [OF assms(1,2), of "fires_at t (ticked t time) \<and> \<not> timer_interrupt_masked t"] assms(3) mul n
    by (auto simp: tick_def Let_def)
qed

end

text \<open>
  C27: a tick of a running timer advances the count by the elapsed time at the timer's frequency and leaves the
  interrupt line high exactly when the timer is enabled and unmasked and the virtual count, the
  count less the offset, has reached the compare value, in every build profile, as long as the elapsed time
  times the frequency fits in 64 bits, the count and the compare value stay below \<open>2^63\<close> and the offset does not
  exceed the count; no other line moves.
\<close>

theorem timer_tick_drives_line:
  assumes "gic_wf g" and "irq_line < LINE_COUNT" and "timer_running t"
    and "unat time * unat (frequency t) < 2 ^ 64" and "ticked t time < 2 ^ 63"
    and "unat (virtual_offset t) \<le> ticked t time" and "unat (compare_value t) < 2 ^ 63"
  shows "\<exists>t' g'. tick E gic_raise gic_rescind irq_line time (t, g) = Inr (t', g') \<and> gic_wf g'
    \<and> unat (counter t') = ticked t time \<and> timer_condition_met t' = fires_at t (ticked t time)
    \<and> (line_level g' irq_line \<longleftrightarrow> fires_at t (ticked t time) \<and> \<not> timer_interrupt_masked t)
    \<and> (\<forall>k. k \<noteq> irq_line \<longrightarrow> line_level g' k = line_level g k)"
  by (rule gic_irq.tick_drives_line [OF assms])

definition sample_timer :: generic_timer where
  "sample_timer = timer_new\<lparr>timer_running := True, timer_enabled := True, compare_value := 10000\<rparr>"

theorem timer_tick_drives_line_witness:
  "\<exists>t' g'. tick sample_env gic_raise gic_rescind 27 1000000 (sample_timer, gic_new) = Inr (t', g')
     \<and> unat (counter t') = 10000 \<and> line_level g' 27"
proof -
  have n: "ticked sample_timer 1000000 = 10000" by (simp add: ticked_def sample_timer_def timer_new_def)
  have "gic_wf gic_new" using gic_chain_new by (simp add: gic_chain_def)
  moreover have "timer_running sample_timer" "frequency sample_timer = 10000000" "virtual_offset sample_timer = 0"
      "compare_value sample_timer = 10000" "timer_enabled sample_timer" "\<not> timer_interrupt_masked sample_timer"
    by (simp_all add: sample_timer_def timer_new_def)
  ultimately show ?thesis
    using timer_tick_drives_line [of gic_new 27 sample_timer 1000000 sample_env] by (auto simp: n LINE_COUNT_def fires_at_def)
qed

text \<open>
  The offset is the guest's to write, and one beyond the count stops the machine: with the
  compiler's checks on, the next tick of an enabled timer panics on the subtraction.
\<close>

theorem timer_offset_panics:
  assumes "overflow_checks E" and "timer_running t" and "timer_enabled t"
    and "unat time * unat (frequency t) < 2 ^ 64" and "ticked t time < 2 ^ 64"
    and "ticked t time < unat (word_of_nat (from_le bs) :: u64)" and "length bs = 8"
  shows "\<exists>t'. timer_write t CNTVOFF_EL2 bs = Inr t' \<and> tick E raise rescind irq_line time (t', c) = Inl Overflow"
proof -
  let ?t = "t\<lparr>virtual_offset := word_of_nat (from_le bs)\<rparr>"
  have w: "timer_write t CNTVOFF_EL2 bs = Inr ?t"
    using assms(7) by (simp add: timer_write_def timer_registers)
  have n: "unat (counter t + time * frequency t div 1000000000) = ticked t time" by (rule tick_counter [OF assms(4,5)])
  have "\<not> word_of_nat (from_le bs) \<le> counter t + time * frequency t div 1000000000"
    using assms(6) unfolding word_le_nat_alt n by simp
  then have "tick E raise rescind irq_line time (?t, c) = Inl Overflow"
    using assms(1-4) by (simp add: tick_def u64_mul_def checked_def timer_condition_def virtual_count_def u64_sub_def Let_def)
  with w show ?thesis by blast
qed

theorem timer_offset_panics_witness:
  "\<exists>t'. timer_write sample_timer CNTVOFF_EL2 [0, 0, 0, 1, 0, 0, 0, 0] = Inr t'
     \<and> tick sample_env gic_raise gic_rescind 27 1000000 (t', gic_new) = Inl Overflow"
  by (rule timer_offset_panics) (simp_all add: sample_env_def sample_timer_def timer_new_def ticked_def)

section \<open>The timer's registers\<close>

definition timer_dev_read :: "unit \<Rightarrow> u64 \<Rightarrow> nat \<Rightarrow> generic_timer \<Rightarrow> (generic_timer \<times> u8 list) res" where
  "timer_dev_read dev reg len t = rbind (timer_read t reg len) (\<lambda>bs. Inr (t, bs))"

definition timer_dev_write :: "unit \<Rightarrow> u64 \<Rightarrow> u8 list \<Rightarrow> generic_timer \<Rightarrow> generic_timer res" where
  "timer_dev_write dev reg bs t = timer_write t reg bs"

lemma word_of_le_bytes_8 [simp]: "(word_of_nat (from_le (le_bytes 8 (unat (v :: u64)))) :: u64) = v"
proof -
  have "unat v < 256 ^ 8" using unsigned_less [of v, where ?'a = nat] by simp
  then show ?thesis by (simp add: from_le_bytes del: power_numeral)
qed

text \<open>
  Through the system register table, a control word written to the virtual timer reads back
  with its two control bits and the condition of the last tick above them; and a read of the
  virtual counter returns the physical count whatever offset was written, so it differs from the
  virtual count the timer compares by exactly that offset.
\<close>

theorem timer_sysreg_access:
  assumes "handlers CNTV_CTL_EL0 = Some (Device ())" and "handlers CNTVCT_EL0 = Some (Device ())"
  shows "(\<exists>t'. sys_reg_write timer_dev_write call_fn handlers CNTV_CTL_EL0 v t = Inr t'
        \<and> sys_reg_read timer_dev_read handlers CNTV_CTL_EL0 t'
          = Inr (t', push_bit 2 (of_bool (timer_condition_met t)) OR (v AND 3)))
    \<and> sys_reg_read timer_dev_read handlers CNTVCT_EL0 t = Inr (t, counter t)
    \<and> (virtual_count E t = Inr n \<longrightarrow> counter t = n + virtual_offset t)"
proof -
  have b: "v AND 2 ^ n = 2 ^ n \<longleftrightarrow> bit v n" if "n < 64" for n
    using that by (auto simp: bit_eq_iff [where 'a = "64 word"] bit_and_iff bit_exp_iff)
  have b0: "v AND 1 = 1 \<longleftrightarrow> bit v 0" and b1: "v AND 2 = 2 \<longleftrightarrow> bit v 1" using b [of 0] b [of 1] by simp_all
  have three: "(3 :: u64) = mask 2" by (simp add: mask_eq_exp_minus_1)
  have bits: "push_bit 1 (of_bool (v AND 2 = 2)) OR of_bool (v AND 1 = 1) = v AND 3"
    unfolding b0 b1 three by (rule bit_word_eqI) (auto simp: bit_simps less_Suc_eq numeral_2_eq_2)
  show ?thesis
    using assms bits
    by (auto simp: sys_reg_write_def sys_reg_read_def timer_dev_write_def timer_dev_read_def timer_write_def timer_read_def
        timer_registers or.assoc virtual_count_def u64_sub_def checked_def)
qed

theorem timer_sysreg_access_witness:
  "let handlers = (\<lambda>reg. if reg = CNTV_CTL_EL0 \<or> reg = CNTVCT_EL0 then Some (Device () :: (unit, unit) handler) else None); t = timer_new\<lparr>counter := 7\<rparr>
   in sys_reg_read timer_dev_read handlers CNTVCT_EL0 t = Inr (t, 7)"
  using timer_sysreg_access [of "\<lambda>reg. if reg = CNTV_CTL_EL0 \<or> reg = CNTVCT_EL0 then Some (Device () :: (unit, unit) handler) else None"
      "\<lambda>f v t. Inr t" 0 "timer_new\<lparr>counter := 7\<rparr>" sample_env 7] by (simp add: Let_def)

end
