(* ===== verification/Guest_Devices.thy ===== *)
theory Guest_Devices
  imports Pl011 Pl190 Generic_Timer
begin

text \<open>
  The guest's devices together: how an interrupt of the UART travels through the interrupt
  controller to the CPU, from the guest's store to the number its acknowledge read returns.
\<close>

unbundle bit_operations_syntax

lemma gic_raise_delivers:
  assumes "gic_wf g" and "line < LINE_COUNT" and "\<not> line_level g line"
    and "cpu_enabled g" and "distributor_enabled g" and "cpu_irq_line_running g = None"
    and "enabled (gic_lines g ! line)" and "level_triggered (gic_lines g ! line)" and "priority (gic_lines g ! line) < cpu_pmr g"
    and others: "\<And>k. k < LINE_COUNT \<Longrightarrow> k \<noteq> line \<Longrightarrow> \<not> wants_service (gic_lines g ! k)"
  shows "\<exists>g'. gic_raise g line = Inr g' \<and> interrupt_pending g' \<and> cpu_irq_line_pending g' = Some line
    \<and> gic_wf g' \<and> cpu_irq_line_running g' = None"
proof -
  have len: "length (gic_lines g) = LINE_COUNT" using assms(1) by (simp add: gic_wf_def)
  have edge: "\<not> edge_triggered (gic_lines g ! line)" using assms(8) by (auto simp: edge_triggered_def level_triggered_def)
  define g1 where "g1 = set_line g line ((gic_lines g ! line)\<lparr>raised := True\<rparr>)"
  have g1: "gic_wf g1" "cpu_irq_line_running g1 = None" "cpu_enabled g1" "distributor_enabled g1" "cpu_pmr g1 = cpu_pmr g"
    using assms(1,4-6) by (simp_all add: g1_def) (simp_all add: set_line_def)
  have lines: "gic_lines g1 ! k = (if k = line then (gic_lines g ! line)\<lparr>raised := True\<rparr> else gic_lines g ! k)" for k
    using assms(2) len by (simp add: g1_def set_line_def)
  have wants: "wants_service (gic_lines g1 ! k) \<longleftrightarrow> k = line" if "k < LINE_COUNT" for k
    using others [OF that] assms(7,8) by (simp add: lines) (simp add: wants_service_def level_triggered_def)
  have best: "highest_priority (gic_lines g1) LINE_COUNT line"
    using wants assms(2) by (auto simp: highest_priority_def)
  obtain g' where g': "gic_update g1 = Inr g'" "gic_wf g'" "cpu_irq_line_running g' = None"
    using gic_update_Inr [OF g1(1)] g1(2) by auto
  have r: "running_priority g1 = Inr 0x100" using g1(2) by (simp add: running_priority_def)
  have "cpu_irq_line_pending g' = Some line"
    using gic_update_spec [OF g1(1) g'(1) r] best g1 assms(9) by (simp add: lines)
  moreover have "interrupt_pending g'"
    using gic_update_spec [OF g1(1) g'(1) r] calculation unsigned_less [of "priority (gic_lines g1 ! line)", where ?'a = nat] by simp
  moreover have "gic_raise g line = gic_update g1"
    using assms(2,3) len edge by (simp add: gic_raise_def get_line_def line_level_def g1_def)
  ultimately show ?thesis using g' by auto
qed

lemma acknowledge_takes:
  assumes "gic_wf g" and "cpu_irq_line_pending g = Some line" and "cpu_irq_line_running g = None"
  shows "\<exists>g'. acknowledge g = Inr (g', line) \<and> cpu_irq_line_running g' = Some line"
proof -
  have line: "line < LINE_COUNT" and len: "length (gic_lines g) = LINE_COUNT" using assms(1,2) by (simp_all add: gic_wf_def)
  have get: "get_line g line = Inr (gic_lines g ! line)" using line len by (simp add: get_line_def)
  have r: "running_priority g = Inr 0x100" using assms(3) by (simp add: running_priority_def)
  have prio: "unat (priority (gic_lines g ! line)) < 0x100"
    using unsigned_less [of "priority (gic_lines g ! line)", where ?'a = nat] by simp
  define g1 where "g1 = (set_line g line ((gic_lines g ! line)\<lparr>last_active := None, pending := False\<rparr>))\<lparr>cpu_irq_line_running := Some line\<rparr>"
  have "gic_wf g1" using assms(1) line by (simp add: g1_def gic_wf_def set_line_def)
  then obtain g' where "gic_update g1 = Inr g'" "cpu_irq_line_running g' = Some line"
    using gic_update_Inr [of g1] by (auto simp: g1_def)
  moreover have "u32_try_from_usize line = Inr line" using line by (simp add: u32_try_from_usize_def LINE_COUNT_def)
  ultimately show ?thesis
    using assms(2,3) get r prio by (simp add: acknowledge_def Let_def g1_def not_le)
qed

text \<open>
  C22: a character the guest sends raises an interrupt the guest's CPU takes: with the transmit
  interrupt unmasked in the UART, the UART's line following its state, low, enabled, level-triggered and of
  a priority below the CPU's mask, both halves of the controller on, no interrupt being handled and no other line waiting,
  the store to the data register interrupts the CPU, and the acknowledge read that follows
  returns the UART's line and marks it as running.
\<close>

theorem uart_interrupt_reaches_cpu:
  assumes "wired gic_wf line_level line (d, g)" and "line < LINE_COUNT" and "irq_mask d AND IRQ_TXINTR \<noteq> 0"
    and "\<not> line_level g line" and "cpu_enabled g" and "distributor_enabled g" and "cpu_irq_line_running g = None"
    and "enabled (gic_lines g ! line)" and "level_triggered (gic_lines g ! line)" and "priority (gic_lines g ! line) < cpu_pmr g"
    and "\<forall>k<LINE_COUNT. k \<noteq> line \<longrightarrow> \<not> wants_service (gic_lines g ! k)"
  shows "\<exists>d' g' g''. pl011_write gic_raise gic_rescind line 0x000 (ch # rest) (d, g) = Inr (d', g')
    \<and> printed d' = printed d @ [ch] \<and> interrupt_pending g'
    \<and> acknowledge g' = Inr (g'', line) \<and> cpu_irq_line_running g'' = Some line"
proof -
  have "gic_wf g" using assms(1) by (simp add: wired_def)
  then obtain g' where g': "gic_raise g line = Inr g'" "interrupt_pending g'" "cpu_irq_line_pending g' = Some line"
      "gic_wf g'" "cpu_irq_line_running g' = None"
    using gic_raise_delivers [of g line] assms(2,4-11) by blast
  then obtain g'' where g'': "acknowledge g' = Inr (g'', line)" "cpu_irq_line_running g'' = Some line"
    using acknowledge_takes by blast
  let ?d = "d\<lparr>printed := printed d @ [ch], irq_status := irq_status d OR IRQ_TXINTR\<rparr>"
  have "pl011_asserted ?d"
    using assms(3) by (auto simp: pl011_asserted_def and.commute bit.conj_disj_distrib or_eq_0_iff)
  then have "pl011_write gic_raise gic_rescind line 0x000 (ch # rest) (d, g) = Inr (?d, g')"
    using g'(1) by (simp add: pl011_write_def update_irq_def drive_line_def Let_def)
  then show ?thesis using g' g'' by (intro exI [of _ ?d]) auto
qed

definition uart_ready_gic :: gic where
  "uart_ready_gic = gic_new\<lparr>distributor_enabled := True, cpu_enabled := True, cpu_pmr := 0xff,
     gic_lines := (gic_lines gic_new)[33 := (gic_lines gic_new ! 33)\<lparr>enabled := True, priority := 8\<rparr>]\<rparr>"

definition uart_ready :: pl011 where
  "uart_ready = pl011_new\<lparr>irq_mask := IRQ_TXINTR\<rparr>"

theorem uart_interrupt_reaches_cpu_witness:
  "\<exists>d' g' g''. pl011_write gic_raise gic_rescind 33 0x000 [0x41] (uart_ready, uart_ready_gic) = Inr (d', g')
     \<and> printed d' = [0x41] \<and> acknowledge g' = Inr (g'', 33)"
proof -
  let ?ls = "gic_lines uart_ready_gic"
  have ls: "?ls ! i = (if i = 33 then (irq_line_new 0 0)\<lparr>enabled := True, priority := 8\<rparr>
      else irq_line_new (if i < 16 then 2 else 0) (if i < 32 then 1 else 0))" if "i < LINE_COUNT" for i
    using that by (simp add: uart_ready_gic_def gic_new_def LINE_COUNT_def nth_list_update)
  have l33: "33 < LINE_COUNT" by (simp add: LINE_COUNT_def)
  have fields: "cpu_enabled uart_ready_gic" "distributor_enabled uart_ready_gic" "cpu_irq_line_running uart_ready_gic = None"
      "cpu_pmr uart_ready_gic = 0xff" "length ?ls = LINE_COUNT" "gic_wf uart_ready_gic"
    by (simp_all add: uart_ready_gic_def gic_new_def gic_wf_def)
  have quiet: "\<not> line_level uart_ready_gic 33" using l33 by (simp add: line_level_def ls irq_line_new_def)
  have wire: "wired gic_wf line_level 33 (uart_ready, uart_ready_gic)"
    using quiet fields by (simp add: wired_def pl011_asserted_def uart_ready_def pl011_new_def)
  have others: "\<forall>k<LINE_COUNT. k \<noteq> 33 \<longrightarrow> \<not> wants_service (?ls ! k)"
    by (simp add: ls wants_service_def irq_line_new_def)
  show ?thesis
    using uart_interrupt_reaches_cpu [OF wire l33 _ quiet fields(1-3) _ _ _ others, where ch = "0x41" and rest = "[]"] l33
    by (auto simp: ls fields(4) uart_ready_def pl011_new_def irq_line_new_def level_triggered_def IRQ_TXINTR_def)
qed

end
