(* ===== verification/Named_Registers.thy ===== *)
theory Named_Registers
  imports Register_File
begin

text \<open>
  Named accesses to the guest register file at the registers' own widths, as the devices and the
  exception logic use them.  A register file whose registers do not overlap (\<open>layout_ok\<close>) behaves
  as a map from names to values: the locale \<open>named_registers\<close> states that contract and what its
  clients need, and the byte-level register file is its instance.
\<close>

section \<open>Accesses\<close>

definition reg_read :: "rust_env \<Rightarrow> register_file \<Rightarrow> string \<Rightarrow> nat \<Rightarrow> nat res" where
  "reg_read E rf name n = rbind (rf_read E rf name n) (\<lambda>bs. Inr (from_le bs))"

definition reg_write :: "rust_env \<Rightarrow> register_file \<Rightarrow> string \<Rightarrow> nat \<Rightarrow> nat \<Rightarrow> register_file res" where
  "reg_write E rf name n x = rf_write E rf name (le_bytes n x)"

section \<open>Layout\<close>

fun apart :: "(string \<times> nat \<times> nat) list \<Rightarrow> bool" where
  "apart [] \<longleftrightarrow> True"
| "apart ((name, o1, s1) # rs) \<longleftrightarrow>
     list_all (\<lambda>(name', o2, s2). name' \<noteq> name \<and> (o1 + s1 \<le> o2 \<or> o2 + s2 \<le> o1)) rs \<and> apart rs"

definition layout_ok :: "register_file \<Rightarrow> bool" where
  "layout_ok rf \<longleftrightarrow> apart (rf_registers rf)
     \<and> list_all (\<lambda>(_, off, n). 0 < n \<and> off + n \<le> length (inner rf)) (rf_registers rf)
     \<and> register_offsets rf = sort (map (\<lambda>(_, off, _). off) (rf_registers rf))
     \<and> length (inner rf) < 2 ^ 64"

definition has_register :: "register_file \<Rightarrow> string \<Rightarrow> nat \<Rightarrow> bool" where
  "has_register rf name n \<longleftrightarrow> (\<exists>off. map_of (rf_registers rf) name = Some (off, n))"

definition register_view :: "register_file \<Rightarrow> string \<Rightarrow> nat" where
  "register_view rf name =
     (case map_of (rf_registers rf) name of
        None \<Rightarrow> 0
      | Some (off, n) \<Rightarrow> from_le (take n (drop off (inner rf))))"

section \<open>The contract\<close>

locale named_registers =
  fixes good :: "'s \<Rightarrow> bool" and has :: "'s \<Rightarrow> string \<Rightarrow> nat \<Rightarrow> bool" and view :: "'s \<Rightarrow> string \<Rightarrow> nat"
    and rd :: "'s \<Rightarrow> string \<Rightarrow> nat \<Rightarrow> nat res" and wr :: "'s \<Rightarrow> string \<Rightarrow> nat \<Rightarrow> nat \<Rightarrow> 's res"
  assumes rd_view: "good s \<Longrightarrow> has s name n \<Longrightarrow> rd s name n = Inr (view s name)"
    and wr_view: "good s \<Longrightarrow> has s name n
      \<Longrightarrow> \<exists>s'. wr s name n x = Inr s' \<and> good s' \<and> (\<forall>k m. has s' k m \<longleftrightarrow> has s k m)
           \<and> (\<forall>k m. has s k m \<longrightarrow> view s' k = (if k = name then x mod 256 ^ n else view s k))"
begin

text \<open>A sequence of writes to registers that exist leaves, in each register, the last value written.\<close>

definition write_all :: "(string \<times> nat \<times> nat) list \<Rightarrow> 's \<Rightarrow> 's res" where
  "write_all ws s = foldR (\<lambda>(name, n, x) s. wr s name n x) ws s"

lemma write_all_view:
  assumes "good s" and "\<And>name n x. (name, n, x) \<in> set ws \<Longrightarrow> has s name n"
  shows "\<exists>s'. write_all ws s = Inr s' \<and> good s' \<and> (\<forall>k m. has s' k m \<longleftrightarrow> has s k m)
           \<and> (\<forall>k m. has s k m \<longrightarrow>
                view s' k = fold (\<lambda>(name, n, x) v. if k = name then x mod 256 ^ n else v) ws (view s k))"
  using assms
proof (induction ws arbitrary: s)
  case (Cons w ws)
  obtain name n x where w: "w = (name, n, x)" by (cases w)
  obtain s1 where s1: "wr s name n x = Inr s1" "good s1" "\<forall>k m. has s1 k m \<longleftrightarrow> has s k m"
      "\<forall>k m. has s k m \<longrightarrow> view s1 k = (if k = name then x mod 256 ^ n else view s k)"
    using wr_view [OF Cons.prems(1) Cons.prems(2) [of name n x], of x, unfolded w] by (metis list.set_intros(1))
  obtain s' where s': "write_all ws s1 = Inr s'" "good s'" "\<forall>k m. has s' k m \<longleftrightarrow> has s1 k m"
      "\<forall>k m. has s1 k m \<longrightarrow>
         view s' k = fold (\<lambda>(name, n, x) v. if k = name then x mod 256 ^ n else v) ws (view s1 k)"
    using Cons.IH [OF s1(2)] Cons.prems(2) s1(3) by fastforce
  have "write_all (w # ws) s = Inr s'" using s1(1) s'(1) by (simp add: write_all_def w)
  moreover have "view s' k = fold (\<lambda>(name, n, x) v. if k = name then x mod 256 ^ n else v) (w # ws) (view s k)"
    if "has s k m" for k m
    using s'(4) s1(3,4) that by (auto simp: w)
  ultimately show ?case using s' s1(3) by blast
qed (simp add: write_all_def)

end

section \<open>The register file is an instance\<close>

lemma apart_disjoint:
  assumes "apart rs" and "(k1, o1, s1) \<in> set rs" and "(k2, o2, s2) \<in> set rs"
  shows "(k1, o1, s1) = (k2, o2, s2) \<or> k1 \<noteq> k2 \<and> (o1 + s1 \<le> o2 \<or> o2 + s2 \<le> o1)"
  using assms
proof (induction rs rule: apart.induct)
  case (2 name o1 s1 rs)
  then show ?case by (auto simp: list_all_iff)
qed simp

lemma apart_distinct:
  "apart rs \<Longrightarrow> list_all (\<lambda>(_, off, n). 0 < n \<and> off + n \<le> len) rs \<Longrightarrow> distinct (map (\<lambda>(_, off, _). off) rs)"
  by (induction rs rule: apart.induct) (fastforce simp: list_all_iff)+

lemma layout_validates:
  assumes "layout_ok rf" and "(name, off, n) \<in> set (rf_registers rf)"
  shows "validate_range E rf off n = Inr ()" and "usize_add E off n = Inr (off + n)"
    and "off + n \<le> length (inner rf)" and "0 < n"
proof -
  let ?o = "register_offsets rf"
  have regs: "0 < n" "off + n \<le> length (inner rf)" "length (inner rf) < 2 ^ 64"
    using assms by (auto simp: layout_ok_def list_all_iff)
  then show "0 < n" "off + n \<le> length (inner rf)" by auto
  show add: "usize_add E off n = Inr (off + n)" using regs by (simp add: usize_add_def)
  have srt: "sorted ?o" and mem: "set ?o = (\<lambda>(_, off, _). off) ` set (rf_registers rf)"
    using assms(1) by (auto simp: layout_ok_def)
  obtain i where i: "binary_search ?o off = Inr i"
    using binary_search_member [OF srt, of off] assms(2) mem by force
  then have at: "i < length ?o" "?o ! i = off" using binary_search_found [OF srt] by auto
  have dst: "distinct ?o" using apart_distinct assms(1) by (auto simp: layout_ok_def)
  have "off + n \<le> ?o ! (i + 1)" if lt: "i + 1 < length ?o"
  proof -
    have "off < ?o ! (i + 1)"
      using sorted_nth_mono [OF srt, of i "i + 1"] nth_eq_iff_index_eq [OF dst at(1) lt] at lt by auto
    moreover obtain k2 s2 where "(k2, ?o ! (i + 1), s2) \<in> set (rf_registers rf)"
      using nth_mem [OF lt] mem by auto
    ultimately show ?thesis
      using apart_disjoint [OF _ assms(2), of k2 "?o ! (i + 1)" s2] assms(1) by (auto simp: layout_ok_def)
  qed
  then show "validate_range E rf off n = Inr ()"
    using i add by (auto simp: validate_range_def)
qed

lemma has_register_member: "has_register rf name n \<Longrightarrow> \<exists>off. map_of (rf_registers rf) name = Some (off, n)
    \<and> (name, off, n) \<in> set (rf_registers rf)"
  by (auto simp: has_register_def map_of_SomeD)

lemma reg_read_view: "layout_ok rf \<Longrightarrow> has_register rf name n \<Longrightarrow> reg_read E rf name n = Inr (register_view rf name)"
  by (drule has_register_member) (auto simp: reg_read_def rf_read_def read_raw_def register_view_def layout_validates)

lemma reg_write_view:
  assumes "layout_ok rf" and "has_register rf name n"
  shows "\<exists>rf'. reg_write E rf name n x = Inr rf' \<and> layout_ok rf' \<and> (\<forall>k m. has_register rf' k m \<longleftrightarrow> has_register rf k m)
     \<and> (\<forall>k m. has_register rf k m \<longrightarrow> register_view rf' k = (if k = name then x mod 256 ^ n else register_view rf k))"
proof -
  obtain off where off: "map_of (rf_registers rf) name = Some (off, n)" "(name, off, n) \<in> set (rf_registers rf)"
    using has_register_member [OF assms(2)] by blast
  note v = layout_validates [OF assms(1) off(2)]
  let ?rf = "rf\<lparr>inner := take off (inner rf) @ le_bytes n x @ drop (off + n) (inner rf)\<rparr>"
  have w: "reg_write E rf name n x = Inr ?rf"
    using v off by (simp add: reg_write_def rf_write_def write_raw_def)
  have len: "length (inner ?rf) = length (inner rf)" using v(3) by simp
  have "register_view ?rf k = (if k = name then x mod 256 ^ n else register_view rf k)" if hk: "has_register rf k m" for k m
  proof -
    obtain off' where o': "map_of (rf_registers rf) k = Some (off', m)" "(k, off', m) \<in> set (rf_registers rf)"
      using has_register_member [OF hk] by blast
    show ?thesis
    proof (cases "k = name")
      case True
      with o' off slice_of_patched_same [of off "le_bytes n x" "inner rf"] v(3) show ?thesis
        by (simp add: register_view_def from_le_bytes)
    next
      case False
      then have "off' + m \<le> off \<or> off + n \<le> off'"
        using apart_disjoint [OF _ off(2) o'(2)] assms(1) by (auto simp: layout_ok_def)
      with False o' slice_of_patched_other [of off "le_bytes n x" "inner rf" off' m] v(3) show ?thesis
        by (simp add: register_view_def)
    qed
  qed
  moreover have "layout_ok ?rf" using assms(1) len by (simp add: layout_ok_def)
  ultimately show ?thesis using w by (auto simp: has_register_def)
qed

interpretation regs: named_registers layout_ok has_register register_view "reg_read E" "reg_write E" for E :: rust_env
  by unfold_locales (simp add: reg_read_view, rule reg_write_view)

end
