(* ===== verification/Host_Paging.thy ===== *)
theory Host_Paging
  imports Rust_Arith "HOL-Library.Sublist"
begin

text \<open>
  The host page tables that back the guest's address space, \<open>brig/kernel/src/arch/x86/memory.rs\<close>.
  Dropping every guest mapping only clears the \<open>PRESENT\<close> bit of the 256 top-level entries of the
  guest half; the tables below keep their stale entries, and a later \<open>map_page_propagate_invalidation\<close>
  clears them one level at a time as it walks down.  \<open>smc_protect\<close> and \<open>release_smc_protection\<close> play
  the same game with \<open>WRITABLE\<close>.  The page table entries, their flags and the index of an address
  at a level belong to the \<open>x86_64\<close> crate and are parameters (\<open>pte_ops\<close>, with the documented laws
  in \<open>pte_laws\<close>).  The processor's view of the tables is the specification: a page is mapped when
  \<open>PRESENT\<close> is set at all four levels and writable when \<open>WRITABLE\<close> is, and the four operations
  simulate the obvious updates of a map from pages to frames and of a set of writable pages.
\<close>

unbundle bit_operations_syntax

section \<open>Entries and tables\<close>

datatype page_table_flag = PRESENT | WRITABLE | USER_ACCESSIBLE | WRITE_THROUGH | NO_CACHE | ACCESSED | DIRTY | HUGE_PAGE | GLOBAL
  | BIT_9 | BIT_10 | BIT_11 | BIT_52 | BIT_53 | BIT_54 | BIT_55 | BIT_56 | BIT_57 | BIT_58 | BIT_59 | BIT_60 | BIT_61 | BIT_62
  | NO_EXECUTE

record 'e pte_ops =
  is_unused :: "'e \<Rightarrow> bool"
  pte_flags :: "'e \<Rightarrow> page_table_flag set"
  pte_addr :: "'e \<Rightarrow> u64"
  set_flags :: "'e \<Rightarrow> page_table_flag set \<Rightarrow> 'e"
  set_addr :: "'e \<Rightarrow> u64 \<Rightarrow> page_table_flag set \<Rightarrow> 'e"
  zero_entry :: 'e \<comment> \<open>an entry of a zeroed page\<close>
  page_table_index :: "u64 \<Rightarrow> nat \<Rightarrow> nat" \<comment> \<open>of an address at a level from 4 down to 1\<close>

definition pte_laws :: "'e pte_ops \<Rightarrow> bool" where
  "pte_laws P \<longleftrightarrow>
     (\<forall>e f. pte_flags P (set_flags P e f) = f \<and> pte_addr P (set_flags P e f) = pte_addr P e)
     \<and> (\<forall>e a f. take_bit 12 a = 0
          \<longrightarrow> pte_flags P (set_addr P e a f) = f \<and> pte_addr P (set_addr P e a f) = a)
     \<and> (\<forall>e. is_unused P e \<longleftrightarrow> pte_addr P e = 0 \<and> pte_flags P e = {})
     \<and> is_unused P (zero_entry P)"

text \<open>
  The tables are found by the host virtual address of their page; \<open>heap\<close> is the sequence of pages the
  global allocator hands out.
\<close>

record 'e host_memory =
  tables :: "u64 \<Rightarrow> nat \<Rightarrow> 'e"
  heap :: "u64 list"
  pml4 :: u64

definition set_entry :: "u64 \<Rightarrow> nat \<Rightarrow> 'e \<Rightarrow> 'e host_memory \<Rightarrow> 'e host_memory" where
  "set_entry t i e s = s\<lparr>tables := (tables s)(t := (tables s t)(i := e))\<rparr>"

definition PHYSICAL_MEMORY_OFFSET :: u64 where
  "PHYSICAL_MEMORY_OFFSET = 0xffff818000000000"

definition to_virt :: "rust_env \<Rightarrow> u64 \<Rightarrow> u64 res" where
  "to_virt E a = u64_add E a PHYSICAL_MEMORY_OFFSET"

definition to_phys :: "rust_env \<Rightarrow> u64 \<Rightarrow> u64 res" where
  "to_phys E a = u64_sub E a PHYSICAL_MEMORY_OFFSET"

text \<open>An exhausted heap answers with the null pointer, which \<open>to_phys\<close> refuses.\<close>

definition allocate_frame :: "rust_env \<Rightarrow> 'e pte_ops \<Rightarrow> 'e host_memory \<Rightarrow> ('e host_memory \<times> u64) res" where
  "allocate_frame E P s =
     (let new_frame = (case heap s of [] \<Rightarrow> 0 | p # _ \<Rightarrow> p) in
      rbind (to_phys E new_frame) (\<lambda>frame.
      if take_bit 12 frame = 0
      then Inr (s\<lparr>tables := (tables s)(new_frame := (\<lambda>_. zero_entry P)), heap := tl (heap s)\<rparr>, frame)
      else Inl UnwrapFailed))"

section \<open>Operations\<close>

definition clear_all_bits :: "page_table_flag \<Rightarrow> 'e pte_ops \<Rightarrow> u64 \<Rightarrow> 'e host_memory \<Rightarrow> 'e host_memory" where
  "clear_all_bits F P t s =
     s\<lparr>tables := (tables s)(t := (\<lambda>i. set_flags P (tables s t i) (pte_flags P (tables s t i) - {F})))\<rparr>"

definition clear_guest_half :: "page_table_flag \<Rightarrow> 'e pte_ops \<Rightarrow> 'e host_memory \<Rightarrow> 'e host_memory" where
  "clear_guest_half F P s =
     s\<lparr>tables := (tables s)(pml4 s := (\<lambda>i. let e = tables s (pml4 s) i in
        if i < 0x100 then set_flags P e (pte_flags P e - {F}) else e))\<rparr>"

definition invalidate_guest_mappings :: "'e pte_ops \<Rightarrow> 'e host_memory \<Rightarrow> 'e host_memory" where
  "invalidate_guest_mappings P s = clear_guest_half PRESENT P s"

definition smc_protect :: "'e pte_ops \<Rightarrow> 'e host_memory \<Rightarrow> 'e host_memory" where
  "smc_protect P s = clear_guest_half WRITABLE P s"

text \<open>
  \<open>walk_and_reset_table\<close> and \<open>walk_table_smc_reset\<close> are the same code on different flags.
\<close>

definition reset_entry :: "page_table_flag \<Rightarrow> rust_env \<Rightarrow> 'e pte_ops \<Rightarrow> u64 \<Rightarrow> nat \<Rightarrow> 'e host_memory
    \<Rightarrow> ('e host_memory \<times> bool) res" where
  "reset_entry F E P t i s =
     (let entry = tables s t i in
      if F \<notin> pte_flags P entry then
        if is_unused P entry then
          rbind (allocate_frame E P s) (\<lambda>(s, frame).
          Inr (set_entry t i (set_addr P entry frame {PRESENT, WRITABLE}) s, False))
        else Inr (set_entry t i (set_flags P entry (pte_flags P entry \<union> {F})) s, True)
      else Inr (s, False))"

definition reset_walk :: "page_table_flag \<Rightarrow> rust_env \<Rightarrow> 'e pte_ops \<Rightarrow> u64 \<Rightarrow> u64 \<Rightarrow> nat \<Rightarrow> 'e host_memory
    \<Rightarrow> ('e host_memory \<times> u64) res" where
  "reset_walk F E P t address level s =
     (let i = page_table_index P address level in
      rbind (reset_entry F E P t i s) (\<lambda>(s, should_clear).
      let entry = tables s t i in
      if HUGE_PAGE \<in> pte_flags P entry then Inl ExplicitPanic
      else rbind (to_virt E (pte_addr P entry)) (\<lambda>next_table.
           Inr (if should_clear then clear_all_bits F P next_table s else s, next_table))))"

definition walk_and_reset_table where
  "walk_and_reset_table = reset_walk PRESENT"

definition walk_table_smc_reset where
  "walk_table_smc_reset = reset_walk WRITABLE"

definition map_page_propagate_invalidation :: "rust_env \<Rightarrow> 'e pte_ops \<Rightarrow> u64 \<Rightarrow> u64 \<Rightarrow> page_table_flag set
    \<Rightarrow> 'e host_memory \<Rightarrow> 'e host_memory res" where
  "map_page_propagate_invalidation E P page frame flags s =
     rbind (walk_and_reset_table E P (pml4 s) page 4 s) (\<lambda>(s, l3_table).
     rbind (walk_and_reset_table E P l3_table page 3 s) (\<lambda>(s, l2_table).
     rbind (walk_and_reset_table E P l2_table page 2 s) (\<lambda>(s, l1_table).
     let i = page_table_index P page 1 in
     Inr (set_entry l1_table i (set_addr P (tables s l1_table i) frame flags) s))))"

definition release_smc_protection :: "rust_env \<Rightarrow> 'e pte_ops \<Rightarrow> u64 \<Rightarrow> 'e host_memory \<Rightarrow> 'e host_memory res" where
  "release_smc_protection E P address s =
     rbind (walk_table_smc_reset E P (pml4 s) address 4 s) (\<lambda>(s, l3_table).
     rbind (walk_table_smc_reset E P l3_table address 3 s) (\<lambda>(s, l2_table).
     rbind (walk_table_smc_reset E P l2_table address 2 s) (\<lambda>(s, l1_table).
     let i = page_table_index P address 1; l1_entry = tables s l1_table i in
     Inr (set_entry l1_table i (set_flags P l1_entry (pte_flags P l1_entry \<union> {WRITABLE})) s))))"

section \<open>The processor's view\<close>

text \<open>
  A path is the list of the indices from the deepest level up to the top; the guest half holds the
  paths whose top index is below 256.  \<open>table_along\<close> follows the entries that satisfy \<open>ok\<close>.
\<close>

fun guest_path :: "nat list \<Rightarrow> bool" where
  "guest_path [] \<longleftrightarrow> True"
| "guest_path [i] \<longleftrightarrow> i < 0x100"
| "guest_path (i # j # p) \<longleftrightarrow> guest_path (j # p)"

definition child :: "'e pte_ops \<Rightarrow> 'e \<Rightarrow> u64" where
  "child P e = pte_addr P e + PHYSICAL_MEMORY_OFFSET"

fun table_along :: "('e \<Rightarrow> bool) \<Rightarrow> 'e pte_ops \<Rightarrow> 'e host_memory \<Rightarrow> nat list \<Rightarrow> u64 option" where
  "table_along ok P s [] = Some (pml4 s)"
| "table_along ok P s (i # p) =
     (case table_along ok P s p of
        None \<Rightarrow> None
      | Some t \<Rightarrow> if ok (tables s t i) then Some (child P (tables s t i)) else None)"

text \<open>The frame of a page, following the entries that have the flag.\<close>

definition resolve :: "page_table_flag \<Rightarrow> 'e pte_ops \<Rightarrow> 'e host_memory \<Rightarrow> nat list \<Rightarrow> u64 option" where
  "resolve F P s q =
     (if length q = 4 \<and> guest_path q
      then map_option (\<lambda>t. t - PHYSICAL_MEMORY_OFFSET) (table_along (\<lambda>e. F \<in> pte_flags P e) P s q)
      else None)"

definition page_path :: "'e pte_ops \<Rightarrow> u64 \<Rightarrow> nat list" where
  "page_path P a = [page_table_index P a 1, page_table_index P a 2, page_table_index P a 3, page_table_index P a 4]"

definition mapping :: "'e pte_ops \<Rightarrow> 'e host_memory \<Rightarrow> nat list \<rightharpoonup> u64" where
  "mapping P s = resolve PRESENT P s"

definition writable_pages :: "'e pte_ops \<Rightarrow> 'e host_memory \<Rightarrow> nat list set" where
  "writable_pages P s = dom (resolve WRITABLE P s)"

definition table_at :: "'e pte_ops \<Rightarrow> 'e host_memory \<Rightarrow> nat list \<Rightarrow> u64 option" where
  "table_at P s p = table_along (\<lambda>e. \<not> is_unused P e) P s p"

text \<open>
  The tables of the guest half form a tree, the heap holds none of them, and neither the entries of
  the upper levels nor the heap's pages can make a step fail.
\<close>

definition table_path :: "nat list \<Rightarrow> bool" where
  "table_path p \<longleftrightarrow> guest_path p \<and> length p \<le> 3"

definition tree :: "'e pte_ops \<Rightarrow> 'e host_memory \<Rightarrow> bool" where
  "tree P s \<longleftrightarrow>
     (\<forall>p q t. table_path p \<and> table_path q \<and> table_at P s p = Some t \<and> table_at P s q = Some t \<longrightarrow> p = q)
     \<and> (\<forall>p t. table_path p \<and> table_at P s p = Some t \<longrightarrow> t \<notin> set (heap s))
     \<and> distinct (heap s)"

definition directory_entry_ok :: "'e pte_ops \<Rightarrow> 'e \<Rightarrow> bool" where
  "directory_entry_ok P e \<longleftrightarrow>
     HUGE_PAGE \<notin> pte_flags P e \<and> unat (pte_addr P e) + unat PHYSICAL_MEMORY_OFFSET < 2 ^ 64"

definition directories_ok :: "'e pte_ops \<Rightarrow> 'e host_memory \<Rightarrow> bool" where
  "directories_ok P s \<longleftrightarrow>
     (\<forall>p i t. table_path (i # p) \<and> table_at P s p = Some t \<and> \<not> is_unused P (tables s t i)
        \<longrightarrow> directory_entry_ok P (tables s t i))
     \<and> (\<forall>m \<in> set (heap s). PHYSICAL_MEMORY_OFFSET \<le> m \<and> take_bit 12 (m - PHYSICAL_MEMORY_OFFSET) = 0)"

definition paging_ok :: "'e pte_ops \<Rightarrow> 'e host_memory \<Rightarrow> bool" where
  "paging_ok P s \<longleftrightarrow> tree P s \<and> directories_ok P s"

section \<open>Lemmas\<close>

lemma guest_path_Cons: "guest_path (i # p) \<longleftrightarrow> (if p = [] then i < 0x100 else guest_path p)"
  by (cases p) auto

lemma table_path_tl: "table_path (i # p) \<Longrightarrow> table_path p"
  by (cases p) (auto simp: table_path_def)

lemma guest_path_suffix: "suffix p q \<Longrightarrow> guest_path q \<Longrightarrow> guest_path p"
proof (induction q)
  case (Cons j q)
  then show ?case by (cases q) (auto simp: suffix_Cons guest_path_Cons split: if_splits)
qed simp

text \<open>Only the entries on the way matter.\<close>

lemma table_along_cong:
  assumes "pml4 s' = pml4 s"
    and "\<And>j q' u. suffix (j # q') q \<Longrightarrow> table_along ok P s q' = Some u
           \<Longrightarrow> ok' (tables s' u j) = ok (tables s u j)
             \<and> (ok (tables s u j) \<longrightarrow> child P (tables s' u j) = child P (tables s u j))"
  shows "table_along ok' P s' q = table_along ok P s q"
  using assms(2)
proof (induction q)
  case (Cons j q)
  have "table_along ok' P s' q = table_along ok P s q"
    by (rule Cons.IH) (rule Cons.prems, auto simp: suffix_Cons)
  then show ?case
    using Cons.prems [of j q] by (auto split: option.splits)
qed (simp add: assms(1))

lemma table_along_suffix_None:
  "suffix p q \<Longrightarrow> table_along ok P s p = None \<Longrightarrow> table_along ok P s q = None"
  by (induction q) (auto simp: suffix_Cons)

lemma table_along_stops:
  "(\<And>v. table_along ok P s p = Some v \<Longrightarrow> \<not> ok (tables s v j)) \<Longrightarrow> table_along ok P s (j # p) = None"
  by (cases "table_along ok P s p") auto

lemma table_along_used:
  assumes "\<And>e. ok e \<Longrightarrow> \<not> is_unused P e" and "table_along ok P s p = Some t"
  shows "table_at P s p = Some t"
  using assms(2) unfolding table_at_def
  by (induction p arbitrary: t) (auto split: option.splits if_splits dest: assms(1))

lemma pte_simps:
  assumes "pte_laws P"
  shows "pte_flags P (set_flags P e f) = f" and "pte_addr P (set_flags P e f) = pte_addr P e"
    and "child P (set_flags P e f) = child P e"
    and "take_bit 12 a = 0 \<Longrightarrow> pte_flags P (set_addr P e a f) = f"
    and "take_bit 12 a = 0 \<Longrightarrow> pte_addr P (set_addr P e a f) = a"
    and "is_unused P e \<longleftrightarrow> pte_addr P e = 0 \<and> pte_flags P e = {}"
    and "pte_addr P (zero_entry P) = 0" and "pte_flags P (zero_entry P) = {}"
  using assms by (auto simp: pte_laws_def child_def)

lemma flagged_used: "pte_laws P \<Longrightarrow> F \<in> pte_flags P e \<Longrightarrow> \<not> is_unused P e"
  by (auto simp: pte_simps)

lemma flagged_table_at:
  "pte_laws P \<Longrightarrow> table_along (\<lambda>e. F \<in> pte_flags P e) P s p = Some t \<Longrightarrow> table_at P s p = Some t"
  using flagged_used by (rule table_along_used)

lemma tree_inj:
  "tree P s \<Longrightarrow> table_path p \<Longrightarrow> table_path q \<Longrightarrow> table_at P s p = Some t \<Longrightarrow> table_at P s q = Some t \<Longrightarrow> p = q"
  by (auto simp: tree_def)

lemma tree_heap: "tree P s \<Longrightarrow> table_path p \<Longrightarrow> table_at P s p = Some t \<Longrightarrow> t \<notin> set (heap s)"
  by (auto simp: tree_def)

lemma table_path_of_resolved:
  assumes "length q = 4" and "guest_path q" and "suffix (j # p) q"
  shows "table_path p"
proof -
  have "length (j # p) \<le> length q" using assms(3) by (rule suffix_length_le)
  moreover have "guest_path p" by (rule guest_path_suffix [OF suffix_ConsD [OF assms(3)] assms(2)])
  ultimately show ?thesis using assms(1) by (simp add: table_path_def)
qed

lemma resolve_cong:
  assumes "pte_laws P" and "pml4 s' = pml4 s"
    and "\<And>j p u. table_path p \<Longrightarrow> table_at P s p = Some u \<Longrightarrow> length q = 4 \<Longrightarrow> guest_path q \<Longrightarrow> suffix (j # p) q
           \<Longrightarrow> (F \<in> pte_flags P (tables s' u j) \<longleftrightarrow> F \<in> pte_flags P (tables s u j))
             \<and> (F \<in> pte_flags P (tables s u j) \<longrightarrow> child P (tables s' u j) = child P (tables s u j))"
  shows "resolve F P s' q = resolve F P s q"
proof (cases "length q = 4 \<and> guest_path q")
  case True
  have "table_along (\<lambda>e. F \<in> pte_flags P e) P s' q = table_along (\<lambda>e. F \<in> pte_flags P e) P s q"
    using True assms(3) [OF table_path_of_resolved flagged_table_at [OF assms(1)]]
    by (intro table_along_cong assms(2)) blast
  then show ?thesis by (simp add: resolve_def)
qed (auto simp: resolve_def)

text \<open>Pages of the heap that are handed out elsewhere leave the tables as they are.\<close>

lemma smaller_heap_along: "table_along ok P (s\<lparr>heap := h\<rparr>) q = table_along ok P s q"
  by (rule table_along_cong) simp_all

lemma smaller_heap_resolve: "resolve F P (s\<lparr>heap := h\<rparr>) = resolve F P s"
  by (rule ext) (simp only: resolve_def smaller_heap_along)

lemma smaller_heap_view:
  "mapping P (s\<lparr>heap := h\<rparr>) = mapping P s" "writable_pages P (s\<lparr>heap := h\<rparr>) = writable_pages P s"
  by (simp_all only: mapping_def writable_pages_def smaller_heap_resolve)

lemma smaller_heap_ok: "paging_ok P s \<Longrightarrow> paging_ok P (s\<lparr>heap := drop n (heap s)\<rparr>)"
  by (auto simp: paging_ok_def tree_def directories_ok_def table_at_def smaller_heap_along dest: in_set_dropD)

section \<open>Changing flags\<close>

text \<open>Changes to flags that leave the tree as it is or smaller.\<close>

definition reflagged :: "'e pte_ops \<Rightarrow> 'e host_memory \<Rightarrow> 'e host_memory \<Rightarrow> bool" where
  "reflagged P s s' \<longleftrightarrow> pml4 s' = pml4 s \<and> heap s' = heap s
     \<and> (\<forall>p j u. table_path (j # p) \<and> table_at P s p = Some u
          \<longrightarrow> pte_addr P (tables s' u j) = pte_addr P (tables s u j)
            \<and> (HUGE_PAGE \<in> pte_flags P (tables s' u j) \<longrightarrow> HUGE_PAGE \<in> pte_flags P (tables s u j))
            \<and> (is_unused P (tables s u j) \<longrightarrow> is_unused P (tables s' u j)))"

lemma reflagged_shrinks:
  assumes "reflagged P s s'"
  shows "table_path q \<Longrightarrow> table_at P s' q = Some u \<Longrightarrow> table_at P s q = Some u"
proof (induction q arbitrary: u)
  case Nil
  with assms show ?case by (simp add: table_at_def reflagged_def)
next
  case (Cons j q)
  from Cons.prems(2) obtain v where v: "table_at P s' q = Some v" "\<not> is_unused P (tables s' v j)"
      "u = child P (tables s' v j)"
    by (auto simp: table_at_def split: option.splits if_splits)
  have "table_at P s q = Some v" using Cons.IH Cons.prems(1) v(1) table_path_tl by blast
  with assms Cons.prems(1) v show ?case
    by (force simp: reflagged_def table_at_def child_def)
qed

lemma reflagged_ok:
  assumes "reflagged P s s'" and "paging_ok P s"
  shows "paging_ok P s'"
proof -
  note shrink = reflagged_shrinks [OF assms(1)]
  have h: "heap s' = heap s" using assms(1) by (simp add: reflagged_def)
  have "tree P s'"
    using assms(2) shrink unfolding tree_def paging_ok_def h by (metis (no_types, lifting))
  moreover have "directory_entry_ok P (tables s' t i)"
    if "table_path (i # p)" "table_at P s' p = Some t" "\<not> is_unused P (tables s' t i)" for p i t
  proof -
    have at: "table_at P s p = Some t" using shrink that(1,2) table_path_tl by blast
    then have "\<not> is_unused P (tables s t i)" using assms(1) that(1,3) by (auto simp: reflagged_def)
    then have "directory_entry_ok P (tables s t i)"
      using assms(2) at that(1) by (auto simp: paging_ok_def directories_ok_def)
    then show ?thesis using assms(1) at that(1) by (auto simp: reflagged_def directory_entry_ok_def)
  qed
  ultimately show ?thesis
    using assms(2) by (auto simp: paging_ok_def directories_ok_def h)
qed

lemma clear_guest_half_reflagged: "pte_laws P \<Longrightarrow> reflagged P s (clear_guest_half F P s)"
  by (auto simp: reflagged_def clear_guest_half_def Let_def pte_simps)

lemma resolve_clear_guest_half:
  assumes "pte_laws P" and "paging_ok P s"
  shows "resolve G P (clear_guest_half F P s) = (if G = F then Map.empty else resolve G P s)"
proof (cases "G = F")
  case True
  have "table_along (\<lambda>e. F \<in> pte_flags P e) P (clear_guest_half F P s) q = None"
    if "length q = 4" "guest_path q" for q
  proof -
    have "\<exists>p i. q = p @ [i]" using that(1) by (metis length_greater_0_conv rev_exhaust zero_less_numeral)
    then obtain p i where q: "q = p @ [i]" by blast
    then have "suffix [i] q" by (simp add: suffix_def)
    moreover from this that(2) have "guest_path [i]" by (rule guest_path_suffix)
    then have "table_along (\<lambda>e. F \<in> pte_flags P e) P (clear_guest_half F P s) [i] = None"
      by (simp add: clear_guest_half_def Let_def pte_simps [OF assms(1)])
    ultimately show ?thesis by (rule table_along_suffix_None)
  qed
  with True show ?thesis by (auto simp: resolve_def)
next
  case False
  have "resolve G P (clear_guest_half F P s) q = resolve G P s q" for q
    by (rule resolve_cong [OF assms(1)])
      (use False in \<open>auto simp: clear_guest_half_def Let_def pte_simps [OF assms(1)]\<close>)
  with False show ?thesis by auto
qed

section \<open>One level of a walk\<close>

text \<open>
  A step at entry \<open>i\<close> of the table \<open>t\<close> of path \<open>p\<close> changes that entry and the table \<open>n\<close> below it
  only, so whatever does not go through the entry is as before.
\<close>

lemma along_elsewhere:
  assumes "tree P s" and "pml4 s' = pml4 s"
    and "\<And>u j. \<not> (u = t \<and> j = i) \<Longrightarrow> u \<noteq> n \<Longrightarrow> tables s' u j = tables s u j"
    and "table_path p" and "table_at P s p = Some t"
    and "\<And>p'. table_path p' \<Longrightarrow> table_at P s p' = Some n \<Longrightarrow> p' = i # p"
    and used: "\<And>e. ok e \<Longrightarrow> \<not> is_unused P e"
    and "guest_path q" and "length q \<le> 4" and "\<not> suffix (i # p) q"
  shows "table_along ok P s' q = table_along ok P s q"
proof (rule table_along_cong [OF assms(2)])
  fix j q' u assume suf: "suffix (j # q') q" and "table_along ok P s q' = Some u"
  then have at: "table_at P s q' = Some u" using table_along_used [OF used] by blast
  have tp: "table_path q'"
    using guest_path_suffix [OF suffix_ConsD [OF suf] assms(8)] suffix_length_le [OF suf] assms(9)
    by (simp add: table_path_def)
  have "u \<noteq> n"
    using assms(6) [OF tp] at assms(10) suffix_ConsD [OF suf] by auto
  moreover have "\<not> (u = t \<and> j = i)"
    using tree_inj [OF assms(1,4) tp assms(5)] at assms(10) suf by auto
  ultimately have "tables s' u j = tables s u j" using assms(3) by blast
  then show "ok (tables s' u j) = ok (tables s u j)
      \<and> (ok (tables s u j) \<longrightarrow> child P (tables s' u j) = child P (tables s u j))" by simp
qed

lemma not_suffix_longer: "\<not> suffix (i # p) p"
  using suffix_length_le by fastforce

lemma strict_suffix_Cons:
  assumes "suffix p q" and "length p < length q"
  obtains j where "suffix (j # p) q"
proof -
  from assms(1) obtain r where r: "q = r @ p" unfolding suffix_def ..
  with assms(2) obtain rs j where "r = rs @ [j]" by (cases r rule: rev_cases) auto
  with r have "q = rs @ (j # p)" by simp
  then have "suffix (j # p) q" unfolding suffix_def ..
  then show thesis by (rule that)
qed

lemma resolve_blocked:
  assumes "\<And>j. suffix (j # p) q \<Longrightarrow> table_along (\<lambda>e. F \<in> pte_flags P e) P s (j # p) = None"
    and "suffix p q" and "length p \<le> 3"
  shows "resolve F P s q = None"
proof (cases "length q = 4")
  case True
  then obtain j where "suffix (j # p) q" using strict_suffix_Cons [OF assms(2)] assms(3) by auto
  from table_along_suffix_None [OF this assms(1) [OF this]] show ?thesis by (simp add: resolve_def)
qed (simp add: resolve_def)

text \<open>What a step guarantees.\<close>

definition stepped :: "page_table_flag \<Rightarrow> 'e pte_ops \<Rightarrow> nat \<Rightarrow> nat list \<Rightarrow> u64 \<Rightarrow> 'e host_memory \<Rightarrow> 'e host_memory \<Rightarrow> u64 \<Rightarrow> bool" where
  "stepped F P i p t s s' n \<longleftrightarrow>
     paging_ok P s' \<and> pml4 s' = pml4 s \<and> length (heap s) \<le> Suc (length (heap s'))
     \<and> table_at P s' (i # p) = Some n \<and> (\<forall>G. resolve G P s' = resolve G P s)
     \<and> (table_along (\<lambda>e. F \<in> pte_flags P e) P s p = Some t
          \<longrightarrow> table_along (\<lambda>e. F \<in> pte_flags P e) P s' (i # p) = Some n)"

lemma to_virt_child:
  "directory_entry_ok P e \<Longrightarrow> to_virt E (pte_addr P e) = Inr (child P e)"
  by (simp add: to_virt_def u64_add_def directory_entry_ok_def child_def)

lemma directory_entry:
  "paging_ok P s \<Longrightarrow> table_path (i # p) \<Longrightarrow> table_at P s p = Some t \<Longrightarrow> \<not> is_unused P (tables s t i)
   \<Longrightarrow> directory_entry_ok P (tables s t i) \<and> table_at P s (i # p) = Some (child P (tables s t i))"
  by (auto simp: paging_ok_def directories_ok_def table_at_def)

lemma step_present:
  assumes "pte_laws P" and "paging_ok P s" and "table_path (i # p)" and "table_at P s p = Some t"
    and "F \<in> pte_flags P (tables s t i)"
  shows "stepped F P i p t s s (child P (tables s t i))"
  using assms directory_entry [OF assms(2-4) flagged_used [OF assms(1,5)]]
  by (auto simp: stepped_def)

lemma step_revive:
  assumes laws: "pte_laws P" and ok: "paging_ok P s" and tp: "table_path (i # p)" and at: "table_at P s p = Some t"
    and no: "F \<notin> pte_flags P (tables s t i)" and us: "\<not> is_unused P (tables s t i)" and F: "F \<noteq> HUGE_PAGE"
  defines "e \<equiv> tables s t i" and "n \<equiv> child P (tables s t i)"
  defines "s' \<equiv> clear_all_bits F P n (set_entry t i (set_flags P e (pte_flags P e \<union> {F})) s)"
  shows "stepped F P i p t s s' n"
proof -
  note pte = pte_simps [OF laws]
  have tr: "tree P s" using ok by (simp add: paging_ok_def)
  have atn: "table_at P s (i # p) = Some n" using directory_entry [OF ok tp at us] by (simp add: n_def)
  have nt: "n \<noteq> t" using tree_inj [OF tr tp table_path_tl [OF tp] atn] at by auto
  have tabs: "tables s' u j =
      (if u = n then set_flags P (tables s n j) (pte_flags P (tables s n j) - {F})
       else if u = t \<and> j = i then set_flags P e (pte_flags P e \<union> {F}) else tables s u j)" for u j
    using nt by (auto simp: s'_def clear_all_bits_def set_entry_def)
  have base: "pml4 s' = pml4 s" "heap s' = heap s" by (simp_all add: s'_def clear_all_bits_def set_entry_def)
  have refl: "reflagged P s s'"
    using us F by (auto simp: reflagged_def base tabs pte e_def)
  have only: "p' = i # p" if "table_path p'" "table_at P s p' = Some n" for p'
    using tree_inj [OF tr that(1) tp that(2) atn] .
  have same: "table_along ok P s' q = table_along ok P s q"
    if "\<And>e. ok e \<Longrightarrow> \<not> is_unused P e" "guest_path q" "length q \<le> 4" "\<not> suffix (i # p) q" for ok q
    by (rule along_elsewhere [OF tr base(1) _ table_path_tl [OF tp] at only that(1) that(2-4)])
      (auto simp: tabs)
  have p: "guest_path p" "length p \<le> 4" using table_path_tl [OF tp] by (auto simp: table_path_def)
  have at': "table_at P s' p = Some t" using same [OF _ p not_suffix_longer] at by (simp add: table_at_def)
  have gone: "resolve F P s q = None" if "suffix (i # p) q" for q
  proof -
    have "table_along (\<lambda>e. F \<in> pte_flags P e) P s (i # p) = None"
      using flagged_table_at [OF laws, of F s p] at no by (auto split: option.splits)
    from table_along_suffix_None [OF that this] show ?thesis by (simp add: resolve_def)
  qed
  have gone': "resolve F P s' q = None" if "suffix (i # p) q" for q
  proof (rule resolve_blocked [OF _ that])
    fix j
    have "v = n" if "table_along (\<lambda>e. F \<in> pte_flags P e) P s' (i # p) = Some v" for v
      using flagged_table_at [OF laws that] reflagged_shrinks [OF refl tp, of v] atn by simp
    then show "table_along (\<lambda>e. F \<in> pte_flags P e) P s' (j # i # p) = None"
      by (intro table_along_stops) (metis DiffE insertI1 pte(1) tabs)
  qed (use tp in \<open>simp add: table_path_def\<close>)
  have "resolve G P s' q = resolve G P s q" for G q
  proof (cases "suffix (i # p) q \<and> G = F")
    case False
    show ?thesis
    proof (cases "G = F")
      case True
      with False have "\<not> suffix (i # p) q" by simp
      with same [of "\<lambda>e. F \<in> pte_flags P e" q] flagged_used [OF laws, of F] show ?thesis by (auto simp: resolve_def True)
    next
      case False
      then show ?thesis by (intro resolve_cong [OF laws base(1)]) (auto simp: tabs pte e_def)
    qed
  qed (simp add: gone gone')
  moreover have "table_at P s' (i # p) = Some n"
    using at' nt by (auto simp: table_at_def tabs pte n_def e_def)
  moreover have "table_along (\<lambda>e. F \<in> pte_flags P e) P s' (i # p) = Some n"
    if "table_along (\<lambda>e. F \<in> pte_flags P e) P s p = Some t"
    using that same [of "\<lambda>e. F \<in> pte_flags P e", OF flagged_used [OF laws] p not_suffix_longer] nt
    by (simp add: tabs pte n_def e_def)
  ultimately show ?thesis
    using reflagged_ok [OF refl ok] by (auto simp: stepped_def base)
qed

lemma allocate_frame_ok:
  assumes "paging_ok P s" and "heap s = m # ms"
  shows "allocate_frame E P s
           = Inr (s\<lparr>tables := (tables s)(m := (\<lambda>_. zero_entry P)), heap := ms\<rparr>, m - PHYSICAL_MEMORY_OFFSET)"
    and "take_bit 12 (m - PHYSICAL_MEMORY_OFFSET) = 0"
  using assms by (simp_all add: paging_ok_def directories_ok_def allocate_frame_def to_phys_def u64_sub_def)

lemma frame_in_range:
  assumes "PHYSICAL_MEMORY_OFFSET \<le> m"
  shows "unat (m - PHYSICAL_MEMORY_OFFSET) + unat PHYSICAL_MEMORY_OFFSET < 2 ^ 64"
  using assms unat_u64_less [of m] by (simp add: unat_sub word_le_nat_alt)

lemma step_fresh:
  assumes laws: "pte_laws P" and ok: "paging_ok P s" and tp: "table_path (i # p)" and at: "table_at P s p = Some t"
    and un: "is_unused P (tables s t i)" and heap: "heap s = n # ms" and F: "F \<in> {PRESENT, WRITABLE}"
  defines "s' \<equiv> set_entry t i (set_addr P (tables s t i) (n - PHYSICAL_MEMORY_OFFSET) {PRESENT, WRITABLE})
      (s\<lparr>tables := (tables s)(n := (\<lambda>_. zero_entry P)), heap := ms\<rparr>)"
  shows "stepped F P i p t s s' n"
proof -
  note pte = pte_simps [OF laws] allocate_frame_ok(2) [OF ok heap]
  have tr: "tree P s" and hp: "PHYSICAL_MEMORY_OFFSET \<le> n"
    using ok heap by (simp_all add: paging_ok_def directories_ok_def)
  have fresh: "table_at P s p' \<noteq> Some n" if "table_path p'" for p'
    using tree_heap [OF tr that] heap by fastforce
  then have nt: "n \<noteq> t" using at table_path_tl [OF tp] by auto
  have tabs: "tables s' u j =
      (if u = t \<and> j = i then set_addr P (tables s t i) (n - PHYSICAL_MEMORY_OFFSET) {PRESENT, WRITABLE}
       else if u = n then zero_entry P else tables s u j)" for u j
    using nt by (auto simp: s'_def set_entry_def)
  have base: "pml4 s' = pml4 s" "heap s' = ms" by (simp_all add: s'_def set_entry_def)
  have same: "table_along ok P s' q = table_along ok P s q"
    if "\<And>e. ok e \<Longrightarrow> \<not> is_unused P e" "guest_path q" "length q \<le> 4" "\<not> suffix (i # p) q" for ok q
    by (rule along_elsewhere [OF tr base(1) _ table_path_tl [OF tp] at _ that(1) that(2-4)])
      (use fresh in \<open>auto simp: tabs\<close>)
  have p: "guest_path p" "length p \<le> 4" using table_path_tl [OF tp] by (auto simp: table_path_def)
  have at': "table_at P s' p = Some t" using same [OF _ p not_suffix_longer] at by (simp add: table_at_def)
  have entry: "child P (tables s' t i) = n" "pte_flags P (tables s' t i) = {PRESENT, WRITABLE}"
    by (simp_all add: tabs pte child_def)
  have below: "table_along ok P s' (j # i # p) = None" if "\<And>e. ok e \<Longrightarrow> \<not> is_unused P e" for ok j
  proof -
    have "v = n" if "table_along ok P s' (i # p) = Some v" for v
      using that table_along_used [where ok = ok and s = s' and p = p, OF \<open>\<And>e. ok e \<Longrightarrow> \<not> is_unused P e\<close>] at' entry(1)
      by (auto split: option.splits if_splits)
    moreover have "\<not> ok (zero_entry P)" using that [of "zero_entry P"] by (auto simp: pte)
    ultimately show ?thesis
      by (intro table_along_stops) (metis nt tabs)
  qed
  have at_n: "table_at P s' (i # p) = Some n"
    using at' entry by (simp add: table_at_def pte)
  have at_iff: "table_at P s' q = (if q = i # p then Some n else if suffix (i # p) q then None else table_at P s q)"
    if "table_path q" for q
  proof (cases "suffix (i # p) q \<and> q \<noteq> i # p")
    case True
    then obtain j where "suffix (j # i # p) q" using strict_suffix_Cons [of "i # p" q]
      by (metis suffix_length_less strict_suffix_def)
    from table_along_suffix_None [OF this below] True show ?thesis by (simp add: table_at_def)
  qed (use same [of "\<lambda>e. \<not> is_unused P e" q] that at_n in \<open>auto simp: table_at_def table_path_def\<close>)
  have "tree P s'"
    using tr fresh heap unfolding tree_def base
    by (auto simp: at_iff split: if_splits)
  moreover have "directory_entry_ok P (tables s' u j)"
    if tpj: "table_path (j # q)" and atq: "table_at P s' q = Some u" and us: "\<not> is_unused P (tables s' u j)" for q j u
  proof (cases "u = t \<and> j = i \<or> u = n")
    case True
    then show ?thesis
      using us frame_in_range [OF hp] by (auto simp: tabs pte directory_entry_ok_def split: if_splits)
  next
    case False
    then have "tables s' u j = tables s u j" by (auto simp: tabs)
    moreover have "table_at P s q = Some u"
      using atq False by (auto simp: at_iff [OF table_path_tl [OF tpj]] split: if_splits)
    ultimately show ?thesis using ok tpj us by (auto simp: paging_ok_def directories_ok_def)
  qed
  ultimately have "paging_ok P s'"
    using ok heap by (auto simp: paging_ok_def directories_ok_def base)
  moreover have "resolve G P s' q = resolve G P s q" for G q
  proof (cases "suffix (i # p) q")
    case True
    have "table_along (\<lambda>e. G \<in> pte_flags P e) P s (i # p) = None"
      using flagged_table_at [OF laws, of G s p] at un by (auto simp: pte split: option.splits)
    from table_along_suffix_None [OF True this] have "resolve G P s q = None" by (simp add: resolve_def)
    moreover have "resolve G P s' q = None"
      using tp by (intro resolve_blocked [OF _ True] below) (auto simp: flagged_used [OF laws] table_path_def)
    ultimately show ?thesis by simp
  next
    case False
    with same [of "\<lambda>e. G \<in> pte_flags P e" q] flagged_used [OF laws, of G] show ?thesis
      by (auto simp: resolve_def)
  qed
  moreover have "table_along (\<lambda>e. F \<in> pte_flags P e) P s' (i # p) = Some n"
    if "table_along (\<lambda>e. F \<in> pte_flags P e) P s p = Some t"
    using that same [of "\<lambda>e. F \<in> pte_flags P e", OF flagged_used [OF laws] p not_suffix_longer] entry F
    by auto
  ultimately show ?thesis using at_n heap by (auto simp: stepped_def base)
qed

lemma reset_walk_step:
  assumes laws: "pte_laws P" and ok: "paging_ok P s" and tp: "table_path (page_table_index P a level # p)"
    and at: "table_at P s p = Some t" and heap: "heap s \<noteq> []" and F: "F \<in> {PRESENT, WRITABLE}"
  shows "\<exists>s' n. reset_walk F E P t a level s = Inr (s', n) \<and> stepped F P (page_table_index P a level) p t s s' n"
proof -
  let ?i = "page_table_index P a level" let ?e = "tables s t ?i"
  note pte = pte_simps [OF laws]
  consider (present) "F \<in> pte_flags P ?e" | (stale) "F \<notin> pte_flags P ?e" "\<not> is_unused P ?e" | (unused) "is_unused P ?e"
    by blast
  then show ?thesis
  proof cases
    case present
    then have "directory_entry_ok P ?e" using directory_entry [OF ok tp at] flagged_used [OF laws] by blast
    then have "reset_walk F E P t a level s = Inr (s, child P ?e)"
      using present to_virt_child [of P ?e E] by (auto simp: reset_walk_def reset_entry_def Let_def directory_entry_ok_def)
    with step_present [OF laws ok tp at present] show ?thesis by blast
  next
    case stale
    then have "directory_entry_ok P ?e" using directory_entry [OF ok tp at] by blast
    then have "reset_walk F E P t a level s =
        Inr (clear_all_bits F P (child P ?e) (set_entry t ?i (set_flags P ?e (pte_flags P ?e \<union> {F})) s), child P ?e)"
      using stale F to_virt_child [of P ?e E]
      by (auto simp: reset_walk_def reset_entry_def Let_def directory_entry_ok_def set_entry_def pte)
    with step_revive [OF laws ok tp at stale] F show ?thesis by blast
  next
    case unused
    obtain m ms where h: "heap s = m # ms" using heap by (cases "heap s") auto
    let ?s = "set_entry t ?i (set_addr P ?e (m - PHYSICAL_MEMORY_OFFSET) {PRESENT, WRITABLE})
      (s\<lparr>tables := (tables s)(m := (\<lambda>_. zero_entry P)), heap := ms\<rparr>)"
    have "PHYSICAL_MEMORY_OFFSET \<le> m" using ok h by (simp add: paging_ok_def directories_ok_def)
    note range = frame_in_range [OF this]
    have "reset_entry F E P t ?i s = Inr (?s, False)"
      using unused allocate_frame_ok [OF ok h] by (simp add: reset_entry_def Let_def pte)
    then have "reset_walk F E P t a level s = Inr (?s, m)"
      using range allocate_frame_ok(2) [OF ok h]
      by (simp add: reset_walk_def Let_def set_entry_def pte to_virt_def u64_add_def)
    with step_fresh [OF laws ok tp at unused h F] show ?thesis by blast
  qed
qed

section \<open>Whole operations\<close>

lemma three_steps:
  assumes laws: "pte_laws P" and ok: "paging_ok P s" and gp: "guest_path (page_path P a)"
    and heap: "3 \<le> length (heap s)" and F: "F \<in> {PRESENT, WRITABLE}"
  shows "\<exists>s1 t1 s2 t2 s3 t3. reset_walk F E P (pml4 s) a 4 s = Inr (s1, t1) \<and> reset_walk F E P t1 a 3 s1 = Inr (s2, t2)
     \<and> reset_walk F E P t2 a 2 s2 = Inr (s3, t3) \<and> paging_ok P s3 \<and> pml4 s3 = pml4 s
     \<and> length (heap s) \<le> length (heap s3) + 3 \<and> (\<forall>G. resolve G P s3 = resolve G P s)
     \<and> table_at P s3 (tl (page_path P a)) = Some t3
     \<and> table_along (\<lambda>e. F \<in> pte_flags P e) P s3 (tl (page_path P a)) = Some t3"
proof -
  let ?i = "page_table_index P a"
  have tp: "table_path [?i 4]" "table_path [?i 3, ?i 4]" "table_path [?i 2, ?i 3, ?i 4]"
    using gp by (simp_all add: page_path_def table_path_def)
  obtain s1 t1 where 1: "reset_walk F E P (pml4 s) a 4 s = Inr (s1, t1)" "stepped F P (?i 4) [] (pml4 s) s s1 t1"
    using reset_walk_step [OF laws ok tp(1) _ _ F] heap by (fastforce simp: table_at_def)
  obtain s2 t2 where 2: "reset_walk F E P t1 a 3 s1 = Inr (s2, t2)" "stepped F P (?i 3) [?i 4] t1 s1 s2 t2"
    using reset_walk_step [OF laws _ tp(2) _ _ F, of s1 t1] 1(2) heap by (fastforce simp: stepped_def)
  obtain s3 t3 where 3: "reset_walk F E P t2 a 2 s2 = Inr (s3, t3)" "stepped F P (?i 2) [?i 3, ?i 4] t2 s2 s3 t3"
    using reset_walk_step [OF laws _ tp(3) _ _ F, of s2 t2] 1(2) 2(2) heap by (fastforce simp: stepped_def)
  have "table_along (\<lambda>e. F \<in> pte_flags P e) P s3 (tl (page_path P a)) = Some t3"
    using 1(2) 2(2) 3(2) by (simp add: stepped_def page_path_def del: table_along.simps(2))
  moreover have "table_at P s3 (tl (page_path P a)) = Some t3" "paging_ok P s3" "pml4 s3 = pml4 s"
      "length (heap s) \<le> length (heap s3) + 3" "\<forall>G. resolve G P s3 = resolve G P s"
    using 1(2) 2(2) 3(2) by (simp_all add: stepped_def page_path_def del: table_along.simps(2))
  ultimately show ?thesis using 1(1) 2(1) 3(1) by blast
qed

lemma leaf_update:
  assumes laws: "pte_laws P" and ok: "paging_ok P s" and p: "table_path p" "length p = 3"
    and at: "table_at P s p = Some n"
  shows "paging_ok P (set_entry n i e s)"
    and "q \<noteq> i # p \<Longrightarrow> resolve G P (set_entry n i e s) q = resolve G P s q"
    and "(G \<in> pte_flags P e \<longleftrightarrow> G \<in> pte_flags P (tables s n i)) \<Longrightarrow> pte_addr P e = pte_addr P (tables s n i)
           \<Longrightarrow> resolve G P (set_entry n i e s) q = resolve G P s q"
    and "table_along (\<lambda>e. G \<in> pte_flags P e) P s p = Some n \<Longrightarrow> G \<in> pte_flags P e
           \<Longrightarrow> resolve G P (set_entry n i e s) (i # p) = Some (pte_addr P e)"
    and "G \<notin> pte_flags P e \<Longrightarrow> resolve G P (set_entry n i e s) (i # p) = None"
proof -
  let ?s = "set_entry n i e s"
  have tr: "tree P s" using ok by (simp add: paging_ok_def)
  have tabs: "tables ?s u j = (if u = n \<and> j = i then e else tables s u j)" for u j
    by (auto simp: set_entry_def)
  have base: "pml4 ?s = pml4 s" "heap ?s = heap s" by (simp_all add: set_entry_def)
  have only: "p' = p" if "table_path p'" "table_at P s p' = Some n" for p'
    using tree_inj [OF tr that(1) p(1) that(2) at] .
  have upper: "u \<noteq> n" if "table_path (j # p')" "table_at P s p' = Some u" for j p' u
    using only [OF table_path_tl [OF that(1)]] that p(2) by (auto simp: table_path_def)
  then have "reflagged P s ?s" by (auto simp: reflagged_def base tabs)
  from reflagged_ok [OF this ok] show "paging_ok P ?s" .
  show "resolve G P ?s q = resolve G P s q" if "q \<noteq> i # p"
  proof (rule resolve_cong [OF laws base(1)])
    fix j p' u assume a: "table_path p'" "table_at P s p' = Some u" "length q = 4" "guest_path q" "suffix (j # p') q"
    have "\<not> (u = n \<and> j = i)"
    proof
      assume n: "u = n \<and> j = i"
      with only [OF a(1)] a(2) have "p' = p" by simp
      with a(5) n have "suffix (i # p) q" by simp
      then obtain r where "q = r @ i # p" unfolding suffix_def ..
      with a(3) p(2) that show False by simp
    qed
    then show "(G \<in> pte_flags P (tables ?s u j)) = (G \<in> pte_flags P (tables s u j))
        \<and> (G \<in> pte_flags P (tables s u j) \<longrightarrow> child P (tables ?s u j) = child P (tables s u j))"
      by (auto simp: tabs)
  qed
  show "resolve G P ?s q = resolve G P s q"
    if "G \<in> pte_flags P e \<longleftrightarrow> G \<in> pte_flags P (tables s n i)" "pte_addr P e = pte_addr P (tables s n i)"
    by (rule resolve_cong [OF laws base(1)]) (use that in \<open>auto simp: tabs child_def\<close>)
  have along: "table_along ok P ?s p = table_along ok P s p" if "\<And>e. ok e \<Longrightarrow> \<not> is_unused P e" for ok
  proof (rule table_along_cong [OF base(1)])
    fix j p' u assume a: "suffix (j # p') p" "table_along ok P s p' = Some u"
    have "table_path (j # p')"
      using guest_path_suffix [OF a(1)] suffix_length_le [OF a(1)] p by (simp add: table_path_def)
    then have "u \<noteq> n" using upper table_along_used [OF that a(2)] by blast
    then show "ok (tables ?s u j) = ok (tables s u j) \<and> (ok (tables s u j) \<longrightarrow> child P (tables ?s u j) = child P (tables s u j))"
      by (simp add: tabs)
  qed
  show "resolve G P ?s (i # p) = Some (pte_addr P e)"
    if "table_along (\<lambda>e. G \<in> pte_flags P e) P s p = Some n" "G \<in> pte_flags P e"
    using that along [of "\<lambda>e. G \<in> pte_flags P e"] p flagged_used [OF laws]
    by (auto simp: resolve_def tabs guest_path_Cons table_path_def child_def)
  show "resolve G P ?s (i # p) = None" if "G \<notin> pte_flags P e"
    using that along [of "\<lambda>e. G \<in> pte_flags P e"] flagged_used [OF laws] flagged_table_at [OF laws, of G s p] at
    by (auto simp: resolve_def tabs split: option.splits)
qed

lemma changed_at:
  assumes "\<And>q. q \<noteq> x \<Longrightarrow> f' q = f q"
  shows "f' x = Some v \<Longrightarrow> f' = f(x \<mapsto> v)" and "dom f' - {x} = dom f - {x}"
    and "f' x \<noteq> None \<Longrightarrow> dom f' = insert x (dom f)"
proof -
  show "dom f' - {x} = dom f - {x}" by (auto simp: dom_def assms)
  then show "f' x \<noteq> None \<Longrightarrow> dom f' = insert x (dom f)" by blast
  show "f' x = Some v \<Longrightarrow> f' = f(x \<mapsto> v)" using assms by (auto simp: fun_eq_iff)
qed

lemma map_page_ok:
  assumes laws: "pte_laws P" and ok: "paging_ok P s" and gp: "guest_path (page_path P a)"
    and heap: "3 \<le> length (heap s)" and f: "take_bit 12 frame = 0" "PRESENT \<in> flags"
  shows "\<exists>s'. map_page_propagate_invalidation E P a frame flags s = Inr s' \<and> paging_ok P s'
     \<and> length (heap s) \<le> length (heap s') + 3
     \<and> mapping P s' = (mapping P s)(page_path P a \<mapsto> frame)
     \<and> writable_pages P s' - {page_path P a} = writable_pages P s - {page_path P a}
     \<and> (WRITABLE \<notin> flags \<longrightarrow> page_path P a \<notin> writable_pages P s')"
proof -
  let ?p = "tl (page_path P a)" let ?i = "page_table_index P a 1"
  note pte = pte_simps [OF laws]
  obtain s1 t1 s2 t2 s3 t3 where w: "reset_walk PRESENT E P (pml4 s) a 4 s = Inr (s1, t1)"
      "reset_walk PRESENT E P t1 a 3 s1 = Inr (s2, t2)" "reset_walk PRESENT E P t2 a 2 s2 = Inr (s3, t3)"
    and ok3: "paging_ok P s3" and h3: "length (heap s) \<le> length (heap s3) + 3"
    and res: "\<And>G. resolve G P s3 = resolve G P s" and at: "table_at P s3 ?p = Some t3"
    and al: "table_along (\<lambda>e. PRESENT \<in> pte_flags P e) P s3 ?p = Some t3"
    using three_steps [OF laws ok gp heap, of PRESENT E] by auto
  let ?e = "set_addr P (tables s3 t3 ?i) frame flags" let ?s = "set_entry t3 ?i ?e s3"
  have p: "table_path ?p" "length ?p = 3" "?i # ?p = page_path P a"
    using gp by (simp_all add: page_path_def table_path_def)
  note leaf = leaf_update [OF laws ok3 p(1,2) at, where i = ?i and e = ?e, unfolded p(3)]
  have "map_page_propagate_invalidation E P a frame flags s = Inr ?s"
    using w by (simp add: map_page_propagate_invalidation_def walk_and_reset_table_def Let_def)
  moreover have other: "resolve G P ?s q = resolve G P s q" if "q \<noteq> page_path P a" for G q
    using leaf(2) [OF that] res by simp
  moreover have "mapping P ?s = (mapping P s)(page_path P a \<mapsto> frame)"
    unfolding mapping_def by (rule changed_at(1) [OF other]) (use leaf(4) [OF al] f in \<open>simp_all add: pte\<close>)
  moreover have "writable_pages P ?s - {page_path P a} = writable_pages P s - {page_path P a}"
    unfolding writable_pages_def by (rule changed_at(2) [OF other])
  moreover have "page_path P a \<notin> writable_pages P ?s" if "WRITABLE \<notin> flags"
    using leaf(5) [of WRITABLE] f that by (simp add: pte writable_pages_def dom_def)
  moreover have "length (heap ?s) = length (heap s3)" by (simp add: set_entry_def)
  ultimately show ?thesis
    using leaf(1) h3 by (intro exI [of _ ?s]) simp
qed

section \<open>The interface of the page tables\<close>

text \<open>
  What the fault handler and the exception logic rely on: valid tables are a map from pages to frames, which dropping all
  mappings empties and a new mapping extends by its page, without opening any other page for writing.  A mapping takes at
  most three of the pages that are left.
\<close>

locale page_map =
  fixes valid :: "'s \<Rightarrow> bool" and pages :: "'s \<Rightarrow> 'k \<rightharpoonup> u64" and open_pages :: "'s \<Rightarrow> 'k set" and room :: "'s \<Rightarrow> nat"
    and drop_all :: "'s \<Rightarrow> 's" and map_page :: "u64 \<Rightarrow> u64 \<Rightarrow> page_table_flag set \<Rightarrow> 's \<Rightarrow> 's res"
    and key :: "u64 \<Rightarrow> 'k" and guest_key :: "'k \<Rightarrow> bool"
  assumes drop_all_law: "valid s \<Longrightarrow> valid (drop_all s) \<and> pages (drop_all s) = Map.empty \<and> room (drop_all s) = room s"
    and map_page_law: "valid s \<Longrightarrow> guest_key (key a) \<Longrightarrow> 3 \<le> room s \<Longrightarrow> take_bit 12 f = 0 \<Longrightarrow> PRESENT \<in> fl
      \<Longrightarrow> \<exists>s'. map_page a f fl s = Inr s' \<and> valid s' \<and> pages s' = (pages s)(key a \<mapsto> f) \<and> room s \<le> room s' + 3
            \<and> open_pages s' - {key a} = open_pages s - {key a} \<and> (WRITABLE \<notin> fl \<longrightarrow> key a \<notin> open_pages s')"
begin

lemma map_page_valid:
  assumes "valid s" and "guest_key (key a)" and "3 \<le> room s" and "take_bit 12 f = 0" and "PRESENT \<in> fl"
    and "map_page a f fl s = Inr s'"
  shows "valid s'" and "pages s' = (pages s)(key a \<mapsto> f)"
  using map_page_law [OF assms(1-5)] assms(6) by auto

lemma map_page_opens:
  assumes "valid s" and "guest_key (key a)" and "3 \<le> room s" and "take_bit 12 f = 0" and "PRESENT \<in> fl"
    and "map_page a f fl s = Inr s'" and "k \<in> open_pages s'"
  shows "k = key a \<and> WRITABLE \<in> fl \<or> k \<noteq> key a \<and> k \<in> open_pages s"
  using map_page_law [OF assms(1-5)] assms(6,7) by auto

lemma remapped_after_drop:
  assumes "valid s" and "guest_key (key a)" and "3 \<le> room s" and "take_bit 12 f = 0" and "PRESENT \<in> fl"
  shows "\<exists>s'. map_page a f fl (drop_all s) = Inr s' \<and> valid s' \<and> pages s' = [key a \<mapsto> f]"
  using map_page_law [of "drop_all s" a f fl] drop_all_law [OF assms(1)] assms(2-5) by auto

end

interpretation host_map: page_map "\<lambda>s. pte_laws P \<and> paging_ok P s" "mapping P" "writable_pages P" "\<lambda>s. length (heap s)"
  "invalidate_guest_mappings P" "map_page_propagate_invalidation E P" "page_path P" guest_path for E :: rust_env and P
proof
  fix s :: "'a host_memory" assume ok: "pte_laws P \<and> paging_ok P s"
  then show "(pte_laws P \<and> paging_ok P (invalidate_guest_mappings P s)) \<and> mapping P (invalidate_guest_mappings P s) = Map.empty
      \<and> length (heap (invalidate_guest_mappings P s)) = length (heap s)"
    using reflagged_ok [OF clear_guest_half_reflagged, of P s PRESENT] resolve_clear_guest_half [of P s PRESENT PRESENT]
    by (simp add: invalidate_guest_mappings_def mapping_def) (simp add: clear_guest_half_def)
next
  fix s :: "'a host_memory" and a f :: u64 and fl
  assume "pte_laws P \<and> paging_ok P s" "guest_path (page_path P a)" "3 \<le> length (heap s)" "take_bit 12 f = 0" "PRESENT \<in> fl"
  then show "\<exists>s'. map_page_propagate_invalidation E P a f fl s = Inr s' \<and> (pte_laws P \<and> paging_ok P s')
      \<and> mapping P s' = (mapping P s)(page_path P a \<mapsto> f) \<and> length (heap s) \<le> length (heap s') + 3
      \<and> writable_pages P s' - {page_path P a} = writable_pages P s - {page_path P a}
      \<and> (WRITABLE \<notin> fl \<longrightarrow> page_path P a \<notin> writable_pages P s')"
    using map_page_ok [of P s a f fl E] by blast
qed

lemma release_smc_ok:
  assumes laws: "pte_laws P" and ok: "paging_ok P s" and gp: "guest_path (page_path P a)"
    and heap: "3 \<le> length (heap s)"
  shows "\<exists>s'. release_smc_protection E P a s = Inr s' \<and> paging_ok P s' \<and> length (heap s) \<le> length (heap s') + 3
     \<and> mapping P s' = mapping P s \<and> writable_pages P s' = insert (page_path P a) (writable_pages P s)"
proof -
  let ?p = "tl (page_path P a)" let ?i = "page_table_index P a 1"
  note pte = pte_simps [OF laws]
  obtain s1 t1 s2 t2 s3 t3 where w: "reset_walk WRITABLE E P (pml4 s) a 4 s = Inr (s1, t1)"
      "reset_walk WRITABLE E P t1 a 3 s1 = Inr (s2, t2)" "reset_walk WRITABLE E P t2 a 2 s2 = Inr (s3, t3)"
    and ok3: "paging_ok P s3" and h3: "length (heap s) \<le> length (heap s3) + 3"
    and res: "\<And>G. resolve G P s3 = resolve G P s" and at: "table_at P s3 ?p = Some t3"
    and al: "table_along (\<lambda>e. WRITABLE \<in> pte_flags P e) P s3 ?p = Some t3"
    using three_steps [OF laws ok gp heap, of WRITABLE E] by auto
  let ?e = "set_flags P (tables s3 t3 ?i) (pte_flags P (tables s3 t3 ?i) \<union> {WRITABLE})" let ?s = "set_entry t3 ?i ?e s3"
  have p: "table_path ?p" "length ?p = 3" "?i # ?p = page_path P a"
    using gp by (simp_all add: page_path_def table_path_def)
  note leaf = leaf_update [OF laws ok3 p(1,2) at, where i = ?i and e = ?e, unfolded p(3)]
  have "release_smc_protection E P a s = Inr ?s"
    using w by (simp add: release_smc_protection_def walk_table_smc_reset_def Let_def)
  moreover have "mapping P ?s = mapping P s"
    using leaf(3) [of PRESENT] res by (simp add: pte mapping_def fun_eq_iff)
  moreover have other: "resolve WRITABLE P ?s q = resolve WRITABLE P s q" if "q \<noteq> page_path P a" for q
    using leaf(2) [OF that] res by simp
  moreover have "writable_pages P ?s = insert (page_path P a) (writable_pages P s)"
    unfolding writable_pages_def by (rule changed_at(3) [OF other]) (use leaf(4) [OF al] in \<open>simp_all add: pte\<close>)
  moreover have "length (heap ?s) = length (heap s3)" by (simp add: set_entry_def)
  ultimately show ?thesis
    using leaf(1) h3 by (intro exI [of _ ?s]) simp
qed

section \<open>Sequences of operations\<close>

datatype paging_op =
    Invalidate
  | SmcProtect
  | MapPage u64 u64 "page_table_flag set"
  | ReleaseSmc u64

fun run_paging_op :: "rust_env \<Rightarrow> 'e pte_ops \<Rightarrow> paging_op \<Rightarrow> 'e host_memory \<Rightarrow> 'e host_memory res" where
  "run_paging_op E P Invalidate s = Inr (invalidate_guest_mappings P s)"
| "run_paging_op E P SmcProtect s = Inr (smc_protect P s)"
| "run_paging_op E P (MapPage a frame flags) s = map_page_propagate_invalidation E P a frame flags s"
| "run_paging_op E P (ReleaseSmc a) s = release_smc_protection E P a s"

text \<open>A guest address, a frame's start and the flags of a mapping.\<close>

fun paging_op_ok :: "'e pte_ops \<Rightarrow> paging_op \<Rightarrow> bool" where
  "paging_op_ok P (MapPage a frame flags) \<longleftrightarrow>
     guest_path (page_path P a) \<and> take_bit 12 frame = 0 \<and> PRESENT \<in> flags"
| "paging_op_ok P (ReleaseSmc a) \<longleftrightarrow> guest_path (page_path P a)"
| "paging_op_ok P _ \<longleftrightarrow> True"

text \<open>What the operations mean for a map from pages to frames and for the set of writable pages.\<close>

fun mapping_after :: "'e pte_ops \<Rightarrow> paging_op \<Rightarrow> (nat list \<rightharpoonup> u64) \<Rightarrow> (nat list \<rightharpoonup> u64)" where
  "mapping_after P Invalidate m = Map.empty"
| "mapping_after P (MapPage a frame flags) m = m(page_path P a \<mapsto> frame)"
| "mapping_after P _ m = m"

fun writable_bound :: "'e pte_ops \<Rightarrow> paging_op \<Rightarrow> nat list set \<Rightarrow> nat list set" where
  "writable_bound P SmcProtect w = {}"
| "writable_bound P (MapPage a frame flags) w = (if WRITABLE \<in> flags then insert (page_path P a) w else w - {page_path P a})"
| "writable_bound P (ReleaseSmc a) w = insert (page_path P a) w"
| "writable_bound P Invalidate w = w"

lemma writable_bound_mono: "v \<subseteq> w \<Longrightarrow> writable_bound P op v \<subseteq> writable_bound P op w"
  by (cases op) auto

lemma paging_op_step:
  assumes "pte_laws P" and "paging_ok P s" and "paging_op_ok P op" and "3 \<le> length (heap s)"
  shows "\<exists>s'. run_paging_op E P op s = Inr s' \<and> paging_ok P s' \<and> length (heap s) \<le> length (heap s') + 3
     \<and> mapping P s' = mapping_after P op (mapping P s)
     \<and> writable_pages P s' \<subseteq> writable_bound P op (writable_pages P s)"
proof (cases op)
  case Invalidate
  then show ?thesis
    using reflagged_ok [OF clear_guest_half_reflagged [OF assms(1)] assms(2)] resolve_clear_guest_half [OF assms(1,2)]
    by (simp add: invalidate_guest_mappings_def mapping_def writable_pages_def)
      (simp add: clear_guest_half_def)
next
  case SmcProtect
  then show ?thesis
    using reflagged_ok [OF clear_guest_half_reflagged [OF assms(1)] assms(2)] resolve_clear_guest_half [OF assms(1,2)]
    by (simp add: smc_protect_def mapping_def writable_pages_def) (simp add: clear_guest_half_def)
next
  case (MapPage a frame flags)
  with map_page_ok [OF assms(1,2) _ assms(4), of a frame flags E] assms(3) show ?thesis by auto
next
  case (ReleaseSmc a)
  with release_smc_ok [OF assms(1,2) _ assms(4), of a E] assms(3) show ?thesis by auto
qed

lemma paging_ops_step:
  assumes "pte_laws P" and "paging_ok P s" and "list_all (paging_op_ok P) ops" and "3 * length ops \<le> length (heap s)"
  shows "\<exists>s'. foldR (run_paging_op E P) ops s = Inr s' \<and> paging_ok P s'
     \<and> mapping P s' = fold (mapping_after P) ops (mapping P s)
     \<and> writable_pages P s' \<subseteq> fold (writable_bound P) ops (writable_pages P s)"
  using assms(2-4)
proof (induction ops arbitrary: s)
  case (Cons op ops)
  obtain s1 where s1: "run_paging_op E P op s = Inr s1" "paging_ok P s1" "length (heap s) \<le> length (heap s1) + 3"
      "mapping P s1 = mapping_after P op (mapping P s)"
      "writable_pages P s1 \<subseteq> writable_bound P op (writable_pages P s)"
    using paging_op_step [OF assms(1) Cons.prems(1), of op E] Cons.prems(2,3) by auto
  obtain s' where s': "foldR (run_paging_op E P) ops s1 = Inr s'" "paging_ok P s'"
      "mapping P s' = fold (mapping_after P) ops (mapping P s1)"
      "writable_pages P s' \<subseteq> fold (writable_bound P) ops (writable_pages P s1)"
    using Cons.IH [OF s1(2)] Cons.prems(2,3) s1(3) by auto
  have mono: "fold (writable_bound P) ops v \<subseteq> fold (writable_bound P) ops w" if "v \<subseteq> w" for v w
    using that by (induction ops arbitrary: v w) (auto dest: writable_bound_mono)
  show ?case using s1 s' mono [OF s1(5)] by auto
qed simp

fun maps_page :: "'e pte_ops \<Rightarrow> nat list \<Rightarrow> u64 \<Rightarrow> paging_op \<Rightarrow> bool" where
  "maps_page P q f (MapPage a frame flags) \<longleftrightarrow> page_path P a = q \<and> frame = f"
| "maps_page P q f _ \<longleftrightarrow> False"

fun opens_page :: "'e pte_ops \<Rightarrow> nat list \<Rightarrow> paging_op \<Rightarrow> bool" where
  "opens_page P q (MapPage a frame flags) \<longleftrightarrow> page_path P a = q \<and> WRITABLE \<in> flags"
| "opens_page P q (ReleaseSmc a) \<longleftrightarrow> page_path P a = q"
| "opens_page P q _ \<longleftrightarrow> False"

lemma mapping_from_ops:
  "fold (mapping_after P) ops m q = Some f \<Longrightarrow> m q = Some f \<or> (\<exists>op \<in> set ops. maps_page P q f op)"
proof (induction ops arbitrary: m)
  case (Cons op ops)
  from Cons.IH Cons.prems have "mapping_after P op m q = Some f \<or> (\<exists>op \<in> set ops. maps_page P q f op)" by simp
  moreover have "mapping_after P op m q = Some f \<Longrightarrow> m q = Some f \<or> maps_page P q f op"
    by (cases op) (auto split: if_splits)
  ultimately show ?case by auto
qed simp

lemma writable_from_ops:
  "q \<in> fold (writable_bound P) ops w \<Longrightarrow> q \<in> w \<or> (\<exists>op \<in> set ops. opens_page P q op)"
proof (induction ops arbitrary: w)
  case (Cons op ops)
  from Cons.IH Cons.prems have "q \<in> writable_bound P op w \<or> (\<exists>op \<in> set ops. opens_page P q op)" by simp
  moreover have "q \<in> writable_bound P op w \<Longrightarrow> q \<in> w \<or> opens_page P q op"
    by (cases op) (auto split: if_splits)
  ultimately show ?case by auto
qed simp

section \<open>Properties\<close>

text \<open>
  C9: the lazy page table operations implement the simple specification.  From any well-formed
  host memory with three heap pages for each operation, a sequence of invalidations, write
  protections, mappings and releases of guest pages runs without a panic and ends in a well-formed
  memory whose mapping, as the processor reads it through all four levels, is the sequence of
  updates of a map from pages to frames: an invalidation empties it, a mapping adds its page only.
\<close>

theorem host_paging_refines_map:
  assumes "pte_laws P" and "paging_ok P s" and "list_all (paging_op_ok P) ops" and "3 * length ops \<le> length (heap s)"
  shows "\<exists>s'. foldR (run_paging_op E P) ops s = Inr s' \<and> paging_ok P s'
     \<and> mapping P s' = fold (mapping_after P) ops (mapping P s)"
  using paging_ops_step [OF assms, of E] by blast

text \<open>
  C30: no stale translation comes back.  After the guest's mappings are dropped and its pages
  write-protected, every later mapping the processor can use was made by a later mapping operation for that
  very page and frame, and every page it can write was mapped writable or released since, although
  the stale entries are still in the tables below the top level.
\<close>

theorem no_stale_translation:
  assumes "pte_laws P" and "paging_ok P s" and "list_all (paging_op_ok P) ops"
    and "3 * (length ops + 2) \<le> length (heap s)"
  shows "\<exists>s'. foldR (run_paging_op E P) (Invalidate # SmcProtect # ops) s = Inr s'
     \<and> (\<forall>q f. mapping P s' q = Some f \<longrightarrow> (\<exists>op \<in> set ops. maps_page P q f op))
     \<and> (\<forall>q \<in> writable_pages P s'. \<exists>op \<in> set ops. opens_page P q op)"
proof -
  let ?ops = "Invalidate # SmcProtect # ops"
  obtain s' where s': "foldR (run_paging_op E P) ?ops s = Inr s'"
      "mapping P s' = fold (mapping_after P) ops Map.empty" "writable_pages P s' \<subseteq> fold (writable_bound P) ops {}"
    using paging_ops_step [OF assms(1,2), of ?ops E] assms(3,4) by auto
  with mapping_from_ops [of P ops Map.empty] writable_from_ops [of _ P ops "{}"] show ?thesis by fastforce
qed

text \<open>An entry as an address and its flags, and a memory with an empty top-level table.\<close>

definition sample_pte :: "(u64 \<times> page_table_flag set) pte_ops" where
  "sample_pte = \<lparr>is_unused = (\<lambda>e. fst e = 0 \<and> snd e = {}), pte_flags = snd, pte_addr = fst,
     set_flags = (\<lambda>e f. (fst e, f)), set_addr = (\<lambda>e a f. (a, f)), zero_entry = (0, {}),
     page_table_index = (\<lambda>a level. unat (take_bit 9 (drop_bit (3 + 9 * level) a)))\<rparr>"

definition sample_host :: "(u64 \<times> page_table_flag set) host_memory" where
  "sample_host = \<lparr>tables = (\<lambda>_ _. (0, {})),
     heap = map (\<lambda>k. PHYSICAL_MEMORY_OFFSET + of_nat k * 0x1000) [1..<16], pml4 = PHYSICAL_MEMORY_OFFSET\<rparr>"

lemma sample_pte_laws: "pte_laws sample_pte"
  by (auto simp: pte_laws_def sample_pte_def)

lemma sample_host_table_at: "table_at sample_pte sample_host p = (if p = [] then Some PHYSICAL_MEMORY_OFFSET else None)"
  by (induction p) (auto simp: table_at_def sample_pte_def sample_host_def split: option.splits)

lemma sample_host_ok: "paging_ok sample_pte sample_host"
proof -
  have "heap sample_host = map (\<lambda>k. PHYSICAL_MEMORY_OFFSET + of_nat k * 0x1000) [1, 2, 3, 4, 5, 6, 7, 8, 9, 10, 11, 12, 13, 14, 15]"
    by (simp add: sample_host_def upt_rec)
  then show ?thesis
    by (simp add: paging_ok_def tree_def directories_ok_def sample_host_table_at PHYSICAL_MEMORY_OFFSET_def)
      (simp add: sample_pte_def sample_host_def)
qed

lemma sample_paths:
  "page_path sample_pte 0x1000 = [1, 0, 0, 0]" "page_path sample_pte 0x2000 = [2, 0, 0, 0]"
  "length (heap sample_host) = 15"
  by (simp_all add: page_path_def sample_pte_def sample_host_def)

theorem host_paging_refines_map_witness:
  "\<exists>s'. foldR (run_paging_op sample_env sample_pte)
          [MapPage 0x1000 0x7000 {PRESENT}, Invalidate, MapPage 0x2000 0x9000 {PRESENT, WRITABLE}] sample_host = Inr s'
     \<and> mapping sample_pte s' = [[2, 0, 0, 0] \<mapsto> 0x9000]"
  using host_paging_refines_map [OF sample_pte_laws sample_host_ok, of
      "[MapPage 0x1000 0x7000 {PRESENT}, Invalidate, MapPage 0x2000 0x9000 {PRESENT, WRITABLE}]" sample_env]
  by (auto simp: sample_paths)

theorem no_stale_translation_witness:
  "\<exists>s'. foldR (run_paging_op sample_env sample_pte)
          [Invalidate, SmcProtect, MapPage 0x2000 0x9000 {PRESENT}] sample_host = Inr s'
     \<and> (\<forall>q f. mapping sample_pte s' q = Some f \<longrightarrow> f = 0x9000 \<and> q = [2, 0, 0, 0]) \<and> writable_pages sample_pte s' = {}"
  using no_stale_translation [OF sample_pte_laws sample_host_ok, of "[MapPage 0x2000 0x9000 {PRESENT}]" sample_env]
  by (auto simp: sample_paths)

end
