(* ===== verification/Arm_Exception.thy ===== *)
theory Arm_Exception
  imports Named_Registers Host_Paging
begin

text \<open>
  The entry to an exception of the guest, \<open>take_arm_exception\<close> of
  \<open>brig/brig/src/guest/devices/arm/mmu.rs\<close>, on the state it changes: the register file, the three
  direct-mapped TLBs and the host's mappings of guest pages, which \<open>write_to_el\<close> of
  \<open>guest/models.rs\<close> drops when the exception level changes.  Byte and word registers are accessed
  by name through \<open>Named_Registers\<close>.
\<close>

unbundle bit_operations_syntax

section \<open>State\<close>

record tlb_entry =
  guest_virt_page :: u64
  guest_phys_page :: u64

record 'e mmu_state =
  core :: register_file
  rtlb :: "tlb_entry list"
  wtlb :: "tlb_entry list"
  ftlb :: "tlb_entry list"
  unprivileged_access :: u64
  host :: "'e host_memory"

section \<open>TLB\<close>

definition tlb_entry_new :: tlb_entry where
  "tlb_entry_new = \<lparr>guest_virt_page = - 1, guest_phys_page = 0\<rparr>"

definition tlb_entry_clear :: "tlb_entry \<Rightarrow> tlb_entry" where
  "tlb_entry_clear e = e\<lparr>guest_virt_page := - 1, guest_phys_page := 0\<rparr>"

definition flush_tlb :: "'e mmu_state \<Rightarrow> 'e mmu_state" where
  "flush_tlb st = st\<lparr>rtlb := map tlb_entry_clear (rtlb st), wtlb := map tlb_entry_clear (wtlb st),
     ftlb := map tlb_entry_clear (ftlb st)\<rparr>"

definition write_to_el :: "'e pte_ops \<Rightarrow> nat \<Rightarrow> nat \<Rightarrow> 'e mmu_state \<Rightarrow> 'e mmu_state" where
  "write_to_el P old_el new_el st =
     (if old_el \<noteq> new_el then flush_tlb (st\<lparr>host := invalidate_guest_mappings P (host st)\<rparr>) else st)"

section \<open>Exception entry\<close>

definition psr_bits :: "nat \<Rightarrow> nat \<Rightarrow> nat \<Rightarrow> nat \<Rightarrow> nat \<Rightarrow> nat \<Rightarrow> nat \<Rightarrow> nat \<Rightarrow> nat \<Rightarrow> nat \<Rightarrow> u32" where
  "psr_bits n z c v d a i f el sp =
     push_bit 31 (of_nat n) OR push_bit 30 (of_nat z) OR push_bit 29 (of_nat c) OR push_bit 28 (of_nat v)
     OR push_bit 9 (of_nat d) OR push_bit 8 (of_nat a) OR push_bit 7 (of_nat i) OR push_bit 6 (of_nat f)
     OR push_bit 2 (of_nat el) OR of_nat sp"

definition get_psr_from_pstate :: "rust_env \<Rightarrow> register_file \<Rightarrow> u32 res" where
  "get_psr_from_pstate E rf =
     rbind (reg_read E rf ''PSTATE_N'' 1) (\<lambda>n.
     rbind (reg_read E rf ''PSTATE_Z'' 1) (\<lambda>z.
     rbind (reg_read E rf ''PSTATE_C'' 1) (\<lambda>c.
     rbind (reg_read E rf ''PSTATE_V'' 1) (\<lambda>v.
     rbind (reg_read E rf ''PSTATE_D'' 1) (\<lambda>d.
     rbind (reg_read E rf ''PSTATE_A'' 1) (\<lambda>a.
     rbind (reg_read E rf ''PSTATE_I'' 1) (\<lambda>i.
     rbind (reg_read E rf ''PSTATE_F'' 1) (\<lambda>f.
     rbind (reg_read E rf ''PSTATE_EL'' 1) (\<lambda>el.
     rbind (reg_read E rf ''PSTATE_SP'' 1) (\<lambda>sp. Inr (psr_bits n z c v d a i f el sp)))))))))))"

definition get_exception_class :: "nat \<Rightarrow> nat \<Rightarrow> nat \<Rightarrow> u64 res" where
  "get_exception_class current_el target_el typ =
     (if typ = 0 then Inr (0x38 + 4)
      else if typ = 1 then Inr (if target_el = current_el then 0x25 else 0x24)
      else if typ = 2 then Inr 0
      else if typ = 3 then Inr (0x11 + 4)
      else if typ = 4 then Inr (if target_el = current_el then 0x21 else 0x20)
      else if typ = 5 then Inr 0x07
      else if typ = 6 then Inr 0x32
      else Inl ExplicitPanic)"

definition esr_value :: "u64 \<Rightarrow> u64 \<Rightarrow> u64" where
  "esr_value ec syndrome = push_bit 26 ec OR push_bit 25 1 OR (syndrome AND 0x1ffffff)"

text \<open>The writes of the branch \<open>target_el == 1\<close>; 255 is the type of an interrupt.\<close>

definition record_exception :: "rust_env \<Rightarrow> u32 \<Rightarrow> nat \<Rightarrow> nat \<Rightarrow> nat \<Rightarrow> u64 \<Rightarrow> u64 \<Rightarrow> u64 \<Rightarrow> register_file
    \<Rightarrow> register_file res" where
  "record_exception E spsr current_el target_el typ syndrome vaddr retaddr rf =
     (if target_el = 1 then
        rbind (reg_write E rf ''SPSR_EL1_bits'' 4 (unat spsr)) (\<lambda>rf.
        rbind (reg_write E rf ''ELR_EL1'' 8 (unat retaddr)) (\<lambda>rf.
        if typ \<noteq> 255 then
          rbind (get_exception_class current_el target_el typ) (\<lambda>ec.
          rbind (reg_write E rf ''ESR_EL1_bits'' 8 (unat (esr_value ec syndrome))) (\<lambda>rf.
          if typ = 1 \<or> typ = 4 then reg_write E rf ''FAR_EL1'' 8 (unat vaddr) else Inr rf))
        else Inr rf))
      else Inl ExplicitPanic)"

definition vbar_register :: "nat \<Rightarrow> string res" where
  "vbar_register target_el =
     (if target_el = 1 then Inr ''VBAR_EL1'' else if target_el = 2 then Inr ''VBAR_EL2''
      else if target_el = 3 then Inr ''VBAR_EL3'' else Inl ExplicitPanic)"

definition vector_offset :: "rust_env \<Rightarrow> register_file \<Rightarrow> nat \<Rightarrow> nat \<Rightarrow> u64 \<Rightarrow> u64 res" where
  "vector_offset E rf current_el target_el voff =
     (if target_el > current_el then u64_add E voff 0x400
      else rbind (reg_read E rf ''PSTATE_SP'' 1) (\<lambda>sp. if sp = 1 then u64_add E voff 0x200 else Inr voff))"

definition take_arm_exception :: "rust_env \<Rightarrow> 'e pte_ops \<Rightarrow> nat \<Rightarrow> nat \<Rightarrow> u64 \<Rightarrow> u64 \<Rightarrow> u64 \<Rightarrow> u64 \<Rightarrow> 'e mmu_state
    \<Rightarrow> 'e mmu_state res" where
  "take_arm_exception E P target_el typ syndrome vaddr retaddr voff st =
     rbind (get_psr_from_pstate E (core st)) (\<lambda>spsr.
     rbind (reg_read E (core st) ''PSTATE_EL'' 1) (\<lambda>current_el.
     rbind (vector_offset E (core st) current_el target_el voff) (\<lambda>voff.
     let st = write_to_el P current_el target_el st in
     rbind (reg_write E (core st) ''PSTATE_EL'' 1 target_el) (\<lambda>rf.
     rbind (reg_write E rf ''PSTATE_SP'' 1 1) (\<lambda>rf.
     rbind (record_exception E spsr current_el target_el typ syndrome vaddr retaddr rf) (\<lambda>rf.
     rbind (reg_write E rf ''PSTATE_D'' 1 1) (\<lambda>rf.
     rbind (reg_write E rf ''PSTATE_A'' 1 1) (\<lambda>rf.
     rbind (reg_write E rf ''PSTATE_I'' 1 1) (\<lambda>rf.
     rbind (reg_write E rf ''PSTATE_F'' 1 1) (\<lambda>rf.
     rbind (vbar_register target_el) (\<lambda>vbar_name.
     rbind (reg_read E rf vbar_name 8) (\<lambda>vbar.
     rbind (u64_add E (of_nat vbar) voff) (\<lambda>pc.
     rbind (reg_write E rf ''_PC'' 8 (unat pc)) (\<lambda>rf. Inr (st\<lparr>core := rf\<rparr>)))))))))))))))"

section \<open>What the entry does\<close>

definition exception_registers :: "(string \<times> nat) list" where
  "exception_registers =
     [(''PSTATE_N'', 1), (''PSTATE_Z'', 1), (''PSTATE_C'', 1), (''PSTATE_V'', 1), (''PSTATE_D'', 1), (''PSTATE_A'', 1),
      (''PSTATE_I'', 1), (''PSTATE_F'', 1), (''PSTATE_EL'', 1), (''PSTATE_SP'', 1), (''SPSR_EL1_bits'', 4), (''ELR_EL1'', 8),
      (''ESR_EL1_bits'', 8), (''FAR_EL1'', 8), (''VBAR_EL1'', 8), (''_PC'', 8)]"

definition exception_state_ok :: "register_file \<Rightarrow> bool" where
  "exception_state_ok rf \<longleftrightarrow> layout_ok rf \<and> list_all (\<lambda>(name, n). has_register rf name n) exception_registers"

definition saved_psr :: "(string \<Rightarrow> nat) \<Rightarrow> u32" where
  "saved_psr v = psr_bits (v ''PSTATE_N'') (v ''PSTATE_Z'') (v ''PSTATE_C'') (v ''PSTATE_V'') (v ''PSTATE_D'')
     (v ''PSTATE_A'') (v ''PSTATE_I'') (v ''PSTATE_F'') (v ''PSTATE_EL'') (v ''PSTATE_SP'')"

definition vector_bias :: "(string \<Rightarrow> nat) \<Rightarrow> u64" where
  "vector_bias v = (if v ''PSTATE_EL'' < 1 then 0x400 else if v ''PSTATE_SP'' = 1 then 0x200 else 0)"

text \<open>
  The class the code gives an exception taken to EL1 from a level, by its type numbers.  For a single step (type 6, which no
  caller asks for) it is 0x32 from either level, where the architecture has 0x33 from EL1.
\<close>

definition exception_class :: "nat \<Rightarrow> nat \<Rightarrow> u64" where
  "exception_class el typ =
     ([0x3C, if el = 1 then 0x25 else 0x24, 0, 0x15, if el = 1 then 0x21 else 0x20, 0x07, 0x32] ! typ)"

definition exception_view :: "nat \<Rightarrow> u64 \<Rightarrow> u64 \<Rightarrow> u64 \<Rightarrow> u64 \<Rightarrow> (string \<Rightarrow> nat) \<Rightarrow> string \<Rightarrow> nat" where
  "exception_view typ syndrome vaddr retaddr voff v k =
     (if k \<in> {''PSTATE_EL'', ''PSTATE_SP'', ''PSTATE_D'', ''PSTATE_A'', ''PSTATE_I'', ''PSTATE_F''} then 1
      else if k = ''SPSR_EL1_bits'' then unat (saved_psr v)
      else if k = ''ELR_EL1'' then unat retaddr
      else if k = ''ESR_EL1_bits'' \<and> typ \<noteq> 255 then unat (esr_value (exception_class (v ''PSTATE_EL'') typ) syndrome)
      else if k = ''FAR_EL1'' \<and> (typ = 1 \<or> typ = 4) then unat vaddr
      else if k = ''_PC'' then v ''VBAR_EL1'' + unat (voff + vector_bias v)
      else v k)"

lemma exception_class_code:
  "typ \<le> 6 \<Longrightarrow> get_exception_class el 1 typ = Inr (exception_class el typ)"
  by (auto simp: get_exception_class_def exception_class_def le_Suc_eq numeral_eq_Suc)

lemma exception_registers_has:
  assumes "exception_state_ok rf"
  shows "layout_ok rf" and "(name, n) \<in> set exception_registers \<Longrightarrow> has_register rf name n"
  using assms by (auto simp: exception_state_ok_def list_all_iff)

lemma get_psr_view: "exception_state_ok rf \<Longrightarrow> get_psr_from_pstate E rf = Inr (saved_psr (register_view rf))"
  unfolding get_psr_from_pstate_def saved_psr_def
  by (simp add: reg_read_view exception_registers_has [unfolded exception_registers_def])

definition exception_writes :: "nat \<Rightarrow> u64 \<Rightarrow> u64 \<Rightarrow> u64 \<Rightarrow> (string \<Rightarrow> nat) \<Rightarrow> (string \<times> nat \<times> nat) list" where
  "exception_writes typ syndrome vaddr retaddr v =
     [(''PSTATE_EL'', 1, 1), (''PSTATE_SP'', 1, 1), (''SPSR_EL1_bits'', 4, unat (saved_psr v)), (''ELR_EL1'', 8, unat retaddr)]
     @ (if typ = 255 then []
        else (''ESR_EL1_bits'', 8, unat (esr_value (exception_class (v ''PSTATE_EL'') typ) syndrome))
             # (if typ = 1 \<or> typ = 4 then [(''FAR_EL1'', 8, unat vaddr)] else []))
     @ [(''PSTATE_D'', 1, 1), (''PSTATE_A'', 1, 1), (''PSTATE_I'', 1, 1), (''PSTATE_F'', 1, 1)]"

lemma exception_writes_registers:
  "(\<lambda>(name, n, x). (name, n)) ` set (exception_writes typ syndrome vaddr retaddr v) \<subseteq> set exception_registers"
  by (simp add: exception_writes_def exception_registers_def) (simp add: image_subset_iff)

lemma core_write_to_el [simp]: "core (write_to_el P a b st) = core st"
  by (simp add: write_to_el_def flush_tlb_def)

lemma take_arm_exception_writes:
  assumes "exception_state_ok (core st)" and "typ \<le> 6 \<or> typ = 255"
    and "unat voff + 0x400 < 2 ^ 64"
  defines "v \<equiv> register_view (core st)"
  shows "take_arm_exception E P 1 typ syndrome vaddr retaddr voff st =
     rbind (regs.write_all E (exception_writes typ syndrome vaddr retaddr v) (core st)) (\<lambda>rf.
     rbind (reg_read E rf ''VBAR_EL1'' 8) (\<lambda>vbar.
     rbind (u64_add E (of_nat vbar) (voff + vector_bias v)) (\<lambda>pc.
     rbind (reg_write E rf ''_PC'' 8 (unat pc)) (\<lambda>rf. Inr ((write_to_el P (v ''PSTATE_EL'') 1 st)\<lparr>core := rf\<rparr>)))))"
proof -
  note has = exception_registers_has [OF assms(1)]
  have el: "reg_read E (core st) ''PSTATE_EL'' 1 = Inr (v ''PSTATE_EL'')"
      "reg_read E (core st) ''PSTATE_SP'' 1 = Inr (v ''PSTATE_SP'')"
    unfolding v_def by (rule reg_read_view [OF has(1) has(2)], simp add: exception_registers_def)+
  have off: "vector_offset E (core st) (v ''PSTATE_EL'') 1 voff = Inr (voff + vector_bias v)"
    using assms(3) by (simp add: vector_offset_def vector_bias_def el [simplified] u64_add_def)
  show ?thesis
    using assms(2) exception_class_code [of "typ" "v ''PSTATE_EL''", unfolded One_nat_def]
    by (auto simp: take_arm_exception_def get_psr_view [OF assms(1)] el [unfolded One_nat_def] off [unfolded One_nat_def]
        v_def [symmetric] regs.write_all_def
        exception_writes_def record_exception_def vbar_register_def rbind_assoc)
qed

lemma unat_in_bytes: "unat (x :: u64) mod 256 ^ 8 = unat x" "unat (y :: u32) mod 256 ^ 4 = unat y"
  using unat_u64_less [of x] unsigned_less [of y, where ?'a = nat] by simp_all

lemma exception_writes_view:
  assumes "typ \<le> 6 \<or> typ = 255"
  shows "fold (\<lambda>(name, n, x) w. if k = name then x mod 256 ^ n else w) (exception_writes typ syndrome vaddr retaddr v) (v k)
           = (if k = ''_PC'' then v k else exception_view typ syndrome vaddr retaddr voff v k)"
  using assms by (auto simp: exception_writes_def exception_view_def unat_in_bytes [simplified])

lemma register_view_less: "has_register rf name n \<Longrightarrow> register_view rf name < 256 ^ n"
  by (auto simp: has_register_def register_view_def intro!: less_le_trans [OF from_le_less] power_increasing)

lemma exception_entered:
  assumes "exception_state_ok (core st)" and "typ \<le> 6 \<or> typ = 255" and "unat voff + 0x400 < 2 ^ 64"
    and "register_view (core st) ''VBAR_EL1'' + unat (voff + vector_bias (register_view (core st))) < 2 ^ 64"
  shows "\<exists>st'. take_arm_exception E P 1 typ syndrome vaddr retaddr voff st = Inr st'
     \<and> layout_ok (core st') \<and> (\<forall>k n. has_register (core st') k n \<longleftrightarrow> has_register (core st) k n)
     \<and> (\<forall>k n. has_register (core st) k n \<longrightarrow>
          register_view (core st') k = exception_view typ syndrome vaddr retaddr voff (register_view (core st)) k)
     \<and> st' = (if register_view (core st) ''PSTATE_EL'' = 1 then st
              else flush_tlb (st\<lparr>host := invalidate_guest_mappings P (host st)\<rparr>))\<lparr>core := core st'\<rparr>"
proof -
  let ?v = "register_view (core st)" let ?ws = "exception_writes typ syndrome vaddr retaddr ?v"
  note has = exception_registers_has [OF assms(1)]
  have "has_register (core st) name n" if "(name, n, x) \<in> set ?ws" for name n x
    using has(2) exception_writes_registers that by fastforce
  then obtain rf where rf: "regs.write_all E ?ws (core st) = Inr rf" "layout_ok rf"
      "\<forall>k m. has_register rf k m \<longleftrightarrow> has_register (core st) k m"
      "\<forall>k m. has_register (core st) k m \<longrightarrow>
         register_view rf k = (if k = ''_PC'' then ?v k else exception_view typ syndrome vaddr retaddr voff ?v k)"
    using regs.write_all_view [OF has(1), where ws = ?ws and E = E] exception_writes_view [OF assms(2)] by auto
  have hv: "has_register (core st) ''VBAR_EL1'' 8" "has_register (core st) ''_PC'' 8"
    by (rule has(2), simp add: exception_registers_def)+
  have vb: "reg_read E rf ''VBAR_EL1'' 8 = Inr (?v ''VBAR_EL1'')"
    using reg_read_view [OF rf(2)] rf(3,4) hv(1) by (simp add: exception_view_def)
  let ?pc = "of_nat (?v ''VBAR_EL1'') + (voff + vector_bias ?v) :: u64"
  have vlt: "?v ''VBAR_EL1'' < 2 ^ 64" using register_view_less [OF hv(1)] by simp
  have pc: "u64_add E (of_nat (?v ''VBAR_EL1'')) (voff + vector_bias ?v) = Inr ?pc"
      "unat ?pc = ?v ''VBAR_EL1'' + unat (voff + vector_bias ?v)"
    using assms(4) vlt by (simp_all add: u64_add_def unat_of_nat unat_word_ariths)
  obtain rf' where rf': "reg_write E rf ''_PC'' 8 (unat ?pc) = Inr rf'" "layout_ok rf'"
      "\<forall>k m. has_register rf' k m \<longleftrightarrow> has_register rf k m"
      "\<forall>k m. has_register rf k m \<longrightarrow> register_view rf' k = (if k = ''_PC'' then unat ?pc else register_view rf k)"
    using reg_write_view [OF rf(2), of "''_PC''" 8 E "unat ?pc"] hv(2) rf(3) by (auto simp: unat_in_bytes [simplified])
  let ?st = "(write_to_el P (?v ''PSTATE_EL'') 1 st)\<lparr>core := rf'\<rparr>"
  have "take_arm_exception E P 1 typ syndrome vaddr retaddr voff st = Inr ?st"
    by (simp only: take_arm_exception_writes [OF assms(1-3)] rf(1) vb pc(1) rf'(1) rbind_Inr)
  moreover have "register_view (core ?st) k = exception_view typ syndrome vaddr retaddr voff ?v k"
    if "has_register (core st) k n" for k n
  proof -
    have "register_view rf' k = (if k = ''_PC'' then unat ?pc else register_view rf k)"
      using rf'(4) rf(3) that by blast
    moreover have "register_view rf k = (if k = ''_PC'' then ?v k else exception_view typ syndrome vaddr retaddr voff ?v k)"
      using rf(4) that by blast
    moreover have "exception_view typ syndrome vaddr retaddr voff ?v ''_PC'' = unat ?pc"
      unfolding pc(2) by (simp add: exception_view_def)
    ultimately show ?thesis by simp
  qed
  moreover have "\<forall>k n. has_register (core ?st) k n \<longleftrightarrow> has_register (core st) k n" using rf(3) rf'(3) by simp
  ultimately show ?thesis
    using rf'(2) by (intro exI [of _ ?st]) (auto simp: write_to_el_def)
qed

text \<open>
  C33: an exception to EL1 is entered as the architecture says.  On a register file with the registers it needs,
  the entry does not panic, saves the old processor state and the return address, sets the class
  and syndrome (except for interrupts) and the fault address (for aborts only), masks all interrupts, selects
  EL1 and its stack pointer, jumps to the vector for the level and stack the exception came from, changes no other
  register, and drops the cached translations exactly when the level changes.
\<close>

theorem exception_entry:
  assumes "exception_state_ok (core st)" and "typ \<le> 6 \<or> typ = 255" and "unat voff + 0x400 < 2 ^ 64"
    and "register_view (core st) ''VBAR_EL1'' + unat (voff + vector_bias (register_view (core st))) < 2 ^ 64"
  shows "\<exists>st'. take_arm_exception E P 1 typ syndrome vaddr retaddr voff st = Inr st'
     \<and> layout_ok (core st') \<and> (\<forall>k n. has_register (core st') k n \<longleftrightarrow> has_register (core st) k n)
     \<and> (\<forall>k n. has_register (core st) k n \<longrightarrow>
          register_view (core st') k = exception_view typ syndrome vaddr retaddr voff (register_view (core st)) k)
     \<and> st' = (if register_view (core st) ''PSTATE_EL'' = 1 then st
              else flush_tlb (st\<lparr>host := invalidate_guest_mappings P (host st)\<rparr>))\<lparr>core := core st'\<rparr>"
  by (rule exception_entered [OF assms])

text \<open>A register file with the registers of this and the next theory in eight-byte slots, all zero.\<close>

definition slots :: "(string \<times> nat) list \<Rightarrow> (string \<times> nat \<times> nat) list" where
  "slots rs = map (\<lambda>(i, name, n). (name, 8 * i, n)) (enumerate 0 rs)"

definition sample_core :: register_file where
  "sample_core = (let rs = slots (exception_registers @ [(''SCTLR_EL1_bits'', 8), (''_TTBR0_EL1_bits'', 8),
       (''_TTBR1_EL1_bits'', 8), (''_PAR_EL1_bits'', 8)]) in
     \<lparr>inner = replicate 160 0, rf_registers = rs, register_offsets = map (\<lambda>(_, off, _). off) rs,
      global_register_offset = 160\<rparr>)"

definition sample_mmu :: "(u64 \<times> page_table_flag set) mmu_state" where
  "sample_mmu = \<lparr>core = sample_core, rtlb = replicate 4096 tlb_entry_new, wtlb = replicate 4096 tlb_entry_new,
     ftlb = replicate 4096 tlb_entry_new, unprivileged_access = 0, host = sample_host\<rparr>"

lemma sample_core_ok: "exception_state_ok sample_core"
  by (simp add: exception_state_ok_def layout_ok_def sample_core_def slots_def exception_registers_def has_register_def
      enumerate_eq_zip)

lemma sample_core_zero: "register_view sample_core k = 0"
  by (auto simp: register_view_def sample_core_def Let_def split: option.splits)

theorem exception_entry_witness:
  "\<exists>st'. take_arm_exception sample_env sample_pte 1 1 0x45 0x1234 0x80 0 sample_mmu = Inr st'
     \<and> register_view (core st') ''ELR_EL1'' = 0x80 \<and> register_view (core st') ''FAR_EL1'' = 0x1234
     \<and> register_view (core st') ''ESR_EL1_bits'' = 0x92000045 \<and> register_view (core st') ''_PC'' = 0x400"
proof -
  have ok: "exception_state_ok (core sample_mmu)" by (simp add: sample_mmu_def sample_core_ok)
  have v: "register_view (core sample_mmu) = (\<lambda>_. 0)" by (simp add: sample_mmu_def sample_core_zero fun_eq_iff)
  obtain st' where st': "take_arm_exception sample_env sample_pte 1 1 0x45 0x1234 0x80 0 sample_mmu = Inr st'"
      "\<forall>k n. has_register (core sample_mmu) k n \<longrightarrow>
         register_view (core st') k = exception_view 1 0x45 0x1234 0x80 0 (\<lambda>_. 0) k"
    using exception_entry [of sample_mmu 1 0 sample_env sample_pte "0x45" "0x1234" "0x80", OF ok] by (auto simp: v vector_bias_def)
  have "register_view (core st') k = exception_view 1 0x45 0x1234 0x80 0 (\<lambda>_. 0) k"
    if "(k, n) \<in> set exception_registers" for k n
    using st'(2) exception_registers_has(2) [OF ok that] by blast
  from this [of "''ELR_EL1''" 8] this [of "''FAR_EL1''" 8] this [of "''ESR_EL1_bits''" 8] this [of "''_PC''" 8] st'(1)
  show ?thesis
    by (auto simp: exception_registers_def exception_view_def esr_value_def exception_class_def vector_bias_def)
qed

end
