(* ===== verification/Mmu.thy ===== *)
theory Mmu
  imports Arm_Exception
begin

text \<open>
  The guest's memory management unit, \<open>brig/brig/src/guest/devices/arm/mmu.rs\<close>: the walk of the guest's
  three-level page tables, the translation that caches its answers in the TLBs, and the fault that a failed walk raises.
  The accessors of a descriptor (crate \<open>aarch64_paging\<close>), the addition of the crate
  \<open>x86_64\<close> on virtual addresses and the contents of memory are parameters.
\<close>

unbundle bit_operations_syntax

section \<open>Data\<close>

datatype execution_level = EL0 | EL1 | EL2 | EL3

datatype translation_type = Read | Write | Fetch | Translate

datatype fault_level = L0 | L1 | L2 | L3

datatype fault_type = AddressSize | Translation | AccessFlag | Permission

record translation_error =
  fault_level :: fault_level
  fault_type :: fault_type
  error_translation :: translation_type

record mmu_translation_context =
  guest_virtual_address :: u64
  execution_level :: execution_level

record descriptor_ops =
  is_valid :: "u64 \<Rightarrow> bool"
  is_table_or_page :: "u64 \<Rightarrow> bool"
  has_accessed :: "u64 \<Rightarrow> bool"
  has_user :: "u64 \<Rightarrow> bool"
  has_read_only :: "u64 \<Rightarrow> bool"
  output_address :: "u64 \<Rightarrow> u64"

record guest_memory =
  virt_add :: "u64 \<Rightarrow> u64 \<Rightarrow> u64 res"
  load64 :: "u64 \<Rightarrow> u64" \<comment> \<open>the eight bytes at a host virtual address\<close>

text \<open>A call returns an address, or control goes back to the recorded safepoint.\<close>

datatype outcome = Returned u64 | Restored

section \<open>Errors and permissions\<close>

definition to_syndrome :: "translation_error \<Rightarrow> u64" where
  "to_syndrome err =
     (let level = (case fault_level err of L0 \<Rightarrow> 0 | L1 \<Rightarrow> 1 | L2 \<Rightarrow> 2 | L3 \<Rightarrow> 3);
          typ = (case fault_type err of AddressSize \<Rightarrow> 0 | Translation \<Rightarrow> 4 | AccessFlag \<Rightarrow> 8 | Permission \<Rightarrow> 12) in
      typ OR level OR (if error_translation err = Write then 0x40
                       else if error_translation err = Translate then 0x100 else 0))"

definition has_permission :: "descriptor_ops \<Rightarrow> mmu_translation_context \<Rightarrow> translation_type \<Rightarrow> u64 \<Rightarrow> bool" where
  "has_permission D ctx typ entry =
     (case (has_user D entry, has_read_only D entry) of
        (False, False) \<Rightarrow> if execution_level ctx = EL0 then False else True
      | (True, False) \<Rightarrow> True
      | (False, True) \<Rightarrow>
          if execution_level ctx = EL0 then False else typ = Read \<or> typ = Translate \<or> typ = Fetch
      | (True, True) \<Rightarrow> typ = Read \<or> typ = Translate \<or> typ = Fetch)"

section \<open>The table walk\<close>

definition GUEST_PHYSICAL_START :: u64 where
  "GUEST_PHYSICAL_START = 0xffff900000000000"

definition guest_physical_to_host_virt :: "guest_memory \<Rightarrow> u64 \<Rightarrow> u64 res" where
  "guest_physical_to_host_virt G guest_physical = virt_add G GUEST_PHYSICAL_START guest_physical"

definition entry_to_table :: "descriptor_ops \<Rightarrow> guest_memory \<Rightarrow> u64 \<Rightarrow> u64 res" where
  "entry_to_table D G entry = guest_physical_to_host_virt G (output_address D entry)"

definition table_entry :: "guest_memory \<Rightarrow> u64 \<Rightarrow> u64 \<Rightarrow> u64" where
  "table_entry G table idx = load64 G (table + 8 * idx)"

definition translate_l3 :: "descriptor_ops \<Rightarrow> guest_memory \<Rightarrow> u64 \<Rightarrow> mmu_translation_context \<Rightarrow> translation_type
    \<Rightarrow> (translation_error + u64) res" where
  "translate_l3 D G table ctx typ =
     (let va = guest_virtual_address ctx; entry_idx = drop_bit 12 va AND 0x1ff; entry = table_entry G table entry_idx in
      Inr (if \<not> is_table_or_page D entry then
             Inl \<lparr>fault_level = L3, fault_type = Translation, error_translation = typ\<rparr>
           else if \<not> has_accessed D entry then
             Inl \<lparr>fault_level = L3, fault_type = AccessFlag, error_translation = typ\<rparr>
           else if \<not> has_permission D ctx typ entry then
             Inl \<lparr>fault_level = L3, fault_type = Permission, error_translation = typ\<rparr>
           else Inr (output_address D entry OR (va AND (push_bit 12 1 - 1)))))"

definition translate_l2 :: "descriptor_ops \<Rightarrow> guest_memory \<Rightarrow> u64 \<Rightarrow> mmu_translation_context \<Rightarrow> translation_type
    \<Rightarrow> (translation_error + u64) res" where
  "translate_l2 D G table ctx typ =
     (let va = guest_virtual_address ctx; entry_idx = drop_bit 21 va AND 0x1ff; entry = table_entry G table entry_idx in
      if \<not> is_valid D entry then
        Inr (Inl \<lparr>fault_level = L2, fault_type = Translation, error_translation = typ\<rparr>)
      else if is_table_or_page D entry then
        rbind (entry_to_table D G entry) (\<lambda>table. translate_l3 D G table ctx typ)
      else if \<not> has_accessed D entry then
        Inr (Inl \<lparr>fault_level = L2, fault_type = AccessFlag, error_translation = typ\<rparr>)
      else if \<not> has_permission D ctx typ entry then
        Inr (Inl \<lparr>fault_level = L2, fault_type = Permission, error_translation = typ\<rparr>)
      else let mask = push_bit 21 1 - 1 in
           Inr (Inr ((output_address D entry AND NOT mask) OR (va AND mask))))"

definition translate_l1 :: "descriptor_ops \<Rightarrow> guest_memory \<Rightarrow> u64 \<Rightarrow> mmu_translation_context \<Rightarrow> translation_type
    \<Rightarrow> (translation_error + u64) res" where
  "translate_l1 D G table ctx typ =
     (let va = guest_virtual_address ctx; entry_idx = drop_bit 30 va AND 0x1ff; entry = table_entry G table entry_idx in
      if \<not> is_valid D entry then
        Inr (Inl \<lparr>fault_level = L1, fault_type = Translation, error_translation = typ\<rparr>)
      else if is_table_or_page D entry then
        rbind (entry_to_table D G entry) (\<lambda>table. translate_l2 D G table ctx typ)
      else if \<not> has_accessed D entry then
        Inr (Inl \<lparr>fault_level = L1, fault_type = AccessFlag, error_translation = typ\<rparr>)
      else if \<not> has_permission D ctx typ entry then
        Inr (Inl \<lparr>fault_level = L1, fault_type = Permission, error_translation = typ\<rparr>)
      else let mask = push_bit 30 1 - 1 in
           Inr (Inr ((output_address D entry AND NOT mask) OR (va AND mask))))"

section \<open>Translation\<close>

definition current_execution_level :: "rust_env \<Rightarrow> register_file \<Rightarrow> execution_level res" where
  "current_execution_level E rf =
     rbind (reg_read E rf ''PSTATE_EL'' 1) (\<lambda>el.
     if el = 0 then Inr EL0 else if el = 1 then Inr EL1 else if el = 2 then Inr EL2 else if el = 3 then Inr EL3
     else Inl ExplicitPanic)"

definition ttbr_mask :: u64 where
  "ttbr_mask = NOT 0xffff000000000fff"

text \<open>The table the walk starts from: the top bit of the 40 used picks the base register.\<close>

definition translation_table :: "rust_env \<Rightarrow> guest_memory \<Rightarrow> register_file \<Rightarrow> u64 \<Rightarrow> u64 res" where
  "translation_table E G rf va =
     rbind (reg_read E rf ''_TTBR0_EL1_bits'' 8) (\<lambda>ttbr0_el1.
     rbind (reg_read E rf ''_TTBR1_EL1_bits'' 8) (\<lambda>ttbr1_el1.
     let top_bit = drop_bit 39 va AND 1;
         translation_table_base_guest_phys = (if top_bit = 0 then of_nat ttbr0_el1 else of_nat ttbr1_el1) in
     guest_physical_to_host_virt G (translation_table_base_guest_phys AND ttbr_mask)))"

definition guest_page_fault :: "rust_env \<Rightarrow> 'e pte_ops \<Rightarrow> mmu_translation_context \<Rightarrow> translation_error \<Rightarrow> 'e mmu_state
    \<Rightarrow> ('e mmu_state \<times> outcome) res" where
  "guest_page_fault E P ctx err st =
     rbind (reg_read E (core st) ''_PC'' 8) (\<lambda>retaddr.
     let typ = (if error_translation err = Fetch then 4 else 1); syndrome = to_syndrome err in
     rbind (take_arm_exception E P 1 typ syndrome (guest_virtual_address ctx) (of_nat retaddr) 0 st) (\<lambda>st.
     Inr (st, Restored)))"

text \<open>An unprivileged access is made as EL0 and its flag is used up.\<close>

definition effective_execution_level :: "execution_level \<Rightarrow> 'e mmu_state \<Rightarrow> ('e mmu_state \<times> execution_level) res" where
  "effective_execution_level current_el st =
     (if unprivileged_access st \<noteq> 0 then
        rbind (rassert (current_el = EL1)) (\<lambda>_. Inr (st\<lparr>unprivileged_access := 0\<rparr>, EL0))
      else Inr (st, current_el))"

definition raw_guest_translate :: "rust_env \<Rightarrow> 'e pte_ops \<Rightarrow> descriptor_ops \<Rightarrow> guest_memory \<Rightarrow> translation_type \<Rightarrow> u64
    \<Rightarrow> 'e mmu_state \<Rightarrow> ('e mmu_state \<times> outcome) res" where
  "raw_guest_translate E P D G typ va st =
     rbind (translation_table E G (core st) va) (\<lambda>table.
     rbind (current_execution_level E (core st)) (\<lambda>current_el.
     rbind (effective_execution_level current_el st) (\<lambda>(st, el).
     let ctx = \<lparr>guest_virtual_address = va, execution_level = el\<rparr> in
     rbind (translate_l1 D G table ctx typ) (\<lambda>r.
     case r of
       Inr addr \<Rightarrow>
         if typ = Translate then
           rbind (reg_write E (core st) ''_PAR_EL1_bits'' 8 (unat (addr AND 0x0000fffffffff000))) (\<lambda>rf.
           Inr (st\<lparr>core := rf\<rparr>, Returned addr))
         else Inr (st, Returned addr)
     | Inl err \<Rightarrow>
         if typ = Translate then
           rbind (reg_write E (core st) ''_PAR_EL1_bits'' 8 (unat (push_bit 1 (to_syndrome err) OR 1))) (\<lambda>rf.
           Inr (st\<lparr>core := rf\<rparr>, Returned 0))
         else guest_page_fault E P ctx err st))))"

fun tlb_of :: "translation_type \<Rightarrow> 'e mmu_state \<Rightarrow> tlb_entry list" where
  "tlb_of Write st = wtlb st"
| "tlb_of Fetch st = ftlb st"
| "tlb_of _ st = rtlb st"

fun set_tlb :: "translation_type \<Rightarrow> tlb_entry list \<Rightarrow> 'e mmu_state \<Rightarrow> 'e mmu_state" where
  "set_tlb Write t st = st\<lparr>wtlb := t\<rparr>"
| "set_tlb Fetch t st = st\<lparr>ftlb := t\<rparr>"
| "set_tlb _ t st = st\<lparr>rtlb := t\<rparr>"

text \<open>The cached path, for reads, writes and fetches; a fault leaves before the entry is stored.\<close>

definition cached_translate :: "rust_env \<Rightarrow> 'e pte_ops \<Rightarrow> descriptor_ops \<Rightarrow> guest_memory \<Rightarrow> translation_type \<Rightarrow> u64
    \<Rightarrow> 'e mmu_state \<Rightarrow> ('e mmu_state \<times> outcome) res" where
  "cached_translate E P D G typ va st =
     (let page = drop_bit 12 va; offset = va AND 0xFFF; i = unat (page mod 4096) in
      if i < length (tlb_of typ st) then
        let entry = tlb_of typ st ! i in
        if guest_virt_page entry = page then Inr (st, Returned (guest_phys_page entry OR offset))
        else rbind (raw_guest_translate E P D G typ (push_bit 12 page) st) (\<lambda>(st, out).
             case out of
               Returned phys \<Rightarrow>
                 Inr (set_tlb typ ((tlb_of typ st)[i := \<lparr>guest_virt_page = page, guest_phys_page = phys\<rparr>]) st,
                      Returned (phys OR offset))
             | Restored \<Rightarrow> Inr (st, Restored))
      else Inl IndexOutOfBounds)"

definition guest_translate :: "rust_env \<Rightarrow> 'e pte_ops \<Rightarrow> descriptor_ops \<Rightarrow> guest_memory \<Rightarrow> translation_type \<Rightarrow> u64
    \<Rightarrow> 'e mmu_state \<Rightarrow> ('e mmu_state \<times> outcome) res" where
  "guest_translate E P D G typ va st =
     rbind (reg_read E (core st) ''SCTLR_EL1_bits'' 8) (\<lambda>sctlr.
     let mmu_enabled = (of_nat sctlr AND (1 :: u64) = 1) in
     if \<not> mmu_enabled then Inr (st, Returned va)
     else if typ = Translate then raw_guest_translate E P D G Translate va st
     else cached_translate E P D G typ va st)"

definition at_s1e1r_handler :: "rust_env \<Rightarrow> 'e pte_ops \<Rightarrow> descriptor_ops \<Rightarrow> guest_memory \<Rightarrow> u64 \<Rightarrow> 'e mmu_state
    \<Rightarrow> 'e mmu_state res" where
  "at_s1e1r_handler E P D G addr st = rbind (guest_translate E P D G Translate addr st) (\<lambda>(st, _). Inr st)"

section \<open>Reference walk\<close>

text \<open>What the architecture asks of a mapping: EL0 needs a user page, a write a writable one.\<close>

definition permitted :: "descriptor_ops \<Rightarrow> execution_level \<Rightarrow> translation_type \<Rightarrow> u64 \<Rightarrow> bool" where
  "permitted D el typ entry \<longleftrightarrow> (el = EL0 \<longrightarrow> has_user D entry) \<and> (typ = Write \<longrightarrow> \<not> has_read_only D entry)"

definition level_shift :: "nat \<Rightarrow> nat" where
  "level_shift level = 12 + 9 * (3 - level)"

definition level_name :: "nat \<Rightarrow> fault_level" where
  "level_name level = [L0, L1, L2, L3] ! level"

definition leaf_result :: "descriptor_ops \<Rightarrow> nat \<Rightarrow> mmu_translation_context \<Rightarrow> translation_type \<Rightarrow> u64 \<Rightarrow> translation_error + u64" where
  "leaf_result D level ctx typ entry =
     (let fault = \<lambda>f. Inl \<lparr>fault_level = level_name level, fault_type = f, error_translation = typ\<rparr>;
          n = level_shift level in
      if \<not> has_accessed D entry then fault AccessFlag
      else if \<not> permitted D (execution_level ctx) typ entry then fault Permission
      else Inr (push_bit n (drop_bit n (output_address D entry)) OR take_bit n (guest_virtual_address ctx)))"

text \<open>A walk of any number of levels, down to level 3, where only pages are allowed.\<close>

function page_walk :: "descriptor_ops \<Rightarrow> guest_memory \<Rightarrow> nat \<Rightarrow> u64 \<Rightarrow> mmu_translation_context \<Rightarrow> translation_type
    \<Rightarrow> (translation_error + u64) res" where
  "page_walk D G level table ctx typ =
     (let entry = table_entry G table (take_bit 9 (drop_bit (level_shift level) (guest_virtual_address ctx)));
          fault = Inr (Inl \<lparr>fault_level = level_name level, fault_type = Translation, error_translation = typ\<rparr>) in
      if level \<ge> 3 then if is_table_or_page D entry then Inr (leaf_result D level ctx typ entry) else fault
      else if \<not> is_valid D entry then fault
      else if is_table_or_page D entry then
        rbind (entry_to_table D G entry) (\<lambda>table. page_walk D G (level + 1) table ctx typ)
      else Inr (leaf_result D level ctx typ entry))"
  by pat_completeness auto
termination
  by (relation "measure (\<lambda>(D, G, level, _). 3 - level)") auto

declare page_walk.simps [simp del]

section \<open>The walk\<close>

text \<open>The documented behaviour of \<open>output_address\<close>: the address of a page.\<close>

definition pages_aligned :: "descriptor_ops \<Rightarrow> bool" where
  "pages_aligned D \<longleftrightarrow> (\<forall>entry. take_bit 12 (output_address D entry) = 0)"

lemma has_permission_permitted: "has_permission D ctx typ entry = permitted D (execution_level ctx) typ entry"
  by (cases "typ") (auto simp: has_permission_def permitted_def split: bool.splits)

lemma low_mask: "push_bit n 1 - 1 = (mask n :: u64)"
  by (simp add: mask_eq_exp_minus_1)

lemma and_low_mask: "(a :: u64) AND mask n = take_bit n a" "(a :: u64) AND NOT (mask n) = push_bit n (drop_bit n a)"
  by (simp add: take_bit_eq_mask) (rule bit_eqI, auto simp: bit_simps)

lemma index_mask: "(a :: u64) AND 0x1ff = take_bit 9 a" "(a :: u64) AND 0xFFF = take_bit 12 a"
  by (simp_all add: take_bit_eq_mask mask_eq_exp_minus_1)

lemma block_mask:
  "(a :: u64) AND 0x1fffff = take_bit 21 a" "(a :: u64) AND - 0x200000 = push_bit 21 (drop_bit 21 a)"
  "(a :: u64) AND 0x3fffffff = take_bit 30 a" "(a :: u64) AND - 0x40000000 = push_bit 30 (drop_bit 30 a)"
  by (simp_all add: and_low_mask [symmetric] mask_eq_exp_minus_1)

lemma aligned_output: "pages_aligned D \<Longrightarrow> push_bit 12 (drop_bit 12 (output_address D e)) = output_address D e"
  using bits_ident [of 12 "output_address D e"] by (simp add: pages_aligned_def)

lemmas walk_simps = Let_def low_mask and_low_mask index_mask block_mask has_permission_permitted leaf_result_def level_name_def
  level_shift_def

lemma l3_walk: "pages_aligned D \<Longrightarrow> translate_l3 D G table ctx typ = page_walk D G 3 table ctx typ"
  by (simp add: translate_l3_def page_walk.simps [of D G 3] walk_simps aligned_output)

lemma l2_walk: "pages_aligned D \<Longrightarrow> translate_l2 D G table ctx typ = page_walk D G 2 table ctx typ"
  by (simp add: translate_l2_def page_walk.simps [of D G 2] walk_simps l3_walk)

lemma l1_walk: "pages_aligned D \<Longrightarrow> translate_l1 D G table ctx typ = page_walk D G 1 table ctx typ"
  by (simp add: translate_l1_def page_walk.simps [of D G 1] page_walk.simps [of D G "Suc 0"] walk_simps l2_walk numeral_2_eq_2)

text \<open>The walk of an address is the walk of its page, with the offset put back.\<close>

definition page_base :: "u64 \<Rightarrow> u64" where
  "page_base va = push_bit 12 (drop_bit 12 va)"

definition add_offset :: "u64 \<Rightarrow> (translation_error + u64) \<Rightarrow> translation_error + u64" where
  "add_offset va = map_sum id (\<lambda>pa. pa OR take_bit 12 va)"

lemma add_offset_simps [simp]: "add_offset va (Inl err) = Inl err" "add_offset va (Inr pa) = Inr (pa OR take_bit 12 va)"
  by (simp_all add: add_offset_def)

lemma drop_page_base: "12 \<le> n \<Longrightarrow> drop_bit n (page_base va) = drop_bit n va"
  by (rule bit_eqI) (auto simp: page_base_def bit_simps dest: bit_imp_le_length)

lemma take_page_base: "12 \<le> n \<Longrightarrow> take_bit n (page_base va) OR take_bit 12 va = take_bit n va"
  by (rule bit_eqI) (auto simp: page_base_def bit_simps)

lemma leaf_of_page:
  "leaf_result D level \<lparr>guest_virtual_address = va, execution_level = el\<rparr> typ entry
   = add_offset va (leaf_result D level \<lparr>guest_virtual_address = page_base va, execution_level = el\<rparr> typ entry)"
  by (simp add: leaf_result_def Let_def or.assoc take_page_base level_shift_def)

lemma walk_of_page:
  "page_walk D G level table \<lparr>guest_virtual_address = va, execution_level = el\<rparr> typ
   = rbind (page_walk D G level table \<lparr>guest_virtual_address = page_base va, execution_level = el\<rparr> typ)
       (\<lambda>r. Inr (add_offset va r))"
proof (induction D G level table "\<lparr>guest_virtual_address = va, execution_level = el\<rparr>" "typ" rule: page_walk.induct)
  case (1 D G level table "typ")
  let ?e = "table_entry G table (take_bit 9 (drop_bit (level_shift level) va))"
  have idx: "drop_bit (level_shift level) (page_base va) = drop_bit (level_shift level) va"
    by (rule drop_page_base) (simp add: level_shift_def)
  show ?case
  proof (cases "level \<ge> 3 \<or> \<not> is_valid D ?e \<or> \<not> is_table_or_page D ?e")
    case True
    then show ?thesis
      by (auto simp: page_walk.simps [of D G level] Let_def idx leaf_of_page [symmetric])
  next
    case False
    then have "page_walk D G (level + 1) t \<lparr>guest_virtual_address = va, execution_level = el\<rparr> typ
        = rbind (page_walk D G (level + 1) t \<lparr>guest_virtual_address = page_base va, execution_level = el\<rparr> typ)
            (\<lambda>r. Inr (add_offset va r))" if "entry_to_table D G ?e = Inr t" for t
      using 1 that by auto
    with False show ?thesis
      by (cases "entry_to_table D G ?e") (simp_all add: page_walk.simps [of D G level] Let_def idx)
  qed
qed

section \<open>Coherence of the TLBs\<close>

text \<open>The walk for an address at the current level, without the caches.\<close>

definition walk_result :: "rust_env \<Rightarrow> descriptor_ops \<Rightarrow> guest_memory \<Rightarrow> translation_type \<Rightarrow> u64 \<Rightarrow> 'e mmu_state
    \<Rightarrow> (translation_error + u64) res" where
  "walk_result E D G typ va st =
     rbind (translation_table E G (core st) va) (\<lambda>table.
     rbind (current_execution_level E (core st)) (\<lambda>el.
     translate_l1 D G table \<lparr>guest_virtual_address = va, execution_level = el\<rparr> typ))"

definition tlb_coherent :: "rust_env \<Rightarrow> descriptor_ops \<Rightarrow> guest_memory \<Rightarrow> 'e mmu_state \<Rightarrow> bool" where
  "tlb_coherent E D G st \<longleftrightarrow>
     (\<forall>typ. typ \<noteq> Translate \<longrightarrow> length (tlb_of typ st) = 4096
        \<and> (\<forall>e \<in> set (tlb_of typ st). guest_virt_page e \<noteq> - 1
             \<longrightarrow> walk_result E D G typ (push_bit 12 (guest_virt_page e)) st = Inr (Inr (guest_phys_page e))))"

lemma table_of_page: "translation_table E G rf (page_base va) = translation_table E G rf va"
  by (simp add: translation_table_def drop_page_base)

lemma walk_result_of_page:
  assumes "pages_aligned D"
  shows "walk_result E D G typ va st = rbind (walk_result E D G typ (page_base va) st) (\<lambda>r. Inr (add_offset va r))"
  by (simp add: walk_result_def table_of_page l1_walk [OF assms] walk_of_page [of D G "Suc 0" _ va] rbind_assoc)

lemma page_number_not_unused: "drop_bit 12 (va :: u64) \<noteq> - 1"
proof
  assume "drop_bit 12 va = - 1"
  then have "bit (drop_bit 12 va) 63" by simp
  then show False by (auto simp: bit_simps dest: bit_imp_le_length)
qed

lemma raw_translate_walk:
  assumes "unprivileged_access st = 0" and "typ \<noteq> Translate"
  shows "raw_guest_translate E P D G typ va st =
     rbind (walk_result E D G typ va st) (\<lambda>r.
     case r of Inr addr \<Rightarrow> Inr (st, Returned addr)
     | Inl err \<Rightarrow> rbind (current_execution_level E (core st)) (\<lambda>el.
         guest_page_fault E P \<lparr>guest_virtual_address = va, execution_level = el\<rparr> err st))"
  using assms
  by (cases "translation_table E G (core st) va"; cases "current_execution_level E (core st)")
    (auto simp: raw_guest_translate_def walk_result_def effective_execution_level_def Let_def intro!: rbind_cong split: sum.splits)

lemma page_fault_restores:
  "rbind (guest_page_fault E P ctx err st) (\<lambda>(st, out). case out of Returned phys \<Rightarrow> f st phys | Restored \<Rightarrow> Inr (st, Restored))
   = guest_page_fault E P ctx err st"
  by (cases "reg_read E (core st) ''_PC'' 8")
    (auto simp: guest_page_fault_def Let_def rbind_assoc)

lemma set_tlb_simps [simp]:
  "core (set_tlb typ t st) = core st" "host (set_tlb typ t st) = host st"
  "unprivileged_access (set_tlb typ t st) = unprivileged_access st"
  "typ \<noteq> Translate \<Longrightarrow> typ' \<noteq> Translate \<Longrightarrow> tlb_of typ' (set_tlb typ t st) = (if typ' = typ then t else tlb_of typ' st)"
  by (cases "typ"; cases "typ'"; simp)+

lemma walk_result_core: "core st' = core st \<Longrightarrow> walk_result E D G typ va st' = walk_result E D G typ va st"
  by (simp add: walk_result_def)

lemma tlb_coherentD:
  "tlb_coherent E D G st \<Longrightarrow> typ \<noteq> Translate \<Longrightarrow> e \<in> set (tlb_of typ st) \<Longrightarrow> guest_virt_page e \<noteq> - 1
   \<Longrightarrow> walk_result E D G typ (push_bit 12 (guest_virt_page e)) st = Inr (Inr (guest_phys_page e))"
  by (auto simp: tlb_coherent_def)

lemma tlb_insert_coherent:
  assumes "tlb_coherent E D G st" and "typ \<noteq> Translate" and "walk_result E D G typ (push_bit 12 page) st = Inr (Inr phys)"
  shows "tlb_coherent E D G (set_tlb typ ((tlb_of typ st)[i := \<lparr>guest_virt_page = page, guest_phys_page = phys\<rparr>]) st)"
proof -
  have "e \<in> set (tlb_of t st) \<or> t = typ \<and> e = \<lparr>guest_virt_page = page, guest_phys_page = phys\<rparr>"
    if "e \<in> set (if t = typ then (tlb_of typ st)[i := \<lparr>guest_virt_page = page, guest_phys_page = phys\<rparr>] else tlb_of t st)" for e t
    using that set_update_subset_insert [of "tlb_of typ st" i] by (auto split: if_splits)
  with assms show ?thesis
    unfolding tlb_coherent_def
    by (fastforce simp: walk_result_core [of "set_tlb typ _ st" st])
qed

lemma cached_translate_walk:
  assumes al: "pages_aligned D" and co: "tlb_coherent E D G st" and un: "unprivileged_access st = 0"
    and nt: "typ \<noteq> Translate" and w: "walk_result E D G typ va st = Inr r"
  shows "case r of
       Inr pa \<Rightarrow> \<exists>st'. cached_translate E P D G typ va st = Inr (st', Returned pa) \<and> tlb_coherent E D G st'
           \<and> core st' = core st \<and> host st' = host st \<and> unprivileged_access st' = 0
     | Inl err \<Rightarrow> cached_translate E P D G typ va st = rbind (current_execution_level E (core st)) (\<lambda>el.
         guest_page_fault E P \<lparr>guest_virtual_address = page_base va, execution_level = el\<rparr> err st)"
proof -
  let ?page = "drop_bit 12 va" let ?i = "unat (?page mod 4096)" let ?e = "tlb_of typ st ! ?i"
  obtain r0 where r0: "walk_result E D G typ (page_base va) st = Inr r0" "r = add_offset va r0"
    using w walk_result_of_page [OF al, of E G "typ" va st] by (auto simp: res_simps)
  have len: "length (tlb_of typ st) = 4096" using co nt by (simp add: tlb_coherent_def)
  have i: "?i < length (tlb_of typ st)" by (simp add: len unat_mod_distrib)
  have cached: "cached_translate E P D G typ va st =
      (if guest_virt_page ?e = ?page then Inr (st, Returned (guest_phys_page ?e OR take_bit 12 va))
       else rbind (raw_guest_translate E P D G typ (page_base va) st) (\<lambda>(st, out).
             case out of
               Returned phys \<Rightarrow>
                 Inr (set_tlb typ ((tlb_of typ st)[?i := \<lparr>guest_virt_page = ?page, guest_phys_page = phys\<rparr>]) st,
                      Returned (phys OR take_bit 12 va))
             | Restored \<Rightarrow> Inr (st, Restored)))"
    using i by (simp add: cached_translate_def Let_def index_mask page_base_def)
  show ?thesis
  proof (cases "guest_virt_page ?e = ?page")
    case True
    then have "walk_result E D G typ (push_bit 12 ?page) st = Inr (Inr (guest_phys_page ?e))"
      using tlb_coherentD [OF co nt nth_mem [OF i]] page_number_not_unused [of va] by simp
    with True r0 co un cached show ?thesis by (auto simp: page_base_def)
  next
    case False
    then show ?thesis
      using cached r0 un tlb_insert_coherent [OF co nt, of ?page _ ?i]
      by (cases r0) (auto simp: raw_translate_walk [OF un nt] rbind_assoc page_fault_restores page_base_def)
  qed
qed

lemma enabled_bit: "(of_nat n AND (1 :: u64) = 1) \<longleftrightarrow> odd n"
proof -
  have "(of_nat n :: u64) AND 1 = of_nat (n mod 2)"
    using take_bit_of_nat [of 1 n, where ?'a = "64 word"] by (simp add: take_bit_eq_mask mask_eq_exp_minus_1 and_one_eq)
  then show ?thesis by (cases "even n") (auto simp: odd_iff_mod_2_eq_one)
qed

section \<open>The registers of the MMU\<close>

definition mmu_registers :: "(string \<times> nat) list" where
  "mmu_registers = [(''SCTLR_EL1_bits'', 8), (''_TTBR0_EL1_bits'', 8), (''_TTBR1_EL1_bits'', 8), (''_PAR_EL1_bits'', 8)]"

definition mmu_core_ok :: "register_file \<Rightarrow> bool" where
  "mmu_core_ok rf \<longleftrightarrow> exception_state_ok rf \<and> list_all (\<lambda>(name, n). has_register rf name n) mmu_registers"

lemma mmu_core_has:
  assumes "mmu_core_ok rf"
  shows "layout_ok rf" and "exception_state_ok rf"
    and "(name, n) \<in> set exception_registers \<union> set mmu_registers \<Longrightarrow> has_register rf name n"
  using assms exception_registers_has [of rf] by (auto simp: mmu_core_ok_def list_all_iff)

lemma mmu_core_same_registers:
  "mmu_core_ok rf \<Longrightarrow> layout_ok rf' \<Longrightarrow> (\<And>k n. has_register rf' k n \<longleftrightarrow> has_register rf k n) \<Longrightarrow> mmu_core_ok rf'"
  by (auto simp: mmu_core_ok_def exception_state_ok_def list_all_iff)

lemma mmu_core_read:
  "mmu_core_ok rf \<Longrightarrow> (name, n) \<in> set exception_registers \<union> set mmu_registers
   \<Longrightarrow> reg_read E rf name n = Inr (register_view rf name)"
  using mmu_core_has(1,3) by (simp add: reg_read_view)

lemma walk_result_view:
  assumes "mmu_core_ok (core st)" and "mmu_core_ok (core st')"
    and "\<And>k. k \<in> {''_TTBR0_EL1_bits'', ''_TTBR1_EL1_bits'', ''PSTATE_EL''}
           \<Longrightarrow> register_view (core st') k = register_view (core st) k"
  shows "walk_result E D G typ va st' = walk_result E D G typ va st"
proof -
  have rd: "reg_read E (core st') k n = reg_read E (core st) k n"
    if "(k, n) \<in> {(''_TTBR0_EL1_bits'', 8), (''_TTBR1_EL1_bits'', 8), (''PSTATE_EL'', 1)}" for k n
  proof -
    have "(k, n) \<in> set exception_registers \<union> set mmu_registers"
      using that by (elim insertE) (simp_all add: exception_registers_def mmu_registers_def)
    moreover have "register_view (core st') k = register_view (core st) k" using that by (intro assms(3)) auto
    ultimately show ?thesis using mmu_core_read assms(1,2) by simp
  qed
  have "reg_read E (core st') ''PSTATE_EL'' 1 = reg_read E (core st) ''PSTATE_EL'' 1"
      "reg_read E (core st') ''_TTBR0_EL1_bits'' 8 = reg_read E (core st) ''_TTBR0_EL1_bits'' 8"
      "reg_read E (core st') ''_TTBR1_EL1_bits'' 8 = reg_read E (core st) ''_TTBR1_EL1_bits'' 8"
    by (rule rd, simp)+
  then show ?thesis
    by (simp only: walk_result_def translation_table_def current_execution_level_def)
qed

lemma tlb_coherent_view:
  assumes "tlb_coherent E D G st" and "mmu_core_ok (core st)" and "mmu_core_ok (core st')"
    and "\<And>k. k \<in> {''_TTBR0_EL1_bits'', ''_TTBR1_EL1_bits'', ''PSTATE_EL''}
           \<Longrightarrow> register_view (core st') k = register_view (core st) k"
    and "\<And>typ. tlb_of typ st' = tlb_of typ st"
  shows "tlb_coherent E D G st'"
  using assms(1) walk_result_view [OF assms(2-4)] by (simp add: tlb_coherent_def assms(5))

lemma tlb_of_flush: "tlb_of typ (flush_tlb st) = map tlb_entry_clear (tlb_of typ st)"
  by (cases "typ") (simp_all add: flush_tlb_def)

lemma tlb_of_other [simp]: "tlb_of typ (st\<lparr>core := rf\<rparr>) = tlb_of typ st" "tlb_of typ (st\<lparr>host := h\<rparr>) = tlb_of typ st"
  "tlb_of typ (st\<lparr>unprivileged_access := u\<rparr>) = tlb_of typ st"
  by (cases "typ"; simp)+

lemma flushed_coherent:
  assumes "tlb_coherent E D G st" and "\<And>typ. tlb_of typ st' = map tlb_entry_clear (tlb_of typ st)"
  shows "tlb_coherent E D G st'"
  using assms(1) by (auto simp: tlb_coherent_def assms(2) tlb_entry_clear_def)

section \<open>Properties\<close>

text \<open>
  C38: the three hand-unrolled levels are the architecture's walk: one step for any level, which indexes the table with
  nine bits of the address, follows tables, stops at blocks above level 3 and at pages on level 3, and checks the
  access flag and then the permission of what it stops at.
\<close>

theorem translate_l1_is_page_walk:
  assumes "pages_aligned D"
  shows "translate_l1 D G table ctx typ = page_walk D G 1 table ctx typ"
  by (rule l1_walk [OF assms])

text \<open>
  C10: the TLBs are transparent.  In a coherent state with the MMU on, a read, write or fetch of an address that the
  uncached walk of the full address maps is answered with exactly the address the walk gives, hit or
  miss, and the state stays coherent.
\<close>

theorem tlb_transparent:
  assumes "pages_aligned D" and "tlb_coherent E D G st" and "unprivileged_access st = 0" and "typ \<noteq> Translate"
    and "reg_read E (core st) ''SCTLR_EL1_bits'' 8 = Inr sctlr" and "odd sctlr"
    and "walk_result E D G typ va st = Inr (Inr pa)"
  shows "\<exists>st'. guest_translate E P D G typ va st = Inr (st', Returned pa) \<and> tlb_coherent E D G st'
     \<and> core st' = core st \<and> host st' = host st \<and> unprivileged_access st' = 0"
  using cached_translate_walk [OF assms(1-4,7), of P] assms(4-6) by (simp add: guest_translate_def enabled_bit)

lemma page_fault_entry:
  assumes "mmu_core_ok (core st)" and "tlb_coherent E D G st" and "register_view (core st) ''VBAR_EL1'' + 0x400 < 2 ^ 64"
    and "register_view (core st) ''_PC'' < 2 ^ 64"
  defines "v \<equiv> register_view (core st)"
  shows "\<exists>st'. guest_page_fault E P ctx err st = Inr (st', Restored) \<and> tlb_coherent E D G st' \<and> mmu_core_ok (core st')
     \<and> unprivileged_access st' = unprivileged_access st
     \<and> (\<forall>k n. has_register (core st) k n \<longrightarrow> register_view (core st') k =
          exception_view (if error_translation err = Fetch then 4 else 1) (to_syndrome err) (guest_virtual_address ctx)
            (of_nat (v ''_PC'')) 0 v k)"
proof -
  note has = mmu_core_has [OF assms(1)]
  let ?t = "if error_translation err = Fetch then 4 else 1 :: nat"
  have t: "?t \<le> 6 \<or> ?t = 255" by simp
  have bound: "register_view (core st) ''VBAR_EL1'' + unat (0 + vector_bias (register_view (core st))) < 2 ^ 64"
    using assms(3) by (simp add: vector_bias_def)
  have pc: "reg_read E (core st) ''_PC'' 8 = Inr (v ''_PC'')"
    unfolding v_def by (rule mmu_core_read [OF assms(1)]) (simp add: exception_registers_def)
  obtain st' where st': "take_arm_exception E P 1 ?t (to_syndrome err) (guest_virtual_address ctx) (of_nat (v ''_PC'')) 0 st = Inr st'"
      "layout_ok (core st')" "\<forall>k n. has_register (core st') k n \<longleftrightarrow> has_register (core st) k n"
      "\<forall>k n. has_register (core st) k n \<longrightarrow> register_view (core st') k =
         exception_view ?t (to_syndrome err) (guest_virtual_address ctx) (of_nat (v ''_PC'')) 0 v k"
      "st' = (if v ''PSTATE_EL'' = 1 then st else flush_tlb (st\<lparr>host := invalidate_guest_mappings P (host st)\<rparr>))\<lparr>core := core st'\<rparr>"
    using exception_entered [OF has(2) t, of 0 E P "to_syndrome err" "guest_virtual_address ctx" "of_nat (v ''_PC'')"]
      bound unfolding v_def by auto
  have ok': "mmu_core_ok (core st')" using mmu_core_same_registers [OF assms(1) st'(2)] st'(3) by blast
  have "tlb_coherent E D G st'"
  proof (cases "v ''PSTATE_EL'' = 1")
    case True
    then have "tlb_of typ st' = tlb_of typ st" for "typ" by (subst st'(5)) simp
    moreover have "register_view (core st') k = v k"
      if "k \<in> {''_TTBR0_EL1_bits'', ''_TTBR1_EL1_bits'', ''PSTATE_EL''}" for k
    proof -
      have "(k, if k = ''PSTATE_EL'' then 1 else 8) \<in> set exception_registers \<union> set mmu_registers"
        using that by (elim insertE) (simp_all add: exception_registers_def mmu_registers_def)
      then obtain n where "has_register (core st) k n" using has(3) by blast
      then have "register_view (core st') k =
          exception_view ?t (to_syndrome err) (guest_virtual_address ctx) (of_nat (v ''_PC'')) 0 v k" using st'(4) by blast
      also have "\<dots> = v k" using that True by (elim insertE) (simp_all add: exception_view_def)
      finally show ?thesis .
    qed
    ultimately show ?thesis using tlb_coherent_view [OF assms(2,1) ok'] by (simp add: v_def)
  next
    case False
    then have "tlb_of typ st' = map tlb_entry_clear (tlb_of typ st)" for "typ"
      by (subst st'(5)) (simp add: tlb_of_flush)
    then show ?thesis by (rule flushed_coherent [OF assms(2)])
  qed
  moreover have "unprivileged_access st' = unprivileged_access st"
    by (subst st'(5)) (simp add: flush_tlb_def)
  ultimately show ?thesis
    using st'(1,4) ok' pc by (auto simp: guest_page_fault_def Let_def)
qed

text \<open>
  C31: a translation that the walk refuses raises the right exception and caches nothing stale.  The call does not return
  but goes back to the safepoint with the guest at its EL1 vector, the syndrome of the walk's error, the class of a
  data or instruction abort from the level it came from, the faulting program counter saved and, as fault address, the
  first address of the page that was accessed; the TLBs are still coherent, also for the new level.
\<close>

theorem translation_fault:
  assumes "pages_aligned D" and "tlb_coherent E D G st" and "unprivileged_access st = 0" and "typ \<noteq> Translate"
    and "mmu_core_ok (core st)" and "odd (register_view (core st) ''SCTLR_EL1_bits'')"
    and "register_view (core st) ''VBAR_EL1'' + 0x400 < 2 ^ 64"
    and "walk_result E D G typ va st = Inr (Inl err)"
  shows "\<exists>st'. guest_translate E P D G typ va st = Inr (st', Restored) \<and> tlb_coherent E D G st'
     \<and> register_view (core st') ''PSTATE_EL'' = 1
     \<and> register_view (core st') ''FAR_EL1'' = unat (page_base va)
     \<and> register_view (core st') ''ELR_EL1'' = register_view (core st) ''_PC''
     \<and> register_view (core st') ''ESR_EL1_bits'' = unat (esr_value
          (exception_class (register_view (core st) ''PSTATE_EL'') (if error_translation err = Fetch then 4 else 1)) (to_syndrome err))"
proof -
  let ?v = "register_view (core st)"
  note has = mmu_core_has [OF assms(5)]
  have sctlr: "reg_read E (core st) ''SCTLR_EL1_bits'' 8 = Inr (?v ''SCTLR_EL1_bits'')"
    by (rule mmu_core_read [OF assms(5)]) (simp add: mmu_registers_def)
  obtain el where el: "current_execution_level E (core st) = Inr el"
    using assms(8) by (auto simp: walk_result_def res_simps)
  have h: "has_register (core st) ''_PC'' 8" "has_register (core st) ''PSTATE_EL'' 1" "has_register (core st) ''FAR_EL1'' 8"
      "has_register (core st) ''ELR_EL1'' 8" "has_register (core st) ''ESR_EL1_bits'' 8"
    by (rule has(3), simp add: exception_registers_def)+
  have pc: "?v ''_PC'' < 2 ^ 64" using register_view_less [OF h(1)] by simp
  let ?ctx = "\<lparr>guest_virtual_address = page_base va, execution_level = el\<rparr>"
  have "guest_translate E P D G typ va st = guest_page_fault E P ?ctx err st"
    using cached_translate_walk [OF assms(1-4,8), of P] sctlr assms(4,6) el by (simp add: guest_translate_def enabled_bit)
  moreover obtain st' where st': "guest_page_fault E P ?ctx err st = Inr (st', Restored)" "tlb_coherent E D G st'"
      "\<forall>k n. has_register (core st) k n \<longrightarrow> register_view (core st') k =
          exception_view (if error_translation err = Fetch then 4 else 1) (to_syndrome err) (page_base va)
            (of_nat (?v ''_PC'')) 0 ?v k"
    using page_fault_entry [OF assms(5,2,7) pc, of P ?ctx err] by auto
  moreover note st'(3) [rule_format, OF h(2)] st'(3) [rule_format, OF h(3)] st'(3) [rule_format, OF h(4)] st'(3) [rule_format, OF h(5)]
  ultimately show ?thesis
    using pc by (auto simp: exception_view_def unat_of_nat)
qed

lemma page_fault_no_return:
  "rbind m (\<lambda>el. guest_page_fault E P (ctx el) err st) \<noteq> Inr (st', Returned pa)"
  by (auto simp: guest_page_fault_def Let_def res_simps)

lemma walk_defined:
  assumes al: "pages_aligned D" and co: "tlb_coherent E D G st" and un: "unprivileged_access st = 0"
    and nt: "typ \<noteq> Translate" and ret: "cached_translate E P D G typ va st = Inr x"
  shows "\<exists>r. walk_result E D G typ va st = Inr r"
proof (cases "walk_result E D G typ va st")
  case (Inl e)
  let ?i = "unat (drop_bit 12 va mod 4096)"
  have i: "?i < length (tlb_of typ st)" using co nt by (simp add: tlb_coherent_def unat_mod_distrib)
  have pb: "walk_result E D G typ (page_base va) st = Inl e"
    using Inl walk_result_of_page [OF al, of E G "typ" va st] by (cases "walk_result E D G typ (page_base va) st") auto
  then have "guest_virt_page (tlb_of typ st ! ?i) \<noteq> drop_bit 12 va"
    using tlb_coherentD [OF co nt nth_mem [OF i]] page_number_not_unused [of va] by (auto simp: page_base_def)
  then show ?thesis
    using ret i pb by (simp add: cached_translate_def Let_def raw_translate_walk [OF un nt] page_base_def [symmetric])
qed blast

lemma returned_walk:
  assumes al: "pages_aligned D" and co: "tlb_coherent E D G st" and un: "unprivileged_access st = 0"
    and nt: "typ \<noteq> Translate" and ret: "cached_translate E P D G typ va st = Inr (st', Returned pa)"
  shows "walk_result E D G typ va st = Inr (Inr pa)"
proof -
  obtain r where r: "walk_result E D G typ va st = Inr r" using walk_defined [OF al co un nt ret] by blast
  note walked = cached_translate_walk [OF al co un nt r, of P]
  show ?thesis
  proof (cases r)
    case (Inl err)
    then show ?thesis
      using walked ret page_fault_no_return [of "current_execution_level E (core st)" E P
          "\<lambda>el. \<lparr>guest_virtual_address = page_base va, execution_level = el\<rparr>" err st st' pa] by simp
  next
    case (Inr pa')
    then show ?thesis using walked ret r by auto
  qed
qed

text \<open>The descriptor a walk ends at.\<close>

inductive leaf_of :: "descriptor_ops \<Rightarrow> guest_memory \<Rightarrow> u64 \<Rightarrow> nat \<Rightarrow> u64 \<Rightarrow> nat \<Rightarrow> u64 \<Rightarrow> bool"
  for D :: descriptor_ops and G :: guest_memory and va :: u64 where
  block: "level < 3 \<Longrightarrow> entry = table_entry G table (take_bit 9 (drop_bit (level_shift level) va))
    \<Longrightarrow> is_valid D entry \<Longrightarrow> \<not> is_table_or_page D entry \<Longrightarrow> leaf_of D G va level table level entry"
| page: "entry = table_entry G table (take_bit 9 (drop_bit (level_shift 3) va))
    \<Longrightarrow> is_table_or_page D entry \<Longrightarrow> leaf_of D G va 3 table 3 entry"
| descend: "level < 3 \<Longrightarrow> entry = table_entry G table (take_bit 9 (drop_bit (level_shift level) va))
    \<Longrightarrow> is_valid D entry \<Longrightarrow> is_table_or_page D entry \<Longrightarrow> entry_to_table D G entry = Inr table'
    \<Longrightarrow> leaf_of D G va (level + 1) table' l e \<Longrightarrow> leaf_of D G va level table l e"

lemma walk_leaf:
  assumes "page_walk D G level table ctx typ = Inr (Inr pa)" and "level \<le> 3"
  shows "\<exists>l e. leaf_of D G (guest_virtual_address ctx) level table l e \<and> has_accessed D e
     \<and> permitted D (execution_level ctx) typ e
     \<and> pa = push_bit (level_shift l) (drop_bit (level_shift l) (output_address D e))
            OR take_bit (level_shift l) (guest_virtual_address ctx)"
  using assms
proof (induction D G level table ctx "typ" rule: page_walk.induct)
  case (1 D G level table ctx "typ")
  let ?e = "table_entry G table (take_bit 9 (drop_bit (level_shift level) (guest_virtual_address ctx)))"
  note run = 1(2) [unfolded page_walk.simps [of D G level table] Let_def]
  consider (page) "level = 3" "is_table_or_page D ?e" "leaf_result D level ctx typ ?e = Inr pa"
    | (block) "level < 3" "is_valid D ?e" "\<not> is_table_or_page D ?e" "leaf_result D level ctx typ ?e = Inr pa"
    | (descend) table' where "level < 3" "is_valid D ?e" "is_table_or_page D ?e" "entry_to_table D G ?e = Inr table'"
        "page_walk D G (level + 1) table' ctx typ = Inr (Inr pa)"
    using run 1(3) by (auto simp: res_simps split: if_splits)
  then show ?case
  proof cases
    case page
    then show ?thesis
      by (intro exI [of _ 3] exI [of _ ?e]) (auto simp: leaf_result_def Let_def leaf_of.page split: if_splits)
  next
    case block
    then show ?thesis
      by (intro exI [of _ level] exI [of _ ?e]) (auto simp: leaf_result_def Let_def leaf_of.block split: if_splits)
  next
    case descend
    then have "\<exists>l e. leaf_of D G (guest_virtual_address ctx) (level + 1) table' l e \<and> has_accessed D e
        \<and> permitted D (execution_level ctx) typ e
        \<and> pa = push_bit (level_shift l) (drop_bit (level_shift l) (output_address D e))
               OR take_bit (level_shift l) (guest_virtual_address ctx)"
      using 1(1) [OF refl refl _ _ _ descend(4)] by auto
    with leaf_of.descend [OF descend(1) refl descend(2-4)] show ?thesis by blast
  qed
qed

text \<open>
  C32: EL0 cannot reach a page that is not its own.  With coherent TLBs, whenever a read, write or fetch made at EL0
  returns an address, the guest's tables lead from the base register to a descriptor that is accessed, open to user
  code and, for a write, not read-only, and the address returned lies in the region it maps.
\<close>

theorem el0_isolation:
  assumes "pages_aligned D" and "tlb_coherent E D G st" and "unprivileged_access st = 0" and "typ \<noteq> Translate"
    and "mmu_core_ok (core st)" and "odd (register_view (core st) ''SCTLR_EL1_bits'')"
    and "register_view (core st) ''PSTATE_EL'' = 0"
    and "guest_translate E P D G typ va st = Inr (st', Returned pa)"
  shows "\<exists>table l e. translation_table E G (core st) va = Inr table \<and> leaf_of D G va 1 table l e
     \<and> has_accessed D e \<and> has_user D e \<and> (typ = Write \<longrightarrow> \<not> has_read_only D e)
     \<and> pa = push_bit (level_shift l) (drop_bit (level_shift l) (output_address D e)) OR take_bit (level_shift l) va"
proof -
  have sctlr: "reg_read E (core st) ''SCTLR_EL1_bits'' 8 = Inr (register_view (core st) ''SCTLR_EL1_bits'')"
    by (rule mmu_core_read [OF assms(5)]) (simp add: mmu_registers_def)
  have "reg_read E (core st) ''PSTATE_EL'' 1 = Inr 0"
    unfolding assms(7) [symmetric] by (rule mmu_core_read [OF assms(5)]) (simp add: exception_registers_def)
  then have el: "current_execution_level E (core st) = Inr EL0"
    by (simp only: current_execution_level_def rbind_Inr if_True simp_thms)
  have "cached_translate E P D G typ va st = Inr (st', Returned pa)"
    using assms(4,6,8) sctlr by (simp add: guest_translate_def enabled_bit)
  then have "walk_result E D G typ va st = Inr (Inr pa)" by (rule returned_walk [OF assms(1-4)])
  then obtain table where t: "translation_table E G (core st) va = Inr table"
      "page_walk D G 1 table \<lparr>guest_virtual_address = va, execution_level = EL0\<rparr> typ = Inr (Inr pa)"
    by (auto simp: walk_result_def el l1_walk [OF assms(1)] res_simps)
  from walk_leaf [OF t(2)] t(1) show ?thesis by (auto simp: permitted_def)
qed

section \<open>Examples\<close>

text \<open>
  Descriptors with the bits of the architecture, and a guest whose one table maps the first gigabyte as a block for EL1,
  and the second for EL0 as well.
\<close>

definition sample_descriptor :: descriptor_ops where
  "sample_descriptor = \<lparr>is_valid = (\<lambda>d. bit d 0), is_table_or_page = (\<lambda>d. bit d 0 \<and> bit d 1), has_accessed = (\<lambda>d. bit d 10),
     has_user = (\<lambda>d. bit d 6), has_read_only = (\<lambda>d. bit d 7), output_address = (\<lambda>d. d AND 0x0000fffffffff000)\<rparr>"

definition sample_guest :: guest_memory where
  "sample_guest = \<lparr>virt_add = (\<lambda>a b. Inr (a + b)),
     load64 = (\<lambda>a. if a = GUEST_PHYSICAL_START then 0x401 else if a = GUEST_PHYSICAL_START + 8 then 0x80000441 else 0)\<rparr>"

text \<open>The state of \<open>sample_mmu\<close> with the MMU on, at a given level, after a write to page 0 if that is EL1.\<close>

definition sample_running :: "u8 \<Rightarrow> u64 \<Rightarrow> (u64 \<times> page_table_flag set) mmu_state" where
  "sample_running el unprivileged = sample_mmu\<lparr>core := sample_core\<lparr>inner := (replicate 160 0)[64 := el, 128 := 1]\<rparr>,
     wtlb := (replicate 4096 tlb_entry_new)
       [0 := if el = 1 then \<lparr>guest_virt_page = 0, guest_phys_page = 0\<rparr> else tlb_entry_new],
     unprivileged_access := unprivileged\<rparr>"

lemma sample_aligned: "pages_aligned sample_descriptor"
proof -
  have "take_bit 12 (d AND 0x0000fffffffff000 :: u64) = 0" for d
    by (simp add: take_bit_and)
  then show ?thesis by (simp add: pages_aligned_def sample_descriptor_def)
qed

lemma sample_running_core: "core (sample_running el u) = sample_core\<lparr>inner := (replicate 160 0)[64 := el, 128 := 1]\<rparr>"
  by (simp add: sample_running_def)

lemma sample_core_mmu: "mmu_core_ok sample_core"
proof -
  have "list_all (\<lambda>(name, n). has_register sample_core name n) mmu_registers"
    by (simp add: mmu_registers_def has_register_def sample_core_def slots_def exception_registers_def enumerate_eq_zip)
  with sample_core_ok show ?thesis by (simp add: mmu_core_ok_def)
qed

lemma mmu_core_inner: "length bs = length (inner rf) \<Longrightarrow> mmu_core_ok (rf\<lparr>inner := bs\<rparr>) = mmu_core_ok rf"
  by (simp add: mmu_core_ok_def exception_state_ok_def layout_ok_def has_register_def)

lemma sample_running_ok: "mmu_core_ok (core (sample_running el u))"
  unfolding sample_running_core using sample_core_mmu
  by (subst mmu_core_inner) (simp_all add: sample_core_def Let_def)

lemma sample_offsets:
  "map_of (rf_registers sample_core) ''PSTATE_EL'' = Some (64, 1)"
  "map_of (rf_registers sample_core) ''SCTLR_EL1_bits'' = Some (128, 8)"
  "map_of (rf_registers sample_core) ''_TTBR0_EL1_bits'' = Some (136, 8)"
  "map_of (rf_registers sample_core) ''_TTBR1_EL1_bits'' = Some (144, 8)"
  "map_of (rf_registers sample_core) ''VBAR_EL1'' = Some (112, 8)"
  by (simp_all add: sample_core_def slots_def exception_registers_def enumerate_eq_zip)

lemma sample_running_view:
  "register_view (core (sample_running el u)) ''PSTATE_EL'' = unat el"
  "register_view (core (sample_running el u)) ''SCTLR_EL1_bits'' = 1"
  "register_view (core (sample_running el u)) ''_TTBR0_EL1_bits'' = 0"
  "register_view (core (sample_running el u)) ''_TTBR1_EL1_bits'' = 0"
  "register_view (core (sample_running el u)) ''VBAR_EL1'' = 0"
  unfolding register_view_def sample_running_core
  by (simp_all add: sample_offsets take_update_swap drop_update_swap) (simp_all add: eval_nat_numeral)

lemma sample_running_reads:
  "reg_read E (core (sample_running el u)) ''PSTATE_EL'' 1 = Inr (unat el)"
  "reg_read E (core (sample_running el u)) ''SCTLR_EL1_bits'' 8 = Inr 1"
  "reg_read E (core (sample_running el u)) ''_TTBR0_EL1_bits'' 8 = Inr 0"
  "reg_read E (core (sample_running el u)) ''_TTBR1_EL1_bits'' 8 = Inr 0"
  by (subst mmu_core_read [OF sample_running_ok],
      simp add: exception_registers_def mmu_registers_def, simp add: sample_running_view)+

lemma sample_table: "translation_table E sample_guest (core (sample_running el u)) va = Inr GUEST_PHYSICAL_START"
  by (simp add: translation_table_def sample_running_reads guest_physical_to_host_virt_def sample_guest_def)

lemma sample_level:
  "current_execution_level E (core (sample_running 0 u)) = Inr EL0"
  "current_execution_level E (core (sample_running 1 u)) = Inr EL1"
  by (simp_all only: current_execution_level_def sample_running_reads rbind_Inr) simp_all

lemma sample_walks:
  "translate_l1 sample_descriptor sample_guest GUEST_PHYSICAL_START \<lparr>guest_virtual_address = 0, execution_level = EL1\<rparr> Write
     = Inr (Inr 0)"
  "translate_l1 sample_descriptor sample_guest GUEST_PHYSICAL_START \<lparr>guest_virtual_address = 0x10, execution_level = EL1\<rparr> Write
     = Inr (Inr 0x10)"
  "translate_l1 sample_descriptor sample_guest GUEST_PHYSICAL_START \<lparr>guest_virtual_address = 0x10, execution_level = EL0\<rparr> Write
     = Inr (Inl \<lparr>fault_level = L1, fault_type = Permission, error_translation = Write\<rparr>)"
  "translate_l1 sample_descriptor sample_guest GUEST_PHYSICAL_START \<lparr>guest_virtual_address = 0x40000010, execution_level = EL0\<rparr> Read
     = Inr (Inr 0x80000010)"
  by (simp_all add: translate_l1_def sample_descriptor_def sample_guest_def table_entry_def has_permission_def bit_numeral_simps
      GUEST_PHYSICAL_START_def Let_def)

lemma sample_running_tlb: "tlb_of typ (sample_running el u) =
    (replicate 4096 tlb_entry_new)
      [0 := if el = 1 \<and> typ = Write then \<lparr>guest_virt_page = 0, guest_phys_page = 0\<rparr> else tlb_entry_new]"
proof -
  have "(replicate 4096 tlb_entry_new)[0 := tlb_entry_new] = replicate 4096 tlb_entry_new"
    by (rule list_update_same_conv [THEN iffD2]) simp_all
  then show ?thesis by (cases "typ") (simp_all add: sample_running_def sample_mmu_def)
qed

lemma sample_running_coherent: "el = 0 \<or> el = 1 \<Longrightarrow> tlb_coherent E sample_descriptor sample_guest (sample_running el u)"
proof -
  assume el: "el = 0 \<or> el = 1"
  have "walk_result E sample_descriptor sample_guest typ (push_bit 12 (guest_virt_page e)) (sample_running el u)
      = Inr (Inr (guest_phys_page e))"
    if "e \<in> set (tlb_of typ (sample_running el u))" "guest_virt_page e \<noteq> - 1" for e "typ"
  proof -
    have "el = 1 \<and> typ = Write \<and> e = \<lparr>guest_virt_page = 0, guest_phys_page = 0\<rparr>"
      using that set_update_subset_insert [of "replicate 4096 tlb_entry_new" 0]
      by (auto simp: sample_running_tlb tlb_entry_new_def split: if_splits dest!: subsetD [OF set_update_subset_insert])
    then show ?thesis by (simp add: walk_result_def sample_table sample_level sample_walks)
  qed
  then show ?thesis by (simp add: tlb_coherent_def sample_running_tlb)
qed

theorem translate_l1_is_page_walk_witness:
  "page_walk sample_descriptor sample_guest 1 GUEST_PHYSICAL_START
     \<lparr>guest_virtual_address = 0x40000010, execution_level = EL0\<rparr> Read = Inr (Inr 0x80000010)"
  using translate_l1_is_page_walk [OF sample_aligned, of sample_guest GUEST_PHYSICAL_START
      "\<lparr>guest_virtual_address = 0x40000010, execution_level = EL0\<rparr>" Read] by (simp add: sample_walks)

theorem tlb_transparent_witness:
  "\<exists>st'. guest_translate sample_env sample_pte sample_descriptor sample_guest Write 0x10 (sample_running 1 0)
     = Inr (st', Returned 0x10)"
proof -
  have un: "unprivileged_access (sample_running 1 0) = 0" by (simp add: sample_running_def)
  have w: "walk_result sample_env sample_descriptor sample_guest Write 0x10 (sample_running 1 0) = Inr (Inr 0x10)"
    by (simp add: walk_result_def sample_table sample_level sample_walks)
  show ?thesis
    using tlb_transparent [OF sample_aligned sample_running_coherent un _ sample_running_reads(2) _ w, of sample_pte]
    by auto
qed

theorem translation_fault_witness:
  "\<exists>st'. guest_translate sample_env sample_pte sample_descriptor sample_guest Write 0x10 (sample_running 0 0) = Inr (st', Restored)
     \<and> register_view (core st') ''FAR_EL1'' = 0 \<and> register_view (core st') ''ESR_EL1_bits'' = 0x9200004D"
proof -
  have un: "unprivileged_access (sample_running 0 0) = 0" by (simp add: sample_running_def)
  have w: "walk_result sample_env sample_descriptor sample_guest Write 0x10 (sample_running 0 0)
      = Inr (Inl \<lparr>fault_level = L1, fault_type = Permission, error_translation = Write\<rparr>)"
    by (simp add: walk_result_def sample_table sample_level sample_walks)
  show ?thesis
    using translation_fault [OF sample_aligned sample_running_coherent un _ sample_running_ok _ _ w, of sample_pte]
    by (auto simp: sample_running_view page_base_def esr_value_def exception_class_def to_syndrome_def)
qed

theorem el0_isolation_witness:
  "\<exists>l e. leaf_of sample_descriptor sample_guest 0x40000010 1 GUEST_PHYSICAL_START l e \<and> has_user sample_descriptor e"
proof -
  have un: "unprivileged_access (sample_running 0 0) = 0" by (simp add: sample_running_def)
  have "walk_result sample_env sample_descriptor sample_guest Read 0x40000010 (sample_running 0 0) = Inr (Inr 0x80000010)"
    by (simp add: walk_result_def sample_table sample_level sample_walks)
  from cached_translate_walk [OF sample_aligned sample_running_coherent un _ this, of sample_pte]
  obtain st' where "guest_translate sample_env sample_pte sample_descriptor sample_guest Read 0x40000010 (sample_running 0 0)
      = Inr (st', Returned 0x80000010)"
    by (auto simp: guest_translate_def sample_running_reads)
  from el0_isolation [OF sample_aligned sample_running_coherent un _ sample_running_ok _ _ this] show ?thesis
    by (auto simp: sample_running_view sample_table)
qed

text \<open>
  The TLB does not remember the level.  At EL1, a store that must be made with the rights of EL0 and hits the entry
  of an earlier EL1 store gets the address although the walk at EL0 refuses it, and the flag stays set; the
  code takes the flag into account only when it walks the tables.
\<close>

theorem unprivileged_hit_skips_check:
  "let st = sample_running 1 1 in
   tlb_coherent sample_env sample_descriptor sample_guest st
   \<and> guest_translate sample_env sample_pte sample_descriptor sample_guest Write 0x10 st = Inr (st, Returned 0x10)
   \<and> unprivileged_access st = 1
   \<and> translation_table sample_env sample_guest (core st) 0x10 = Inr GUEST_PHYSICAL_START
   \<and> translate_l1 sample_descriptor sample_guest GUEST_PHYSICAL_START \<lparr>guest_virtual_address = 0x10, execution_level = EL0\<rparr> Write
       = Inr (Inl \<lparr>fault_level = L1, fault_type = Permission, error_translation = Write\<rparr>)"
proof -
  have "tlb_of Write (sample_running 1 1) ! 0 = \<lparr>guest_virt_page = 0, guest_phys_page = 0\<rparr>"
    by (simp only: sample_running_tlb) simp
  then have "guest_translate sample_env sample_pte sample_descriptor sample_guest Write 0x10 (sample_running 1 1)
      = Inr (sample_running 1 1, Returned 0x10)"
    by (simp add: guest_translate_def sample_running_reads cached_translate_def sample_running_tlb)
  then show ?thesis
    by (simp add: Let_def sample_running_coherent sample_table sample_walks) (simp add: sample_running_def)
qed

end
