(* ===== verification/Address_Space.thy ===== *)
theory Address_Space
  imports Rust_Arith
begin

text \<open>
  The guest's physical address space, \<open>brig/common/src/memory.rs\<close>: regions keyed by their base.  The
  ordered map of the code is the list of its entries in ascending order of keys.  Nothing checks
  that regions do not overlap; when they do not, a lookup finds the region that
  holds the address.
\<close>

section \<open>Regions\<close>

datatype 'd region_kind = Ram | IO 'd

record 'd region =
  region_name :: string
  region_base :: u64
  region_size :: u64
  region_kind :: "'d region_kind"

type_synonym 'd address_space = "(u64 \<times> 'd region) list"

definition address_space_new :: "'d address_space" where
  "address_space_new = []"

definition add_region :: "'d region \<Rightarrow> 'd address_space \<Rightarrow> 'd address_space" where
  "add_region r regions =
     takeWhile (\<lambda>(k, _). k < region_base r) regions @ (region_base r, r) # dropWhile (\<lambda>(k, _). k \<le> region_base r) regions"

definition find_region :: "rust_env \<Rightarrow> 'd address_space \<Rightarrow> u64 \<Rightarrow> 'd region option res" where
  "find_region E regions address =
     (case rev (takeWhile (\<lambda>(k, _). k \<le> address) regions) of
        [] \<Rightarrow> Inr None
      | (_, r) # _ \<Rightarrow>
          if region_base r \<le> address then
            rbind (u64_add E (region_base r) (region_size r)) (\<lambda>limit. Inr (if address < limit then Some r else None))
          else Inr None)"

section \<open>Lookup\<close>

definition space_ok :: "'d address_space \<Rightarrow> bool" where
  "space_ok regions \<longleftrightarrow> sorted_wrt (\<lambda>(k, _) (k', _). k < k') regions \<and> (\<forall>(k, r) \<in> set regions. k = region_base r)"

definition holds_address :: "'d region \<Rightarrow> u64 \<Rightarrow> bool" where
  "holds_address r a \<longleftrightarrow> unat (region_base r) \<le> unat a \<and> unat a < unat (region_base r) + unat (region_size r)"

definition regions_apart :: "'d region list \<Rightarrow> bool" where
  "regions_apart rs \<longleftrightarrow> (\<forall>r \<in> set rs. 0 < region_size r \<and> unat (region_base r) + unat (region_size r) < 2 ^ 64)
     \<and> sorted_wrt (\<lambda>r r'. \<forall>a. \<not> (holds_address r a \<and> holds_address r' a)) rs"

lemma sorted_takeWhile:
  assumes "sorted_wrt (\<lambda>(k, _) (k', _). k < k') (xs :: ('k :: linorder \<times> 'v) list)"
  shows "takeWhile (\<lambda>(k, _). k < b) xs = filter (\<lambda>(k, _). k < b) xs"
    and "takeWhile (\<lambda>(k, _). k \<le> b) xs = filter (\<lambda>(k, _). k \<le> b) xs"
    and "dropWhile (\<lambda>(k, _). k \<le> b) xs = filter (\<lambda>(k, _). b < k) xs"
proof -
  have "takeWhile (\<lambda>(k, _). k < b) xs = filter (\<lambda>(k, _). k < b) xs
      \<and> takeWhile (\<lambda>(k, _). k \<le> b) xs = filter (\<lambda>(k, _). k \<le> b) xs
      \<and> dropWhile (\<lambda>(k, _). k \<le> b) xs = filter (\<lambda>(k, _). b < k) xs"
    using assms
  proof (induction xs)
    case (Cons x xs)
    obtain k v where x: "x = (k, v)" by (cases x)
    have later: "k < k'" if "(k', v') \<in> set xs" for k' v' using Cons.prems that by (auto simp: x)
    have "filter (\<lambda>(k, _). k < b) xs = []" if "\<not> k < b"
      using that later by (fastforce simp: filter_empty_conv)
    moreover have "filter (\<lambda>(k, _). k \<le> b) xs = []" "filter (\<lambda>(k, _). b < k) xs = xs" if "\<not> k \<le> b"
      using that later by (fastforce simp: filter_empty_conv filter_id_conv)+
    ultimately show ?case using Cons by (auto simp: x)
  qed simp
  then show "takeWhile (\<lambda>(k, _). k < b) xs = filter (\<lambda>(k, _). k < b) xs"
    and "takeWhile (\<lambda>(k, _). k \<le> b) xs = filter (\<lambda>(k, _). k \<le> b) xs"
    and "dropWhile (\<lambda>(k, _). k \<le> b) xs = filter (\<lambda>(k, _). b < k) xs" by blast+
qed

lemma add_region_filter:
  "space_ok regions \<Longrightarrow> add_region r regions =
     filter (\<lambda>(k, _). k < region_base r) regions @ (region_base r, r) # filter (\<lambda>(k, _). region_base r < k) regions"
  by (simp add: add_region_def space_ok_def sorted_takeWhile)

lemma add_region_ok:
  assumes "space_ok regions"
  shows "space_ok (add_region r regions)"
    and "set (add_region r regions) = insert (region_base r, r) {(k, r') \<in> set regions. k \<noteq> region_base r}"
  using assms unfolding add_region_filter [OF assms]
  by (auto simp: space_ok_def sorted_wrt_append intro!: sorted_wrt_filter)

lemma apart_bases:
  assumes "regions_apart rs" and "r \<in> set rs" and "r' \<in> set rs" and "holds_address r a" and "holds_address r' a"
  shows "r = r'"
proof (rule ccontr)
  assume ne: "r \<noteq> r'"
  obtain i j where ij: "i < length rs" "rs ! i = r" "j < length rs" "rs ! j = r'"
    using assms(2,3) by (metis in_set_conv_nth)
  have sw: "sorted_wrt (\<lambda>r r'. \<forall>a. \<not> (holds_address r a \<and> holds_address r' a)) rs"
    using assms(1) by (simp add: regions_apart_def)
  from ne ij have "i < j \<or> j < i" by (metis linorder_neqE_nat)
  then show False
    using sorted_wrt_nth_less [OF sw, of i j] sorted_wrt_nth_less [OF sw, of j i] ij assms(4,5) by blast
qed

lemma holds_base: "regions_apart rs \<Longrightarrow> r \<in> set rs \<Longrightarrow> holds_address r (region_base r)"
  by (auto simp: regions_apart_def holds_address_def unat_gt_0 word_neq_0_conv [symmetric])

lemma add_all_regions:
  assumes "regions_apart rs"
  shows "space_ok (fold add_region rs address_space_new)
     \<and> set (fold add_region rs address_space_new) = (\<lambda>r. (region_base r, r)) ` set rs"
proof -
  have inj: "inj_on region_base (set rs)"
    using assms apart_bases holds_base by (metis (no_types, lifting) inj_onI)
  have "space_ok (fold add_region qs sp)
      \<and> set (fold add_region qs sp) = (\<lambda>r. (region_base r, r)) ` (set qs \<union> ps)"
    if "space_ok sp" "set sp = (\<lambda>r. (region_base r, r)) ` ps" "set qs \<union> ps \<subseteq> set rs" for qs sp ps
    using that
  proof (induction qs arbitrary: sp ps)
    case (Cons q qs)
    have "{(k, r') \<in> set sp. k \<noteq> region_base q} = (\<lambda>r. (region_base r, r)) ` (ps - {q})"
      using Cons.prems(2,3) inj by (auto simp: inj_on_def)
    then have "set (add_region q sp) = (\<lambda>r. (region_base r, r)) ` (insert q ps)"
      using add_region_ok(2) [OF Cons.prems(1), of q] by auto
    then show ?case
      using Cons.IH [OF add_region_ok(1) [OF Cons.prems(1)], of q "insert q ps"] Cons.prems(3) by simp
  qed simp
  from this [of address_space_new "{}" rs] show ?thesis by (simp add: address_space_new_def space_ok_def)
qed

text \<open>
  C19: in an address space built from non-empty regions that do not overlap and end below \<open>2 ^ 64\<close>, in any order, a lookup finds the
  region that holds the address, and finds none exactly when no region does.
\<close>

theorem find_region_correct:
  assumes "regions_apart rs"
  shows "\<exists>found. find_region E (fold add_region rs address_space_new) a = Inr found
     \<and> (\<forall>r. found = Some r \<longleftrightarrow> r \<in> set rs \<and> holds_address r a)"
proof -
  let ?sp = "fold add_region rs address_space_new" let ?below = "filter (\<lambda>(k, _). k \<le> a) ?sp"
  note sp = add_all_regions [OF assms]
  have below: "takeWhile (\<lambda>(k, _). k \<le> a) ?sp = ?below" using sp by (simp add: space_ok_def sorted_takeWhile)
  show ?thesis
  proof (cases "rev ?below")
    case Nil
    have "\<not> holds_address r a" if "r \<in> set rs" for r
      using that Nil sp by (auto simp: filter_empty_conv holds_address_def word_le_nat_alt)
    with Nil show ?thesis by (auto simp: find_region_def below)
  next
    case (Cons kr before)
    obtain k r where kr: "kr = (k, r)" by (cases kr)
    have split: "?below = rev before @ [(k, r)]" using Cons kr by (metis rev.simps(2) rev_rev_ident)
    then have "(k, r) \<in> set ?below" by simp
    then have r: "r \<in> set rs" "k = region_base r" "region_base r \<le> a" using sp by auto
    have fits: "unat (region_base r) + unat (region_size r) < 2 ^ 64" using assms r(1) by (simp add: regions_apart_def)
    have "find_region E ?sp a = Inr (if a < region_base r + region_size r then Some r else None)"
      using Cons r(3) fits by (simp add: find_region_def below kr u64_add_def)
    moreover have iff: "a < region_base r + region_size r \<longleftrightarrow> holds_address r a"
      using r(3) fits by (simp add: holds_address_def word_le_nat_alt word_less_nat_alt unat_word_ariths)
    moreover have only: "r' = r" if "r' \<in> set rs" "holds_address r' a" for r'
    proof -
      have "(region_base r', r') \<in> set ?below"
        using that sp by (auto simp: holds_address_def word_le_nat_alt)
      then have "(region_base r', r') \<in> set (rev before @ [(k, r)])" using split by simp
      moreover have "sorted_wrt (\<lambda>(k, _) (k', _). k < k') (rev before @ [(k, r)])"
        using sp sorted_wrt_filter unfolding split [symmetric] by (auto simp: space_ok_def)
      ultimately have "r' = r \<or> region_base r' < region_base r"
        using r(2) by (auto simp: sorted_wrt_append)
      moreover have "holds_address r' (region_base r)" if "region_base r' < region_base r"
        using that \<open>holds_address r' a\<close> r(3) by (simp add: holds_address_def word_le_nat_alt word_less_nat_alt)
      ultimately show ?thesis
        using apart_bases [OF assms \<open>r' \<in> set rs\<close> r(1)] holds_base [OF assms r(1)] by blast
    qed
    moreover have "(if a < region_base r + region_size r then Some r else None) = Some r' \<longleftrightarrow> r' \<in> set rs \<and> holds_address r' a" for r'
      using only [of r'] r(1) iff by auto
    ultimately show ?thesis by blast
  qed
qed

definition sample_regions :: "nat region list" where
  "sample_regions = [\<lparr>region_name = ''ram'', region_base = 0x80000000, region_size = 0x10000000, region_kind = Ram\<rparr>,
     \<lparr>region_name = ''uart'', region_base = 0x3c000000, region_size = 0x1000, region_kind = IO 0\<rparr>]"

theorem find_region_correct_witness:
  "find_region sample_env (fold add_region sample_regions address_space_new) 0x3c000010
     = Inr (Some \<lparr>region_name = ''uart'', region_base = 0x3c000000, region_size = 0x1000, region_kind = IO 0\<rparr>)"
proof -
  have "regions_apart sample_regions"
    by (simp add: regions_apart_def sample_regions_def holds_address_def)
  then obtain found where f: "find_region sample_env (fold add_region sample_regions address_space_new) 0x3c000010 = Inr found"
      "\<forall>r. found = Some r \<longleftrightarrow> r \<in> set sample_regions \<and> holds_address r 0x3c000010"
    using find_region_correct by blast
  let ?uart = "\<lparr>region_name = ''uart'', region_base = 0x3c000000, region_size = 0x1000, region_kind = IO 0\<rparr>"
  have "found = Some ?uart"
    using f(2) [rule_format, of ?uart] by (simp add: sample_regions_def holds_address_def)
  with f(1) show ?thesis by simp
qed

text \<open>
  A region placed inside another hides the outer one from its own base on, also past the inner region's end.
\<close>

theorem nested_region_hides_outer:
  "let outer = \<lparr>region_name = ''ram'', region_base = 0, region_size = 0x10000, region_kind = Ram\<rparr>;
       nested = \<lparr>region_name = ''uart'', region_base = 0x1000, region_size = 0x1000, region_kind = IO (0 :: nat)\<rparr> in
   holds_address outer 0x3000
   \<and> find_region sample_env (fold add_region [outer, nested] address_space_new) 0x3000 = Inr None"
  by (simp add: Let_def holds_address_def find_region_def add_region_def address_space_new_def u64_add_def)

end
