(* ===== verification/Page_Fault.thy ===== *)
theory Page_Fault
  imports Mmu Address_Space
begin

text \<open>
  The host's page fault handler, \<open>brig/brig/src/page_fault_handler.rs\<close>, which builds the host mappings of
  guest pages on demand: a fault at a guest address is translated by the guest's MMU, backed with a host
  frame the first time its guest physical page is touched, and mapped.  Accesses to device regions are decoded and
  passed to the device.  The decoder (\<open>iced_x86\<close>), the devices and the mapping of the guest
  physical window in the host's upper half (\<open>x86_64\<close>'s mapper) are parameters.
\<close>

unbundle bit_operations_syntax

section \<open>Device accesses\<close>

record machine_context =
  ctx_rax :: u64
  ctx_rcx :: u64
  ctx_rip :: u64

datatype decoded_register = Reg_CL | Reg_CX | Reg_ECX | Reg_AL | Reg_AX | Reg_EAX | Reg_other nat

datatype decoded_op_kind = Op_Register | Op_Immediate8 | Op_Immediate8_2nd | Op_Immediate16 | Op_Immediate32 | Op_Immediate64
  | Op_Immediate8to16 | Op_Immediate8to32 | Op_Immediate8to64 | Op_Immediate32to64 | Op_other

datatype decoded_code = Mov_r32_rm32 | Mov_r16_rm16 | Code_other

record decoded_instruction =
  op1_kind :: decoded_op_kind
  op1_register :: decoded_register
  op1_immediate :: u64
  op0_register :: decoded_register
  op0_size :: "nat option" \<comment> \<open>1, 2, 4 or 8 for a general purpose register\<close>
  decoded_code :: decoded_code
  decoded_len :: u64

definition write_source :: "decoded_instruction \<Rightarrow> machine_context \<Rightarrow> (u64 \<times> nat) res" where
  "write_source i c =
     (case op1_kind i of
        Op_Register \<Rightarrow> (case op1_register i of
            Reg_CL \<Rightarrow> Inr (ctx_rcx c, 1) | Reg_CX \<Rightarrow> Inr (ctx_rcx c, 2) | Reg_ECX \<Rightarrow> Inr (ctx_rcx c, 4)
          | Reg_AL \<Rightarrow> Inr (ctx_rax c, 1) | Reg_AX \<Rightarrow> Inr (ctx_rax c, 2) | Reg_EAX \<Rightarrow> Inr (ctx_rax c, 4)
          | Reg_other _ \<Rightarrow> Inl ExplicitPanic)
      | Op_Immediate8 \<Rightarrow> Inr (op1_immediate i, 1)
      | Op_Immediate8_2nd \<Rightarrow> Inr (op1_immediate i, 1)
      | Op_Immediate16 \<Rightarrow> Inr (op1_immediate i, 2)
      | Op_Immediate32 \<Rightarrow> Inr (op1_immediate i, 4)
      | Op_Immediate64 \<Rightarrow> Inr (op1_immediate i, 8)
      | Op_Immediate8to16 \<Rightarrow> Inr (op1_immediate i, 2)
      | Op_Immediate8to32 \<Rightarrow> Inr (op1_immediate i, 4)
      | Op_Immediate8to64 \<Rightarrow> Inr (op1_immediate i, 8)
      | Op_Immediate32to64 \<Rightarrow> Inr (op1_immediate i, 8)
      | Op_other \<Rightarrow> Inl ExplicitPanic)"

definition read_dest :: "decoded_instruction \<Rightarrow> (decoded_register \<times> nat) res" where
  "read_dest i =
     (case decoded_code i of
        Code_other \<Rightarrow> Inl ExplicitPanic
      | _ \<Rightarrow> (case op0_size i of None \<Rightarrow> Inl ExplicitPanic | Some n \<Rightarrow> Inr (op0_register i, n)))"

definition store_read :: "decoded_register \<Rightarrow> u8 list \<Rightarrow> machine_context \<Rightarrow> machine_context res" where
  "store_read dest bytes c =
     (case dest of
        Reg_EAX \<Rightarrow> if 4 \<le> length bytes then Inr (c\<lparr>ctx_rax := of_nat (from_le (take 4 bytes))\<rparr>) else Inl IndexOutOfBounds
      | Reg_AX \<Rightarrow>
          if 2 \<le> length bytes
          then Inr (c\<lparr>ctx_rax := (ctx_rax c AND 0xFFFFFFFFFFFF0000) OR of_nat (from_le (take 2 bytes))\<rparr>)
          else Inl IndexOutOfBounds
      | _ \<Rightarrow> Inl ExplicitPanic)"

record ('d, 's) device_ops =
  device_read :: "'d \<Rightarrow> u64 \<Rightarrow> nat \<Rightarrow> 's \<Rightarrow> ('s \<times> u8 list) res"
  device_write :: "'d \<Rightarrow> u64 \<Rightarrow> u8 list \<Rightarrow> 's \<Rightarrow> 's res"

definition handle_emulated_guest_io_access :: "rust_env \<Rightarrow> ('d, 's) device_ops \<Rightarrow> decoded_instruction \<Rightarrow> u64 \<Rightarrow> bool
    \<Rightarrow> 'd region \<Rightarrow> 'd \<Rightarrow> machine_context \<times> 's \<Rightarrow> (machine_context \<times> 's) res" where
  "handle_emulated_guest_io_access E V i guest_physical is_write rgn dev = (\<lambda>(c, s).
     rbind (u64_sub E guest_physical (region_base rgn)) (\<lambda>offset.
     rbind (if is_write then
              rbind (write_source i c) (\<lambda>(v, size).
              rbind (device_write V dev offset (le_bytes size (unat v)) s) (\<lambda>s. Inr (c, s)))
            else
              rbind (read_dest i) (\<lambda>(dest, size).
              rbind (device_read V dev offset size s) (\<lambda>(s, bytes).
              rbind (store_read dest bytes c) (\<lambda>c. Inr (c, s))))) (\<lambda>(c, s).
     rbind (u64_add E (ctx_rip c) (decoded_len i)) (\<lambda>rip. Inr (c\<lparr>ctx_rip := rip\<rparr>, s)))))"

section \<open>Memory accesses\<close>

datatype stale_page_mode = EPT | SoftwareFullFlush | SoftwareTargetedFlush | NoStalePages

text \<open>
  The host's mapper, on its own state (the guest physical window in the upper half), and its physical addresses.
  \<open>map_page\<close> hands \<open>map_to\<close> the allocator that takes its frames from the heap
  (\<open>HeapStealingFrameAllocator\<close>, \<open>memory.rs\<close>), so \<open>map_to\<close> is given the heap's free pages and
  returns those it left.
\<close>

record 'm mapper =
  translate_addr :: "'m \<Rightarrow> u64 \<Rightarrow> u64 option"
  map_to :: "'m \<Rightarrow> u64 \<Rightarrow> u64 \<Rightarrow> u64 list \<Rightarrow> ('m \<times> u64 list) res"
  phys_add :: "u64 \<Rightarrow> u64 \<Rightarrow> u64 res"

record ('e, 'm, 's) fault_state =
  mmu :: "'e mmu_state"
  window :: 'm
  stale_code_pages :: "u64 list"
  fault_context :: machine_context
  devices :: 's

datatype fault_outcome = Handled | Left

definition align_down_page :: "u64 \<Rightarrow> u64" where
  "align_down_page a = a AND NOT 0xFFF"

definition VIRT_GUEST_EMULATED_GUEST_PHYSICAL_START :: u64 where
  "VIRT_GUEST_EMULATED_GUEST_PHYSICAL_START = 0x4000000000"

definition backed_state :: "'m \<Rightarrow> u64 list \<Rightarrow> ('e, 'm, 's) fault_state \<Rightarrow> ('e, 'm, 's) fault_state" where
  "backed_state w h st = st\<lparr>mmu := (mmu st)\<lparr>host := (host (mmu st))\<lparr>heap := h\<rparr>\<rparr>, window := w\<rparr>"

definition allocate_and_map_emulated_guest_physical_memory ::
    "rust_env \<Rightarrow> stale_page_mode \<Rightarrow> 'e pte_ops \<Rightarrow> guest_memory \<Rightarrow> 'm mapper \<Rightarrow> u64 \<Rightarrow> ('e, 'm, 's) fault_state
      \<Rightarrow> (('e, 'm, 's) fault_state \<times> u64) res" where
  "allocate_and_map_emulated_guest_physical_memory E mode P G M guest_physical st =
     rbind (if mode = EPT then
              rbind (phys_add M VIRT_GUEST_EMULATED_GUEST_PHYSICAL_START guest_physical) (\<lambda>a. Inr (st, align_down_page a))
            else rbind (allocate_frame E P (host (mmu st))) (\<lambda>(h, frame).
                 Inr (st\<lparr>mmu := (mmu st)\<lparr>host := h\<rparr>\<rparr>, frame))) (\<lambda>(st, backing_page).
     rbind (virt_add G GUEST_PHYSICAL_START guest_physical) (\<lambda>v.
     rbind (map_to M (window st) (align_down_page v) backing_page (heap (host (mmu st)))) (\<lambda>(w, h).
     Inr (backed_state w h st, backing_page))))"

definition unmasked_address :: "u64 \<Rightarrow> u64" where
  "unmasked_address faulting = signed_drop_bit 24 (push_bit 24 faulting)"

text \<open>The end of the handler: in the software modes a write to a page that was already backed makes its code stale.\<close>

definition map_faulting_page :: "rust_env \<Rightarrow> stale_page_mode \<Rightarrow> 'e pte_ops \<Rightarrow> u64 \<Rightarrow> bool \<Rightarrow> u64 \<Rightarrow> bool
    \<Rightarrow> ('e, 'm, 's) fault_state \<Rightarrow> (('e, 'm, 's) fault_state \<times> fault_outcome) res" where
  "map_faulting_page E mode P faulting is_write backing_page present st =
     rbind (if is_write \<and> present \<and> (mode = SoftwareFullFlush \<or> mode = SoftwareTargetedFlush) then
              rbind (release_smc_protection E P faulting (host (mmu st))) (\<lambda>h.
              Inr (st\<lparr>mmu := (mmu st)\<lparr>host := h\<rparr>, stale_code_pages := stale_code_pages st @ [backing_page]\<rparr>))
            else Inr st) (\<lambda>st.
     let flags = (if is_write then {PRESENT, WRITABLE} else {PRESENT}) in
     rbind (rbind (if take_bit 12 backing_page = 0 then Inr backing_page else Inl UnwrapFailed) (\<lambda>frame.
            map_page_propagate_invalidation E P (align_down_page faulting) frame flags (host (mmu st)))) (\<lambda>h.
     Inr (st\<lparr>mmu := (mmu st)\<lparr>host := h\<rparr>\<rparr>, Handled)))"

definition handle_emulated_guest_virtual_memory_fault ::
    "rust_env \<Rightarrow> stale_page_mode \<Rightarrow> 'e pte_ops \<Rightarrow> descriptor_ops \<Rightarrow> guest_memory \<Rightarrow> 'm mapper \<Rightarrow> ('d, 's) device_ops
      \<Rightarrow> decoded_instruction \<Rightarrow> 'd address_space \<Rightarrow> u64 \<Rightarrow> bool \<Rightarrow> ('e, 'm, 's) fault_state
      \<Rightarrow> (('e, 'm, 's) fault_state \<times> fault_outcome) res" where
  "handle_emulated_guest_virtual_memory_fault E mode P D G M V i addrspace faulting is_write st =
     rbind (guest_translate E P D G (if is_write then Write else Read) (unmasked_address faulting) (mmu st)) (\<lambda>(m, out).
     let st = st\<lparr>mmu := m\<rparr> in
     case out of
       Restored \<Rightarrow> Inr (st, Left)
     | Returned guest_physical \<Rightarrow>
         rbind (virt_add G GUEST_PHYSICAL_START guest_physical) (\<lambda>v.
         case translate_addr M (window st) (align_down_page v) of
           Some phys_addr \<Rightarrow> map_faulting_page E mode P faulting is_write phys_addr True st
         | None \<Rightarrow>
             rbind (find_region E addrspace guest_physical) (\<lambda>found.
             case found of
               None \<Rightarrow> Inl ExplicitPanic
             | Some rgn \<Rightarrow>
                 (case region_kind rgn of
                    Ram \<Rightarrow>
                      rbind (allocate_and_map_emulated_guest_physical_memory E mode P G M guest_physical st) (\<lambda>(st, backing_page).
                      map_faulting_page E mode P faulting is_write backing_page False st)
                  | IO dev \<Rightarrow>
                      rbind (handle_emulated_guest_io_access E V i guest_physical is_write rgn dev (fault_context st, devices st)) (\<lambda>(c, s).
                      Inr (st\<lparr>fault_context := c, devices := s\<rparr>, Handled))))))"

definition handle_emulated_guest_physical_memory_fault ::
    "rust_env \<Rightarrow> stale_page_mode \<Rightarrow> 'e pte_ops \<Rightarrow> guest_memory \<Rightarrow> 'm mapper \<Rightarrow> 'd address_space \<Rightarrow> u64
      \<Rightarrow> ('e, 'm, 's) fault_state \<Rightarrow> ('e, 'm, 's) fault_state res" where
  "handle_emulated_guest_physical_memory_fault E mode P G M addrspace faulting st =
     rbind (u64_sub E faulting GUEST_PHYSICAL_START) (\<lambda>guest_physical.
     rbind (find_region E addrspace guest_physical) (\<lambda>found.
     case found of
       None \<Rightarrow> Inl ExplicitPanic
     | Some rgn \<Rightarrow>
         (case region_kind rgn of
            Ram \<Rightarrow> rbind (allocate_and_map_emulated_guest_physical_memory E mode P G M guest_physical st) (\<lambda>(st, _). Inr st)
          | IO _ \<Rightarrow> Inl ExplicitPanic)))"

definition LOW_HALF_CANONICAL_END :: u64 where
  "LOW_HALF_CANONICAL_END = 0x00007fffffffffff"

definition GUEST_PHYSICAL_END :: u64 where
  "GUEST_PHYSICAL_END = 0xffff900000000000 + 0x800000000"

definition page_fault_exception ::
    "rust_env \<Rightarrow> stale_page_mode \<Rightarrow> 'e pte_ops \<Rightarrow> descriptor_ops \<Rightarrow> guest_memory \<Rightarrow> 'm mapper \<Rightarrow> ('d, 's) device_ops
      \<Rightarrow> decoded_instruction \<Rightarrow> 'd address_space \<Rightarrow> u64 \<Rightarrow> bool \<Rightarrow> ('e, 'm, 's) fault_state
      \<Rightarrow> (('e, 'm, 's) fault_state \<times> fault_outcome) res" where
  "page_fault_exception E mode P D G M V i addrspace faulting is_write st =
     (if faulting < LOW_HALF_CANONICAL_END then
        handle_emulated_guest_virtual_memory_fault E mode P D G M V i addrspace faulting is_write st
      else if GUEST_PHYSICAL_START \<le> faulting \<and> faulting < GUEST_PHYSICAL_END then
        rbind (handle_emulated_guest_physical_memory_fault E mode P G M addrspace faulting st) (\<lambda>st. Inr (st, Handled))
      else Inl ExplicitPanic)"

section \<open>What the handler relies on\<close>

definition virt_laws :: "guest_memory \<Rightarrow> bool" where
  "virt_laws G \<longleftrightarrow> (\<forall>a b c. virt_add G a b = Inr c \<longrightarrow> c = a + b)"

text \<open>
  A mapper that maps a page answers the frame's addresses for the addresses of that page, had no answer for the page before,
  and takes at most a table for each of the three lower levels from the heap.
\<close>

definition mapper_laws :: "'m mapper \<Rightarrow> bool" where
  "mapper_laws M \<longleftrightarrow>
     (\<forall>w p f h w' h'. take_bit 12 p = 0 \<and> take_bit 12 f = 0 \<and> map_to M w p f h = Inr (w', h') \<longrightarrow>
        translate_addr M w p = None
        \<and> (\<forall>a. translate_addr M w' a = (if page_base a = p then Some (f + take_bit 12 a) else translate_addr M w a))
        \<and> (\<exists>n\<le>3. h' = drop n h))
     \<and> (\<forall>w p f. take_bit 12 p = 0 \<and> translate_addr M w p = Some f \<longrightarrow> take_bit 12 f = 0)"

definition address_laws :: "'e pte_ops \<Rightarrow> bool" where
  "address_laws P \<longleftrightarrow>
     (\<forall>a b. a < 2 ^ 47 \<and> b < 2 ^ 47 \<longrightarrow> (page_path P a = page_path P b \<longleftrightarrow> drop_bit 12 a = drop_bit 12 b))
     \<and> (\<forall>a. a < 2 ^ 47 \<longrightarrow> page_table_index P a 4 < 0x100)"

text \<open>The page of the window that stands for a guest physical address.\<close>

definition window_page :: "u64 \<Rightarrow> u64" where
  "window_page gp = align_down_page (GUEST_PHYSICAL_START + gp)"

text \<open>
  The host's tables shadow the guest's: a guest page the host maps is one the guest's own tables let the current level
  read, on the frame that backs its guest physical page, and writable only if they let it be written.
\<close>

definition shadow_coherent :: "rust_env \<Rightarrow> 'e pte_ops \<Rightarrow> descriptor_ops \<Rightarrow> guest_memory \<Rightarrow> 'm mapper
    \<Rightarrow> ('e, 'm, 's) fault_state \<Rightarrow> bool" where
  "shadow_coherent E P D G M st \<longleftrightarrow>
     (\<forall>a f. a < 2 ^ 40 \<and> take_bit 12 a = 0 \<and> mapping P (host (mmu st)) (page_path P a) = Some f \<longrightarrow>
        (\<exists>gp. walk_result E D G Read (unmasked_address a) (mmu st) = Inr (Inr gp)
           \<and> translate_addr M (window st) (window_page gp) = Some f
           \<and> (page_path P a \<in> writable_pages P (host (mmu st))
                \<longrightarrow> walk_result E D G Write (unmasked_address a) (mmu st) = Inr (Inr gp))))"

section \<open>Lemmas\<close>

lemma align_down_page_base: "align_down_page a = page_base a"
  by (simp add: align_down_page_def page_base_def mask_eq_exp_minus_1 flip: and_low_mask(2))

lemma take_page_base_zero: "take_bit 12 (page_base a) = 0"
  by (rule bit_eqI) (auto simp: page_base_def bit_simps)

lemma page_base_aligned: "take_bit 12 a = 0 \<Longrightarrow> page_base a = a"
  using bits_ident [of 12 a] by (simp add: page_base_def)

lemma page_base_of_sum:
  assumes "take_bit 12 x = 0"
  shows "page_base (x + take_bit 12 b) = x"
proof -
  have "x + take_bit 12 b = x OR take_bit 12 b"
  proof (rule disjunctive_add)
    fix n
    have "\<not> bit x n" if "n < 12" using assms that by (metis bit_take_bit_iff bit_0_eq bot_apply bot_bool_def)
    then show "\<not> bit x n \<or> \<not> bit (take_bit 12 b) n" by (auto simp: bit_simps)
  qed
  moreover have "page_base (x OR take_bit 12 b) = page_base x"
    by (rule bit_eqI) (auto simp: page_base_def bit_simps)
  ultimately show ?thesis using page_base_aligned [OF assms] by simp
qed

lemma unmasked_page: "page_base (unmasked_address a) = unmasked_address (page_base a)"
  by (rule bit_eqI) (auto simp: page_base_def unmasked_address_def bit_simps)

lemma window_page_offset:
  assumes "take_bit 12 gp = 0"
  shows "window_page (gp OR take_bit 12 va) = window_page gp"
proof -
  have "gp OR take_bit 12 va = gp + take_bit 12 va"
    using assms by (intro disjunctive_add [symmetric]) (auto simp: bit_simps dest: arg_cong [of _ _ "\<lambda>w. bit w _"])
  moreover have "take_bit 12 (GUEST_PHYSICAL_START + gp) = 0"
  proof -
    have "GUEST_PHYSICAL_START + gp = push_bit 12 (0xffff900000000 + drop_bit 12 gp)"
      using page_base_aligned [OF assms] by (simp add: GUEST_PHYSICAL_START_def page_base_def push_bit_add)
    also have "take_bit 12 \<dots> = 0" by (rule bit_eqI) (auto simp: bit_simps)
    finally show ?thesis .
  qed
  ultimately show ?thesis
    using page_base_of_sum [of "GUEST_PHYSICAL_START + gp" va] page_base_aligned [of "GUEST_PHYSICAL_START + gp"]
    by (simp add: window_page_def align_down_page_base add.assoc)
qed

lemma walk_page_aligned:
  assumes "pages_aligned D" and "walk_result E D G typ (page_base va) st = Inr (Inr gp)"
  shows "take_bit 12 gp = 0"
proof -
  obtain t el where "page_walk D G 1 t \<lparr>guest_virtual_address = page_base va, execution_level = el\<rparr> typ = Inr (Inr gp)"
    using assms by (auto simp: walk_result_def l1_walk res_simps)
  from walk_leaf [OF this] obtain l e where
    gp: "gp = push_bit (level_shift l) (drop_bit (level_shift l) (output_address D e)) OR take_bit (level_shift l) (page_base va)"
    by auto
  have "12 \<le> level_shift l" by (simp add: level_shift_def)
  then show ?thesis unfolding gp by (intro bit_eqI) (auto simp: page_base_def bit_simps)
qed

lemma write_walk_reads:
  "page_walk D G level t ctx Write = Inr (Inr gp) \<Longrightarrow> page_walk D G level t ctx Read = Inr (Inr gp)"
proof (induction D G level t ctx "Write" rule: page_walk.induct)
  case (1 D G level t ctx)
  let ?e = "table_entry G t (take_bit 9 (drop_bit (level_shift level) (guest_virtual_address ctx)))"
  have leaf: "leaf_result D level ctx Write ?e = Inr gp \<Longrightarrow> leaf_result D level ctx Read ?e = Inr gp"
    by (auto simp: leaf_result_def Let_def permitted_def split: if_splits)
  have step: "page_walk D G (level + 1) t' ctx Read = Inr (Inr gp)"
    if "\<not> 3 \<le> level" "is_valid D ?e" "is_table_or_page D ?e" "entry_to_table D G ?e = Inr t'"
      "page_walk D G (level + 1) t' ctx Write = Inr (Inr gp)" for t'
    using 1(1) [OF refl refl that(1) _ that(3,4,5)] that(2) by simp
  show ?case
    using 1(2) leaf step
    unfolding page_walk.simps [of D G level t ctx] Let_def by (auto simp: res_simps split: if_splits)
qed

lemma write_result_reads:
  "pages_aligned D \<Longrightarrow> walk_result E D G Write va st = Inr (Inr gp) \<Longrightarrow> walk_result E D G Read va st = Inr (Inr gp)"
  by (auto simp: walk_result_def l1_walk res_simps intro: write_walk_reads)

section \<open>The invariant\<close>

definition fault_env_ok :: "'e pte_ops \<Rightarrow> descriptor_ops \<Rightarrow> guest_memory \<Rightarrow> 'm mapper \<Rightarrow> bool" where
  "fault_env_ok P D G M \<longleftrightarrow> pte_laws P \<and> address_laws P \<and> pages_aligned D \<and> virt_laws G \<and> mapper_laws M"

definition fault_state_ok :: "rust_env \<Rightarrow> 'e pte_ops \<Rightarrow> descriptor_ops \<Rightarrow> guest_memory \<Rightarrow> 'm mapper
    \<Rightarrow> ('e, 'm, 's) fault_state \<Rightarrow> bool" where
  "fault_state_ok E P D G M st \<longleftrightarrow>
     paging_ok P (host (mmu st)) \<and> tlb_coherent E D G (mmu st) \<and> unprivileged_access (mmu st) = 0
     \<and> mmu_core_ok (core (mmu st)) \<and> odd (register_view (core (mmu st)) ''SCTLR_EL1_bits'')
     \<and> register_view (core (mmu st)) ''VBAR_EL1'' + 0x400 < 2 ^ 64 \<and> shadow_coherent E P D G M st"

lemma page_fault_host:
  assumes "mmu_core_ok (core st)" and "register_view (core st) ''VBAR_EL1'' + 0x400 < 2 ^ 64"
    and "guest_page_fault E P ctx err st = Inr (st', out)"
  shows "host st' = (if register_view (core st) ''PSTATE_EL'' = 1 then host st else invalidate_guest_mappings P (host st))"
proof -
  let ?v = "register_view (core st)" let ?t = "if error_translation err = Fetch then 4 else 1 :: nat"
  have t: "?t \<le> 6 \<or> ?t = 255" by simp
  have bound: "?v ''VBAR_EL1'' + unat (0 + vector_bias ?v) < 2 ^ 64" using assms(2) by (simp add: vector_bias_def)
  have pc: "reg_read E (core st) ''_PC'' 8 = Inr (?v ''_PC'')"
    by (rule mmu_core_read [OF assms(1)]) (simp add: exception_registers_def)
  obtain s where s: "take_arm_exception E P 1 ?t (to_syndrome err) (guest_virtual_address ctx) (of_nat (?v ''_PC'')) 0 st = Inr s"
      "s = (if ?v ''PSTATE_EL'' = 1 then st else flush_tlb (st\<lparr>host := invalidate_guest_mappings P (host st)\<rparr>))\<lparr>core := core s\<rparr>"
    using exception_entered [OF mmu_core_has(2) [OF assms(1)] t, of 0 E P "to_syndrome err" "guest_virtual_address ctx" "of_nat (?v ''_PC'')"]
      bound by auto
  have "st' = s" using assms(3) pc s(1) by (simp add: guest_page_fault_def Let_def)
  moreover have "host s = (if ?v ''PSTATE_EL'' = 1 then host st else invalidate_guest_mappings P (host st))"
    by (subst s(2)) (simp add: flush_tlb_def)
  ultimately show ?thesis by simp
qed

text \<open>What a translation leaves behind, for the handler.\<close>

definition same_walks :: "'e mmu_state \<Rightarrow> 'e mmu_state \<Rightarrow> bool" where
  "same_walks m m' \<longleftrightarrow> mmu_core_ok (core m') \<and> (\<forall>k \<in> {''_TTBR0_EL1_bits'', ''_TTBR1_EL1_bits'', ''PSTATE_EL''}.
     register_view (core m') k = register_view (core m) k)"

definition translation_kept :: "rust_env \<Rightarrow> 'e pte_ops \<Rightarrow> descriptor_ops \<Rightarrow> guest_memory \<Rightarrow> 'e mmu_state \<Rightarrow> 'e mmu_state \<Rightarrow> bool" where
  "translation_kept E P D G m m' \<longleftrightarrow>
     tlb_coherent E D G m' \<and> unprivileged_access m' = 0 \<and> mmu_core_ok (core m')
     \<and> register_view (core m') ''SCTLR_EL1_bits'' = register_view (core m) ''SCTLR_EL1_bits''
     \<and> register_view (core m') ''VBAR_EL1'' = register_view (core m) ''VBAR_EL1''
     \<and> (same_walks m m' \<and> host m' = host m \<or> host m' = invalidate_guest_mappings P (host m))"

lemma fault_keeps:
  assumes ok: "mmu_core_ok (core m)" and co: "tlb_coherent E D G m" and un: "unprivileged_access m = 0"
    and vb: "register_view (core m) ''VBAR_EL1'' + 0x400 < 2 ^ 64"
    and run: "guest_page_fault E P ctx err m = Inr (m', out)"
  shows "out = Restored \<and> translation_kept E P D G m m'"
proof -
  let ?v = "register_view (core m)"
  have has: "has_register (core m) k n" if "(k, n) \<in> set exception_registers \<union> set mmu_registers" for k n
    using mmu_core_has(3) [OF ok that] .
  have "has_register (core m) ''_PC'' 8" by (rule has) (simp add: exception_registers_def)
  then have pc: "?v ''_PC'' < 2 ^ 64" using register_view_less by fastforce
  let ?view = "exception_view (if error_translation err = Fetch then 4 else 1) (to_syndrome err) (guest_virtual_address ctx)
      (of_nat (?v ''_PC'')) 0 ?v"
  obtain s where s: "guest_page_fault E P ctx err m = Inr (s, Restored)" "tlb_coherent E D G s" "mmu_core_ok (core s)"
      "unprivileged_access s = unprivileged_access m"
      "\<forall>k n. has_register (core m) k n \<longrightarrow> register_view (core s) k = ?view k"
    using page_fault_entry [OF ok co vb pc, of P ctx err] by blast
  then have m': "m' = s" "out = Restored" using run by auto
  have view: "register_view (core s) k = ?view k" if "(k, n) \<in> set exception_registers \<union> set mmu_registers" for k n
    using s(5) has [OF that] by blast
  have keep: "register_view (core s) ''_TTBR0_EL1_bits'' = ?v ''_TTBR0_EL1_bits''"
      "register_view (core s) ''_TTBR1_EL1_bits'' = ?v ''_TTBR1_EL1_bits''"
      "register_view (core s) ''SCTLR_EL1_bits'' = ?v ''SCTLR_EL1_bits''"
      "register_view (core s) ''VBAR_EL1'' = ?v ''VBAR_EL1''"
    by (subst view [of _ 8]; simp add: exception_registers_def mmu_registers_def exception_view_def)+
  have "register_view (core s) ''PSTATE_EL'' = 1"
    by (subst view [of _ 1]; simp add: exception_registers_def exception_view_def)
  then have "?v ''PSTATE_EL'' = 1 \<Longrightarrow> same_walks m s" using keep s(3) by (simp add: same_walks_def)
  then show ?thesis
    using m' s un keep page_fault_host [OF ok vb run] by (auto simp: translation_kept_def split: if_splits)
qed

lemma translation_cases:
  assumes al: "pages_aligned D" and ok: "mmu_core_ok (core m)" and co: "tlb_coherent E D G m" and un: "unprivileged_access m = 0"
    and vb: "register_view (core m) ''VBAR_EL1'' + 0x400 < 2 ^ 64" and on: "odd (register_view (core m) ''SCTLR_EL1_bits'')"
    and nt: "typ \<noteq> Translate" and run: "guest_translate E P D G typ va m = Inr (m', out)"
  shows "translation_kept E P D G m m' \<and> (\<forall>gp. out = Returned gp \<longrightarrow>
      walk_result E D G typ va m = Inr (Inr gp) \<and> core m' = core m \<and> host m' = host m)"
proof -
  have "reg_read E (core m) ''SCTLR_EL1_bits'' 8 = Inr (register_view (core m) ''SCTLR_EL1_bits'')"
    by (rule mmu_core_read [OF ok]) (simp add: mmu_registers_def)
  then have ct: "cached_translate E P D G typ va m = Inr (m', out)"
    using run on nt by (simp add: guest_translate_def enabled_bit)
  obtain r where r: "walk_result E D G typ va m = Inr r" using walk_defined [OF al co un nt ct] ..
  note walk = cached_translate_walk [OF al co un nt r, of P]
  show ?thesis
  proof (cases r)
    case (Inr pa)
    then show ?thesis using walk ct r ok by (auto simp: translation_kept_def same_walks_def)
  next
    case (Inl err)
    then have "rbind (current_execution_level E (core m)) (\<lambda>el.
        guest_page_fault E P \<lparr>guest_virtual_address = page_base va, execution_level = el\<rparr> err m) = Inr (m', out)"
      using walk ct by simp
    then obtain el where "guest_page_fault E P \<lparr>guest_virtual_address = page_base va, execution_level = el\<rparr> err m = Inr (m', out)"
      by (auto simp: res_simps)
    from fault_keeps [OF ok co un vb this] show ?thesis by simp
  qed
qed

lemma shadow_after_translation:
  assumes "pte_laws P" and "paging_ok P (host (mmu st))" and "mmu_core_ok (core (mmu st))"
    and "shadow_coherent E P D G M st" and "translation_kept E P D G (mmu st) m"
  shows "shadow_coherent E P D G M (st\<lparr>mmu := m\<rparr>)" and "paging_ok P (host m)"
proof -
  consider "same_walks (mmu st) m" "host m = host (mmu st)" | "host m = invalidate_guest_mappings P (host (mmu st))"
    using assms(5) by (auto simp: translation_kept_def)
  then have "shadow_coherent E P D G M (st\<lparr>mmu := m\<rparr>) \<and> paging_ok P (host m)"
  proof cases
    case 1
    then have "walk_result E D G typ va m = walk_result E D G typ va (mmu st)" for "typ" va
      using assms(3) by (intro walk_result_view) (auto simp: same_walks_def)
    then show ?thesis using assms(2,4) 1(2) by (simp add: shadow_coherent_def)
  next
    case 2
    then have "mapping P (host m) = Map.empty" "paging_ok P (host m)"
      using host_map.drop_all_law [of P "host (mmu st)"] assms(1,2) by auto
    then show ?thesis by (simp add: shadow_coherent_def)
  qed
  then show "shadow_coherent E P D G M (st\<lparr>mmu := m\<rparr>)" and "paging_ok P (host m)" by auto
qed

lemma page_base_less: "a < 2 ^ 40 \<Longrightarrow> page_base a < 2 ^ 40"
proof -
  have "page_base a \<le> a" unfolding page_base_def by (simp add: word_and_le2 flip: and_low_mask(2))
  then show "a < 2 ^ 40 \<Longrightarrow> page_base a < 2 ^ 40" by (rule le_less_trans)
qed

lemma guest_address_path:
  assumes "address_laws P" and "a < 2 ^ 40"
  shows "guest_path (page_path P a)"
proof -
  have "a < 2 ^ 47" using assms(2) by (rule less_trans) simp
  then show ?thesis using assms(1) by (simp add: address_laws_def page_path_def)
qed

lemma same_page:
  assumes "address_laws P" and "a < 2 ^ 40" and "b < 2 ^ 40" and "take_bit 12 a = 0" and "page_path P a = page_path P (page_base b)"
  shows "a = page_base b"
proof -
  have "a < 2 ^ 47" "page_base b < 2 ^ 47" using assms(2) page_base_less [OF assms(3)] by (auto elim: less_trans)
  then have "drop_bit 12 a = drop_bit 12 (page_base b)" using assms(1,5) by (simp add: address_laws_def)
  then show ?thesis
    using page_base_aligned [OF assms(4)] page_base_aligned [OF take_page_base_zero, of b] unfolding page_base_def by metis
qed

lemma fault_flags: "PRESENT \<in> (if w then {PRESENT, WRITABLE} else {PRESENT})"
  by simp

text \<open>Mapping the faulting page on the frame of its guest physical page keeps the shadow.\<close>

lemma shadow_after_mapping:
  assumes laws: "pte_laws P" "address_laws P" and al: "pages_aligned D" and ok: "paging_ok P (host (mmu st))"
    and shadow: "shadow_coherent E P D G M st" and heap: "3 \<le> length (heap (host (mmu st)))" and addr: "a < 2 ^ 40"
    and walk: "walk_result E D G (if w then Write else Read) (unmasked_address a) (mmu st) = Inr (Inr gp)"
    and frame: "translate_addr M (window st) (window_page gp) = Some f"
    and run: "map_faulting_page E EPT P a w f present st = Inr (st', out)"
  shows "out = Handled \<and> shadow_coherent E P D G M st' \<and> paging_ok P (host (mmu st'))
     \<and> (\<exists>h. st' = st\<lparr>mmu := (mmu st)\<lparr>host := h\<rparr>\<rparr>)
     \<and> mapping P (host (mmu st')) = (mapping P (host (mmu st)))(page_path P (page_base a) \<mapsto> f)"
proof -
  let ?p = "page_path P (page_base a)" let ?fl = "if w then {PRESENT, WRITABLE} else {PRESENT}"
  have al_f: "take_bit 12 f = 0"
    using run by (auto simp: map_faulting_page_def res_simps split: if_splits)
  obtain h where h: "map_page_propagate_invalidation E P (page_base a) f ?fl (host (mmu st)) = Inr h" "paging_ok P h"
      "mapping P h = (mapping P (host (mmu st)))(?p \<mapsto> f)"
      "writable_pages P h - {?p} = writable_pages P (host (mmu st)) - {?p}" "WRITABLE \<notin> ?fl \<longrightarrow> ?p \<notin> writable_pages P h"
    using host_map.map_page_law [OF conjI [OF laws(1) ok] guest_address_path [OF laws(2) page_base_less [OF addr]] heap al_f fault_flags [of w], of E]
    by blast
  have st': "st' = st\<lparr>mmu := (mmu st)\<lparr>host := h\<rparr>\<rparr>" "out = Handled"
    using run h(1) al_f by (auto simp: map_faulting_page_def Let_def align_down_page_base)
  have core': "walk_result E D G typ va ((mmu st)\<lparr>host := h\<rparr>) = walk_result E D G typ va (mmu st)" for "typ" va
    by (rule walk_result_core) simp
  obtain gp0 where gp0: "walk_result E D G (if w then Write else Read) (unmasked_address (page_base a)) (mmu st) = Inr (Inr gp0)"
      "gp = gp0 OR take_bit 12 (unmasked_address a)"
  proof -
    obtain r where r: "walk_result E D G (if w then Write else Read) (page_base (unmasked_address a)) (mmu st) = Inr r"
        "Inr gp = add_offset (unmasked_address a) r"
      using walk walk_result_of_page [OF al, of E G "if w then Write else Read" "unmasked_address a" "mmu st"]
      by (auto simp: res_simps)
    then show thesis using that by (cases r) (auto simp: unmasked_page)
  qed
  have "take_bit 12 gp0 = 0"
    by (rule walk_page_aligned [OF al gp0(1) [folded unmasked_page]])
  then have win: "window_page gp0 = window_page gp" using gp0(2) window_page_offset by simp
  have rd: "walk_result E D G Read (unmasked_address (page_base a)) (mmu st) = Inr (Inr gp0)"
    using gp0(1) write_result_reads [OF al] by (auto split: if_splits)
  have "shadow_coherent E P D G M st'"
    unfolding shadow_coherent_def
  proof (intro allI impI, elim conjE)
    fix b g assume b: "b < 2 ^ 40" "take_bit 12 b = 0" "mapping P (host (mmu st')) (page_path P b) = Some g"
    show "\<exists>gp. walk_result E D G Read (unmasked_address b) (mmu st') = Inr (Inr gp)
        \<and> translate_addr M (window st') (window_page gp) = Some g
        \<and> (page_path P b \<in> writable_pages P (host (mmu st'))
             \<longrightarrow> walk_result E D G Write (unmasked_address b) (mmu st') = Inr (Inr gp))"
    proof (cases "page_path P b = ?p")
      case True
      then have "b = page_base a" by (rule same_page [OF laws(2) b(1) addr b(2)])
      moreover have "g = f" using b(3) True h(3) st'(1) by simp
      ultimately show ?thesis
        using rd gp0(1) frame win h(5) by (intro exI [of _ gp0]) (auto simp: st'(1) core' split: if_splits)
    next
      case False
      then have "mapping P (host (mmu st)) (page_path P b) = Some g" using b(3) h(3) st'(1) by simp
      then obtain gp' where "walk_result E D G Read (unmasked_address b) (mmu st) = Inr (Inr gp')"
          "translate_addr M (window st) (window_page gp') = Some g"
          "page_path P b \<in> writable_pages P (host (mmu st)) \<longrightarrow> walk_result E D G Write (unmasked_address b) (mmu st) = Inr (Inr gp')"
        using shadow b(1,2) unfolding shadow_coherent_def by blast
      moreover have "page_path P b \<in> writable_pages P h \<longleftrightarrow> page_path P b \<in> writable_pages P (host (mmu st))"
        using h(4) False by blast
      ultimately show ?thesis by (intro exI [of _ gp']) (simp add: st'(1) core')
    qed
  qed
  then show ?thesis using h(2,3) st' by auto
qed

lemma tlb_coherent_host: "tlb_coherent E D G (m\<lparr>host := h\<rparr>) = tlb_coherent E D G m"
  by (simp add: tlb_coherent_def walk_result_core [of "m\<lparr>host := h\<rparr>" m])

lemma fault_state_ok_parts:
  assumes "fault_state_ok E P D G M st"
  shows "paging_ok P (host (mmu st))" "tlb_coherent E D G (mmu st)" "unprivileged_access (mmu st) = 0"
    "mmu_core_ok (core (mmu st))" "odd (register_view (core (mmu st)) ''SCTLR_EL1_bits'')"
    "register_view (core (mmu st)) ''VBAR_EL1'' + 0x400 < 2 ^ 64" "shadow_coherent E P D G M st"
  using assms by (simp_all add: fault_state_ok_def)

text \<open>Backing a guest physical page keeps the invariant and leaves the host's tables as they are.\<close>

lemma window_page_aligned: "take_bit 12 (window_page gp) = 0"
  by (simp add: window_page_def align_down_page_base take_page_base_zero)

lemma mapper_aligned: "mapper_laws M \<Longrightarrow> take_bit 12 p = 0 \<Longrightarrow> translate_addr M w p = Some f \<Longrightarrow> take_bit 12 f = 0"
  unfolding mapper_laws_def by blast

lemma backing_keeps:
  assumes laws: "mapper_laws M" and ok: "fault_state_ok E P D G M st" and f: "take_bit 12 f = 0"
    and run: "map_to M (window st) (window_page gp) f (heap (host (mmu st))) = Inr (w, h)"
  shows "fault_state_ok E P D G M (backed_state w h st)" and "translate_addr M w (window_page gp) = Some f"
    and "length (heap (host (mmu st))) \<le> length h + 3"
    and "mapping P (host (mmu (backed_state w h st))) = mapping P (host (mmu st))"
    and "walk_result E D G typ va (mmu (backed_state w h st)) = walk_result E D G typ va (mmu st)"
proof -
  have new: "translate_addr M (window st) (window_page gp) = None"
      "\<And>a. translate_addr M w a = (if page_base a = window_page gp then Some (f + take_bit 12 a) else translate_addr M (window st) a)"
    and "\<exists>n\<le>3. h = drop n (heap (host (mmu st)))"
    using laws window_page_aligned [of gp] f run unfolding mapper_laws_def by blast+
  then obtain n where n: "n \<le> 3" "h = drop n (heap (host (mmu st)))" by blast
  show "translate_addr M w (window_page gp) = Some f"
    using new(2) [of "window_page gp"] page_base_aligned [OF window_page_aligned] by (simp add: window_page_aligned)
  show "length (heap (host (mmu st))) \<le> length h + 3" using n by simp
  show view: "mapping P (host (mmu (backed_state w h st))) = mapping P (host (mmu st))"
    by (simp add: backed_state_def smaller_heap_view)
  show walks: "walk_result E D G typ va (mmu (backed_state w h st)) = walk_result E D G typ va (mmu st)" for "typ" va
    by (rule walk_result_core) (simp add: backed_state_def)
  have kept: "translate_addr M w (window_page b) = Some g" if "translate_addr M (window st) (window_page b) = Some g" for b g
    using that new(1) new(2) [of "window_page b"] page_base_aligned [OF window_page_aligned, of b] by auto
  have "shadow_coherent E P D G M (backed_state w h st)"
    unfolding shadow_coherent_def
  proof (intro allI impI, elim conjE)
    fix a g assume "a < 2 ^ 40" "take_bit 12 a = 0" "mapping P (host (mmu (backed_state w h st))) (page_path P a) = Some g"
    then obtain gp' where "walk_result E D G Read (unmasked_address a) (mmu st) = Inr (Inr gp')"
        "translate_addr M (window st) (window_page gp') = Some g"
        "page_path P a \<in> writable_pages P (host (mmu st)) \<longrightarrow> walk_result E D G Write (unmasked_address a) (mmu st) = Inr (Inr gp')"
      using fault_state_ok_parts(7) [OF ok] unfolding shadow_coherent_def view by blast
    then show "\<exists>gp. walk_result E D G Read (unmasked_address a) (mmu (backed_state w h st)) = Inr (Inr gp)
        \<and> translate_addr M (window (backed_state w h st)) (window_page gp) = Some g
        \<and> (page_path P a \<in> writable_pages P (host (mmu (backed_state w h st)))
             \<longrightarrow> walk_result E D G Write (unmasked_address a) (mmu (backed_state w h st)) = Inr (Inr gp))"
      unfolding walks using kept by (intro exI [of _ gp']) (simp add: backed_state_def smaller_heap_view)
  qed
  with fault_state_ok_parts [OF ok] show "fault_state_ok E P D G M (backed_state w h st)"
    using smaller_heap_ok [OF fault_state_ok_parts(1) [OF ok], of n] n(2)
    by (simp add: fault_state_ok_def backed_state_def tlb_coherent_host)
qed

lemma mapping_keeps_state_ok:
  assumes "fault_env_ok P D G M" and ok: "fault_state_ok E P D G M st" and "3 \<le> length (heap (host (mmu st)))" and "a < 2 ^ 40"
    and "walk_result E D G (if w then Write else Read) (unmasked_address a) (mmu st) = Inr (Inr gp)"
    and "translate_addr M (window st) (window_page gp) = Some f"
    and "map_faulting_page E EPT P a w f present st = Inr (st', out)"
  shows "fault_state_ok E P D G M st'"
proof -
  have env: "pte_laws P" "address_laws P" "pages_aligned D" using assms(1) by (simp_all add: fault_env_ok_def)
  note parts = fault_state_ok_parts [OF ok]
  obtain h where "st' = st\<lparr>mmu := (mmu st)\<lparr>host := h\<rparr>\<rparr>" "shadow_coherent E P D G M st'" "paging_ok P (host (mmu st'))"
    using shadow_after_mapping [OF env(1-3) parts(1,7) assms(3-7)] by blast
  with parts show ?thesis by (simp add: fault_state_ok_def tlb_coherent_host)
qed

lemma map_faulting_page_runs:
  assumes env: "fault_env_ok P D G M" and ok: "fault_state_ok E P D G M st" and heap: "3 \<le> length (heap (host (mmu st)))"
    and addr: "a < 2 ^ 40" and frame: "take_bit 12 f = 0"
  shows "\<exists>st'. map_faulting_page E EPT P a w f present st = Inr (st', Handled)"
proof -
  have laws: "pte_laws P" "address_laws P" using env by (simp_all add: fault_env_ok_def)
  let ?fl = "if w then {PRESENT, WRITABLE} else {PRESENT}"
  obtain h where "map_page_propagate_invalidation E P (page_base a) f ?fl (host (mmu st)) = Inr h"
    using host_map.map_page_law [OF conjI [OF laws(1) fault_state_ok_parts(1) [OF ok]]
        guest_address_path [OF laws(2) page_base_less [OF addr]] heap frame fault_flags [of w], of E] by blast
  then show ?thesis using frame by (simp add: map_faulting_page_def Let_def align_down_page_base)
qed

text \<open>The frame a fault needs: the one in the window, or a new one for a page of RAM.\<close>

definition frame_available :: "rust_env \<Rightarrow> 'm mapper \<Rightarrow> 'd address_space \<Rightarrow> ('e, 'm, 's) fault_state \<Rightarrow> u64 \<Rightarrow> u64 \<Rightarrow> bool" where
  "frame_available E M addrspace st gp f \<longleftrightarrow>
     translate_addr M (window st) (window_page gp) = Some f
     \<or> translate_addr M (window st) (window_page gp) = None
       \<and> (\<exists>rgn. find_region E addrspace gp = Inr (Some rgn) \<and> region_kind rgn = Ram)
       \<and> (\<exists>b w h. phys_add M VIRT_GUEST_EMULATED_GUEST_PHYSICAL_START gp = Inr b \<and> f = align_down_page b
            \<and> map_to M (window st) (window_page gp) f (heap (host (mmu st))) = Inr (w, h))"

lemma fault_resolves:
  assumes env: "fault_env_ok P D G M" and ok: "fault_state_ok E P D G M st" and heap: "6 \<le> length (heap (host (mmu st)))"
    and addr: "faulting < 2 ^ 40"
    and walk: "walk_result E D G (if is_write then Write else Read) (unmasked_address faulting) (mmu st) = Inr (Inr gp)"
    and virt: "virt_add G GUEST_PHYSICAL_START gp = Inr v" and frame: "frame_available E M addrspace st gp f"
  shows "\<exists>st'. page_fault_exception E EPT P D G M V i addrspace faulting is_write st = Inr (st', Handled)
     \<and> mapping P (host (mmu st')) = (mapping P (host (mmu st)))(page_path P (page_base faulting) \<mapsto> f)"
proof -
  have laws: "pte_laws P" "address_laws P" "pages_aligned D" "virt_laws G" "mapper_laws M"
    using env by (simp_all add: fault_env_ok_def)
  note parts = fault_state_ok_parts [OF ok]
  let ?kind = "if is_write then Write else Read" let ?va = "unmasked_address faulting"
  have nt: "?kind \<noteq> Translate" by simp
  have low: "faulting < LOW_HALF_CANONICAL_END"
    using addr by (rule less_trans) (simp add: LOW_HALF_CANONICAL_END_def)
  have v: "align_down_page v = window_page gp" using virt laws(4) by (simp add: virt_laws_def window_page_def)
  have "reg_read E (core (mmu st)) ''SCTLR_EL1_bits'' 8 = Inr (register_view (core (mmu st)) ''SCTLR_EL1_bits'')"
    by (rule mmu_core_read [OF parts(4)]) (simp add: mmu_registers_def)
  then obtain m where m: "guest_translate E P D G ?kind ?va (mmu st) = Inr (m, Returned gp)" "tlb_coherent E D G m"
      "core m = core (mmu st)" "host m = host (mmu st)" "unprivileged_access m = 0"
    using cached_translate_walk [OF laws(3) parts(2,3) nt walk, of P] nt parts(5)
    by (auto simp: guest_translate_def enabled_bit)
  have walk': "walk_result E D G ?kind ?va m = Inr (Inr gp)" using walk walk_result_core [OF m(3)] by simp
  let ?st = "st\<lparr>mmu := m\<rparr>"
  have st1: "fault_state_ok E P D G M ?st"
    using parts m by (simp add: fault_state_ok_def shadow_coherent_def walk_result_core [OF m(3)])
  have maps: "\<exists>st'. map_faulting_page E EPT P faulting is_write f present s = Inr (st', Handled)
      \<and> mapping P (host (mmu st')) = (mapping P (host (mmu s)))(page_path P (page_base faulting) \<mapsto> f)"
    if s: "fault_state_ok E P D G M s" "translate_addr M (window s) (window_page gp) = Some f" "3 \<le> length (heap (host (mmu s)))"
      "walk_result E D G ?kind ?va (mmu s) = Inr (Inr gp)" for s present
  proof -
    have "take_bit 12 f = 0" by (rule mapper_aligned [OF laws(5) window_page_aligned s(2)])
    then obtain st' where st': "map_faulting_page E EPT P faulting is_write f present s = Inr (st', Handled)"
      using map_faulting_page_runs [OF env s(1,3) addr, of f is_write present] by auto
    from shadow_after_mapping [OF laws(1-3) fault_state_ok_parts(1,7) [OF s(1)] s(3) addr s(4,2) st'] st' show ?thesis by auto
  qed
  show ?thesis
  proof (cases "translate_addr M (window st) (window_page gp)")
    case (Some g)
    then have "g = f" using frame by (auto simp: frame_available_def)
    with Some maps [OF st1, of True] walk' heap m(4) low m(1) virt v show ?thesis
      by (auto simp: page_fault_exception_def handle_emulated_guest_virtual_memory_fault_def Let_def)
  next
    case None
    then obtain rgn b w h where f: "find_region E addrspace gp = Inr (Some rgn)" "region_kind rgn = Ram"
        "phys_add M VIRT_GUEST_EMULATED_GUEST_PHYSICAL_START gp = Inr b" "f = align_down_page b"
        "map_to M (window ?st) (window_page gp) f (heap (host (mmu ?st))) = Inr (w, h)"
      using frame m(4) by (auto simp: frame_available_def)
    have "take_bit 12 f = 0" using f(4) by (simp add: align_down_page_base take_page_base_zero)
    note backed = backing_keeps [OF laws(5) st1 this f(5)]
    have "\<exists>st'. map_faulting_page E EPT P faulting is_write f False (backed_state w h ?st) = Inr (st', Handled)
        \<and> mapping P (host (mmu st')) = (mapping P (host (mmu st)))(page_path P (page_base faulting) \<mapsto> f)"
      using maps [OF backed(1), of False] backed(2-5) walk' heap m(4) by (simp add: backed_state_def)
    with None f low m(1) virt v show ?thesis
      by (auto simp: page_fault_exception_def handle_emulated_guest_virtual_memory_fault_def Let_def
          allocate_and_map_emulated_guest_physical_memory_def)
  qed
qed

text \<open>The rest of the handler, after a translation that returned an address.\<close>

lemma returned_access_keeps:
  assumes env: "fault_env_ok P D G M" and st1: "fault_state_ok E P D G M (st\<lparr>mmu := m\<rparr>)" and heap: "6 \<le> length (heap (host m))"
    and addr: "faulting < 2 ^ 40"
    and tr: "guest_translate E P D G (if is_write then Write else Read) (unmasked_address faulting) (mmu st) = Inr (m, Returned gp)"
    and walk: "walk_result E D G (if is_write then Write else Read) (unmasked_address faulting) m = Inr (Inr gp)"
    and run: "handle_emulated_guest_virtual_memory_fault E EPT P D G M V i addrspace faulting is_write st = Inr (st', out)"
  shows "fault_state_ok E P D G M st'"
proof -
  let ?st = "st\<lparr>mmu := m\<rparr>"
  have laws: "virt_laws G" "mapper_laws M" using env by (simp_all add: fault_env_ok_def)
  note handler = run [unfolded handle_emulated_guest_virtual_memory_fault_def tr, simplified Let_def rbind_Inr prod.case outcome.case]
  obtain v where v: "virt_add G GUEST_PHYSICAL_START gp = Inr v" "align_down_page v = window_page gp"
    using handler laws(1) by (auto simp: res_simps virt_laws_def window_page_def)
  show ?thesis
  proof (cases "translate_addr M (window st) (window_page gp)")
    case (Some f)
    then have "map_faulting_page E EPT P faulting is_write f True ?st = Inr (st', out)" using handler v by simp
    moreover have "3 \<le> length (heap (host (mmu ?st)))" using heap by simp
    ultimately show ?thesis using mapping_keeps_state_ok [OF env st1 _ addr] walk Some by simp
  next
    case None
    obtain rgn where rgn: "find_region E addrspace gp = Inr (Some rgn)"
      using handler v None by (auto simp: res_simps split: option.splits)
    show ?thesis
    proof (cases "region_kind rgn")
      case (IO dev)
      then obtain c s where "st' = ?st\<lparr>fault_context := c, devices := s\<rparr>"
        using handler v None rgn by (auto simp: res_simps)
      with st1 show ?thesis by (simp add: fault_state_ok_def shadow_coherent_def)
    next
      case Ram
      then obtain b f w h where w: "f = align_down_page b" "map_to M (window ?st) (window_page gp) f (heap (host (mmu ?st))) = Inr (w, h)"
          "map_faulting_page E EPT P faulting is_write f False (backed_state w h ?st) = Inr (st', out)"
        using handler v None rgn by (auto simp: allocate_and_map_emulated_guest_physical_memory_def res_simps)
      have "take_bit 12 f = 0" using w(1) by (simp add: align_down_page_base take_page_base_zero)
      note backed = backing_keeps [OF laws(2) st1 this w(2)]
      have "3 \<le> length (heap (host (mmu (backed_state w h ?st))))" "translate_addr M (window (backed_state w h ?st)) (window_page gp) = Some f"
        using backed(2,3) heap by (simp_all add: backed_state_def)
      then show ?thesis
        using mapping_keeps_state_ok [OF env backed(1) _ addr _ _ w(3)] walk backed(5) by simp
    qed
  qed
qed

section \<open>Properties\<close>

text \<open>
  C8: the host's mappings of guest memory are sound.  With the guest's MMU on, no access marked unprivileged, frames backed
  through the second-level tables (EPT), six free pages in the heap, coherent TLBs, well-formed host tables and an exception
  vector that is not at the very end of memory, all of which is kept: if the host's tables shadow the guest's, every guest page
  they map being one the guest's own tables let the current level read, on the frame that backs its guest physical page, and
  writable only if they let it be written, then they still do after any page fault at an address below \<open>2 ^ 40\<close> that the handler
  returns from: one that maps a page, one that reaches a device, and one that the guest has to handle itself.
\<close>

theorem shadow_paging_sound:
  assumes "fault_env_ok P D G M" and "fault_state_ok E P D G M st" and "6 \<le> length (heap (host (mmu st)))"
    and "faulting < 2 ^ 40"
    and "page_fault_exception E EPT P D G M V i addrspace faulting is_write st = Inr (st', out)"
  shows "fault_state_ok E P D G M st'"
proof -
  have env: "pte_laws P" "pages_aligned D" using assms(1) by (simp_all add: fault_env_ok_def)
  note ok = fault_state_ok_parts [OF assms(2)]
  let ?kind = "if is_write then Write else Read" let ?va = "unmasked_address faulting"
  have low: "faulting < LOW_HALF_CANONICAL_END"
    using assms(4) by (rule less_trans) (simp add: LOW_HALF_CANONICAL_END_def)
  have run: "handle_emulated_guest_virtual_memory_fault E EPT P D G M V i addrspace faulting is_write st = Inr (st', out)"
    using assms(5) low by (simp add: page_fault_exception_def)
  then obtain m res where tr: "guest_translate E P D G ?kind ?va (mmu st) = Inr (m, res)"
    by (auto simp: handle_emulated_guest_virtual_memory_fault_def Let_def res_simps)
  have nt: "?kind \<noteq> Translate" by simp
  note kept = translation_cases [OF env(2) ok(4,2,3,6,5) nt tr]
  have st1: "fault_state_ok E P D G M (st\<lparr>mmu := m\<rparr>)"
    using kept ok shadow_after_translation [OF env(1) ok(1,4,7), of m]
    by (simp add: fault_state_ok_def translation_kept_def)
  show ?thesis
  proof (cases res)
    case Restored
    with run tr st1 show ?thesis by (simp add: handle_emulated_guest_virtual_memory_fault_def Let_def)
  next
    case (Returned gp)
    then have m: "walk_result E D G ?kind ?va m = Inr (Inr gp)" "host m = host (mmu st)"
      using kept walk_result_core [of m "mmu st"] by simp_all
    show ?thesis
      by (rule returned_access_keeps [OF assms(1) st1 _ assms(4) tr [unfolded Returned] m(1) run]) (simp add: m(2) assms(3))
  qed
qed

text \<open>
  C34: a fault on guest memory is resolved.  With the guest's MMU on, no access marked unprivileged, frames backed through the
  second-level tables (EPT), an address below \<open>2 ^ 40\<close> and six free pages in the heap (three for the window's tables, three for the
  guest's), in a state that satisfies the invariant of the handler: when the guest's tables let the access through and its guest physical page is already backed, or lies in RAM and the
  mapper accepts it, the handler returns, and the faulting page, and no other, is then mapped on the frame that backs the guest
  physical page.
\<close>

theorem guest_fault_resolved:
  assumes "fault_env_ok P D G M" and "fault_state_ok E P D G M st" and "6 \<le> length (heap (host (mmu st)))"
    and "faulting < 2 ^ 40"
    and "walk_result E D G (if is_write then Write else Read) (unmasked_address faulting) (mmu st) = Inr (Inr gp)"
    and "virt_add G GUEST_PHYSICAL_START gp = Inr v" and "frame_available E M addrspace st gp f"
  shows "\<exists>st'. page_fault_exception E EPT P D G M V i addrspace faulting is_write st = Inr (st', Handled)
     \<and> mapping P (host (mmu st')) = (mapping P (host (mmu st)))(page_path P (page_base faulting) \<mapsto> f)"
  by (rule fault_resolves [OF assms])

section \<open>Examples\<close>

text \<open>A mapper that keeps the frame of each page and takes one table from the heap for a page.\<close>

definition sample_mapper :: "(u64 \<rightharpoonup> u64) mapper" where
  "sample_mapper = \<lparr>translate_addr = (\<lambda>w a. case w (page_base a) of
       None \<Rightarrow> None | Some f \<Rightarrow> if take_bit 12 f = 0 then Some (f + take_bit 12 a) else None),
     map_to = (\<lambda>w p f h. if w p = None \<and> take_bit 12 f = 0 \<and> h \<noteq> [] then Inr (w(p \<mapsto> f), tl h) else Inl UnwrapFailed),
     phys_add = (\<lambda>a b. Inr (a + b))\<rparr>"

definition sample_fault_state :: "(u64 \<times> page_table_flag set, u64 \<rightharpoonup> u64, unit) fault_state" where
  "sample_fault_state = \<lparr>mmu = sample_running 1 0, window = Map.empty, stale_code_pages = [],
     fault_context = \<lparr>ctx_rax = 0, ctx_rcx = 0, ctx_rip = 0\<rparr>, devices = ()\<rparr>"

definition sample_ram :: "nat address_space" where
  "sample_ram = add_region \<lparr>region_name = ''ram'', region_base = 0, region_size = 0x10000000, region_kind = Ram\<rparr> address_space_new"

definition sample_devices :: "(nat, unit) device_ops" where
  "sample_devices = \<lparr>device_read = (\<lambda>_ _ n s. Inr (s, replicate n 0)), device_write = (\<lambda>_ _ _ s. Inr s)\<rparr>"

definition sample_load :: decoded_instruction where
  "sample_load = \<lparr>op1_kind = Op_other, op1_register = Reg_AL, op1_immediate = 0, op0_register = Reg_EAX, op0_size = Some 4,
     decoded_code = Mov_r32_rm32, decoded_len = 3\<rparr>"

lemma word_less_bits: "a < 2 ^ 47 \<Longrightarrow> 47 \<le> n \<Longrightarrow> \<not> bit (a :: u64) n"
proof -
  assume a: "a < 2 ^ 47" and n: "47 \<le> n"
  have "unat a < 2 ^ 47" using a by (simp add: word_less_nat_alt)
  then have "take_bit 47 (unat a) = unat a" by (rule take_bit_nat_eq_self)
  then have "\<not> bit (unat a) n" using n by (metis bit_take_bit_iff leD)
  then show ?thesis by (auto simp: bit_unsigned_iff dest: bit_imp_le_length)
qed

lemma same_slices:
  fixes a b :: u64
  assumes "a < 2 ^ 47" and "b < 2 ^ 47"
    and "\<And>k. k \<in> {12, 21, 30, 39} \<Longrightarrow> take_bit 9 (drop_bit k a) = take_bit 9 (drop_bit k b)"
  shows "drop_bit 12 a = drop_bit 12 b"
proof (rule bit_eqI)
  fix n :: nat
  have slice: "bit a (k + i) = bit b (k + i)" if "k \<in> {12, 21, 30, 39}" "i < 9" for k i
    using arg_cong [OF assms(3) [OF that(1)], of "\<lambda>w. bit w i"] that(2) by (simp add: bit_simps)
  consider "n < 9" | "9 \<le> n" "n < 18" | "18 \<le> n" "n < 27" | "27 \<le> n" "n < 36" | "36 \<le> n" by linarith
  then have "bit a (12 + n) = bit b (12 + n)"
  proof cases
    case 1 then show ?thesis using slice [of 12 n] by simp
  next
    case 2 then show ?thesis using slice [of 21 "n - 9"] by simp
  next
    case 3 then show ?thesis using slice [of 30 "n - 18"] by simp
  next
    case 4 then show ?thesis using slice [of 39 "n - 27"] by simp
  next
    case 5 then show ?thesis using word_less_bits [OF assms(1), of "12 + n"] word_less_bits [OF assms(2), of "12 + n"] by simp
  qed
  then show "bit (drop_bit 12 a) n = bit (drop_bit 12 b) n" by (simp add: bit_simps)
qed

lemma sample_address_laws: "address_laws sample_pte"
proof -
  have "page_path sample_pte a = page_path sample_pte b \<longleftrightarrow> drop_bit 12 a = drop_bit 12 b" if "a < 2 ^ 47" "b < 2 ^ 47" for a b
  proof
    assume "page_path sample_pte a = page_path sample_pte b"
    then show "drop_bit 12 a = drop_bit 12 b"
      by (intro same_slices [OF that]) (auto simp: page_path_def sample_pte_def word_unat_eq_iff)
  next
    assume eq: "drop_bit 12 a = drop_bit 12 b"
    have "drop_bit (12 + k) a = drop_bit (12 + k) b" for k
      using arg_cong [OF eq, of "drop_bit k"] by (simp add: add.commute)
    from this [of 0] this [of 9] this [of 18] this [of 27] show "page_path sample_pte a = page_path sample_pte b"
      by (simp add: page_path_def sample_pte_def)
  qed
  moreover have "page_table_index sample_pte a 4 < 0x100" if "a < 2 ^ 47" for a
  proof -
    have "take_bit 9 (drop_bit 39 a) = take_bit 8 (drop_bit 39 a)"
      using word_less_bits [OF that] by (intro bit_eqI) (auto simp: bit_simps less_Suc_eq numeral_eq_Suc)
    moreover have "unat (take_bit 8 (drop_bit 39 a)) < 0x100" using take_bit_nat_less_exp [of 8] by (simp add: unsigned_take_bit_eq)
    ultimately show ?thesis by (simp add: sample_pte_def)
  qed
  ultimately show ?thesis by (simp add: address_laws_def)
qed

lemma sample_mapper_laws: "mapper_laws sample_mapper"
proof -
  have "\<exists>n\<le>3. tl h = drop n h" for h :: "u64 list" by (rule exI [of _ 1]) (simp add: drop_Suc)
  then show ?thesis
    unfolding mapper_laws_def sample_mapper_def by (auto simp: page_base_aligned split: option.splits if_splits)
qed

lemma sample_fault_env: "fault_env_ok sample_pte sample_descriptor sample_guest sample_mapper"
  by (simp add: fault_env_ok_def sample_pte_laws sample_address_laws sample_aligned virt_laws_def sample_guest_def sample_mapper_laws)

lemma sample_host_unmapped: "mapping sample_pte sample_host = Map.empty"
proof -
  have "table_along (\<lambda>e. PRESENT \<in> pte_flags sample_pte e) sample_pte sample_host q = None" if "q \<noteq> []" for q
    using that by (cases q) (auto simp: sample_pte_def sample_host_def split: option.splits)
  then have "resolve PRESENT sample_pte sample_host q = None" for q by (cases q) (simp_all add: resolve_def del: table_along.simps)
  then show ?thesis by (simp add: mapping_def fun_eq_iff)
qed

lemma sample_fault_ok: "fault_state_ok E sample_pte sample_descriptor sample_guest sample_mapper sample_fault_state"
proof -
  have "host (sample_running 1 0) = sample_host" by (simp add: sample_running_def sample_mmu_def)
  moreover have "unprivileged_access (sample_running 1 0) = 0" by (simp add: sample_running_def)
  ultimately show ?thesis
    using sample_host_ok sample_running_coherent [of 1 E 0] sample_running_ok [of 1 0]
    by (simp add: fault_state_ok_def sample_fault_state_def sample_running_view shadow_coherent_def sample_host_unmapped)
qed

lemma sample_walk_result:
  "walk_result sample_env sample_descriptor sample_guest (if True then Write else Read) (unmasked_address 0x10) (mmu sample_fault_state)
     = Inr (Inr 0x10)"
proof -
  have "unmasked_address 0x10 = 0x10" by (simp add: unmasked_address_def)
  then show ?thesis by (simp add: walk_result_def sample_fault_state_def sample_table sample_level sample_walks)
qed

lemma sample_heap: "6 \<le> length (heap (host (mmu sample_fault_state)))"
  by (simp add: sample_fault_state_def sample_running_def sample_mmu_def sample_paths)

lemma sample_frame: "frame_available sample_env sample_mapper sample_ram sample_fault_state 0x10 0x4000000000"
proof -
  have "find_region sample_env sample_ram 0x10
      = Inr (Some \<lparr>region_name = ''ram'', region_base = 0, region_size = 0x10000000, region_kind = Ram\<rparr>)"
    by (simp add: find_region_def sample_ram_def add_region_def address_space_new_def u64_add_def)
  moreover have "heap (host (mmu sample_fault_state)) \<noteq> []" using sample_heap by auto
  moreover have "window sample_fault_state = Map.empty" by (simp add: sample_fault_state_def)
  ultimately show ?thesis
    by (simp add: frame_available_def sample_mapper_def align_down_page_def VIRT_GUEST_EMULATED_GUEST_PHYSICAL_START_def)
qed

lemma sample_virt: "virt_add sample_guest GUEST_PHYSICAL_START 0x10 = Inr (GUEST_PHYSICAL_START + 0x10)"
  by (simp add: sample_guest_def)

lemma sample_low: "(0x10 :: u64) < 2 ^ 40"
  by simp

theorem shadow_paging_sound_witness:
  "\<exists>st'. page_fault_exception sample_env EPT sample_pte sample_descriptor sample_guest sample_mapper sample_devices sample_load
       sample_ram 0x10 True sample_fault_state = Inr (st', Handled)
     \<and> fault_state_ok sample_env sample_pte sample_descriptor sample_guest sample_mapper st'"
proof -
  obtain st' where "page_fault_exception sample_env EPT sample_pte sample_descriptor sample_guest sample_mapper sample_devices
      sample_load sample_ram 0x10 True sample_fault_state = Inr (st', Handled)"
    using fault_resolves [OF sample_fault_env sample_fault_ok sample_heap sample_low sample_walk_result sample_virt sample_frame]
    by blast
  then show ?thesis using shadow_paging_sound [OF sample_fault_env sample_fault_ok sample_heap sample_low] by blast
qed

theorem guest_fault_resolved_witness:
  "\<exists>st'. page_fault_exception sample_env EPT sample_pte sample_descriptor sample_guest sample_mapper sample_devices sample_load
       sample_ram 0x10 True sample_fault_state = Inr (st', Handled)
     \<and> mapping sample_pte (host (mmu st')) = [[0, 0, 0, 0] \<mapsto> 0x4000000000]"
proof -
  have "page_path sample_pte (page_base 0x10) = [0, 0, 0, 0]" by (simp add: page_base_def page_path_def sample_pte_def)
  moreover have "mapping sample_pte (host (mmu sample_fault_state)) = Map.empty"
    by (simp add: sample_fault_state_def sample_running_def sample_mmu_def sample_host_unmapped)
  ultimately show ?thesis
    using guest_fault_resolved [OF sample_fault_env sample_fault_ok sample_heap sample_low sample_walk_result sample_virt
        sample_frame, of sample_devices sample_load] by simp
qed

end
