(* ===== verification/X86_Instruction.thy ===== *)
theory X86_Instruction
  imports X86_Node
begin

text \<open>
  The host instructions the emitter appends to a block, their operands and the registers they use and
  define (\<open>brig/dbt/src/x86/encoder/mod.rs\<close>).  The opcodes are grouped by the arms of
  \<open>get_operands_mut\<close>, which treats the members of a group alike.
\<close>

section \<open>Opcodes\<close>

datatype move_op = MOV | MOVZX | MOVSX | MOVQ | MOVD | LEA | CMOVE | CMOVNE | CVTSI2SD | CVTSI2SS | CVTSD2SI | CVTSS2SD
  | CVTSS2SI | CVTTSS2SI | CVTSD2SS | SQRTSS | SQRTSD

datatype alu_op = SHL | SHR | SAR | OR_I | XOR_I | ADD | SUB | AND_I | IMUL | ADDPD | ADDPS | SUBPD | DIVPD | DIVPS | SUBPS
  | MULPD | MULPS | PUNPCKL | PUNPCKLWD | PUNPCKLQDQ

datatype predicated_op = CMPPD | CMPPS | PSHUFLW

datatype wide_op = MUL | IMUL1

datatype double_shift_op = SHRD | SHLD

datatype divide_op = IDIV | DIV

datatype jump_op = JMP | JNE | JE

datatype test_op = TEST | CMP

datatype set_op = SETE | SETNE | SETNZ | SETB | SETBE | SETA | SETG | SETAE | SETS | SETO | SETC | SETGE | SETL | SETLE

datatype unary_op = NOT_I | NEG | INC

datatype opcode =
    MoveI move_op operand operand
  | AluI alu_op operand operand
  | PredicatedI predicated_op operand operand operand
  | WideI wide_op operand operand operand
  | DoubleShiftI double_shift_op operand operand operand
  | DivideI divide_op operand
  | JumpI jump_op operand
  | CALL operand nat nat
  | RET | NOP
  | TestI test_op operand operand
  | SetI set_op operand
  | UnaryI unary_op operand
  | BEXTR operand operand operand
  | INT_I operand
  | ADC operand operand operand
  | PINSR operand operand operand
  | PEXTR operand operand operand
  | PUSH operand | POP operand
  | DEAD
  | OUT operand operand
  | CQO | LABEL
  | CMPXCHG operand operand
  | PTWRITE operand

section \<open>Operands\<close>

definition preg :: "width \<Rightarrow> physical_register \<Rightarrow> operand res" where
  "preg w r = (if is_gpr r \<and> w = W128 then Inl ExplicitPanic else Inr \<lparr>operand_kind = RegisterO (PhysicalR r), width_in_bits = w\<rparr>)"

definition mem_base_displ :: "width \<Rightarrow> x86_register \<Rightarrow> int \<Rightarrow> operand" where
  "mem_base_displ w base displacement = \<lparr>operand_kind = MemoryO (Some base) None S1 displacement None, width_in_bits = w\<rparr>"

definition as_register :: "operand \<Rightarrow> x86_register option" where
  "as_register op = (case operand_kind op of RegisterO r \<Rightarrow> Some r | _ \<Rightarrow> None)"

definition ARG_REGS :: "physical_register list" where
  "ARG_REGS = [RDI, RSI, RDX, RCX, R8, R9]"

definition CALLER_SAVED :: "physical_register list" where
  "CALLER_SAVED = [RAX, RDI, RSI, RDX, RCX, R8, R9, R10, R11]"

text \<open>\<open>OperandDirection::None\<close> is left out: no operand has it.\<close>

datatype operand_direction = In | Out | InOut

text \<open>The operands of an instruction, with those that its encoding leaves implicit.\<close>

fun get_apparent_operands :: "opcode \<Rightarrow> (operand_direction \<times> operand) list res" where
  "get_apparent_operands (MoveI _ src dst) = Inr [(In, src), (Out, dst)]"
| "get_apparent_operands (AluI _ src dst) = Inr [(In, src), (InOut, dst)]"
| "get_apparent_operands (PredicatedI _ src dst predicate) = Inr [(In, src), (InOut, dst), (In, predicate)]"
| "get_apparent_operands (WideI _ src dst_lo dst_hi) = Inr [(In, src), (InOut, dst_lo), (Out, dst_hi)]"
| "get_apparent_operands (DoubleShiftI _ amount hi lo) = Inr [(In, amount), (In, lo), (InOut, hi)]"
| "get_apparent_operands (DivideI _ divisor) =
     rbind (preg (width_in_bits divisor) RDX) (\<lambda>rdx. rbind (preg (width_in_bits divisor) RAX) (\<lambda>rax.
     Inr [(InOut, rdx), (InOut, rax), (In, divisor)]))"
| "get_apparent_operands (JumpI _ tgt) = Inr [(In, tgt)]"
| "get_apparent_operands RET = Inr []"
| "get_apparent_operands NOP = Inr []"
| "get_apparent_operands (TestI _ op0 op1) = Inr [(In, op0), (In, op1)]"
| "get_apparent_operands (SetI _ r) = Inr [(Out, r)]"
| "get_apparent_operands (UnaryI _ r) = Inr [(InOut, r)]"
| "get_apparent_operands (BEXTR ctrl src dst) = Inr [(In, ctrl), (In, src), (Out, dst)]"
| "get_apparent_operands (PINSR idx src dst) = Inr [(In, idx), (In, src), (InOut, dst)]"
| "get_apparent_operands (PEXTR idx src dst) = Inr [(In, idx), (In, src), (Out, dst)]"
| "get_apparent_operands (INT_I n) = Inr [(In, n)]"
| "get_apparent_operands (ADC a b c) = Inr [(In, a), (In, b), (InOut, c)]"
| "get_apparent_operands (PUSH src) = Inr [(In, src)]"
| "get_apparent_operands (POP dest) = Inr [(Out, dest)]"
| "get_apparent_operands DEAD = Inr []"
| "get_apparent_operands (OUT port v) = Inr [(In, port), (In, v)]"
| "get_apparent_operands (CALL f nr_input_args nr_output_args) =
     rbind (mapR (preg W64) (take nr_input_args ARG_REGS)) (\<lambda>ins.
     rbind (mapR (preg W64) (take nr_output_args [RAX, RDX])) (\<lambda>outs.
     Inr ((In, f) # map (Pair In) ins @ map (Pair Out) outs)))"
| "get_apparent_operands LABEL = Inr []"
| "get_apparent_operands CQO = rbind (preg W64 RAX) (\<lambda>rax. rbind (preg W64 RDX) (\<lambda>rdx. Inr [(InOut, rax), (Out, rdx)]))"
| "get_apparent_operands (CMPXCHG src dst) = rbind (preg W64 RAX) (\<lambda>rax. Inr [(In, src), (InOut, dst), (In, rax)])"
| "get_apparent_operands (PTWRITE src) = Inr [(In, src)]"

datatype use_def = Use x86_register | Def x86_register | UseDef x86_register

fun from_operand_direction :: "operand_direction \<Rightarrow> x86_register \<Rightarrow> use_def" where
  "from_operand_direction In r = Use r"
| "from_operand_direction Out r = Def r"
| "from_operand_direction InOut r = UseDef r"

fun operand_use_defs :: "operand_direction \<times> operand \<Rightarrow> use_def list" where
  "operand_use_defs (direction, op) =
     (case operand_kind op of
        MemoryO (Some base) None _ _ _ \<Rightarrow> [Use base]
      | MemoryO (Some base) (Some idx) _ _ _ \<Rightarrow> [Use base, Use idx]
      | RegisterO r \<Rightarrow> [from_operand_direction direction r]
      | _ \<Rightarrow> [])"

definition get_use_defs :: "opcode \<Rightarrow> use_def list res" where
  "get_use_defs instr = rbind (get_apparent_operands instr) (\<lambda>ops. Inr (concat (map operand_use_defs ops)))"

text \<open>The explicit operands, in place: \<open>get_operands_mut\<close> followed by a change of each.\<close>

fun map_operands :: "(operand \<Rightarrow> operand res) \<Rightarrow> opcode \<Rightarrow> opcode res" where
  "map_operands f (MoveI k a b) = rbind (f a) (\<lambda>a. rbind (f b) (\<lambda>b. Inr (MoveI k a b)))"
| "map_operands f (AluI k a b) = rbind (f a) (\<lambda>a. rbind (f b) (\<lambda>b. Inr (AluI k a b)))"
| "map_operands f (PredicatedI k a b c) = rbind (f a) (\<lambda>a. rbind (f b) (\<lambda>b. rbind (f c) (\<lambda>c. Inr (PredicatedI k a b c))))"
| "map_operands f (WideI k a b c) = rbind (f a) (\<lambda>a. rbind (f b) (\<lambda>b. rbind (f c) (\<lambda>c. Inr (WideI k a b c))))"
| "map_operands f (DoubleShiftI k amount hi lo) =
     rbind (f amount) (\<lambda>amount. rbind (f lo) (\<lambda>lo. rbind (f hi) (\<lambda>hi. Inr (DoubleShiftI k amount hi lo))))"
| "map_operands f (DivideI k a) = rbind (f a) (\<lambda>a. Inr (DivideI k a))"
| "map_operands f (JumpI k a) = rbind (f a) (\<lambda>a. Inr (JumpI k a))"
| "map_operands f (CALL a m n) = rbind (f a) (\<lambda>a. Inr (CALL a m n))"
| "map_operands f RET = Inr RET"
| "map_operands f NOP = Inr NOP"
| "map_operands f (TestI k a b) = rbind (f a) (\<lambda>a. rbind (f b) (\<lambda>b. Inr (TestI k a b)))"
| "map_operands f (SetI k a) = rbind (f a) (\<lambda>a. Inr (SetI k a))"
| "map_operands f (UnaryI k a) = rbind (f a) (\<lambda>a. Inr (UnaryI k a))"
| "map_operands f (BEXTR a b c) = rbind (f a) (\<lambda>a. rbind (f b) (\<lambda>b. rbind (f c) (\<lambda>c. Inr (BEXTR a b c))))"
| "map_operands f (INT_I a) = rbind (f a) (\<lambda>a. Inr (INT_I a))"
| "map_operands f (ADC a b c) = rbind (f a) (\<lambda>a. rbind (f b) (\<lambda>b. rbind (f c) (\<lambda>c. Inr (ADC a b c))))"
| "map_operands f (PINSR a b c) = rbind (f a) (\<lambda>a. rbind (f b) (\<lambda>b. rbind (f c) (\<lambda>c. Inr (PINSR a b c))))"
| "map_operands f (PEXTR a b c) = rbind (f a) (\<lambda>a. rbind (f b) (\<lambda>b. rbind (f c) (\<lambda>c. Inr (PEXTR a b c))))"
| "map_operands f (PUSH a) = rbind (f a) (\<lambda>a. Inr (PUSH a))"
| "map_operands f (POP a) = rbind (f a) (\<lambda>a. Inr (POP a))"
| "map_operands f DEAD = Inl ExplicitPanic"
| "map_operands f (OUT a b) = rbind (f a) (\<lambda>a. rbind (f b) (\<lambda>b. Inr (OUT a b)))"
| "map_operands f CQO = Inr CQO"
| "map_operands f LABEL = Inr LABEL"
| "map_operands f (CMPXCHG a b) = rbind (f a) (\<lambda>a. rbind (f b) (\<lambda>b. Inr (CMPXCHG a b)))"
| "map_operands f (PTWRITE a) = rbind (f a) (\<lambda>a. Inr (PTWRITE a))"

section \<open>Checked constructors\<close>

definition register_class_of :: "operand \<Rightarrow> register_class option" where
  "register_class_of op = Option.bind (as_register op) class_of_register"

datatype instruction_error =
    MovWidthMismatch operand operand
  | MovImmediateXmm operand operand
  | OversizeGeneralRegister operand
  | MovZeroExtendDestinationNotGreater operand operand
  | TestImmediates
  | MovZxXmm
  | MovqSameClass "register_class option"
  | MovqDifferentWidths width width
  | MovdSameClass "register_class option"
  | MovdDifferentWidths width width
  | MovDifferentClass register_class register_class

definition is_immediate :: "operand \<Rightarrow> bool" where
  "is_immediate op = (case operand_kind op of ImmediateO _ \<Rightarrow> True | _ \<Rightarrow> False)"

definition is_physical_gpr :: "operand \<Rightarrow> bool" where
  "is_physical_gpr op = (case operand_kind op of RegisterO (PhysicalR r) \<Rightarrow> is_gpr r | _ \<Rightarrow> False)"

definition mov :: "operand \<Rightarrow> operand \<Rightarrow> instruction_error + opcode" where
  "mov src dst =
     (if width_in_bits src = W128 \<and> is_physical_gpr src then Inl (OversizeGeneralRegister src)
      else if width_in_bits dst = W128 \<and> is_physical_gpr dst then Inl (OversizeGeneralRegister dst)
      else if width_in_bits src \<noteq> W128 \<and> width_in_bits src \<noteq> width_in_bits dst then Inl (MovWidthMismatch src dst)
      else if is_immediate src \<and> width_in_bits src = W128 then Inl (MovImmediateXmm src dst)
      else case (register_class_of src, register_class_of dst) of
             (Some s, Some d) \<Rightarrow> if s \<noteq> d then Inl (MovDifferentClass s d) else Inr (MoveI MOV src dst)
           | _ \<Rightarrow> Inr (MoveI MOV src dst))"

definition movzx :: "operand \<Rightarrow> operand \<Rightarrow> instruction_error + opcode" where
  "movzx src dst =
     (if as_u16 (width_in_bits dst) \<le> as_u16 (width_in_bits src) then Inl (MovZeroExtendDestinationNotGreater src dst)
      else if is_immediate src \<and> width_in_bits dst = W128 then Inl (MovImmediateXmm src dst)
      else if register_class_of src = Some Xmm then Inl MovZxXmm
      else if register_class_of dst = Some Xmm then Inl MovZxXmm
      else Inr (MoveI MOVZX src dst))"

definition movd :: "operand \<Rightarrow> operand \<Rightarrow> instruction_error + opcode" where
  "movd src dst =
     (if register_class_of src = register_class_of dst then Inl (MovdSameClass (register_class_of src))
      else if width_in_bits src \<noteq> width_in_bits dst then Inl (MovdDifferentWidths (width_in_bits src) (width_in_bits dst))
      else Inr (MoveI MOVD src dst))"

definition movq :: "operand \<Rightarrow> operand \<Rightarrow> instruction_error + opcode" where
  "movq src dst =
     (if is_immediate src \<and> register_class_of dst = Some Xmm then Inl (MovImmediateXmm src dst)
      else if register_class_of src = register_class_of dst then Inl (MovqSameClass (register_class_of src))
      else if width_in_bits src \<noteq> width_in_bits dst then Inl (MovqDifferentWidths (width_in_bits src) (width_in_bits dst))
      else Inr (MoveI MOVQ src dst))"

definition movsx :: "operand \<Rightarrow> operand \<Rightarrow> opcode res" where
  "movsx src dst =
     (if as_u16 (width_in_bits src) < as_u16 (width_in_bits dst) then Inr (MoveI MOVSX src dst) else Inl AssertFailed)"

definition shr :: "operand \<Rightarrow> operand \<Rightarrow> opcode res" where
  "shr amount op0 =
     (if 64 < as_u16 (width_in_bits op0) \<and> (case operand_kind amount of ImmediateO n \<Rightarrow> n mod 8 \<noteq> 0 | _ \<Rightarrow> False)
      then Inl ExplicitPanic else Inr (AluI SHR amount op0))"

definition test :: "operand \<Rightarrow> operand \<Rightarrow> instruction_error + opcode" where
  "test op0 op1 = (if is_immediate op0 \<and> is_immediate op1 then Inl TestImmediates else Inr (TestI TEST op0 op1))"

end
