(* ===== verification/Register_Allocator.thy ===== *)
theory Register_Allocator
  imports X86_Instruction
begin

text \<open>
  The register allocator of the back end, \<open>brig/dbt/src/x86/register_allocator.rs\<close>: live ranges are computed
  in one pass over the instructions, physical registers assigned in a second, backward one, and the
  assignment is written into the instructions in a third, which also saves registers around calls.
  A \<open>PhysicalRegisterSet\<close>, an array of flags indexed by register, is a set of registers here.
\<close>

section \<open>Tracking\<close>

type_synonym register_set = "physical_register set"

definition first_difference :: "register_set \<Rightarrow> register_set \<Rightarrow> physical_register option" where
  "first_difference this other = find (\<lambda>r. r \<in> this \<and> r \<notin> other) all_registers"

definition set_iter :: "register_set \<Rightarrow> physical_register list" where
  "set_iter s = filter (\<lambda>r. r \<in> s) all_registers"

record register_track =
  first_def :: "nat option"
  last_use :: "nat option"
  physical_register :: "physical_register option"
  tracking :: "x86_register option"
  interference :: register_set
  last_control_flow_count :: int

definition register_track_default :: register_track where
  "register_track_default = \<lparr>first_def = None, last_use = None, physical_register = None, tracking = None,
     interference = {}, last_control_flow_count = 0\<rparr>"

record register_tracker =
  virt :: "register_track list"
  phys :: "physical_register \<Rightarrow> register_track"

definition register_tracker_new :: "nat \<Rightarrow> register_tracker" where
  "register_tracker_new n = \<lparr>virt = replicate n register_track_default, phys = (\<lambda>_. register_track_default)\<rparr>"

fun get_track :: "register_tracker \<Rightarrow> x86_register \<Rightarrow> register_track res" where
  "get_track t (PhysicalR p) = Inr (phys t p)"
| "get_track t (VirtualR v _) = (if v < length (virt t) then Inr (virt t ! v) else Inl IndexOutOfBounds)"
| "get_track t (GlobalR _) = Inl ExplicitPanic"

fun update_track :: "x86_register \<Rightarrow> (register_track \<Rightarrow> register_track) \<Rightarrow> register_tracker \<Rightarrow> register_tracker res" where
  "update_track (PhysicalR p) f t = Inr (t\<lparr>phys := (phys t)(p := f (phys t p))\<rparr>)"
| "update_track (VirtualR v _) f t =
     (if v < length (virt t) then Inr (t\<lparr>virt := (virt t)[v := f (virt t ! v)]\<rparr>) else Inl IndexOutOfBounds)"
| "update_track (GlobalR _) f t = Inl ExplicitPanic"

fun ud_register :: "use_def \<Rightarrow> x86_register" where
  "ud_register (Use r) = r" | "ud_register (Def r) = r" | "ud_register (UseDef r) = r"

fun has_use :: "use_def \<Rightarrow> bool" where
  "has_use (Use _) = True" | "has_use (Def _) = False" | "has_use (UseDef _) = True"

fun has_def :: "use_def \<Rightarrow> bool" where
  "has_def (Use _) = False" | "has_def (Def _) = True" | "has_def (UseDef _) = True"

fun is_usedef :: "use_def \<Rightarrow> bool" where
  "is_usedef (Use _) = False" | "is_usedef (Def _) = False" | "is_usedef (UseDef _) = True"

fun is_virtual :: "x86_register \<Rightarrow> bool" where
  "is_virtual (VirtualR _ _) = True" | "is_virtual (PhysicalR _) = False" | "is_virtual (GlobalR _) = False"

section \<open>Live ranges\<close>

definition is_cmovne :: "opcode \<Rightarrow> bool" where
  "is_cmovne instr = (case instr of MoveI k _ _ \<Rightarrow> k = CMOVNE | _ \<Rightarrow> False)"

definition is_jump :: "opcode \<Rightarrow> bool" where
  "is_jump instr = (case instr of JumpI _ _ \<Rightarrow> True | _ \<Rightarrow> False)"

definition range_def :: "nat \<Rightarrow> opcode \<Rightarrow> int \<Rightarrow> use_def \<Rightarrow> register_tracker \<times> opcode list \<Rightarrow> (register_tracker \<times> opcode list) res" where
  "range_def current instr count ud = (\<lambda>(t, instrs).
     rbind (get_track t (ud_register ud)) (\<lambda>tr.
     case first_def tr of
       None \<Rightarrow>
         rbind (update_track (ud_register ud) (\<lambda>tr. tr\<lparr>first_def := Some current, last_control_flow_count := count\<rparr>) t) (\<lambda>t.
         Inr (t, instrs))
     | Some f \<Rightarrow>
         if is_cmovne instr then
           rbind (update_track (ud_register ud) (\<lambda>tr. tr\<lparr>last_use := Some current\<rparr>) t) (\<lambda>t. Inr (t, instrs))
         else if last_use tr = None \<and> \<not> is_usedef ud \<and> last_control_flow_count tr = count then
           (if f < length instrs
            then rbind (update_track (ud_register ud) (\<lambda>tr. tr\<lparr>first_def := Some current\<rparr>) t) (\<lambda>t. Inr (t, instrs[f := DEAD]))
            else Inl IndexOutOfBounds)
         else Inr (t, instrs)))"

definition range_use :: "nat \<Rightarrow> use_def \<Rightarrow> register_tracker \<times> opcode list \<Rightarrow> (register_tracker \<times> opcode list) res" where
  "range_use current ud = (\<lambda>(t, instrs).
     rbind (update_track (ud_register ud) (\<lambda>tr. tr\<lparr>last_use := Some current\<rparr>) t) (\<lambda>t. Inr (t, instrs)))"

definition range_step :: "nat \<Rightarrow> register_tracker \<times> opcode list \<times> int \<Rightarrow> (register_tracker \<times> opcode list \<times> int) res" where
  "range_step current = (\<lambda>(t, instrs, count).
     let instr = instrs ! current;
         count = (if is_jump instr then count + 1 else count)
     in rbind (get_use_defs instr) (\<lambda>uds.
        rbind (foldR (range_def current instr count)
                 (filter (\<lambda>ud. has_def ud \<and> is_virtual (ud_register ud)) uds) (t, instrs)) (\<lambda>s.
        rbind (foldR (range_use current) (filter (\<lambda>ud. has_use ud \<and> is_virtual (ud_register ud)) uds) s) (\<lambda>(t, instrs).
        Inr (t, instrs, count)))))"

definition calculate_vreg_live_ranges :: "register_tracker \<Rightarrow> opcode list \<Rightarrow> (register_tracker \<times> opcode list) res" where
  "calculate_vreg_live_ranges t instrs =
     rbind (foldR range_step [0..<length instrs] (t, instrs, 0)) (\<lambda>(t, instrs, _). Inr (t, instrs))"

section \<open>Allocation\<close>

definition avail_phys_regs_gpr :: register_set where
  "avail_phys_regs_gpr = {RAX, RCX, RDX, RBX, RSI, RDI, R8, R9, R10, R11, R12, R13, R14}"

definition avail_phys_regs_xmm :: register_set where
  "avail_phys_regs_xmm = {XMM0, XMM1, XMM2, XMM3, XMM4, XMM5, XMM6, XMM7}"

definition allocate_phys_reg :: "register_class \<Rightarrow> register_set \<Rightarrow> physical_register res" where
  "allocate_phys_reg class in_use =
     (case first_difference (case class of General \<Rightarrow> avail_phys_regs_gpr | Xmm \<Rightarrow> avail_phys_regs_xmm) in_use of
        None \<Rightarrow> Inl UnwrapFailed
      | Some p \<Rightarrow> Inr p)"

text \<open>The loop that ends every change of the live set: whatever a live register tracks interferes with them all.\<close>

definition extend_interference :: "register_set \<Rightarrow> physical_register \<Rightarrow> register_tracker \<Rightarrow> register_tracker res" where
  "extend_interference live p t =
     (if p \<in> live then
        case tracking (phys t p) of
          None \<Rightarrow> Inl UnwrapFailed
        | Some r \<Rightarrow> update_track r (\<lambda>tr. tr\<lparr>interference := interference tr \<union> live\<rparr>) t
      else Inr t)"

definition update_interferences :: "register_set \<Rightarrow> register_tracker \<Rightarrow> register_tracker res" where
  "update_interferences live =
     foldR (extend_interference live) (set_iter avail_phys_regs_gpr @ set_iter avail_phys_regs_xmm)"

type_synonym scan_state = "register_tracker \<times> register_set"

definition is_load :: "opcode \<Rightarrow> bool" where
  "is_load instr =
     (case instr of MoveI k src _ \<Rightarrow> k = MOV \<and> (case operand_kind src of MemoryO _ _ _ _ _ \<Rightarrow> True | _ \<Rightarrow> False) | _ \<Rightarrow> False)"

text \<open>One definition; the flag says that the rest of the instruction is skipped.\<close>

fun scan_def :: "nat \<Rightarrow> opcode \<Rightarrow> x86_register \<Rightarrow> scan_state \<Rightarrow> (scan_state \<times> bool) res" where
  "scan_def current instr (VirtualR v class) (t, live) =
     rbind (get_track t (VirtualR v class)) (\<lambda>tr.
     if first_def tr = Some current then
       (case last_use tr of
          None \<Rightarrow>
            if is_load instr then
              (if physical_register tr = None then
                 rbind (allocate_phys_reg class (interference tr)) (\<lambda>p.
                 rbind (update_track (VirtualR v class) (\<lambda>tr. tr\<lparr>physical_register := Some p\<rparr>) t) (\<lambda>t.
                 Inr ((t, live), False)))
               else Inl AssertFailed)
            else Inr ((t, live), True)
        | Some _ \<Rightarrow>
            (case physical_register tr of None \<Rightarrow> Inl UnwrapFailed | Some p \<Rightarrow> Inr ((t, live - {p}), False)))
     else Inr ((t, live), False))"
| "scan_def current instr (PhysicalR p) (t, live) =
     (if p \<in> live then
        let live = live - {p} in
        (case tracking (phys t p) of
           Some (VirtualR v class) \<Rightarrow>
             rbind (get_track t (VirtualR v class)) (\<lambda>tr.
             rbind (allocate_phys_reg class (interference tr)) (\<lambda>q.
             rbind (update_track (VirtualR v class) (\<lambda>tr. tr\<lparr>physical_register := Some q\<rparr>) t) (\<lambda>t.
             rbind (update_track (PhysicalR q) (\<lambda>tr. tr\<lparr>tracking := Some (VirtualR v class)\<rparr>) t) (\<lambda>t.
             let live = insert q live in
             rbind (update_track (VirtualR v class) (\<lambda>tr. tr\<lparr>interference := live\<rparr>) t) (\<lambda>t.
             rbind (update_interferences live t) (\<lambda>t. Inr ((t, live), False)))))))
         | _ \<Rightarrow> Inr ((t, live), False))
      else Inr ((t, live), False))"
| "scan_def current instr (GlobalR _) s = Inr (s, False)"

fun scan_defs :: "nat \<Rightarrow> opcode \<Rightarrow> x86_register list \<Rightarrow> scan_state \<Rightarrow> (scan_state \<times> bool) res" where
  "scan_defs current instr [] s = Inr (s, False)"
| "scan_defs current instr (r # rs) s =
     rbind (scan_def current instr r s) (\<lambda>(s, skip). if skip then Inr (s, True) else scan_defs current instr rs s)"

fun scan_use :: "nat \<Rightarrow> x86_register \<Rightarrow> scan_state \<Rightarrow> scan_state res" where
  "scan_use current (VirtualR v class) (t, live) =
     rbind (get_track t (VirtualR v class)) (\<lambda>tr.
     if last_use tr = Some current \<and> physical_register tr = None then
       rbind (allocate_phys_reg class live) (\<lambda>p.
       let live = insert p live in
       rbind (update_track (VirtualR v class) (\<lambda>tr. tr\<lparr>physical_register := Some p, interference := live\<rparr>) t) (\<lambda>t.
       rbind (update_track (PhysicalR p) (\<lambda>tr. tr\<lparr>tracking := Some (VirtualR v class)\<rparr>) t) (\<lambda>t.
       rbind (update_interferences live t) (\<lambda>t. Inr (t, live)))))
     else Inr (t, live))"
| "scan_use current (PhysicalR p) (t, live) =
     (if p \<in> live \<and> tracking (phys t p) \<noteq> Some (PhysicalR p) then
        (case tracking (phys t p) of
           None \<Rightarrow> Inl UnwrapFailed
         | Some r \<Rightarrow>
             rbind (get_track t r) (\<lambda>tr.
             rbind (allocate_phys_reg (if is_gpr p then General else Xmm) (interference tr)) (\<lambda>q.
             let live = insert q live in
             rbind (update_track r (\<lambda>tr. tr\<lparr>physical_register := Some q, interference := interference tr \<union> live\<rparr>) t) (\<lambda>t.
             rbind (update_track (PhysicalR q) (\<lambda>tr. tr\<lparr>tracking := Some r\<rparr>) t) (\<lambda>t.
             rbind (update_interferences live t) (\<lambda>t.
             rbind (update_track (PhysicalR p) (\<lambda>tr. tr\<lparr>tracking := Some (PhysicalR p)\<rparr>) t) (\<lambda>t.
             Inr (t, live))))))))
      else
        let live' = insert p live in
        rbind (update_track (PhysicalR p) (\<lambda>tr. tr\<lparr>tracking := Some (PhysicalR p), interference := live'\<rparr>) t) (\<lambda>t.
        rbind (update_interferences live' t) (\<lambda>t. Inr (t, live'))))"
| "scan_use current (GlobalR _) s = Inr s"

definition is_call :: "opcode \<Rightarrow> bool" where
  "is_call instr = (case instr of CALL _ _ _ \<Rightarrow> True | _ \<Rightarrow> False)"

type_synonym calls = "(nat \<times> register_set) list"

definition scan_instruction :: "nat \<times> opcode \<Rightarrow> scan_state \<times> calls \<Rightarrow> (scan_state \<times> calls) res" where
  "scan_instruction = (\<lambda>(current, instr) (s, calls).
     rbind (get_use_defs instr) (\<lambda>uds.
     rbind (scan_defs current instr (map ud_register (filter has_def uds)) s) (\<lambda>(s, skip).
     if skip then Inr (s, calls)
     else rbind (foldR (scan_use current) (map ud_register (filter has_use uds)) s) (\<lambda>s.
          Inr (s, if is_call instr then calls @ [(current, snd s)] else calls)))))"

definition do_allocate :: "register_tracker \<Rightarrow> opcode list \<Rightarrow> (register_tracker \<times> calls) res" where
  "do_allocate t instrs =
     rbind (foldR scan_instruction (rev (List.enumerate 0 instrs)) ((t, {}), [])) (\<lambda>((t, _), calls). Inr (t, calls))"

section \<open>Writing the assignment\<close>

definition replace_global :: "nat \<Rightarrow> operand \<Rightarrow> operand res" where
  "replace_global global_register_offset op =
     (case operand_kind op of
        RegisterO (GlobalR idx) \<Rightarrow>
          (let displacement = global_register_offset + idx * 16 in
           if displacement < 2 ^ 31 then Inr (mem_base_displ (width_in_bits op) (PhysicalR RBP) (int displacement)) else Inl UnwrapFailed)
      | _ \<Rightarrow> Inr op)"

fun commit_register :: "register_tracker \<Rightarrow> x86_register \<Rightarrow> x86_register res" where
  "commit_register t (VirtualR v class) =
     rbind (get_track t (VirtualR v class)) (\<lambda>tr.
     case physical_register tr of None \<Rightarrow> Inl ExplicitPanic | Some p \<Rightarrow> Inr (PhysicalR p))"
| "commit_register t r = Inr r"

definition commit_operand :: "register_tracker \<Rightarrow> operand \<Rightarrow> operand res" where
  "commit_operand t op =
     (case operand_kind op of
        MemoryO (Some base) None s d sg \<Rightarrow>
          rbind (commit_register t base) (\<lambda>base. Inr (op\<lparr>operand_kind := MemoryO (Some base) None s d sg\<rparr>))
      | MemoryO (Some base) (Some idx) s d sg \<Rightarrow>
          rbind (commit_register t base) (\<lambda>base. rbind (commit_register t idx) (\<lambda>idx.
          Inr (op\<lparr>operand_kind := MemoryO (Some base) (Some idx) s d sg\<rparr>)))
      | RegisterO r \<Rightarrow> rbind (commit_register t r) (\<lambda>r. Inr (op\<lparr>operand_kind := RegisterO r\<rparr>))
      | _ \<Rightarrow> Inr op)"

definition commit_operands :: "register_tracker \<Rightarrow> nat \<Rightarrow> opcode \<Rightarrow> opcode res" where
  "commit_operands t global_register_offset instr =
     rbind (map_operands (replace_global global_register_offset) instr) (map_operands (commit_operand t))"

definition kill_redundant_mov :: "opcode \<Rightarrow> opcode" where
  "kill_redundant_mov instr =
     (case instr of
        MoveI k src dst \<Rightarrow> if k = MOV \<and> src = dst \<and> width_in_bits src \<noteq> W32 then DEAD else instr
      | _ \<Rightarrow> instr)"

definition set_instr :: "opcode list \<Rightarrow> nat \<Rightarrow> opcode \<Rightarrow> opcode list res" where
  "set_instr instrs i instr = (if i < length instrs then Inr (instrs[i := instr]) else Inl IndexOutOfBounds)"

definition registers_to_save :: "register_set \<Rightarrow> nat \<Rightarrow> physical_register \<Rightarrow> physical_register list" where
  "registers_to_save live_registers nr_input_args fn_ptr_register =
     filter (\<lambda>r. r \<noteq> fn_ptr_register)
       (filter (\<lambda>r. r \<notin> set (take nr_input_args ARG_REGS)) (filter (\<lambda>r. r \<in> live_registers) CALLER_SAVED))"

definition save_registers :: "nat \<Rightarrow> physical_register list \<Rightarrow> opcode list \<Rightarrow> opcode list res" where
  "save_registers i to_save instrs =
     rbind (foldR (\<lambda>(sub_index, r) instrs.
              rbind (preg W64 r) (\<lambda>op.
              let slot = length CALLER_SAVED - sub_index in
              if slot \<le> i then set_instr instrs (i - slot) (PUSH op) else Inl Overflow))
            (List.enumerate 0 to_save) instrs) (\<lambda>instrs.
     foldR (\<lambda>(sub_index, r) instrs.
       rbind (preg W64 r) (\<lambda>op. set_instr instrs (i + (length CALLER_SAVED - sub_index)) (POP op)))
       (rev (List.enumerate 0 to_save)) instrs)"

definition commit_instruction :: "register_tracker \<Rightarrow> nat \<Rightarrow> nat \<Rightarrow> opcode list \<times> calls \<Rightarrow> (opcode list \<times> calls) res" where
  "commit_instruction t global_register_offset i = (\<lambda>(instrs, calls).
     if instrs ! i = DEAD then Inr (instrs, calls)
     else
       rbind (commit_operands t global_register_offset (instrs ! i)) (\<lambda>instr.
       let instr = kill_redundant_mov instr; instrs = instrs[i := instr] in
       case instr of
         CALL f nr_input_args _ \<Rightarrow>
           (case as_register f of
              Some (PhysicalR fn_ptr_register) \<Rightarrow>
                if calls = [] then Inl ExplicitPanic
                else let (popped_idx, live_registers) = last calls in
                     if popped_idx = i then
                       rbind (save_registers i (registers_to_save live_registers nr_input_args fn_ptr_register) instrs) (\<lambda>instrs.
                       Inr (instrs, butlast calls))
                     else Inl AssertFailed
            | _ \<Rightarrow> Inl ExplicitPanic)
       | _ \<Rightarrow> Inr (instrs, calls)))"

definition commit :: "register_tracker \<Rightarrow> calls \<Rightarrow> opcode list \<Rightarrow> nat \<Rightarrow> opcode list res" where
  "commit t calls instrs global_register_offset =
     rbind (foldR (commit_instruction t global_register_offset) [0..<length instrs] (instrs, calls)) (\<lambda>(instrs, _). Inr instrs)"

definition allocate :: "opcode list \<Rightarrow> nat \<Rightarrow> nat \<Rightarrow> opcode list res" where
  "allocate instrs num_virtual_registers global_register_offset =
     rbind (calculate_vreg_live_ranges (register_tracker_new num_virtual_registers) instrs) (\<lambda>(t, instrs).
     rbind (do_allocate t instrs) (\<lambda>(t, calls). commit t calls instrs global_register_offset))"

end
