(* ===== verification/Live_Ranges.thy ===== *)
theory Live_Ranges
  imports Register_Allocator
begin

text \<open>
  What the first pass of the register allocator computes.  For code in which every definition is used, every
  use is defined and no value is overwritten before it is used, the pass leaves the instructions alone and the live range it
  gives a virtual register starts at its first definition and ends at its last use.
\<close>

section \<open>Occurrences\<close>

definition instr_uds :: "opcode list \<Rightarrow> nat \<Rightarrow> use_def list" where
  "instr_uds c k = (case get_use_defs (c ! k) of Inl _ \<Rightarrow> [] | Inr uds \<Rightarrow> uds)"

definition instr_uses :: "opcode list \<Rightarrow> nat \<Rightarrow> x86_register list" where
  "instr_uses c k = map ud_register (filter has_use (instr_uds c k))"

definition instr_defs :: "opcode list \<Rightarrow> nat \<Rightarrow> x86_register list" where
  "instr_defs c k = map ud_register (filter has_def (instr_uds c k))"

text \<open>The physical registers whose next occurrence, from the given instruction on, is a use.\<close>

definition live_physicals :: "opcode list \<Rightarrow> nat \<Rightarrow> register_set" where
  "live_physicals c k = {p. \<exists>j\<ge>k. j < length c \<and> PhysicalR p \<in> set (instr_uses c j)
     \<and> (\<forall>m. k \<le> m \<and> m < j \<longrightarrow> PhysicalR p \<notin> set (instr_defs c m))}"

definition used_after :: "opcode list \<Rightarrow> x86_register \<Rightarrow> nat \<Rightarrow> bool" where
  "used_after c r k \<longleftrightarrow> (\<exists>j>k. j < length c \<and> r \<in> set (instr_uses c j))"

definition defined_before :: "opcode list \<Rightarrow> x86_register \<Rightarrow> nat \<Rightarrow> bool" where
  "defined_before c r k \<longleftrightarrow> (\<exists>j<k. r \<in> set (instr_defs c j))"

definition used_before :: "opcode list \<Rightarrow> x86_register \<Rightarrow> nat \<Rightarrow> bool" where
  "used_before c r k \<longleftrightarrow> (\<exists>j<k. r \<in> set (instr_uses c j))"

text \<open>The class of a virtual register is the same wherever it occurs.\<close>

definition no_dead_definitions :: "nat \<Rightarrow> (nat \<Rightarrow> register_class) \<Rightarrow> opcode list \<Rightarrow> bool" where
  "no_dead_definitions n cls c \<longleftrightarrow> (\<forall>k<length c.
     (\<exists>uds. get_use_defs (c ! k) = Inr uds) \<and> distinct (instr_defs c k)
     \<and> (\<forall>v a. VirtualR v a \<in> set (instr_uses c k) \<longrightarrow> v < n \<and> a = cls v \<and> defined_before c (VirtualR v a) k)
     \<and> (\<forall>v a. VirtualR v a \<in> set (instr_defs c k) \<longrightarrow> v < n \<and> a = cls v \<and> used_after c (VirtualR v a) k
          \<and> (defined_before c (VirtualR v a) k \<and> Def (VirtualR v a) \<in> set (instr_uds c k) \<longrightarrow> used_before c (VirtualR v a) k))
     \<and> (\<forall>p. PhysicalR p \<in> set (instr_defs c k) \<longrightarrow> p \<in> live_physicals c (k + 1)))"

lemma uds_cases:
  assumes "no_dead_definitions n cls c" and "k < length c"
  shows "get_use_defs (c ! k) = Inr (instr_uds c k)"
  using assms by (force simp: no_dead_definitions_def instr_uds_def)

lemma no_dead_definitionsD:
  assumes "no_dead_definitions n cls c" and "k < length c"
  shows "distinct (instr_defs c k)"
    "VirtualR v a \<in> set (instr_uses c k) \<Longrightarrow> v < n" "VirtualR v a \<in> set (instr_uses c k) \<Longrightarrow> a = cls v"
    "VirtualR v a \<in> set (instr_uses c k) \<Longrightarrow> defined_before c (VirtualR v a) k"
    "VirtualR v a \<in> set (instr_defs c k) \<Longrightarrow> v < n" "VirtualR v a \<in> set (instr_defs c k) \<Longrightarrow> a = cls v"
    "VirtualR v a \<in> set (instr_defs c k) \<Longrightarrow> used_after c (VirtualR v a) k"
    "VirtualR v a \<in> set (instr_defs c k) \<Longrightarrow> defined_before c (VirtualR v a) k \<Longrightarrow> Def (VirtualR v a) \<in> set (instr_uds c k)
       \<Longrightarrow> used_before c (VirtualR v a) k"
    "PhysicalR p \<in> set (instr_defs c k) \<Longrightarrow> p \<in> live_physicals c (k + 1)"
  using assms unfolding no_dead_definitions_def by blast+

section \<open>The pass\<close>

abbreviation track_of :: "register_tracker \<Rightarrow> nat \<Rightarrow> register_track" where
  "track_of t v \<equiv> virt t ! v"

definition virtual_uds :: "(use_def \<Rightarrow> bool) \<Rightarrow> use_def list \<Rightarrow> use_def list" where
  "virtual_uds sel uds = filter (\<lambda>ud. sel ud \<and> is_virtual (ud_register ud)) uds"

definition mentioned :: "use_def list \<Rightarrow> nat set" where
  "mentioned uds = {v. \<exists>ud \<in> set uds. \<exists>a. ud_register ud = VirtualR v a}"

lemma mentioned_simps [simp]:
  "mentioned [] = {}"
  "ud_register ud = VirtualR v a \<Longrightarrow> mentioned (ud # uds) = insert v (mentioned uds)"
  by (auto simp: mentioned_def)

lemma is_virtualE: "is_virtual r \<Longrightarrow> (\<And>v a. r = VirtualR v a \<Longrightarrow> P) \<Longrightarrow> P"
  by (cases r) auto

lemma range_defs_effect:
  assumes "\<forall>ud \<in> set uds. \<exists>v a. ud_register ud = VirtualR v a \<and> v < length (virt t) \<and> a = cls v
      \<and> (first_def (track_of t v) \<noteq> None \<longrightarrow> is_cmovne instr \<or> last_use (track_of t v) \<noteq> None \<or> is_usedef ud)"
    and "distinct (map ud_register uds)"
  shows "\<exists>t'. foldR (range_def k instr cnt) uds (t, c) = Inr (t', c) \<and> length (virt t') = length (virt t) \<and> phys t' = phys t
     \<and> (\<forall>v<length (virt t).
          first_def (track_of t' v) = (if v \<in> mentioned uds \<and> first_def (track_of t v) = None then Some k else first_def (track_of t v))
        \<and> last_use (track_of t' v)
            = (if v \<in> mentioned uds \<and> first_def (track_of t v) \<noteq> None \<and> is_cmovne instr then Some k else last_use (track_of t v))
        \<and> physical_register (track_of t' v) = physical_register (track_of t v))"
  using assms
proof (induction uds arbitrary: t)
  case (Cons ud uds)
  obtain v where v: "ud_register ud = VirtualR v (cls v)" "v < length (virt t)"
      "first_def (track_of t v) \<noteq> None \<longrightarrow> is_cmovne instr \<or> last_use (track_of t v) \<noteq> None \<or> is_usedef ud"
    using Cons.prems(1) by auto
  define tr where "tr = (if first_def (track_of t v) = None then (track_of t v)\<lparr>first_def := Some k, last_control_flow_count := cnt\<rparr>
      else if is_cmovne instr then (track_of t v)\<lparr>last_use := Some k\<rparr> else track_of t v)"
  let ?t = "t\<lparr>virt := (virt t)[v := tr]\<rparr>"
  have step: "range_def k instr cnt ud (t, c) = Inr (?t, c)"
    using v by (auto simp: range_def_def tr_def split: option.splits)
  have fresh: "v \<notin> mentioned uds"
  proof
    assume "v \<in> mentioned uds"
    then obtain ud' a where "ud' \<in> set uds" "ud_register ud' = VirtualR v a" by (auto simp: mentioned_def)
    moreover from this have "a = cls v" using Cons.prems(1) by auto
    ultimately show False using Cons.prems(2) v(1) by (metis distinct.simps(2) image_eqI list.simps(9) set_map)
  qed
  have "\<forall>ud \<in> set uds. \<exists>w a. ud_register ud = VirtualR w a \<and> w < length (virt ?t) \<and> a = cls w
      \<and> (first_def (track_of ?t w) \<noteq> None \<longrightarrow> is_cmovne instr \<or> last_use (track_of ?t w) \<noteq> None \<or> is_usedef ud)"
  proof
    fix ud' assume ud': "ud' \<in> set uds"
    then obtain w where w: "ud_register ud' = VirtualR w (cls w)" "w < length (virt t)"
      "first_def (track_of t w) \<noteq> None \<longrightarrow> is_cmovne instr \<or> last_use (track_of t w) \<noteq> None \<or> is_usedef ud'"
      using Cons.prems(1) by auto
    moreover from ud' w(1) fresh have "w \<noteq> v" by (auto simp: mentioned_def)
    ultimately show "\<exists>w a. ud_register ud' = VirtualR w a \<and> w < length (virt ?t) \<and> a = cls w
        \<and> (first_def (track_of ?t w) \<noteq> None \<longrightarrow> is_cmovne instr \<or> last_use (track_of ?t w) \<noteq> None \<or> is_usedef ud')" by simp
  qed
  from Cons.IH [OF this] Cons.prems(2) obtain t' where t': "foldR (range_def k instr cnt) uds (?t, c) = Inr (t', c)"
    "length (virt t') = length (virt t)" "phys t' = phys t"
    "\<forall>w<length (virt t).
          first_def (track_of t' w) = (if w \<in> mentioned uds \<and> first_def (track_of ?t w) = None then Some k else first_def (track_of ?t w))
        \<and> last_use (track_of t' w)
            = (if w \<in> mentioned uds \<and> first_def (track_of ?t w) \<noteq> None \<and> is_cmovne instr then Some k else last_use (track_of ?t w))
        \<and> physical_register (track_of t' w) = physical_register (track_of ?t w)"
    by auto
  show ?case
  proof (intro exI [of _ t'] conjI allI impI)
    show "foldR (range_def k instr cnt) (ud # uds) (t, c) = Inr (t', c)" using step t'(1) by simp
  next
    fix w assume w: "w < length (virt t)"
    show "first_def (track_of t' w) = (if w \<in> mentioned (ud # uds) \<and> first_def (track_of t w) = None then Some k else first_def (track_of t w))"
      using t'(4) [rule_format, OF w] fresh v by (cases "w = v") (auto simp: tr_def)
    show "last_use (track_of t' w)
        = (if w \<in> mentioned (ud # uds) \<and> first_def (track_of t w) \<noteq> None \<and> is_cmovne instr then Some k else last_use (track_of t w))"
      using t'(4) [rule_format, OF w] fresh v by (cases "w = v") (auto simp: tr_def)
    show "physical_register (track_of t' w) = physical_register (track_of t w)"
      using t'(4) [rule_format, OF w] fresh v by (cases "w = v") (auto simp: tr_def)
  qed (simp_all add: t')
qed simp

lemma range_uses_effect:
  assumes "\<forall>ud \<in> set uds. \<exists>v a. ud_register ud = VirtualR v a \<and> v < length (virt t)"
  shows "\<exists>t'. foldR (range_use k) uds (t, c) = Inr (t', c) \<and> length (virt t') = length (virt t) \<and> phys t' = phys t
     \<and> (\<forall>v<length (virt t). first_def (track_of t' v) = first_def (track_of t v)
        \<and> last_use (track_of t' v) = (if v \<in> mentioned uds then Some k else last_use (track_of t v))
        \<and> physical_register (track_of t' v) = physical_register (track_of t v))"
  using assms
proof (induction uds arbitrary: t)
  case (Cons ud uds)
  obtain v a where v: "ud_register ud = VirtualR v a" "v < length (virt t)" using Cons.prems by auto
  let ?t = "t\<lparr>virt := (virt t)[v := (track_of t v)\<lparr>last_use := Some k\<rparr>]\<rparr>"
  have step: "range_use k ud (t, c) = Inr (?t, c)" using v by (simp add: range_use_def)
  have "\<forall>ud \<in> set uds. \<exists>v a. ud_register ud = VirtualR v a \<and> v < length (virt ?t)" using Cons.prems by simp
  from Cons.IH [OF this] obtain t' where "foldR (range_use k) uds (?t, c) = Inr (t', c)"
    "length (virt t') = length (virt t)" "phys t' = phys t"
    "\<forall>w<length (virt t). first_def (track_of t' w) = first_def (track_of ?t w)
        \<and> last_use (track_of t' w) = (if w \<in> mentioned uds then Some k else last_use (track_of ?t w))
        \<and> physical_register (track_of t' w) = physical_register (track_of ?t w)"
    by auto
  then show ?case using step v by (intro exI [of _ t']) (auto simp: nth_list_update)
qed simp

text \<open>The live ranges after the first instructions.\<close>

definition range_upto :: "opcode list \<Rightarrow> x86_register \<Rightarrow> nat \<Rightarrow> register_track \<Rightarrow> bool" where
  "range_upto c r k tr \<longleftrightarrow>
     (\<forall>f. first_def tr = Some f \<longrightarrow> f < k \<and> r \<in> set (instr_defs c f))
     \<and> (\<forall>j<k. r \<in> set (instr_defs c j) \<longrightarrow> (\<exists>f\<le>j. first_def tr = Some f))
     \<and> (\<forall>l. last_use tr = Some l \<longrightarrow> l < k \<and> (r \<in> set (instr_uses c l) \<or> r \<in> set (instr_defs c l)))
     \<and> (\<forall>j<k. r \<in> set (instr_uses c j) \<longrightarrow> (\<exists>l\<ge>j. last_use tr = Some l))
     \<and> physical_register tr = None"

lemma range_uptoD:
  assumes "range_upto c r k tr"
  shows "first_def tr = Some f \<Longrightarrow> f < k" "first_def tr = Some f \<Longrightarrow> r \<in> set (instr_defs c f)"
    "j < k \<Longrightarrow> r \<in> set (instr_defs c j) \<Longrightarrow> \<exists>f\<le>j. first_def tr = Some f"
    "last_use tr = Some l \<Longrightarrow> l < k" "last_use tr = Some l \<Longrightarrow> r \<in> set (instr_uses c l) \<or> r \<in> set (instr_defs c l)"
    "j < k \<Longrightarrow> r \<in> set (instr_uses c j) \<Longrightarrow> \<exists>l\<ge>j. last_use tr = Some l" "physical_register tr = None"
  using assms unfolding range_upto_def by blast+

lemma range_upto_Suc:
  assumes old: "range_upto c r k tr"
    and fd: "first_def tr' = (if r \<in> set (instr_defs c k) \<and> first_def tr = None then Some k else first_def tr)"
    and lu: "last_use tr' = (if r \<in> set (instr_uses c k) then Some k else if r \<in> set (instr_defs c k) \<and> b then Some k else last_use tr)"
    and pr: "physical_register tr' = physical_register tr"
  shows "range_upto c r (Suc k) tr'"
  unfolding range_upto_def
proof (intro conjI allI impI)
  fix f assume "first_def tr' = Some f"
  then show "f < Suc k" "r \<in> set (instr_defs c f)" using fd range_uptoD(1,2) [OF old, of f] by (auto split: if_splits)
next
  fix j assume j: "j < Suc k" "r \<in> set (instr_defs c j)"
  show "\<exists>f\<le>j. first_def tr' = Some f"
  proof (cases "j = k")
    case True
    then show ?thesis using fd j(2) range_uptoD(1) [OF old] by (cases "first_def tr") auto
  next
    case False
    then show ?thesis using fd range_uptoD(3) [OF old, of j] j by auto
  qed
next
  fix l assume "last_use tr' = Some l"
  then show "l < Suc k" "r \<in> set (instr_uses c l) \<or> r \<in> set (instr_defs c l)"
    using lu range_uptoD(4,5) [OF old, of l] by (auto split: if_splits)
next
  fix j assume j: "j < Suc k" "r \<in> set (instr_uses c j)"
  show "\<exists>l\<ge>j. last_use tr' = Some l"
  proof (cases "j = k")
    case False
    then show ?thesis using lu range_uptoD(6) [OF old, of j] j by (auto split: if_splits)
  qed (use lu j in simp)
qed (use pr range_uptoD(7) [OF old] in simp)

definition ranges_upto :: "(nat \<Rightarrow> register_class) \<Rightarrow> opcode list \<Rightarrow> nat \<Rightarrow> register_tracker \<Rightarrow> bool" where
  "ranges_upto cls c k t \<longleftrightarrow> (\<forall>v<length (virt t). range_upto c (VirtualR v (cls v)) k (track_of t v))"

lemma mentioned_occurs:
  assumes ok: "no_dead_definitions n cls c" and k: "k < length c"
  shows "v \<in> mentioned (virtual_uds has_def (instr_uds c k)) \<longleftrightarrow> VirtualR v (cls v) \<in> set (instr_defs c k)"
    and "v \<in> mentioned (virtual_uds has_use (instr_uds c k)) \<longleftrightarrow> VirtualR v (cls v) \<in> set (instr_uses c k)"
proof -
  have cls: "a = cls v" if "VirtualR v a \<in> set (instr_defs c k) \<or> VirtualR v a \<in> set (instr_uses c k)" for a
    using no_dead_definitionsD(3,6) [OF ok k] that by blast
  have occurs: "v \<in> mentioned (virtual_uds sel uds) \<longleftrightarrow> (\<exists>a. VirtualR v a \<in> set (map ud_register (filter sel uds)))" for sel uds
    by (auto simp: mentioned_def virtual_uds_def image_iff) (metis is_virtual.simps(1))+
  show "v \<in> mentioned (virtual_uds has_def (instr_uds c k)) \<longleftrightarrow> VirtualR v (cls v) \<in> set (instr_defs c k)"
    unfolding occurs using cls unfolding instr_defs_def by blast
  show "v \<in> mentioned (virtual_uds has_use (instr_uds c k)) \<longleftrightarrow> VirtualR v (cls v) \<in> set (instr_uses c k)"
    unfolding occurs using cls unfolding instr_uses_def by blast
qed

lemma virtual_ud_occurs:
  assumes "ud \<in> set (virtual_uds sel (instr_uds c k))" and "sel = has_def \<or> sel = has_use" and "no_dead_definitions n cls c"
    and "k < length c"
  obtains v where "ud_register ud = VirtualR v (cls v)" "v < n" "ud \<in> set (instr_uds c k)" "sel ud"
    "VirtualR v (cls v) \<in> set (if sel = has_def then instr_defs c k else instr_uses c k)"
proof -
  from assms(1) obtain v a where v: "ud_register ud = VirtualR v a" "ud \<in> set (instr_uds c k)" "sel ud"
    by (auto simp: virtual_uds_def elim: is_virtualE)
  then have occ: "VirtualR v a \<in> set (if sel = has_def then instr_defs c k else instr_uses c k)"
    using assms(2) by (force simp: instr_defs_def instr_uses_def)
  then have "a = cls v" "v < n" using no_dead_definitionsD [OF assms(3,4)] by (auto split: if_splits)
  with v occ that show thesis by blast
qed

lemma range_step_effect:
  assumes ok: "no_dead_definitions n cls c" and k: "k < length c" and n: "length (virt t) = n" and upto: "ranges_upto cls c k t"
  shows "\<exists>t' cnt'. range_step k (t, c, cnt) = Inr (t', c, cnt') \<and> length (virt t') = n \<and> phys t' = phys t
     \<and> ranges_upto cls c (Suc k) t'"
proof -
  let ?defs = "virtual_uds has_def (instr_uds c k)" and ?uses = "virtual_uds has_use (instr_uds c k)"
  let ?cnt = "if is_jump (c ! k) then cnt + 1 else cnt"
  have before: "range_upto c (VirtualR v (cls v)) k (track_of t v)" if "v < n" for v
    using upto n that by (simp add: ranges_upto_def)
  have "\<forall>ud \<in> set ?defs. \<exists>v a. ud_register ud = VirtualR v a \<and> v < length (virt t) \<and> a = cls v
      \<and> (first_def (track_of t v) \<noteq> None \<longrightarrow> is_cmovne (c ! k) \<or> last_use (track_of t v) \<noteq> None \<or> is_usedef ud)"
  proof
    fix ud assume "ud \<in> set ?defs"
    then obtain v where v: "ud_register ud = VirtualR v (cls v)" "v < n" "ud \<in> set (instr_uds c k)" "has_def ud"
        "VirtualR v (cls v) \<in> set (instr_defs c k)"
      by (rule virtual_ud_occurs [OF _ _ ok k]) auto
    have "last_use (track_of t v) \<noteq> None" if "first_def (track_of t v) = Some f" "\<not> is_usedef ud" for f
    proof -
      have "ud = Def (VirtualR v (cls v))" using v(1,4) that(2) by (cases ud) auto
      moreover have "defined_before c (VirtualR v (cls v)) k"
        using range_uptoD(1,2) [OF before [OF v(2)] that(1)] by (auto simp: defined_before_def)
      ultimately have "used_before c (VirtualR v (cls v)) k" using no_dead_definitionsD(8) [OF ok k v(5)] v(3) by simp
      then show ?thesis using range_uptoD(6) [OF before [OF v(2)]] by (auto simp: used_before_def)
    qed
    with v n show "\<exists>v a. ud_register ud = VirtualR v a \<and> v < length (virt t) \<and> a = cls v
      \<and> (first_def (track_of t v) \<noteq> None \<longrightarrow> is_cmovne (c ! k) \<or> last_use (track_of t v) \<noteq> None \<or> is_usedef ud)" by auto
  qed
  moreover have "distinct (map ud_register ?defs)"
    using distinct_map_filter [OF no_dead_definitionsD(1) [OF ok k, unfolded instr_defs_def], of "\<lambda>ud. is_virtual (ud_register ud)"]
    by (simp add: virtual_uds_def)
  ultimately obtain t1 where t1: "foldR (range_def k (c ! k) ?cnt) ?defs (t, c) = Inr (t1, c)" "length (virt t1) = n" "phys t1 = phys t"
    and t1_at: "\<And>v. v < n \<Longrightarrow>
          first_def (track_of t1 v) = (if v \<in> mentioned ?defs \<and> first_def (track_of t v) = None then Some k else first_def (track_of t v))
        \<and> last_use (track_of t1 v)
            = (if v \<in> mentioned ?defs \<and> first_def (track_of t v) \<noteq> None \<and> is_cmovne (c ! k) then Some k else last_use (track_of t v))
        \<and> physical_register (track_of t1 v) = physical_register (track_of t v)"
    using range_defs_effect [of ?defs t cls "c ! k" k ?cnt c] n by auto
  have "\<forall>ud \<in> set ?uses. \<exists>v a. ud_register ud = VirtualR v a \<and> v < length (virt t1)"
    using t1(2) by (auto elim: virtual_ud_occurs [OF _ _ ok k])
  then obtain t2 where t2: "foldR (range_use k) ?uses (t1, c) = Inr (t2, c)" "length (virt t2) = n" "phys t2 = phys t"
    and t2_at: "\<And>v. v < n \<Longrightarrow> first_def (track_of t2 v) = first_def (track_of t1 v)
        \<and> last_use (track_of t2 v) = (if v \<in> mentioned ?uses then Some k else last_use (track_of t1 v))
        \<and> physical_register (track_of t2 v) = physical_register (track_of t1 v)"
    using range_uses_effect [of ?uses t1 k c] t1 by auto
  have "range_step k (t, c, cnt) = Inr (t2, c, ?cnt)"
    using t1(1) t2(1) by (simp add: range_step_def uds_cases [OF ok k] Let_def virtual_uds_def)
  moreover have "ranges_upto cls c (Suc k) t2"
    unfolding ranges_upto_def t2(2)
  proof (intro allI impI)
    fix v assume v: "v < n"
    show "range_upto c (VirtualR v (cls v)) (Suc k) (track_of t2 v)"
      using t1_at [OF v] t2_at [OF v]
      by (intro range_upto_Suc [OF before [OF v], of _ "first_def (track_of t v) \<noteq> None \<and> is_cmovne (c ! k)"])
        (simp_all add: mentioned_occurs [OF ok k])
  qed
  ultimately show ?thesis using t2 by blast
qed

text \<open>The ranges of the whole code.\<close>

definition ranges_of :: "(nat \<Rightarrow> register_class) \<Rightarrow> opcode list \<Rightarrow> register_tracker \<Rightarrow> bool" where
  "ranges_of cls c t \<longleftrightarrow> (\<forall>v<length (virt t). let r = VirtualR v (cls v); tr = track_of t v in
     (\<forall>f. first_def tr = Some f \<longrightarrow> f < length c \<and> r \<in> set (instr_defs c f))
     \<and> (\<forall>j<length c. r \<in> set (instr_defs c j) \<longrightarrow> (\<exists>f\<le>j. first_def tr = Some f))
     \<and> (\<forall>l. last_use tr = Some l \<longrightarrow> l < length c \<and> r \<in> set (instr_uses c l))
     \<and> (\<forall>j<length c. r \<in> set (instr_uses c j) \<longrightarrow> (\<exists>l\<ge>j. last_use tr = Some l)))"

lemma ranges_computed:
  assumes ok: "no_dead_definitions n cls c"
  shows "\<exists>t. calculate_vreg_live_ranges (register_tracker_new n) c = Inr (t, c) \<and> length (virt t) = n \<and> ranges_of cls c t
     \<and> (\<forall>v<n. physical_register (track_of t v) = None)"
proof -
  have "\<exists>t cnt. foldR range_step [0..<k] (register_tracker_new n, c, 0) = Inr (t, c, cnt) \<and> length (virt t) = n \<and> ranges_upto cls c k t"
    if "k \<le> length c" for k
    using that
  proof (induction k)
    case 0
    show ?case
      by (auto simp: register_tracker_new_def ranges_upto_def range_upto_def register_track_default_def)
  next
    case (Suc k)
    then obtain t cnt where t: "foldR range_step [0..<k] (register_tracker_new n, c, 0) = Inr (t, c, cnt)" "length (virt t) = n"
      "ranges_upto cls c k t" by auto
    from range_step_effect [OF ok _ t(2,3), of cnt] Suc.prems t(1) show ?case by (auto simp: foldR_append)
  qed
  from this [of "length c"] obtain t cnt where t: "foldR range_step [0..<length c] (register_tracker_new n, c, 0) = Inr (t, c, cnt)"
    "length (virt t) = n" "ranges_upto cls c (length c) t" by auto
  have used: "VirtualR v (cls v) \<in> set (instr_uses c l)"
    if upto: "range_upto c (VirtualR v (cls v)) (length c) tr" and l: "last_use tr = Some l" for v tr l
  proof (rule ccontr)
    assume "VirtualR v (cls v) \<notin> set (instr_uses c l)"
    then have "VirtualR v (cls v) \<in> set (instr_defs c l)" and len: "l < length c" using range_uptoD(4,5) [OF upto l] by auto
    from no_dead_definitionsD(7) [OF ok len this(1)] obtain j where "l < j" "j < length c" "VirtualR v (cls v) \<in> set (instr_uses c j)"
      by (auto simp: used_after_def)
    then show False using range_uptoD(6) [OF upto, of j] l by auto
  qed
  have "ranges_of cls c t"
    unfolding ranges_of_def Let_def
  proof (intro allI impI)
    fix v assume "v < length (virt t)"
    with t(3) have upto: "range_upto c (VirtualR v (cls v)) (length c) (track_of t v)" by (simp add: ranges_upto_def)
    show "(\<forall>f. first_def (track_of t v) = Some f \<longrightarrow> f < length c \<and> VirtualR v (cls v) \<in> set (instr_defs c f))
     \<and> (\<forall>j<length c. VirtualR v (cls v) \<in> set (instr_defs c j) \<longrightarrow> (\<exists>f\<le>j. first_def (track_of t v) = Some f))
     \<and> (\<forall>l. last_use (track_of t v) = Some l \<longrightarrow> l < length c \<and> VirtualR v (cls v) \<in> set (instr_uses c l))
     \<and> (\<forall>j<length c. VirtualR v (cls v) \<in> set (instr_uses c j) \<longrightarrow> (\<exists>l\<ge>j. last_use (track_of t v) = Some l))"
      using range_uptoD [OF upto] used [OF upto] by blast
  qed
  then show ?thesis
    using t range_uptoD(7) by (auto simp: calculate_vreg_live_ranges_def ranges_upto_def)
qed

end
