(* ===== verification/Allocation_Scan.thy ===== *)
theory Allocation_Scan
  imports Live_Ranges
begin

text \<open>
  The invariant of the allocator's backward scan, on code without dead definitions.  It relates the tracker to the registers
  that are live at the point reached and at all the later ones: no two registers live at one point share a physical
  register, and the interference set of a register that is live now holds everything it has met since,
  which is what makes it safe to move the register when the code claims its place.
\<close>

section \<open>The assignment at a point\<close>

abbreviation reg_of :: "register_tracker \<Rightarrow> nat \<Rightarrow> physical_register option" where
  "reg_of t v \<equiv> physical_register (track_of t v)"

definition occupied :: "register_tracker \<Rightarrow> nat set \<Rightarrow> register_set \<Rightarrow> register_set" where
  "occupied t B P = {p. \<exists>v\<in>B. reg_of t v = Some p} \<union> P"

text \<open>At a point where the virtual registers B and the physical registers P are live, no two of them share a register.\<close>

definition separate :: "register_tracker \<Rightarrow> nat set \<Rightarrow> register_set \<Rightarrow> bool" where
  "separate t B P \<longleftrightarrow> (\<forall>v\<in>B. \<exists>p. reg_of t v = Some p \<and> p \<notin> P) \<and> (\<forall>v\<in>B. \<forall>w\<in>B. reg_of t v = reg_of t w \<longrightarrow> v = w)"

definition avail_of :: "register_class \<Rightarrow> register_set" where
  "avail_of class = (case class of General \<Rightarrow> avail_phys_regs_gpr | Xmm \<Rightarrow> avail_phys_regs_xmm)"

record point =
  virtuals :: "nat set"
  physicals :: register_set

definition scan_inv :: "nat \<Rightarrow> (nat \<Rightarrow> register_class) \<Rightarrow> register_tracker \<Rightarrow> point \<Rightarrow> point set \<Rightarrow> register_tracker \<Rightarrow> register_set \<Rightarrow> bool" where
  "scan_inv n cls t0 b H t live \<longleftrightarrow>
     length (virt t) = n \<and> virtuals b \<subseteq> {..<n} \<and> live = occupied t (virtuals b) (physicals b)
     \<and> (\<forall>v<n. first_def (track_of t v) = first_def (track_of t0 v) \<and> last_use (track_of t v) = last_use (track_of t0 v))
     \<and> (\<forall>v<n. \<forall>p. reg_of t v = Some p \<longrightarrow> p \<in> avail_of (cls v))
     \<and> (\<forall>v<n. reg_of t v \<noteq> None \<longrightarrow> v \<in> virtuals b \<or> (\<exists>h\<in>H. v \<in> virtuals h))
     \<and> (\<forall>v\<in>virtuals b. \<forall>p. reg_of t v = Some p \<longrightarrow> (\<exists>a. tracking (phys t p) = Some (VirtualR v a)))
     \<and> (\<forall>p\<in>physicals b. tracking (phys t p) = Some (PhysicalR p))
     \<and> (\<forall>h\<in>insert b H. virtuals h \<subseteq> {..<n} \<and> separate t (virtuals h) (physicals h))
     \<and> (\<forall>h\<in>insert b H. \<forall>v\<in>virtuals b \<inter> virtuals h. occupied t (virtuals h) (physicals h) \<subseteq> interference (track_of t v))"

lemma scan_invD:
  assumes "scan_inv n cls t0 b H t live"
  shows "length (virt t) = n" "virtuals b \<subseteq> {..<n}" "live = occupied t (virtuals b) (physicals b)"
    "v < n \<Longrightarrow> first_def (track_of t v) = first_def (track_of t0 v)" "v < n \<Longrightarrow> last_use (track_of t v) = last_use (track_of t0 v)"
    "v < n \<Longrightarrow> reg_of t v = Some p \<Longrightarrow> p \<in> avail_of (cls v)"
    "v < n \<Longrightarrow> reg_of t v \<noteq> None \<Longrightarrow> v \<in> virtuals b \<or> (\<exists>h\<in>H. v \<in> virtuals h)"
    "v \<in> virtuals b \<Longrightarrow> reg_of t v = Some p \<Longrightarrow> \<exists>a. tracking (phys t p) = Some (VirtualR v a)"
    "p \<in> physicals b \<Longrightarrow> tracking (phys t p) = Some (PhysicalR p)"
    "h \<in> insert b H \<Longrightarrow> virtuals h \<subseteq> {..<n}" "h \<in> insert b H \<Longrightarrow> separate t (virtuals h) (physicals h)"
    "h \<in> insert b H \<Longrightarrow> v \<in> virtuals b \<Longrightarrow> v \<in> virtuals h \<Longrightarrow> occupied t (virtuals h) (physicals h) \<subseteq> interference (track_of t v)"
  using assms unfolding scan_inv_def by blast+

lemma scan_invI:
  assumes "length (virt t) = n" and "live = occupied t (virtuals b) (physicals b)"
    and "\<And>v. v < n \<Longrightarrow> first_def (track_of t v) = first_def (track_of t0 v) \<and> last_use (track_of t v) = last_use (track_of t0 v)"
    and "\<And>v p. v < n \<Longrightarrow> reg_of t v = Some p \<Longrightarrow> p \<in> avail_of (cls v)"
    and "\<And>v. v < n \<Longrightarrow> reg_of t v \<noteq> None \<Longrightarrow> v \<in> virtuals b \<or> (\<exists>h\<in>H. v \<in> virtuals h)"
    and "\<And>v p. v \<in> virtuals b \<Longrightarrow> reg_of t v = Some p \<Longrightarrow> \<exists>a. tracking (phys t p) = Some (VirtualR v a)"
    and "\<And>p. p \<in> physicals b \<Longrightarrow> tracking (phys t p) = Some (PhysicalR p)"
    and "\<And>h. h \<in> insert b H \<Longrightarrow> virtuals h \<subseteq> {..<n} \<and> separate t (virtuals h) (physicals h)"
    and "\<And>h v. h \<in> insert b H \<Longrightarrow> v \<in> virtuals b \<Longrightarrow> v \<in> virtuals h
           \<Longrightarrow> occupied t (virtuals h) (physicals h) \<subseteq> interference (track_of t v)"
  shows "scan_inv n cls t0 b H t live"
proof -
  have "virtuals b \<subseteq> {..<n}" using assms(8) [of b] by simp
  moreover have "\<forall>h\<in>insert b H. virtuals h \<subseteq> {..<n} \<and> separate t (virtuals h) (physicals h)" using assms(8) by blast
  moreover have "\<forall>h\<in>insert b H. \<forall>v\<in>virtuals b \<inter> virtuals h. occupied t (virtuals h) (physicals h) \<subseteq> interference (track_of t v)"
    using assms(9) by blast
  moreover have "\<forall>v<n. reg_of t v \<noteq> None \<longrightarrow> v \<in> virtuals b \<or> (\<exists>h\<in>H. v \<in> virtuals h)" using assms(5) by blast
  moreover have "\<forall>v\<in>virtuals b. \<forall>p. reg_of t v = Some p \<longrightarrow> (\<exists>a. tracking (phys t p) = Some (VirtualR v a))" using assms(6) by blast
  ultimately show ?thesis unfolding scan_inv_def using assms(1,2,3,4,7) by simp
qed

lemma separateD:
  assumes "separate t B P" and "v \<in> B"
  shows "\<exists>p. reg_of t v = Some p \<and> p \<notin> P" "w \<in> B \<Longrightarrow> reg_of t v = reg_of t w \<Longrightarrow> v = w"
  using assms unfolding separate_def by blast+

lemma separate_mono: "separate t B P \<Longrightarrow> B' \<subseteq> B \<Longrightarrow> P' \<subseteq> P \<Longrightarrow> separate t B' P'"
  unfolding separate_def by blast

text \<open>Ending live ranges.\<close>

lemma scan_inv_shrink:
  assumes "scan_inv n cls t0 b H t live" and "virtuals b' \<subseteq> virtuals b" and "physicals b' \<subseteq> physicals b"
  shows "scan_inv n cls t0 b' (insert b H) t (occupied t (virtuals b') (physicals b'))"
proof -
  note D = scan_invD [OF assms(1)]
  have "occupied t (virtuals b') (physicals b') \<subseteq> occupied t (virtuals b) (physicals b)" using assms(2,3) by (auto simp: occupied_def)
  moreover have "separate t (virtuals b') (physicals b')" using separate_mono [OF D(11) assms(2,3)] by simp
  ultimately show ?thesis
  proof (intro scan_invI)
    show "length (virt t) = n" by (rule D(1))
  next
    fix v assume "v < n" "reg_of t v \<noteq> None"
    from D(7) [OF this] show "v \<in> virtuals b' \<or> (\<exists>h\<in>insert b H. v \<in> virtuals h)" by blast
  next
    fix h assume "h \<in> insert b' (insert b H)" "separate t (virtuals b') (physicals b')"
    then show "virtuals h \<subseteq> {..<n} \<and> separate t (virtuals h) (physicals h)" using D(10,11) assms(2) by blast
  next
    fix h v assume h: "h \<in> insert b' (insert b H)" and v: "v \<in> virtuals b'" "v \<in> virtuals h"
      and sub: "occupied t (virtuals b') (physicals b') \<subseteq> occupied t (virtuals b) (physicals b)"
    have vb: "v \<in> virtuals b" using v assms(2) by blast
    show "occupied t (virtuals h) (physicals h) \<subseteq> interference (track_of t v)"
    proof (cases "h \<in> insert b H")
      case True then show ?thesis using D(12) vb v(2) by blast
    next
      case False
      then show ?thesis using h sub D(12) [of b v] vb by blast
    qed
  qed (use D(4,5,6,8,9) assms(2,3) in blast)+
qed

section \<open>Interference\<close>

definition extended :: "register_tracker \<Rightarrow> register_tracker \<Rightarrow> bool" where
  "extended t t' \<longleftrightarrow> length (virt t') = length (virt t) \<and> (\<forall>p. tracking (phys t' p) = tracking (phys t p))
     \<and> (\<forall>v<length (virt t). first_def (track_of t' v) = first_def (track_of t v) \<and> last_use (track_of t' v) = last_use (track_of t v)
          \<and> reg_of t' v = reg_of t v \<and> interference (track_of t v) \<subseteq> interference (track_of t' v))"

lemma extended_refl: "extended t t"
  by (simp add: extended_def)

lemma extended_trans: "extended t t' \<Longrightarrow> extended t' t'' \<Longrightarrow> extended t t''"
  by (force simp: extended_def)

lemma extend_interference_effect:
  assumes "extend_interference live p t = Inr t'"
  shows "extended t t'"
    and "p \<in> live \<Longrightarrow> tracking (phys t p) = Some (VirtualR v a) \<Longrightarrow> live \<subseteq> interference (track_of t' v)"
proof -
  show "extended t t'"
  proof (cases "p \<in> live")
    case True
    then obtain r where "update_track r (\<lambda>tr. tr\<lparr>interference := interference tr \<union> live\<rparr>) t = Inr t'"
      using assms by (auto simp: extend_interference_def split: option.splits)
    then show ?thesis by (cases r) (auto simp: extended_def nth_list_update split: if_splits)
  qed (use assms extended_refl in \<open>simp add: extend_interference_def\<close>)
  show "live \<subseteq> interference (track_of t' v)" if "p \<in> live" "tracking (phys t p) = Some (VirtualR v a)"
    using assms that by (auto simp: extend_interference_def split: if_splits)
qed

lemma extend_all_effect:
  assumes "foldR (extend_interference live) ps t = Inr t'"
  shows "extended t t' \<and> (\<forall>p v a. p \<in> set ps \<and> p \<in> live \<and> tracking (phys t p) = Some (VirtualR v a) \<and> v < length (virt t)
     \<longrightarrow> live \<subseteq> interference (track_of t' v))"
  using assms
proof (induction ps arbitrary: t)
  case (Cons q ps)
  then obtain t1 where t1: "extend_interference live q t = Inr t1" "foldR (extend_interference live) ps t1 = Inr t'"
    by (auto simp: res_simps)
  note one = extend_interference_effect [OF t1(1)] and rest = Cons.IH [OF t1(2)]
  have "live \<subseteq> interference (track_of t' v)"
    if "p \<in> set (q # ps)" "p \<in> live" "tracking (phys t p) = Some (VirtualR v a)" "v < length (virt t)" for p v a
  proof (cases "p = q")
    case True
    then have "live \<subseteq> interference (track_of t1 v)" using one(2) that by blast
    also have "\<dots> \<subseteq> interference (track_of t' v)" using rest one(1) that(4) by (simp add: extended_def)
    finally show ?thesis .
  next
    case False
    then have "p \<in> set ps" "tracking (phys t1 p) = Some (VirtualR v a)" "v < length (virt t1)"
      using that one(1) by (simp_all add: extended_def)
    then show ?thesis using rest that(2) by blast
  qed
  then show ?case using extended_trans [OF one(1)] rest by blast
qed (simp add: extended_refl)

lemma avail_listed: "set (set_iter avail_phys_regs_gpr @ set_iter avail_phys_regs_xmm) = avail_of General \<union> avail_of Xmm"
  by (auto simp: set_iter_def all_registers_def avail_of_def avail_phys_regs_gpr_def avail_phys_regs_xmm_def)

lemma update_interferences_effect:
  assumes "update_interferences live t = Inr t'"
  shows "extended t t'"
    and "p \<in> live \<Longrightarrow> p \<in> avail_of b \<Longrightarrow> tracking (phys t p) = Some (VirtualR v a) \<Longrightarrow> v < length (virt t)
           \<Longrightarrow> live \<subseteq> interference (track_of t' v)"
proof -
  note all = extend_all_effect [OF assms [unfolded update_interferences_def], unfolded avail_listed]
  show "extended t t'" using all by blast
  show "live \<subseteq> interference (track_of t' v)"
    if "p \<in> live" "p \<in> avail_of b" "tracking (phys t p) = Some (VirtualR v a)" "v < length (virt t)"
    using all that by (cases b) blast+
qed

section \<open>Definitions\<close>

fun plain_definition :: "register_tracker \<Rightarrow> x86_register \<Rightarrow> bool" where
  "plain_definition t (VirtualR v a) \<longleftrightarrow> v < length (virt t) \<and> last_use (track_of t v) \<noteq> None"
| "plain_definition t (PhysicalR p) \<longleftrightarrow> tracking (phys t p) = Some (PhysicalR p)"
| "plain_definition t (GlobalR g) \<longleftrightarrow> True"

definition ended :: "register_tracker \<Rightarrow> nat \<Rightarrow> x86_register list \<Rightarrow> register_set" where
  "ended t k rs = {p. (\<exists>v a. VirtualR v a \<in> set rs \<and> first_def (track_of t v) = Some k \<and> reg_of t v = Some p) \<or> PhysicalR p \<in> set rs}"

lemma scan_def_effect:
  assumes "plain_definition t r" and "scan_def k instr r (t, live) = Inr ((t', live'), skip)"
  shows "t' = t \<and> \<not> skip \<and> live' = live - ended t k [r]"
proof (cases r)
  case (VirtualR v a)
  then show ?thesis using assms by (auto simp: ended_def res_simps split: if_splits option.splits)
next
  case (PhysicalR p)
  then show ?thesis using assms by (auto simp: ended_def Let_def split: if_splits)
qed (use assms in \<open>auto simp: ended_def\<close>)

lemma scan_defs_effect:
  assumes "\<forall>r\<in>set rs. plain_definition t r" and "scan_defs k instr rs (t, live) = Inr ((t', live'), skip)"
  shows "t' = t \<and> \<not> skip \<and> live' = live - ended t k rs"
  using assms
proof (induction rs arbitrary: live)
  case (Cons r rs)
  then obtain t1 live1 s1 where one: "scan_def k instr r (t, live) = Inr ((t1, live1), s1)" by (auto simp: res_simps)
  note eff = scan_def_effect [OF _ one]
  then have "scan_defs k instr rs (t, live1) = Inr ((t', live'), skip)" "live1 = live - ended t k [r]"
    using Cons.prems one by (auto split: if_splits)
  with Cons.IH [OF _ this(1)] Cons.prems(1) show ?case by (auto simp: ended_def)
qed (simp add: ended_def)

section \<open>Uses\<close>

lemma allocate_phys_reg_effect:
  assumes "allocate_phys_reg class in_use = Inr p"
  shows "p \<in> avail_of class" "p \<notin> in_use"
  using assms by (auto simp: allocate_phys_reg_def avail_of_def first_difference_def find_Some_iff split: option.splits)

lemma avail_class: "p \<in> avail_of cl \<Longrightarrow> (if is_gpr p then General else Xmm) = cl"
  by (cases cl) (auto simp: avail_of_def avail_phys_regs_gpr_def avail_phys_regs_xmm_def is_gpr_def is_xmm_def)

lemma occupied_assign:
  assumes "\<And>w. w \<in> B \<Longrightarrow> reg_of t' w = (if w = v then Some q else reg_of t w)"
  shows "occupied t' B P \<subseteq> insert q (occupied t B P)"
  using assms by (auto simp: occupied_def split: if_splits)

lemma separate_assign:
  assumes "separate t B P" and "\<And>w. w \<in> B \<Longrightarrow> reg_of t' w = (if w = v then Some q else reg_of t w)"
    and "v \<in> B \<Longrightarrow> q \<notin> occupied t B P"
  shows "separate t' B P"
proof (cases "v \<in> B")
  case True
  then have q: "q \<notin> P" "\<And>w. w \<in> B \<Longrightarrow> reg_of t w \<noteq> Some q" using assms(3) by (auto simp: occupied_def)
  show ?thesis
    unfolding separate_def
  proof (intro conjI ballI impI)
    fix w assume "w \<in> B"
    then show "\<exists>p. reg_of t' w = Some p \<and> p \<notin> P" using assms(2) [of w] q(1) separateD(1) [OF assms(1)] by auto
  next
    fix w u assume "w \<in> B" "u \<in> B" "reg_of t' w = reg_of t' u"
    then show "w = u" using assms(2) [of w] assms(2) [of u] q(2) [of w] q(2) [of u] separateD(2) [OF assms(1)]
      by (auto split: if_splits)
  qed
next
  case False
  then have "reg_of t' w = reg_of t w" if "w \<in> B" for w using assms(2) that by auto
  then show ?thesis using assms(1) by (simp add: separate_def)
qed

lemma separate_grow:
  assumes sep: "separate t B P" and regs: "\<And>w. w \<in> insert v B \<Longrightarrow> reg_of t' w = (if w = v then Some q else reg_of t w)"
    and q: "q \<notin> occupied t B P" "q \<notin> P'" and P': "P' - P \<subseteq> {p. v \<in> B \<and> reg_of t v = Some p}"
  shows "w \<in> B \<Longrightarrow> w \<noteq> v \<Longrightarrow> reg_of t w = Some p \<Longrightarrow> p \<notin> P'" and "separate t' (insert v B) P'"
proof -
  show old: "p \<notin> P'" if "w \<in> B" "w \<noteq> v" "reg_of t w = Some p" for w p
  proof
    assume p: "p \<in> P'"
    have "p \<notin> P" using separateD(1) [OF sep that(1)] that(3) by auto
    then have v: "v \<in> B" "reg_of t v = Some p" using p P' by auto
    then show False using separateD(2) [OF sep v(1) that(1)] that(2,3) by simp
  qed
  show "separate t' (insert v B) P'"
    unfolding separate_def
  proof (intro conjI ballI impI)
    fix w assume w: "w \<in> insert v B"
    show "\<exists>p. reg_of t' w = Some p \<and> p \<notin> P'"
    proof (cases "w = v")
      case False
      then have wB: "w \<in> B" using w by simp
      then show ?thesis using separateD(1) [OF sep wB] old [OF wB False] regs [OF w] False by auto
    qed (use regs [OF w] q(2) in simp)
  next
    fix w u assume wu: "w \<in> insert v B" "u \<in> insert v B" "reg_of t' w = reg_of t' u"
    have other: "reg_of t w \<noteq> Some q" if "w \<in> B" for w using q(1) that by (auto simp: occupied_def)
    show "w = u"
      using wu regs [OF wu(1)] regs [OF wu(2)] other [of w] other [of u] separateD(2) [OF sep, of w u]
      by (cases "w = v"; cases "u = v") auto
  qed
qed

text \<open>Giving a virtual register a register, its first or a new one.\<close>

lemma scan_inv_assign:
  assumes inv: "scan_inv n cls t0 b H t live" and v: "v < n" "q \<in> avail_of (cls v)"
    and fresh: "if v \<in> virtuals b then q \<notin> interference (track_of t v) else reg_of t v = None \<and> q \<notin> live"
    and b': "virtuals b' = insert v (virtuals b)" "physicals b' - physicals b \<subseteq> {p. reg_of t v = Some p}"
      "q \<notin> physicals b' - physicals b"
    and t': "length (virt t') = n" "\<And>w. w < n \<Longrightarrow> first_def (track_of t' w) = first_def (track_of t w)"
      "\<And>w. w < n \<Longrightarrow> last_use (track_of t' w) = last_use (track_of t w)"
      "\<And>w. w < n \<Longrightarrow> reg_of t' w = (if w = v then Some q else reg_of t w)"
      "\<And>w. w \<in> virtuals b \<Longrightarrow> interference (track_of t w) \<subseteq> interference (track_of t' w)"
      "\<And>w. w \<in> virtuals b' \<Longrightarrow> live' \<subseteq> interference (track_of t' w)"
    and tracks: "\<And>p. p \<in> physicals b' \<Longrightarrow> tracking (phys t' p) = Some (PhysicalR p)"
      "\<And>p. p \<notin> physicals b' \<Longrightarrow> p \<noteq> q \<Longrightarrow> tracking (phys t' p) = tracking (phys t p)"
      "\<exists>a. tracking (phys t' q) = Some (VirtualR v a)"
    and live': "live' = occupied t' (virtuals b') (physicals b')"
  shows "scan_inv n cls t0 b' H t' live'"
proof -
  note D = scan_invD [OF inv]
  have sub: "w < n" if "h \<in> insert b H" "w \<in> virtuals h" for h w using D(10) [OF that(1)] that(2) by auto
  have regs: "reg_of t' w = (if w = v then Some q else reg_of t w)" if "h \<in> insert b H" "w \<in> virtuals h" for h w
    using t'(4) sub [OF that] by simp
  have unseen: "v \<in> virtuals b" if "h \<in> H" "v \<in> virtuals h" for h
    using separateD(1) [OF D(11) [of h] that(2)] that(1) fresh by (auto split: if_splits)
  have q_new: "q \<notin> occupied t (virtuals h) (physicals h)" if "h \<in> insert b H" "v \<in> virtuals h" for h
    using D(12) [OF that(1) _ that(2)] fresh unseen [of h] that by (auto split: if_splits)
  have q_live: "q \<notin> live"
    using q_new [of b] fresh D(3) by (auto split: if_splits)
  have sep: "separate t' (virtuals h) (physicals h)" if "h \<in> insert b H" for h
    by (rule separate_assign [OF D(11) [OF that] regs [OF that] q_new [OF that]])
  have qb: "q \<notin> physicals b'" using q_live b'(3) D(3) by (auto simp: occupied_def)
  have grow: "physicals b' - physicals b \<subseteq> {p. v \<in> virtuals b \<and> reg_of t v = Some p}" using b'(2) fresh by (auto split: if_splits)
  have regs': "reg_of t' w = (if w = v then Some q else reg_of t w)" if "w \<in> insert v (virtuals b)" for w
    using that t'(4) [OF v(1)] regs [of b w] by auto
  note grown = separate_grow [OF D(11) [of b, simplified] regs' q_live [unfolded D(3)] qb grow]
  have sep': "separate t' (insert v (virtuals b)) (physicals b')" by (rule grown(2))
  show ?thesis
  proof (rule scan_invI [OF t'(1) live'])
    fix w assume "w < n"
    then show "first_def (track_of t' w) = first_def (track_of t0 w) \<and> last_use (track_of t' w) = last_use (track_of t0 w)"
      using t'(2,3) D(4,5) by simp
  next
    fix w p assume "w < n" "reg_of t' w = Some p"
    then show "p \<in> avail_of (cls w)" using t'(4) D(6) v(2) by (auto split: if_splits)
  next
    fix w assume "w < n" "reg_of t' w \<noteq> None"
    then show "w \<in> virtuals b' \<or> (\<exists>h\<in>H. w \<in> virtuals h)" using t'(4) D(7) [of w] b'(1) by (auto split: if_splits)
  next
    fix w p assume w: "w \<in> virtuals b'" "reg_of t' w = Some p"
    show "\<exists>a. tracking (phys t' p) = Some (VirtualR w a)"
    proof (cases "w = v")
      case True then show ?thesis using w(2) t'(4) v(1) tracks(3) by simp
    next
      case False
      then have wb: "w \<in> virtuals b" and p: "reg_of t w = Some p" using w b'(1) regs [of b w] by auto
      moreover have "p \<noteq> q" using q_live D(3) wb p by (auto simp: occupied_def)
      moreover have "p \<notin> physicals b'" by (rule grown(1) [OF _ wb False p])
      ultimately show ?thesis using tracks(2) [of p] D(8) [OF wb p] by auto
    qed
  next
    fix h assume h: "h \<in> insert b' H"
    show "virtuals h \<subseteq> {..<n} \<and> separate t' (virtuals h) (physicals h)"
    proof (cases "h = b'")
      case True then show ?thesis using sep' b'(1) D(2) v(1) by auto
    next
      case False then show ?thesis using h sep [of h] D(10) [of h] by auto
    qed
  next
    fix h w assume h: "h \<in> insert b' H" and w: "w \<in> virtuals b'" "w \<in> virtuals h"
    show "occupied t' (virtuals h) (physicals h) \<subseteq> interference (track_of t' w)"
    proof (cases "h = b'")
      case True then show ?thesis using t'(6) [OF w(1)] live' by simp
    next
      case False
      then have hH: "h \<in> H" using h by simp
      have wb: "w \<in> virtuals b" using w b'(1) unseen [OF hH] by auto
      have "occupied t (virtuals h) (physicals h) \<subseteq> interference (track_of t' w)" using D(12) [of h w] hH wb w(2) t'(5) [OF wb] by blast
      moreover have "q \<in> interference (track_of t' w)"
      proof -
        have "q \<in> live'" using live' b'(1) t'(4) v(1) by (auto simp: occupied_def)
        then show ?thesis using t'(6) [OF w(1)] by blast
      qed
      ultimately show ?thesis using occupied_assign [of "virtuals h" t' v q t "physicals h"] regs [of h] hH by blast
    qed
  qed (rule tracks(1))
qed

lemma assign_effect:
  assumes len: "length (virt t) = n" and v: "v < n" and ext: "extended t2 t'"
    and t2: "t2 = t\<lparr>virt := (virt t)[v := (track_of t v)\<lparr>physical_register := Some q, interference := I\<rparr>],
          phys := (phys t)(q := (phys t q)\<lparr>tracking := Some r\<rparr>)\<rparr>"
  shows "length (virt t') = n" "w < n \<Longrightarrow> first_def (track_of t' w) = first_def (track_of t w)"
    "w < n \<Longrightarrow> last_use (track_of t' w) = last_use (track_of t w)"
    "w < n \<Longrightarrow> reg_of t' w = (if w = v then Some q else reg_of t w)"
    "w < n \<Longrightarrow> (if w = v then I else interference (track_of t w)) \<subseteq> interference (track_of t' w)"
    "tracking (phys t' p) = (if p = q then Some r else tracking (phys t p))"
proof -
  have at: "track_of t2 w = (if w = v then (track_of t v)\<lparr>physical_register := Some q, interference := I\<rparr> else track_of t w)"
    if "w < n" for w using t2 len that by (simp add: nth_list_update)
  have x: "first_def (track_of t' w) = first_def (track_of t2 w)" "last_use (track_of t' w) = last_use (track_of t2 w)"
    "reg_of t' w = reg_of t2 w" "interference (track_of t2 w) \<subseteq> interference (track_of t' w)" if "w < n" for w
    using ext that t2 len unfolding extended_def by simp_all
  show "length (virt t') = n" using ext t2 len by (simp add: extended_def)
  show "first_def (track_of t' w) = first_def (track_of t w)" "last_use (track_of t' w) = last_use (track_of t w)"
    "reg_of t' w = (if w = v then Some q else reg_of t w)"
    "(if w = v then I else interference (track_of t w)) \<subseteq> interference (track_of t' w)" if "w < n"
    using x [OF that] at [OF that] by (cases "w = v"; simp)+
  show "tracking (phys t' p) = (if p = q then Some r else tracking (phys t p))" using ext t2 by (simp add: extended_def)
qed

lemma scan_use_virtual:
  assumes inv: "scan_inv n cls t0 b H t live" and v: "v < n"
    and ends: "\<And>h. h \<in> H \<Longrightarrow> v \<in> virtuals h \<Longrightarrow> last_use (track_of t0 v) \<noteq> Some k"
    and run: "scan_use k (VirtualR v (cls v)) (t, live) = Inr (t', live')"
  shows "scan_inv n cls t0 (b\<lparr>virtuals := virtuals b \<union> {w. w = v \<and> last_use (track_of t0 w) = Some k}\<rparr>) H t' live'"
proof -
  note D = scan_invD [OF inv]
  consider (none) "last_use (track_of t0 v) \<noteq> Some k" | (again) "last_use (track_of t0 v) = Some k" "reg_of t v \<noteq> None"
    | (fresh) "last_use (track_of t0 v) = Some k" "reg_of t v = None" by blast
  then show ?thesis
  proof cases
    case none
    then have "t' = t" "live' = live" using run D(1,5) v by (auto simp: res_simps)
    moreover have "b\<lparr>virtuals := virtuals b \<union> {w. w = v \<and> last_use (track_of t0 w) = Some k}\<rparr> = b" using none by (cases b) auto
    ultimately show ?thesis using inv by (simp only:)
  next
    case again
    then have eq: "t' = t" "live' = live" using run D(1,5) v by (auto simp: res_simps)
    have "v \<in> virtuals b" using D(7) [OF v again(2)] ends again(1) by blast
    then have "b\<lparr>virtuals := virtuals b \<union> {w. w = v \<and> last_use (track_of t0 w) = Some k}\<rparr> = b" by (cases b) auto
    with inv eq show ?thesis by (simp only:)
  next
    case fresh
    then obtain p t2 where p: "allocate_phys_reg (cls v) live = Inr p" "live' = insert p live"
        "update_interferences live' t2 = Inr t'"
        and t2: "t2 = t\<lparr>virt := (virt t)[v := (track_of t v)\<lparr>physical_register := Some p, interference := live'\<rparr>],
          phys := (phys t)(p := (phys t p)\<lparr>tracking := Some (VirtualR v (cls v))\<rparr>)\<rparr>"
      using run D(1,5) v by (auto simp: res_simps Let_def)
    note ext = update_interferences_effect [OF p(3)] and alloc = allocate_phys_reg_effect [OF p(1)]
    have vb: "v \<notin> virtuals b" using fresh(2) separateD(1) [OF D(11) [of b]] by force
    have b': "virtuals b \<union> {w. w = v \<and> last_use (track_of t0 w) = Some k} = insert v (virtuals b)" using fresh(1) by auto
    note e = assign_effect [OF D(1) v ext(1) t2]
    have kept: "w < n" "w \<noteq> v" "\<exists>q. reg_of t w = Some q \<and> q \<in> live \<and> q \<noteq> p \<and> q \<in> avail_of (cls w)" if "w \<in> virtuals b" for w
    proof -
      show "w < n" using that D(2) by auto
      then show "w \<noteq> v" "\<exists>q. reg_of t w = Some q \<and> q \<in> live \<and> q \<noteq> p \<and> q \<in> avail_of (cls w)"
        using that vb separateD(1) [OF D(11) [of b] that] D(3,6) alloc(2) by (auto simp: occupied_def)
    qed
    show ?thesis
      unfolding b'
    proof (rule scan_inv_assign [OF inv v alloc(1), where t' = t' and live' = live'])
      fix w assume "w \<in> virtuals b"
      then show "interference (track_of t w) \<subseteq> interference (track_of t' w)" using e(5) [of w] kept(1,2) [of w] by simp
    next
      fix w assume w: "w \<in> virtuals (b\<lparr>virtuals := insert v (virtuals b)\<rparr>)"
      show "live' \<subseteq> interference (track_of t' w)"
      proof (cases "w = v")
        case True then show ?thesis using e(5) [OF v] by simp
      next
        case False
        then have wb: "w \<in> virtuals b" using w by simp
        from kept(3) [OF this] obtain q where q: "reg_of t w = Some q" "q \<in> live" "q \<noteq> p" "q \<in> avail_of (cls w)" by blast
        from D(8) [OF wb q(1)] obtain a where "tracking (phys t q) = Some (VirtualR w a)" by blast
        then have "tracking (phys t2 q) = Some (VirtualR w a)" using q(3) t2 by simp
        from ext(2) [OF _ q(4) this] q(2) p(2) kept(1) [OF wb] D(1) t2 show ?thesis by simp
      qed
    next
      show "live' = occupied t' (virtuals (b\<lparr>virtuals := insert v (virtuals b)\<rparr>)) (physicals (b\<lparr>virtuals := insert v (virtuals b)\<rparr>))"
        using p(2) D(3) e(4) kept v vb by (auto simp: occupied_def)
    next
      fix q assume "q \<in> physicals (b\<lparr>virtuals := insert v (virtuals b)\<rparr>)"
      then show "tracking (phys t' q) = Some (PhysicalR q)" using e(6) [of q] D(9) [of q] D(3) alloc(2) by (auto simp: occupied_def)
    qed (use e vb fresh alloc in auto)
  qed
qed

lemma live_register:
  assumes "scan_inv n cls t0 b H t live" and "p \<in> live" and "tracking (phys t p) \<noteq> Some (PhysicalR p)"
  obtains v a where "v \<in> virtuals b" "v < n" "reg_of t v = Some p" "tracking (phys t p) = Some (VirtualR v a)"
proof -
  note D = scan_invD [OF assms(1)]
  have "p \<notin> physicals b" using D(9) assms(3) by blast
  then obtain v where v: "v \<in> virtuals b" "reg_of t v = Some p" using assms(2) D(3) by (auto simp: occupied_def)
  with D(8) [OF v] D(2) that show thesis by auto
qed

lemma updated_interference:
  assumes inv: "scan_inv n cls t0 b H t live" and run: "update_interferences live' t2 = Inr t'" and sub: "live \<subseteq> live'"
    and w: "w \<in> virtuals b" and tr: "\<And>q. reg_of t w = Some q \<Longrightarrow> tracking (phys t2 q) = tracking (phys t q)"
    and len: "length (virt t2) = n"
  shows "live' \<subseteq> interference (track_of t' w)"
proof -
  note D = scan_invD [OF inv]
  have wn: "w < n" using w D(2) by auto
  from separateD(1) [OF D(11) [of b] w] obtain q where q: "reg_of t w = Some q" by auto
  then have "q \<in> live'" using w D(3) sub by (auto simp: occupied_def)
  moreover from D(8) [OF w q] obtain a where "tracking (phys t2 q) = Some (VirtualR w a)" using tr [OF q] by auto
  ultimately show ?thesis using update_interferences_effect(2) [OF run _ D(6) [OF wn q]] wn len by simp
qed

lemma scan_use_physical_move:
  assumes inv: "scan_inv n cls t0 b H t live" and p: "p \<in> live" "tracking (phys t p) \<noteq> Some (PhysicalR p)"
    and run: "scan_use k (PhysicalR p) (t, live) = Inr (t', live')"
  shows "scan_inv n cls t0 (b\<lparr>physicals := insert p (physicals b)\<rparr>) H t' live'"
proof -
  note D = scan_invD [OF inv]
  obtain v a where v: "v \<in> virtuals b" "v < n" "reg_of t v = Some p" "tracking (phys t p) = Some (VirtualR v a)"
    by (rule live_register [OF inv p])
  have cl: "(if is_gpr p then General else Xmm) = cls v" by (rule avail_class [OF D(6) [OF v(2,3)]])
  obtain q t2 t3 where q: "allocate_phys_reg (cls v) (interference (track_of t v)) = Inr q" "live' = insert q live"
      "update_interferences live' t2 = Inr t3"
    and t2: "t2 = t\<lparr>virt := (virt t)[v := (track_of t v)\<lparr>physical_register := Some q, interference := interference (track_of t v) \<union> live'\<rparr>],
          phys := (phys t)(q := (phys t q)\<lparr>tracking := Some (VirtualR v a)\<rparr>)\<rparr>"
    and t': "t' = t3\<lparr>phys := (phys t3)(p := (phys t3 p)\<lparr>tracking := Some (PhysicalR p)\<rparr>)\<rparr>"
    using run p v D(1) by (auto simp: cl res_simps Let_def)
  note ext = update_interferences_effect [OF q(3)] and alloc = allocate_phys_reg_effect [OF q(1)]
  note e = assign_effect [OF D(1) v(2) ext(1) t2]
  have at: "track_of t' w = track_of t3 w" for w using t' by simp
  have inter: "live \<subseteq> interference (track_of t v)" using D(12) [of b v] D(3) v(1) by simp
  have qp: "q \<noteq> p" "q \<notin> live" using alloc(2) inter p(1) by auto
  have kept: "\<exists>u. reg_of t w = Some u \<and> u \<in> live \<and> u \<noteq> q \<and> (w \<noteq> v \<longrightarrow> u \<noteq> p)" if "w \<in> virtuals b" for w
  proof -
    from separateD(1) [OF D(11) [of b] that] obtain u where u: "reg_of t w = Some u" by auto
    then have "u \<in> live" using that D(3) by (auto simp: occupied_def)
    then show ?thesis using u qp(2) separateD(2) [OF D(11) [of b], of w v] that v(1,3) by auto
  qed
  have below: "w < n" if "w \<in> virtuals b" for w using that D(2) by auto
  have sub: "live \<subseteq> live'" using q(2) by auto
  have regs: "{u. \<exists>w\<in>virtuals b. reg_of t' w = Some u} = insert q {u. \<exists>w\<in>virtuals b - {v}. reg_of t w = Some u}"
    using e(4) below v(1,2) at by auto
  have olds: "{u. \<exists>w\<in>virtuals b. reg_of t w = Some u} = insert p {u. \<exists>w\<in>virtuals b - {v}. reg_of t w = Some u}"
    using v(1,3) by auto
  show ?thesis
  proof (rule scan_inv_assign [OF inv v(2) alloc(1), where t' = t' and live' = live'])
    show "virtuals (b\<lparr>physicals := insert p (physicals b)\<rparr>) = insert v (virtuals b)" using v(1) by auto
  next
    fix w assume w: "w \<in> virtuals b"
    then show "interference (track_of t w) \<subseteq> interference (track_of t' w)"
      using e(5) [OF below [OF w]] at by (auto split: if_splits)
  next
    fix w assume "w \<in> virtuals (b\<lparr>physicals := insert p (physicals b)\<rparr>)"
    then have w: "w \<in> virtuals b" by simp
    show "live' \<subseteq> interference (track_of t' w)"
    proof (cases "w = v")
      case True then show ?thesis using e(5) [OF v(2)] at by simp
    next
      case False
      then show ?thesis
        using updated_interference [OF inv q(3) sub w] kept [OF w] t2 D(1) at by auto
    qed
  next
    show "live' = occupied t' (virtuals (b\<lparr>physicals := insert p (physicals b)\<rparr>)) (physicals (b\<lparr>physicals := insert p (physicals b)\<rparr>))"
      using q(2) D(3) by (simp add: occupied_def regs olds insert_commute)
  next
    fix u assume u: "u \<in> physicals (b\<lparr>physicals := insert p (physicals b)\<rparr>)"
    then show "tracking (phys t' u) = Some (PhysicalR u)"
      using t' e(6) [of u] D(9) [of u] D(3) qp by (auto simp: occupied_def)
  qed (use e at t' qp v alloc q(2) in auto)
qed

lemma scan_use_physical_keep:
  assumes inv: "scan_inv n cls t0 b H t live" and p: "p \<notin> live \<or> tracking (phys t p) = Some (PhysicalR p)"
    and run: "scan_use k (PhysicalR p) (t, live) = Inr (t', live')"
  shows "scan_inv n cls t0 (b\<lparr>physicals := insert p (physicals b)\<rparr>) H t' live'"
proof -
  note D = scan_invD [OF inv]
  define t1 where "t1 = t\<lparr>phys := (phys t)(p := (phys t p)\<lparr>tracking := Some (PhysicalR p), interference := live'\<rparr>)\<rparr>"
  have live': "live' = insert p live" and run': "update_interferences live' t1 = Inr t'"
    using run p by (auto simp: res_simps Let_def t1_def)
  note ext = update_interferences_effect [OF run']
  have e: "length (virt t') = n" "\<And>q. tracking (phys t' q) = (if q = p then Some (PhysicalR p) else tracking (phys t q))"
    using ext(1) D(1) by (simp_all add: extended_def t1_def)
  have at: "first_def (track_of t' w) = first_def (track_of t w)" "last_use (track_of t' w) = last_use (track_of t w)"
    "reg_of t' w = reg_of t w" "interference (track_of t w) \<subseteq> interference (track_of t' w)" if "w < n" for w
    using ext(1) D(1) that unfolding extended_def by (simp_all add: t1_def)
  have unheld: "reg_of t w \<noteq> Some p" if "w \<in> virtuals b" for w
    using p D(3) D(8) [OF that, of p] that by (auto simp: occupied_def)
  have below: "w < n" if "h \<in> insert b H" "w \<in> virtuals h" for h w using D(10) [OF that(1)] that(2) by auto
  have same: "occupied t' (virtuals h) P = occupied t (virtuals h) P" "separate t' (virtuals h) P = separate t (virtuals h) P"
    if "h \<in> insert b H" for h P
    using at(3) below [OF that] by (auto simp: occupied_def separate_def)
  let ?b = "b\<lparr>physicals := insert p (physicals b)\<rparr>"
  have live_b: "live' = occupied t' (virtuals b) (insert p (physicals b))"
    using live' D(3) same(1) [of b "insert p (physicals b)"] by (simp add: occupied_def)
  have grown: "live' \<subseteq> interference (track_of t' w)" if "w \<in> virtuals b" for w
  proof (rule updated_interference [OF inv run' _ that])
    fix q assume "reg_of t w = Some q"
    then show "tracking (phys t1 q) = tracking (phys t q)" using unheld [OF that] by (auto simp: t1_def)
  qed (use live' D(1) in \<open>auto simp: t1_def\<close>)
  show ?thesis
  proof (rule scan_invI [OF e(1)])
    show "live' = occupied t' (virtuals ?b) (physicals ?b)" using live_b by simp
  next
    fix v q assume "v \<in> virtuals ?b" "reg_of t' v = Some q"
    then have v: "v \<in> virtuals b" "reg_of t v = Some q" using at(3) below [of b] by auto
    then show "\<exists>a. tracking (phys t' q) = Some (VirtualR v a)" using e(2) [of q] D(8) [OF v] unheld [OF v(1)] by auto
  next
    fix h assume h: "h \<in> insert ?b H"
    have "separate t (virtuals b) (insert p (physicals b))"
      using D(11) [of b] unheld unfolding separate_def by fastforce
    then show "virtuals h \<subseteq> {..<n} \<and> separate t' (virtuals h) (physicals h)"
      using h D(10,11) [of h] D(2) same(2) [of b] same(2) [of h] by (cases "h = ?b") auto
  next
    fix h v assume h: "h \<in> insert ?b H" and v: "v \<in> virtuals ?b" "v \<in> virtuals h"
    show "occupied t' (virtuals h) (physicals h) \<subseteq> interference (track_of t' v)"
    proof (cases "h = ?b")
      case True then show ?thesis using grown [of v] v live_b by simp
    next
      case False
      then have "h \<in> insert b H" "v \<in> virtuals b" using h v by auto
      then show ?thesis using D(12) [of h v] same(1) [of h] at(4) [OF below [of b v]] v(2) by auto
    qed
  qed (use at D(4,5,6,7,9) e(2) in auto)
qed

lemma scan_use_physical:
  assumes "scan_inv n cls t0 b H t live" and "scan_use k (PhysicalR p) (t, live) = Inr (t', live')"
  shows "scan_inv n cls t0 (b\<lparr>physicals := insert p (physicals b)\<rparr>) H t' live'"
  using scan_use_physical_move [OF assms(1) _ _ assms(2)] scan_use_physical_keep [OF assms(1) _ assms(2)] by blast

lemma scan_uses_effect:
  assumes "scan_inv n cls t0 b H t live" and "foldR (scan_use k) rs (t, live) = Inr (t', live')"
    and "\<And>v a. VirtualR v a \<in> set rs \<Longrightarrow> v < n \<and> a = cls v"
    and "\<And>h v. h \<in> H \<Longrightarrow> v \<in> virtuals h \<Longrightarrow> last_use (track_of t0 v) \<noteq> Some k"
  shows "scan_inv n cls t0 \<lparr>virtuals = virtuals b \<union> {v. (\<exists>a. VirtualR v a \<in> set rs) \<and> last_use (track_of t0 v) = Some k},
     physicals = physicals b \<union> {p. PhysicalR p \<in> set rs}\<rparr> H t' live'"
  using assms
proof (induction rs arbitrary: b t live)
  case Nil
  then show ?case by (cases b) simp
next
  case (Cons r rs)
  then obtain t1 live1 where one: "scan_use k r (t, live) = Inr (t1, live1)" "foldR (scan_use k) rs (t1, live1) = Inr (t', live')"
    by (auto simp: res_simps)
  have rest: "v < n \<and> a = cls v" if "VirtualR v a \<in> set rs" for v a using Cons.prems(3) [of v a] that by simp
  show ?case
  proof (cases r)
    case (VirtualR v a)
    then have v: "v < n" "a = cls v" using Cons.prems(3) [of v a] by auto
    have "scan_inv n cls t0 (b\<lparr>virtuals := virtuals b \<union> {w. w = v \<and> last_use (track_of t0 w) = Some k}\<rparr>) H t1 live1"
      by (rule scan_use_virtual [OF Cons.prems(1) v(1)]) (use Cons.prems(4) one(1) VirtualR v in auto)
    note ih = Cons.IH [OF this one(2) rest Cons.prems(4), simplified]
    have "virtuals b \<union> {w. w = v \<and> last_use (track_of t0 w) = Some k} \<union> {v. (\<exists>a. VirtualR v a \<in> set rs) \<and> last_use (track_of t0 v) = Some k}
        = virtuals b \<union> {v. (\<exists>a. VirtualR v a \<in> set (r # rs)) \<and> last_use (track_of t0 v) = Some k}"
      "{p. PhysicalR p \<in> set rs} = {p. PhysicalR p \<in> set (r # rs)}"
      by (auto simp: VirtualR)
    with ih show ?thesis by (simp only:)
  next
    case (PhysicalR p)
    note ih = Cons.IH [OF scan_use_physical [OF Cons.prems(1) one(1) [unfolded PhysicalR]] one(2) rest Cons.prems(4), simplified]
    have "insert p (physicals b \<union> {p. PhysicalR p \<in> set rs}) = physicals b \<union> {p. PhysicalR p \<in> set (r # rs)}"
      "{v. (\<exists>a. VirtualR v a \<in> set rs) \<and> last_use (track_of t0 v) = Some k} = {v. (\<exists>a. VirtualR v a \<in> set (r # rs)) \<and> last_use (track_of t0 v) = Some k}"
      by (auto simp: PhysicalR)
    with ih show ?thesis by (simp only:)
  next
    case (GlobalR g)
    then have "t1 = t" "live1 = live" using one(1) by auto
    with Cons.IH [OF _ one(2) rest Cons.prems(4)] Cons.prems(1) show ?thesis using GlobalR by simp
  qed
qed

section \<open>The scan\<close>

definition live_virtuals :: "register_tracker \<Rightarrow> nat \<Rightarrow> nat set" where
  "live_virtuals t k = {v. v < length (virt t) \<and> (\<exists>f l. first_def (track_of t v) = Some f \<and> last_use (track_of t v) = Some l \<and> f < k \<and> k \<le> l)}"

definition point_at :: "opcode list \<Rightarrow> register_tracker \<Rightarrow> nat \<Rightarrow> point" where
  "point_at c t k = \<lparr>virtuals = live_virtuals t k, physicals = live_physicals c k\<rparr>"

lemma live_physicals_step:
  assumes "k < length c"
  shows "live_physicals c k = live_physicals c (Suc k) - {p. PhysicalR p \<in> set (instr_defs c k)} \<union> {p. PhysicalR p \<in> set (instr_uses c k)}"
proof -
  have "p \<in> live_physicals c k \<longleftrightarrow> p \<in> live_physicals c (Suc k) \<and> PhysicalR p \<notin> set (instr_defs c k) \<or> PhysicalR p \<in> set (instr_uses c k)" for p
  proof
    assume "p \<in> live_physicals c k"
    then obtain j where j: "k \<le> j" "j < length c" "PhysicalR p \<in> set (instr_uses c j)"
      "\<forall>m. k \<le> m \<and> m < j \<longrightarrow> PhysicalR p \<notin> set (instr_defs c m)" by (auto simp: live_physicals_def)
    show "p \<in> live_physicals c (Suc k) \<and> PhysicalR p \<notin> set (instr_defs c k) \<or> PhysicalR p \<in> set (instr_uses c k)"
    proof (cases "j = k")
      case False
      then have "Suc k \<le> j" using j(1) by simp
      then show ?thesis using j unfolding live_physicals_def by auto
    qed (use j in simp)
  next
    assume "p \<in> live_physicals c (Suc k) \<and> PhysicalR p \<notin> set (instr_defs c k) \<or> PhysicalR p \<in> set (instr_uses c k)"
    then show "p \<in> live_physicals c k"
    proof
      assume "PhysicalR p \<in> set (instr_uses c k)"
      then show ?thesis using assms unfolding live_physicals_def by fastforce
    next
      assume p: "p \<in> live_physicals c (Suc k) \<and> PhysicalR p \<notin> set (instr_defs c k)"
      then obtain j where j: "Suc k \<le> j" "j < length c" "PhysicalR p \<in> set (instr_uses c j)"
        "\<forall>m. Suc k \<le> m \<and> m < j \<longrightarrow> PhysicalR p \<notin> set (instr_defs c m)" by (auto simp: live_physicals_def)
      moreover have "PhysicalR p \<notin> set (instr_defs c m)" if "k \<le> m" "m < j" for m
        using j(4) p that by (cases "m = k") auto
      ultimately show ?thesis unfolding live_physicals_def by (auto intro!: exI [of _ j])
    qed
  qed
  then show ?thesis by auto
qed

lemma rangesD:
  assumes "ranges_of cls c t" and "v < length (virt t)"
  shows "first_def (track_of t v) = Some f \<Longrightarrow> VirtualR v (cls v) \<in> set (instr_defs c f)"
    "j < length c \<Longrightarrow> VirtualR v (cls v) \<in> set (instr_defs c j) \<Longrightarrow> \<exists>f\<le>j. first_def (track_of t v) = Some f"
    "last_use (track_of t v) = Some l \<Longrightarrow> l < length c" "last_use (track_of t v) = Some l \<Longrightarrow> VirtualR v (cls v) \<in> set (instr_uses c l)"
    "j < length c \<Longrightarrow> VirtualR v (cls v) \<in> set (instr_uses c j) \<Longrightarrow> \<exists>l\<ge>j. last_use (track_of t v) = Some l"
  using assms unfolding ranges_of_def Let_def by blast+

text \<open>A definition lies in the live range of its register, and a use at its end or inside.\<close>

lemma occurrence_in_range:
  assumes ok: "no_dead_definitions n cls c" and t: "ranges_of cls c t" "length (virt t) = n" and k: "k < length c"
  shows "VirtualR v a \<in> set (instr_defs c k) \<Longrightarrow> v \<in> live_virtuals t (Suc k)"
    and "VirtualR v a \<in> set (instr_uses c k) \<Longrightarrow> v \<in> live_virtuals t k"
proof -
  assume d: "VirtualR v a \<in> set (instr_defs c k)"
  note nd = no_dead_definitionsD [OF ok k]
  have v: "v < length (virt t)" "a = cls v" using nd(5,6) [OF d] t(2) by auto
  from nd(7) [OF d] obtain j where j: "k < j" "j < length c" "VirtualR v a \<in> set (instr_uses c j)" by (auto simp: used_after_def)
  then show "v \<in> live_virtuals t (Suc k)"
    using rangesD(2) [OF t(1) v(1) k] rangesD(5) [OF t(1) v(1) j(2)] d v by (fastforce simp: live_virtuals_def)
next
  assume u: "VirtualR v a \<in> set (instr_uses c k)"
  note nd = no_dead_definitionsD [OF ok k]
  have v: "v < length (virt t)" "a = cls v" using nd(2,3) [OF u] t(2) by auto
  from nd(4) [OF u] obtain j where j: "j < k" "VirtualR v a \<in> set (instr_defs c j)" by (auto simp: defined_before_def)
  then show "v \<in> live_virtuals t k"
    using rangesD(2) [OF t(1) v(1), of j] rangesD(5) [OF t(1) v(1) k] u v k by (fastforce simp: live_virtuals_def)
qed

lemma live_virtuals_step:
  assumes ok: "no_dead_definitions n cls c" and t: "ranges_of cls c t" "length (virt t) = n" and k: "k < length c"
  shows "live_virtuals t k = {v \<in> live_virtuals t (Suc k). first_def (track_of t v) \<noteq> Some k}
     \<union> {v. (\<exists>a. VirtualR v a \<in> set (instr_uses c k)) \<and> last_use (track_of t v) = Some k}"
proof -
  have "v \<in> live_virtuals t k" if "VirtualR v a \<in> set (instr_uses c k)" for v a by (rule occurrence_in_range(2) [OF ok t k that])
  moreover have "\<exists>a. VirtualR v a \<in> set (instr_uses c k)" if "v \<in> live_virtuals t k" "last_use (track_of t v) = Some k" for v
    using rangesD(4) [OF t(1) _ that(2)] that(1) by (auto simp: live_virtuals_def)
  ultimately show ?thesis by (auto simp: live_virtuals_def less_Suc_eq_le less_Suc_eq Suc_le_eq order_le_less)
qed

lemma ended_ranges:
  assumes ok: "no_dead_definitions n cls c" and t0: "ranges_of cls c t0" "length (virt t0) = n" and k: "k < length c"
    and inv: "scan_inv n cls t0 (point_at c t0 (Suc k)) H t live"
  shows "live - ended t k (instr_defs c k)
     = occupied t {v \<in> live_virtuals t0 (Suc k). first_def (track_of t0 v) \<noteq> Some k}
         (live_physicals c (Suc k) - {p. PhysicalR p \<in> set (instr_defs c k)})"
proof -
  let ?B = "live_virtuals t0 (Suc k)" and ?P = "live_physicals c (Suc k)"
  note D = scan_invD [OF inv]
  have live: "live = occupied t ?B ?P" and sep: "separate t ?B ?P" using D(3) D(11) [of "point_at c t0 (Suc k)"] by (simp_all add: point_at_def)
  have first: "first_def (track_of t v) = first_def (track_of t0 v)" "v < n" if "v \<in> ?B" for v
    using that D(4) t0(2) by (auto simp: live_virtuals_def)
  have defd: "v \<in> ?B" if "VirtualR v a \<in> set (instr_defs c k)" for v a by (rule occurrence_in_range(1) [OF ok t0 k that])
  have starts: "VirtualR v (cls v) \<in> set (instr_defs c k)" if "v \<in> ?B" "first_def (track_of t0 v) = Some k" for v
    using rangesD(1) [OF t0(1) _ that(2)] first(2) [OF that(1)] t0(2) by simp
  have physd: "p \<in> ?P" if "PhysicalR p \<in> set (instr_defs c k)" for p using no_dead_definitionsD(9) [OF ok k that] by simp
  have apart: "reg_of t v = Some p \<Longrightarrow> p \<notin> ?P" "reg_of t v = Some p \<Longrightarrow> w \<in> ?B \<Longrightarrow> reg_of t w = Some p \<Longrightarrow> v = w" if "v \<in> ?B" for v w p
    using separateD [OF sep that] by force+
  show ?thesis
  proof (intro set_eqI iffI)
    fix p assume p: "p \<in> live - ended t k (instr_defs c k)"
    show "p \<in> occupied t {v \<in> ?B. first_def (track_of t0 v) \<noteq> Some k} (?P - {p. PhysicalR p \<in> set (instr_defs c k)})"
    proof (cases "p \<in> ?P")
      case True then show ?thesis using p by (auto simp: occupied_def ended_def)
    next
      case False
      then obtain v where v: "v \<in> ?B" "reg_of t v = Some p" using p live by (auto simp: occupied_def)
      then have "first_def (track_of t0 v) \<noteq> Some k" using p first [OF v(1)] starts [OF v(1)] by (auto simp: ended_def)
      with v show ?thesis by (auto simp: occupied_def)
    qed
  next
    fix p assume p: "p \<in> occupied t {v \<in> ?B. first_def (track_of t0 v) \<noteq> Some k} (?P - {p. PhysicalR p \<in> set (instr_defs c k)})"
    have "p \<notin> ended t k (instr_defs c k)"
    proof
      assume e: "p \<in> ended t k (instr_defs c k)"
      from p consider (v) v where "v \<in> ?B" "first_def (track_of t0 v) \<noteq> Some k" "reg_of t v = Some p"
        | (p) "p \<in> ?P" "PhysicalR p \<notin> set (instr_defs c k)" by (auto simp: occupied_def)
      then show False
      proof cases
        case v
        have "PhysicalR p \<notin> set (instr_defs c k)" using physd apart(1) [OF v(1,3)] by blast
        then obtain w a where w: "VirtualR w a \<in> set (instr_defs c k)" "first_def (track_of t w) = Some k" "reg_of t w = Some p"
          using e by (auto simp: ended_def)
        then have "v = w" using apart(2) [OF v(1,3) defd [OF w(1)]] by simp
        then show False using w(2) v(1,2) first(1) by simp
      next
        case p
        then obtain w a where w: "VirtualR w a \<in> set (instr_defs c k)" "reg_of t w = Some p" using e by (auto simp: ended_def)
        then show False using apart(1) [OF defd [OF w(1)] w(2)] p(1) by simp
      qed
    qed
    moreover have "p \<in> live" using p live by (auto simp: occupied_def)
    ultimately show "p \<in> live - ended t k (instr_defs c k)" by simp
  qed
qed

lemma plain_definitions:
  assumes ok: "no_dead_definitions n cls c" and t0: "ranges_of cls c t0" "length (virt t0) = n" and k: "k < length c"
    and inv: "scan_inv n cls t0 (point_at c t0 (Suc k)) H t live" and r: "r \<in> set (instr_defs c k)"
  shows "plain_definition t r"
proof (cases r)
  case (VirtualR v a)
  then have v: "v \<in> live_virtuals t0 (Suc k)" using occurrence_in_range(1) [OF ok t0 k] r by blast
  then have "v < n" "last_use (track_of t0 v) \<noteq> None" using t0(2) by (auto simp: live_virtuals_def)
  then show ?thesis using VirtualR scan_invD(1,5) [OF inv] by simp
next
  case (PhysicalR p)
  then show ?thesis using no_dead_definitionsD(9) [OF ok k] r scan_invD(9) [OF inv] by (simp add: point_at_def)
qed simp

definition later_points :: "opcode list \<Rightarrow> register_tracker \<Rightarrow> nat \<Rightarrow> point set" where
  "later_points c t k = point_at c t ` {k<..length c}"

lemma scan_instruction_effect:
  assumes ok: "no_dead_definitions n cls c" and t0: "ranges_of cls c t0" "length (virt t0) = n" and k: "k < length c"
    and inv: "scan_inv n cls t0 (point_at c t0 (Suc k)) (later_points c t0 (Suc k)) t live"
    and run: "scan_instruction (k, c ! k) ((t, live), calls) = Inr ((t', live'), calls')"
  shows "scan_inv n cls t0 (point_at c t0 k) (later_points c t0 k) t' live'"
proof -
  let ?b = "\<lparr>virtuals = {v \<in> live_virtuals t0 (Suc k). first_def (track_of t0 v) \<noteq> Some k},
      physicals = live_physicals c (Suc k) - {p. PhysicalR p \<in> set (instr_defs c k)}\<rparr>"
  obtain t1 live1 skip where one: "scan_defs k (c ! k) (instr_defs c k) (t, live) = Inr ((t1, live1), skip)"
    using run uds_cases [OF ok k] by (auto simp: scan_instruction_def instr_defs_def res_simps split: if_splits)
  have "t1 = t" "\<not> skip" "live1 = live - ended t k (instr_defs c k)"
    using scan_defs_effect [OF _ one] plain_definitions [OF ok t0 k inv] by blast+
  then have uses: "foldR (scan_use k) (instr_uses c k) (t, occupied t (virtuals ?b) (physicals ?b)) = Inr (t', live')"
    using run uds_cases [OF ok k] one ended_ranges [OF ok t0 k inv]
    by (auto simp: scan_instruction_def instr_defs_def instr_uses_def res_simps)
  have points: "insert (point_at c t0 (Suc k)) (later_points c t0 (Suc k)) = later_points c t0 k"
  proof -
    have "{k<..length c} = insert (Suc k) {Suc k<..length c}" using k by auto
    then show ?thesis by (simp add: later_points_def)
  qed
  have "scan_inv n cls t0 ?b (later_points c t0 k) t (occupied t (virtuals ?b) (physicals ?b))"
    unfolding points [symmetric] by (rule scan_inv_shrink [OF inv]) (auto simp: point_at_def)
  note after = scan_uses_effect [OF this uses]
  have "scan_inv n cls t0 \<lparr>virtuals = virtuals ?b \<union> {v. (\<exists>a. VirtualR v a \<in> set (instr_uses c k)) \<and> last_use (track_of t0 v) = Some k},
     physicals = physicals ?b \<union> {p. PhysicalR p \<in> set (instr_uses c k)}\<rparr> (later_points c t0 k) t' live'"
  proof (rule after)
    fix v a assume "VirtualR v a \<in> set (instr_uses c k)"
    then show "v < n \<and> a = cls v" using no_dead_definitionsD(2,3) [OF ok k] by blast
  next
    fix h v assume "h \<in> later_points c t0 k" "v \<in> virtuals h"
    then show "last_use (track_of t0 v) \<noteq> Some k" by (auto simp: later_points_def point_at_def live_virtuals_def)
  qed
  then show ?thesis by (simp add: point_at_def live_virtuals_step [OF ok t0 k] live_physicals_step [OF k])
qed

lemma enumerate_upt: "List.enumerate 0 c = map (\<lambda>k. (k, c ! k)) [0..<length c]"
  by (rule nth_equalityI) (simp_all add: nth_enumerate_eq)

lemma scan_effect:
  assumes ok: "no_dead_definitions n cls c" and t0: "ranges_of cls c t0" "length (virt t0) = n" "\<forall>v<n. reg_of t0 v = None"
    and "m \<le> length c" and "foldR scan_instruction (map (\<lambda>k. (k, c ! k)) (rev [m..<length c])) ((t0, {}), []) = Inr ((t, live), calls)"
  shows "scan_inv n cls t0 (point_at c t0 m) (later_points c t0 m) t live"
  using assms(5,6)
proof (induction arbitrary: t live calls rule: inc_induct)
  case base
  have "live_virtuals t0 (length c) = {}" using rangesD(3) [OF t0(1)] by (force simp: live_virtuals_def)
  moreover have "live_physicals c (length c) = {}" by (auto simp: live_physicals_def)
  ultimately show ?case
    using base t0(2,3) by (auto simp: scan_inv_def point_at_def later_points_def occupied_def separate_def)
next
  case (step m)
  have "rev [m..<length c] = rev [Suc m..<length c] @ [m]" using step.hyps by (simp add: upt_conv_Cons)
  then obtain t1 live1 calls1 where one:
      "foldR scan_instruction (map (\<lambda>k. (k, c ! k)) (rev [Suc m..<length c])) ((t0, {}), []) = Inr ((t1, live1), calls1)"
      "scan_instruction (m, c ! m) ((t1, live1), calls1) = Inr ((t, live), calls)"
    using step.prems by (auto simp: foldR_append res_simps)
  show ?case by (rule scan_instruction_effect [OF ok t0(1,2) step.hyps(2) step.IH [OF one(1)] one(2)])
qed

lemma do_allocate_effect:
  assumes "no_dead_definitions n cls c" and "ranges_of cls c t0" "length (virt t0) = n" "\<forall>v<n. reg_of t0 v = None"
    and "do_allocate t0 c = Inr (t, calls)" and "k \<le> length c"
  shows "separate t (live_virtuals t0 k) (live_physicals c k)"
    and "v < n \<Longrightarrow> reg_of t v = Some p \<Longrightarrow> p \<in> avail_of (cls v)"
proof -
  obtain live where "foldR scan_instruction (map (\<lambda>k. (k, c ! k)) (rev [0..<length c])) ((t0, {}), []) = Inr ((t, live), calls)"
    using assms(5) by (auto simp: do_allocate_def enumerate_upt rev_map res_simps)
  note D = scan_invD [OF scan_effect [OF assms(1-4) le0 this]]
  have "point_at c t0 k \<in> insert (point_at c t0 0) (later_points c t0 0)" using assms(6) by (cases k) (auto simp: later_points_def)
  from D(11) [OF this] show "separate t (live_virtuals t0 k) (live_physicals c k)" by (simp add: point_at_def)
  show "v < n \<Longrightarrow> reg_of t v = Some p \<Longrightarrow> p \<in> avail_of (cls v)" by (rule D(6))
qed

end
