(* ===== verification/Allocation_Sound.thy ===== *)
theory Allocation_Sound
  imports Allocation_Scan
begin

text \<open>
  What register allocation promises: code on virtual registers and the allocated code read the same values, the live
  ranges are exact, and committing an instruction writes the assignment and nothing else.  The last theorem shows
  shapes of code outside these that the allocator gets wrong.
\<close>

section \<open>What the code computes\<close>

text \<open>
  Straight-line code on registers that hold arbitrary values.  An instruction reads the registers it uses and gives the i-th
  register it defines the value \<open>sem k xs i\<close>, any function of its position and of what it read; the renaming says
  which register stands for which.  A call also leaves arbitrary values in the registers that the sysv64 convention lets the callee
  overwrite, and the pops behind it then restore those that were pushed in front of it.
\<close>

definition write_registers :: "(x86_register \<times> 'v) list \<Rightarrow> (x86_register \<Rightarrow> 'v) \<Rightarrow> x86_register \<Rightarrow> 'v" where
  "write_registers = fold (\<lambda>(r, x) s. s(r := x))"

definition clobbered :: register_set where
  "clobbered = set CALLER_SAVED \<union> {p. is_xmm p}"

definition replace_physicals :: "register_set \<Rightarrow> (physical_register \<Rightarrow> 'v) \<Rightarrow> (x86_register \<Rightarrow> 'v) \<Rightarrow> x86_register \<Rightarrow> 'v" where
  "replace_physicals ps f s r = (case r of PhysicalR p \<Rightarrow> if p \<in> ps then f p else s r | _ \<Rightarrow> s r)"

primrec run_code :: "(nat \<Rightarrow> 'v list \<Rightarrow> nat \<Rightarrow> 'v) \<Rightarrow> (nat \<Rightarrow> physical_register \<Rightarrow> 'v) \<Rightarrow> (nat \<Rightarrow> register_set)
    \<Rightarrow> (x86_register \<Rightarrow> x86_register) \<Rightarrow> opcode list \<Rightarrow> (x86_register \<Rightarrow> 'v) \<Rightarrow> nat \<Rightarrow> x86_register \<Rightarrow> 'v" where
  "run_code sem junk saved rho c s 0 = s"
| "run_code sem junk saved rho c s (Suc k) =
     (let now = run_code sem junk saved rho c s k;
          xs = map (\<lambda>r. now (rho r)) (instr_uses c k);
          results = zip (map rho (instr_defs c k)) (map (sem k xs) [0..<length (instr_defs c k)])
      in if is_call (c ! k)
         then replace_physicals (saved k) (\<lambda>p. now (PhysicalR p)) (write_registers results (replace_physicals clobbered (junk k) now))
         else write_registers results now)"

text \<open>The registers \<open>commit\<close> writes into the instructions.\<close>

fun assigned :: "register_tracker \<Rightarrow> x86_register \<Rightarrow> x86_register" where
  "assigned t (VirtualR v a) = (case reg_of t v of None \<Rightarrow> VirtualR v a | Some p \<Rightarrow> PhysicalR p)"
| "assigned t r = r"

text \<open>The registers \<open>commit\<close> pushes in front of the call at an index and pops behind it, in the slots left for them.\<close>

definition saved_at :: "register_tracker \<Rightarrow> calls \<Rightarrow> opcode list \<Rightarrow> nat \<Rightarrow> register_set" where
  "saved_at t calls c k =
     (case (c ! k, map_of calls k) of
        (CALL f nr_input_args _, Some live_registers) \<Rightarrow>
          (case map_option (assigned t) (as_register f) of
             Some (PhysicalR fn_ptr_register) \<Rightarrow> set (registers_to_save live_registers nr_input_args fn_ptr_register)
           | _ \<Rightarrow> {})
      | _ \<Rightarrow> {})"

text \<open>
  The calls the allocator gets right: the register with the function's address is not used after the call, no physical register that
  the callee may overwrite is, unless it holds a result, no XMM register is held across the call, and the set recorded for
  the call when the scan passed it is the one of the final assignment: no register live there has been moved since.
\<close>

definition calls_respected :: "opcode list \<Rightarrow> register_tracker \<Rightarrow> register_tracker \<Rightarrow> calls \<Rightarrow> bool" where
  "calls_respected c t0 t calls \<longleftrightarrow> (\<forall>k<length c. \<forall>f nr_input_args nr_output_args. c ! k = CALL f nr_input_args nr_output_args \<longrightarrow>
     (\<exists>v a. as_register f = Some (VirtualR v a) \<and> v \<notin> live_virtuals t0 (Suc k))
     \<and> (\<forall>p \<in> live_physicals c (Suc k) \<inter> clobbered. PhysicalR p \<in> set (instr_defs c k))
     \<and> (\<forall>v \<in> live_virtuals t0 k \<inter> live_virtuals t0 (Suc k). \<forall>p. reg_of t v = Some p \<longrightarrow> \<not> is_xmm p)
     \<and> map_of calls k = Some (occupied t (live_virtuals t0 k) (live_physicals c k)))"

definition live_registers :: "(nat \<Rightarrow> register_class) \<Rightarrow> opcode list \<Rightarrow> register_tracker \<Rightarrow> nat \<Rightarrow> x86_register set" where
  "live_registers cls c t k = (\<lambda>v. VirtualR v (cls v)) ` live_virtuals t k \<union> PhysicalR ` live_physicals c k \<union> range GlobalR"

lemma write_registers_agree:
  assumes "inj_on rho L" and "set ds \<subseteq> L" and "r \<in> L" and "length xs = length ds" and "r \<in> set ds \<or> s r = s' (rho r)"
  shows "write_registers (zip ds xs) s r = write_registers (zip (map rho ds) xs) s' (rho r)"
  using assms(2,4,5)
proof (induction ds arbitrary: xs s s')
  case (Cons d ds)
  then obtain x ys where xs: "xs = x # ys" by (cases xs) auto
  have d: "d \<in> L" using Cons.prems(1) by simp
  have "r \<in> set ds \<or> (s(d := x)) r = (s'(rho d := x)) (rho r)"
    using Cons.prems(3) inj_onD [OF assms(1) _ assms(3) d] by auto
  from Cons.IH [where s = "s(d := x)" and s' = "s'(rho d := x)", OF _ _ this, of ys] show ?case using Cons.prems(1,2) xs by (simp add: write_registers_def del: fun_upd_apply)
qed (simp add: write_registers_def)

lemma assigned_inj:
  assumes "separate t (live_virtuals t0 k) (live_physicals c k)"
  shows "inj_on (assigned t) (live_registers cls c t0 k)"
proof (rule inj_onI)
  fix r r' assume "r \<in> live_registers cls c t0 k" "r' \<in> live_registers cls c t0 k" "assigned t r = assigned t r'"
  moreover have "\<exists>p. reg_of t v = Some p \<and> p \<notin> live_physicals c k" if "v \<in> live_virtuals t0 k" for v by (rule separateD(1) [OF assms that])
  moreover have "v = w" if "v \<in> live_virtuals t0 k" "w \<in> live_virtuals t0 k" "reg_of t v = reg_of t w" for v w
    by (rule separateD(2) [OF assms that])
  ultimately show "r = r'" unfolding live_registers_def by (fastforce split: option.splits)
qed

lemma live_registers_step:
  assumes ok: "no_dead_definitions n cls c" and t: "ranges_of cls c t" "length (virt t) = n" and k: "k < length c"
  shows "set (instr_uses c k) \<subseteq> live_registers cls c t k" "set (instr_defs c k) \<subseteq> live_registers cls c t (Suc k)"
    "live_registers cls c t (Suc k) - set (instr_defs c k) \<subseteq> live_registers cls c t k"
proof -
  show "set (instr_uses c k) \<subseteq> live_registers cls c t k"
  proof
    fix r assume r: "r \<in> set (instr_uses c k)"
    show "r \<in> live_registers cls c t k"
    proof (cases r)
      case (VirtualR v a)
      then show ?thesis using occurrence_in_range(2) [OF ok t k] no_dead_definitionsD(3) [OF ok k] r by (auto simp: live_registers_def)
    qed (use r live_physicals_step [OF k] in \<open>auto simp: live_registers_def\<close>)
  qed
  show "set (instr_defs c k) \<subseteq> live_registers cls c t (Suc k)"
  proof
    fix r assume r: "r \<in> set (instr_defs c k)"
    show "r \<in> live_registers cls c t (Suc k)"
    proof (cases r)
      case (VirtualR v a)
      then show ?thesis using occurrence_in_range(1) [OF ok t k] no_dead_definitionsD(6) [OF ok k] r by (auto simp: live_registers_def)
    qed (use r no_dead_definitionsD(9) [OF ok k] in \<open>auto simp: live_registers_def\<close>)
  qed
  have "v \<in> live_virtuals t k" if "v \<in> live_virtuals t (Suc k)" "VirtualR v (cls v) \<notin> set (instr_defs c k)" for v
  proof -
    have "first_def (track_of t v) \<noteq> Some k" using rangesD(1) [OF t(1), of v k] that by (auto simp: live_virtuals_def)
    then show ?thesis using that(1) unfolding live_virtuals_step [OF ok t k] by blast
  qed
  then show "live_registers cls c t (Suc k) - set (instr_defs c k) \<subseteq> live_registers cls c t k"
    using live_physicals_step [OF k] by (auto simp: live_registers_def)
qed

lemma write_registers_other: "r \<notin> set ds \<Longrightarrow> write_registers (zip ds xs) s r = s r"
proof (induction ds arbitrary: xs s)
  case (Cons d ds)
  then show ?case by (cases xs) (auto simp: write_registers_def)
qed (simp add: write_registers_def)

lemma replace_physicals_simps [simp]:
  "replace_physicals ps f s (VirtualR v a) = s (VirtualR v a)" "replace_physicals ps f s (GlobalR g) = s (GlobalR g)"
  "replace_physicals ps f s (PhysicalR p) = (if p \<in> ps then f p else s (PhysicalR p))"
  by (simp_all add: replace_physicals_def)

lemma replace_physicals_cong: "s r = s' r \<Longrightarrow> replace_physicals ps f s r = replace_physicals ps f s' r"
  by (cases r) simp_all

text \<open>What makes a call keep the values of the registers that are live behind it.\<close>

definition call_keeps :: "opcode list \<Rightarrow> register_tracker \<Rightarrow> register_tracker \<Rightarrow> register_set \<Rightarrow> nat \<Rightarrow> bool" where
  "call_keeps c t0 t saved k \<longleftrightarrow> saved \<subseteq> clobbered
     \<and> (\<forall>r \<in> set (instr_defs c k). \<forall>p \<in> saved. assigned t r \<noteq> PhysicalR p)
     \<and> (\<forall>p \<in> live_physicals c (Suc k) \<inter> clobbered. PhysicalR p \<in> set (instr_defs c k))
     \<and> (\<forall>v \<in> live_virtuals t0 k \<inter> live_virtuals t0 (Suc k). \<forall>p \<in> clobbered. reg_of t v = Some p \<longrightarrow> p \<in> saved)"

lemma live_across_call:
  assumes keeps: "call_keeps c t0 t saved k" and sep: "separate t (live_virtuals t0 (Suc k)) (live_physicals c (Suc k))"
    and r: "r \<in> live_registers cls c t0 (Suc k)" "r \<in> live_registers cls c t0 k" "r \<notin> set (instr_defs c k)"
  shows "replace_physicals clobbered junk now r = now r"
    and "replace_physicals saved (\<lambda>p. now' (PhysicalR p)) (replace_physicals clobbered junk' now') (assigned t r) = now' (assigned t r)"
proof -
  consider v where "r = VirtualR v (cls v)" "v \<in> live_virtuals t0 k" "v \<in> live_virtuals t0 (Suc k)"
    | p where "r = PhysicalR p" "p \<in> live_physicals c (Suc k)" | g where "r = GlobalR g"
    using r(1,2) by (auto simp: live_registers_def)
  then have "replace_physicals clobbered junk now r = now r
    \<and> replace_physicals saved (\<lambda>p. now' (PhysicalR p)) (replace_physicals clobbered junk' now') (assigned t r) = now' (assigned t r)"
  proof cases
    case 1
    then obtain p where "reg_of t v = Some p" using separateD(1) [OF sep] by blast
    then show ?thesis using keeps 1 unfolding call_keeps_def by auto
  next
    case 2
    then have "p \<notin> clobbered" using keeps r(3) unfolding call_keeps_def by blast
    then show ?thesis using 2(1) by simp
  qed simp
  then show "replace_physicals clobbered junk now r = now r"
    and "replace_physicals saved (\<lambda>p. now' (PhysicalR p)) (replace_physicals clobbered junk' now') (assigned t r) = now' (assigned t r)"
    by auto
qed

lemma assignment_agrees:
  assumes ok: "no_dead_definitions n cls c" and t0: "ranges_of cls c t0" "length (virt t0) = n"
    and sep: "\<And>k. k \<le> length c \<Longrightarrow> separate t (live_virtuals t0 k) (live_physicals c k)"
    and keeps: "\<And>k. k < length c \<Longrightarrow> is_call (c ! k) \<Longrightarrow> call_keeps c t0 t (saved k) k"
    and init: "\<And>p. p \<in> live_physicals c 0 \<Longrightarrow> s (PhysicalR p) = s' (PhysicalR p)" "\<And>g. s (GlobalR g) = s' (GlobalR g)"
    and k: "k \<le> length c" and r: "r \<in> live_registers cls c t0 k"
  shows "run_code sem junk (\<lambda>_. {}) (\<lambda>r. r) c s k r = run_code sem junk' saved (assigned t) c s' k (assigned t r)"
  using k r
proof (induction k arbitrary: r)
  case 0
  then have "(\<exists>p\<in>live_physicals c 0. r = PhysicalR p) \<or> (\<exists>g. r = GlobalR g)" by (auto simp: live_registers_def live_virtuals_def)
  then show ?case using init by auto
next
  case (Suc k)
  let ?now = "run_code sem junk (\<lambda>_. {}) (\<lambda>r. r) c s k" and ?now' = "run_code sem junk' saved (assigned t) c s' k"
  let ?ds = "instr_defs c k"
  have k: "k < length c" using Suc.prems(1) by simp
  note step = live_registers_step [OF ok t0 k]
  have agree: "?now r = ?now' (assigned t r)" if "r \<in> live_registers cls c t0 k" for r using Suc.IH that k by simp
  define outs where "outs = map (sem k (map ?now (instr_uses c k))) [0..<length ?ds]"
  have xs: "map ?now (instr_uses c k) = map (\<lambda>r. ?now' (assigned t r)) (instr_uses c k)" using agree step(1) by auto
  have inj: "inj_on (assigned t) (live_registers cls c t0 (Suc k))" by (rule assigned_inj [OF sep [OF Suc.prems(1)]])
  have len: "length outs = length ?ds" by (simp add: outs_def)
  have kept: "r \<in> set ?ds \<or> r \<in> live_registers cls c t0 k \<and> r \<notin> set ?ds" using step(3) Suc.prems(2) by blast
  note wr = write_registers_agree [OF inj step(2) Suc.prems(2) len]
  show ?case
  proof (cases "is_call (c ! k)")
    case False
    have "r \<in> set ?ds \<or> ?now r = ?now' (assigned t r)" using agree kept by blast
    from wr [where s = ?now and s' = ?now', OF this] show ?thesis using False by (simp add: Let_def xs outs_def)
  next
    case True
    let ?lost = "replace_physicals clobbered (junk k) ?now" and ?lost' = "replace_physicals clobbered (junk' k) ?now'"
    let ?popped = "\<lambda>s. replace_physicals (saved k) (\<lambda>p. ?now' (PhysicalR p)) s (assigned t r)"
    note across = live_across_call [OF keeps [OF k True] sep [OF Suc.prems(1)] Suc.prems(2)]
    have none: "replace_physicals {} f s r = s r" for f :: "physical_register \<Rightarrow> 'b" and s by (cases r) simp_all
    have "write_registers (zip ?ds outs) ?lost r = ?popped (write_registers (zip (map (assigned t) ?ds) outs) ?lost')"
    proof (cases "r \<in> set ?ds")
      case True
      then have "?popped s = s (assigned t r)" for s
        using keeps [OF k \<open>is_call (c ! k)\<close>] unfolding call_keeps_def by (auto simp: replace_physicals_def split: x86_register.splits)
      then show ?thesis using wr [where s = ?lost and s' = ?lost'] True by simp
    next
      case False
      then have r: "r \<in> live_registers cls c t0 k" using kept by blast
      have "assigned t r \<notin> set (map (assigned t) ?ds)" using inj_onD [OF inj _ Suc.prems(2)] step(2) False by auto
      then have "?popped (write_registers (zip (map (assigned t) ?ds) outs) ?lost') = ?popped ?lost'"
        by (intro replace_physicals_cong write_registers_other)
      also have "\<dots> = ?now' (assigned t r)" by (rule across(2) [OF r False])
      finally show ?thesis using agree [OF r] False by (simp add: write_registers_other across(1) [OF r False])
    qed
    then show ?thesis using True by (simp add: Let_def xs outs_def none)
  qed
qed

section \<open>Calls\<close>

lemma call_uses_defs:
  assumes "c ! k = CALL f m n" and "as_register f = Some r" and "instr_uds c k = uds" "get_use_defs (c ! k) = Inr uds"
  shows "instr_uses c k = r # map PhysicalR (take m ARG_REGS)" and "instr_defs c k = map PhysicalR (take n [RAX, RDX])"
proof -
  have regs: "mapR (preg W64) rs = Inr (map (\<lambda>r. \<lparr>operand_kind = RegisterO (PhysicalR r), width_in_bits = W64\<rparr>) rs)" for rs
    by (induction rs) (simp_all add: preg_def)
  have f: "operand_kind f = RegisterO r" using assms(2) by (auto simp: as_register_def split: operand_kind.splits)
  have uses: "concat (map (operand_use_defs \<circ> (Pair d \<circ> (\<lambda>r. \<lparr>operand_kind = RegisterO (PhysicalR r), width_in_bits = W64\<rparr>))) rs)
      = map (from_operand_direction d \<circ> PhysicalR) rs" for d rs
    by (induction rs) simp_all
  have "uds = Use r # map (Use \<circ> PhysicalR) (take m ARG_REGS) @ map (Def \<circ> PhysicalR) (take n [RAX, RDX])"
    using assms(4) by (simp add: assms(1) get_use_defs_def regs uses f comp_def)
  then show "instr_uses c k = r # map PhysicalR (take m ARG_REGS)" and "instr_defs c k = map PhysicalR (take n [RAX, RDX])"
    by (simp_all add: instr_uses_def instr_defs_def assms(3) filter_map comp_def)
qed

text \<open>A call that is respected keeps what is live behind it, and the registers restored hold none of its results.\<close>

lemma respected_call_keeps:
  assumes ok: "no_dead_definitions n cls c" and t0: "ranges_of cls c t0" "length (virt t0) = n"
    and sep: "\<And>k. k \<le> length c \<Longrightarrow> separate t (live_virtuals t0 k) (live_physicals c k)"
    and calls: "calls_respected c t0 t calls" and k: "k < length c" and call: "is_call (c ! k)"
  shows "call_keeps c t0 t (saved_at t calls c k) k"
proof -
  obtain f m o' where c: "c ! k = CALL f m o'" using call by (auto simp: is_call_def split: opcode.splits)
  let ?L = "occupied t (live_virtuals t0 k) (live_physicals c k)"
  obtain u a where u: "as_register f = Some (VirtualR u a)" "u \<notin> live_virtuals t0 (Suc k)"
    and phys: "\<forall>p \<in> live_physicals c (Suc k) \<inter> clobbered. PhysicalR p \<in> set (instr_defs c k)"
    and xmm: "\<forall>v \<in> live_virtuals t0 k \<inter> live_virtuals t0 (Suc k). \<forall>p. reg_of t v = Some p \<longrightarrow> \<not> is_xmm p"
    and live: "map_of calls k = Some ?L"
    using calls k c unfolding calls_respected_def by blast
  note io = call_uses_defs [OF c u(1) refl uds_cases [OF ok k]]
  note sepk = separateD [OF sep [OF less_imp_le [OF k]]] and sepn = separateD [OF sep [OF Suc_leI [OF k]]]
  have ul: "u \<in> live_virtuals t0 k" using occurrence_in_range(2) [OF ok t0 k, of u a] io(1) by simp
  then obtain fp where fp: "reg_of t u = Some fp" using sepk(1) by blast
  have saved: "saved_at t calls c k = {p \<in> ?L. p \<in> set CALLER_SAVED \<and> p \<notin> set (take m ARG_REGS) \<and> p \<noteq> fp}"
    by (auto simp: saved_at_def c live u(1) fp registers_to_save_def)
  have args: "set (take m ARG_REGS) \<subseteq> live_physicals c k" using live_physicals_step [OF k] io(1) by auto
  have "p \<in> saved_at t calls c k" if "v \<in> live_virtuals t0 k" "v \<in> live_virtuals t0 (Suc k)" "p \<in> clobbered" "reg_of t v = Some p" for v p
  proof -
    have "p \<in> set CALLER_SAVED" using xmm that by (auto simp: clobbered_def)
    moreover have "p \<in> ?L" using that by (auto simp: occupied_def)
    moreover have "p \<notin> set (take m ARG_REGS)" using sepk(1) [OF that(1)] that(4) args by auto
    moreover have "p \<noteq> fp" using sepk(2) [OF that(1) ul] that(2,4) u(2) fp by auto
    ultimately show ?thesis by (simp add: saved)
  qed
  moreover have "p \<notin> saved_at t calls c k" if "PhysicalR p \<in> set (instr_defs c k)" for p
  proof
    assume p: "p \<in> saved_at t calls c k"
    have pn: "p \<in> live_physicals c (Suc k)" using no_dead_definitionsD(9) [OF ok k that] by simp
    from p consider v where "v \<in> live_virtuals t0 k" "reg_of t v = Some p" | "p \<in> live_physicals c k" by (auto simp: saved occupied_def)
    then show False
    proof cases
      case 1
      then have "v \<notin> live_virtuals t0 (Suc k)" using sepn(1) [of v] pn by auto
      then have "\<exists>a. VirtualR v a \<in> set (instr_uses c k)" using 1(1) live_virtuals_step [OF ok t0 k] by auto
      then have "v = u" using io(1) by auto
      then show False using 1(2) fp p by (auto simp: saved)
    next
      case 2
      then show False using live_physicals_step [OF k] that io(1) p by (auto simp: saved)
    qed
  qed
  ultimately show ?thesis
    using phys unfolding call_keeps_def by (auto simp: io(2) saved clobbered_def)
qed

section \<open>Writing the assignment\<close>

fun rename_use_def :: "(x86_register \<Rightarrow> x86_register) \<Rightarrow> use_def \<Rightarrow> use_def" where
  "rename_use_def rho (Use r) = Use (rho r)"
| "rename_use_def rho (Def r) = Def (rho r)"
| "rename_use_def rho (UseDef r) = UseDef (rho r)"

lemma commit_register_assigned: "commit_register t r = Inr r' \<Longrightarrow> r' = assigned t r"
  by (cases r) (auto simp: res_simps split: option.splits if_splits)

lemma commit_operand_use_defs:
  assumes "commit_operand t op = Inr op'"
  shows "operand_use_defs (d, op') = map (rename_use_def (assigned t)) (operand_use_defs (d, op))"
    and "width_in_bits op' = width_in_bits op"
  using assms by (cases d; auto simp: commit_operand_def res_simps dest!: commit_register_assigned split: operand_kind.splits option.splits)+

lemma replace_global_other:
  assumes "\<forall>ud \<in> set (operand_use_defs (d, op)). \<forall>g. ud_register ud \<noteq> GlobalR g"
  shows "replace_global off op = Inr op"
  using assms by (cases d) (auto simp: replace_global_def split: operand_kind.splits x86_register.splits)

lemma replace_globals_other:
  assumes "get_use_defs instr = Inr uds" and "\<forall>ud \<in> set uds. \<forall>g. ud_register ud \<noteq> GlobalR g" and "instr \<noteq> DEAD"
  shows "map_operands (replace_global off) instr = Inr instr"
proof -
  obtain ops where ops: "get_apparent_operands instr = Inr ops" "uds = concat (map operand_use_defs ops)"
    using assms(1) by (auto simp: get_use_defs_def res_simps)
  have "replace_global off op = Inr op" if "(d, op) \<in> set ops" for d op
    using replace_global_other [of d op off] assms(2) that unfolding ops(2) by fastforce
  then have other: "list_all (\<lambda>(d, op). replace_global off op = Inr op) ops" by (auto simp: list_all_iff)
  show ?thesis
    using ops(1) other assms(3) by (cases instr) (auto simp: res_simps)
qed

lemma preg_use_defs: "preg w r = Inr op \<Longrightarrow> map (rename_use_def (assigned t)) (operand_use_defs (d, op)) = operand_use_defs (d, op)"
  by (cases d) (auto simp: preg_def split: if_splits)

lemma pregs_use_defs:
  assumes "mapR (preg w) rs = Inr ops"
  shows "concat (map (map (rename_use_def (assigned t)) \<circ> (operand_use_defs \<circ> Pair d)) ops) = concat (map (operand_use_defs \<circ> Pair d) ops)"
  using assms by (induction rs arbitrary: ops) (auto simp: res_simps preg_use_defs simp del: operand_use_defs.simps)

lemma committed_use_defs:
  assumes "map_operands (commit_operand t) instr = Inr instr'" and "get_use_defs instr = Inr uds"
  shows "get_use_defs instr' = Inr (map (rename_use_def (assigned t)) uds)"
  using assms
  by (cases instr) (auto simp: get_use_defs_def res_simps commit_operand_use_defs preg_use_defs map_concat pregs_use_defs
      simp del: operand_use_defs.simps)

section \<open>Properties\<close>

text \<open>
  C35: the allocator's live ranges are exact.  On code in which every definition of a virtual register is used later, every
  use has an earlier definition, and nothing is redefined before it is used, the first pass returns, changes no
  instruction, and gives each virtual register the range from its first definition to its last use.
\<close>

theorem live_ranges_exact:
  assumes "no_dead_definitions n cls c"
  shows "\<exists>t. calculate_vreg_live_ranges (register_tracker_new n) c = Inr (t, c) \<and> length (virt t) = n \<and> ranges_of cls c t"
  using ranges_computed [OF assms] by blast

text \<open>
  C7: register allocation keeps what the code computes.  On such code, straight-line, whatever its instructions compute from what
  they read and whatever a call leaves in the registers its callee may overwrite, the allocated code reads at every instruction, in
  the registers the allocator chose and with the recorded ones saved around each call, the values the code reads in its virtual
  registers, if both start with the same globals and the same physical registers where those are live.  Around each call, no XMM register and
  no physical register the callee may overwrite is held, the function's address is not used again, and no register live there
  was moved after the scan had passed the call.  Each virtual register is given a physical one of its own class.
\<close>

theorem register_allocation_sound:
  assumes "no_dead_definitions n cls c" and "calculate_vreg_live_ranges (register_tracker_new n) c = Inr (t0, c')"
    and "do_allocate t0 c' = Inr (t, calls)" and "calls_respected c t0 t calls"
    and "\<And>p. p \<in> live_physicals c 0 \<Longrightarrow> s (PhysicalR p) = s' (PhysicalR p)" and "\<And>g. s (GlobalR g) = s' (GlobalR g)"
    and "k < length c"
  shows "map (run_code sem junk (\<lambda>_. {}) (\<lambda>r. r) c s k) (instr_uses c k)
       = map (\<lambda>r. run_code sem junk' (saved_at t calls c) (assigned t) c s' k (assigned t r)) (instr_uses c k)
     \<and> (\<forall>v p. v < n \<and> physical_register (virt t ! v) = Some p \<longrightarrow> reg_class p = cls v)"
proof -
  have t0: "length (virt t0) = n" "ranges_of cls c t0" "\<forall>v<n. reg_of t0 v = None" and c': "c' = c"
    using ranges_computed [OF assms(1)] assms(2) by auto
  note run = do_allocate_effect [OF assms(1) t0(2,1,3) assms(3) [unfolded c']]
  note keeps = respected_call_keeps [OF assms(1) t0(2,1) run(1) assms(4)]
  have "run_code sem junk (\<lambda>_. {}) (\<lambda>r. r) c s k r = run_code sem junk' (saved_at t calls c) (assigned t) c s' k (assigned t r)"
    if "r \<in> set (instr_uses c k)" for r
    using assignment_agrees [OF assms(1) t0(2,1) run(1) keeps assms(5,6), of k r sem junk junk']
      live_registers_step(1) [OF assms(1) t0(2,1) assms(7)] assms(7) that by auto
  moreover have "reg_class p = cls v" if "v < n" "physical_register (virt t ! v) = Some p" for v p
    using avail_class [OF run(2) [OF le0 that]] by (simp add: reg_class_def)
  ultimately show ?thesis by simp
qed

text \<open>
  C36: committing an instruction writes the assignment into it and nothing else.  For an instruction without globals that is not dead, the
  registers it then uses and defines are those of before, explicit and implicit ones in the same order and with the same
  direction, each virtual register replaced by its physical one.
\<close>

theorem commit_writes_assignment:
  assumes "get_use_defs instr = Inr uds" and "\<forall>ud \<in> set uds. \<forall>g. ud_register ud \<noteq> GlobalR g" and "instr \<noteq> DEAD"
    and "commit_operands t off instr = Inr instr'"
  shows "get_use_defs instr' = Inr (map (rename_use_def (assigned t)) uds)"
  using assms committed_use_defs by (simp add: commit_operands_def replace_globals_other)

section \<open>Examples\<close>

definition sample_immediate :: operand where
  "sample_immediate = \<lparr>operand_kind = ImmediateO 7, width_in_bits = W64\<rparr>"

definition sample_register :: "x86_register \<Rightarrow> operand" where
  "sample_register r = \<lparr>operand_kind = RegisterO r, width_in_bits = W64\<rparr>"

text \<open>A value that is held while the code uses RAX, where the scan had put it at first.\<close>

definition sample_code :: "opcode list" where
  "sample_code =
     [MoveI MOV sample_immediate (sample_register (VirtualR 0 General)),
      MoveI MOV sample_immediate (sample_register (PhysicalR RAX)),
      PUSH (sample_register (PhysicalR RAX)),
      MoveI MOV (sample_register (VirtualR 0 General)) (mem_base_displ W64 (PhysicalR RBP) 8)]"

definition assignment_of :: "opcode list \<Rightarrow> nat \<Rightarrow> (physical_register option list \<times> calls) res" where
  "assignment_of c n = rbind (calculate_vreg_live_ranges (register_tracker_new n) c) (\<lambda>(t, c).
     rbind (do_allocate t c) (\<lambda>(t, calls). Inr (map physical_register (virt t), calls)))"

lemma sample_assignment: "assignment_of sample_code 1 = Inr ([Some RCX], [])"
  by code_simp

lemma sample_uds: "instr_uds sample_code 0 = [Def (VirtualR 0 General)]" "instr_uds sample_code (Suc 0) = [Def (PhysicalR RAX)]"
  "instr_uds sample_code 2 = [Use (PhysicalR RAX)]" "instr_uds sample_code 3 = [Use (VirtualR 0 General), Use (PhysicalR RBP)]"
  "length sample_code = 4"
  by (simp_all add: instr_uds_def sample_code_def get_use_defs_def sample_register_def sample_immediate_def mem_base_displ_def)

lemma sample_occurrences:
  "instr_defs sample_code 0 = [VirtualR 0 General]" "instr_uses sample_code 0 = []"
  "instr_defs sample_code (Suc 0) = [PhysicalR RAX]" "instr_uses sample_code (Suc 0) = []"
  "instr_defs sample_code 2 = []" "instr_uses sample_code 2 = [PhysicalR RAX]"
  "instr_defs sample_code 3 = []" "instr_uses sample_code 3 = [VirtualR 0 General, PhysicalR RBP]"
  by (simp_all add: instr_defs_def instr_uses_def sample_uds)

lemma sample_no_dead: "no_dead_definitions 1 (\<lambda>_. General) sample_code"
proof -
  have four: "(\<forall>k<length sample_code. Q k) \<longleftrightarrow> Q 0 \<and> Q 1 \<and> Q 2 \<and> Q 3" for Q
    by (auto simp: sample_uds less_Suc_eq numeral_eq_Suc)
  have "RAX \<in> live_physicals sample_code (Suc (Suc 0))"
    unfolding live_physicals_def by (auto intro!: exI [of _ 2] simp: sample_occurrences sample_uds)
  moreover have "used_after sample_code (VirtualR 0 General) 0"
    unfolding used_after_def by (auto intro!: exI [of _ 3] simp: sample_occurrences sample_uds)
  moreover have "defined_before sample_code (VirtualR 0 General) 3"
    unfolding defined_before_def by (auto intro!: exI [of _ 0] simp: sample_occurrences)
  moreover have "\<not> defined_before sample_code (VirtualR 0 General) 0" by (simp add: defined_before_def)
  moreover have "\<exists>uds. get_use_defs (sample_code ! k) = Inr uds" if "k \<in> {0, 1, 2, 3}" for k
    using that by (auto simp: sample_code_def get_use_defs_def)
  ultimately show ?thesis unfolding no_dead_definitions_def four by (simp add: sample_occurrences)
qed

theorem live_ranges_exact_witness:
  "\<exists>t. calculate_vreg_live_ranges (register_tracker_new 1) sample_code = Inr (t, sample_code) \<and> length (virt t) = 1
     \<and> ranges_of (\<lambda>_. General) sample_code t"
  by (rule live_ranges_exact [OF sample_no_dead])

text \<open>A value held across a call, with the slots for the pushes and pops that \<open>emit_call\<close> leaves around it.\<close>

definition call_code :: "opcode list" where
  "call_code =
     [MoveI MOV sample_immediate (sample_register (VirtualR 0 General)),
      MoveI MOV sample_immediate (sample_register (VirtualR 1 General))] @ replicate 9 DEAD
     @ [CALL (sample_register (VirtualR 1 General)) 0 0] @ replicate 9 DEAD
     @ [MoveI MOV (sample_register (VirtualR 0 General)) (mem_base_displ W64 (PhysicalR RBP) 8)]"

definition summary_of :: "opcode list \<Rightarrow> nat \<Rightarrow> ((nat option \<times> nat option) list \<times> physical_register option list \<times> calls) res" where
  "summary_of c n = rbind (calculate_vreg_live_ranges (register_tracker_new n) c) (\<lambda>(t0, c).
     rbind (do_allocate t0 c) (\<lambda>(t, calls).
     Inr (map (\<lambda>tr. (first_def tr, last_use tr)) (virt t0), map physical_register (virt t), calls)))"

lemma call_summary:
  "summary_of call_code 2 = Inr ([(Some 0, Some 21), (Some 1, Some 11)], [Some RAX, Some RCX], [(11, {RAX, RCX, RBP})])"
  by code_simp

lemma call_instrs:
  assumes "k < 22"
  shows "call_code ! k =
    (if k = 0 then MoveI MOV sample_immediate (sample_register (VirtualR 0 General))
     else if k = 1 then MoveI MOV sample_immediate (sample_register (VirtualR 1 General))
     else if k = 11 then CALL (sample_register (VirtualR 1 General)) 0 0
     else if k = 21 then MoveI MOV (sample_register (VirtualR 0 General)) (mem_base_displ W64 (PhysicalR RBP) 8)
     else DEAD)"
  using assms by (auto simp: call_code_def nth_append nth_Cons')

lemma call_uds:
  assumes "k < 22"
  shows "get_use_defs (call_code ! k) = Inr
    (if k = 0 then [Def (VirtualR 0 General)] else if k = 1 then [Def (VirtualR 1 General)] else if k = 11 then [Use (VirtualR 1 General)]
     else if k = 21 then [Use (VirtualR 0 General), Use (PhysicalR RBP)] else [])"
  using call_instrs [OF assms]
  by (auto simp: get_use_defs_def sample_register_def sample_immediate_def mem_base_displ_def)

lemma call_length: "length call_code = 22"
  by (simp add: call_code_def)

lemma call_occurrences:
  assumes "k < 22"
  shows "instr_uses call_code k = (if k = 11 then [VirtualR 1 General] else if k = 21 then [VirtualR 0 General, PhysicalR RBP] else [])"
    and "instr_defs call_code k = (if k = 0 then [VirtualR 0 General] else if k = 1 then [VirtualR 1 General] else [])"
  using call_uds [OF assms] by (auto simp: instr_uses_def instr_defs_def instr_uds_def)

lemma call_physicals: "k \<le> 21 \<Longrightarrow> live_physicals call_code k = {RBP}"
  by (auto simp: live_physicals_def call_length call_occurrences split: if_splits intro!: exI [of _ 21])

lemma call_no_dead: "no_dead_definitions 2 (\<lambda>_. General) call_code"
proof -
  have "used_after call_code (VirtualR 0 General) 0" "used_after call_code (VirtualR 1 General) 1"
    unfolding used_after_def call_length
    by (rule exI [of _ 21], simp add: call_occurrences) (rule exI [of _ 11], simp add: call_occurrences)
  moreover have "defined_before call_code (VirtualR 0 General) 21" "defined_before call_code (VirtualR 1 General) 11"
    unfolding defined_before_def
    by (rule exI [of _ 0], simp add: call_occurrences) (rule exI [of _ 1], simp add: call_occurrences)
  moreover have "\<not> defined_before call_code (VirtualR 0 General) 0" "\<not> defined_before call_code (VirtualR 1 General) 1"
    by (simp_all add: defined_before_def call_occurrences)
  ultimately show ?thesis
    unfolding no_dead_definitions_def call_length by (auto simp: call_occurrences call_uds)
qed

lemma call_code_respected:
  assumes "map (\<lambda>tr. (first_def tr, last_use tr)) (virt t0) = [(Some 0, Some 21), (Some 1, Some 11)]"
    and "map physical_register (virt t) = [Some RAX, Some RCX]"
  shows "calls_respected call_code t0 t [(11, {RAX, RCX, RBP})]"
proof -
  obtain x y where t0: "virt t0 = [x, y]" "first_def x = Some 0" "last_use x = Some 21" "first_def y = Some 1" "last_use y = Some 11"
    using assms(1) by (auto simp: map_eq_Cons_conv)
  obtain x' y' where t: "virt t = [x', y']" "physical_register x' = Some RAX" "physical_register y' = Some RCX"
    using assms(2) by (auto simp: map_eq_Cons_conv)
  have live: "live_virtuals t0 11 = {0, 1}" "live_virtuals t0 12 = {0}"
    by (auto simp: live_virtuals_def t0 less_Suc_eq numeral_2_eq_2)
  have occ: "occupied t {0, 1} {RBP} = {RAX, RCX, RBP}" by (auto simp: occupied_def t)
  have free: "RBP \<notin> clobbered" by (simp add: clobbered_def CALLER_SAVED_def is_xmm_def)
  show ?thesis
    unfolding calls_respected_def call_length
  proof (intro allI impI)
    fix k f m n assume "k < 22" "call_code ! k = CALL f m n"
    then have k: "k = 11" and f: "as_register f = Some (VirtualR 1 General)"
      using call_instrs [of k] by (auto simp: sample_register_def as_register_def split: if_splits)
    have "Suc k = 12" using k by simp
    then show "(\<exists>v a. as_register f = Some (VirtualR v a) \<and> v \<notin> live_virtuals t0 (Suc k))
      \<and> (\<forall>p\<in>live_physicals call_code (Suc k) \<inter> clobbered. PhysicalR p \<in> set (instr_defs call_code k))
      \<and> (\<forall>v\<in>live_virtuals t0 k \<inter> live_virtuals t0 (Suc k). \<forall>p. reg_of t v = Some p \<longrightarrow> \<not> is_xmm p)
      \<and> map_of [(11, {RAX, RCX, RBP})] k = Some (occupied t (live_virtuals t0 k) (live_physicals call_code k))"
      using f free by (simp add: k live call_physicals occ [simplified] t is_xmm_def)
  qed
qed

theorem register_allocation_sound_witness:
  "\<exists>t0 t calls. calculate_vreg_live_ranges (register_tracker_new 2) call_code = Inr (t0, call_code)
     \<and> do_allocate t0 call_code = Inr (t, calls) \<and> physical_register (virt t ! 0) = Some RAX
     \<and> map (run_code (\<lambda>k xs i. k + 7) (\<lambda>k p. 1) (\<lambda>_. {}) (\<lambda>r. r) call_code (\<lambda>_. 0) 21) (instr_uses call_code 21)
         = map (\<lambda>r. run_code (\<lambda>k xs i. k + 7) (\<lambda>k p. 2) (saved_at t calls call_code) (assigned t) call_code (\<lambda>_. 0) 21 (assigned t r))
             (instr_uses call_code 21)"
proof -
  obtain t0 where t0: "calculate_vreg_live_ranges (register_tracker_new 2) call_code = Inr (t0, call_code)"
    using ranges_computed [OF call_no_dead] by blast
  with call_summary obtain t where t: "do_allocate t0 call_code = Inr (t, [(11, {RAX, RCX, RBP})])"
      "map (\<lambda>tr. (first_def tr, last_use tr)) (virt t0) = [(Some 0, Some 21), (Some 1, Some 11)]"
      "map physical_register (virt t) = [Some RAX, Some RCX]"
    by (auto simp: summary_of_def res_simps)
  have "physical_register (virt t ! 0) = Some RAX" using t(3) by (cases "virt t") auto
  with t0 t(1) register_allocation_sound [OF call_no_dead t0 t(1) call_code_respected [OF t(2,3)], of "\<lambda>_. 0" "\<lambda>_. 0" 21
      "\<lambda>k xs i. k + 7" "\<lambda>k p. 1" "\<lambda>k p. 2"]
  show ?thesis by (auto simp: call_length)
qed

theorem commit_writes_assignment_witness:
  "get_use_defs (PUSH (sample_register (PhysicalR RAX))) = Inr [Use (PhysicalR RAX)]"
  using commit_writes_assignment [of "PUSH (sample_register (VirtualR 0 General))" "[Use (VirtualR 0 General)]"
      "\<lparr>virt = [register_track_default\<lparr>physical_register := Some RAX\<rparr>], phys = (\<lambda>_. register_track_default)\<rparr>" 0
      "PUSH (sample_register (PhysicalR RAX))"]
  by (simp add: get_use_defs_def sample_register_def commit_operands_def replace_global_def commit_operand_def)

text \<open>
  The allocator can lose a value.  The destination of a load that nothing uses is given a register without looking at
  what is live there, here RAX, which holds the value stored next; a definition nothing uses that is no load stops the
  allocator; and a register that is moved after the scan has passed a call, here from RAX to RDX, is not in the set
  recorded for the call, so that the call is surrounded by a push and a pop of the old register only, although the calling convention
  lets the callee overwrite the new one.
\<close>

theorem allocator_loses_values:
  "allocate [MoveI MOV sample_immediate (sample_register (VirtualR 0 General)),
       MoveI MOV (mem_base_displ W64 (PhysicalR RBP) 8) (sample_register (VirtualR 1 General)),
       MoveI MOV (sample_register (VirtualR 0 General)) (mem_base_displ W64 (PhysicalR RBP) 16)] 2 0
     = Inr [MoveI MOV sample_immediate (sample_register (PhysicalR RAX)),
         MoveI MOV (mem_base_displ W64 (PhysicalR RBP) 8) (sample_register (PhysicalR RAX)),
         MoveI MOV (sample_register (PhysicalR RAX)) (mem_base_displ W64 (PhysicalR RBP) 16)]
   \<and> allocate [MoveI MOV sample_immediate (sample_register (VirtualR 0 General))] 1 0 = Inl ExplicitPanic
   \<and> allocate ([MoveI MOV sample_immediate (sample_register (VirtualR 0 General)),
         MoveI MOV sample_immediate (sample_register (PhysicalR RAX)), PUSH (sample_register (PhysicalR RAX)),
         MoveI MOV sample_immediate (sample_register (VirtualR 1 General))] @ replicate 9 NOP
       @ [CALL (sample_register (VirtualR 1 General)) 0 0] @ replicate 9 NOP
       @ [MoveI MOV (sample_register (VirtualR 0 General)) (mem_base_displ W64 (PhysicalR RBP) 8)]) 2 0
     = Inr ([MoveI MOV sample_immediate (sample_register (PhysicalR RDX)),
         MoveI MOV sample_immediate (sample_register (PhysicalR RAX)), PUSH (sample_register (PhysicalR RAX)),
         MoveI MOV sample_immediate (sample_register (PhysicalR RCX)), PUSH (sample_register (PhysicalR RAX))] @ replicate 8 NOP
       @ [CALL (sample_register (PhysicalR RCX)) 0 0] @ replicate 8 NOP @ [POP (sample_register (PhysicalR RAX)),
         MoveI MOV (sample_register (PhysicalR RDX)) (mem_base_displ W64 (PhysicalR RBP) 8)])
   \<and> RDX \<in> set CALLER_SAVED"
  by code_simp

end
