(* ===== verification/Spec2Isabelle.thy ===== *)
theory Spec2Isabelle
  imports Opt_Fold Opt_Branch X86_Fold Interpreter_Facts Ring_Buffer Bump_Alloc Guest_Devices Page_Fault Allocation_Sound
begin

text \<open>
  A verification library for Borealis and Brig.

  \<^bold>\<open>The program.\<close>  \<open>borealis\<close> (\<open>borealis/borealis/src\<close>) compiles a Sail model of an instruction set,
  through the intermediate language Boom, to Rudder, optimises the Rudder functions (\<open>rudder/opt\<close>, with the analyses of
  \<open>rudder/analysis\<close>) and serialises them.  \<open>brig\<close> is a unikernel that loads the result and runs a guest of that
  instruction set: it initialises the guest's register file by interpreting two of the functions
  (\<open>brig/dbt/src/interpret.rs\<close>, \<open>register_file.rs\<close>), translates the others to host code on demand
  (\<open>brig/dbt/src/x86\<close>), and emulates the machine around them: memory (\<open>brig/brig/src/guest/devices/arm/mmu.rs\<close>,
  \<open>brig/brig/src/page_fault_handler.rs\<close>, \<open>brig/kernel/src/arch/x86/memory.rs\<close>), exceptions, the interrupt
  controllers, the timer and the UART.  Both sides share the crate \<open>common\<close>, which holds the representation itself.

  \<^bold>\<open>Conventions.\<close>  A computation that can panic has a result of type \<open>error + 'a\<close> (\<open>Prelude\<close>); every panic,
  failed unwrap, assertion and \<open>todo!\<close> of the code is a branch of the model.  Machine integers are words where they can wrap,
  and naturals with their range checks written out elsewhere (\<open>Rust_Arith\<close>); what an overflow does depends on the
  build profile, the field \<open>overflow_checks\<close> of the environment \<open>rust_env\<close> that operations take as their first argument.
  Stateful code passes its state explicitly; arenas are vectors and references indices.  Code of other crates is a parameter,
  with what the code relies on as a named hypothesis: \<open>pte_laws\<close>, \<open>address_laws\<close>, \<open>virt_laws\<close> and \<open>mapper_laws\<close> (\<open>x86_64\<close>),
  \<open>pages_aligned\<close> (\<open>aarch64_paging\<close>), decoded instructions (\<open>iced_x86\<close>), floating point.  Each property with a hypothesis is
  applied to a concrete instance by the theorem that bears its name with the ending \<open>_witness\<close>.

  \<^bold>\<open>The theories.\<close>
  \<^item> Foundations: \<open>Prelude\<close> (results, loops, the collection \<open>res_simps\<close>), \<open>Rust_Arith\<close> (integers), \<open>Bits\<close>
    (\<open>common/src/bits.rs\<close>, \<open>width_helpers.rs\<close>), \<open>Bytes\<close> (little-endian bytes), \<open>Arena\<close> (\<open>common/src/arena.rs\<close>, locale
    \<open>arena_contract\<close>).
  \<^item> The representation: \<open>Rudder_Types\<close>, \<open>Rudder_Constant\<close>, \<open>Rudder_Statement\<close> and \<open>Rudder_Block\<close>
    (\<open>common/src/rudder\<close>): types, constants and their arithmetic, statements, and blocks, functions and models.  Well-formedness
    of constants is kept by every operation, vector elements stay inside their vector, the type of a cast that is built is the type asked
    for, and the iteration over blocks visits the reachable ones, each once.
  \<^item> Its meaning: \<open>Register_File\<close> (\<open>brig/dbt/src/register_file.rs\<close>, locale \<open>byte_store\<close>), \<open>Named_Registers\<close> (the same by
    name and width, locale \<open>named_registers\<close>), \<open>Interpreter\<close> (\<open>brig/dbt/src/interpret.rs\<close>, the whole interpreter) and
    \<open>Interpreter_Facts\<close>: the fuel is only a bound, add-with-carry sets the right flags, registers give back what was written.
  \<^item> Analyses: \<open>Analysis\<close> (\<open>dfa.rs\<close>, \<open>pure.rs\<close>, \<open>loopy.rs\<close>, \<open>cfg.rs\<close>) and \<open>Purity\<close>: the control flow graph is exact,
    the loop analysis sound, the purity analysis terminates and calls a function pure only if interpreting it leaves the registers alone.
  \<^item> The optimiser: \<open>Refinement\<close> (locale \<open>block_simulation\<close>), \<open>Statement_Semantics\<close> and \<open>Block_Rewrite\<close> are the
    proof theory of passes; \<open>Opt_Control\<close> (the pass manager of \<open>opt/mod.rs\<close>, jump threading, the panic asserter, locale
    \<open>sound_pass\<close>), \<open>Opt_Dead\<close> (dead statements, writes and symbols), \<open>Opt_Uses\<close> (variable elimination,
    constant propagation, local tuples, useless casts), \<open>Opt_Inline\<close> (\<open>block_inliner.rs\<close>), \<open>Opt_Branch\<close>
    (\<open>branch_simplification.rs\<close> with the text of statements, \<open>phi_analysis.rs\<close>) and \<open>Opt_Fold\<close>
    (\<open>constant_folding.rs\<close>, \<open>bit_simplification.rs\<close>).  A run of the model that returns is reproduced exactly after a
    pass; a folded constant has the bits the interpreter computes.  The passes that copy a statement instead of
    referring to it (useless casts, bit simplification, folding of masks) and the comparison of blocks by their text
    are shown not to have this property.
  \<^item> The back end: \<open>X86_Node\<close>, \<open>X86_Emitter\<close>, \<open>X86_Denote\<close> and \<open>X86_Fold\<close> (\<open>x86/emitter/mod.rs\<close>): the value
    nodes and their simplifications, measured against the denotation \<open>den\<close>, in which shifts take their counts as the processor does; \<open>X86_Instruction\<close> (\<open>x86/encoder/mod.rs\<close>):
    instructions and the registers they use and define; \<open>Register_Allocator\<close>, \<open>Live_Ranges\<close>, \<open>Allocation_Scan\<close> and
    \<open>Allocation_Sound\<close> (\<open>x86/register_allocator.rs\<close>): exact live ranges, the invariant of the backward scan, and that allocated code reads
    what the code on virtual registers reads, across calls too.  \<open>Bump_Alloc\<close> is the translator's allocator (\<open>bump_alloc.rs\<close>).
  \<^item> Memory: \<open>Host_Paging\<close> (\<open>kernel/src/arch/x86/memory.rs\<close>, locale \<open>page_map\<close>): the lazily invalidated page tables are a map from
    pages to frames; \<open>Arm_Exception\<close> and \<open>Mmu\<close> (\<open>guest/devices/arm/mmu.rs\<close>): exception entry, the table walk, the TLBs and faults;
    \<open>Address_Space\<close> (\<open>brig/common/src/memory.rs\<close>); \<open>Page_Fault\<close> (\<open>page_fault_handler.rs\<close>): the host's mappings shadow
    the guest's tables after any fault, and a fault on backed memory is resolved.  This is where the components
    meet: the handler calls the guest's translation, the address space, the host's tables and the devices.
  \<^item> Devices: \<open>Irq_Controller\<close> (the trait of \<open>brig/common/src/device.rs\<close>, locale \<open>irq_controller\<close>), its provider \<open>Gic\<close>
    (\<open>a9gic.rs\<close>), its clients \<open>Pl011\<close>, \<open>Pl190\<close> (\<open>brig/devices/primecell\<close>) and \<open>Generic_Timer\<close>, and \<open>Guest_Devices\<close>: an
    interrupt of the UART reaches the CPU.  \<open>Ring_Buffer\<close> (\<open>common/src/ringbuffer.rs\<close>, locale \<open>byte_fifo\<close>) is the channel between host and guest.

  \<^bold>\<open>Bounds.\<close>  \<open>interpret\<close> has fuel, since Rudder functions may loop; \<open>interpret_fuel_independent\<close> shows that any
  amount that is enough gives the same answer, and the properties of passes hold for every amount.  The end of an interrupt
  follows the chain of active lines with fuel 1021, one more than there are lines, which \<open>gic_eoi_returns\<close> shows to be enough.
  The purity analysis recurses over calls at most as deep as there are functions, \<open>statement_typ\<close> over operands at most as deep as
  the arena is long, the table walk over the levels 1 to 3.  An operation on the host's tables needs at most three new tables, so the
  properties ask for three free pages for each, and for six where the fault handler also maps the page in the guest physical window.  Addresses of the guest have 40 bits, as the code masks them.

  \<^bold>\<open>Not modelled.\<close>  The Sail bindings, the Jib and Boom front ends with their passes and the translation to Rudder: their
  meaning is that of Sail, of which the repository has no description.  Of the optimiser the function inliner, the folding of vector
  accesses and the removal of unused parameters.  The driver of the translation (\<open>translate.rs\<close>), the selection of operands
  (\<open>to_operand.rs\<close>), the encoding by \<open>iced_x86\<close> and the layout of blocks, whose correctness is a statement about the
  x86 instruction set.  The operations of the emitter that append instructions.  The loop that runs translated blocks, the virtio
  devices, and the kernel's boot code, interrupt tables, virtual machine extensions and drivers: hardware accesses through unsafe code.
  Register allocation is proved for straight-line code; a call leaves arbitrary values in the registers its callee may overwrite, and the pushes and
  pops the allocator writes around it are taken for their effect (\<open>saved_at\<close>).  That they save every register that is live is
  a condition, since a register may be moved after its call was recorded (\<open>allocator_loses_values\<close>).  Concurrency is not modelled: devices are stepped one access at a time.
\<close>

end
